(* ===== verification/Prelude.thy ===== *)
theory Prelude
  imports "HOL-Library.Word" "HOL-Library.Monad_Syntax"
begin

text \<open>
  Shared vocabulary of the development: machine integers, simulated time, the model of
  \<^verbatim>\<open>std::map\<close> as an association list in key order, assertions in the option
  monad (\<open>None\<close> is a run that aborts: a failed \<open>NS_ASSERT\<close>, an \<open>NS_ABORT\<close> or a
  null pointer), and the two interface locales every component rests on: stores whose
  records expire, and wire formats.
\<close>

unbundle bit_operations_syntax

named_theorems smap_intros \<open>operations that keep a std::map in key order\<close>

section \<open>Machine integers and time\<close>

type_synonym u8 = "8 word"
type_synonym u16 = "16 word"
type_synonym u32 = "32 word"
type_synonym u64 = "64 word"

text \<open>
  \<^verbatim>\<open>ns3::Time\<close> is an \<open>int64_t\<close> count of nanoseconds. Its arithmetic is signed, so
  every execution the language defines agrees with the integers; where the code can leave
  the range of \<open>int64_t\<close> a property says so.
\<close>

type_synonym time = int

abbreviation int64_max :: int where
  "int64_max \<equiv> 9223372036854775807"

lemma unat_succ_less:
  fixes w v :: "'a::len word"
  assumes "w < v"
  shows "unat (w + 1) = Suc (unat w)"
proof -
  have "unat v < 2 ^ LENGTH('a)" by (rule unsigned_less)
  moreover have "unat w < unat v" using assms by (simp add: word_less_nat_alt)
  ultimately have "Suc (unat w) < 2 ^ LENGTH('a)" by linarith
  then show ?thesis by (simp add: unat_word_ariths)
qed

section \<open>Assertions\<close>

definition ensure :: "bool \<Rightarrow> unit option" where
  "ensure b = (if b then Some () else None)"

lemma ensure_simps [simp]:
  "ensure True = Some ()" "ensure False = None"
  by (simp_all add: ensure_def)

lemma ensure_eq_Some [simp]: "ensure b = Some u \<longleftrightarrow> b"
  by (simp add: ensure_def)

lemma bind_Some_elim:
  assumes "Option.bind m f = Some y"
  obtains x where "m = Some x" and "f x = Some y"
  using assms by (auto simp: bind_eq_Some_conv)

text \<open>A loop whose body may abort.\<close>

fun fold_opt :: "('a \<Rightarrow> 's \<Rightarrow> 's option) \<Rightarrow> 'a list \<Rightarrow> 's \<Rightarrow> 's option" where
  "fold_opt f [] s = Some s"
| "fold_opt f (x # xs) s = do { s \<leftarrow> f x s; fold_opt f xs s }"

lemma fold_opt_inv:
  assumes "fold_opt f xs s = Some s'" and "P s"
    and "\<And>x s s'. x \<in> set xs \<Longrightarrow> P s \<Longrightarrow> f x s = Some s' \<Longrightarrow> P s'"
  shows "P s'"
  using assms
proof (induction xs arbitrary: s)
  case (Cons x xs)
  obtain s1 where s1: "f x s = Some s1" and rest: "fold_opt f xs s1 = Some s'"
    using Cons.prems(1) by (auto elim: bind_Some_elim)
  have "P s1" using Cons.prems(2,3) s1 by auto
  from Cons.IH [OF rest this] Cons.prems(3) show ?case by auto
qed simp

section \<open>The model of std::map\<close>

text \<open>
  A \<^verbatim>\<open>std::map\<close> is the list of its pairs in increasing key order, so that a loop
  over the map is a loop over the list. \<open>find\<close> is \<^term>\<open>map_of\<close>, \<open>m[k] = v\<close> is
  \<open>map_put\<close>, \<open>insert\<close> (which keeps an existing value) is \<open>map_insert\<close> and \<open>erase\<close> is
  \<open>map_erase\<close>.
\<close>

definition smap :: "('k::linorder \<times> 'v) list \<Rightarrow> bool" where
  "smap m \<longleftrightarrow> sorted_wrt (<) (map fst m)"

fun map_put :: "'k::linorder \<Rightarrow> 'v \<Rightarrow> ('k \<times> 'v) list \<Rightarrow> ('k \<times> 'v) list" where
  "map_put k v [] = [(k, v)]"
| "map_put k v ((a, b) # m) =
     (if k < a then (k, v) # (a, b) # m
      else if k = a then (k, v) # m
      else (a, b) # map_put k v m)"

definition map_insert :: "'k::linorder \<Rightarrow> 'v \<Rightarrow> ('k \<times> 'v) list \<Rightarrow> ('k \<times> 'v) list" where
  "map_insert k v m = (if map_of m k = None then map_put k v m else m)"

definition map_erase :: "'k \<Rightarrow> ('k \<times> 'v) list \<Rightarrow> ('k \<times> 'v) list" where
  "map_erase k m = filter (\<lambda>(a, b). a \<noteq> k) m"

definition map_vals :: "('k \<Rightarrow> 'v \<Rightarrow> 'w) \<Rightarrow> ('k \<times> 'v) list \<Rightarrow> ('k \<times> 'w) list" where
  "map_vals f m = map (\<lambda>(k, v). (k, f k v)) m"

lemma map_of_map_put [simp]: "map_of (map_put k v m) = (map_of m)(k \<mapsto> v)"
  by (induction m) (auto simp: fun_eq_iff)

lemma map_of_map_erase [simp]: "map_of (map_erase k m) = (map_of m)(k := None)"
  by (induction m) (auto simp: map_erase_def fun_eq_iff)

lemma map_of_map_insert:
  "map_of (map_insert k v m) = (if map_of m k = None then (map_of m)(k \<mapsto> v) else map_of m)"
  by (simp add: map_insert_def)

lemma map_of_map_vals [simp]: "map_of (map_vals f m) k = map_option (f k) (map_of m k)"
  by (induction m) (auto simp: map_vals_def)

lemma keys_map_put [simp]: "fst ` set (map_put k v m) = insert k (fst ` set m)"
  by (induction k v m rule: map_put.induct) (simp_all add: insert_commute)

lemma map_put_twice: "map_put k v (map_put k w m) = map_put k v m"
  by (induction m) auto

lemma set_map_put_subset: "set (map_put k v m) \<subseteq> insert (k, v) (set m)"
  by (induction m) (auto split: if_splits)

lemma smap_Nil [simp, smap_intros]: "smap []"
  by (simp add: smap_def)

lemma smap_Cons: "smap ((k, v) # m) \<longleftrightarrow> (\<forall>a \<in> fst ` set m. k < a) \<and> smap m"
  by (simp add: smap_def)

lemma smap_put [smap_intros]: "smap m \<Longrightarrow> smap (map_put k v m)"
proof (induction m)
  case (Cons kv m)
  obtain a b where kv: "kv = (a, b)" by (cases kv)
  with Cons have "smap (map_put k v m)" "smap m" "\<forall>c \<in> fst ` set m. a < c"
    by (auto simp: smap_Cons)
  then show ?case
    using kv by (cases k a rule: linorder_cases) (auto simp: smap_Cons dest: less_trans)
qed (simp add: smap_def)

lemma smap_insert [smap_intros]: "smap m \<Longrightarrow> smap (map_insert k v m)"
  by (simp add: map_insert_def smap_put)

lemma smap_filter [smap_intros]: "smap m \<Longrightarrow> smap (filter P m)"
  by (induction m) (auto simp: smap_Cons)

lemma smap_erase [smap_intros]: "smap m \<Longrightarrow> smap (map_erase k m)"
  by (simp add: map_erase_def smap_filter)

lemma map_fst_map_vals [simp]: "map fst (map_vals f m) = map fst m"
  by (induction m) (auto simp: map_vals_def)

lemma smap_vals [smap_intros]: "smap m \<Longrightarrow> smap (map_vals f m)"
  by (simp add: smap_def)

lemma smap_distinct: "smap m \<Longrightarrow> distinct (map fst m)"
  by (simp add: smap_def strict_sorted_iff)

lemma smap_map_of_iff: "smap m \<Longrightarrow> map_of m k = Some v \<longleftrightarrow> (k, v) \<in> set m"
  by (metis map_of_SomeD map_of_is_SomeI smap_distinct)

lemma map_of_filter_smap:
  "smap m \<Longrightarrow> map_of (filter (\<lambda>(k, v). P k v) m) k =
     (case map_of m k of None \<Rightarrow> None | Some v \<Rightarrow> if P k v then Some v else None)"
proof (induction m)
  case (Cons kv m)
  obtain a b where ab: "kv = (a, b)" by (cases kv)
  with Cons.prems have *: "smap m" "a \<notin> fst ` set m" by (auto simp: smap_Cons)
  then have "map_of m a = None" by (simp add: map_of_eq_None_iff)
  with * Cons.IH ab show ?case by (auto split: option.splits)
qed simp

lemma smap_eqI:
  assumes "smap m" and "smap m'" and "map_of m = map_of m'"
  shows "m = m'"
  using assms
proof (induction m arbitrary: m')
  case Nil
  then show ?case by (cases m') (auto simp: fun_eq_iff split: if_splits)
next
  case (Cons kv m)
  obtain a b where kv: "kv = (a, b)" by (cases kv)
  have "map_of m' a = Some b" using Cons.prems(3) kv by (metis map_of_Cons_code(2))
  then obtain c d n where m': "m' = (c, d) # n" by (cases m') auto
  have fresh: "map_of m a = None" "map_of n c = None"
    using Cons.prems(1,2) kv m' by (auto simp: smap_Cons map_of_eq_None_iff)
  have "a = c"
  proof (rule ccontr)
    assume "a \<noteq> c"
    then have "a \<in> fst ` set n" "c \<in> fst ` set m"
      using Cons.prems(3) kv m' \<open>map_of m' a = Some b\<close>
      by (metis map_of_Cons_code(2) map_of_eq_None_iff option.distinct(1))+
    then have "c < a" "a < c" using Cons.prems(1,2) kv m' by (auto simp: smap_Cons)
    then show False by simp
  qed
  moreover from this have "b = d"
    using \<open>map_of m' a = Some b\<close> m' by simp
  moreover have "map_of m = map_of n"
  proof
    fix k
    show "map_of m k = map_of n k"
      using fun_cong [OF Cons.prems(3), of k] fresh kv m' \<open>a = c\<close> by (auto split: if_splits)
  qed
  ultimately show ?case
    using Cons.IH [of n] Cons.prems(1,2) kv m' by (simp add: smap_Cons)
qed

lemma map_put_last: "\<forall>a \<in> fst ` set m. a < k \<Longrightarrow> map_put k v m = m @ [(k, v)]"
  by (induction m) (auto dest: less_asym)

lemma map_insert_last:
  assumes "\<forall>a \<in> fst ` set m. a < k"
  shows "map_insert k v m = m @ [(k, v)]"
proof -
  have "map_of m k = None" using assms by (auto simp: map_of_eq_None_iff)
  with assms show ?thesis by (simp add: map_insert_def map_put_last)
qed

lemma smap_append:
  "smap (m @ n) \<longleftrightarrow> smap m \<and> smap n \<and> (\<forall>a \<in> fst ` set m. \<forall>b \<in> fst ` set n. a < b)"
  by (auto simp: smap_def sorted_wrt_append)

section \<open>Interfaces\<close>

subsection \<open>Stores whose records expire\<close>

text \<open>
  Several components keep a vector of time-stamped records and call \<open>Purge\<close> before they
  look at it: \<open>IdCache\<close>, \<open>RequestQueue\<close> and \<open>Neighbors\<close>. The contract: purging keeps
  exactly the live records, in order, and a record that is dead stays dead.
\<close>

locale expiring_store =
  fixes purge :: "time \<Rightarrow> 's \<Rightarrow> 's"
    and items :: "'s \<Rightarrow> 'a list"
    and live :: "time \<Rightarrow> 'a \<Rightarrow> bool"
  assumes items_purge: "items (purge now s) = filter (live now) (items s)"
    and live_antimono: "now \<le> now' \<Longrightarrow> live now' a \<Longrightarrow> live now a"
begin

lemma items_purge_idem: "items (purge now (purge now s)) = items (purge now s)"
  by (simp add: items_purge)

lemma items_purge_absorb:
  assumes "now \<le> now'"
  shows "items (purge now' (purge now s)) = items (purge now' s)"
  using assms by (auto simp: items_purge intro!: filter_cong dest: live_antimono)

lemma purge_only_live: "a \<in> set (items (purge now s)) \<Longrightarrow> live now a"
  by (simp add: items_purge)

lemma purge_length: "length (items (purge now s)) \<le> length (items s)"
  by (simp add: items_purge)

end

subsection \<open>Wire formats\<close>

text \<open>
  A header is written by \<open>enc\<close> and read back by \<open>dec\<close>, which returns the value and the
  bytes that follow it; \<open>valid\<close> are the values the format can carry.
\<close>

locale codec =
  fixes enc :: "'a \<Rightarrow> u8 list"
    and dec :: "u8 list \<Rightarrow> ('a \<times> u8 list) option"
    and valid :: "'a \<Rightarrow> bool"
  assumes dec_enc: "valid a \<Longrightarrow> dec (enc a @ rest) = Some (a, rest)"
begin

lemma dec_enc_alone: "valid a \<Longrightarrow> dec (enc a) = Some (a, [])"
  using dec_enc [of a "[]"] by simp

lemma enc_inj: "valid a \<Longrightarrow> valid b \<Longrightarrow> enc a = enc b \<Longrightarrow> a = b"
  by (metis dec_enc_alone option.inject prod.inject)

lemma enc_prefix_free:
  "valid a \<Longrightarrow> valid b \<Longrightarrow> enc a @ r = enc b @ r' \<Longrightarrow> a = b \<and> r = r'"
  by (metis dec_enc option.inject prod.inject)

end

text \<open>A format of fixed width.\<close>

locale fixed_codec = codec +
  fixes width :: nat
  assumes enc_length: "length (enc a) = width"
begin

lemma enc_split: "take width (enc a @ rest) = enc a" "drop width (enc a @ rest) = rest"
  by (simp_all add: enc_length)

end

end
