(* ===== verification/Net_Base.thy ===== *)
theory Net_Base
  imports Prelude
begin

text \<open>
  The ns-3 classes AODV is written over, as far as it uses them: IPv4 addresses, masks and
  interface addresses (src/network/utils/ipv4-address.cc,
  src/internet/model/ipv4-interface-address.cc), the route object, the big-endian accessors
  of \<^verbatim>\<open>Buffer::Iterator\<close>, packets with their tags, timers, and the conversions of
  \<^verbatim>\<open>Time\<close> at the nanosecond resolution.
\<close>

section \<open>IPv4 addresses\<close>

text \<open>
  An address is its 32-bit value: \<open>operator==\<close> and \<open>operator<\<close> compare \<open>m_address\<close> only, and
  nothing in AODV reads \<open>m_initialized\<close>.
\<close>

type_synonym ip = u32

definition Ipv4Address_default :: ip where
  "Ipv4Address_default = 0x66666666"

definition Ipv4Address_GetLoopback :: ip where
  "Ipv4Address_GetLoopback = 0x7f000001"

definition Ipv4Address_GetBroadcast :: ip where
  "Ipv4Address_GetBroadcast = 0xffffffff"

definition Ipv4Address_IsBroadcast :: "ip \<Rightarrow> bool" where
  "Ipv4Address_IsBroadcast a \<longleftrightarrow> a = 0xffffffff"

definition Ipv4Address_IsMulticast :: "ip \<Rightarrow> bool" where
  "Ipv4Address_IsMulticast a \<longleftrightarrow> 0xe0000000 \<le> a \<and> a \<le> 0xefffffff"

definition Ipv4Address_IsLocalMulticast :: "ip \<Rightarrow> bool" where
  "Ipv4Address_IsLocalMulticast a \<longleftrightarrow> a AND 0xffffff00 = 0xe0000000"

definition Ipv4Address_CombineMask :: "ip \<Rightarrow> u32 \<Rightarrow> ip" where
  "Ipv4Address_CombineMask a msk = a AND msk"

definition Ipv4Mask_GetOnes :: u32 where
  "Ipv4Mask_GetOnes = 0xffffffff"

definition Ipv4Address_IsSubnetDirectedBroadcast :: "ip \<Rightarrow> u32 \<Rightarrow> bool" where
  "Ipv4Address_IsSubnetDirectedBroadcast a msk \<longleftrightarrow>
     msk \<noteq> Ipv4Mask_GetOnes \<and> a OR msk = Ipv4Address_GetBroadcast"

datatype InterfaceAddressScope = HOST | LINK | GLOBAL

record Ipv4InterfaceAddress =
  ia_local :: ip
  ia_mask :: u32
  ia_broadcast :: ip
  ia_scope :: InterfaceAddressScope
  ia_secondary :: bool

definition Ipv4InterfaceAddress_default :: Ipv4InterfaceAddress where
  "Ipv4InterfaceAddress_default =
     \<lparr>ia_local = Ipv4Address_default, ia_mask = 0x66666666, ia_broadcast = Ipv4Address_default,
      ia_scope = GLOBAL, ia_secondary = False\<rparr>"

definition Ipv4InterfaceAddress_make :: "ip \<Rightarrow> u32 \<Rightarrow> Ipv4InterfaceAddress" where
  "Ipv4InterfaceAddress_make a msk =
     \<lparr>ia_local = a, ia_mask = msk, ia_broadcast = a OR NOT msk,
      ia_scope = (if a = Ipv4Address_GetLoopback then HOST else GLOBAL),
      ia_secondary = False\<rparr>"

text \<open>
  \<open>Ipv4Route\<close>: AODV shares these objects by pointer between copies of a routing table
  entry, but always stores a copy back under the same destination after changing it, so the
  table never observes the sharing and an entry holds its route by value.
\<close>

type_synonym dev = nat

record Ipv4Route =
  rt_dest :: ip
  rt_source :: ip
  rt_gateway :: ip
  rt_dev :: "dev option"

definition Ipv4Route_default :: Ipv4Route where
  "Ipv4Route_default =
     \<lparr>rt_dest = Ipv4Address_default, rt_source = Ipv4Address_default,
      rt_gateway = Ipv4Address_default, rt_dev = None\<rparr>"

section \<open>Interfaces of a node\<close>

text \<open>
  What AODV asks of \<^verbatim>\<open>Ipv4L3Protocol\<close>: the interfaces in index order. A device is a
  number; interface 0 is the loopback.
\<close>

record Ipv4Interface =
  if_dev :: dev
  if_addrs :: "Ipv4InterfaceAddress list"
  if_up :: bool
  if_forwarding :: bool
  if_arp :: "nat option"

type_synonym Ipv4 = "Ipv4Interface list"

definition Ipv4_GetInterface :: "Ipv4 \<Rightarrow> int \<Rightarrow> Ipv4Interface option" where
  "Ipv4_GetInterface v i =
     (if 0 \<le> i \<and> nat i < length v then Some (v ! nat i) else None)"

fun Ipv4_find_interface :: "(Ipv4Interface \<Rightarrow> bool) \<Rightarrow> Ipv4 \<Rightarrow> int \<Rightarrow> int" where
  "Ipv4_find_interface P [] k = -1"
| "Ipv4_find_interface P (f # fs) k = (if P f then k else Ipv4_find_interface P fs (k + 1))"

definition Ipv4_GetInterfaceForAddress :: "Ipv4 \<Rightarrow> ip \<Rightarrow> int" where
  "Ipv4_GetInterfaceForAddress v a =
     Ipv4_find_interface (\<lambda>f. list_ex (\<lambda>ia. ia_local ia = a) (if_addrs f)) v 0"

definition Ipv4_GetInterfaceForDevice :: "Ipv4 \<Rightarrow> dev option \<Rightarrow> int" where
  "Ipv4_GetInterfaceForDevice v d = Ipv4_find_interface (\<lambda>f. Some (if_dev f) = d) v 0"

definition Ipv4_GetNetDevice :: "Ipv4 \<Rightarrow> int \<Rightarrow> dev option" where
  "Ipv4_GetNetDevice v i = map_option if_dev (Ipv4_GetInterface v i)"

definition Ipv4_GetAddress :: "Ipv4 \<Rightarrow> int \<Rightarrow> nat \<Rightarrow> Ipv4InterfaceAddress option" where
  "Ipv4_GetAddress v i k =
     do {
       f \<leftarrow> Ipv4_GetInterface v i;
       if k < length (if_addrs f) then Some (if_addrs f ! k) else None
     }"

definition Ipv4_GetNAddresses :: "Ipv4 \<Rightarrow> int \<Rightarrow> nat option" where
  "Ipv4_GetNAddresses v i = map_option (\<lambda>f. length (if_addrs f)) (Ipv4_GetInterface v i)"

definition Ipv4_IsForwarding :: "Ipv4 \<Rightarrow> int \<Rightarrow> bool option" where
  "Ipv4_IsForwarding v i = map_option if_forwarding (Ipv4_GetInterface v i)"

definition Ipv4_addr_match :: "ip \<Rightarrow> Ipv4InterfaceAddress \<Rightarrow> bool" where
  "Ipv4_addr_match a ia \<longleftrightarrow> a = ia_local ia \<or> a = ia_broadcast ia"

definition Ipv4_IsDestinationAddress :: "Ipv4 \<Rightarrow> bool \<Rightarrow> ip \<Rightarrow> int \<Rightarrow> bool option" where
  "Ipv4_IsDestinationAddress v weakEs a iif =
     do {
       f \<leftarrow> Ipv4_GetInterface v iif;
       Some (list_ex (Ipv4_addr_match a) (if_addrs f) \<or>
             Ipv4Address_IsMulticast a \<or> Ipv4Address_IsBroadcast a \<or>
             (weakEs \<and> list_ex (\<lambda>g. list_ex (Ipv4_addr_match a) (if_addrs g))
                          (take (nat iif) v @ drop (Suc (nat iif)) v)))
     }"

lemma Ipv4_find_interface_bounds:
  "Ipv4_find_interface P v k = -1 \<or>
   (k \<le> Ipv4_find_interface P v k \<and> Ipv4_find_interface P v k < k + int (length v))"
  by (induction P v k rule: Ipv4_find_interface.induct) auto

lemma Ipv4_find_interface_nth:
  assumes "0 \<le> k" and "Ipv4_find_interface P v k \<noteq> -1"
  shows "P (v ! nat (Ipv4_find_interface P v k - k))"
  using assms
proof (induction P v k rule: Ipv4_find_interface.induct)
  case (2 P f fs k)
  show ?case
  proof (cases "P f")
    case False
    with 2 have *: "P (fs ! nat (Ipv4_find_interface P fs (k + 1) - (k + 1)))"
      and ne: "Ipv4_find_interface P fs (k + 1) \<noteq> -1" by auto
    have "k + 1 \<le> Ipv4_find_interface P fs (k + 1)"
      using Ipv4_find_interface_bounds [of P fs "k + 1"] ne by auto
    then have "nat (Ipv4_find_interface P fs (k + 1) - k) =
        Suc (nat (Ipv4_find_interface P fs (k + 1) - (k + 1)))" by linarith
    with * False show ?thesis by simp
  qed simp
qed simp

section \<open>Buffers\<close>

text \<open>
  A buffer under a read iterator is the list of the bytes still to be read; reading past the
  end trips the iterator's assertion. Writing appends.
\<close>

definition WriteHtonU32 :: "u32 \<Rightarrow> u8 list" where
  "WriteHtonU32 d =
     [ucast (drop_bit 24 d AND 0xff), ucast (drop_bit 16 d AND 0xff),
      ucast (drop_bit 8 d AND 0xff), ucast (d AND 0xff)]"

fun ReadU8 :: "u8 list \<Rightarrow> (u8 \<times> u8 list) option" where
  "ReadU8 [] = None"
| "ReadU8 (b # bs) = Some (b, bs)"

fun ReadNtohU32 :: "u8 list \<Rightarrow> (u32 \<times> u8 list) option" where
  "ReadNtohU32 (a # b # c # d # bs) =
     (let r = 0 OR ucast a;
          r = push_bit 8 r OR ucast b;
          r = push_bit 8 r OR ucast c;
          r = push_bit 8 r OR ucast d
      in Some (r, bs))"
| "ReadNtohU32 _ = None"

lemma length_WriteHtonU32 [simp]: "length (WriteHtonU32 d) = 4"
  by (simp add: WriteHtonU32_def)

lemma ReadNtohU32_WriteHtonU32 [simp]: "ReadNtohU32 (WriteHtonU32 d @ bs) = Some (d, bs)"
proof -
  have ff: "(0xff :: u32) = mask 8" by (simp add: mask_eq_exp_minus_1)
  have "push_bit 8 (push_bit 8 (push_bit 8
          (ucast (ucast (drop_bit 24 d AND mask 8) :: u8)) OR
           ucast (ucast (drop_bit 16 d AND mask 8) :: u8)) OR
           ucast (ucast (drop_bit 8 d AND mask 8) :: u8)) OR
           ucast (ucast (d AND mask 8) :: u8) = (d :: u32)" (is "?l = d")
  proof (rule bit_word_eqI)
    fix n assume "n < LENGTH(32)"
    then consider "n < 8" | "8 \<le> n" "n < 16" | "16 \<le> n" "n < 24" | "24 \<le> n" "n < 32"
      by fastforce
    then show "bit ?l n = bit d n"
      by cases (auto simp: bit_simps)
  qed
  then show ?thesis by (simp add: WriteHtonU32_def ff)
qed

interpretation u32_codec: fixed_codec WriteHtonU32 ReadNtohU32 "\<lambda>_. True" 4
  by unfold_locales simp_all

lemma ReadU8_byte [simp]: "ReadU8 ([b] @ bs) = Some (b, bs)"
  by simp

section \<open>Packets\<close>

text \<open>
  A packet is its bytes, its UID and the packet tags AODV and the IP layer attach or read: the TTL, TOS
  and priority tags of the socket (\<open>SocketIpTtlTag\<close>, \<open>SocketIpTosTag\<close>, \<open>SocketPriorityTag\<close>), the
  deferred-output tag (the interface, -1 for none) and the verification tag.
\<close>

record packet =
  p_bytes :: "u8 list"
  p_uid :: u64
  p_ttl :: "u8 option"
  p_oif :: "int option"
  p_verify :: "bool option"
  p_tos :: "u8 option"
  p_priority :: "u8 option"

definition Packet_Create :: packet where
  "Packet_Create = \<lparr>p_bytes = [], p_uid = 0, p_ttl = None, p_oif = None, p_verify = None, p_tos = None,
     p_priority = None\<rparr>"

text \<open>
  \<open>AddHeader\<close> reserves \<open>GetSerializedSize\<close> bytes in front and serialises into them: a header
  that writes more than it announced overruns the buffer. \<open>RemoveHeader\<close> deserialises from
  the front.
\<close>

definition Packet_AddHeader :: "nat \<Rightarrow> u8 list \<Rightarrow> packet \<Rightarrow> packet option" where
  "Packet_AddHeader sz bytes p =
     (if length bytes = sz then Some (p\<lparr>p_bytes := bytes @ p_bytes p\<rparr>) else None)"

definition Packet_RemoveHeader ::
    "(u8 list \<Rightarrow> ('h \<times> u8 list) option) \<Rightarrow> packet \<Rightarrow> ('h \<times> packet) option" where
  "Packet_RemoveHeader des p =
     do {
       (h, rest) \<leftarrow> des (p_bytes p);
       Some (h, p\<lparr>p_bytes := rest\<rparr>)
     }"

text \<open>The fields of the IPv4 header AODV reads or writes.\<close>

record Ipv4Header =
  ih_src :: ip
  ih_dst :: ip
  ih_ttl :: u8
  ih_protocol :: u8

definition Ipv4Header_default :: Ipv4Header where
  "Ipv4Header_default =
     \<lparr>ih_src = Ipv4Address_default, ih_dst = Ipv4Address_default, ih_ttl = 0, ih_protocol = 0\<rparr>"

section \<open>Time conversions at nanosecond resolution\<close>

text \<open>Integer division of C++ truncates towards zero.\<close>

definition tdiv :: "int \<Rightarrow> int \<Rightarrow> int" where
  "tdiv a b = sgn a * sgn b * (\<bar>a\<bar> div \<bar>b\<bar>)"

definition Seconds_int :: "int \<Rightarrow> time" where
  "Seconds_int s = s * 1000000000"

definition MilliSeconds :: "int \<Rightarrow> time" where
  "MilliSeconds m = m * 1000000"

definition MicroSeconds :: "int \<Rightarrow> time" where
  "MicroSeconds m = m * 1000"

definition Time_GetMilliSeconds :: "time \<Rightarrow> int" where
  "Time_GetMilliSeconds t = tdiv t 1000000"

lemma Time_GetMilliSeconds_MilliSeconds [simp]: "Time_GetMilliSeconds (MilliSeconds m) = m"
  by (simp add: Time_GetMilliSeconds_def MilliSeconds_def tdiv_def abs_mult sgn_mult
      mult_sgn_abs flip: mult.assoc)

section \<open>Timers\<close>

text \<open>
  A timer is the time its pending event fires, or \<open>None\<close> when no event is pending. Scheduling
  a timer whose event is still running is a fatal error.
\<close>

type_synonym timer = "time option"

definition Timer_Cancel :: "timer \<Rightarrow> timer" where
  "Timer_Cancel t = None"

definition Timer_Schedule :: "time \<Rightarrow> time \<Rightarrow> timer \<Rightarrow> timer option" where
  "Timer_Schedule now delay t = (if t = None then Some (Some (now + delay)) else None)"

definition Timer_GetDelayLeft :: "time \<Rightarrow> timer \<Rightarrow> time" where
  "Timer_GetDelayLeft now t = (case t of None \<Rightarrow> 0 | Some e \<Rightarrow> e - now)"

end
