(* ===== verification/Aodv_Packet.thy ===== *)
theory Aodv_Packet
  imports Net_Base
begin

text \<open>
  The AODV control messages of src/aodv/model/aodv-packet.cc and aodv-packet.h: the type
  header, RREQ, RREP, RREP-ACK and RERR, with their flag accessors, \<open>Serialize\<close> and
  \<open>Deserialize\<close>, and the packet tags of aodv-routing-protocol.cc. Every header is an
  instance of the wire-format interface \<open>codec\<close>, so what is sent is what is received.
\<close>

section \<open>TypeHeader\<close>

datatype MessageType =
  AODVTYPE_RREQ | AODVTYPE_RREP | AODVTYPE_RERR | AODVTYPE_RREP_ACK | AODVTYPE_RVERIFY

fun MessageType_value :: "MessageType \<Rightarrow> u8" where
  "MessageType_value AODVTYPE_RREQ = 1"
| "MessageType_value AODVTYPE_RREP = 2"
| "MessageType_value AODVTYPE_RERR = 3"
| "MessageType_value AODVTYPE_RREP_ACK = 4"
| "MessageType_value AODVTYPE_RVERIFY = 5"

record TypeHeader =
  th_type :: MessageType
  th_valid :: bool

definition TypeHeader_make :: "MessageType \<Rightarrow> TypeHeader" where
  "TypeHeader_make t = \<lparr>th_type = t, th_valid = True\<rparr>"

definition TypeHeader_GetSerializedSize :: nat where
  "TypeHeader_GetSerializedSize = 1"

definition TypeHeader_Serialize :: "TypeHeader \<Rightarrow> u8 list" where
  "TypeHeader_Serialize h = [MessageType_value (th_type h)]"

text \<open>An unknown type byte only clears \<open>m_valid\<close>; the old type stays (the argument \<open>t0\<close>).\<close>

definition TypeHeader_Deserialize ::
    "MessageType \<Rightarrow> u8 list \<Rightarrow> (TypeHeader \<times> u8 list) option" where
  "TypeHeader_Deserialize t0 bs =
     do {
       (b, bs) \<leftarrow> ReadU8 bs;
       Some
         ((if b = 1 then \<lparr>th_type = AODVTYPE_RREQ, th_valid = True\<rparr>
           else if b = 2 then \<lparr>th_type = AODVTYPE_RREP, th_valid = True\<rparr>
           else if b = 3 then \<lparr>th_type = AODVTYPE_RERR, th_valid = True\<rparr>
           else if b = 4 then \<lparr>th_type = AODVTYPE_RREP_ACK, th_valid = True\<rparr>
           else if b = 5 then \<lparr>th_type = AODVTYPE_RVERIFY, th_valid = True\<rparr>
           else \<lparr>th_type = t0, th_valid = False\<rparr>), bs)
     }"

interpretation type_codec:
  fixed_codec TypeHeader_Serialize "TypeHeader_Deserialize t0" th_valid TypeHeader_GetSerializedSize
proof
  fix a :: TypeHeader and rest :: "u8 list"
  assume "th_valid a"
  then show "TypeHeader_Deserialize t0 (TypeHeader_Serialize a @ rest) = Some (a, rest)"
    by (cases a; cases "th_type a")
      (auto simp: TypeHeader_Serialize_def TypeHeader_Deserialize_def)
qed (simp add: TypeHeader_Serialize_def TypeHeader_GetSerializedSize_def)

section \<open>RREQ\<close>

record RreqHeader =
  rq_flags :: u8
  rq_reserved :: u8
  rq_hopCount :: u8
  rq_requestID :: u32
  rq_dst :: ip
  rq_dstSeqNo :: u32
  rq_origin :: ip
  rq_originSeqNo :: u32

definition RreqHeader_default :: RreqHeader where
  "RreqHeader_default =
     \<lparr>rq_flags = 0, rq_reserved = 0, rq_hopCount = 0, rq_requestID = 0,
      rq_dst = Ipv4Address_default, rq_dstSeqNo = 0, rq_origin = Ipv4Address_default,
      rq_originSeqNo = 0\<rparr>"

definition RreqHeader_GetSerializedSize :: nat where
  "RreqHeader_GetSerializedSize = 23"

definition RreqHeader_Serialize :: "RreqHeader \<Rightarrow> u8 list" where
  "RreqHeader_Serialize h =
     [rq_flags h] @ [rq_reserved h] @ [rq_hopCount h] @ WriteHtonU32 (rq_requestID h) @
     WriteHtonU32 (rq_dst h) @ WriteHtonU32 (rq_dstSeqNo h) @ WriteHtonU32 (rq_origin h) @
     WriteHtonU32 (rq_originSeqNo h)"

definition RreqHeader_Deserialize :: "u8 list \<Rightarrow> (RreqHeader \<times> u8 list) option" where
  "RreqHeader_Deserialize bs =
     do {
       (flags, bs) \<leftarrow> ReadU8 bs;
       (reserved, bs) \<leftarrow> ReadU8 bs;
       (hopCount, bs) \<leftarrow> ReadU8 bs;
       (requestID, bs) \<leftarrow> ReadNtohU32 bs;
       (dst, bs) \<leftarrow> ReadNtohU32 bs;
       (dstSeqNo, bs) \<leftarrow> ReadNtohU32 bs;
       (origin, bs) \<leftarrow> ReadNtohU32 bs;
       (originSeqNo, bs) \<leftarrow> ReadNtohU32 bs;
       Some
         (\<lparr>rq_flags = flags, rq_reserved = reserved, rq_hopCount = hopCount,
           rq_requestID = requestID, rq_dst = dst, rq_dstSeqNo = dstSeqNo, rq_origin = origin,
           rq_originSeqNo = originSeqNo\<rparr>, bs)
     }"

text \<open>The flag accessors, over the bit number each method writes out.\<close>

definition set_flag :: "nat \<Rightarrow> bool \<Rightarrow> u8 \<Rightarrow> u8" where
  "set_flag n f w = (if f then w OR push_bit n 1 else w AND NOT (push_bit n 1))"

definition get_flag :: "nat \<Rightarrow> u8 \<Rightarrow> bool" where
  "get_flag n w \<longleftrightarrow> w AND push_bit n 1 \<noteq> 0"

definition RreqHeader_SetGratuitousRrep :: "bool \<Rightarrow> RreqHeader \<Rightarrow> RreqHeader" where
  "RreqHeader_SetGratuitousRrep f h = h\<lparr>rq_flags := set_flag 5 f (rq_flags h)\<rparr>"

definition RreqHeader_GetGratuitousRrep :: "RreqHeader \<Rightarrow> bool" where
  "RreqHeader_GetGratuitousRrep h = get_flag 5 (rq_flags h)"

definition RreqHeader_SetDestinationOnly :: "bool \<Rightarrow> RreqHeader \<Rightarrow> RreqHeader" where
  "RreqHeader_SetDestinationOnly f h = h\<lparr>rq_flags := set_flag 4 f (rq_flags h)\<rparr>"

definition RreqHeader_GetDestinationOnly :: "RreqHeader \<Rightarrow> bool" where
  "RreqHeader_GetDestinationOnly h = get_flag 4 (rq_flags h)"

definition RreqHeader_SetUnknownSeqno :: "bool \<Rightarrow> RreqHeader \<Rightarrow> RreqHeader" where
  "RreqHeader_SetUnknownSeqno f h = h\<lparr>rq_flags := set_flag 3 f (rq_flags h)\<rparr>"

definition RreqHeader_GetUnknownSeqno :: "RreqHeader \<Rightarrow> bool" where
  "RreqHeader_GetUnknownSeqno h = get_flag 3 (rq_flags h)"

lemma get_flag_bit: "get_flag n w \<longleftrightarrow> n < 8 \<and> bit w n"
proof -
  have "w AND push_bit n 1 \<noteq> 0 \<longleftrightarrow> bit w n" by (simp add: bit_iff_and_push_bit_not_eq_0)
  moreover have "bit w n \<Longrightarrow> n < 8" using bit_imp_le_length [of w n] by simp
  ultimately show ?thesis by (auto simp: get_flag_def)
qed

lemma bit_set_flag: "bit (set_flag n f w) k \<longleftrightarrow> (if k = n then k < 8 \<and> f else bit w k)"
  using bit_imp_le_length [of w k] by (auto simp: set_flag_def bit_simps)

lemma get_set_flag [simp]: "n < 8 \<Longrightarrow> get_flag n (set_flag n f w) = f"
  by (simp add: get_flag_bit bit_set_flag)

lemma get_set_flag_other [simp]: "k \<noteq> n \<Longrightarrow> get_flag k (set_flag n f w) = get_flag k w"
  by (simp add: get_flag_bit bit_set_flag)

interpretation rreq_codec:
  fixed_codec RreqHeader_Serialize RreqHeader_Deserialize "\<lambda>_. True" RreqHeader_GetSerializedSize
  by unfold_locales
    (simp_all add: RreqHeader_Serialize_def RreqHeader_Deserialize_def
      RreqHeader_GetSerializedSize_def)

section \<open>RREP\<close>

record RrepHeader =
  rp_flags :: u8
  rp_prefixSize :: u8
  rp_hopCount :: u8
  rp_dst :: ip
  rp_dstSeqNo :: u32
  rp_origin :: ip
  rp_lifeTime :: u32

definition RrepHeader_make ::
    "u8 \<Rightarrow> u8 \<Rightarrow> ip \<Rightarrow> u32 \<Rightarrow> ip \<Rightarrow> time \<Rightarrow> RrepHeader" where
  "RrepHeader_make prefixSize hopCount dst dstSeqNo origin lifeTime =
     \<lparr>rp_flags = 0, rp_prefixSize = prefixSize, rp_hopCount = hopCount, rp_dst = dst,
      rp_dstSeqNo = dstSeqNo, rp_origin = origin,
      rp_lifeTime = word_of_int (Time_GetMilliSeconds lifeTime)\<rparr>"

definition RrepHeader_GetSerializedSize :: nat where
  "RrepHeader_GetSerializedSize = 19"

definition RrepHeader_Serialize :: "RrepHeader \<Rightarrow> u8 list" where
  "RrepHeader_Serialize h =
     [rp_flags h] @ [rp_prefixSize h] @ [rp_hopCount h] @ WriteHtonU32 (rp_dst h) @
     WriteHtonU32 (rp_dstSeqNo h) @ WriteHtonU32 (rp_origin h) @ WriteHtonU32 (rp_lifeTime h)"

definition RrepHeader_Deserialize :: "u8 list \<Rightarrow> (RrepHeader \<times> u8 list) option" where
  "RrepHeader_Deserialize bs =
     do {
       (flags, bs) \<leftarrow> ReadU8 bs;
       (prefixSize, bs) \<leftarrow> ReadU8 bs;
       (hopCount, bs) \<leftarrow> ReadU8 bs;
       (dst, bs) \<leftarrow> ReadNtohU32 bs;
       (dstSeqNo, bs) \<leftarrow> ReadNtohU32 bs;
       (origin, bs) \<leftarrow> ReadNtohU32 bs;
       (lifeTime, bs) \<leftarrow> ReadNtohU32 bs;
       Some
         (\<lparr>rp_flags = flags, rp_prefixSize = prefixSize, rp_hopCount = hopCount, rp_dst = dst,
           rp_dstSeqNo = dstSeqNo, rp_origin = origin, rp_lifeTime = lifeTime\<rparr>, bs)
     }"

definition RrepHeader_SetLifeTime :: "time \<Rightarrow> RrepHeader \<Rightarrow> RrepHeader" where
  "RrepHeader_SetLifeTime t h = h\<lparr>rp_lifeTime := word_of_int (Time_GetMilliSeconds t)\<rparr>"

definition RrepHeader_GetLifeTime :: "RrepHeader \<Rightarrow> time" where
  "RrepHeader_GetLifeTime h = MilliSeconds (uint (rp_lifeTime h))"

definition RrepHeader_SetAckRequired :: "bool \<Rightarrow> RrepHeader \<Rightarrow> RrepHeader" where
  "RrepHeader_SetAckRequired f h = h\<lparr>rp_flags := set_flag 6 f (rp_flags h)\<rparr>"

definition RrepHeader_GetAckRequired :: "RrepHeader \<Rightarrow> bool" where
  "RrepHeader_GetAckRequired h = get_flag 6 (rp_flags h)"

definition RrepHeader_SetHello :: "ip \<Rightarrow> u32 \<Rightarrow> time \<Rightarrow> RrepHeader \<Rightarrow> RrepHeader" where
  "RrepHeader_SetHello origin srcSeqNo lifetime h =
     h\<lparr>rp_flags := 0, rp_prefixSize := 0, rp_hopCount := 0, rp_dst := origin,
       rp_dstSeqNo := srcSeqNo, rp_origin := origin,
       rp_lifeTime := word_of_int (Time_GetMilliSeconds lifetime)\<rparr>"

interpretation rrep_codec:
  fixed_codec RrepHeader_Serialize RrepHeader_Deserialize "\<lambda>_. True" RrepHeader_GetSerializedSize
  by unfold_locales
    (simp_all add: RrepHeader_Serialize_def RrepHeader_Deserialize_def
      RrepHeader_GetSerializedSize_def)

section \<open>RREP-ACK\<close>

record RrepAckHeader =
  ra_reserved :: u8

definition RrepAckHeader_make :: RrepAckHeader where
  "RrepAckHeader_make = \<lparr>ra_reserved = 0\<rparr>"

definition RrepAckHeader_GetSerializedSize :: nat where
  "RrepAckHeader_GetSerializedSize = 1"

definition RrepAckHeader_Serialize :: "RrepAckHeader \<Rightarrow> u8 list" where
  "RrepAckHeader_Serialize h = [ra_reserved h]"

definition RrepAckHeader_Deserialize :: "u8 list \<Rightarrow> (RrepAckHeader \<times> u8 list) option" where
  "RrepAckHeader_Deserialize bs = do { (r, bs) \<leftarrow> ReadU8 bs; Some (\<lparr>ra_reserved = r\<rparr>, bs) }"

interpretation rrep_ack_codec:
  fixed_codec RrepAckHeader_Serialize RrepAckHeader_Deserialize "\<lambda>_. True"
    RrepAckHeader_GetSerializedSize
  by unfold_locales
    (simp_all add: RrepAckHeader_Serialize_def RrepAckHeader_Deserialize_def
      RrepAckHeader_GetSerializedSize_def)

section \<open>RERR\<close>

record RerrHeader =
  re_flag :: u8
  re_reserved :: u8
  re_unreachable :: "(ip \<times> u32) list"

definition RerrHeader_make :: RerrHeader where
  "RerrHeader_make = \<lparr>re_flag = 0, re_reserved = 0, re_unreachable = []\<rparr>"

text \<open>The count is the size of the map cast to \<open>uint8_t\<close>.\<close>

definition RerrHeader_GetDestCount :: "RerrHeader \<Rightarrow> u8" where
  "RerrHeader_GetDestCount h = word_of_nat (length (re_unreachable h))"

definition RerrHeader_GetSerializedSize :: "RerrHeader \<Rightarrow> nat" where
  "RerrHeader_GetSerializedSize h = 3 + 8 * unat (RerrHeader_GetDestCount h)"

fun write_dests :: "(ip \<times> u32) list \<Rightarrow> u8 list" where
  "write_dests [] = []"
| "write_dests ((a, s) # m) = WriteHtonU32 a @ WriteHtonU32 s @ write_dests m"

definition RerrHeader_Serialize :: "RerrHeader \<Rightarrow> u8 list" where
  "RerrHeader_Serialize h =
     [re_flag h] @ [re_reserved h] @ [RerrHeader_GetDestCount h] @ write_dests (re_unreachable h)"

text \<open>The loop of \<open>Deserialize\<close>: \<open>insert\<close> keeps the first pair of a repeated address.\<close>

fun read_dests ::
    "nat \<Rightarrow> (ip \<times> u32) list \<Rightarrow> u8 list \<Rightarrow> ((ip \<times> u32) list \<times> u8 list) option" where
  "read_dests 0 m bs = Some (m, bs)"
| "read_dests (Suc n) m bs =
     do {
       (address, bs) \<leftarrow> ReadNtohU32 bs;
       (seqNo, bs) \<leftarrow> ReadNtohU32 bs;
       read_dests n (map_insert address seqNo m) bs
     }"

definition RerrHeader_Deserialize :: "u8 list \<Rightarrow> (RerrHeader \<times> u8 list) option" where
  "RerrHeader_Deserialize bs =
     do {
       (flag, bs) \<leftarrow> ReadU8 bs;
       (reserved, bs) \<leftarrow> ReadU8 bs;
       (dest, bs) \<leftarrow> ReadU8 bs;
       (m, bs) \<leftarrow> read_dests (unat dest) [] bs;
       let h = \<lparr>re_flag = flag, re_reserved = reserved, re_unreachable = m\<rparr>;
       ensure (3 + 8 * unat dest = RerrHeader_GetSerializedSize h);
       Some (h, bs)
     }"

definition RerrHeader_SetNoDelete :: "bool \<Rightarrow> RerrHeader \<Rightarrow> RerrHeader" where
  "RerrHeader_SetNoDelete f h = h\<lparr>re_flag := set_flag 0 f (re_flag h)\<rparr>"

definition RerrHeader_GetNoDelete :: "RerrHeader \<Rightarrow> bool" where
  "RerrHeader_GetNoDelete h = get_flag 0 (re_flag h)"

definition RerrHeader_AddUnDestination ::
    "ip \<Rightarrow> u32 \<Rightarrow> RerrHeader \<Rightarrow> (bool \<times> RerrHeader) option" where
  "RerrHeader_AddUnDestination dst seqNo h =
     (if map_of (re_unreachable h) dst \<noteq> None then Some (True, h)
      else do {
        ensure (RerrHeader_GetDestCount h < 255);
        Some (True, h\<lparr>re_unreachable := map_insert dst seqNo (re_unreachable h)\<rparr>)
      })"

definition RerrHeader_RemoveUnDestination ::
    "RerrHeader \<Rightarrow> ((ip \<times> u32) \<times> RerrHeader) option" where
  "RerrHeader_RemoveUnDestination h =
     (case re_unreachable h of
        [] \<Rightarrow> None
      | un # m \<Rightarrow> Some (un, h\<lparr>re_unreachable := m\<rparr>))"

definition RerrHeader_Clear :: "RerrHeader \<Rightarrow> RerrHeader" where
  "RerrHeader_Clear h = \<lparr>re_flag = 0, re_reserved = 0, re_unreachable = []\<rparr>"

text \<open>A header the format can carry: a map, of at most 255 destinations.\<close>

definition rerr_valid :: "RerrHeader \<Rightarrow> bool" where
  "rerr_valid h \<longleftrightarrow> smap (re_unreachable h) \<and> length (re_unreachable h) \<le> 255"

lemma read_write_dests:
  "smap (acc @ m) \<Longrightarrow>
     read_dests (length m) acc (write_dests m @ rest) = Some (acc @ m, rest)"
proof (induction m arbitrary: acc)
  case (Cons kv m)
  obtain a s where kv: "kv = (a, s)" by (cases kv)
  from Cons.prems kv have "map_insert a s acc = acc @ [(a, s)]"
    by (intro map_insert_last) (auto simp: smap_append)
  moreover have "smap ((acc @ [(a, s)]) @ m)" using Cons.prems kv by simp
  ultimately show ?case using Cons.IH [of "acc @ [(a, s)]"] kv by simp
qed simp

lemma length_write_dests [simp]: "length (write_dests m) = 8 * length m"
  by (induction m rule: write_dests.induct) simp_all

lemma unat_DestCount:
  "length (re_unreachable h) \<le> 255 \<Longrightarrow>
     unat (RerrHeader_GetDestCount h) = length (re_unreachable h)"
  by (simp add: RerrHeader_GetDestCount_def unat_of_nat)

interpretation rerr_codec: codec RerrHeader_Serialize RerrHeader_Deserialize rerr_valid
proof
  fix h :: RerrHeader and rest :: "u8 list"
  assume "rerr_valid h"
  then have v: "smap ([] @ re_unreachable h)" "length (re_unreachable h) \<le> 255"
    by (simp_all add: rerr_valid_def)
  then show "RerrHeader_Deserialize (RerrHeader_Serialize h @ rest) = Some (h, rest)"
    using read_write_dests [OF v(1), of rest]
    by (simp add: RerrHeader_Serialize_def RerrHeader_Deserialize_def unat_DestCount
        RerrHeader_GetSerializedSize_def)
qed

lemma RerrHeader_Serialize_length:
  "length (re_unreachable h) \<le> 255 \<Longrightarrow>
     length (RerrHeader_Serialize h) = RerrHeader_GetSerializedSize h"
  by (simp add: RerrHeader_Serialize_def RerrHeader_GetSerializedSize_def unat_DestCount)

lemma RerrHeader_Add_True:
  "RerrHeader_AddUnDestination d s h = Some (b, h') \<Longrightarrow> b"
  by (auto simp: RerrHeader_AddUnDestination_def bind_eq_Some_conv split: if_splits)

lemma RerrHeader_Add_valid:
  assumes "rerr_valid h" and "RerrHeader_AddUnDestination d s h = Some (b, h')"
  shows "rerr_valid h'"
proof (cases "map_of (re_unreachable h) d")
  case None
  with assms(2) have c: "RerrHeader_GetDestCount h < 255"
    and h': "h' = h\<lparr>re_unreachable := map_insert d s (re_unreachable h)\<rparr>"
    by (auto simp: RerrHeader_AddUnDestination_def bind_eq_Some_conv)
  have "length (re_unreachable h) < 255"
    using c assms(1) unat_DestCount [of h] by (simp add: rerr_valid_def word_less_nat_alt)
  moreover have "length (map_put k v m) \<le> Suc (length m)" for k :: ip and v :: u32 and m
    by (induction k v m rule: map_put.induct) auto
  from this [of d s "re_unreachable h"]
  have "length (re_unreachable h') \<le> Suc (length (re_unreachable h))"
    by (simp add: h' map_insert_def None)
  ultimately have "length (re_unreachable h') \<le> 255" by simp
  then show ?thesis
    using assms(1) by (simp add: rerr_valid_def h' smap_insert)
next
  case (Some x)
  with assms show ?thesis by (simp add: RerrHeader_AddUnDestination_def)
qed

section \<open>Properties\<close>

text \<open>Filling a RERR with the destinations of a list, as the loops over a map of destinations do.\<close>

definition rerr_fill :: "(ip \<times> u32) list \<Rightarrow> RerrHeader option" where
  "rerr_fill xs =
     fold_opt (\<lambda>(a, n) h. map_option snd (RerrHeader_AddUnDestination a n h)) xs RerrHeader_make"

lemma smap_length: "smap m \<Longrightarrow> length m = card (dom (map_of m))"
  by (metis distinct_card dom_map_of_conv_image_fst length_map set_map smap_distinct)

lemma Add_cases:
  assumes "rerr_valid h"
  shows "RerrHeader_AddUnDestination a n h =
    (if card (insert a (dom (map_of (re_unreachable h)))) \<le> 255
     then Some (True, h\<lparr>re_unreachable := map_insert a n (re_unreachable h)\<rparr>) else None)"
proof -
  have l: "length (re_unreachable h) = card (dom (map_of (re_unreachable h)))"
    using assms smap_length [of "re_unreachable h"] by (simp add: rerr_valid_def)
  have c: "RerrHeader_GetDestCount h < 255 \<longleftrightarrow> length (re_unreachable h) < 255"
    using assms unat_DestCount [of h] by (simp add: rerr_valid_def word_less_nat_alt)
  show ?thesis
  proof (cases "map_of (re_unreachable h) a")
    case None
    then have "card (insert a (dom (map_of (re_unreachable h)))) = Suc (length (re_unreachable h))"
      using l by (simp add: domIff finite_dom_map_of)
    with None c show ?thesis by (auto simp: RerrHeader_AddUnDestination_def)
  next
    case (Some x)
    then have "insert a (dom (map_of (re_unreachable h))) = dom (map_of (re_unreachable h))" by auto
    with Some l assms show ?thesis
      by (simp add: RerrHeader_AddUnDestination_def rerr_valid_def map_insert_def)
  qed
qed

lemma rerr_fill_step:
  assumes "rerr_valid h"
  shows "case fold_opt (\<lambda>(a, n) h. map_option snd (RerrHeader_AddUnDestination a n h)) xs h of
      None \<Rightarrow> 255 < card (dom (map_of (re_unreachable h)) \<union> fst ` set xs)
    | Some h' \<Rightarrow> rerr_valid h' \<and> re_flag h' = re_flag h \<and>
        map_of (re_unreachable h') = map_of xs ++ map_of (re_unreachable h)"
  using assms
proof (induction xs arbitrary: h)
  case (Cons x xs)
  obtain a n where x: "x = (a, n)" by (cases x)
  let ?D = "dom (map_of (re_unreachable h))"
  let ?h = "h\<lparr>re_unreachable := map_insert a n (re_unreachable h)\<rparr>"
  show ?case
  proof (cases "card (insert a ?D) \<le> 255")
    case True
    have v: "rerr_valid ?h" using RerrHeader_Add_valid [OF Cons.prems] Add_cases [OF Cons.prems] True
      by metis
    have m: "map_of (re_unreachable ?h) = [a \<mapsto> n] ++ map_of (re_unreachable h)"
      by (auto simp: map_of_map_insert map_add_def fun_eq_iff split: option.splits)
    then have d: "dom (map_of (re_unreachable ?h)) \<union> fst ` set xs = ?D \<union> fst ` set (x # xs)"
      by (auto simp: x)
    show ?thesis
      using Cons.IH [OF v] Add_cases [OF Cons.prems, of a n] True x d m
      by (auto split: option.splits simp: map_add_assoc)
  next
    case False
    have "card (insert a ?D) \<le> card (?D \<union> fst ` set (x # xs))"
      by (rule card_mono) (auto simp: x finite_dom_map_of)
    with False Add_cases [OF Cons.prems, of a n] show ?thesis by (simp add: x)
  qed
qed (simp add: rerr_valid_def)

text \<open>
  Building a route error from a list of destinations never takes the branch that
  reports the header full: it lists each destination once with the first sequence number
  given, and with more than 255 distinct destinations it aborts.
\<close>

theorem rerr_fill_never_refuses:
  "case rerr_fill xs of
     None \<Rightarrow> 255 < card (fst ` set xs)
   | Some h \<Rightarrow> card (fst ` set xs) = unat (RerrHeader_GetDestCount h) \<and>
       smap (re_unreachable h) \<and> map_of (re_unreachable h) = map_of xs"
proof -
  have v: "rerr_valid RerrHeader_make" by (simp add: rerr_valid_def RerrHeader_make_def)
  show ?thesis
  proof (cases "rerr_fill xs")
    case None
    with rerr_fill_step [OF v, of xs] show ?thesis
      by (simp add: rerr_fill_def RerrHeader_make_def)
  next
    case (Some h)
    with rerr_fill_step [OF v, of xs] have h: "rerr_valid h" "map_of (re_unreachable h) = map_of xs"
      by (simp_all add: rerr_fill_def RerrHeader_make_def)
    then have "unat (RerrHeader_GetDestCount h) = card (fst ` set xs)"
      using unat_DestCount [of h] smap_length [of "re_unreachable h"]
      by (simp add: rerr_valid_def dom_map_of_conv_image_fst)
    with h Some show ?thesis by (simp add: rerr_valid_def)
  qed
qed

lemma read_dests_map:
  assumes "smap m"
  shows "\<exists>m'. read_dests (length ds) m (write_dests ds @ rest) = Some (m', rest) \<and> smap m' \<and>
     map_of m' = map_of ds ++ map_of m"
  using assms
proof (induction ds arbitrary: m)
  case (Cons d ds)
  obtain a n where d: "d = (a, n)" by (cases d)
  have *: "map_of ds ++ map_of (map_insert a n m) = map_of (d # ds) ++ map_of m"
    by (auto simp: d map_of_map_insert map_add_def fun_eq_iff split: option.splits)
  have "smap (map_insert a n m)" using Cons.prems by (rule smap_insert)
  from Cons.IH [OF this, unfolded *] show ?case by (simp add: d fun_upd_def)
qed simp

text \<open>
  Property C39: a received RERR must not name a destination twice: the map drops the repetition,
  so the size computed afterwards differs from the bytes read and the assertion at the end of
  \<open>Deserialize\<close> aborts. Without repetition the header is the map of what was sent, in any order.
\<close>

theorem rerr_duplicate_aborts:
  assumes "length ds \<le> 255"
  shows "case RerrHeader_Deserialize ([flag, reserved, word_of_nat (length ds)] @ write_dests ds @ rest) of
      None \<Rightarrow> \<not> distinct (map fst ds)
    | Some (h, bs) \<Rightarrow> distinct (map fst ds) \<and> bs = rest \<and> re_flag h = flag \<and>
        smap (re_unreachable h) \<and> map_of (re_unreachable h) = map_of ds"
proof -
  obtain m where r: "read_dests (length ds) [] (write_dests ds @ rest) = Some (m, rest)"
    and m: "smap m" "map_of m = map_of ds"
    using read_dests_map [of "[]" ds rest] by auto
  have n: "unat (word_of_nat (length ds) :: u8) = length ds"
    using assms by (simp add: unat_of_nat)
  have lm: "length m = card (set (map fst ds))"
    using smap_length [OF m(1)] m(2) by (simp add: dom_map_of_conv_image_fst)
  then have le: "length m \<le> length ds" using card_length [of "map fst ds"] by simp
  then have u: "unat (word_of_nat (length m) :: u8) = length m"
    using assms by (simp add: unat_of_nat)
  have "distinct (map fst ds) \<longleftrightarrow> length m = length ds"
    using lm distinct_card [of "map fst ds"] card_distinct [of "map fst ds"] by auto
  with r m n u le show ?thesis
    by (auto simp: RerrHeader_Deserialize_def Let_def RerrHeader_GetSerializedSize_def
        RerrHeader_GetDestCount_def ensure_def)
qed

theorem rerr_duplicate_aborts_witness:
  "RerrHeader_Deserialize ([0, 0, 2] @ write_dests [(7, 1), (7, 2)] @ []) = None"
  using rerr_duplicate_aborts [of "[(7, 1), (7, 2)]" "[]" 0 0]
  by (auto split: option.splits)

text \<open>
  A route lifetime travels in whole milliseconds, modulo 2^32: what the receiver
  reads back is the sender's lifetime rounded down, never more, and lifetimes of 50 days and
  above wrap around.
\<close>

theorem rrep_lifetime_on_the_wire:
  assumes "0 \<le> t"
  shows "RrepHeader_GetLifeTime (RrepHeader_SetLifeTime t h) =
      t - t mod MilliSeconds 1 - MilliSeconds (2 ^ 32) * (t div MilliSeconds (2 ^ 32))"
proof -
  have "RrepHeader_GetLifeTime (RrepHeader_SetLifeTime t h) = t div 1000000 mod 4294967296 * 1000000"
    using assms by (simp add: RrepHeader_GetLifeTime_def RrepHeader_SetLifeTime_def MilliSeconds_def
        uint_word_of_int Time_GetMilliSeconds_def tdiv_def sgn_if)
  moreover have "4294967296 * (t div 4294967296000000) + t div 1000000 mod 4294967296 = t div 1000000"
    using mult_div_mod_eq [of 4294967296 "t div 1000000"] by (simp flip: zdiv_zmult2_eq)
  moreover have "1000000 * (t div 1000000) + t mod 1000000 = t" by (rule mult_div_mod_eq)
  moreover have n: "MilliSeconds 1 = 1000000" "MilliSeconds (2 ^ 32) = 4294967296000000"
    by (simp_all add: MilliSeconds_def)
  ultimately show ?thesis unfolding n by linarith
qed

theorem rrep_lifetime_on_the_wire_witness:
  "RrepHeader_GetLifeTime (RrepHeader_SetLifeTime 4294967296000001 (RrepHeader_make 0 0 7 1 9 0)) = 0"
  using rrep_lifetime_on_the_wire [of 4294967296000001 "RrepHeader_make 0 0 7 1 9 0"]
  by (simp add: MilliSeconds_def)

end
