(* ===== verification/Id_Cache.thy ===== *)
theory Id_Cache
  imports Net_Base
begin

text \<open>
  \<open>IdCache\<close> (src/aodv/model/aodv-id-cache.cc), the cache of recently seen (address, id) pairs
  that stops RREQ floods, and \<open>DuplicatePacketDetection\<close> (aodv-dpd.cc), the same cache keyed
  by the packet UID. The cache refines the abstract map from a pair to the time until which
  it counts as seen.
\<close>

section \<open>State and operations\<close>

record UniqueId =
  uid_context :: ip
  uid_id :: u32
  uid_expire :: time

record IdCache =
  ic_cache :: "UniqueId list"
  ic_lifetime :: time

definition IdCache_make :: "time \<Rightarrow> IdCache" where
  "IdCache_make lifetime = \<lparr>ic_cache = [], ic_lifetime = lifetime\<rparr>"

definition IdCache_IsExpired :: "time \<Rightarrow> UniqueId \<Rightarrow> bool" where
  "IdCache_IsExpired now u \<longleftrightarrow> uid_expire u < now"

definition IdCache_Purge :: "time \<Rightarrow> IdCache \<Rightarrow> IdCache" where
  "IdCache_Purge now c = c\<lparr>ic_cache := filter (\<lambda>u. \<not> IdCache_IsExpired now u) (ic_cache c)\<rparr>"

definition IdCache_IsDuplicate :: "time \<Rightarrow> ip \<Rightarrow> u32 \<Rightarrow> IdCache \<Rightarrow> bool \<times> IdCache" where
  "IdCache_IsDuplicate now addr i c =
     (let c = IdCache_Purge now c in
      if list_ex (\<lambda>u. uid_context u = addr \<and> uid_id u = i) (ic_cache c) then (True, c)
      else (False,
            c\<lparr>ic_cache := ic_cache c @
               [\<lparr>uid_context = addr, uid_id = i, uid_expire = ic_lifetime c + now\<rparr>]\<rparr>))"

definition IdCache_GetSize :: "time \<Rightarrow> IdCache \<Rightarrow> nat \<times> IdCache" where
  "IdCache_GetSize now c = (let c = IdCache_Purge now c in (length (ic_cache c), c))"

definition IdCache_SetLifetime :: "time \<Rightarrow> IdCache \<Rightarrow> IdCache" where
  "IdCache_SetLifetime t c = c\<lparr>ic_lifetime := t\<rparr>"

definition IdCache_GetLifeTime :: "IdCache \<Rightarrow> time" where
  "IdCache_GetLifeTime c = ic_lifetime c"

text \<open>\<open>DuplicatePacketDetection\<close>: \<open>GetUid\<close> returns 64 bits and the cache keeps the low 32.\<close>

definition Dpd_IsDuplicate :: "time \<Rightarrow> u64 \<Rightarrow> ip \<Rightarrow> IdCache \<Rightarrow> bool \<times> IdCache" where
  "Dpd_IsDuplicate now uid source c = IdCache_IsDuplicate now source (ucast uid) c"

definition Dpd_SetLifetime :: "time \<Rightarrow> IdCache \<Rightarrow> IdCache" where
  "Dpd_SetLifetime t c = IdCache_SetLifetime t c"

definition Dpd_GetLifetime :: "IdCache \<Rightarrow> time" where
  "Dpd_GetLifetime c = IdCache_GetLifeTime c"

section \<open>The expiry contract\<close>

interpretation id_store:
  expiring_store IdCache_Purge ic_cache "\<lambda>now u. \<not> IdCache_IsExpired now u"
  by unfold_locales (auto simp: IdCache_Purge_def IdCache_IsExpired_def)

section \<open>The abstract specification\<close>

text \<open>
  Abstractly the cache is the partial map of the pairs that count as seen, each with the
  time it is forgotten. It is a map because no two live records share a pair.
\<close>

definition seen_until :: "IdCache \<Rightarrow> ip \<times> u32 \<rightharpoonup> time" where
  "seen_until c = map_of (map (\<lambda>u. ((uid_context u, uid_id u), uid_expire u)) (ic_cache c))"

definition id_cache_inv :: "IdCache \<Rightarrow> bool" where
  "id_cache_inv c \<longleftrightarrow> distinct (map (\<lambda>u. (uid_context u, uid_id u)) (ic_cache c))"

definition spec_seen :: "time \<Rightarrow> (ip \<times> u32 \<rightharpoonup> time) \<Rightarrow> ip \<times> u32 \<Rightarrow> bool" where
  "spec_seen now m k = (case m k of None \<Rightarrow> False | Some e \<Rightarrow> now \<le> e)"

definition spec_forget :: "time \<Rightarrow> (ip \<times> u32 \<rightharpoonup> time) \<Rightarrow> ip \<times> u32 \<rightharpoonup> time" where
  "spec_forget now m k = (case m k of None \<Rightarrow> None | Some e \<Rightarrow> if now \<le> e then Some e else None)"

definition spec_is_duplicate ::
    "time \<Rightarrow> time \<Rightarrow> ip \<times> u32 \<Rightarrow> (ip \<times> u32 \<rightharpoonup> time) \<Rightarrow> bool \<times> (ip \<times> u32 \<rightharpoonup> time)" where
  "spec_is_duplicate now life k m =
     (if spec_seen now m k then (True, spec_forget now m)
      else (False, (spec_forget now m)(k \<mapsto> life + now)))"

lemma id_cache_inv_make [simp]: "id_cache_inv (IdCache_make t)"
  by (simp add: id_cache_inv_def IdCache_make_def)

lemma ic_lifetime_Purge [simp]: "ic_lifetime (IdCache_Purge now c) = ic_lifetime c"
  by (simp add: IdCache_Purge_def)

lemma id_cache_inv_Purge: "id_cache_inv c \<Longrightarrow> id_cache_inv (IdCache_Purge now c)"
  by (simp add: id_cache_inv_def IdCache_Purge_def distinct_map_filter)

lemma map_of_filter_keyed:
  assumes "distinct (map f xs)"
  shows "map_of (map (\<lambda>u. (f u, g u)) (filter P xs)) k =
     (case find (\<lambda>u. f u = k) xs of None \<Rightarrow> None | Some u \<Rightarrow> if P u then Some (g u) else None)"
  using assms
proof (induction xs)
  case (Cons x xs)
  show ?case
  proof (cases "f x = k")
    case True
    with Cons.prems have "k \<notin> f ` set xs" by auto
    then have "map_of (map (\<lambda>u. (f u, g u)) (filter P xs)) k = None"
      by (auto simp: map_of_eq_None_iff)
    with True show ?thesis by simp
  next
    case False
    with Cons show ?thesis by simp
  qed
qed simp

lemma map_of_keyed:
  "map_of (map (\<lambda>u. (f u, g u)) xs) k = map_option g (find (\<lambda>u. f u = k) xs)"
  by (induction xs) auto

lemma seen_until_Purge:
  assumes "id_cache_inv c"
  shows "seen_until (IdCache_Purge now c) = spec_forget now (seen_until c)"
proof
  fix k
  show "seen_until (IdCache_Purge now c) k = spec_forget now (seen_until c) k"
    using map_of_filter_keyed [of "\<lambda>u. (uid_context u, uid_id u)" "ic_cache c" uid_expire
        "\<lambda>u. \<not> IdCache_IsExpired now u" k] assms
    by (simp add: seen_until_def spec_forget_def IdCache_Purge_def id_cache_inv_def map_of_keyed
        IdCache_IsExpired_def not_less split: option.split)
qed

lemma dup_iff_dom:
  "list_ex (\<lambda>u. uid_context u = a \<and> uid_id u = i) (ic_cache c) \<longleftrightarrow> seen_until c (a, i) \<noteq> None"
  by (auto simp: seen_until_def map_of_eq_None_iff list_ex_iff image_image)

lemma IsDuplicate_inv:
  assumes "id_cache_inv c" and "IdCache_IsDuplicate now a i c = (b, c')"
  shows "id_cache_inv c'"
  using id_cache_inv_Purge [OF assms(1), of now] assms(2)
  by (auto simp: IdCache_IsDuplicate_def Let_def id_cache_inv_def list_ex_iff split: if_splits)

lemma spec_forget_None: "spec_forget now m k \<noteq> None \<longleftrightarrow> spec_seen now m k"
  by (auto simp: spec_forget_def spec_seen_def split: option.splits)

text \<open>The cache refines the abstract map, call by call.\<close>

lemma IsDuplicate_refines:
  assumes inv: "id_cache_inv c" and call: "IdCache_IsDuplicate now a i c = (b, c')"
  shows "(b, seen_until c') = spec_is_duplicate now (ic_lifetime c) (a, i) (seen_until c)"
proof -
  let ?p = "IdCache_Purge now c"
  have p: "seen_until ?p = spec_forget now (seen_until c)"
    using inv by (rule seen_until_Purge)
  have app: "seen_until (?p\<lparr>ic_cache := ic_cache ?p @ [u]\<rparr>) =
      (seen_until ?p)(k \<mapsto> uid_expire u)"
    if "seen_until ?p k = None" "k = (uid_context u, uid_id u)" for u k
    using that by (auto simp: seen_until_def map_add_def fun_eq_iff split: option.splits)
  show ?thesis
  proof (cases "spec_seen now (seen_until c) (a, i)")
    case True
    then have "list_ex (\<lambda>u. uid_context u = a \<and> uid_id u = i) (ic_cache ?p)"
      by (simp add: dup_iff_dom p spec_forget_None del: not_None_eq)
    with True call p show ?thesis
      by (simp add: IdCache_IsDuplicate_def spec_is_duplicate_def)
  next
    case False
    then have none: "seen_until ?p (a, i) = None"
      using spec_forget_None [of now "seen_until c" "(a, i)"] by (simp add: p)
    then have "\<not> list_ex (\<lambda>u. uid_context u = a \<and> uid_id u = i) (ic_cache ?p)"
      by (simp add: dup_iff_dom)
    with False call none show ?thesis
      by (auto simp: IdCache_IsDuplicate_def Let_def spec_is_duplicate_def app p)
  qed
qed

section \<open>Sequences of queries\<close>

fun IdCache_run :: "(time \<times> ip \<times> u32) list \<Rightarrow> IdCache \<Rightarrow> bool list \<times> IdCache" where
  "IdCache_run [] c = ([], c)"
| "IdCache_run ((now, a, i) # qs) c =
     (let (b, c) = IdCache_IsDuplicate now a i c; (bs, c) = IdCache_run qs c in (b # bs, c))"

fun spec_run ::
    "time \<Rightarrow> (time \<times> ip \<times> u32) list \<Rightarrow> (ip \<times> u32 \<rightharpoonup> time) \<Rightarrow> bool list \<times> (ip \<times> u32 \<rightharpoonup> time)" where
  "spec_run life [] m = ([], m)"
| "spec_run life ((now, k) # qs) m =
     (let (b, m) = spec_is_duplicate now life k m; (bs, m) = spec_run life qs m in (b # bs, m))"

lemma ic_lifetime_IsDuplicate [simp]:
  "ic_lifetime (snd (IdCache_IsDuplicate now a i c)) = ic_lifetime c"
  by (simp add: IdCache_IsDuplicate_def Let_def)

text \<open>Over any sequence of queries the cache answers as the abstract map does.\<close>

theorem id_cache_run_refines:
  "id_cache_inv c \<Longrightarrow>
     map_prod id seen_until (IdCache_run qs c) = spec_run (ic_lifetime c) qs (seen_until c) \<and>
     id_cache_inv (snd (IdCache_run qs c))"
proof (induction qs arbitrary: c)
  case (Cons q qs)
  obtain now a i where q: "q = (now, a, i)" by (cases q)
  obtain b c' where call: "IdCache_IsDuplicate now a i c = (b, c')" by fastforce
  then have inv': "id_cache_inv c'" and "ic_lifetime c' = ic_lifetime c"
    using IsDuplicate_inv [OF Cons.prems] ic_lifetime_IsDuplicate [of now a i c] by auto
  with Cons.IH [OF inv'] IsDuplicate_refines [OF Cons.prems call] call q show ?case
    by (auto simp: Let_def split: prod.splits)
qed simp

theorem id_cache_run_refines_witness:
  "id_cache_inv (IdCache_make 5) \<and>
   fst (IdCache_run [(0, 7, 1), (3, 7, 1), (9, 7, 1)] (IdCache_make 5)) = [False, True, False] \<and>
   id_cache_inv (snd (IdCache_run [(0, 7, 1), (3, 7, 1), (9, 7, 1)] (IdCache_make 5)))"
  using id_cache_run_refines [of "IdCache_make 5" "[(0, 7, 1), (3, 7, 1), (9, 7, 1)]"]
  by (simp add: IdCache_make_def IdCache_IsDuplicate_def IdCache_Purge_def IdCache_IsExpired_def
      id_cache_inv_def)

lemma spec_keep:
  assumes "m k = Some e" and "now \<le> e"
  shows "snd (spec_is_duplicate now life k' m) k = Some e"
  using assms by (auto simp: spec_is_duplicate_def spec_forget_def spec_seen_def)

lemma run_keep:
  assumes "id_cache_inv c" and "seen_until c k = Some e" and "\<forall>q \<in> set qs. fst q \<le> e"
  shows "id_cache_inv (snd (IdCache_run qs c)) \<and> seen_until (snd (IdCache_run qs c)) k = Some e"
  using assms
proof (induction qs arbitrary: c)
  case (Cons q qs)
  obtain now a i where q: "q = (now, a, i)" by (cases q)
  obtain b c' where call: "IdCache_IsDuplicate now a i c = (b, c')" by fastforce
  have "seen_until c' k = Some e"
    using IsDuplicate_refines [OF Cons.prems(1) call]
      spec_keep [where m = "seen_until c" and k = k and k' = "(a, i)", OF Cons.prems(2), of now]
      Cons.prems(3) q
    by (metis fst_conv list.set_intros(1) snd_conv)
  with Cons.IH [of c'] IsDuplicate_inv [OF Cons.prems(1) call] Cons.prems(3) q call
  show ?case by (simp add: Let_def case_prod_beta)
qed simp

lemma duplicate_within:
  assumes "id_cache_inv c"
    and "IdCache_IsDuplicate t a i c = (False, c1)"
    and "\<forall>q \<in> set qs. fst q \<le> t'" and "t' \<le> t + ic_lifetime c"
  shows "fst (IdCache_IsDuplicate t' a i (snd (IdCache_run qs c1)))"
proof -
  let ?c2 = "snd (IdCache_run qs c1)" and ?e = "ic_lifetime c + t"
  have "seen_until c1 (a, i) = Some ?e"
    using IsDuplicate_refines [OF assms(1,2)] by (auto simp: spec_is_duplicate_def split: if_splits)
  with assms have "id_cache_inv ?c2" "seen_until ?c2 (a, i) = Some ?e"
    using run_keep [OF IsDuplicate_inv [OF assms(1,2)], of "(a, i)" ?e qs] by fastforce+
  moreover from this have "spec_seen t' (seen_until ?c2) (a, i)"
    using assms(4) by (simp add: spec_seen_def)
  ultimately show ?thesis
    using IsDuplicate_refines [of ?c2 t' a i] by (cases "IdCache_IsDuplicate t' a i ?c2")
      (auto simp: spec_is_duplicate_def)
qed

text \<open>
  Once a pair has been reported new at time t, every query for it up to t plus
  the cache's lifetime is reported a duplicate, whatever was asked in between.
\<close>

theorem id_cache_duplicate_window:
  assumes "id_cache_inv c"
    and "IdCache_IsDuplicate t a i c = (False, c1)"
    and "\<forall>q \<in> set qs. fst q \<le> t'" and "t' \<le> t + ic_lifetime c"
  shows "fst (IdCache_IsDuplicate t' a i (snd (IdCache_run qs c1)))"
  using assms by (rule duplicate_within)

theorem id_cache_duplicate_window_witness:
  "fst (IdCache_IsDuplicate 5 7 1 (snd (IdCache_run [(2, 8, 1), (4, 9, 2)]
     (snd (IdCache_IsDuplicate 0 7 1 (IdCache_make 5))))))"
proof (rule id_cache_duplicate_window [where c = "IdCache_make 5" and t = 0])
  show "IdCache_IsDuplicate 0 7 1 (IdCache_make 5) =
      (False, snd (IdCache_IsDuplicate 0 7 1 (IdCache_make 5)))"
    by (simp add: IdCache_make_def IdCache_IsDuplicate_def IdCache_Purge_def)
qed (simp_all add: IdCache_make_def id_cache_inv_def)

text \<open>
  The duplicate detector of data packets keeps only the low half of the packet
  UID, so two packets of one source whose UIDs differ by a multiple of 2^32 count as one.
\<close>

theorem dpd_truncates_uid:
  assumes "id_cache_inv c" and "0 \<le> ic_lifetime c"
    and "Dpd_IsDuplicate t uid src c = (b, c1)" and "(ucast uid :: u32) = ucast uid'"
  shows "fst (Dpd_IsDuplicate t uid' src c1)"
proof (cases b)
  case False
  with assms show ?thesis
    using duplicate_within [of c t src "ucast uid" c1 "[]" t]
    by (simp add: Dpd_IsDuplicate_def)
next
  case True
  then have "list_ex (\<lambda>u. uid_context u = src \<and> uid_id u = ucast uid) (ic_cache (IdCache_Purge t c))"
    and "c1 = IdCache_Purge t c"
    using assms(3) by (auto simp: Dpd_IsDuplicate_def IdCache_IsDuplicate_def Let_def split: if_splits)
  then show ?thesis
    using id_store.items_purge_idem [of t c] assms(4)
    by (simp add: Dpd_IsDuplicate_def IdCache_IsDuplicate_def)
qed

theorem dpd_truncates_uid_witness:
  "fst (Dpd_IsDuplicate 0 4294967301 9 (snd (Dpd_IsDuplicate 0 5 9 (IdCache_make 5))))"
  by (rule dpd_truncates_uid [where c = "IdCache_make 5" and t = 0 and uid = 5
        and b = "fst (Dpd_IsDuplicate 0 5 9 (IdCache_make 5))"])
    (simp_all add: IdCache_make_def id_cache_inv_def)

end
