(* ===== verification/Rtable.thy ===== *)
theory Rtable
  imports Net_Base
begin

text \<open>
  The AODV routing table (src/aodv/model/aodv-rtable.cc and aodv-rtable.h): the entry with its
  precursor list, blacklist and expiry, and the table keyed by destination. \<open>Print\<close> is output
  only and is left out. The table is presented to the protocol through the interface
  \<open>route_store\<close>, its abstract view being the map from destinations to entries.
\<close>

section \<open>Routing table entries\<close>

datatype RouteFlags = VALID | INVALID | IN_SEARCH

record RoutingTableEntry =
  e_route :: Ipv4Route
  e_validSeqNo :: bool
  e_seqNo :: u32
  e_hops :: u16
  e_lifeTime :: time
  e_iface :: Ipv4InterfaceAddress
  e_flag :: RouteFlags
  e_precursors :: "ip list"
  e_reqCount :: u8
  e_blackListState :: bool
  e_blackListTimeout :: time
  e_ackTimer :: timer
  e_ackDelay :: time

definition RoutingTableEntry_make ::
    "time \<Rightarrow> dev option \<Rightarrow> ip \<Rightarrow> bool \<Rightarrow> u32 \<Rightarrow> Ipv4InterfaceAddress \<Rightarrow> u16 \<Rightarrow> ip \<Rightarrow> time \<Rightarrow>
     RoutingTableEntry" where
  "RoutingTableEntry_make now d dst vSeqNo seqNo iface hops nextHop lifetime =
     \<lparr>e_route = \<lparr>rt_dest = dst, rt_source = ia_local iface, rt_gateway = nextHop, rt_dev = d\<rparr>,
      e_validSeqNo = vSeqNo, e_seqNo = seqNo, e_hops = hops, e_lifeTime = lifetime + now,
      e_iface = iface, e_flag = VALID, e_precursors = [], e_reqCount = 0,
      e_blackListState = False, e_blackListTimeout = now, e_ackTimer = None, e_ackDelay = 0\<rparr>"

text \<open>The default constructor: every argument has a default, the lifetime's is \<open>Now\<close>.\<close>

definition RoutingTableEntry_default :: "time \<Rightarrow> RoutingTableEntry" where
  "RoutingTableEntry_default now =
     RoutingTableEntry_make now None Ipv4Address_default False 0 Ipv4InterfaceAddress_default 0
       Ipv4Address_default now"

definition Entry_GetDestination :: "RoutingTableEntry \<Rightarrow> ip" where
  "Entry_GetDestination e = rt_dest (e_route e)"

definition Entry_GetNextHop :: "RoutingTableEntry \<Rightarrow> ip" where
  "Entry_GetNextHop e = rt_gateway (e_route e)"

definition Entry_SetNextHop :: "ip \<Rightarrow> RoutingTableEntry \<Rightarrow> RoutingTableEntry" where
  "Entry_SetNextHop a e = e\<lparr>e_route := (e_route e)\<lparr>rt_gateway := a\<rparr>\<rparr>"

definition Entry_GetOutputDevice :: "RoutingTableEntry \<Rightarrow> dev option" where
  "Entry_GetOutputDevice e = rt_dev (e_route e)"

definition Entry_SetOutputDevice :: "dev option \<Rightarrow> RoutingTableEntry \<Rightarrow> RoutingTableEntry" where
  "Entry_SetOutputDevice d e = e\<lparr>e_route := (e_route e)\<lparr>rt_dev := d\<rparr>\<rparr>"

definition Entry_SetLifeTime :: "time \<Rightarrow> time \<Rightarrow> RoutingTableEntry \<Rightarrow> RoutingTableEntry" where
  "Entry_SetLifeTime now lt e = e\<lparr>e_lifeTime := lt + now\<rparr>"

definition Entry_GetLifeTime :: "time \<Rightarrow> RoutingTableEntry \<Rightarrow> time" where
  "Entry_GetLifeTime now e = e_lifeTime e - now"

definition Entry_SetRreqCnt :: "u8 \<Rightarrow> RoutingTableEntry \<Rightarrow> RoutingTableEntry" where
  "Entry_SetRreqCnt n e = e\<lparr>e_reqCount := n\<rparr>"

definition Entry_IncrementRreqCnt :: "RoutingTableEntry \<Rightarrow> RoutingTableEntry" where
  "Entry_IncrementRreqCnt e = e\<lparr>e_reqCount := e_reqCount e + 1\<rparr>"

definition Entry_LookupPrecursor :: "ip \<Rightarrow> RoutingTableEntry \<Rightarrow> bool" where
  "Entry_LookupPrecursor i e = list_ex (\<lambda>a. a = i) (e_precursors e)"

definition Entry_InsertPrecursor :: "ip \<Rightarrow> RoutingTableEntry \<Rightarrow> bool \<times> RoutingTableEntry" where
  "Entry_InsertPrecursor i e =
     (if \<not> Entry_LookupPrecursor i e then (True, e\<lparr>e_precursors := e_precursors e @ [i]\<rparr>)
      else (False, e))"

definition Entry_DeletePrecursor :: "ip \<Rightarrow> RoutingTableEntry \<Rightarrow> bool \<times> RoutingTableEntry" where
  "Entry_DeletePrecursor i e =
     (let rest = filter (\<lambda>a. a \<noteq> i) (e_precursors e) in
      if length rest = length (e_precursors e) then (False, e)
      else (True, e\<lparr>e_precursors := rest\<rparr>))"

definition Entry_DeleteAllPrecursors :: "RoutingTableEntry \<Rightarrow> RoutingTableEntry" where
  "Entry_DeleteAllPrecursors e = e\<lparr>e_precursors := []\<rparr>"

definition Entry_IsPrecursorListEmpty :: "RoutingTableEntry \<Rightarrow> bool" where
  "Entry_IsPrecursorListEmpty e = (e_precursors e = [])"

fun add_new :: "ip list \<Rightarrow> ip list \<Rightarrow> ip list" where
  "add_new [] prec = prec"
| "add_new (i # is) prec = add_new is (if list_ex (\<lambda>j. j = i) prec then prec else prec @ [i])"

definition Entry_GetPrecursors :: "ip list \<Rightarrow> RoutingTableEntry \<Rightarrow> ip list" where
  "Entry_GetPrecursors prec e =
     (if Entry_IsPrecursorListEmpty e then prec else add_new (e_precursors e) prec)"

definition Entry_Invalidate :: "time \<Rightarrow> time \<Rightarrow> RoutingTableEntry \<Rightarrow> RoutingTableEntry" where
  "Entry_Invalidate now badLinkLifetime e =
     (if e_flag e = INVALID then e
      else e\<lparr>e_flag := INVALID, e_reqCount := 0, e_lifeTime := badLinkLifetime + now\<rparr>)"

lemma set_add_new [simp]: "set (add_new xs prec) = set xs \<union> set prec"
  by (induction xs prec rule: add_new.induct) (auto simp: list_ex_iff)

lemma distinct_add_new: "distinct prec \<Longrightarrow> distinct (add_new xs prec)"
  by (induction xs prec rule: add_new.induct) (auto simp: list_ex_iff)

section \<open>The table\<close>

record RoutingTable =
  rt_entries :: "(ip \<times> RoutingTableEntry) list"
  rt_badLinkLifetime :: time

definition RoutingTable_make :: "time \<Rightarrow> RoutingTable" where
  "RoutingTable_make t = \<lparr>rt_entries = [], rt_badLinkLifetime = t\<rparr>"

text \<open>
  One round of the loop of \<open>Purge\<close>: an expired entry is erased when invalid, invalidated
  when valid, and left alone while a route request for it is pending.
\<close>

definition purge_entry :: "time \<Rightarrow> time \<Rightarrow> RoutingTableEntry \<Rightarrow> RoutingTableEntry option" where
  "purge_entry now bad e =
     (if Entry_GetLifeTime now e < 0 then
        if e_flag e = INVALID then None
        else if e_flag e = VALID then Some (Entry_Invalidate now bad e)
        else Some e
      else Some e)"

fun purge_entries ::
    "time \<Rightarrow> time \<Rightarrow> (ip \<times> RoutingTableEntry) list \<Rightarrow> (ip \<times> RoutingTableEntry) list" where
  "purge_entries now bad [] = []"
| "purge_entries now bad ((k, e) # m) =
     (case purge_entry now bad e of
        None \<Rightarrow> purge_entries now bad m
      | Some e' \<Rightarrow> (k, e') # purge_entries now bad m)"

definition RoutingTable_Purge :: "time \<Rightarrow> RoutingTable \<Rightarrow> RoutingTable" where
  "RoutingTable_Purge now t =
     t\<lparr>rt_entries := purge_entries now (rt_badLinkLifetime t) (rt_entries t)\<rparr>"

text \<open>The overload of \<open>Purge\<close> that works on a copy, for printing.\<close>

definition RoutingTable_Purge_table ::
    "time \<Rightarrow> RoutingTable \<Rightarrow> (ip \<times> RoutingTableEntry) list \<Rightarrow> (ip \<times> RoutingTableEntry) list" where
  "RoutingTable_Purge_table now t table = purge_entries now (rt_badLinkLifetime t) table"

text \<open>\<open>LookupRoute\<close> writes the entry to its reference parameter only when it finds one.\<close>

definition RoutingTable_LookupRoute ::
    "time \<Rightarrow> ip \<Rightarrow> RoutingTableEntry \<Rightarrow> RoutingTable \<Rightarrow> bool \<times> RoutingTableEntry \<times> RoutingTable" where
  "RoutingTable_LookupRoute now i rt t =
     (let t = RoutingTable_Purge now t in
      case map_of (rt_entries t) i of
        None \<Rightarrow> (False, rt, t)
      | Some e \<Rightarrow> (True, e, t))"

definition RoutingTable_LookupValidRoute ::
    "time \<Rightarrow> ip \<Rightarrow> RoutingTableEntry \<Rightarrow> RoutingTable \<Rightarrow> bool \<times> RoutingTableEntry \<times> RoutingTable" where
  "RoutingTable_LookupValidRoute now i rt t =
     (let (found, rt, t) = RoutingTable_LookupRoute now i rt t in
      if \<not> found then (False, rt, t) else (e_flag rt = VALID, rt, t))"

definition RoutingTable_DeleteRoute :: "time \<Rightarrow> ip \<Rightarrow> RoutingTable \<Rightarrow> bool \<times> RoutingTable" where
  "RoutingTable_DeleteRoute now dst t =
     (let t = RoutingTable_Purge now t in
      if map_of (rt_entries t) dst \<noteq> None
      then (True, t\<lparr>rt_entries := map_erase dst (rt_entries t)\<rparr>)
      else (False, t))"

text \<open>
  \<open>AddRoute\<close> and \<open>Update\<close> clear the request count of an entry that is not in search.
  (\<open>AddRoute\<close> clears it in the caller's entry too, which no caller reads again.)
\<close>

definition clear_count :: "RoutingTableEntry \<Rightarrow> RoutingTableEntry" where
  "clear_count rt = (if e_flag rt \<noteq> IN_SEARCH then Entry_SetRreqCnt 0 rt else rt)"

definition RoutingTable_AddRoute ::
    "time \<Rightarrow> RoutingTableEntry \<Rightarrow> RoutingTable \<Rightarrow> bool \<times> RoutingTable" where
  "RoutingTable_AddRoute now rt t =
     (let t = RoutingTable_Purge now t;
          rt = clear_count rt;
          k = Entry_GetDestination rt
      in (map_of (rt_entries t) k = None, t\<lparr>rt_entries := map_insert k rt (rt_entries t)\<rparr>))"

definition RoutingTable_Update :: "RoutingTableEntry \<Rightarrow> RoutingTable \<Rightarrow> bool \<times> RoutingTable" where
  "RoutingTable_Update rt t =
     (let k = Entry_GetDestination rt in
      if map_of (rt_entries t) k = None then (False, t)
      else (True, t\<lparr>rt_entries := map_put k (clear_count rt) (rt_entries t)\<rparr>))"

definition RoutingTable_SetEntryState ::
    "ip \<Rightarrow> RouteFlags \<Rightarrow> RoutingTable \<Rightarrow> bool \<times> RoutingTable" where
  "RoutingTable_SetEntryState i state t =
     (case map_of (rt_entries t) i of
        None \<Rightarrow> (False, t)
      | Some e \<Rightarrow>
          (True, t\<lparr>rt_entries := map_put i (Entry_SetRreqCnt 0 (e\<lparr>e_flag := state\<rparr>)) (rt_entries t)\<rparr>))"

definition RoutingTable_GetListOfDestinationWithNextHop ::
    "time \<Rightarrow> ip \<Rightarrow> RoutingTable \<Rightarrow> (ip \<times> u32) list \<times> RoutingTable" where
  "RoutingTable_GetListOfDestinationWithNextHop now nextHop t =
     (let t = RoutingTable_Purge now t in
      (map (\<lambda>(k, e). (k, e_seqNo e))
         (filter (\<lambda>(k, e). Entry_GetNextHop e = nextHop) (rt_entries t)), t))"

definition RoutingTable_InvalidateRoutesWithDst ::
    "time \<Rightarrow> (ip \<times> u32) list \<Rightarrow> RoutingTable \<Rightarrow> RoutingTable" where
  "RoutingTable_InvalidateRoutesWithDst now unreachable t =
     (let t = RoutingTable_Purge now t in
      t\<lparr>rt_entries :=
          map_vals (\<lambda>k e. if list_ex (\<lambda>(j, s). k = j) unreachable \<and> e_flag e = VALID
                          then Entry_Invalidate now (rt_badLinkLifetime t) e else e)
            (rt_entries t)\<rparr>)"

definition RoutingTable_DeleteAllRoutesFromInterface ::
    "Ipv4InterfaceAddress \<Rightarrow> RoutingTable \<Rightarrow> RoutingTable" where
  "RoutingTable_DeleteAllRoutesFromInterface iface t =
     t\<lparr>rt_entries := filter (\<lambda>(k, e). e_iface e \<noteq> iface) (rt_entries t)\<rparr>"

definition RoutingTable_Clear :: "RoutingTable \<Rightarrow> RoutingTable" where
  "RoutingTable_Clear t = t\<lparr>rt_entries := []\<rparr>"

definition RoutingTable_MarkLinkAsUnidirectional ::
    "ip \<Rightarrow> time \<Rightarrow> RoutingTable \<Rightarrow> bool \<times> RoutingTable" where
  "RoutingTable_MarkLinkAsUnidirectional neighbor blacklistTimeout t =
     (case map_of (rt_entries t) neighbor of
        None \<Rightarrow> (False, t)
      | Some e \<Rightarrow>
          (True, t\<lparr>rt_entries :=
             map_put neighbor
               (Entry_SetRreqCnt 0 (e\<lparr>e_blackListState := True, e_blackListTimeout := blacklistTimeout\<rparr>))
               (rt_entries t)\<rparr>))"

section \<open>Well-formed tables\<close>

text \<open>Entries are in key order, each under the destination of its own route.\<close>

definition rt_wf :: "RoutingTable \<Rightarrow> bool" where
  "rt_wf t \<longleftrightarrow> smap (rt_entries t) \<and> (\<forall>(k, e) \<in> set (rt_entries t). Entry_GetDestination e = k)"

abbreviation rt_view :: "RoutingTable \<Rightarrow> ip \<rightharpoonup> RoutingTableEntry" where
  "rt_view t \<equiv> map_of (rt_entries t)"

lemma Entry_GetDestination_simps [simp]:
  "Entry_GetDestination (RoutingTableEntry_make now d dst v s i h n l) = dst"
  "Entry_GetDestination (Entry_SetRreqCnt c e) = Entry_GetDestination e"
  "Entry_GetDestination (Entry_IncrementRreqCnt e) = Entry_GetDestination e"
  "Entry_GetDestination (Entry_SetNextHop a e) = Entry_GetDestination e"
  "Entry_GetDestination (Entry_SetOutputDevice od e) = Entry_GetDestination e"
  "Entry_GetDestination (Entry_SetLifeTime now l e) = Entry_GetDestination e"
  "Entry_GetDestination (Entry_Invalidate now bad e) = Entry_GetDestination e"
  "Entry_GetDestination (clear_count e) = Entry_GetDestination e"
  "Entry_GetDestination (snd (Entry_InsertPrecursor a e)) = Entry_GetDestination e"
  by (simp_all add: Entry_GetDestination_def RoutingTableEntry_make_def Entry_SetRreqCnt_def
      Entry_IncrementRreqCnt_def Entry_SetNextHop_def Entry_SetOutputDevice_def
      Entry_SetLifeTime_def Entry_Invalidate_def clear_count_def Entry_InsertPrecursor_def)

lemma Entry_GetDestination_field_updates [simp]:
  "Entry_GetDestination (e\<lparr>e_validSeqNo := b\<rparr>) = Entry_GetDestination e"
  "Entry_GetDestination (e\<lparr>e_seqNo := s\<rparr>) = Entry_GetDestination e"
  "Entry_GetDestination (e\<lparr>e_hops := h\<rparr>) = Entry_GetDestination e"
  "Entry_GetDestination (e\<lparr>e_iface := i\<rparr>) = Entry_GetDestination e"
  "Entry_GetDestination (e\<lparr>e_flag := f\<rparr>) = Entry_GetDestination e"
  "Entry_GetDestination (e\<lparr>e_blackListState := b\<rparr>) = Entry_GetDestination e"
  "Entry_GetDestination (e\<lparr>e_blackListTimeout := t\<rparr>) = Entry_GetDestination e"
  "Entry_GetDestination (e\<lparr>e_ackTimer := tm\<rparr>) = Entry_GetDestination e"
  "Entry_GetDestination (e\<lparr>e_lifeTime := t\<rparr>) = Entry_GetDestination e"
  by (simp_all add: Entry_GetDestination_def)

lemma purge_entry_Some:
  "purge_entry now bad e = Some e' \<Longrightarrow> e' = e \<or> e_flag e = VALID \<and> e' = Entry_Invalidate now bad e"
  by (auto simp: purge_entry_def split: if_splits)

lemma purge_entry_dest: "purge_entry now bad e = Some e' \<Longrightarrow> Entry_GetDestination e' = Entry_GetDestination e"
  by (auto dest: purge_entry_Some)

lemma purge_entries_keys: "fst ` set (purge_entries now bad m) \<subseteq> fst ` set m"
  by (induction now bad m rule: purge_entries.induct) (auto split: option.splits)

lemma smap_purge_entries [smap_intros]: "smap m \<Longrightarrow> smap (purge_entries now bad m)"
proof (induction now bad m rule: purge_entries.induct)
  case (2 now bad k e m)
  have "\<forall>a \<in> fst ` set (purge_entries now bad m). k < a"
    using 2(3) purge_entries_keys [of now bad m] by (force simp: smap_Cons)
  with 2 show ?case by (auto simp: smap_Cons split: option.splits)
qed simp

lemma map_of_purge_entries:
  "smap m \<Longrightarrow>
     map_of (purge_entries now bad m) k = Option.bind (map_of m k) (purge_entry now bad)"
proof (induction now bad m rule: purge_entries.induct)
  case (2 now bad a e m)
  then have "a \<notin> fst ` set m" by (auto simp: smap_Cons)
  then have "map_of (purge_entries now bad m) a = None"
    using purge_entries_keys [of now bad m] by (auto simp: map_of_eq_None_iff)
  with 2 show ?case by (auto simp: smap_Cons split: option.splits)
qed simp

lemma set_purge_entries:
  "(k, e') \<in> set (purge_entries now bad m) \<Longrightarrow> \<exists>e. (k, e) \<in> set m \<and> purge_entry now bad e = Some e'"
  by (induction now bad m rule: purge_entries.induct) (auto split: option.splits)

lemma rt_wf_make [simp]: "rt_wf (RoutingTable_make t)"
  by (simp add: rt_wf_def RoutingTable_make_def)

lemma rt_wf_dest: "rt_wf t \<Longrightarrow> rt_view t k = Some e \<Longrightarrow> Entry_GetDestination e = k"
  by (auto simp: rt_wf_def dest: map_of_SomeD)

lemma rt_wf_put:
  "rt_wf t \<Longrightarrow> Entry_GetDestination e = k \<Longrightarrow> rt_wf (t\<lparr>rt_entries := map_put k e (rt_entries t)\<rparr>)"
  using set_map_put_subset [of k e "rt_entries t"] by (auto simp: rt_wf_def smap_put)

lemma rt_wf_filter:
  "rt_wf t \<Longrightarrow> rt_wf (t\<lparr>rt_entries := filter P (rt_entries t)\<rparr>)"
  by (auto simp: rt_wf_def smap_filter)

lemma rt_wf_Purge: "rt_wf t \<Longrightarrow> rt_wf (RoutingTable_Purge now t)"
  by (auto simp: rt_wf_def RoutingTable_Purge_def smap_purge_entries
      dest!: set_purge_entries purge_entry_dest)

lemma rt_wf_Lookup: "rt_wf t \<Longrightarrow> rt_wf (snd (snd (RoutingTable_LookupRoute now i rt t)))"
  by (simp add: RoutingTable_LookupRoute_def Let_def rt_wf_Purge split: option.splits)

lemma rt_wf_LookupValid: "rt_wf t \<Longrightarrow> rt_wf (snd (snd (RoutingTable_LookupValidRoute now i rt t)))"
  using rt_wf_Lookup [of t now i rt]
  by (auto simp: RoutingTable_LookupValidRoute_def split: prod.splits)

lemma rt_wf_Delete: "rt_wf t \<Longrightarrow> rt_wf (snd (RoutingTable_DeleteRoute now d t))"
  using rt_wf_filter [OF rt_wf_Purge]
  by (simp add: RoutingTable_DeleteRoute_def Let_def map_erase_def rt_wf_Purge)

lemma rt_wf_Add: "rt_wf t \<Longrightarrow> rt_wf (snd (RoutingTable_AddRoute now e t))"
  using rt_wf_put [OF rt_wf_Purge, of t "clear_count e"]
  by (simp add: RoutingTable_AddRoute_def Let_def map_insert_def rt_wf_Purge)

lemma rt_wf_Update: "rt_wf t \<Longrightarrow> rt_wf (snd (RoutingTable_Update e t))"
  by (simp add: RoutingTable_Update_def Let_def rt_wf_put)

lemma rt_wf_SetEntryState: "rt_wf t \<Longrightarrow> rt_wf (snd (RoutingTable_SetEntryState i f t))"
  by (auto simp: RoutingTable_SetEntryState_def rt_wf_dest intro!: rt_wf_put split: option.splits)

lemma rt_wf_MarkLink: "rt_wf t \<Longrightarrow> rt_wf (snd (RoutingTable_MarkLinkAsUnidirectional n b t))"
  by (auto simp: RoutingTable_MarkLinkAsUnidirectional_def rt_wf_dest
      intro!: rt_wf_put split: option.splits)

lemma rt_wf_GetList:
  "rt_wf t \<Longrightarrow> rt_wf (snd (RoutingTable_GetListOfDestinationWithNextHop now n t))"
  by (simp add: RoutingTable_GetListOfDestinationWithNextHop_def Let_def rt_wf_Purge)

lemma rt_wf_vals:
  "rt_wf t \<Longrightarrow> (\<And>k e. Entry_GetDestination (f k e) = Entry_GetDestination e) \<Longrightarrow>
     rt_wf (t\<lparr>rt_entries := map_vals f (rt_entries t)\<rparr>)"
  using smap_vals [of "rt_entries t" f] by (auto simp: rt_wf_def map_vals_def)

lemma rt_wf_Invalidate: "rt_wf t \<Longrightarrow> rt_wf (RoutingTable_InvalidateRoutesWithDst now u t)"
  by (simp add: RoutingTable_InvalidateRoutesWithDst_def Let_def rt_wf_vals rt_wf_Purge)

lemma rt_wf_DeleteAll: "rt_wf t \<Longrightarrow> rt_wf (RoutingTable_DeleteAllRoutesFromInterface i t)"
  by (simp add: RoutingTable_DeleteAllRoutesFromInterface_def rt_wf_filter)

lemma rt_wf_Clear: "rt_wf (RoutingTable_Clear t)"
  by (simp add: rt_wf_def RoutingTable_Clear_def)

lemmas rt_wf_intros [intro] =
  rt_wf_make rt_wf_Purge rt_wf_Lookup rt_wf_LookupValid rt_wf_Delete rt_wf_Add rt_wf_Update
  rt_wf_SetEntryState rt_wf_MarkLink rt_wf_GetList rt_wf_Invalidate rt_wf_DeleteAll rt_wf_Clear

lemma badLink_simps [simp]:
  "rt_badLinkLifetime (RoutingTable_Purge now t) = rt_badLinkLifetime t"
  "rt_badLinkLifetime (snd (snd (RoutingTable_LookupRoute now i rt t))) = rt_badLinkLifetime t"
  "rt_badLinkLifetime (snd (snd (RoutingTable_LookupValidRoute now i rt t))) = rt_badLinkLifetime t"
  "rt_badLinkLifetime (snd (RoutingTable_AddRoute now e t)) = rt_badLinkLifetime t"
  "rt_badLinkLifetime (snd (RoutingTable_Update e t)) = rt_badLinkLifetime t"
  "rt_badLinkLifetime (snd (RoutingTable_DeleteRoute now d t)) = rt_badLinkLifetime t"
  by (simp_all add: RoutingTable_Purge_def RoutingTable_LookupRoute_def Let_def
      RoutingTable_LookupValidRoute_def RoutingTable_AddRoute_def RoutingTable_Update_def
      RoutingTable_DeleteRoute_def split: option.splits prod.splits)

section \<open>The interface of the table\<close>

text \<open>
  What the protocol may assume of a table: \<open>view\<close> is its contents as a map, \<open>keep now t\<close> what
  \<open>Purge\<close> makes of an entry, and each operation has its effect on the view.
\<close>

locale route_store =
  fixes wf :: "'t \<Rightarrow> bool"
    and view :: "'t \<Rightarrow> ip \<rightharpoonup> RoutingTableEntry"
    and keep :: "time \<Rightarrow> 't \<Rightarrow> RoutingTableEntry \<Rightarrow> RoutingTableEntry option"
    and purge :: "time \<Rightarrow> 't \<Rightarrow> 't"
    and lookup :: "time \<Rightarrow> ip \<Rightarrow> RoutingTableEntry \<Rightarrow> 't \<Rightarrow> bool \<times> RoutingTableEntry \<times> 't"
    and add :: "time \<Rightarrow> RoutingTableEntry \<Rightarrow> 't \<Rightarrow> bool \<times> 't"
    and upd :: "RoutingTableEntry \<Rightarrow> 't \<Rightarrow> bool \<times> 't"
    and del :: "time \<Rightarrow> ip \<Rightarrow> 't \<Rightarrow> bool \<times> 't"
  assumes wf_purge: "wf t \<Longrightarrow> wf (purge now t)"
    and view_purge: "wf t \<Longrightarrow> view (purge now t) k = Option.bind (view t k) (keep now t)"
    and lookup_spec: "lookup now k rt t =
      (case view (purge now t) k of
         None \<Rightarrow> (False, rt, purge now t) | Some e \<Rightarrow> (True, e, purge now t))"
    and add_spec: "add now e t = (b, t') \<Longrightarrow>
      b = (view (purge now t) (Entry_GetDestination e) = None) \<and>
      view t' = (if b then (view (purge now t))(Entry_GetDestination e \<mapsto> clear_count e)
                 else view (purge now t))"
    and upd_spec: "upd e t = (b, t') \<Longrightarrow>
      b = (view t (Entry_GetDestination e) \<noteq> None) \<and>
      view t' = (if b then (view t)(Entry_GetDestination e \<mapsto> clear_count e) else view t)"
    and del_spec: "del now k t = (b, t') \<Longrightarrow>
      b = (view (purge now t) k \<noteq> None) \<and> view t' = (view (purge now t))(k := None)"
    and wf_add: "wf t \<Longrightarrow> wf (snd (add now e t))"
    and wf_upd: "wf t \<Longrightarrow> wf (snd (upd e t))"
    and wf_del: "wf t \<Longrightarrow> wf (snd (del now k t))"
    and keep_live: "keep now t e = Some e' \<Longrightarrow> e_flag e' = VALID \<Longrightarrow> now \<le> e_lifeTime e'"
    and keep_fresh: "now \<le> e_lifeTime e \<Longrightarrow> keep now t e = Some e"
    and keep_expired: "e_lifeTime e < now \<Longrightarrow> e_flag e = INVALID \<Longrightarrow> keep now t e = None"
begin

lemma lookup_found: "lookup now k rt t = (True, e, t') \<Longrightarrow> view (purge now t) k = Some e \<and> t' = purge now t"
  by (auto simp: lookup_spec split: option.splits)

text \<open>A valid route that a lookup hands out has not expired.\<close>

lemma lookup_valid_live:
  assumes "wf t" and "lookup now k rt t = (True, e, t')" and "e_flag e = VALID"
  shows "now \<le> e_lifeTime e"
  using lookup_found [OF assms(2)] view_purge [OF assms(1), of now k] keep_live assms(3)
  by (auto simp: bind_eq_Some_conv)

lemma lookup_after_upd:
  assumes "wf t" and "upd e t = (True, t')" and "now \<le> e_lifeTime e"
  shows "lookup now (Entry_GetDestination e) rt t' = (True, clear_count e, purge now t')"
proof -
  have "wf t'" using wf_upd [OF assms(1), of e] assms(2) by simp
  moreover have "view t' (Entry_GetDestination e) = Some (clear_count e)"
    using upd_spec [OF assms(2)] by simp
  moreover have "now \<le> e_lifeTime (clear_count e)"
    using assms(3) by (simp add: clear_count_def Entry_SetRreqCnt_def)
  ultimately show ?thesis by (simp add: lookup_spec view_purge keep_fresh)
qed

lemma lookup_after_add:
  assumes "wf t" and "add now e t = (True, t')" and "now \<le> e_lifeTime e"
  shows "lookup now (Entry_GetDestination e) rt t' = (True, clear_count e, purge now t')"
proof -
  have "wf t'" using wf_add [OF assms(1), of now e] assms(2) by simp
  moreover have "view t' (Entry_GetDestination e) = Some (clear_count e)"
    using add_spec [OF assms(2)] by simp
  moreover have "now \<le> e_lifeTime (clear_count e)"
    using assms(3) by (simp add: clear_count_def Entry_SetRreqCnt_def)
  ultimately show ?thesis by (simp add: lookup_spec view_purge keep_fresh)
qed

lemma lookup_after_del:
  assumes "wf t" and "del now k t = (b, t')"
  shows "\<not> fst (lookup now' k rt t')"
  using del_spec [OF assms(2)] wf_del [OF assms(1), of now k] assms(2)
  by (simp add: lookup_spec view_purge)

lemma view_upd_other: "upd e t = (b, t') \<Longrightarrow> k \<noteq> Entry_GetDestination e \<Longrightarrow> view t' k = view t k"
  using upd_spec [of e t b t'] by auto

end

interpretation rstore: route_store rt_wf rt_view
  "\<lambda>now t. purge_entry now (rt_badLinkLifetime t)" RoutingTable_Purge RoutingTable_LookupRoute
  RoutingTable_AddRoute RoutingTable_Update RoutingTable_DeleteRoute
proof (unfold_locales, goal_cases)
  case (2 t now k)
  then show ?case by (simp add: RoutingTable_Purge_def map_of_purge_entries rt_wf_def)
next
  case (3 now k rt t)
  show ?case by (simp add: RoutingTable_LookupRoute_def Let_def)
next
  case (4 now e t b t')
  then show ?case by (auto simp: RoutingTable_AddRoute_def Let_def map_of_map_insert)
next
  case (5 e t b t')
  then show ?case by (auto simp: RoutingTable_Update_def Let_def split: if_splits)
next
  case (6 now k t b t')
  then show ?case by (auto simp: RoutingTable_DeleteRoute_def Let_def split: if_splits)
next
  case (10 now t e e')
  then show ?case
    by (auto simp: purge_entry_def Entry_GetLifeTime_def Entry_Invalidate_def split: if_splits)
qed (auto simp: purge_entry_def Entry_GetLifeTime_def)

section \<open>Properties of the table\<close>

text \<open>The operations a client can call, for statements about any history of a table.\<close>

datatype table_op =
  OpLookup ip | OpLookupValid ip | OpDelete ip | OpAdd RoutingTableEntry
| OpUpdate RoutingTableEntry | OpSetState ip RouteFlags | OpNextHop ip
| OpInvalidate "(ip \<times> u32) list" | OpDeleteIface Ipv4InterfaceAddress | OpClear | OpPurge
| OpMark ip time

fun table_step :: "time \<Rightarrow> table_op \<Rightarrow> RoutingTable \<Rightarrow> RoutingTable" where
  "table_step now (OpLookup i) t = snd (snd (RoutingTable_LookupRoute now i (RoutingTableEntry_default now) t))"
| "table_step now (OpLookupValid i) t =
     snd (snd (RoutingTable_LookupValidRoute now i (RoutingTableEntry_default now) t))"
| "table_step now (OpDelete d) t = snd (RoutingTable_DeleteRoute now d t)"
| "table_step now (OpAdd e) t = snd (RoutingTable_AddRoute now e t)"
| "table_step now (OpUpdate e) t = snd (RoutingTable_Update e t)"
| "table_step now (OpSetState i f) t = snd (RoutingTable_SetEntryState i f t)"
| "table_step now (OpNextHop n) t = snd (RoutingTable_GetListOfDestinationWithNextHop now n t)"
| "table_step now (OpInvalidate u) t = RoutingTable_InvalidateRoutesWithDst now u t"
| "table_step now (OpDeleteIface i) t = RoutingTable_DeleteAllRoutesFromInterface i t"
| "table_step now OpClear t = RoutingTable_Clear t"
| "table_step now OpPurge t = RoutingTable_Purge now t"
| "table_step now (OpMark n b) t = snd (RoutingTable_MarkLinkAsUnidirectional n b t)"

text \<open>
  Whatever is done to a new table, its entries stay in key order, one per
  destination, each filed under the destination of its own route.
\<close>

theorem rtable_well_formed:
  "rt_wf (foldl (\<lambda>t (now, op). table_step now op t) (RoutingTable_make bad) ops)"
proof -
  have step: "rt_wf t \<Longrightarrow> rt_wf (table_step now op t)" for now op t
    by (cases op) auto
  have "rt_wf t \<Longrightarrow> rt_wf (foldl (\<lambda>t (now, op). table_step now op t) t ops)" for t
    by (induction ops arbitrary: t) (auto simp: step)
  then show ?thesis by simp
qed

text \<open>
  A successful \<open>LookupValidRoute\<close> returns an unexpired valid entry for that very
  destination, and it is the entry the table now holds.
\<close>

theorem lookup_valid_route_sound:
  assumes "rt_wf t" and "RoutingTable_LookupValidRoute now dst rt t = (True, e, t')"
  shows "e_flag e = VALID \<and> 0 \<le> Entry_GetLifeTime now e \<and> Entry_GetDestination e = dst \<and>
    map_of (rt_entries t') dst = Some e"
proof -
  have l: "RoutingTable_LookupRoute now dst rt t = (True, e, t')" and f: "e_flag e = VALID"
    using assms(2) by (auto simp: RoutingTable_LookupValidRoute_def split: prod.splits if_splits)
  have v: "rt_view t' dst = Some e"
    using rstore.lookup_found [OF l] by auto
  moreover have "rt_wf t'" using rt_wf_Lookup [OF assms(1), of now dst rt] l by simp
  ultimately show ?thesis
    using f rstore.lookup_valid_live [OF assms(1) l f] rt_wf_dest [of t' dst e]
    by (simp add: Entry_GetLifeTime_def)
qed

abbreviation sample_entry :: RoutingTableEntry where
  "sample_entry \<equiv> RoutingTableEntry_make 0 None 9 True 5 Ipv4InterfaceAddress_default 2 8 100"

theorem lookup_valid_route_sound_witness:
  "e_flag sample_entry = VALID \<and> 0 \<le> Entry_GetLifeTime 50 sample_entry \<and>
   Entry_GetDestination sample_entry = 9 \<and>
   map_of (rt_entries \<lparr>rt_entries = [(9, sample_entry)], rt_badLinkLifetime = 15\<rparr>) 9 = Some sample_entry"
  by (rule lookup_valid_route_sound
      [where t = "\<lparr>rt_entries = [(9, sample_entry)], rt_badLinkLifetime = 15\<rparr>"
        and rt = sample_entry])
    (simp_all add: rt_wf_def smap_def RoutingTable_LookupValidRoute_def RoutingTable_LookupRoute_def
      RoutingTable_Purge_def purge_entry_def Entry_GetLifeTime_def RoutingTableEntry_make_def
      Entry_GetDestination_def)

lemma purge_entry_stable:
  "0 \<le> bad \<Longrightarrow> purge_entry now bad e = Some e' \<Longrightarrow> purge_entry now bad e' = Some e'"
  by (auto simp: purge_entry_def Entry_Invalidate_def Entry_GetLifeTime_def split: if_splits)

lemma Purge_idem:
  assumes "0 \<le> rt_badLinkLifetime t"
  shows "RoutingTable_Purge now (RoutingTable_Purge now t) = RoutingTable_Purge now t"
proof -
  have "purge_entries now bad (purge_entries now bad m) = purge_entries now bad m"
    if "0 \<le> bad" for bad m
  proof (induction m)
    case (Cons kv m)
    then show ?case
      by (cases "purge_entry now bad (snd kv)"; cases kv)
        (simp_all add: purge_entry_stable [OF that])
  qed simp
  with assms show ?thesis by (simp add: RoutingTable_Purge_def)
qed

text \<open>
  The life of a valid route nobody refreshes. The first lookup after its lifetime
  finds it invalid, with its sequence number and next hop kept, and grants it the bad-link
  lifetime from then; a lookup after that has passed does not find it.
\<close>

theorem route_lifecycle:
  assumes "rt_wf t" and "map_of (rt_entries t) dst = Some e" and "e_flag e = VALID"
    and "e_lifeTime e < now1" and "0 \<le> rt_badLinkLifetime t"
    and "RoutingTable_LookupRoute now1 dst rt t = (b1, e1, t1)"
    and "now1 + rt_badLinkLifetime t < now2"
    and "RoutingTable_LookupRoute now2 dst rt t1 = (b2, e2, t2)"
  shows "b1 \<and> e_flag e1 = INVALID \<and> e_seqNo e1 = e_seqNo e \<and>
    Entry_GetNextHop e1 = Entry_GetNextHop e \<and>
    Entry_GetLifeTime now1 e1 = rt_badLinkLifetime t \<and> \<not> b2"
proof -
  have k1: "purge_entry now1 (rt_badLinkLifetime t) e = Some (Entry_Invalidate now1 (rt_badLinkLifetime t) e)"
    using assms(3,4) by (simp add: purge_entry_def Entry_GetLifeTime_def)
  have v1: "rt_view (RoutingTable_Purge now1 t) dst = Some (Entry_Invalidate now1 (rt_badLinkLifetime t) e)"
    using rstore.view_purge [OF assms(1), of now1 dst] assms(2) k1 by simp
  then have 1: "b1" "e1 = Entry_Invalidate now1 (rt_badLinkLifetime t) e" "t1 = RoutingTable_Purge now1 t"
    using assms(6) by (simp_all add: rstore.lookup_spec)
  have "purge_entry now2 (rt_badLinkLifetime t) e1 = None"
    using 1(2) assms(3,5,7)
    by (auto simp: purge_entry_def Entry_GetLifeTime_def Entry_Invalidate_def)
  then have "rt_view (RoutingTable_Purge now2 t1) dst = None"
    using rstore.view_purge [of t1 now2 dst] v1 1 assms(1) by (simp add: rt_wf_Purge)
  with assms(8) have "\<not> b2" by (simp add: rstore.lookup_spec)
  with 1 assms(3) show ?thesis
    by (simp add: Entry_Invalidate_def Entry_GetNextHop_def Entry_GetLifeTime_def)
qed

theorem route_lifecycle_witness:
  "fst (RoutingTable_LookupRoute 101 9 sample_entry
     \<lparr>rt_entries = [(9, sample_entry)], rt_badLinkLifetime = 15\<rparr>) \<and>
   \<not> fst (RoutingTable_LookupRoute 120 9 sample_entry
     (snd (snd (RoutingTable_LookupRoute 101 9 sample_entry
       \<lparr>rt_entries = [(9, sample_entry)], rt_badLinkLifetime = 15\<rparr>))))"
proof -
  let ?t = "\<lparr>rt_entries = [(9, sample_entry)], rt_badLinkLifetime = 15\<rparr> :: RoutingTable"
  let ?r1 = "RoutingTable_LookupRoute 101 9 sample_entry ?t"
  let ?r2 = "RoutingTable_LookupRoute 120 9 sample_entry (snd (snd ?r1))"
  have "fst ?r1 \<and> e_flag (fst (snd ?r1)) = INVALID \<and> e_seqNo (fst (snd ?r1)) = e_seqNo sample_entry \<and>
      Entry_GetNextHop (fst (snd ?r1)) = Entry_GetNextHop sample_entry \<and>
      Entry_GetLifeTime 101 (fst (snd ?r1)) = rt_badLinkLifetime ?t \<and> \<not> fst ?r2"
    by (rule route_lifecycle [where dst = 9 and rt = sample_entry and ?now2.0 = 120
          and ?t1.0 = "snd (snd ?r1)" and ?e2.0 = "fst (snd ?r2)" and ?t2.0 = "snd (snd ?r2)"])
      (simp_all add: rt_wf_def smap_def RoutingTableEntry_make_def Entry_GetDestination_def)
  then show ?thesis by blast
qed

text \<open>
  \<open>InvalidateRoutesWithDst\<close> leaves no listed destination valid, touches no other
  entry beyond the purge, and never changes a sequence number (the comment in the header file
  says a valid one is incremented).
\<close>

theorem invalidate_routes_spec:
  assumes "rt_wf t" and "t' = RoutingTable_InvalidateRoutesWithDst now un t"
    and "map_of (rt_entries t') k = Some e'"
  shows "(k \<in> fst ` set un \<longrightarrow> e_flag e' \<noteq> VALID) \<and>
    (k \<notin> fst ` set un \<longrightarrow> map_of (rt_entries (RoutingTable_Purge now t)) k = Some e') \<and>
    (\<exists>e. map_of (rt_entries t) k = Some e \<and> e_seqNo e' = e_seqNo e)"
proof -
  let ?p = "RoutingTable_Purge now t"
  obtain e1 where e1: "rt_view ?p k = Some e1"
    and e': "e' = (if k \<in> fst ` set un \<and> e_flag e1 = VALID
                   then Entry_Invalidate now (rt_badLinkLifetime t) e1 else e1)"
    using assms(2,3)
    by (force simp: RoutingTable_InvalidateRoutesWithDst_def Let_def list_ex_iff split: if_splits)
  obtain e where e: "rt_view t k = Some e" "purge_entry now (rt_badLinkLifetime t) e = Some e1"
    using rstore.view_purge [OF assms(1), of now k] e1 by (cases "rt_view t k") simp_all
  then have "e_seqNo e1 = e_seqNo e"
    by (auto dest!: purge_entry_Some simp: Entry_Invalidate_def)
  with e e1 e' show ?thesis by (auto simp: Entry_Invalidate_def)
qed

theorem invalidate_routes_spec_witness:
  "let t = \<lparr>rt_entries = [(9, sample_entry)], rt_badLinkLifetime = 15\<rparr>;
       e' = Entry_Invalidate 50 15 sample_entry
   in e_flag e' \<noteq> VALID \<and> (\<exists>e. map_of (rt_entries t) 9 = Some e \<and> e_seqNo e' = e_seqNo e)"
  using invalidate_routes_spec [of "\<lparr>rt_entries = [(9, sample_entry)], rt_badLinkLifetime = 15\<rparr>" _ 50
      "[(9, 5)]" 9 "Entry_Invalidate 50 15 sample_entry", OF _ refl]
  by (simp add: rt_wf_def smap_def RoutingTable_InvalidateRoutesWithDst_def Let_def map_vals_def
      RoutingTable_Purge_def purge_entry_def Entry_GetLifeTime_def RoutingTableEntry_make_def
      Entry_GetDestination_def)

end
