(* ===== verification/Rqueue.thy ===== *)
theory Rqueue
  imports Net_Base "HOL-Library.Multiset"
begin

text \<open>
  The request queue (src/aodv/model/aodv-rqueue.cc and aodv-rqueue.h): data packets that wait
  for a route. Every entry carries the callbacks of the caller that handed the packet over; a
  callback is a token, and a call of an error callback is an element of the list of dropped
  entries an operation returns (the callback of the L3 protocol only traces the drop and does
  not come back to AODV).
\<close>

section \<open>State\<close>

type_synonym callback = nat

record QueueEntry =
  q_packet :: packet
  q_header :: Ipv4Header
  q_ucb :: callback
  q_ecb :: callback
  q_expire :: time

definition QueueEntry_make ::
    "time \<Rightarrow> packet \<Rightarrow> Ipv4Header \<Rightarrow> callback \<Rightarrow> callback \<Rightarrow> time \<Rightarrow> QueueEntry" where
  "QueueEntry_make now pa h ucb ecb ex =
     \<lparr>q_packet = pa, q_header = h, q_ucb = ucb, q_ecb = ecb, q_expire = ex + now\<rparr>"

definition QueueEntry_SetExpireTime :: "time \<Rightarrow> time \<Rightarrow> QueueEntry \<Rightarrow> QueueEntry" where
  "QueueEntry_SetExpireTime now ex e = e\<lparr>q_expire := ex + now\<rparr>"

definition QueueEntry_GetExpireTime :: "time \<Rightarrow> QueueEntry \<Rightarrow> time" where
  "QueueEntry_GetExpireTime now e = q_expire e - now"

record RequestQueue =
  rq_queue :: "QueueEntry list"
  rq_maxLen :: u32
  rq_queueTimeout :: time

definition RequestQueue_make :: "u32 \<Rightarrow> time \<Rightarrow> RequestQueue" where
  "RequestQueue_make maxLen timeout =
     \<lparr>rq_queue = [], rq_maxLen = maxLen, rq_queueTimeout = timeout\<rparr>"

definition RequestQueue_SetMaxQueueLen :: "u32 \<Rightarrow> RequestQueue \<Rightarrow> RequestQueue" where
  "RequestQueue_SetMaxQueueLen len q = q\<lparr>rq_maxLen := len\<rparr>"

definition RequestQueue_SetQueueTimeout :: "time \<Rightarrow> RequestQueue \<Rightarrow> RequestQueue" where
  "RequestQueue_SetQueueTimeout t q = q\<lparr>rq_queueTimeout := t\<rparr>"

section \<open>Operations\<close>

text \<open>
  Each operation returns its result, the entries it dropped in the order their error callbacks
  were called, and the queue.
\<close>

definition RequestQueue_IsExpired :: "time \<Rightarrow> QueueEntry \<Rightarrow> bool" where
  "RequestQueue_IsExpired now e \<longleftrightarrow> QueueEntry_GetExpireTime now e < 0"

definition RequestQueue_Purge :: "time \<Rightarrow> RequestQueue \<Rightarrow> QueueEntry list \<times> RequestQueue" where
  "RequestQueue_Purge now q =
     (filter (RequestQueue_IsExpired now) (rq_queue q),
      q\<lparr>rq_queue := filter (\<lambda>e. \<not> RequestQueue_IsExpired now e) (rq_queue q)\<rparr>)"

definition RequestQueue_GetSize ::
    "time \<Rightarrow> RequestQueue \<Rightarrow> u32 \<times> QueueEntry list \<times> RequestQueue" where
  "RequestQueue_GetSize now q =
     (let (drops, q) = RequestQueue_Purge now q in (of_nat (length (rq_queue q)), drops, q))"

abbreviation entry_dst :: "QueueEntry \<Rightarrow> ip" where
  "entry_dst e \<equiv> ih_dst (q_header e)"

abbreviation entry_key :: "QueueEntry \<Rightarrow> u64 \<times> ip" where
  "entry_key e \<equiv> (p_uid (q_packet e), entry_dst e)"

text \<open>
  \<open>Enqueue\<close> drops the oldest entry when the queue is full. With a maximum length of zero the
  empty queue is full and \<open>front()\<close> is undefined behaviour: the value is \<open>None\<close>.
\<close>

definition RequestQueue_Enqueue ::
    "time \<Rightarrow> QueueEntry \<Rightarrow> RequestQueue \<Rightarrow> (bool \<times> QueueEntry list \<times> RequestQueue) option" where
  "RequestQueue_Enqueue now entry q =
     (let (drops, q) = RequestQueue_Purge now q in
      if list_ex (\<lambda>i. p_uid (q_packet i) = p_uid (q_packet entry) \<and> entry_dst i = entry_dst entry)
           (rq_queue q)
      then Some (False, drops, q)
      else
        let entry = QueueEntry_SetExpireTime now (rq_queueTimeout q) entry in
        if length (rq_queue q) = unat (rq_maxLen q) then
          (case rq_queue q of
             [] \<Rightarrow> None
           | oldest # rest \<Rightarrow> Some (True, drops @ [oldest], q\<lparr>rq_queue := rest @ [entry]\<rparr>))
        else Some (True, drops, q\<lparr>rq_queue := rq_queue q @ [entry]\<rparr>))"

definition RequestQueue_DropPacketWithDst ::
    "time \<Rightarrow> ip \<Rightarrow> RequestQueue \<Rightarrow> QueueEntry list \<times> RequestQueue" where
  "RequestQueue_DropPacketWithDst now dst q =
     (let (drops, q) = RequestQueue_Purge now q in
      (drops @ filter (\<lambda>e. entry_dst e = dst) (rq_queue q),
       q\<lparr>rq_queue := filter (\<lambda>e. entry_dst e \<noteq> dst) (rq_queue q)\<rparr>))"

fun dequeue_first :: "ip \<Rightarrow> QueueEntry list \<Rightarrow> (QueueEntry \<times> QueueEntry list) option" where
  "dequeue_first dst [] = None"
| "dequeue_first dst (e # es) =
     (if entry_dst e = dst then Some (e, es)
      else case dequeue_first dst es of None \<Rightarrow> None | Some (r, rest) \<Rightarrow> Some (r, e # rest))"

text \<open>The entry is the reference parameter: unchanged when nothing is found.\<close>

definition RequestQueue_Dequeue ::
    "time \<Rightarrow> ip \<Rightarrow> QueueEntry \<Rightarrow> RequestQueue \<Rightarrow>
     bool \<times> QueueEntry \<times> QueueEntry list \<times> RequestQueue" where
  "RequestQueue_Dequeue now dst entry q =
     (let (drops, q) = RequestQueue_Purge now q in
      case dequeue_first dst (rq_queue q) of
        None \<Rightarrow> (False, entry, drops, q)
      | Some (e, rest) \<Rightarrow> (True, e, drops, q\<lparr>rq_queue := rest\<rparr>))"

definition RequestQueue_Find :: "ip \<Rightarrow> RequestQueue \<Rightarrow> bool" where
  "RequestQueue_Find dst q = list_ex (\<lambda>e. entry_dst e = dst) (rq_queue q)"

interpretation rq_store:
  expiring_store "\<lambda>now q. snd (RequestQueue_Purge now q)" rq_queue
    "\<lambda>now e. \<not> RequestQueue_IsExpired now e"
  by unfold_locales
    (auto simp: RequestQueue_Purge_def RequestQueue_IsExpired_def QueueEntry_GetExpireTime_def)

lemma dequeue_first_split:
  "dequeue_first dst es = Some (e, rest) \<longleftrightarrow>
     (\<exists>xs ys. es = xs @ e # ys \<and> rest = xs @ ys \<and> entry_dst e = dst \<and>
        (\<forall>x \<in> set xs. entry_dst x \<noteq> dst))"
proof (induction es arbitrary: e rest)
  case (Cons a es)
  show ?case
  proof (cases "entry_dst a = dst")
    case True
    then show ?thesis by (auto simp: Cons_eq_append_conv intro: exI [of _ "[]"])
  next
    case False
    have "dequeue_first dst (a # es) = Some (e, rest) \<longleftrightarrow>
        (\<exists>r. dequeue_first dst es = Some (e, r) \<and> rest = a # r)"
      using False by (auto split: option.splits prod.splits)
    also have "\<dots> \<longleftrightarrow> (\<exists>xs ys. a # es = xs @ e # ys \<and> rest = xs @ ys \<and>
        entry_dst e = dst \<and> (\<forall>x \<in> set xs. entry_dst x \<noteq> dst))" (is "?l = ?r")
    proof
      assume ?l
      then obtain xs ys where "es = xs @ e # ys" "rest = a # xs @ ys" "entry_dst e = dst"
        "\<forall>x \<in> set xs. entry_dst x \<noteq> dst" by (auto simp: Cons.IH)
      then show ?r using False by (intro exI [of _ "a # xs"] exI [of _ ys]) simp
    next
      assume ?r
      then obtain xs ys where r: "a # es = xs @ e # ys" "rest = xs @ ys" "entry_dst e = dst"
        "\<forall>x \<in> set xs. entry_dst x \<noteq> dst" by blast
      then obtain zs where "xs = a # zs" using False by (cases xs) auto
      with r have "dequeue_first dst es = Some (e, zs @ ys)" by (subst Cons.IH) auto
      with r \<open>xs = a # zs\<close> show ?l by simp
    qed
    finally show ?thesis .
  qed
qed simp

lemma dequeue_first_None: "dequeue_first dst es = None \<longleftrightarrow> (\<forall>e \<in> set es. entry_dst e \<noteq> dst)"
  by (induction es) (auto split: option.splits)

section \<open>Histories of a queue\<close>

datatype rq_op = RqEnqueue QueueEntry | RqDequeue ip | RqDropDst ip | RqGetSize

text \<open>
  One call: the entries it accepted, handed out and dropped (as multisets), and the queue
  after it.
\<close>

fun rq_step :: "time \<Rightarrow> rq_op \<Rightarrow> RequestQueue \<Rightarrow>
    (QueueEntry multiset \<times> QueueEntry multiset \<times> QueueEntry multiset \<times> RequestQueue) option" where
  "rq_step now (RqEnqueue e) q =
     do {
       (b, drops, q') \<leftarrow> RequestQueue_Enqueue now e q;
       Some (if b then {#QueueEntry_SetExpireTime now (rq_queueTimeout q) e#} else {#}, {#},
             mset drops, q')
     }"
| "rq_step now (RqDequeue dst) q =
     (let (b, e, drops, q') = RequestQueue_Dequeue now dst
            (QueueEntry_make now Packet_Create Ipv4Header_default 0 0 now) q in
      Some ({#}, if b then {#e#} else {#}, mset drops, q'))"
| "rq_step now (RqDropDst dst) q =
     (let (drops, q') = RequestQueue_DropPacketWithDst now dst q in Some ({#}, {#}, mset drops, q'))"
| "rq_step now RqGetSize q =
     (let (n, drops, q') = RequestQueue_GetSize now q in Some ({#}, {#}, mset drops, q'))"

fun rq_run :: "(time \<times> rq_op) list \<Rightarrow> RequestQueue \<Rightarrow>
    (QueueEntry multiset \<times> QueueEntry multiset \<times> QueueEntry multiset \<times> RequestQueue) option" where
  "rq_run [] q = Some ({#}, {#}, {#}, q)"
| "rq_run ((now, op) # ops) q =
     do {
       (a, h, d, q) \<leftarrow> rq_step now op q;
       (a', h', d', q) \<leftarrow> rq_run ops q;
       Some (a + a', h + h', d + d', q)
     }"

definition rq_inv :: "RequestQueue \<Rightarrow> bool" where
  "rq_inv q \<longleftrightarrow> 0 < rq_maxLen q \<and> length (rq_queue q) \<le> unat (rq_maxLen q) \<and>
     distinct (map entry_key (rq_queue q))"

lemma rq_inv_make: "0 < n \<Longrightarrow> rq_inv (RequestQueue_make n t)"
  by (simp add: rq_inv_def RequestQueue_make_def)

lemma rq_fields_Purge [simp]:
  "rq_maxLen (snd (RequestQueue_Purge now q)) = rq_maxLen q"
  "rq_queueTimeout (snd (RequestQueue_Purge now q)) = rq_queueTimeout q"
  by (simp_all add: RequestQueue_Purge_def)

lemma rq_inv_Purge: "rq_inv q \<Longrightarrow> rq_inv (snd (RequestQueue_Purge now q))"
  by (auto simp: rq_inv_def RequestQueue_Purge_def distinct_map_filter
      intro: le_trans [OF length_filter_le])

lemma rq_Purge_mset:
  "mset (fst (RequestQueue_Purge now q)) + mset (rq_queue (snd (RequestQueue_Purge now q))) =
     mset (rq_queue q)"
  by (simp add: RequestQueue_Purge_def mset_filter multiset_partition [symmetric])

lemma entry_key_SetExpireTime [simp]: "q_packet (QueueEntry_SetExpireTime now t e) = q_packet e"
  "q_header (QueueEntry_SetExpireTime now t e) = q_header e"
  by (simp_all add: QueueEntry_SetExpireTime_def)

lemma queued_iff:
  "list_ex (\<lambda>i. p_uid (q_packet i) = p_uid (q_packet e) \<and> entry_dst i = entry_dst e) xs \<longleftrightarrow>
     entry_key e \<in> entry_key ` set xs"
  by (auto simp: list_ex_iff image_iff intro: sym)

lemma Enqueue_total:
  assumes "rq_inv q"
  obtains b drops q' where "RequestQueue_Enqueue now e q = Some (b, drops, q')" and "rq_inv q'"
    and "rq_queueTimeout q' = rq_queueTimeout q"
    and "mset drops + mset (rq_queue q') =
      mset (rq_queue q) + (if b then {#QueueEntry_SetExpireTime now (rq_queueTimeout q) e#} else {#})"
proof -
  obtain ds p where p: "RequestQueue_Purge now q = (ds, p)" by fastforce
  have inv: "rq_inv p" and ms: "mset (rq_queue q) = mset ds + mset (rq_queue p)"
    and f: "rq_maxLen p = rq_maxLen q" "rq_queueTimeout p = rq_queueTimeout q"
    using rq_inv_Purge [OF assms, of now] rq_Purge_mset [of now q] rq_fields_Purge [of now q] p
    by simp_all
  have pos: "0 < unat (rq_maxLen p)" using inv by (simp add: rq_inv_def word_gt_0 unat_gt_0)
  let ?e = "QueueEntry_SetExpireTime now (rq_queueTimeout p) e"
  consider (dup) "entry_key e \<in> entry_key ` set (rq_queue p)"
    | (full) a r where "entry_key e \<notin> entry_key ` set (rq_queue p)" "rq_queue p = a # r"
        "length (rq_queue p) = unat (rq_maxLen p)"
    | (room) "entry_key e \<notin> entry_key ` set (rq_queue p)"
        "length (rq_queue p) < unat (rq_maxLen p)"
    using inv pos by (cases "rq_queue p") (auto simp: rq_inv_def le_less)
  then show thesis
  proof cases
    case dup
    then have "RequestQueue_Enqueue now e q = Some (False, ds, p)"
      using p by (auto simp: RequestQueue_Enqueue_def queued_iff)
    then show thesis by (rule that) (use inv ms f in simp_all)
  next
    case full
    then have "RequestQueue_Enqueue now e q = Some (True, ds @ [a], p\<lparr>rq_queue := r @ [?e]\<rparr>)"
      using p by (auto simp: RequestQueue_Enqueue_def queued_iff Let_def)
    moreover have "rq_inv (p\<lparr>rq_queue := r @ [?e]\<rparr>)"
      using inv full by (auto simp: rq_inv_def)
    ultimately show thesis using that ms f full by simp
  next
    case room
    then have "RequestQueue_Enqueue now e q = Some (True, ds, p\<lparr>rq_queue := rq_queue p @ [?e]\<rparr>)"
      using p by (auto simp: RequestQueue_Enqueue_def queued_iff Let_def)
    moreover have "rq_inv (p\<lparr>rq_queue := rq_queue p @ [?e]\<rparr>)"
      using inv room by (auto simp: rq_inv_def)
    ultimately show thesis using that ms f by simp
  qed
qed

lemma rq_step_ok:
  assumes "rq_inv q"
  shows "\<exists>a h d q'. rq_step now op q = Some (a, h, d, q') \<and> rq_inv q' \<and>
    mset (rq_queue q) + a = h + d + mset (rq_queue q')"
proof (cases op)
  case (RqEnqueue e)
  obtain b ds q' where "RequestQueue_Enqueue now e q = Some (b, ds, q')" "rq_inv q'"
    "mset ds + mset (rq_queue q') =
      mset (rq_queue q) + (if b then {#QueueEntry_SetExpireTime now (rq_queueTimeout q) e#} else {#})"
    using Enqueue_total [OF assms] by metis
  with RqEnqueue show ?thesis by simp
next
  case (RqDequeue dst)
  obtain ds p where p: "RequestQueue_Purge now q = (ds, p)" by fastforce
  have inv: "rq_inv p" and ms: "mset (rq_queue q) = mset ds + mset (rq_queue p)"
    using rq_inv_Purge [OF assms, of now] rq_Purge_mset [of now q] p by simp_all
  show ?thesis
  proof (cases "dequeue_first dst (rq_queue p)")
    case None
    with RqDequeue p inv ms show ?thesis by (simp add: RequestQueue_Dequeue_def)
  next
    case (Some r)
    then obtain e xs ys where r: "r = (e, xs @ ys)" "rq_queue p = xs @ e # ys"
      by (cases r) (auto simp: dequeue_first_split)
    with inv have "rq_inv (p\<lparr>rq_queue := xs @ ys\<rparr>)" by (auto simp: rq_inv_def)
    with RqDequeue p ms Some r show ?thesis by (simp add: RequestQueue_Dequeue_def)
  qed
next
  case (RqDropDst dst)
  obtain ds p where p: "RequestQueue_Purge now q = (ds, p)" by fastforce
  have inv: "rq_inv p" and ms: "mset (rq_queue q) = mset ds + mset (rq_queue p)"
    using rq_inv_Purge [OF assms, of now] rq_Purge_mset [of now q] p by simp_all
  have "rq_inv (p\<lparr>rq_queue := filter (\<lambda>e. entry_dst e \<noteq> dst) (rq_queue p)\<rparr>)"
    using inv by (auto simp: rq_inv_def distinct_map_filter intro: le_trans [OF length_filter_le])
  moreover have "mset (filter (\<lambda>e. entry_dst e = dst) (rq_queue p)) +
      mset (filter (\<lambda>e. entry_dst e \<noteq> dst) (rq_queue p)) = mset (rq_queue p)"
    by (simp add: mset_filter multiset_partition [symmetric])
  ultimately show ?thesis using RqDropDst p ms by (simp add: RequestQueue_DropPacketWithDst_def)
next
  case RqGetSize
  obtain ds p where p: "RequestQueue_Purge now q = (ds, p)" by fastforce
  with RqGetSize rq_inv_Purge [OF assms, of now] rq_Purge_mset [of now q] show ?thesis
    by (simp add: RequestQueue_GetSize_def)
qed

lemma rq_step_maxLen:
  "rq_step now op q = Some (a, h, d, q') \<Longrightarrow> rq_maxLen q' = rq_maxLen q"
  by (cases op) (auto simp: RequestQueue_Enqueue_def RequestQueue_Dequeue_def
      RequestQueue_DropPacketWithDst_def RequestQueue_GetSize_def RequestQueue_Purge_def Let_def
      bind_eq_Some_conv split: if_splits list.splits option.splits)

text \<open>The invariant as the clients of the queue use it, whatever the maximum length is.\<close>

definition rq_ok :: "RequestQueue \<Rightarrow> bool" where
  "rq_ok q \<longleftrightarrow> (0 < rq_maxLen q \<longrightarrow> rq_inv q)"

lemma rq_ok_make: "rq_ok (RequestQueue_make n t)"
  by (simp add: rq_ok_def rq_inv_def RequestQueue_make_def)

lemma rq_step_rq_ok:
  assumes "rq_ok q" and "rq_step now op q = Some (a, h, d, q')"
  shows "rq_ok q'"
  using assms rq_step_maxLen [OF assms(2)] rq_step_ok [of q now op] by (auto simp: rq_ok_def)

lemma Enqueue_rq_ok:
  assumes "rq_ok q" and "RequestQueue_Enqueue now e q = Some (b, ds, q')"
  shows "rq_ok q'"
proof -
  have "rq_step now (RqEnqueue e) q =
      Some (if b then {#QueueEntry_SetExpireTime now (rq_queueTimeout q) e#} else {#}, {#}, mset ds, q')"
    using assms(2) by simp
  then show ?thesis by (rule rq_step_rq_ok [OF assms(1)])
qed

lemma DropPacketWithDst_rq_ok:
  assumes "rq_ok q" and "RequestQueue_DropPacketWithDst now a q = (ds, q')"
  shows "rq_ok q'"
proof -
  have "rq_step now (RqDropDst a) q = Some ({#}, {#}, mset ds, q')" using assms(2) by simp
  then show ?thesis by (rule rq_step_rq_ok [OF assms(1)])
qed

lemma Dequeue_rq_ok:
  assumes "rq_ok q" and "RequestQueue_Dequeue now dst e0 q = (b, e, ds, q')"
  shows "rq_ok q'"
proof -
  let ?d = "QueueEntry_make now Packet_Create Ipv4Header_default 0 0 now"
  have "q' = snd (snd (snd (RequestQueue_Dequeue now dst ?d q)))"
    using assms(2) by (auto simp: RequestQueue_Dequeue_def split: prod.splits option.splits)
  moreover obtain a h d q1 where "rq_step now (RqDequeue dst) q = Some (a, h, d, q1)"
    "q1 = snd (snd (snd (RequestQueue_Dequeue now dst ?d q)))"
    by (auto simp: case_prod_beta)
  ultimately show ?thesis using rq_step_rq_ok [OF assms(1)] by metis
qed

section \<open>Properties\<close>

text \<open>
  With a positive maximum length no history makes the queue fail; it never holds
  more than the maximum, nor two copies of one packet for one destination; and every packet it
  accepted was handed out, reported through its error callback, or is still queued, exactly
  once.
\<close>

theorem rqueue_conservation:
  assumes "0 < maxLen"
  shows "\<exists>a h d q. rq_run ops (RequestQueue_make maxLen t) = Some (a, h, d, q) \<and>
    length (rq_queue q) \<le> unat maxLen \<and>
    distinct (map (\<lambda>e. (p_uid (q_packet e), ih_dst (q_header e))) (rq_queue q)) \<and>
    a = h + d + mset (rq_queue q)"
proof -
  have step: "\<exists>a h d q'. rq_step now op q = Some (a, h, d, q') \<and> rq_inv q' \<and> rq_maxLen q' = rq_maxLen q \<and>
      mset (rq_queue q) + a = h + d + mset (rq_queue q')" if inv: "rq_inv q" for now op q
  proof -
    obtain a h d q' where s: "rq_step now op q = Some (a, h, d, q')" "rq_inv q'"
      "mset (rq_queue q) + a = h + d + mset (rq_queue q')" using rq_step_ok [OF inv] by metis
    moreover have "rq_maxLen q' = rq_maxLen q" using s(1) by (rule rq_step_maxLen)
    ultimately show ?thesis by blast
  qed
  have "\<exists>a h d q'. rq_run ops q = Some (a, h, d, q') \<and> rq_inv q' \<and> rq_maxLen q' = rq_maxLen q \<and>
      mset (rq_queue q) + a = h + d + mset (rq_queue q')" if "rq_inv q" for q
    using that
  proof (induction ops arbitrary: q)
    case (Cons op ops)
    obtain now o1 where op: "op = (now, o1)" by (cases op)
    obtain a h d q1 where 1: "rq_step now o1 q = Some (a, h, d, q1)" "rq_inv q1"
      "rq_maxLen q1 = rq_maxLen q" "mset (rq_queue q) + a = h + d + mset (rq_queue q1)"
      using step [OF Cons.prems] by metis
    obtain a' h' d' q2 where 2: "rq_run ops q1 = Some (a', h', d', q2)" "rq_inv q2"
      "rq_maxLen q2 = rq_maxLen q1" "mset (rq_queue q1) + a' = h' + d' + mset (rq_queue q2)"
      using Cons.IH [OF 1(2)] by metis
    have "mset (rq_queue q) + (a + a') = (h + h') + (d + d') + mset (rq_queue q2)"
      using 1(4) 2(4) by (metis (no_types, lifting) add.assoc add.commute)
    with 1 2 op show ?case by simp
  qed simp
  from this [OF rq_inv_make [OF assms, of t]] show ?thesis
    by (auto simp: rq_inv_def RequestQueue_make_def)
qed

abbreviation sample_queued :: QueueEntry where
  "sample_queued \<equiv> QueueEntry_make 0 Packet_Create (Ipv4Header_default\<lparr>ih_dst := 9\<rparr>) 1 2 0"

theorem rqueue_conservation_witness:
  "\<exists>a h d q. rq_run [(0, RqEnqueue sample_queued), (4, RqDropDst 9)] (RequestQueue_make 1 5) =
     Some (a, h, d, q) \<and> a = h + d + mset (rq_queue q)"
  using rqueue_conservation [of 1 "[(0, RqEnqueue sample_queued), (4, RqDropDst 9)]" 5] by auto

text \<open>
  \<open>Dequeue\<close> hands out the oldest unexpired packet for the destination and leaves
  the others in order; it fails exactly when no unexpired packet for the destination waits.
\<close>

theorem rqueue_dequeue_fifo:
  assumes "RequestQueue_Dequeue now dst e0 q = (b, e, drops, q')"
  shows "drops = filter (\<lambda>x. q_expire x < now) (rq_queue q) \<and>
    (if b then \<exists>xs ys. filter (\<lambda>x. now \<le> q_expire x) (rq_queue q) = xs @ e # ys \<and>
                 rq_queue q' = xs @ ys \<and> ih_dst (q_header e) = dst \<and>
                 (\<forall>x \<in> set xs. ih_dst (q_header x) \<noteq> dst)
     else e = e0 \<and> (\<forall>x \<in> set (rq_queue q). now \<le> q_expire x \<longrightarrow> ih_dst (q_header x) \<noteq> dst))"
proof -
  have live: "(\<lambda>x. \<not> RequestQueue_IsExpired now x) = (\<lambda>x. now \<le> q_expire x)"
    "RequestQueue_IsExpired now = (\<lambda>x. q_expire x < now)"
    by (auto simp: RequestQueue_IsExpired_def QueueEntry_GetExpireTime_def fun_eq_iff)
  have "(\<lambda>x. \<not> q_expire x < now) = (\<lambda>x. now \<le> q_expire x)" by (simp add: not_less)
  note live = live this
  show ?thesis
    using assms
    by (auto simp: RequestQueue_Dequeue_def RequestQueue_Purge_def live dequeue_first_None
        dequeue_first_split split: option.splits)
qed

theorem rqueue_dequeue_fifo_witness:
  "rq_queue (snd (snd (snd (RequestQueue_Dequeue 3 9 sample_queued
      \<lparr>rq_queue = [sample_queued\<lparr>q_expire := 5\<rparr>, sample_queued\<lparr>q_expire := 6\<rparr>],
       rq_maxLen = 4, rq_queueTimeout = 5\<rparr>)))) = [sample_queued\<lparr>q_expire := 6\<rparr>]"
  using rqueue_dequeue_fifo [of 3 9 sample_queued
      "\<lparr>rq_queue = [sample_queued\<lparr>q_expire := 5\<rparr>, sample_queued\<lparr>q_expire := 6\<rparr>],
        rq_maxLen = 4, rq_queueTimeout = 5\<rparr>" True "sample_queued\<lparr>q_expire := 5\<rparr>" "[]"]
  by (simp add: RequestQueue_Dequeue_def RequestQueue_Purge_def RequestQueue_IsExpired_def
      QueueEntry_GetExpireTime_def QueueEntry_make_def Ipv4Header_default_def)

text \<open>
  The length test is an equality, so a queue that already holds more packets than
  a newly set maximum is never trimmed and accepts every further packet without dropping one.
\<close>

theorem rqueue_lowered_limit_ignored:
  assumes "unat len < length (rq_queue q)" and "\<forall>e \<in> set (rq_queue q). now \<le> q_expire e"
    and "(p_uid (q_packet e), ih_dst (q_header e)) \<notin>
      (\<lambda>x. (p_uid (q_packet x), ih_dst (q_header x))) ` set (rq_queue q)"
  shows "RequestQueue_Enqueue now e (RequestQueue_SetMaxQueueLen len q) =
    Some (True, [], q\<lparr>rq_maxLen := len,
      rq_queue := rq_queue q @ [QueueEntry_SetExpireTime now (rq_queueTimeout q) e]\<rparr>)"
proof -
  have live: "filter (RequestQueue_IsExpired now) (rq_queue q) = []"
    "filter (\<lambda>e. \<not> RequestQueue_IsExpired now e) (rq_queue q) = rq_queue q"
    using assms(2) by (auto simp: RequestQueue_IsExpired_def QueueEntry_GetExpireTime_def
        filter_empty_conv filter_id_conv)
  then show ?thesis
    using assms(1,3) by (simp add: RequestQueue_Enqueue_def RequestQueue_SetMaxQueueLen_def
        RequestQueue_Purge_def queued_iff Let_def)
qed

theorem rqueue_lowered_limit_ignored_witness:
  "length (rq_queue (snd (snd (the (RequestQueue_Enqueue 0 sample_queued
     (RequestQueue_SetMaxQueueLen 1 \<lparr>rq_queue =
        [sample_queued\<lparr>q_header := Ipv4Header_default\<lparr>ih_dst := 1\<rparr>\<rparr>,
         sample_queued\<lparr>q_header := Ipv4Header_default\<lparr>ih_dst := 2\<rparr>\<rparr>],
        rq_maxLen = 2, rq_queueTimeout = 5\<rparr>)))))) = 3"
  by (subst rqueue_lowered_limit_ignored)
    (simp_all add: QueueEntry_make_def Ipv4Header_default_def)

text \<open>
  A maximum length of zero makes the first \<open>Enqueue\<close> read the front of an empty
  vector.
\<close>

theorem rqueue_zero_length_undefined:
  "RequestQueue_Enqueue now e (RequestQueue_make 0 t) = None"
  by (simp add: RequestQueue_Enqueue_def RequestQueue_make_def RequestQueue_Purge_def Let_def)

end
