(* ===== verification/Ipv4_Header.thy ===== *)
theory Ipv4_Header
  imports Net_Base
begin

text \<open>
  The IPv4 header of ns-3 (src/internet/model/ipv4-header.cc) with its wire format, and the Internet
  checksum of \<^verbatim>\<open>Buffer::Iterator\<close> (src/network/model/buffer.cc): the round trip through the wire,
  and what the checksum detects.
\<close>

section \<open>Sixteen-bit reads and writes\<close>

definition WriteHtonU16 :: "u16 \<Rightarrow> u8 list" where
  "WriteHtonU16 d = [ucast (drop_bit 8 d AND 0xff), ucast (d AND 0xff)]"

definition WriteU16 :: "u16 \<Rightarrow> u8 list" where
  "WriteU16 d = [ucast (d AND 0xff), ucast (drop_bit 8 d AND 0xff)]"

fun ReadNtohU16 :: "u8 list \<Rightarrow> (u16 \<times> u8 list) option" where
  "ReadNtohU16 (a # b # bs) = Some (push_bit 8 (0 OR ucast a) OR ucast b, bs)"
| "ReadNtohU16 _ = None"

fun ReadU16 :: "u8 list \<Rightarrow> (u16 \<times> u8 list) option" where
  "ReadU16 (a # b # bs) = Some (push_bit 8 (ucast b) OR ucast a, bs)"
| "ReadU16 _ = None"

lemma length_Write16 [simp]: "length (WriteHtonU16 d) = 2" "length (WriteU16 d) = 2"
  by (simp_all add: WriteHtonU16_def WriteU16_def)

lemma join_bytes16:
  "push_bit 8 (ucast (ucast (drop_bit 8 d AND 0xff) :: u8)) OR ucast (ucast (d AND 0xff) :: u8) = (d :: u16)"
  (is "?l = d")
proof (rule bit_word_eqI)
  have ff: "(0xff :: u16) = mask 8" by (simp add: mask_eq_exp_minus_1)
  fix n assume "n < LENGTH(16)"
  then consider "n < 8" | "8 \<le> n" "n < 16" by fastforce
  then show "bit ?l n = bit d n" by cases (auto simp: bit_simps ff)
qed

lemma ReadNtohU16_WriteHtonU16 [simp]: "ReadNtohU16 (WriteHtonU16 d @ bs) = Some (d, bs)"
  by (simp add: WriteHtonU16_def join_bytes16)

lemma ReadU16_WriteU16 [simp]: "ReadU16 (WriteU16 d @ bs) = Some (d, bs)"
  by (simp add: WriteU16_def join_bytes16)

interpretation u16_codec: fixed_codec WriteHtonU16 ReadNtohU16 "\<lambda>_. True" 2
  by unfold_locales simp_all

section \<open>The Internet checksum\<close>

text \<open>The 32-bit sum of the 16-bit words of the first \<open>size\<close> bytes, and the loop that folds it.\<close>

fun sum_words :: "nat \<Rightarrow> u8 list \<Rightarrow> u32 \<Rightarrow> (u32 \<times> u8 list) option" where
  "sum_words 0 bs acc = Some (acc, bs)"
| "sum_words (Suc n) bs acc = do { (w, bs) \<leftarrow> ReadU16 bs; sum_words n bs (acc + ucast w) }"

lemma fold_less:
  fixes s :: u32
  assumes "drop_bit 16 s \<noteq> 0"
  shows "unat ((s AND 0xffff) + drop_bit 16 s) = unat s mod 2 ^ 16 + unat s div 2 ^ 16"
    and "unat ((s AND 0xffff) + drop_bit 16 s) < unat s"
proof -
  have m: "unat (s AND 0xffff) = unat s mod 2 ^ 16"
  proof -
    have "s AND 0xffff = take_bit 16 s" by (simp add: take_bit_eq_mask mask_eq_exp_minus_1)
    then show ?thesis by (simp add: take_bit_eq_mod unat_mod)
  qed
  have d: "unat (drop_bit 16 s) = unat s div 2 ^ 16"
    by (simp add: drop_bit_eq_div unat_div)
  have s: "unat s < 2 ^ 32" using unsigned_less [of s] by simp
  then have "unat s div 2 ^ 16 < 2 ^ 16" by simp
  moreover have "unat s mod 2 ^ 16 < 2 ^ 16" by simp
  ultimately have "unat s mod 2 ^ 16 + unat s div 2 ^ 16 < 2 ^ LENGTH(32)" by simp
  then show eq: "unat ((s AND 0xffff) + drop_bit 16 s) = unat s mod 2 ^ 16 + unat s div 2 ^ 16"
    by (simp add: unat_word_ariths m d)
  have "unat s div 2 ^ 16 \<noteq> 0" using assms d by (metis unat_eq_zero)
  moreover have "b + a < a * 2 ^ 16 + b" if "a \<noteq> 0" for a b :: nat
    using that by simp
  ultimately show "unat ((s AND 0xffff) + drop_bit 16 s) < unat s"
    unfolding eq by (metis div_mult_mod_eq)
qed

function fold_sum :: "u32 \<Rightarrow> u32" where
  "fold_sum acc = (if drop_bit 16 acc \<noteq> 0 then fold_sum ((acc AND 0xffff) + drop_bit 16 acc) else acc)"
  by auto
termination by (relation "measure unat") (use fold_less(2) in auto)

declare fold_sum.simps [simp del]

definition CalculateIpChecksum_init :: "u16 \<Rightarrow> u32 \<Rightarrow> u8 list \<Rightarrow> u16 option" where
  "CalculateIpChecksum_init sz initialChecksum bs =
     do {
       (acc, bs) \<leftarrow> sum_words (unat sz div 2) bs initialChecksum;
       acc \<leftarrow> (if odd (unat sz) then do { (b, bs) \<leftarrow> ReadU8 bs; Some (acc + ucast b) } else Some acc);
       Some (ucast (NOT (fold_sum acc)))
     }"

definition CalculateIpChecksum :: "u16 \<Rightarrow> u8 list \<Rightarrow> u16 option" where
  "CalculateIpChecksum sz bs = CalculateIpChecksum_init sz 0 bs"

text \<open>The sum as a number: it is kept modulo 65535 by the folding.\<close>

fun le_sum :: "u8 list \<Rightarrow> nat" where
  "le_sum (a # b # bs) = unat a + 256 * unat b + le_sum bs"
| "le_sum [a] = unat a"
| "le_sum [] = 0"

lemma unat_byte: "unat (b :: u8) \<le> 255"
  using unsigned_less [of b, where ?'a = nat] by simp

lemma unat_ReadU16: "unat (push_bit 8 (ucast b) OR ucast a :: u16) = unat (a :: u8) + 256 * unat (b :: u8)"
proof -
  have "push_bit 8 (ucast b) OR ucast a = (push_bit 8 (ucast b) + ucast a :: u16)"
    by (rule disjunctive_add [symmetric]) (auto simp: bit_simps dest: bit_imp_le_length)
  moreover have "unat (push_bit 8 (ucast b) :: u16) = 256 * unat b"
  proof -
    have "unat b * 256 < 2 ^ 16" using unat_byte [of b] by simp
    then have b: "unat (ucast b :: u16) * 256 < 2 ^ LENGTH(16)"
      by (simp add: unsigned_ucast_eq take_bit_nat_eq_self)
    then have "unat (push_bit 8 (ucast b) :: u16) = unat (ucast b :: u16) * 256"
      by (simp only: push_bit_eq_mult unat_word_ariths) simp
    then show ?thesis using unat_byte [of b] by (simp add: unsigned_ucast_eq take_bit_nat_eq_self)
  qed
  moreover have "unat (ucast a :: u16) = unat a"
    using unat_byte [of a] by (simp add: unsigned_ucast_eq take_bit_nat_eq_self)
  moreover have "256 * unat b + unat a < 2 ^ 16" using unat_byte [of a] unat_byte [of b] by simp
  ultimately show ?thesis by (simp add: unat_word_ariths)
qed

lemma le_sum_bound: "le_sum bs \<le> 65535 * ((length bs + 1) div 2)"
proof (induction bs rule: le_sum.induct)
  case (1 a b bs)
  have "unat a + 256 * unat b \<le> 65535" using unat_byte [of a] unat_byte [of b] by linarith
  with 1 show ?case by simp
next
  case (2 a)
  show ?case using unat_byte [of a] by simp
qed simp

lemma sum_words_le_sum:
  "2 * n \<le> length bs \<Longrightarrow> unat acc + le_sum (take (2 * n) bs) < 2 ^ 32 \<Longrightarrow>
    \<exists>s. sum_words n bs acc = Some (s, drop (2 * n) bs) \<and> unat s = unat acc + le_sum (take (2 * n) bs)"
proof (induction n arbitrary: bs acc)
  case (Suc n)
  from Suc.prems(1) obtain a b cs where bs: "bs = a # b # cs"
    by (cases bs; cases "tl bs") auto
  let ?w = "push_bit 8 (ucast b) OR ucast a :: u16"
  have w: "unat (ucast ?w :: u32) = unat a + 256 * unat b"
  proof -
    have "unat ?w < 2 ^ 32" unfolding unat_ReadU16 using unat_byte [of a] unat_byte [of b] by simp
    then have "unat (ucast ?w :: u32) = unat ?w"
      by (simp only: unsigned_ucast_eq) (rule take_bit_nat_eq_self, simp)
    then show ?thesis by (simp only: unat_ReadU16)
  qed
  have acc: "unat (acc + ucast ?w) = unat acc + (unat a + 256 * unat b)"
    using Suc.prems(2) bs w by (simp add: unat_word_ariths)
  have "2 * n \<le> length cs" "unat (acc + ucast ?w) + le_sum (take (2 * n) cs) < 2 ^ 32"
    using Suc.prems acc bs by simp_all
  from Suc.IH [OF this] obtain s where
    "sum_words n cs (acc + ucast ?w) = Some (s, drop (2 * n) cs)"
    "unat s = unat (acc + ucast ?w) + le_sum (take (2 * n) cs)" by blast
  with bs acc show ?case by simp
qed simp

lemma fold_sum_mod:
  "unat (fold_sum s) \<le> 65535 \<and> unat (fold_sum s) mod 65535 = unat s mod 65535 \<and> (fold_sum s = 0 \<longleftrightarrow> s = 0)"
proof (induction s rule: fold_sum.induct)
  case (1 s)
  show ?case
  proof (cases "drop_bit 16 s \<noteq> 0")
    case True
    let ?t = "(s AND 0xffff) + drop_bit 16 s"
    have t: "unat ?t = unat s mod 2 ^ 16 + unat s div 2 ^ 16" by (rule fold_less(1) [OF True])
    have "unat s = unat s div 2 ^ 16 * 65535 + (unat s mod 2 ^ 16 + unat s div 2 ^ 16)"
      using div_mult_mod_eq [of "unat s" "2 ^ 16"] by simp
    then have "unat s mod 65535 = unat ?t mod 65535" unfolding t by (metis mod_mult_self3)
    moreover have "?t \<noteq> 0"
    proof
      assume "?t = 0"
      then have "unat ?t = 0" by simp
      then have "unat s div 2 ^ 16 = 0" using t by simp
      then have "unat (drop_bit 16 s) = 0" by (simp add: drop_bit_eq_div unat_div)
      with True show False by (simp only: unat_eq_zero)
    qed
    moreover have "s \<noteq> 0" using True by auto
    ultimately show ?thesis using 1 [OF True] True by (simp add: fold_sum.simps [of s])
  next
    case False
    then have "unat (drop_bit 16 s) = 0" by simp
    then have "unat s div 2 ^ 16 = 0" by (simp add: drop_bit_eq_div unat_div)
    then have "unat s \<le> 65535" by (simp add: div_eq_0_iff)
    with False show ?thesis by (simp add: fold_sum.simps [of s])
  qed
qed

text \<open>The checksum of a block of bytes is zero exactly when its sum is a positive multiple of 65535.\<close>

lemma checksum_defined:
  assumes "even (unat sz)" and "unat sz \<le> length bs"
  shows "\<exists>s. CalculateIpChecksum sz bs = Some (ucast (NOT (fold_sum s))) \<and> unat s = le_sum (take (unat sz) bs)"
proof -
  let ?n = "unat sz div 2"
  have sz: "2 * ?n = unat sz" using assms(1) by simp
  have "unat sz < 2 ^ 16" using unsigned_less [of sz, where ?'a = nat] by simp
  then have "(length (take (unat sz) bs) + 1) div 2 \<le> 2 ^ 15" using assms(2) by simp
  then have "65535 * ((length (take (unat sz) bs) + 1) div 2) < 2 ^ 32" by simp
  then have "le_sum (take (unat sz) bs) < 2 ^ 32" by (rule le_less_trans [OF le_sum_bound])
  then have "\<exists>s. sum_words ?n bs 0 = Some (s, drop (2 * ?n) bs) \<and> unat s = unat (0 :: u32) + le_sum (take (2 * ?n) bs)"
    using assms(2) sz by (intro sum_words_le_sum) simp_all
  then show ?thesis
    using assms(1) unfolding sz by (auto simp: CalculateIpChecksum_def CalculateIpChecksum_init_def)
qed

lemma unat_ones16: "unat (- 1 :: u16) = 65535"
  by (simp add: unsigned_minus_1_eq_mask mask_eq_exp_minus_1)

lemma unat_NOT16: "unat (NOT w) = 65535 - unat w" for w :: u16
proof -
  have "NOT w = - 1 - w" by (simp add: not_eq_complement)
  moreover have "unat (- 1 - w) = unat (- 1 :: u16) - unat w" by (rule unat_sub) (rule word_n1_ge)
  ultimately show ?thesis by (simp only: unat_ones16)
qed

lemma low_word_zero: "(ucast (NOT w) :: u16) = 0 \<longleftrightarrow> unat w = 65535" if "unat w \<le> 65535" for w :: u32
proof -
  have w: "unat (ucast w :: u16) = unat w"
    using that by (simp add: unsigned_ucast_eq take_bit_nat_eq_self)
  have "(ucast (NOT w) :: u16) = NOT (ucast w)"
    by (rule bit_word_eqI) (auto simp: bit_simps)
  then have "(ucast (NOT w) :: u16) = 0 \<longleftrightarrow> (ucast w :: u16) = NOT 0" by (metis bit.double_compl)
  also have "\<dots> \<longleftrightarrow> unat (ucast w :: u16) = unat (NOT 0 :: u16)" by (simp only: word_unat_eq_iff)
  finally show ?thesis using w by (simp add: unat_ones16)
qed

section \<open>The header\<close>

text \<open>The fields beside those of \<open>Ipv4Header\<close>; \<^verbatim>\<open>m_flags\<close> is a bit field of three bits.\<close>

record ipv4_header = Ipv4Header +
  ih_calcChecksum :: bool
  ih_payloadSize :: u16
  ih_identification :: u16
  ih_tos :: u8
  ih_flags :: "3 word"
  ih_fragmentOffset :: u16
  ih_checksum :: u16
  ih_goodChecksum :: bool
  ih_headerSize :: u16

definition DONT_FRAGMENT :: "3 word" where
  "DONT_FRAGMENT = 1"

definition MORE_FRAGMENTS :: "3 word" where
  "MORE_FRAGMENTS = 2"

definition Ih_make :: ipv4_header where
  "Ih_make = \<lparr>ih_src = Ipv4Address_default, ih_dst = Ipv4Address_default, ih_ttl = 0, ih_protocol = 0,
     ih_calcChecksum = False, ih_payloadSize = 0, ih_identification = 0, ih_tos = 0, ih_flags = 0,
     ih_fragmentOffset = 0, ih_checksum = 0, ih_goodChecksum = True, ih_headerSize = 20\<rparr>"

definition Ih_EnableChecksum :: "ipv4_header \<Rightarrow> ipv4_header" where
  "Ih_EnableChecksum h = h\<lparr>ih_calcChecksum := True\<rparr>"

text \<open>The DSCP is an enumeration of values up to 0x38, the ECN one of two bits.\<close>

definition Ih_SetDscp :: "u8 \<Rightarrow> ipv4_header \<Rightarrow> ipv4_header" where
  "Ih_SetDscp dscp h = h\<lparr>ih_tos := (ih_tos h AND 0x3) OR push_bit 2 dscp\<rparr>"

definition Ih_SetEcn :: "u8 \<Rightarrow> ipv4_header \<Rightarrow> ipv4_header" where
  "Ih_SetEcn ecn h = h\<lparr>ih_tos := (ih_tos h AND 0xFC) OR ecn\<rparr>"

definition Ih_GetDscp :: "ipv4_header \<Rightarrow> u8" where
  "Ih_GetDscp h = drop_bit 2 (ih_tos h AND 0xFC)"

definition Ih_GetEcn :: "ipv4_header \<Rightarrow> u8" where
  "Ih_GetEcn h = ih_tos h AND 0x3"

definition Ih_SetMoreFragments :: "ipv4_header \<Rightarrow> ipv4_header" where
  "Ih_SetMoreFragments h = h\<lparr>ih_flags := ih_flags h OR MORE_FRAGMENTS\<rparr>"

definition Ih_SetLastFragment :: "ipv4_header \<Rightarrow> ipv4_header" where
  "Ih_SetLastFragment h = h\<lparr>ih_flags := ih_flags h AND NOT MORE_FRAGMENTS\<rparr>"

definition Ih_IsLastFragment :: "ipv4_header \<Rightarrow> bool" where
  "Ih_IsLastFragment h \<longleftrightarrow> ih_flags h AND MORE_FRAGMENTS = 0"

definition Ih_SetDontFragment :: "ipv4_header \<Rightarrow> ipv4_header" where
  "Ih_SetDontFragment h = h\<lparr>ih_flags := ih_flags h OR DONT_FRAGMENT\<rparr>"

definition Ih_SetMayFragment :: "ipv4_header \<Rightarrow> ipv4_header" where
  "Ih_SetMayFragment h = h\<lparr>ih_flags := ih_flags h AND NOT DONT_FRAGMENT\<rparr>"

definition Ih_IsDontFragment :: "ipv4_header \<Rightarrow> bool" where
  "Ih_IsDontFragment h \<longleftrightarrow> ih_flags h AND DONT_FRAGMENT \<noteq> 0"

definition Ih_SetFragmentOffset :: "u16 \<Rightarrow> ipv4_header \<Rightarrow> ipv4_header option" where
  "Ih_SetFragmentOffset offsetBytes h =
     do { ensure (offsetBytes AND 0x7 = 0); Some (h\<lparr>ih_fragmentOffset := offsetBytes\<rparr>) }"

definition Ih_flags_byte :: "ipv4_header \<Rightarrow> u8" where
  "Ih_flags_byte h =
     (let fragmentOffset = ucast (ih_fragmentOffset h div 8) :: u32;
          flagsFrag = ucast (drop_bit 8 fragmentOffset AND 0x1f) :: u8;
          flagsFrag = (if ih_flags h AND DONT_FRAGMENT \<noteq> 0 then flagsFrag OR push_bit 6 1 else flagsFrag)
      in if ih_flags h AND MORE_FRAGMENTS \<noteq> 0 then flagsFrag OR push_bit 5 1 else flagsFrag)"

definition Ih_bytes :: "ipv4_header \<Rightarrow> u8 list" where
  "Ih_bytes h =
     [push_bit 4 4 OR 5, ih_tos h] @ WriteHtonU16 (ih_payloadSize h + 20) @
     WriteHtonU16 (ih_identification h) @
     [Ih_flags_byte h, ucast ((ucast (ih_fragmentOffset h div 8) :: u32) AND 0xff), ih_ttl h, ih_protocol h] @
     WriteHtonU16 0 @ WriteHtonU32 (ih_src h) @ WriteHtonU32 (ih_dst h)"

definition Ih_Serialize :: "ipv4_header \<Rightarrow> u8 list option" where
  "Ih_Serialize h =
     (if ih_calcChecksum h then do {
        checksum \<leftarrow> CalculateIpChecksum 20 (Ih_bytes h);
        Some (take 10 (Ih_bytes h) @ WriteU16 checksum @ drop 12 (Ih_bytes h))
      } else Some (Ih_bytes h))"

text \<open>The flags and the offset read from the bytes 6 and 7; the iterator steps back to read byte 6 twice.\<close>

definition Ih_read_flags :: "u8 \<Rightarrow> 3 word" where
  "Ih_read_flags flags =
     (let m_flags = (if flags AND push_bit 6 1 \<noteq> 0 then DONT_FRAGMENT else 0)
      in if flags AND push_bit 5 1 \<noteq> 0 then m_flags OR MORE_FRAGMENTS else m_flags)"

definition Ih_read_offset :: "u8 \<Rightarrow> u8 \<Rightarrow> u16" where
  "Ih_read_offset b1 b2 =
     (let m_fragmentOffset = ucast (b1 AND 0x1f);
          m_fragmentOffset = push_bit 8 m_fragmentOffset;
          m_fragmentOffset = m_fragmentOffset OR ucast b2
      in push_bit 3 m_fragmentOffset)"

text \<open>
  \<open>Deserialize\<close> on the header object \<open>h\<close> (the caller may have enabled the checksum): the number of
  bytes consumed, 0 for another version, and the header.
\<close>

definition Ih_Deserialize :: "ipv4_header \<Rightarrow> u8 list \<Rightarrow> (u32 \<times> ipv4_header) option" where
  "Ih_Deserialize h start =
     do {
       (verIhl, i) \<leftarrow> ReadU8 start;
       let headerSize = ((ucast (verIhl AND 0x0f) :: u16) * 4);
       if drop_bit 4 verIhl \<noteq> 4 then Some (0, h)
       else do {
         (tos, i) \<leftarrow> ReadU8 i;
         (sz, i) \<leftarrow> ReadNtohU16 i;
         (ident, i) \<leftarrow> ReadNtohU16 i;
         (flags, i') \<leftarrow> ReadU8 i;
         (frag, i) \<leftarrow> ReadU8 i';
         (ttl, i) \<leftarrow> ReadU8 i;
         (protocol, i) \<leftarrow> ReadU8 i;
         (cs, i) \<leftarrow> ReadU16 i;
         (src, i) \<leftarrow> ReadNtohU32 i;
         (dst, i) \<leftarrow> ReadNtohU32 i;
         let h = h\<lparr>ih_tos := tos, ih_payloadSize := sz - headerSize, ih_identification := ident,
                   ih_flags := Ih_read_flags flags, ih_fragmentOffset := Ih_read_offset flags frag, ih_ttl := ttl, ih_protocol := protocol,
                   ih_checksum := cs, ih_src := src, ih_dst := dst, ih_headerSize := headerSize\<rparr>;
         if ih_calcChecksum h then do {
           checksum \<leftarrow> CalculateIpChecksum headerSize start;
           Some (ucast headerSize, h\<lparr>ih_goodChecksum := (checksum = 0)\<rparr>)
         } else Some (ucast headerSize, h)
       }
     }"

section \<open>The checksum of a header\<close>

lemma checksum_zero_iff:
  assumes "even (unat sz)" and "unat sz \<le> length bs" and "le_sum (take (unat sz) bs) > 0"
  shows "\<exists>c. CalculateIpChecksum sz bs = Some c \<and> (c = 0 \<longleftrightarrow> le_sum (take (unat sz) bs) mod 65535 = 0)"
proof -
  from checksum_defined [OF assms(1,2)] obtain s where
    s: "CalculateIpChecksum sz bs = Some (ucast (NOT (fold_sum s)))" "unat s = le_sum (take (unat sz) bs)" by blast
  then have "s \<noteq> 0" using assms(3) by auto
  let ?f = "unat (fold_sum s)"
  have f: "?f \<le> 65535" "?f mod 65535 = le_sum (take (unat sz) bs) mod 65535" "?f \<noteq> 0"
    using fold_sum_mod [of s] s(2) \<open>s \<noteq> 0\<close> by (auto simp: unat_eq_zero)
  have "?f = 65535 \<longleftrightarrow> ?f mod 65535 = 0"
    using f(1,3) by (metis le_neq_implies_less mod_less mod_self)
  with s(1) f(2) low_word_zero [OF f(1)] show ?thesis by simp
qed

text \<open>Writing the checksum over two zero bytes makes the sum a multiple of 65535.\<close>

lemma le_sum_append: "even (length as) \<Longrightarrow> le_sum (as @ bs) = le_sum as + le_sum bs"
  by (induction as rule: le_sum.induct) simp_all

lemma le_sum_WriteU16: "le_sum (WriteU16 c) = unat c"
proof -
  have "unat (push_bit 8 (ucast (ucast (drop_bit 8 c AND 0xff) :: u8)) OR ucast (ucast (c AND 0xff) :: u8) :: u16) =
    unat (ucast (c AND 0xff) :: u8) + 256 * unat (ucast (drop_bit 8 c AND 0xff) :: u8)" by (rule unat_ReadU16)
  then show ?thesis unfolding join_bytes16 by (simp add: WriteU16_def)
qed

lemma checksum_written:
  assumes "length bs = 20" and "bs ! 10 = 0" and "bs ! 11 = 0" and "le_sum bs > 0"
  shows "\<exists>c. CalculateIpChecksum 20 bs = Some c \<and> le_sum (take 10 bs @ WriteU16 c @ drop 12 bs) mod 65535 = 0"
proof -
  have z: "take 10 bs @ [0, 0] @ drop 12 bs = bs"
  proof (rule nth_equalityI)
    fix i assume "i < length (take 10 bs @ [0, 0] @ drop 12 bs)"
    then have "i < 20" using assms(1) by simp
    then show "(take 10 bs @ [0, 0] @ drop 12 bs) ! i = bs ! i"
      using assms by (cases "i = 10"; cases "i = 11") (auto simp: nth_append)
  qed (simp add: assms(1))
  have split: "le_sum (take 10 bs @ w @ drop 12 bs) = le_sum (take 10 bs) + le_sum w + le_sum (drop 12 bs)"
    if "length w = 2" for w
    using that assms(1) by (simp add: le_sum_append)
  have bs: "le_sum bs = le_sum (take 10 bs) + le_sum (drop 12 bs)"
    using split [of "[0, 0]"] unfolding z by simp
  have sz: "unat (20 :: u16) = 20" by simp
  obtain s where s: "CalculateIpChecksum 20 bs = Some (ucast (NOT (fold_sum s)))" "unat s = le_sum bs"
    using checksum_defined [of 20 bs] assms(1) by auto
  let ?f = "unat (fold_sum s)" and ?c = "ucast (NOT (fold_sum s)) :: u16"
  have f: "?f \<le> 65535" "?f mod 65535 = le_sum bs mod 65535"
    using fold_sum_mod [of s] s(2) by auto
  have "unat ?c = 65535 - ?f"
  proof -
    have "(ucast (NOT (fold_sum s)) :: u16) = NOT (ucast (fold_sum s))"
      by (rule bit_word_eqI) (auto simp: bit_simps)
    moreover have "unat (ucast (fold_sum s) :: u16) = ?f"
      using f(1) by (simp add: unsigned_ucast_eq take_bit_nat_eq_self)
    ultimately show ?thesis by (simp only: unat_NOT16)
  qed
  then have "le_sum (take 10 bs @ WriteU16 ?c @ drop 12 bs) = le_sum bs + (65535 - ?f)"
    using split [of "WriteU16 ?c"] bs by (simp add: le_sum_WriteU16)
  moreover have "(le_sum bs + (65535 - ?f)) mod 65535 = 0"
  proof -
    have "(le_sum bs + (65535 - ?f)) mod 65535 = (?f + (65535 - ?f)) mod 65535"
      using f(2) by (metis mod_add_left_eq)
    then show ?thesis using f(1) by simp
  qed
  ultimately show ?thesis using s(1) by auto
qed

text \<open>Changing one byte changes the sum by less than 65535.\<close>

lemma le_sum_update:
  "i < length bs \<Longrightarrow>
    le_sum (bs[i := b]) + (if even i then 1 else 256) * unat (bs ! i) =
    le_sum bs + (if even i then 1 else 256) * unat b"
proof (induction bs arbitrary: i rule: le_sum.induct)
  case (1 x y bs)
  show ?case
  proof (cases "i < 2")
    case True
    then consider "i = 0" | "i = 1" by linarith
    then show ?thesis by cases simp_all
  next
    case False
    then obtain j where j: "i = Suc (Suc j)" by (metis One_nat_def Suc_1 not_less_eq not0_implies_Suc less_Suc_eq_0_disj)
    with 1 show ?thesis by simp
  qed
qed simp_all

lemma byte_change_detected:
  assumes "i < length bs" and "b \<noteq> bs ! i" and "le_sum bs mod 65535 = 0"
  shows "le_sum (bs[i := b]) mod 65535 \<noteq> 0"
proof
  assume "le_sum (bs[i := b]) mod 65535 = 0"
  then have d: "int 65535 dvd int (le_sum (bs[i := b])) - int (le_sum bs)"
    using assms(3) by (intro dvd_diff) (auto simp flip: int_dvd_int_iff)
  let ?k = "if even i then 1 else 256 :: int"
  have "int (le_sum (bs[i := b])) - int (le_sum bs) = ?k * (int (unat b) - int (unat (bs ! i)))"
    using le_sum_update [OF assms(1), of b, THEN arg_cong [of _ _ int]]
    by (cases "even i") (simp_all add: algebra_simps)
  with d have d: "65535 dvd ?k * (int (unat b) - int (unat (bs ! i)))" by simp
  have "int (unat b) \<noteq> int (unat (bs ! i))" using assms(2) by (simp only: of_nat_eq_iff word_unat_eq_iff not_False_eq_True)
  then have "?k * (int (unat b) - int (unat (bs ! i))) \<noteq> 0" by simp
  moreover have "\<bar>?k * (int (unat b) - int (unat (bs ! i)))\<bar> < 65535"
  proof -
    have "\<bar>int (unat b) - int (unat (bs ! i))\<bar> \<le> 255"
      using unat_byte [of b] unat_byte [of "bs ! i"] by linarith
    then show ?thesis by (simp add: abs_mult)
  qed
  ultimately show False using d by (metis abs_ge_zero dvd_imp_le_int not_less abs_numeral)
qed

section \<open>The wire format\<close>

definition header_ok :: "ipv4_header \<Rightarrow> bool" where
  "header_ok h \<longleftrightarrow> ih_fragmentOffset h AND 7 = 0 \<and> ih_flags h AND 4 = 0 \<and> ih_headerSize h = 20"

text \<open>The bytes of a header with the given checksum field.\<close>

definition wire_bytes :: "ipv4_header \<Rightarrow> u16 \<Rightarrow> u8 list" where
  "wire_bytes h c = take 10 (Ih_bytes h) @ WriteU16 c @ drop 12 (Ih_bytes h)"

lemma length_Ih_bytes [simp]: "length (Ih_bytes h) = 20"
  by (simp add: Ih_bytes_def)

lemma wire_bytes_unfold:
  "wire_bytes h c = 69 # ih_tos h # WriteHtonU16 (ih_payloadSize h + 20) @
     WriteHtonU16 (ih_identification h) @
     [Ih_flags_byte h, ucast ((ucast (ih_fragmentOffset h div 8) :: u32) AND 0xff), ih_ttl h, ih_protocol h] @
     WriteU16 c @ WriteHtonU32 (ih_src h) @ WriteHtonU32 (ih_dst h)"
  by (simp add: wire_bytes_def Ih_bytes_def WriteHtonU16_def)

lemma Serialize_wire:
  "\<exists>c. Ih_Serialize h = Some (wire_bytes h c) \<and> (ih_calcChecksum h \<longrightarrow> le_sum (wire_bytes h c) mod 65535 = 0)"
proof (cases "ih_calcChecksum h")
  case True
  have "Ih_bytes h ! 10 = 0" "Ih_bytes h ! 11 = 0" "le_sum (Ih_bytes h) > 0"
    by (simp_all add: Ih_bytes_def WriteHtonU16_def)
  from checksum_written [OF length_Ih_bytes this] True show ?thesis
    by (auto simp: Ih_Serialize_def wire_bytes_def)
next
  case False
  have "wire_bytes h 0 = Ih_bytes h" by (simp add: wire_bytes_def Ih_bytes_def WriteHtonU16_def WriteU16_def)
  with False show ?thesis by (intro exI [of _ 0]) (simp add: Ih_Serialize_def)
qed

lemma and_push_bit_1: "w AND push_bit n 1 \<noteq> 0 \<longleftrightarrow> bit w n" for w :: "'a::len word"
  by (simp only: bit_iff_and_push_bit_not_eq_0)

lemma Ih_flags_byte_bit:
  assumes "n < 8"
  shows "bit (Ih_flags_byte h) n \<longleftrightarrow>
    (if n = 5 then bit (ih_flags h) 1 else if n = 6 then bit (ih_flags h) 0
     else n < 5 \<and> bit (ih_fragmentOffset h) (n + 11))"
proof -
  have f: "ih_flags h AND DONT_FRAGMENT \<noteq> 0 \<longleftrightarrow> bit (ih_flags h) 0" "ih_flags h AND MORE_FRAGMENTS \<noteq> 0 \<longleftrightarrow> bit (ih_flags h) 1"
    using and_push_bit_1 [of "ih_flags h" 0] and_push_bit_1 [of "ih_flags h" 1]
    by (simp_all add: DONT_FRAGMENT_def MORE_FRAGMENTS_def)
  have d: "ih_fragmentOffset h div 8 = drop_bit 3 (ih_fragmentOffset h)" by (simp add: drop_bit_eq_div)
  have m: "(0x1f :: u32) = mask 5" by (simp add: mask_eq_exp_minus_1)
  from assms consider "n = 0" | "n = 1" | "n = 2" | "n = 3" | "n = 4" | "n = 5" | "n = 6" | "n = 7"
    by fastforce
  then show ?thesis
    unfolding Ih_flags_byte_def f d m Let_def by cases (auto simp: bit_simps add.commute)
qed

lemma flags_byte_bits:
  assumes "ih_flags h AND 4 = 0"
  shows "Ih_read_flags (Ih_flags_byte h) = ih_flags h"
  (is "?l = _")
proof (rule bit_word_eqI)
  have b2: "\<not> bit (ih_flags h) 2" using assms and_push_bit_1 [of "ih_flags h" 2] by simp
  have c: "DONT_FRAGMENT = mask 1" "MORE_FRAGMENTS = push_bit 1 1"
    by (simp_all add: DONT_FRAGMENT_def MORE_FRAGMENTS_def mask_eq_exp_minus_1)
  fix n assume "n < LENGTH(3)"
  then consider "n = 0" | "n = 1" | "n = 2" by fastforce
  then show "bit ?l n = bit (ih_flags h) n"
    using b2 unfolding Ih_read_flags_def and_push_bit_1 c Let_def by cases (auto simp: bit_simps Ih_flags_byte_bit)
qed

lemma offset_bytes:
  assumes "ih_fragmentOffset h AND 7 = 0"
  shows "Ih_read_offset (Ih_flags_byte h) (ucast ((ucast (ih_fragmentOffset h div 8) :: u32) AND 0xff)) = ih_fragmentOffset h"
  (is "?l = _")
proof (rule bit_word_eqI)
  have d: "ih_fragmentOffset h div 8 = drop_bit 3 (ih_fragmentOffset h)" by (simp add: drop_bit_eq_div)
  have m: "(0x1f :: u8) = mask 5" "(0xff :: u32) = mask 8" by (simp_all add: mask_eq_exp_minus_1)
  have low: "\<not> bit (ih_fragmentOffset h) n" if "n < 3" for n
  proof -
    have "(7 :: u16) = mask 3" by (simp add: mask_eq_exp_minus_1)
    then have "\<not> bit (ih_fragmentOffset h AND mask 3) n" using assms by simp
    with that show ?thesis by (simp add: bit_simps)
  qed
  fix n assume n: "n < LENGTH(16)"
  then consider "n < 3" | "3 \<le> n" "n < 11" | "11 \<le> n" "n < 16" by fastforce
  then show "bit ?l n = bit (ih_fragmentOffset h) n"
    unfolding d m Ih_read_offset_def Let_def by cases (auto simp: bit_simps low Ih_flags_byte_bit)
qed

text \<open>Reading a header back, whatever follows it.\<close>

lemma Deserialize_wire:
  assumes "header_ok h"
  shows "\<not> ih_calcChecksum h0 \<Longrightarrow> Ih_Deserialize h0 (wire_bytes h c @ rest) =
    Some (20, h\<lparr>ih_calcChecksum := False, ih_checksum := c, ih_goodChecksum := ih_goodChecksum h0\<rparr>)"
  using assms flags_byte_bits [of h] offset_bytes [of h]
  by (cases h; cases h0) (simp add: header_ok_def wire_bytes_unfold Ih_Deserialize_def)

lemma Deserialize_checksum:
  assumes "ih_calcChecksum h0" and "length bs \<ge> 20" and "hd bs = 69"
  shows "\<exists>h'. Ih_Deserialize (h0\<lparr>ih_calcChecksum := False\<rparr>) bs = Some (20, h') \<and>
    Ih_Deserialize h0 bs = Some (20, h'\<lparr>ih_calcChecksum := True, ih_goodChecksum := (le_sum (take 20 bs) mod 65535 = 0)\<rparr>)"
proof -
  obtain b0 b1 b2 b3 b4 b5 b6 b7 b8 b9 b10 b11 b12 b13 b14 b15 b16 b17 b18 b19 rest where
    bs: "bs = [b0, b1, b2, b3, b4, b5, b6, b7, b8, b9, b10, b11, b12, b13, b14, b15, b16, b17, b18, b19] @ rest"
    using assms(2) by (auto simp: Suc_le_length_iff numeral_eq_Suc)
  have b0: "b0 = 69" using assms(3) bs by simp
  have "le_sum (take (unat (20 :: u16)) bs) > 0" using bs b0 by simp
  from checksum_zero_iff [OF _ _ this] assms(2) obtain c where
    c: "CalculateIpChecksum 20 bs = Some c" "c = 0 \<longleftrightarrow> le_sum (take 20 bs) mod 65535 = 0" by auto
  from c(1) show ?thesis
    using assms(1) c(2) unfolding bs b0 by (cases h0) (simp add: Ih_Deserialize_def)
qed

section \<open>Properties\<close>

lemma header_read_back:
  assumes "header_ok h" and "ih_calcChecksum h0 \<longrightarrow> ih_calcChecksum h"
  shows "\<exists>bs c. Ih_Serialize h = Some bs \<and> length bs = 20 \<and>
    (\<forall>rest. Ih_Deserialize h0 (bs @ rest) =
       Some (20, h\<lparr>ih_calcChecksum := ih_calcChecksum h0, ih_checksum := c,
         ih_goodChecksum := ih_calcChecksum h0 \<or> ih_goodChecksum h0\<rparr>))"
proof -
  obtain c where "Ih_Serialize h = Some (wire_bytes h c) \<and>
      (ih_calcChecksum h \<longrightarrow> le_sum (wire_bytes h c) mod 65535 = 0)"
    using Serialize_wire [of h] by (rule exE)
  then have c: "Ih_Serialize h = Some (wire_bytes h c)" "ih_calcChecksum h \<longrightarrow> le_sum (wire_bytes h c) mod 65535 = 0"
    by simp_all
  have len: "length (wire_bytes h c) = 20" by (simp add: wire_bytes_def)
  have read: "Ih_Deserialize h0 (wire_bytes h c @ rest) =
       Some (20, h\<lparr>ih_calcChecksum := ih_calcChecksum h0, ih_checksum := c,
         ih_goodChecksum := ih_calcChecksum h0 \<or> ih_goodChecksum h0\<rparr>)" for rest
  proof (cases "ih_calcChecksum h0")
    case True
    have "hd (wire_bytes h c @ rest) = 69" by (simp add: wire_bytes_unfold)
    from Deserialize_checksum [OF True _ this] obtain h' where
      h': "Ih_Deserialize (h0\<lparr>ih_calcChecksum := False\<rparr>) (wire_bytes h c @ rest) = Some (20, h')"
        "Ih_Deserialize h0 (wire_bytes h c @ rest) =
          Some (20, h'\<lparr>ih_calcChecksum := True, ih_goodChecksum := (le_sum (wire_bytes h c) mod 65535 = 0)\<rparr>)"
      unfolding len take_append by (auto simp: len)
    from h'(1) Deserialize_wire [OF assms(1), of "h0\<lparr>ih_calcChecksum := False\<rparr>" c rest]
    have "h' = h\<lparr>ih_calcChecksum := False, ih_checksum := c, ih_goodChecksum := ih_goodChecksum h0\<rparr>" by simp
    with h'(2) c(2) assms(2) True show ?thesis by simp
  next
    case False
    with Deserialize_wire [OF assms(1)] show ?thesis by simp
  qed
  with c(1) len show ?thesis by blast
qed

text \<open>Property C18: a header whose offset was set by \<open>SetFragmentOffset\<close> is written as 20 bytes, and
  read back, whatever follows, as itself, with the checksum found good; the payload size comes back
  also when adding the header length wrapped around.\<close>

theorem ipv4_header_roundtrip:
  assumes "header_ok h" and "ih_calcChecksum h0 \<longrightarrow> ih_calcChecksum h"
  shows "\<exists>bs c. Ih_Serialize h = Some bs \<and> length bs = 20 \<and>
    (\<forall>rest. Ih_Deserialize h0 (bs @ rest) =
       Some (20, h\<lparr>ih_calcChecksum := ih_calcChecksum h0, ih_checksum := c,
         ih_goodChecksum := ih_calcChecksum h0 \<or> ih_goodChecksum h0\<rparr>))"
  by (rule header_read_back [OF assms])

text \<open>Property C19: when both ends compute the checksum, a header with one byte changed on the way, at
  any place but the first, is read with a bad checksum.\<close>

theorem header_corruption_detected:
  assumes "ih_calcChecksum h" and "ih_calcChecksum h0" and "Ih_Serialize h = Some bs"
    and "0 < i" and "i < 20" and "b \<noteq> bs ! i"
  shows "\<exists>h'. Ih_Deserialize h0 (bs[i := b] @ rest) = Some (20, h') \<and> \<not> ih_goodChecksum h'"
proof -
  from Serialize_wire [of h] assms(1,3) obtain c where
    bs: "bs = wire_bytes h c" and sum0: "le_sum bs mod 65535 = 0" by auto
  have len: "length bs = 20" by (simp add: bs wire_bytes_def)
  have "hd bs = 69" by (simp add: bs wire_bytes_unfold)
  then have "bs[i := b] \<noteq> []" "hd (bs[i := b]) = 69"
    using assms(4) len by (cases bs; cases i; simp)+
  then have "hd (bs[i := b] @ rest) = 69" by simp
  from Deserialize_checksum [OF assms(2) _ this] len byte_change_detected [of i bs b] assms(5,6) sum0
  show ?thesis by auto
qed

section \<open>Witnesses\<close>

definition header0 :: ipv4_header where
  "header0 = Ih_make\<lparr>ih_src := 0x0a000001, ih_dst := 0x0a000002, ih_ttl := 64, ih_protocol := 17,
     ih_calcChecksum := True, ih_payloadSize := 100, ih_identification := 7, ih_flags := 2,
     ih_fragmentOffset := 1480\<rparr>"

theorem ipv4_header_roundtrip_witness:
  "\<exists>bs c. Ih_Serialize header0 = Some bs \<and> length bs = 20 \<and>
    (\<forall>rest. Ih_Deserialize (Ih_EnableChecksum Ih_make) (bs @ rest) =
       Some (20, header0\<lparr>ih_calcChecksum := True, ih_checksum := c, ih_goodChecksum := True\<rparr>))"
  using ipv4_header_roundtrip [of header0 "Ih_EnableChecksum Ih_make"]
  by (simp add: header0_def header_ok_def Ih_make_def Ih_EnableChecksum_def)

theorem header_corruption_detected_witness:
  "\<exists>bs h'. Ih_Serialize header0 = Some bs \<and>
     Ih_Deserialize (Ih_EnableChecksum Ih_make) (bs[8 := 63] @ []) = Some (20, h') \<and> \<not> ih_goodChecksum h'"
proof -
  from Serialize_wire [of header0] obtain c where ser: "Ih_Serialize header0 = Some (wire_bytes header0 c)" by blast
  have "wire_bytes header0 c ! 8 = 64" by (simp add: wire_bytes_unfold WriteHtonU16_def header0_def Ih_make_def)
  then have "63 \<noteq> wire_bytes header0 c ! 8" by simp
  from header_corruption_detected [OF _ _ ser _ _ this, of "Ih_EnableChecksum Ih_make" "[]"] ser
  show ?thesis by (auto simp: header0_def Ih_make_def Ih_EnableChecksum_def)
qed

end
