(* ===== verification/Arp_Cache.thy ===== *)
theory Arp_Cache
  imports Ipv4_Header
begin

text \<open>
  The ARP cache (src/internet/model/arp-cache.cc), which the neighbour table asks for the
  hardware address of a neighbour: the state machine of an entry, the cache, and the timer
  that retries or gives up the entries that wait for a reply. Device and interface pointers,
  printing and disposal are left out; the ARP requests sent and the packets traced as dropped
  are returned.
\<close>

type_synonym mac = "48 word"

section \<open>Entries\<close>

datatype ArpState = ALIVE | WAIT_REPLY | DEAD | PERMANENT | STATIC_AUTOGENERATED

text \<open>The hardware address of a fresh entry is the invalid \<open>Address()\<close>: \<open>None\<close>.\<close>

record ArpEntry =
  ae_state :: ArpState
  ae_retries :: u32
  ae_mac :: "mac option"
  ae_ip :: ip
  ae_lastSeen :: time
  ae_pending :: "(packet \<times> ipv4_header) list"

record ArpCache =
  ac_id :: nat
  ac_entries :: "(ip \<times> ArpEntry) list"
  ac_aliveTimeout :: time
  ac_deadTimeout :: time
  ac_waitReplyTimeout :: time
  ac_maxRetries :: u32
  ac_pendingQueueSize :: u32
  ac_waitReplyTimer :: timer

definition ArpCache_default :: "nat \<Rightarrow> ArpCache" where
  "ArpCache_default i =
     \<lparr>ac_id = i, ac_entries = [], ac_aliveTimeout = Seconds_int 120,
      ac_deadTimeout = Seconds_int 100, ac_waitReplyTimeout = Seconds_int 1,
      ac_maxRetries = 3, ac_pendingQueueSize = 3, ac_waitReplyTimer = None\<rparr>"

definition ArpEntry_make :: ArpEntry where
  "ArpEntry_make =
     \<lparr>ae_state = ALIVE, ae_retries = 0, ae_mac = None, ae_ip = Ipv4Address_default,
      ae_lastSeen = 0, ae_pending = []\<rparr>"

definition Arp_UpdateSeen :: "time \<Rightarrow> ArpEntry \<Rightarrow> ArpEntry" where
  "Arp_UpdateSeen now e = e\<lparr>ae_lastSeen := now\<rparr>"

definition Arp_ClearRetries :: "ArpEntry \<Rightarrow> ArpEntry" where
  "Arp_ClearRetries e = e\<lparr>ae_retries := 0\<rparr>"

definition Arp_IncrementRetries :: "time \<Rightarrow> ArpEntry \<Rightarrow> ArpEntry" where
  "Arp_IncrementRetries now e = Arp_UpdateSeen now (e\<lparr>ae_retries := ae_retries e + 1\<rparr>)"

definition Arp_MarkDead :: "time \<Rightarrow> ArpEntry \<Rightarrow> ArpEntry option" where
  "Arp_MarkDead now e =
     do {
       ensure (ae_state e = ALIVE \<or> ae_state e = WAIT_REPLY \<or> ae_state e = DEAD);
       Some (Arp_UpdateSeen now (Arp_ClearRetries (e\<lparr>ae_state := DEAD\<rparr>)))
     }"

definition Arp_MarkAlive :: "time \<Rightarrow> mac \<Rightarrow> ArpEntry \<Rightarrow> ArpEntry option" where
  "Arp_MarkAlive now m e =
     do {
       ensure (ae_state e = WAIT_REPLY);
       Some (Arp_UpdateSeen now (Arp_ClearRetries (e\<lparr>ae_mac := Some m, ae_state := ALIVE\<rparr>)))
     }"

definition Arp_MarkPermanent :: "time \<Rightarrow> ArpEntry \<Rightarrow> ArpEntry option" where
  "Arp_MarkPermanent now e =
     do {
       ensure (ae_mac e \<noteq> None);
       Some (Arp_UpdateSeen now (Arp_ClearRetries (e\<lparr>ae_state := PERMANENT\<rparr>)))
     }"

definition Arp_MarkAutoGenerated :: "time \<Rightarrow> ArpEntry \<Rightarrow> ArpEntry option" where
  "Arp_MarkAutoGenerated now e =
     do {
       ensure (ae_mac e \<noteq> None);
       Some (Arp_UpdateSeen now (Arp_ClearRetries (e\<lparr>ae_state := STATIC_AUTOGENERATED\<rparr>)))
     }"

definition Arp_UpdateWaitReply ::
    "ArpCache \<Rightarrow> packet \<times> ipv4_header \<Rightarrow> ArpEntry \<Rightarrow> (bool \<times> ArpEntry) option" where
  "Arp_UpdateWaitReply c waiting e =
     do {
       ensure (ae_state e = WAIT_REPLY);
       Some (if unat (ac_pendingQueueSize c) \<le> length (ae_pending e) then (False, e)
             else (True, e\<lparr>ae_pending := ae_pending e @ [waiting]\<rparr>))
     }"

definition Arp_DequeuePending :: "ArpEntry \<Rightarrow> (packet \<times> ipv4_header) option \<times> ArpEntry" where
  "Arp_DequeuePending e =
     (case ae_pending e of [] \<Rightarrow> (None, e) | p # ps \<Rightarrow> (Some p, e\<lparr>ae_pending := ps\<rparr>))"

definition Arp_ClearPendingPacket :: "ArpEntry \<Rightarrow> ArpEntry" where
  "Arp_ClearPendingPacket e = e\<lparr>ae_pending := []\<rparr>"

definition Arp_GetTimeout :: "ArpCache \<Rightarrow> ArpEntry \<Rightarrow> time" where
  "Arp_GetTimeout c e =
     (case ae_state e of
        WAIT_REPLY \<Rightarrow> ac_waitReplyTimeout c
      | DEAD \<Rightarrow> ac_deadTimeout c
      | ALIVE \<Rightarrow> ac_aliveTimeout c
      | PERMANENT \<Rightarrow> int64_max
      | STATIC_AUTOGENERATED \<Rightarrow> int64_max)"

definition Arp_IsExpired :: "time \<Rightarrow> ArpCache \<Rightarrow> ArpEntry \<Rightarrow> bool" where
  "Arp_IsExpired now c e \<longleftrightarrow> Arp_GetTimeout c e < now - ae_lastSeen e"

section \<open>The cache\<close>

definition ArpCache_Lookup :: "ip \<Rightarrow> ArpCache \<Rightarrow> ArpEntry option" where
  "ArpCache_Lookup to c = map_of (ac_entries c) to"

definition ArpCache_LookupInverse :: "mac \<Rightarrow> ArpCache \<Rightarrow> ArpEntry list" where
  "ArpCache_LookupInverse m c = filter (\<lambda>e. ae_mac e = Some m) (map snd (ac_entries c))"

definition ArpCache_put :: "ip \<Rightarrow> ArpEntry \<Rightarrow> ArpCache \<Rightarrow> ArpCache" where
  "ArpCache_put to e c = c\<lparr>ac_entries := map_put to e (ac_entries c)\<rparr>"

definition ArpCache_Add :: "ip \<Rightarrow> ArpCache \<Rightarrow> ArpCache option" where
  "ArpCache_Add to c =
     do {
       ensure (map_of (ac_entries c) to = None);
       Some (ArpCache_put to (ArpEntry_make\<lparr>ae_ip := to\<rparr>) c)
     }"

definition ArpCache_Remove :: "ip \<Rightarrow> ArpCache \<Rightarrow> ArpCache" where
  "ArpCache_Remove to c = c\<lparr>ac_entries := map_erase to (ac_entries c)\<rparr>"

definition ArpCache_Flush :: "ArpCache \<Rightarrow> ArpCache" where
  "ArpCache_Flush c = c\<lparr>ac_entries := [], ac_waitReplyTimer := None\<rparr>"

definition ArpCache_RemoveAutoGeneratedEntries :: "ArpCache \<Rightarrow> ArpCache" where
  "ArpCache_RemoveAutoGeneratedEntries c =
     c\<lparr>ac_entries := filter (\<lambda>(a, e). ae_state e \<noteq> STATIC_AUTOGENERATED) (ac_entries c)\<rparr>"

definition ArpCache_StartWaitReplyTimer :: "time \<Rightarrow> ArpCache \<Rightarrow> ArpCache" where
  "ArpCache_StartWaitReplyTimer now c =
     (if ac_waitReplyTimer c = None
      then c\<lparr>ac_waitReplyTimer := Some (now + ac_waitReplyTimeout c)\<rparr> else c)"

text \<open>\<open>MarkWaitReply\<close> of the entry for an address starts the timer of its cache.\<close>

definition Arp_MarkWaitReply ::
    "time \<Rightarrow> ip \<Rightarrow> packet \<times> ipv4_header \<Rightarrow> ArpCache \<Rightarrow> ArpCache option" where
  "Arp_MarkWaitReply now to waiting c =
     do {
       e \<leftarrow> ArpCache_Lookup to c;
       ensure (ae_state e = ALIVE \<or> ae_state e = DEAD);
       ensure (ae_pending e = []);
       let e = Arp_UpdateSeen now (e\<lparr>ae_state := WAIT_REPLY, ae_pending := [waiting]\<rparr>);
       Some (ArpCache_StartWaitReplyTimer now (ArpCache_put to e c))
     }"

text \<open>
  What \<open>HandleWaitReplyTimeout\<close> does besides changing the cache, in the order it does it: ARP
  requests and packets given up.
\<close>

datatype arp_wait_effect =
  RequestAgain ip
| GiveUp "packet \<times> ipv4_header"

text \<open>One entry of its loop: whether the timer is restarted, the effects, and the entry.\<close>

definition arp_wait_entry ::
    "time \<Rightarrow> u32 \<Rightarrow> ArpEntry \<Rightarrow> (bool \<times> arp_wait_effect list \<times> ArpEntry) option" where
  "arp_wait_entry now maxRetries e =
     (if ae_state e = WAIT_REPLY then
        if ae_retries e < maxRetries
        then Some (True, [RequestAgain (ae_ip e)], Arp_IncrementRetries now e)
        else do {
          e \<leftarrow> Arp_MarkDead now e;
          let e = Arp_ClearRetries e;
          Some (False, map GiveUp (ae_pending e), e\<lparr>ae_pending := []\<rparr>)
        }
      else Some (False, [], e))"

fun arp_wait_entries ::
    "time \<Rightarrow> u32 \<Rightarrow> (ip \<times> ArpEntry) list \<Rightarrow> (bool \<times> arp_wait_effect list \<times> (ip \<times> ArpEntry) list) option" where
  "arp_wait_entries now mx [] = Some (False, [], [])"
| "arp_wait_entries now mx ((a, e) # m) =
     do {
       (r, fx, e) \<leftarrow> arp_wait_entry now mx e;
       (r', fx', m) \<leftarrow> arp_wait_entries now mx m;
       Some (r \<or> r', fx @ fx', (a, e) # m)
     }"

definition ArpCache_HandleWaitReplyTimeout ::
    "time \<Rightarrow> ArpCache \<Rightarrow> (arp_wait_effect list \<times> ArpCache) option" where
  "ArpCache_HandleWaitReplyTimeout now c =
     do {
       (restart, fx, m) \<leftarrow> arp_wait_entries now (ac_maxRetries c) (ac_entries c);
       Some (fx,
             c\<lparr>ac_entries := m,
               ac_waitReplyTimer := if restart then Some (now + ac_waitReplyTimeout c) else None\<rparr>)
     }"

section \<open>Properties\<close>

lemma arp_wait_entry_total:
  obtains fx e' where "arp_wait_entry now mx e = Some (ae_state e = WAIT_REPLY \<and> ae_retries e < mx, fx, e')"
  by (cases "ae_state e = WAIT_REPLY"; cases "ae_retries e < mx")
    (simp_all add: arp_wait_entry_def Arp_MarkDead_def Let_def)

lemma arp_wait_entries_map:
  "arp_wait_entries now mx m =
     Some (list_ex (\<lambda>(a, e). ae_state e = WAIT_REPLY \<and> ae_retries e < mx) m,
           concat (map (\<lambda>(a, e). fst (snd (the (arp_wait_entry now mx e)))) m),
           map_vals (\<lambda>a e. snd (snd (the (arp_wait_entry now mx e)))) m)"
proof (induction m)
  case (Cons x m)
  obtain a e where x: "x = (a, e)" by (cases x)
  obtain fx e' where "arp_wait_entry now mx e = Some (ae_state e = WAIT_REPLY \<and> ae_retries e < mx, fx, e')"
    by (rule arp_wait_entry_total)
  with Cons x show ?case by (simp add: map_vals_def)
qed (simp add: map_vals_def)

fun arp_timeouts :: "time list \<Rightarrow> ArpCache \<Rightarrow> (arp_wait_effect list \<times> ArpCache) option" where
  "arp_timeouts [] c = Some ([], c)"
| "arp_timeouts (now # ts) c =
     do {
       (fx, c) \<leftarrow> ArpCache_HandleWaitReplyTimeout now c;
       (fx', c) \<leftarrow> arp_timeouts ts c;
       Some (fx @ fx', c)
     }"

lemma arp_timeout_entry:
  assumes "ArpCache_Lookup a c = Some e"
  obtains fx c' where "ArpCache_HandleWaitReplyTimeout now c = Some (fx, c')"
    and "ac_maxRetries c' = ac_maxRetries c"
    and "ArpCache_Lookup a c' = Some (snd (snd (the (arp_wait_entry now (ac_maxRetries c) e))))"
    and "set (fst (snd (the (arp_wait_entry now (ac_maxRetries c) e)))) \<subseteq> set fx"
proof -
  have "(a, e) \<in> set (ac_entries c)"
    using assms by (simp add: ArpCache_Lookup_def map_of_SomeD)
  then show thesis
    using that assms
    by (force simp: ArpCache_HandleWaitReplyTimeout_def arp_wait_entries_map ArpCache_Lookup_def)
qed

text \<open>
  An address that never answers is given up. A waiting entry that has been
  retried r times survives the timeouts up to \<open>m_maxRetries\<close> still waiting, and the next
  timeout marks it dead and drops every packet queued behind it.
\<close>

theorem arp_gives_up:
  assumes "ArpCache_Lookup a c = Some e" and "ae_state e = WAIT_REPLY"
    and "unat (ae_retries e) + length ts = unat (ac_maxRetries c)"
  shows "\<exists>fx c' e'. arp_timeouts (ts @ [now]) c = Some (fx, c') \<and>
    ArpCache_Lookup a c' = Some e' \<and> ae_state e' = DEAD \<and> ae_pending e' = [] \<and>
    ae_retries e' = 0 \<and> GiveUp ` set (ae_pending e) \<subseteq> set fx"
  using assms
proof (induction ts arbitrary: c e)
  case Nil
  then have r: "\<not> ae_retries e < ac_maxRetries c" by (simp add: word_less_nat_alt)
  obtain fx c' where s: "ArpCache_HandleWaitReplyTimeout now c = Some (fx, c')"
    "ArpCache_Lookup a c' = Some (snd (snd (the (arp_wait_entry now (ac_maxRetries c) e))))"
    "set (fst (snd (the (arp_wait_entry now (ac_maxRetries c) e)))) \<subseteq> set fx"
    using arp_timeout_entry [OF Nil.prems(1)] by metis
  with r Nil.prems(2) show ?case
    by (auto simp: arp_wait_entry_def Arp_MarkDead_def Arp_ClearRetries_def Arp_UpdateSeen_def)
next
  case (Cons t ts)
  then have r: "ae_retries e < ac_maxRetries c" by (simp add: word_less_nat_alt)
  let ?e = "Arp_IncrementRetries t e"
  obtain fx c1 where s: "ArpCache_HandleWaitReplyTimeout t c = Some (fx, c1)"
    "ac_maxRetries c1 = ac_maxRetries c" "ArpCache_Lookup a c1 = Some ?e"
    by (rule arp_timeout_entry [OF Cons.prems(1), of t]) (use r Cons.prems(2) in \<open>simp add: arp_wait_entry_def\<close>)
  have "unat (ae_retries ?e) = Suc (unat (ae_retries e))"
    using r by (simp add: Arp_IncrementRetries_def Arp_UpdateSeen_def unat_succ_less)
  with Cons.prems s have "unat (ae_retries ?e) + length ts = unat (ac_maxRetries c1)" by simp
  moreover have "ae_state ?e = WAIT_REPLY" "ae_pending ?e = ae_pending e"
    using Cons.prems(2) by (simp_all add: Arp_IncrementRetries_def Arp_UpdateSeen_def)
  ultimately show ?case using Cons.IH [OF s(3)] s(1) by fastforce
qed

theorem arp_gives_up_witness:
  "let p = (Packet_Create, Ih_make);
       e = ArpEntry_make\<lparr>ae_state := WAIT_REPLY, ae_retries := 2, ae_pending := [p]\<rparr>;
       c = (ArpCache_default 0)\<lparr>ac_entries := [(7, e)]\<rparr>
   in \<exists>fx c' e'. arp_timeouts [1, 2] c = Some (fx, c') \<and>
        ArpCache_Lookup 7 c' = Some e' \<and> ae_state e' = DEAD \<and> GiveUp p \<in> set fx"
  using arp_gives_up [of 7 "(ArpCache_default 0)\<lparr>ac_entries :=
      [(7, ArpEntry_make\<lparr>ae_state := WAIT_REPLY, ae_retries := 2,
         ae_pending := [(Packet_Create, Ih_make)]\<rparr>)]\<rparr>" _ "[1]" 2]
  by (fastforce simp: ArpCache_Lookup_def ArpCache_default_def)

end
