(* ===== verification/Neighbor.thy ===== *)
theory Neighbor
  imports Arp_Cache
begin

text \<open>
  The table of one-hop neighbours (src/aodv/model/aodv-neighbor.cc and aodv-neighbor.h): who is
  in reach, until when, under which hardware address, and the report of broken links to the
  routing protocol. The calls of the link-failure callback are returned as the list of the
  neighbours reported, in order; the callback does not come back to this table, so running it
  after the loop that collects it is the same.
\<close>

section \<open>State\<close>

record Neighbor =
  nb_addr :: ip
  nb_mac :: mac
  nb_expire :: time
  nb_close :: bool

definition Neighbor_make :: "ip \<Rightarrow> mac \<Rightarrow> time \<Rightarrow> Neighbor" where
  "Neighbor_make a m t = \<lparr>nb_addr = a, nb_mac = m, nb_expire = t, nb_close = False\<rparr>"

text \<open>
  \<open>nbs_arp\<close> holds the identities of the ARP caches, whose contents are looked up in the
  environment \<open>arps\<close>; \<open>nbs_callback\<close> says whether a link-failure callback is set.
\<close>

record Neighbors =
  nbs_list :: "Neighbor list"
  nbs_arp :: "nat list"
  nbs_timer :: timer
  nbs_delay :: time
  nbs_callback :: bool

definition Neighbors_make :: "time \<Rightarrow> Neighbors" where
  "Neighbors_make delay =
     \<lparr>nbs_list = [], nbs_arp = [], nbs_timer = None, nbs_delay = delay, nbs_callback = False\<rparr>"

definition Neighbors_SetCallback :: "Neighbors \<Rightarrow> Neighbors" where
  "Neighbors_SetCallback nb = nb\<lparr>nbs_callback := True\<rparr>"

section \<open>Operations\<close>

definition Neighbors_CloseNeighbor :: "time \<Rightarrow> Neighbor \<Rightarrow> bool" where
  "Neighbors_CloseNeighbor now n \<longleftrightarrow> nb_expire n < now \<or> nb_close n"

definition Neighbors_ScheduleTimer :: "time \<Rightarrow> Neighbors \<Rightarrow> Neighbors" where
  "Neighbors_ScheduleTimer now nb = nb\<lparr>nbs_timer := Some (now + nbs_delay nb)\<rparr>"

definition Neighbors_Purge :: "time \<Rightarrow> Neighbors \<Rightarrow> ip list \<times> Neighbors" where
  "Neighbors_Purge now nb =
     (if nbs_list nb = [] then ([], nb)
      else
        (if nbs_callback nb
         then map nb_addr (filter (Neighbors_CloseNeighbor now) (nbs_list nb)) else [],
         Neighbors_ScheduleTimer now
           (nb\<lparr>nbs_list := filter (\<lambda>n. \<not> Neighbors_CloseNeighbor now n) (nbs_list nb)\<rparr>)))"

definition Neighbors_IsNeighbor :: "time \<Rightarrow> ip \<Rightarrow> Neighbors \<Rightarrow> bool \<times> ip list \<times> Neighbors" where
  "Neighbors_IsNeighbor now a nb =
     (let (lost, nb) = Neighbors_Purge now nb in
      (list_ex (\<lambda>n. nb_addr n = a) (nbs_list nb), lost, nb))"

definition Neighbors_GetExpireTime :: "time \<Rightarrow> ip \<Rightarrow> Neighbors \<Rightarrow> time \<times> ip list \<times> Neighbors" where
  "Neighbors_GetExpireTime now a nb =
     (let (lost, nb) = Neighbors_Purge now nb in
      (case find (\<lambda>n. nb_addr n = a) (nbs_list nb) of
         None \<Rightarrow> 0 | Some n \<Rightarrow> nb_expire n - now, lost, nb))"

text \<open>
  \<open>LookupMacAddress\<close> returns the all-zero address when no cache knows the neighbour. An alive
  entry without a hardware address trips the assertion of \<open>Mac48Address::ConvertFrom\<close>.
\<close>

fun Neighbors_LookupMacAddress ::
    "time \<Rightarrow> (nat \<Rightarrow> ArpCache) \<Rightarrow> ip \<Rightarrow> nat list \<Rightarrow> mac option" where
  "Neighbors_LookupMacAddress now arps a [] = Some 0"
| "Neighbors_LookupMacAddress now arps a (i # is) =
     (case ArpCache_Lookup a (arps i) of
        None \<Rightarrow> Neighbors_LookupMacAddress now arps a is
      | Some e \<Rightarrow>
          if (ae_state e = ALIVE \<or> ae_state e = PERMANENT) \<and> \<not> Arp_IsExpired now (arps i) e
          then ae_mac e
          else Neighbors_LookupMacAddress now arps a is)"

text \<open>
  \<open>Update\<close> refreshes the first entry of the neighbour, without purging, or opens a new one and
  purges.
\<close>

fun refresh_neighbor ::
    "ip \<Rightarrow> (Neighbor \<Rightarrow> Neighbor option) \<Rightarrow> Neighbor list \<Rightarrow> Neighbor list option option" where
  "refresh_neighbor a f [] = None"
| "refresh_neighbor a f (n # ns) =
     (if nb_addr n = a then Some (map_option (\<lambda>n. n # ns) (f n))
      else map_option (map_option (\<lambda>ns. n # ns)) (refresh_neighbor a f ns))"

definition Neighbors_Update ::
    "time \<Rightarrow> (nat \<Rightarrow> ArpCache) \<Rightarrow> ip \<Rightarrow> time \<Rightarrow> Neighbors \<Rightarrow> (ip list \<times> Neighbors) option" where
  "Neighbors_Update now arps a expire nb =
     (let lookup = (\<lambda>a. Neighbors_LookupMacAddress now arps a (nbs_arp nb));
          refresh = (\<lambda>n.
            let n = n\<lparr>nb_expire := max (expire + now) (nb_expire n)\<rparr> in
            if nb_mac n = 0 then map_option (\<lambda>m. n\<lparr>nb_mac := m\<rparr>) (lookup (nb_addr n)) else Some n)
      in case refresh_neighbor a refresh (nbs_list nb) of
           Some ns \<Rightarrow> map_option (\<lambda>ns. ([], nb\<lparr>nbs_list := ns\<rparr>)) ns
         | None \<Rightarrow>
             do {
               m \<leftarrow> lookup a;
               Some (Neighbors_Purge now
                       (nb\<lparr>nbs_list := nbs_list nb @ [Neighbor_make a m (expire + now)]\<rparr>))
             })"

definition Neighbors_Clear :: "Neighbors \<Rightarrow> Neighbors" where
  "Neighbors_Clear nb = nb\<lparr>nbs_list := []\<rparr>"

definition Neighbors_AddArpCache :: "nat \<Rightarrow> Neighbors \<Rightarrow> Neighbors" where
  "Neighbors_AddArpCache i nb = nb\<lparr>nbs_arp := nbs_arp nb @ [i]\<rparr>"

definition Neighbors_DelArpCache :: "nat \<Rightarrow> Neighbors \<Rightarrow> Neighbors" where
  "Neighbors_DelArpCache i nb = nb\<lparr>nbs_arp := filter (\<lambda>j. j \<noteq> i) (nbs_arp nb)\<rparr>"

definition Neighbors_ProcessTxError :: "time \<Rightarrow> mac \<Rightarrow> Neighbors \<Rightarrow> ip list \<times> Neighbors" where
  "Neighbors_ProcessTxError now addr1 nb =
     Neighbors_Purge now
       (nb\<lparr>nbs_list := map (\<lambda>n. if nb_mac n = addr1 then n\<lparr>nb_close := True\<rparr> else n) (nbs_list nb)\<rparr>)"

text \<open>The neighbour timer calls \<open>Purge\<close>; its own event is over by then.\<close>

definition Neighbors_TimerExpire :: "time \<Rightarrow> Neighbors \<Rightarrow> ip list \<times> Neighbors" where
  "Neighbors_TimerExpire now nb = Neighbors_Purge now (nb\<lparr>nbs_timer := None\<rparr>)"

interpretation nb_store:
  expiring_store "\<lambda>now nb. snd (Neighbors_Purge now nb)" nbs_list
    "\<lambda>now n. \<not> Neighbors_CloseNeighbor now n"
  by unfold_locales
    (auto simp: Neighbors_Purge_def Neighbors_CloseNeighbor_def Neighbors_ScheduleTimer_def)

section \<open>Invariant\<close>

text \<open>One entry per neighbour, and the purge timer runs while there is any.\<close>

definition nb_inv :: "Neighbors \<Rightarrow> bool" where
  "nb_inv nb \<longleftrightarrow> distinct (map nb_addr (nbs_list nb)) \<and> (nbs_list nb \<noteq> [] \<longrightarrow> nbs_timer nb \<noteq> None)"

datatype nb_op =
  NbIsNeighbor ip | NbGetExpire ip | NbUpdate ip time | NbClear | NbTxError mac
| NbTimer | NbSchedule | NbAddArp nat | NbDelArp nat

fun nb_step ::
    "time \<Rightarrow> (nat \<Rightarrow> ArpCache) \<Rightarrow> nb_op \<Rightarrow> Neighbors \<Rightarrow> (ip list \<times> Neighbors) option" where
  "nb_step now arps (NbIsNeighbor a) nb = Some (snd (Neighbors_IsNeighbor now a nb))"
| "nb_step now arps (NbGetExpire a) nb = Some (snd (Neighbors_GetExpireTime now a nb))"
| "nb_step now arps (NbUpdate a t) nb = Neighbors_Update now arps a t nb"
| "nb_step now arps NbClear nb = Some ([], Neighbors_Clear nb)"
| "nb_step now arps (NbTxError m) nb = Some (Neighbors_ProcessTxError now m nb)"
| "nb_step now arps NbTimer nb = Some (Neighbors_TimerExpire now nb)"
| "nb_step now arps NbSchedule nb = Some ([], Neighbors_ScheduleTimer now nb)"
| "nb_step now arps (NbAddArp i) nb = Some ([], Neighbors_AddArpCache i nb)"
| "nb_step now arps (NbDelArp i) nb = Some ([], Neighbors_DelArpCache i nb)"

fun nb_run ::
    "(time \<times> (nat \<Rightarrow> ArpCache) \<times> nb_op) list \<Rightarrow> Neighbors \<Rightarrow> Neighbors option" where
  "nb_run [] nb = Some nb"
| "nb_run ((now, arps, op) # ops) nb =
     do { (lost, nb) \<leftarrow> nb_step now arps op nb; nb_run ops nb }"

lemma Neighbors_Purge_inv:
  assumes "distinct (map nb_addr (nbs_list nb))"
  shows "nb_inv (snd (Neighbors_Purge now nb))"
  using assms
  by (auto simp: nb_inv_def Neighbors_Purge_def Neighbors_ScheduleTimer_def distinct_map_filter)

lemma refresh_neighbor_None: "refresh_neighbor a f ns = None \<longleftrightarrow> a \<notin> nb_addr ` set ns"
  by (induction ns) auto

lemma refresh_neighbor_addrs:
  assumes "\<And>n n'. f n = Some n' \<Longrightarrow> nb_addr n' = nb_addr n"
  shows "refresh_neighbor a f ns = Some (Some ns') \<Longrightarrow> map nb_addr ns' = map nb_addr ns"
  using assms by (induction ns arbitrary: ns') (auto split: if_splits)

lemma Neighbors_Update_inv:
  assumes "nb_inv nb" and "Neighbors_Update now arps a t nb = Some (lost, nb')"
  shows "nb_inv nb'"
proof -
  define f where "f = (\<lambda>n :: Neighbor.
            let n = n\<lparr>nb_expire := max (t + now) (nb_expire n)\<rparr> in
            if nb_mac n = 0
            then map_option (\<lambda>m. n\<lparr>nb_mac := m\<rparr>)
                   (Neighbors_LookupMacAddress now arps (nb_addr n) (nbs_arp nb))
            else Some n)"
  have f: "f n = Some n' \<Longrightarrow> nb_addr n' = nb_addr n" for n n'
    by (auto simp: f_def Let_def split: if_splits)
  have u: "Neighbors_Update now arps a t nb =
      (case refresh_neighbor a f (nbs_list nb) of
         Some ns \<Rightarrow> map_option (\<lambda>ns. ([], nb\<lparr>nbs_list := ns\<rparr>)) ns
       | None \<Rightarrow>
           do {
             m \<leftarrow> Neighbors_LookupMacAddress now arps a (nbs_arp nb);
             Some (Neighbors_Purge now
                     (nb\<lparr>nbs_list := nbs_list nb @ [Neighbor_make a m (t + now)]\<rparr>))
           })"
    by (simp add: Neighbors_Update_def f_def Let_def)
  show ?thesis
  proof (cases "refresh_neighbor a f (nbs_list nb)")
    case None
    with assms u obtain m where
      "Neighbors_Purge now (nb\<lparr>nbs_list := nbs_list nb @ [Neighbor_make a m (t + now)]\<rparr>) = (lost, nb')"
      by (auto simp: bind_eq_Some_conv)
    moreover have "a \<notin> nb_addr ` set (nbs_list nb)" using None by (simp add: refresh_neighbor_None)
    ultimately show ?thesis
      using Neighbors_Purge_inv [of "nb\<lparr>nbs_list := nbs_list nb @ [Neighbor_make a m (t + now)]\<rparr>" now]
        assms(1)
      by (auto simp: nb_inv_def Neighbor_make_def)
  next
    case (Some r)
    with assms u obtain ns where "r = Some ns" "nb' = nb\<lparr>nbs_list := ns\<rparr>" by auto
    moreover have "map nb_addr ns = map nb_addr (nbs_list nb)"
      using refresh_neighbor_addrs [of f, OF f] Some \<open>r = Some ns\<close> by blast
    ultimately show ?thesis using assms(1) by (auto simp: nb_inv_def)
  qed
qed

lemma nb_step_inv:
  assumes "nb_inv nb" and "nb_step now arps op nb = Some (lost, nb')"
  shows "nb_inv nb'"
proof -
  have d: "distinct (map nb_addr (nbs_list nb))" using assms(1) by (simp add: nb_inv_def)
  have purge: "nb_inv (snd (Neighbors_Purge now nb))" by (rule Neighbors_Purge_inv [OF d])
  show ?thesis
  proof (cases op)
    case (NbTxError m)
    let ?c = "\<lambda>n :: Neighbor. if nb_mac n = m then n\<lparr>nb_close := True\<rparr> else n"
    have "nb_addr \<circ> ?c = nb_addr" by auto
    then have "nb_inv (snd (Neighbors_Purge now (nb\<lparr>nbs_list := map ?c (nbs_list nb)\<rparr>)))"
      by (intro Neighbors_Purge_inv) (simp add: d)
    with NbTxError assms(2) show ?thesis by (simp add: Neighbors_ProcessTxError_def)
  next
    case NbTimer
    with assms d show ?thesis
      using Neighbors_Purge_inv [of "nb\<lparr>nbs_timer := None\<rparr>" now]
      by (simp add: Neighbors_TimerExpire_def)
  next
    case (NbUpdate a t)
    with assms show ?thesis using Neighbors_Update_inv by simp
  next
    case (NbIsNeighbor a)
    with assms purge show ?thesis by (simp add: Neighbors_IsNeighbor_def Let_def case_prod_beta)
  next
    case (NbGetExpire a)
    with assms purge show ?thesis by (simp add: Neighbors_GetExpireTime_def Let_def case_prod_beta)
  qed (use assms in \<open>auto simp: nb_inv_def Neighbors_Clear_def Neighbors_ScheduleTimer_def
      Neighbors_AddArpCache_def Neighbors_DelArpCache_def\<close>)
qed

section \<open>Properties\<close>

text \<open>
  Whatever happens to a new neighbour table, it keeps one entry per neighbour and
  its purge timer is pending as long as it has an entry, so no entry outlives its time
  unnoticed.
\<close>

theorem neighbors_invariant:
  assumes "nb_run ops (Neighbors_make delay) = Some nb"
  shows "distinct (map nb_addr (nbs_list nb)) \<and> (nbs_list nb \<noteq> [] \<longrightarrow> nbs_timer nb \<noteq> None)"
proof -
  have "nb_inv nb \<Longrightarrow> nb_run ops nb = Some nb' \<Longrightarrow> nb_inv nb'" for nb nb' ops
  proof (induction ops arbitrary: nb)
    case (Cons x ops)
    obtain now arps op where x: "x = (now, arps, op)" by (cases x)
    with Cons.prems obtain lost nb1 where
      "nb_step now arps op nb = Some (lost, nb1)" "nb_run ops nb1 = Some nb'"
      by (auto simp: bind_eq_Some_conv)
    with Cons nb_step_inv show ?case by blast
  qed simp
  from this [of "Neighbors_make delay" ops nb] assms show ?thesis
    by (simp add: nb_inv_def Neighbors_make_def)
qed

theorem neighbors_invariant_witness:
  "let nb = \<lparr>nbs_list = [Neighbor_make 7 0 15], nbs_arp = [], nbs_timer = Some 6, nbs_delay = 1,
             nbs_callback = False\<rparr>
   in distinct (map nb_addr (nbs_list nb)) \<and> nbs_timer nb \<noteq> None"
  using neighbors_invariant [of "[(5, \<lambda>i. ArpCache_default i, NbUpdate 7 10)]" 1
      "\<lparr>nbs_list = [Neighbor_make 7 0 15], nbs_arp = [], nbs_timer = Some 6, nbs_delay = 1,
        nbs_callback = False\<rparr>"]
  by (simp add: Neighbors_Update_def Neighbors_make_def Neighbors_Purge_def
      Neighbors_ScheduleTimer_def Neighbors_CloseNeighbor_def Neighbor_make_def)

text \<open>
  A transmission error to a hardware address closes every neighbour behind it:
  each is reported once, in table order, together with the neighbours that had expired, and
  the table keeps exactly the others.
\<close>

theorem tx_error_reports_links:
  assumes "nbs_callback nb"
    and "Neighbors_ProcessTxError now m nb = (lost, nb')"
  shows "lost = map nb_addr (filter (\<lambda>n. nb_mac n = m \<or> nb_close n \<or> nb_expire n < now) (nbs_list nb)) \<and>
    nbs_list nb' = filter (\<lambda>n. nb_mac n \<noteq> m \<and> \<not> nb_close n \<and> now \<le> nb_expire n) (nbs_list nb)"
proof -
  let ?f = "\<lambda>n. if nb_mac n = m then n\<lparr>nb_close := True\<rparr> else n"
  have 1: "map nb_addr (filter (Neighbors_CloseNeighbor now) (map ?f ns)) =
      map nb_addr (filter (\<lambda>n. nb_mac n = m \<or> nb_close n \<or> nb_expire n < now) ns)" for ns
    by (induction ns) (auto simp: Neighbors_CloseNeighbor_def)
  have 2: "filter (\<lambda>n. \<not> Neighbors_CloseNeighbor now n) (map ?f ns) =
      filter (\<lambda>n. nb_mac n \<noteq> m \<and> \<not> nb_close n \<and> now \<le> nb_expire n) ns" for ns
    by (induction ns) (auto simp: Neighbors_CloseNeighbor_def)
  show ?thesis
    using assms
    by (auto simp: Neighbors_ProcessTxError_def Neighbors_Purge_def Neighbors_ScheduleTimer_def 1 2
        split: if_splits)
qed

theorem tx_error_reports_links_witness:
  "let nb = \<lparr>nbs_list = [Neighbor_make 7 1 15, Neighbor_make 8 2 15], nbs_arp = [],
             nbs_timer = Some 6, nbs_delay = 1, nbs_callback = True\<rparr>
   in fst (Neighbors_ProcessTxError 5 2 nb) = [8]"
  using tx_error_reports_links [OF _ prod.collapse [symmetric],
      of "\<lparr>nbs_list = [Neighbor_make 7 1 15, Neighbor_make 8 2 15],
      nbs_arp = [], nbs_timer = Some 6, nbs_delay = 1, nbs_callback = True\<rparr>" 5 2]
  by (simp add: Neighbor_make_def)

end
