(* ===== verification/Fixed_Time.thy ===== *)
theory Fixed_Time
  imports Complex_Main Net_Base
begin

text \<open>
  The numbers under \<^verbatim>\<open>ns3::Time\<close>: the Q64.64 fixed-point type of
  src/core/model/int64x64-128.h and int64x64-128.cc (the 128-bit implementation the build
  selects), the conversions of src/core/model/nstime.h between seconds and the nanosecond
  resolution, and the binary floating-point arithmetic they and the wormhole detector use.

  A \<^verbatim>\<open>double\<close> is a rational with at most 53 significant bits and a
  \<^verbatim>\<open>long double\<close> one with at most 64 (the x86-64 format), each operation
  rounding its exact result to the nearest, ties to even. Exponent range, infinities and NaN
  are left out: the values here lie between 1 ns and the length of a simulation.
\<close>

type_synonym u128 = "128 word"
type_synonym double = rat

section \<open>Floating point\<close>

function bit_length :: "int \<Rightarrow> int" where
  "bit_length n = (if n \<le> 0 then 0 else 1 + bit_length (n div 2))"
  by auto
termination by (relation "measure nat") auto

declare bit_length.simps [simp del]

definition pow2 :: "int \<Rightarrow> rat" where
  "pow2 k = (if 0 \<le> k then 2 ^ nat k else 1 / 2 ^ nat (- k))"

text \<open>The exponent of a positive rational: the largest k with 2^k at most x.\<close>

definition exponent :: "rat \<Rightarrow> int" where
  "exponent x =
     (let (n, d) = quotient_of x;
          k = bit_length n - bit_length d
      in if pow2 k \<le> x then k else k - 1)"

definition round_half_even :: "rat \<Rightarrow> int" where
  "round_half_even x =
     (let f = \<lfloor>x\<rfloor>; r = x - of_int f in
      if r < 1 / 2 then f else if 1 / 2 < r then f + 1 else if even f then f else f + 1)"

definition round_sig :: "nat \<Rightarrow> rat \<Rightarrow> rat" where
  "round_sig p x =
     (if x = 0 then 0
      else let u = pow2 (exponent \<bar>x\<bar> - int p + 1)
           in sgn x * of_int (round_half_even (\<bar>x\<bar> / u)) * u)"

definition to_double :: "rat \<Rightarrow> double" where
  "to_double x = round_sig 53 x"

definition to_long_double :: "rat \<Rightarrow> rat" where
  "to_long_double x = round_sig 64 x"

definition double_add :: "double \<Rightarrow> double \<Rightarrow> double" where
  "double_add x y = to_double (x + y)"

definition double_mul :: "double \<Rightarrow> double \<Rightarrow> double" where
  "double_mul x y = to_double (x * y)"

definition double_div :: "double \<Rightarrow> double \<Rightarrow> double" where
  "double_div x y = to_double (x / y)"

section \<open>The type int64x64\_t\<close>

text \<open>The representation is the raw 128-bit word \<open>_v\<close>, read as a signed Q64.64 number.\<close>

type_synonym int64x64 = u128

definition HP_MASK_LO :: u128 where
  "HP_MASK_LO = 0xffffffffffffffff"

text \<open>
  \<open>HP_MASK_HI\<close> is declared with type \<^verbatim>\<open>uint64_t\<close> as the complement of
  \<open>HP_MASK_LO\<close>, so its value is zero.
\<close>

definition HP_MASK_HI :: u64 where
  "HP_MASK_HI = NOT 0xffffffffffffffff"

definition HP128_MASK_HI_BIT :: u128 where
  "HP128_MASK_HI_BIT = push_bit 127 1"

definition negative128 :: "u128 \<Rightarrow> bool" where
  "negative128 v \<longleftrightarrow> sint v < 0"

definition int64x64_of_int :: "int \<Rightarrow> int64x64" where
  "int64x64_of_int n = push_bit 64 (word_of_int n)"

definition int64x64_of_double :: "double \<Rightarrow> int64x64" where
  "int64x64_of_double value =
     (let negative = value < 0;
          v = (if negative then - value else value);
          fhi = \<lfloor>v\<rfloor>;
          flo = v - of_int fhi;
          flo = to_long_double (to_long_double (flo * 2 ^ 64) + 1 / 2);
          hi = fhi;
          lo = \<lfloor>flo\<rfloor> mod 2 ^ 64;
          hi = (if 2 ^ 64 \<le> flo then hi + 1 else hi);
          r = push_bit 64 (word_of_int hi) OR word_of_int lo
      in if negative then - r else r)"

definition int64x64_GetDouble :: "int64x64 \<Rightarrow> double" where
  "int64x64_GetDouble x =
     (let negative = negative128 x;
          value = (if negative then - x else x);
          fhi = to_long_double (of_int (uint (drop_bit 64 value)));
          flo = to_long_double (to_long_double (of_int (uint (value AND HP_MASK_LO))) / 2 ^ 64);
          retval = to_long_double (fhi + flo);
          retval = (if negative then - retval else retval)
      in to_double retval)"

definition int64x64_GetHigh :: "int64x64 \<Rightarrow> int" where
  "int64x64_GetHigh x = sint x div 2 ^ 64"

definition int64x64_Round :: "int64x64 \<Rightarrow> int" where
  "int64x64_Round x =
     (let negative = negative128 x;
          value = (if negative then - x else x);
          value = value + push_bit 63 1;
          retval = int64x64_GetHigh value
      in if negative then - retval else retval)"

text \<open>
  The negation of the least 128-bit number is undefined in the source; here it wraps around to the
  number itself.
\<close>

definition output_sign :: "u128 \<Rightarrow> u128 \<Rightarrow> bool \<times> u128 \<times> u128" where
  "output_sign sa sb =
     (let negA = negative128 sa; negB = negative128 sb in
      (negA \<noteq> negB, if negA then - sa else sa, if negB then - sb else sb))"

text \<open>The product; \<open>None\<close> is the overflow abort.\<close>

definition int64x64_Umul :: "u128 \<Rightarrow> u128 \<Rightarrow> u128 option" where
  "int64x64_Umul a b =
     (let aL = a AND HP_MASK_LO; bL = b AND HP_MASK_LO;
          aH = drop_bit 64 a AND HP_MASK_LO; bH = drop_bit 64 b AND HP_MASK_LO;
          loPart = aL * bL;
          midPart = aL * bH + aH * bL;
          hiPart = aH * bH
      in if hiPart AND ucast HP_MASK_HI \<noteq> 0 then None
         else
           let res1 = drop_bit 64 loPart;
               res2 = midPart AND HP_MASK_LO;
               result = res1 + res2;
               res1 = drop_bit 64 midPart;
               res2 = hiPart AND HP_MASK_LO;
               res1 = res1 + res2;
               res1 = push_bit 64 res1
           in Some (result + res1))"

definition int64x64_Mul :: "int64x64 \<Rightarrow> int64x64 \<Rightarrow> int64x64 option" where
  "int64x64_Mul x y =
     (let (negative, a, b) = output_sign x y in
      map_option (\<lambda>r. if negative then - r else r) (int64x64_Umul a b))"

text \<open>
  Long division. The three inner loops of \<open>Udiv\<close> shift until a bound of 64 digits; the outer
  loop adds the digits of one division per round.
\<close>

function udiv_skip_den :: "nat \<Rightarrow> u128 \<Rightarrow> nat \<times> u128" where
  "udiv_skip_den shift den =
     (if shift < 64 \<and> \<not> bit den 0 then udiv_skip_den (shift + 1) (drop_bit 1 den)
      else (shift, den))"
  by auto
termination by (relation "measure (\<lambda>(s, d). 64 - s)") auto

function udiv_skip_rem :: "nat \<Rightarrow> nat \<Rightarrow> u128 \<Rightarrow> nat \<times> u128" where
  "udiv_skip_rem digis shift rm =
     (if digis + shift < 64 \<and> rm AND HP128_MASK_HI_BIT = 0
      then udiv_skip_rem digis (shift + 1) (push_bit 1 rm) else (shift, rm))"
  by auto
termination by (relation "measure (\<lambda>(d, s, r). 64 - (d + s))") auto

function udiv_cast_off :: "nat \<Rightarrow> u128 \<Rightarrow> nat \<Rightarrow> u128 \<Rightarrow> nat \<times> u128" where
  "udiv_cast_off digis rm shift den =
     (if digis + shift < 64 \<and> (\<not> bit den 0 \<or> rm < den)
      then udiv_cast_off digis rm (shift + 1) (drop_bit 1 den) else (shift, den))"
  by auto
termination by (relation "measure (\<lambda>(d, r, s, n). 64 - (d + s))") auto

declare udiv_skip_den.simps [simp del] udiv_skip_rem.simps [simp del] udiv_cast_off.simps [simp del]

text \<open>
  Fuel bounds the rounds of the outer loop. A round that adds no digit has \<open>shift = 0\<close>; then
  the remainder already has its top bit set and the divisor is odd and not above it, so the
  division makes the remainder smaller than the divisor and the next round shifts. Every
  second round therefore adds a digit.
\<close>

fun udiv_digits :: "nat \<Rightarrow> nat \<Rightarrow> nat \<Rightarrow> u128 \<Rightarrow> u128 \<Rightarrow> u128 \<Rightarrow> (nat \<times> u128) option" where
  "udiv_digits fuel digis shift rm den result =
     (if digis < 64 \<and> rm \<noteq> 0 then
        (case fuel of
           0 \<Rightarrow> None
         | Suc fuel \<Rightarrow>
             let (shift, rm) = udiv_skip_rem digis shift rm;
                 (shift, den) = udiv_cast_off digis rm shift den
             in if den = 0 then None
                else udiv_digits fuel (digis + shift) 0 (rm mod den) den
                       (push_bit shift result + rm div den))
      else Some (digis, result))"

declare udiv_digits.simps [simp del]

definition int64x64_Udiv :: "u128 \<Rightarrow> u128 \<Rightarrow> u128 option" where
  "int64x64_Udiv a b =
     do {
       ensure (b \<noteq> 0);
       let quo = a div b;
       let rm = a mod b;
       ensure (rm < b);
       let (shift, den) = udiv_skip_den 0 b;
       (digis, result) \<leftarrow> udiv_digits 130 0 shift rm den quo;
       Some (if digis < 64 then push_bit (64 - digis) result else result)
     }"

definition int64x64_UmulByInvert :: "u128 \<Rightarrow> u128 \<Rightarrow> u128" where
  "int64x64_UmulByInvert a b =
     (let ah = drop_bit 64 a; bh = drop_bit 64 b;
          al = a AND HP_MASK_LO; bl = b AND HP_MASK_LO;
          hi = ah * bh;
          mid = ah * bl + al * bh;
          mid = drop_bit 64 mid
      in hi + mid)"

definition int64x64_MulByInvert :: "int64x64 \<Rightarrow> int64x64 \<Rightarrow> int64x64" where
  "int64x64_MulByInvert x y =
     (let negResult = negative128 x;
          a = (if negResult then - x else x);
          result = int64x64_UmulByInvert a y
      in if negResult then - result else result)"

definition int64x64_Invert :: "u64 \<Rightarrow> int64x64 option" where
  "int64x64_Invert v =
     do {
       ensure (1 < v);
       result \<leftarrow> int64x64_Udiv (push_bit 64 1) (ucast v);
       let tmp = int64x64_MulByInvert (int64x64_of_int (uint v)) result;
       Some (if int64x64_GetHigh tmp \<noteq> 1 then result + 1 else result)
     }"

section \<open>Seconds and nanoseconds\<close>

text \<open>
  At the nanosecond resolution the entry for seconds multiplies by 10^9 on the way in and by
  the inverse of 10^9 on the way out (\<open>SetResolution\<close>).
\<close>

definition timeFrom_S :: int64x64 where
  "timeFrom_S = int64x64_of_int 1000000000"

definition timeTo_S :: int64x64 where
  "timeTo_S = the (int64x64_Invert 1000000000)"

definition Time_FromDouble_S :: "double \<Rightarrow> time" where
  "Time_FromDouble_S value =
     int64x64_Round (the (int64x64_Mul (int64x64_of_double value) timeFrom_S))"

definition Seconds :: "double \<Rightarrow> time" where
  "Seconds value = Time_FromDouble_S value"

definition Time_GetSeconds :: "time \<Rightarrow> double" where
  "Time_GetSeconds t = int64x64_GetDouble (int64x64_MulByInvert (int64x64_of_int t) timeTo_S)"

definition Time_GetNanoSeconds :: "time \<Rightarrow> int" where
  "Time_GetNanoSeconds t = t"

section \<open>The product\<close>

text \<open>The product of two magnitudes, computed in halves.\<close>

lemma mask64: "uint (a AND HP_MASK_LO) = uint a mod 2 ^ 64"
proof -
  have "uint HP_MASK_LO = mask 64" by (simp add: HP_MASK_LO_def mask_eq_exp_minus_1)
  then have "uint (a AND HP_MASK_LO) = uint a AND mask 64" by (simp add: unsigned_and_eq)
  then show ?thesis by (simp only: take_bit_eq_mod flip: take_bit_eq_mask)
qed

lemma shift64: "uint (drop_bit 64 (a::u128)) = uint a div 2 ^ 64"
  by (simp only: drop_bit_eq_div uint_div_distrib) simp

lemma halves: "uint (drop_bit 64 (a::u128) AND HP_MASK_LO) = uint a div 2 ^ 64"
proof -
  have "uint a < 2 ^ 64 * 2 ^ 64" using uint_lt2p [of a] by simp
  then have "uint a div 2 ^ 64 < 2 ^ 64" by (simp add: div_less_iff_less_mult)
  moreover have "0 \<le> uint a div 2 ^ 64" by (simp add: pos_imp_zdiv_nonneg_iff)
  ultimately show ?thesis unfolding mask64 shift64 by (rule mod_pos_pos_trivial [rotated])
qed

lemma words:
  "(x::u128) AND HP_MASK_LO = word_of_int (uint x mod 2 ^ 64)"
  "drop_bit 64 (x::u128) = word_of_int (uint x div 2 ^ 64)"
  by (metis mask64 word_of_int_uint) (metis shift64 word_of_int_uint)

lemma uint128_mult: "uint a * uint b < 2 ^ 128 \<Longrightarrow> uint (a * b :: u128) = uint a * uint b"
  by (simp add: uint_word_ariths)

lemma uint128_add: "uint a + uint b < 2 ^ 128 \<Longrightarrow> uint (a + b :: u128) = uint a + uint b"
  by (simp add: uint_word_ariths)

lemma split_product:
  fixes a b :: int
  assumes "al = a mod 2 ^ 64" and "ah = a div 2 ^ 64" and "bl = b mod 2 ^ 64" and "bh = b div 2 ^ 64"
  shows "a * b div 2 ^ 64 = al * bl div 2 ^ 64 + (al * bh + ah * bl) + 2 ^ 64 * (ah * bh)"
proof -
  have "a = al + 2 ^ 64 * ah" "b = bl + 2 ^ 64 * bh" by (simp_all add: assms)
  then have "a * b = al * bl + ((al * bh + ah * bl) + 2 ^ 64 * (ah * bh)) * 2 ^ 64"
    by (simp add: algebra_simps)
  moreover have nz: "(2::int) ^ 64 \<noteq> 0" by simp
  ultimately have "a * b div 2 ^ 64 = (al * bh + ah * bl) + 2 ^ 64 * (ah * bh) + al * bl div 2 ^ 64"
    by (simp only: div_mult_self1 [OF nz])
  then show ?thesis by (simp only: add.commute add.left_commute)
qed

lemma product_bound:
  fixes x y :: int
  assumes "0 \<le> x" "x \<le> n" "0 \<le> y" "y < m"
  shows "x * y \<le> n * m - n"
proof -
  have "x * y \<le> n * (m - 1)" using assms by (intro mult_mono) auto
  then show ?thesis by (simp add: algebra_simps)
qed

lemma high_wraps: "(word_of_int (2 ^ 64 * (h mod 2 ^ 64)) :: u128) = word_of_int (2 ^ 64 * h)"
proof -
  have "2 ^ 64 * (h mod 2 ^ 64) = (2 ^ 64 * h) mod 2 ^ 128" by (simp add: mult_mod_right)
  then have "take_bit 128 (2 ^ 64 * (h mod 2 ^ 64)) = take_bit 128 (2 ^ 64 * h)"
    by (simp only: take_bit_eq_mod mod_mod_trivial)
  then show ?thesis by (simp only: word_of_int_eq_iff) simp
qed

lemma Umul_exact:
  assumes a: "uint a \<le> 2 ^ 127" and b: "uint b \<le> 2 ^ 127"
  shows "int64x64_Umul a b = Some (word_of_int (uint a * uint b div 2 ^ 64))"
proof -
  define al ah bl bh where d: "al = uint a mod 2 ^ 64" "ah = uint a div 2 ^ 64"
    "bl = uint b mod 2 ^ 64" "bh = uint b div 2 ^ 64"
  let ?aL = "a AND HP_MASK_LO" and ?bL = "b AND HP_MASK_LO"
  let ?aH = "drop_bit 64 a AND HP_MASK_LO" and ?bH = "drop_bit 64 b AND HP_MASK_LO"
  have u: "uint ?aL = al" "uint ?bL = bl" "uint ?aH = ah" "uint ?bH = bh"
    unfolding halves d by (rule mask64)+ simp_all
  have r: "0 \<le> al" "al < 2 ^ 64" "0 \<le> bl" "bl < 2 ^ 64" "0 \<le> ah" "0 \<le> bh"
    unfolding d by (simp_all add: pos_imp_zdiv_nonneg_iff)
  have h: "ah \<le> 2 ^ 63" "bh \<le> 2 ^ 63" 
    using zdiv_mono1 [OF a, of "2 ^ 64"] zdiv_mono1 [OF b, of "2 ^ 64"] by (simp_all add: d)
  have p: "al * bl \<le> 2 ^ 128 - 2 ^ 64" "al * bh \<le> 2 ^ 127 - 2 ^ 63" "ah * bl \<le> 2 ^ 127 - 2 ^ 63"
    "ah * bh \<le> 2 ^ 126"
    using product_bound [of al "2 ^ 64" bl "2 ^ 64"] product_bound [of bh "2 ^ 63" al "2 ^ 64"]
      product_bound [of ah "2 ^ 63" bl "2 ^ 64"] mult_mono [of ah "2 ^ 63" bh "2 ^ 63"] r h
    by (simp_all add: mult.commute)
  have lo: "uint (?aL * ?bL) = al * bl" using uint128_mult [of ?aL ?bL] p by (simp add: u)
  have mids: "uint (?aL * ?bH) = al * bh" "uint (?aH * ?bL) = ah * bl"
    using uint128_mult [of ?aL ?bH] uint128_mult [of ?aH ?bL] p by (simp_all add: u)
  have mid: "uint (?aL * ?bH + ?aH * ?bL) = al * bh + ah * bl"
    using uint128_add [of "?aL * ?bH" "?aH * ?bL"] p by (simp add: mids)
  have hi: "uint (?aH * ?bH) = ah * bh" using uint128_mult [of ?aH ?bH] p by (simp add: u)
  define lo' mid' hi' where w: "lo' = ?aL * ?bL" "mid' = ?aL * ?bH + ?aH * ?bL" "hi' = ?aH * ?bH"
  have "int64x64_Umul a b = Some (drop_bit 64 lo' + (mid' AND HP_MASK_LO) +
      push_bit 64 (drop_bit 64 mid' + (hi' AND HP_MASK_LO)))"
    by (simp add: int64x64_Umul_def HP_MASK_HI_def w Let_def)
  also have "\<dots> = Some (word_of_int (uint lo' div 2 ^ 64 + uint mid' mod 2 ^ 64 +
      2 ^ 64 * (uint mid' div 2 ^ 64) + 2 ^ 64 * (uint hi' mod 2 ^ 64)))"
    by (simp only: words push_bit_eq_mult of_int_add of_int_mult) (simp add: algebra_simps)
  also have "\<dots> = Some (word_of_int (uint lo' div 2 ^ 64 + uint mid' + 2 ^ 64 * uint hi'))"
  proof -
    have "(word_of_int (2 ^ 64 * (uint hi' mod 2 ^ 64)) :: u128) = word_of_int (2 ^ 64 * uint hi')"
      by (rule high_wraps)
    moreover have "uint mid' mod 2 ^ 64 + 2 ^ 64 * (uint mid' div 2 ^ 64) = uint mid'" by simp
    ultimately show ?thesis by (simp only: of_int_add add.assoc)
  qed
  also have "uint lo' div 2 ^ 64 + uint mid' + 2 ^ 64 * uint hi' = uint a * uint b div 2 ^ 64"
    using split_product [OF d] lo mid hi by (simp add: w)
  finally show ?thesis .
qed

lemma magnitude:
  fixes x :: u128
  shows "uint (if negative128 x then - x else x) = \<bar>sint x\<bar>" and "\<bar>sint x\<bar> \<le> 2 ^ 127"
proof -
  have s: "- (2 ^ 127) \<le> sint x" "sint x < 2 ^ 127"
    using sint_ge [of x] sint_lt [of x] by simp_all
  then show "\<bar>sint x\<bar> \<le> 2 ^ 127" by linarith
  have u: "uint (word_of_int k :: u128) = k" if "0 \<le> k" "k \<le> 2 ^ 127" for k
    using that by (simp add: uint_word_of_int)
  have "uint (- x) = - sint x" if "sint x < 0"
    using u [of "- sint x"] s that by simp
  moreover have "uint x = sint x" if "\<not> sint x < 0"
    using u [of "sint x"] s that by simp
  ultimately show "uint (if negative128 x then - x else x) = \<bar>sint x\<bar>"
    by (simp add: negative128_def)
qed

text \<open>
  Property C40: the fixed-point product never aborts. The overflow test ANDs the high part with
  \<open>HP_MASK_HI\<close>, which is zero, so what the operation returns for any two operands is
  the exact product of the two signed numbers, truncated towards zero to 64 fractional bits,
  modulo 2^128: an overflow wraps silently.
\<close>

theorem int64x64_mul_exact:
  "int64x64_Mul x y = Some (word_of_int (tdiv (sint x * sint y) (2 ^ 64)))"
proof -
  let ?a = "if negative128 x then - x else x" and ?b = "if negative128 y then - y else y"
  let ?r = "\<bar>sint x\<bar> * \<bar>sint y\<bar> div 2 ^ 64"
  have "int64x64_Umul ?a ?b = Some (word_of_int ?r)"
    using Umul_exact [of ?a ?b] magnitude [of x] magnitude [of y] by simp
  then have "int64x64_Mul x y =
      Some (if negative128 x \<noteq> negative128 y then - word_of_int ?r else word_of_int ?r)"
    by (simp only: int64x64_Mul_def output_sign_def Let_def prod.case option.map)
  also have "\<dots> = Some (word_of_int (tdiv (sint x * sint y) (2 ^ 64)))"
    by (auto simp: tdiv_def abs_mult negative128_def sgn_if mult_less_0_iff zero_less_mult_iff)
  finally show ?thesis .
qed

end
