(* ===== verification/Aodv_State.thy ===== *)
theory Aodv_State
  imports Aodv_Packet Id_Cache Rtable Rqueue Neighbor Fixed_Time
begin

text \<open>
  The state of one AODV node: the members of \<open>RoutingProtocol\<close>
  (src/aodv/model/aodv-routing-protocol.h), its attributes with their defaults, the events it
  has scheduled with the simulator, and the record of what it sent and delivered. Handlers
  take the state and return it, in the option monad.
\<close>

section \<open>Attributes\<close>

record AodvParams =
  m_rreqRetries :: u32
  m_ttlStart :: u16
  m_ttlIncrement :: u16
  m_ttlThreshold :: u16
  m_timeoutBuffer :: u16
  m_rreqRateLimit :: u16
  m_rerrRateLimit :: u16
  m_activeRouteTimeout :: time
  m_netDiameter :: u32
  m_nodeTraversalTime :: time
  m_netTraversalTime :: time
  m_pathDiscoveryTime :: time
  m_myRouteTimeout :: time
  m_helloInterval :: time
  m_allowedHelloLoss :: u32
  m_deletePeriod :: time
  m_nextHopWait :: time
  m_blackListTimeout :: time
  m_maxQueueLen :: u32
  m_maxQueueTime :: time
  m_destinationOnly :: bool
  m_gratuitousReply :: bool
  m_enableHello :: bool
  m_enableBroadcast :: bool

text \<open>The attack and detection attributes this fork adds.\<close>

record WormParams =
  IsMalicious :: bool
  EnableWrmAttack :: bool
  FirstEndOfWormTunnel :: ip
  SecondEndOfWormTunnel :: ip
  FirstEndWifiWormTunnel :: ip
  SecondEndWifiWormTunnel :: ip
  m_enableRttWormholeDetect :: bool
  m_enableSecondProbeVerification :: bool
  m_wormholeMu :: double
  m_wormholePd :: time
  m_wormholeCtrlPacketBytes :: u32
  m_wormholeLinkRateBps :: double
  m_wormholeCpuProcessBase :: time

text \<open>The values of \<open>GetTypeId\<close>, which are installed when the object is created.\<close>

definition AodvParams_default :: AodvParams where
  "AodvParams_default =
     \<lparr>m_rreqRetries = 2, m_ttlStart = 1, m_ttlIncrement = 2, m_ttlThreshold = 7,
      m_timeoutBuffer = 2, m_rreqRateLimit = 10, m_rerrRateLimit = 10,
      m_activeRouteTimeout = Seconds_int 3, m_netDiameter = 35,
      m_nodeTraversalTime = MilliSeconds 40, m_netTraversalTime = MilliSeconds 2800,
      m_pathDiscoveryTime = MilliSeconds 5600, m_myRouteTimeout = MilliSeconds 11200,
      m_helloInterval = Seconds_int 1, m_allowedHelloLoss = 2, m_deletePeriod = Seconds_int 15,
      m_nextHopWait = MilliSeconds 50, m_blackListTimeout = MilliSeconds 5600,
      m_maxQueueLen = 64, m_maxQueueTime = Seconds_int 30, m_destinationOnly = False,
      m_gratuitousReply = True, m_enableHello = True, m_enableBroadcast = True\<rparr>"

definition WormParams_default :: WormParams where
  "WormParams_default =
     \<lparr>IsMalicious = False, EnableWrmAttack = False,
      FirstEndOfWormTunnel = 0x0a010201, SecondEndOfWormTunnel = 0x0a010202,
      FirstEndWifiWormTunnel = 0x0a000125, SecondEndWifiWormTunnel = 0x0a000126,
      m_enableRttWormholeDetect = True, m_enableSecondProbeVerification = True,
      m_wormholeMu = 5 / 2, m_wormholePd = MilliSeconds 1, m_wormholeCtrlPacketBytes = 64,
      m_wormholeLinkRateBps = 11000000, m_wormholeCpuProcessBase = MilliSeconds 1\<rparr>"

section \<open>State\<close>

text \<open>
  A socket is its pointer value, which orders the socket maps; creating one takes the pointer
  from the environment. A wormhole probe is keyed by its origin and destination, compared in
  that order.
\<close>

type_synonym sock = nat

datatype effect =
  SocketSendTo sock packet ip
| UnicastForward callback Ipv4Route packet Ipv4Header
| LocalDeliver callback packet Ipv4Header int
| ErrorNotify callback packet Ipv4Header
| SocketCreate sock dev ip bool
| SocketClose sock
| MacTraceConnect dev
| MacTraceDisconnect dev

datatype pending =
  PendingSendTo sock packet ip
| PendingSendRequest ip
| PendingStart

datatype probe_key = ProbeKey (pk_origin: ip) (pk_dst: ip)

text \<open>\<open>WormholeProbeKey::operator<\<close>, the order of the map of pending probes.\<close>

definition WormholeProbeKey_less :: "probe_key \<Rightarrow> probe_key \<Rightarrow> bool" where
  "WormholeProbeKey_less a b \<longleftrightarrow>
     (if pk_origin a \<noteq> pk_origin b then pk_origin a < pk_origin b else pk_dst a < pk_dst b)"

instantiation probe_key :: linorder
begin

definition less_probe_key :: "probe_key \<Rightarrow> probe_key \<Rightarrow> bool" where
  "less_probe_key = WormholeProbeKey_less"

definition less_eq_probe_key :: "probe_key \<Rightarrow> probe_key \<Rightarrow> bool" where
  "less_eq_probe_key a b \<longleftrightarrow> a = b \<or> a < b"

instance
proof
  fix a b c :: probe_key
  show "(a < b) = (a \<le> b \<and> \<not> b \<le> a)"
    by (cases a; cases b) (auto simp: less_probe_key_def WormholeProbeKey_less_def less_eq_probe_key_def split: if_splits)
  show "a \<le> a" by (simp add: less_eq_probe_key_def)
  show "a \<le> b \<Longrightarrow> b \<le> c \<Longrightarrow> a \<le> c"
    by (cases a; cases b; cases c)
      (auto simp: less_probe_key_def WormholeProbeKey_less_def less_eq_probe_key_def split: if_splits)
  show "a \<le> b \<Longrightarrow> b \<le> a \<Longrightarrow> a = b"
    by (cases a; cases b) (auto simp: less_probe_key_def WormholeProbeKey_less_def less_eq_probe_key_def split: if_splits)
  show "a \<le> b \<or> b \<le> a"
    by (cases a; cases b) (auto simp: less_probe_key_def WormholeProbeKey_less_def less_eq_probe_key_def)
qed

end

text \<open>
  What the node finds around it: the ARP caches by identity, the draws of the uniform random
  variable (\<open>draws n lo hi\<close> is the n-th call), the value \<open>GetTtl\<close> returns for a tag that was
  never read (its member is not initialised), the result of a signed 32-bit subtraction that
  overflows (undefined behaviour), which devices are Wi-Fi devices and with what MAC, and the
  strength of the end-system model of the IP layer.
\<close>

datatype WifiKind = NotWifi | WifiWithoutMac | OtherMac | AdhocMac

record AodvEnv =
  env_arps :: "nat \<Rightarrow> ArpCache"
  env_draws :: "nat \<Rightarrow> u32 \<Rightarrow> u32 \<Rightarrow> u32"
  env_uninitTtl :: u8
  env_overflow :: "int \<Rightarrow> int \<Rightarrow> int"
  env_wifi :: "dev \<Rightarrow> WifiKind"
  env_weakEsModel :: bool

record aodv =
  m_par :: AodvParams
  m_wrm :: WormParams
  m_env :: AodvEnv
  m_now :: time
  m_drawn :: nat
  m_pending :: "(time \<times> pending) list"
  m_out :: "effect list"
  closed_sockets :: "sock list"
  m_ipv4 :: "Ipv4 option"
  m_lo :: "dev option"
  m_socketAddresses :: "(sock \<times> Ipv4InterfaceAddress) list"
  m_socketSubnetBroadcastAddresses :: "(sock \<times> Ipv4InterfaceAddress) list"
  m_routingTable :: RoutingTable
  m_queue :: RequestQueue
  m_requestId :: u32
  m_seqNo :: u32
  m_rreqIdCache :: IdCache
  m_dpd :: IdCache
  m_nb :: Neighbors
  m_rreqCount :: u16
  m_rerrCount :: u16
  m_htimer :: timer
  m_rreqRateLimitTimer :: timer
  m_rerrRateLimitTimer :: timer
  m_addressReqTimer :: "(ip \<times> timer) list"
  m_lastBcastTime :: time
  m_rttProbeStartTime :: "(probe_key \<times> time) list"
  m_neighborEstimatedRtt :: "(ip \<times> time) list"
  m_neighborEstimatedVar :: "(ip \<times> time) list"
  m_suspectUntil :: "(ip \<times> time) list"
  m_detectedWormholePeers :: "(ip \<times> unit) list"
  m_underVerification :: "(ip \<times> time) list"
  m_verificationProbeStartTime :: "(probe_key \<times> time) list"
  m_verificationFailureCount :: "(ip \<times> u32) list"

text \<open>
  The constructor, after the attributes have been installed: the members built from other
  members use the values of the initialiser list, not the attributes, and only the queue is
  told of a changed attribute (its setter runs).
\<close>

definition RoutingProtocol_make :: "AodvParams \<Rightarrow> WormParams \<Rightarrow> AodvEnv \<Rightarrow> time \<Rightarrow> aodv" where
  "RoutingProtocol_make p w e t =
     \<lparr>m_par = p, m_wrm = w, m_env = e, m_now = t, m_drawn = 0, m_pending = [], m_out = [], closed_sockets = [],
      m_ipv4 = None, m_lo = None, m_socketAddresses = [], m_socketSubnetBroadcastAddresses = [],
      m_routingTable = RoutingTable_make (Seconds_int 15),
      m_queue = RequestQueue_make (m_maxQueueLen p) (m_maxQueueTime p),
      m_requestId = 0, m_seqNo = 0,
      m_rreqIdCache = IdCache_make (MilliSeconds 5600), m_dpd = IdCache_make (MilliSeconds 5600),
      m_nb = Neighbors_SetCallback (Neighbors_make (Seconds_int 1)),
      m_rreqCount = 0, m_rerrCount = 0, m_htimer = None, m_rreqRateLimitTimer = None,
      m_rerrRateLimitTimer = None, m_addressReqTimer = [], m_lastBcastTime = 0,
      m_rttProbeStartTime = [], m_neighborEstimatedRtt = [], m_neighborEstimatedVar = [],
      m_suspectUntil = [], m_detectedWormholePeers = [], m_underVerification = [],
      m_verificationProbeStartTime = [], m_verificationFailureCount = []\<rparr>"

definition RoutingProtocol_SetMaxQueueLen :: "u32 \<Rightarrow> aodv \<Rightarrow> aodv" where
  "RoutingProtocol_SetMaxQueueLen len s =
     s\<lparr>m_par := (m_par s)\<lparr>m_maxQueueLen := len\<rparr>, m_queue := RequestQueue_SetMaxQueueLen len (m_queue s)\<rparr>"

definition RoutingProtocol_SetMaxQueueTime :: "time \<Rightarrow> aodv \<Rightarrow> aodv" where
  "RoutingProtocol_SetMaxQueueTime t s =
     s\<lparr>m_par := (m_par s)\<lparr>m_maxQueueTime := t\<rparr>, m_queue := RequestQueue_SetQueueTimeout t (m_queue s)\<rparr>"

section \<open>A sample node\<close>

text \<open>
  A node with the default attributes and one Wi-Fi interface, 10.0.0.1/24, besides the loopback
  interface; the witnesses of the properties start from it.
\<close>

definition env0 :: AodvEnv where
  "env0 = \<lparr>env_arps = ArpCache_default, env_draws = (\<lambda>n lo hi. lo), env_uninitTtl = 0,
     env_overflow = (\<lambda>a b. a - b), env_wifi = (\<lambda>d. AdhocMac), env_weakEsModel = True\<rparr>"

definition iface0 :: Ipv4InterfaceAddress where
  "iface0 = Ipv4InterfaceAddress_make 0x0a000001 0xffffff00"

definition node0 :: aodv where
  "node0 = (RoutingProtocol_make AodvParams_default WormParams_default env0 0)
     \<lparr>m_ipv4 := Some
        [\<lparr>if_dev = 0, if_addrs = [Ipv4InterfaceAddress_make 0x7f000001 0xff000000], if_up = True,
          if_forwarding = True, if_arp = None\<rparr>,
         \<lparr>if_dev = 1, if_addrs = [iface0], if_up = True, if_forwarding = True, if_arp = Some 0\<rparr>],
      m_lo := Some 0, m_socketAddresses := [(1, iface0)],
      m_socketSubnetBroadcastAddresses := [(2, iface0)]\<rparr>"

lemma node0_simps [simp]:
  "m_par node0 = AodvParams_default" "m_wrm node0 = WormParams_default" "m_env node0 = env0"
  "m_now node0 = 0" "m_socketAddresses node0 = [(1, iface0)]" "m_addressReqTimer node0 = []"
  "m_routingTable node0 = RoutingTable_make (Seconds_int 15)" "m_pending node0 = []"
  "m_rreqCount node0 = 0" "m_rerrCount node0 = 0" "m_seqNo node0 = 0" "m_requestId node0 = 0"
  "m_rttProbeStartTime node0 = []" "m_underVerification node0 = []" "m_suspectUntil node0 = []"
  "m_neighborEstimatedRtt node0 = []" "m_neighborEstimatedVar node0 = []" "closed_sockets node0 = []"
  "m_detectedWormholePeers node0 = []" "m_verificationProbeStartTime node0 = []"
  "m_verificationFailureCount node0 = []" "m_drawn node0 = 0" "m_out node0 = []"
  "m_queue node0 = RequestQueue_make 64 (Seconds_int 30)" "m_lo node0 = Some 0"
  by (simp_all add: node0_def RoutingProtocol_make_def AodvParams_default_def)

end
