(* ===== verification/Aodv_Route.thy ===== *)
theory Aodv_Route
  imports Aodv_State
begin

text \<open>
  The routing protocol's use of its table: own addresses and sockets, \<open>UpdateRouteLifeTime\<close>,
  \<open>UpdateRouteToNeighbor\<close>, \<open>LoopbackRoute\<close> and \<open>RouteOutput\<close>, and the sending of a control
  packet through a UDP socket, which re-enters \<open>RouteOutput\<close> for a unicast destination.
\<close>

section \<open>Table access at the node's time\<close>

definition lookupRoute :: "ip \<Rightarrow> RoutingTableEntry \<Rightarrow> aodv \<Rightarrow> bool \<times> RoutingTableEntry \<times> aodv" where
  "lookupRoute a rt s =
     (let (b, rt, t) = RoutingTable_LookupRoute (m_now s) a rt (m_routingTable s) in
      (b, rt, s\<lparr>m_routingTable := t\<rparr>))"

definition lookupValidRoute ::
    "ip \<Rightarrow> RoutingTableEntry \<Rightarrow> aodv \<Rightarrow> bool \<times> RoutingTableEntry \<times> aodv" where
  "lookupValidRoute a rt s =
     (let (b, rt, t) = RoutingTable_LookupValidRoute (m_now s) a rt (m_routingTable s) in
      (b, rt, s\<lparr>m_routingTable := t\<rparr>))"

definition addRoute :: "RoutingTableEntry \<Rightarrow> aodv \<Rightarrow> aodv" where
  "addRoute rt s = s\<lparr>m_routingTable := snd (RoutingTable_AddRoute (m_now s) rt (m_routingTable s))\<rparr>"

definition updateRoute :: "RoutingTableEntry \<Rightarrow> aodv \<Rightarrow> aodv" where
  "updateRoute rt s = s\<lparr>m_routingTable := snd (RoutingTable_Update rt (m_routingTable s))\<rparr>"

definition deleteRoute :: "ip \<Rightarrow> aodv \<Rightarrow> aodv" where
  "deleteRoute a s = s\<lparr>m_routingTable := snd (RoutingTable_DeleteRoute (m_now s) a (m_routingTable s))\<rparr>"

abbreviation newRt :: "aodv \<Rightarrow> RoutingTableEntry" where
  "newRt s \<equiv> RoutingTableEntry_default (m_now s)"

section \<open>Addresses and sockets\<close>

definition IsMyOwnAddress :: "ip \<Rightarrow> aodv \<Rightarrow> bool" where
  "IsMyOwnAddress src s = list_ex (\<lambda>(k, iface). src = ia_local iface) (m_socketAddresses s)"

definition FindSocketWithInterfaceAddress :: "Ipv4InterfaceAddress \<Rightarrow> aodv \<Rightarrow> sock option" where
  "FindSocketWithInterfaceAddress addr s =
     map_option fst (find (\<lambda>(k, iface). iface = addr) (m_socketAddresses s))"

definition FindSubnetBroadcastSocketWithInterfaceAddress ::
    "Ipv4InterfaceAddress \<Rightarrow> aodv \<Rightarrow> sock option" where
  "FindSubnetBroadcastSocketWithInterfaceAddress addr s =
     map_option fst (find (\<lambda>(k, iface). iface = addr) (m_socketSubnetBroadcastAddresses s))"

text \<open>Where a broadcast for an interface goes: all hosts on a /32, the subnet otherwise.\<close>

definition bcast_destination :: "Ipv4InterfaceAddress \<Rightarrow> ip" where
  "bcast_destination iface =
     (if ia_mask iface = Ipv4Mask_GetOnes then Ipv4Address_GetBroadcast else ia_broadcast iface)"

text \<open>The device and the interface address that go with one of the node's addresses.\<close>

definition deviceFor :: "ip \<Rightarrow> aodv \<Rightarrow> dev option" where
  "deviceFor receiver s =
     do { v \<leftarrow> m_ipv4 s; Ipv4_GetNetDevice v (Ipv4_GetInterfaceForAddress v receiver) }"

definition ifaceFor :: "ip \<Rightarrow> aodv \<Rightarrow> Ipv4InterfaceAddress option" where
  "ifaceFor receiver s =
     do { v \<leftarrow> m_ipv4 s; Ipv4_GetAddress v (Ipv4_GetInterfaceForAddress v receiver) 0 }"

section \<open>Route lifetimes\<close>

definition UpdateRouteLifeTime :: "ip \<Rightarrow> time \<Rightarrow> aodv \<Rightarrow> bool \<times> aodv" where
  "UpdateRouteLifeTime addr lifetime s =
     (let (found, rt, s) = lookupRoute addr (newRt s) s in
      if found \<and> e_flag rt = VALID then
        let rt = Entry_SetRreqCnt 0 rt;
            rt = Entry_SetLifeTime (m_now s) (max lifetime (Entry_GetLifeTime (m_now s) rt)) rt
        in (True, updateRoute rt s)
      else (False, s))"

text \<open>
  When the known route is already a one-hop route with a valid sequence number over the same
  device, the new lifetime is set on the local copy only: the code does not write it back.
\<close>

definition UpdateRouteToNeighbor :: "ip \<Rightarrow> ip \<Rightarrow> aodv \<Rightarrow> aodv option" where
  "UpdateRouteToNeighbor sender receiver s =
     (let (found, toNeighbor, s) = lookupRoute sender (newRt s) s in
      do {
        d \<leftarrow> deviceFor receiver s;
        if \<not> found then do {
          iface \<leftarrow> ifaceFor receiver s;
          Some (addRoute (RoutingTableEntry_make (m_now s) (Some d) sender False 0 iface 1 sender
                  (m_activeRouteTimeout (m_par s))) s)
        }
        else if e_validSeqNo toNeighbor \<and> e_hops toNeighbor = 1 \<and>
                Entry_GetOutputDevice toNeighbor = Some d then
          Some s
        else do {
          iface \<leftarrow> ifaceFor receiver s;
          Some (updateRoute (RoutingTableEntry_make (m_now s) (Some d) sender False 0 iface 1 sender
                  (max (m_activeRouteTimeout (m_par s)) (Entry_GetLifeTime (m_now s) toNeighbor))) s)
        }
      })"

section \<open>RouteOutput\<close>

text \<open>
  The loop of \<open>LoopbackRoute\<close> over the sockets when the caller fixed the device: the first
  address on that device, \<open>None\<close> inside when there is none. An address without an interface
  makes \<open>GetNetDevice\<close> dereference a null pointer.
\<close>

fun loopback_source ::
    "Ipv4 \<Rightarrow> dev \<Rightarrow> (sock \<times> Ipv4InterfaceAddress) list \<Rightarrow> ip option option" where
  "loopback_source v oif [] = Some None"
| "loopback_source v oif ((k, iface) # js) =
     do {
       d \<leftarrow> Ipv4_GetNetDevice v (Ipv4_GetInterfaceForAddress v (ia_local iface));
       if oif = d then Some (Some (ia_local iface)) else loopback_source v oif js
     }"

definition LoopbackRoute :: "Ipv4Header \<Rightarrow> dev option \<Rightarrow> aodv \<Rightarrow> Ipv4Route option" where
  "LoopbackRoute hdr oif s =
     do {
       lo \<leftarrow> m_lo s;
       let rt = Ipv4Route_default\<lparr>rt_dest := ih_dst hdr\<rparr>;
       rt \<leftarrow> (case oif of
           Some d \<Rightarrow> do {
             v \<leftarrow> m_ipv4 s;
             src \<leftarrow> loopback_source v d (m_socketAddresses s);
             Some (case src of None \<Rightarrow> rt | Some a \<Rightarrow> rt\<lparr>rt_source := a\<rparr>)
           }
         | None \<Rightarrow> (case m_socketAddresses s of
               [] \<Rightarrow> None
             | (k, iface) # js \<Rightarrow> Some (rt\<lparr>rt_source := ia_local iface\<rparr>)));
       ensure (rt_source rt \<noteq> Ipv4Address_default);
       Some (rt\<lparr>rt_gateway := Ipv4Address_GetLoopback, rt_dev := Some lo\<rparr>)
     }"

datatype SocketErrno = ERROR_NOTERROR | ERROR_NOROUTETOHOST

text \<open>
  \<open>RouteOutput\<close> returns the route or none, the errno (\<open>None\<close>: not written), the packet, to
  which it may add the deferral tag, and the state.
\<close>

definition RouteOutput ::
    "packet option \<Rightarrow> Ipv4Header \<Rightarrow> dev option \<Rightarrow> aodv \<Rightarrow>
     (Ipv4Route option \<times> SocketErrno option \<times> packet option \<times> aodv) option" where
  "RouteOutput p header oif s =
     (case p of
        None \<Rightarrow> do { r \<leftarrow> LoopbackRoute header oif s; Some (Some r, None, None, s) }
      | Some pk \<Rightarrow>
          if m_socketAddresses s = [] then Some (None, Some ERROR_NOROUTETOHOST, p, s)
          else
            let dst = ih_dst header;
                (found, rt, s) = lookupValidRoute dst (newRt s) s
            in if found then
                 let route = e_route rt in
                 if oif \<noteq> None \<and> rt_dev route \<noteq> oif
                 then Some (None, Some ERROR_NOROUTETOHOST, p, s)
                 else
                   let s = snd (UpdateRouteLifeTime dst (m_activeRouteTimeout (m_par s)) s);
                       s = snd (UpdateRouteLifeTime (rt_gateway route)
                                  (m_activeRouteTimeout (m_par s)) s)
                   in Some (Some route, Some ERROR_NOTERROR, p, s)
               else do {
                 iif \<leftarrow> (case oif of
                     None \<Rightarrow> Some (-1)
                   | Some d \<Rightarrow> map_option (\<lambda>v. Ipv4_GetInterfaceForDevice v (Some d)) (m_ipv4 s));
                 let pk = (if p_oif pk = None then pk\<lparr>p_oif := Some iif\<rparr> else pk);
                 r \<leftarrow> LoopbackRoute header oif s;
                 Some (Some r, Some ERROR_NOTERROR, Some pk, s)
               })"

section \<open>Sending through a socket\<close>

text \<open>
  \<open>Socket::SendTo\<close> on one of the node's UDP sockets, as far as it comes back to AODV
  (src/internet/model/udp-socket-impl.cc and ipv4-l3-protocol.cc, \<open>Send\<close>): a closed socket
  refuses; a limited or subnet-directed broadcast is sent on the interface at once; for any
  other destination the IP layer asks this protocol for a route.
\<close>

definition Ipv4_IsSubnetBroadcast :: "Ipv4 \<Rightarrow> ip \<Rightarrow> bool" where
  "Ipv4_IsSubnetBroadcast v a =
     list_ex (\<lambda>f. list_ex (\<lambda>ia.
         Ipv4Address_IsSubnetDirectedBroadcast a (ia_mask ia) \<and>
         Ipv4Address_CombineMask a (ia_mask ia) =
           Ipv4Address_CombineMask (ia_local ia) (ia_mask ia)) (if_addrs f)) v"

definition Socket_SendTo :: "sock \<Rightarrow> packet \<Rightarrow> ip \<Rightarrow> aodv \<Rightarrow> aodv option" where
  "Socket_SendTo k p dst s =
     (if k \<in> set (closed_sockets s) then Some s
      else do {
        v \<leftarrow> m_ipv4 s;
        let s = s\<lparr>m_out := m_out s @ [SocketSendTo k p dst]\<rparr>;
        if Ipv4Address_IsBroadcast dst \<or> Ipv4Address_IsLocalMulticast dst \<or> Ipv4_IsSubnetBroadcast v dst
        then Some s
        else do {
          (r, e, p', s) \<leftarrow> RouteOutput (Some p) (Ipv4Header_default\<lparr>ih_dst := dst\<rparr>) None s;
          Some s
        }
      })"

text \<open>The protocol's own \<open>SendTo\<close>, run by the simulator after a jitter.\<close>

definition RoutingProtocol_SendTo :: "sock \<Rightarrow> packet \<Rightarrow> ip \<Rightarrow> aodv \<Rightarrow> aodv option" where
  "RoutingProtocol_SendTo k p dst s = Socket_SendTo k p dst s"

definition GetInteger :: "u32 \<Rightarrow> u32 \<Rightarrow> aodv \<Rightarrow> u32 \<times> aodv" where
  "GetInteger lo hi s = (env_draws (m_env s) (m_drawn s) lo hi, s\<lparr>m_drawn := m_drawn s + 1\<rparr>)"

definition Simulator_Schedule :: "time \<Rightarrow> pending \<Rightarrow> aodv \<Rightarrow> aodv" where
  "Simulator_Schedule delay ev s = s\<lparr>m_pending := m_pending s @ [(m_now s + delay, ev)]\<rparr>"

definition ScheduleSendTo :: "sock \<Rightarrow> packet \<Rightarrow> ip \<Rightarrow> aodv \<Rightarrow> aodv" where
  "ScheduleSendTo k p dst s =
     (let (j, s) = GetInteger 0 10 s in
      Simulator_Schedule (MilliSeconds (uint j)) (PendingSendTo k p dst) s)"

text \<open>
  A control packet as every sender builds it: a new packet with the TTL tag, the message
  header in front, the type header before it.
\<close>

definition control_packet :: "u8 \<Rightarrow> nat \<Rightarrow> u8 list \<Rightarrow> MessageType \<Rightarrow> packet option" where
  "control_packet ttl sz bytes t =
     do {
       let p = Packet_Create\<lparr>p_ttl := Some ttl\<rparr>;
       p \<leftarrow> Packet_AddHeader sz bytes p;
       Packet_AddHeader TypeHeader_GetSerializedSize (TypeHeader_Serialize (TypeHeader_make t)) p
     }"

section \<open>Round trips\<close>

text \<open>A packet that parses as a message of type t with the header h and no payload.\<close>

definition received_as ::
    "(u8 list \<Rightarrow> ('h \<times> u8 list) option) \<Rightarrow> MessageType \<Rightarrow> 'h \<Rightarrow> packet option \<Rightarrow> bool" where
  "received_as des t h p \<longleftrightarrow>
     do {
       p \<leftarrow> p;
       (th, p) \<leftarrow> Packet_RemoveHeader (TypeHeader_Deserialize AODVTYPE_RREQ) p;
       (h', p) \<leftarrow> Packet_RemoveHeader des p;
       Some (th, h', p_bytes p)
     } = Some (TypeHeader_make t, h, [])"

lemma received_as_codec:
  assumes "length (ser h) = sz" and "\<And>rest. des (ser h @ rest) = Some (h, rest)"
  shows "received_as des t h (control_packet ttl sz (ser h) t)"
  using assms(1) assms(2) [of "[]"] type_codec.enc_length [of "TypeHeader_make t"]
    type_codec.dec_enc [of "TypeHeader_make t" AODVTYPE_RREQ "ser h"]
  by (simp add: received_as_def control_packet_def Packet_AddHeader_def Packet_RemoveHeader_def
      Packet_Create_def TypeHeader_make_def)

text \<open>
  Property C38: every control message the node builds is read back as it was built, message type
  and all, with nothing left over: the serialised size each header announces is what it writes.
\<close>

theorem control_messages_roundtrip:
  assumes "rerr_valid e"
  shows "received_as RreqHeader_Deserialize AODVTYPE_RREQ q
        (control_packet ttl RreqHeader_GetSerializedSize (RreqHeader_Serialize q) AODVTYPE_RREQ) \<and>
    received_as RrepHeader_Deserialize AODVTYPE_RREP p
        (control_packet ttl RrepHeader_GetSerializedSize (RrepHeader_Serialize p) AODVTYPE_RREP) \<and>
    received_as RrepAckHeader_Deserialize AODVTYPE_RREP_ACK a
        (control_packet ttl RrepAckHeader_GetSerializedSize (RrepAckHeader_Serialize a)
          AODVTYPE_RREP_ACK) \<and>
    received_as RerrHeader_Deserialize AODVTYPE_RERR e
        (control_packet ttl (RerrHeader_GetSerializedSize e) (RerrHeader_Serialize e) AODVTYPE_RERR)"
  using assms
  by (auto simp: rerr_valid_def intro!: received_as_codec RerrHeader_Serialize_length
      rreq_codec.enc_length rrep_codec.enc_length rrep_ack_codec.enc_length
      rreq_codec.dec_enc rrep_codec.dec_enc rrep_ack_codec.dec_enc rerr_codec.dec_enc)

theorem control_messages_roundtrip_witness:
  "received_as RerrHeader_Deserialize AODVTYPE_RERR
     \<lparr>re_flag = 0, re_reserved = 0, re_unreachable = [(7, 1), (9, 5)]\<rparr>
     (control_packet 1 19 (RerrHeader_Serialize
        \<lparr>re_flag = 0, re_reserved = 0, re_unreachable = [(7, 1), (9, 5)]\<rparr>) AODVTYPE_RERR)"
  using control_messages_roundtrip
    [of "\<lparr>re_flag = 0, re_reserved = 0, re_unreachable = [(7, 1), (9, 5)]\<rparr>"
      RreqHeader_default 1 "RrepHeader_make 0 0 7 1 9 0" RrepAckHeader_make]
  by (simp add: rerr_valid_def smap_def RerrHeader_GetSerializedSize_def RerrHeader_GetDestCount_def)

section \<open>The table of a node\<close>

abbreviation routes :: "aodv \<Rightarrow> ip \<rightharpoonup> RoutingTableEntry" where
  "routes s \<equiv> map_of (rt_entries (m_routingTable s))"

text \<open>What the node still has after its table is purged now.\<close>

abbreviation live_routes :: "aodv \<Rightarrow> ip \<rightharpoonup> RoutingTableEntry" where
  "live_routes s \<equiv> map_of (rt_entries (RoutingTable_Purge (m_now s) (m_routingTable s)))"

lemma lookupRoute_eq:
  "lookupRoute a rt s =
     (case live_routes s a of
        None \<Rightarrow> (False, rt, s\<lparr>m_routingTable := RoutingTable_Purge (m_now s) (m_routingTable s)\<rparr>)
      | Some e \<Rightarrow> (True, e, s\<lparr>m_routingTable := RoutingTable_Purge (m_now s) (m_routingTable s)\<rparr>))"
  by (simp add: lookupRoute_def rstore.lookup_spec split: option.splits)

lemma lookupValidRoute_eq:
  "lookupValidRoute a rt s =
     (case live_routes s a of
        None \<Rightarrow> (False, rt, s\<lparr>m_routingTable := RoutingTable_Purge (m_now s) (m_routingTable s)\<rparr>)
      | Some e \<Rightarrow> (e_flag e = VALID, e, s\<lparr>m_routingTable := RoutingTable_Purge (m_now s) (m_routingTable s)\<rparr>))"
  by (simp add: lookupValidRoute_def RoutingTable_LookupValidRoute_def rstore.lookup_spec
      split: option.splits)

lemma updateRoute_routes:
  "routes (updateRoute e s) =
     (if routes s (Entry_GetDestination e) = None then routes s
      else (routes s)(Entry_GetDestination e \<mapsto> clear_count e))"
  using rstore.upd_spec [of e "m_routingTable s"]
  by (cases "RoutingTable_Update e (m_routingTable s)") (auto simp: updateRoute_def)

lemma addRoute_routes:
  "routes (addRoute e s) =
     (if live_routes s (Entry_GetDestination e) = None
      then (live_routes s)(Entry_GetDestination e \<mapsto> clear_count e) else live_routes s)"
  using rstore.add_spec [of "m_now s" e "m_routingTable s"]
  by (cases "RoutingTable_AddRoute (m_now s) e (m_routingTable s)") (auto simp: addRoute_def)

lemma routes_state_simps [simp]:
  "m_now (updateRoute e s) = m_now s" "m_par (updateRoute e s) = m_par s"
  "m_now (addRoute e s) = m_now s" "m_par (addRoute e s) = m_par s"
  "m_wrm (updateRoute e s) = m_wrm s" "m_wrm (addRoute e s) = m_wrm s"
  "m_socketAddresses (updateRoute e s) = m_socketAddresses s"
  "m_socketAddresses (addRoute e s) = m_socketAddresses s"
  by (simp_all add: updateRoute_def addRoute_def)

text \<open>A purged table stays as it is for the rest of the handler.\<close>

lemma live_routes_dest:
  "rt_wf (m_routingTable s) \<Longrightarrow> live_routes s k = Some e \<Longrightarrow> Entry_GetDestination e = k"
  using rt_wf_dest rt_wf_Purge by blast

lemma table_update_simps [simp]:
  "deviceFor a (s\<lparr>m_routingTable := t\<rparr>) = deviceFor a s"
  "ifaceFor a (s\<lparr>m_routingTable := t\<rparr>) = ifaceFor a s"
  "IsMyOwnAddress a (s\<lparr>m_routingTable := t\<rparr>) = IsMyOwnAddress a s"
  "FindSocketWithInterfaceAddress f (s\<lparr>m_routingTable := t\<rparr>) = FindSocketWithInterfaceAddress f s"
  by (simp_all add: deviceFor_def ifaceFor_def IsMyOwnAddress_def
      FindSocketWithInterfaceAddress_def)

lemma LoopbackRoute_table [simp]:
  "LoopbackRoute h oif (s\<lparr>m_routingTable := t\<rparr>) = LoopbackRoute h oif s"
  by (cases oif) (simp_all add: LoopbackRoute_def Let_def)

lemma LoopbackRoute_Some:
  "LoopbackRoute h oif s = Some r \<Longrightarrow> rt_dest r = ih_dst h \<and> rt_source r \<noteq> Ipv4Address_default \<and>
     rt_gateway r = Ipv4Address_GetLoopback \<and> rt_dev r = m_lo s"
  by (auto simp: LoopbackRoute_def Let_def elim!: bind_Some_elim
      split: option.splits list.splits prod.splits)

text \<open>A refreshed entry.\<close>

definition refreshed :: "time \<Rightarrow> RoutingTableEntry \<Rightarrow> RoutingTableEntry" where
  "refreshed expiry e = e\<lparr>e_lifeTime := max (e_lifeTime e) expiry, e_reqCount := 0\<rparr>"

lemma UpdateRouteLifeTime_routes:
  assumes "rt_wf (m_routingTable s)" and "UpdateRouteLifeTime a life s = (b, s')"
  shows "routes s' = (case live_routes s a of
        Some e \<Rightarrow> if e_flag e = VALID then (live_routes s)(a \<mapsto> refreshed (m_now s + life) e)
                 else live_routes s
      | None \<Rightarrow> live_routes s)"
    and "b \<longleftrightarrow> (\<exists>e. live_routes s a = Some e \<and> e_flag e = VALID)"
    and "s' = s\<lparr>m_routingTable := m_routingTable s'\<rparr>"
proof -
  have d: "Entry_GetDestination e = a" if "live_routes s a = Some e" for e
    using live_routes_dest [OF assms(1) that] .
  let ?e = "\<lambda>e. Entry_SetLifeTime (m_now s) (max life (Entry_GetLifeTime (m_now s) (Entry_SetRreqCnt 0 e)))
                 (Entry_SetRreqCnt 0 e)"
  have r: "clear_count (?e e) = refreshed (m_now s + life) e" if "e_flag e = VALID" for e
    using that by (simp add: clear_count_def Entry_SetLifeTime_def Entry_GetLifeTime_def
        Entry_SetRreqCnt_def refreshed_def max_def add.commute)
  show "routes s' = (case live_routes s a of
        Some e \<Rightarrow> if e_flag e = VALID then (live_routes s)(a \<mapsto> refreshed (m_now s + life) e)
                 else live_routes s
      | None \<Rightarrow> live_routes s)"
    using assms(2) d r
    by (auto simp: UpdateRouteLifeTime_def lookupRoute_eq Let_def updateRoute_routes fun_eq_iff
        split: option.splits if_splits)
  show "b \<longleftrightarrow> (\<exists>e. live_routes s a = Some e \<and> e_flag e = VALID)"
    using assms(2)
    by (auto simp: UpdateRouteLifeTime_def lookupRoute_eq Let_def split: option.splits if_splits)
  show "s' = s\<lparr>m_routingTable := m_routingTable s'\<rparr>"
    using assms(2)
    by (auto simp: UpdateRouteLifeTime_def lookupRoute_eq Let_def updateRoute_def split: option.splits if_splits)
qed


lemma UpdateRouteLifeTime_state [simp]:
  "m_now (snd (UpdateRouteLifeTime a life s)) = m_now s"
  "m_par (snd (UpdateRouteLifeTime a life s)) = m_par s"
  "m_wrm (snd (UpdateRouteLifeTime a life s)) = m_wrm s"
  "m_env (snd (UpdateRouteLifeTime a life s)) = m_env s"
  "m_nb (snd (UpdateRouteLifeTime a life s)) = m_nb s"
  "m_out (snd (UpdateRouteLifeTime a life s)) = m_out s"
  by (simp_all add: UpdateRouteLifeTime_def lookupRoute_eq Let_def updateRoute_def split: option.splits)

lemma UpdateRouteLifeTime_wf:
  "rt_wf (m_routingTable s) \<Longrightarrow> rt_wf (m_routingTable (snd (UpdateRouteLifeTime a life s)))"
  by (auto simp: UpdateRouteLifeTime_def lookupRoute_eq Let_def updateRoute_def
      intro!: rt_wf_Update rt_wf_Purge split: option.splits)

text \<open>
  Refreshing a route touches no other route, works on valid routes only, and never
  shortens a lifetime: the expiry becomes the later of the old one and now plus the new lifetime.
\<close>

theorem update_lifetime_extends_only:
  assumes "rt_wf (m_routingTable s)" and "UpdateRouteLifeTime a life s = (b, s')"
    and "live_routes s k = Some e"
  shows "case routes s' k of
      None \<Rightarrow> False
    | Some e' \<Rightarrow> e_lifeTime e \<le> e_lifeTime e' \<and> e_flag e' = e_flag e \<and> e_seqNo e' = e_seqNo e \<and>
        e_route e' = e_route e \<and>
        (if k = a \<and> e_flag e = VALID then b \<and> e_lifeTime e' = max (e_lifeTime e) (m_now s + life)
         else e' = e)"
proof -
  note r = UpdateRouteLifeTime_routes(1,2) [OF assms(1,2)]
  show ?thesis
  proof (cases "k = a \<and> e_flag e = VALID")
    case True
    then have "routes s' k = Some (refreshed (m_now s + life) e)" "b" using r assms(3) by auto
    then show ?thesis using True by (simp add: refreshed_def)
  next
    case False
    then have "routes s' k = Some e" using r(1) assms(3) by (auto split: option.splits)
    then show ?thesis using False by auto
  qed
qed

abbreviation node_with_route :: "RoutingTableEntry \<Rightarrow> aodv" where
  "node_with_route e \<equiv> node0\<lparr>m_routingTable :=
     \<lparr>rt_entries = [(Entry_GetDestination e, e)], rt_badLinkLifetime = 15\<rparr>\<rparr>"

lemmas sample_simps = rt_wf_def smap_def RoutingTable_Purge_def purge_entry_def Entry_GetLifeTime_def
  RoutingTableEntry_make_def Entry_GetDestination_def

theorem update_lifetime_extends_only_witness:
  "case routes (snd (UpdateRouteLifeTime 9 300 (node_with_route sample_entry))) 9 of
     None \<Rightarrow> False | Some e' \<Rightarrow> e_lifeTime e' = 300"
  using update_lifetime_extends_only [of "node_with_route sample_entry" 9 300
      "fst (UpdateRouteLifeTime 9 300 (node_with_route sample_entry))"
      "snd (UpdateRouteLifeTime 9 300 (node_with_route sample_entry))" 9 sample_entry]
  by (simp add: sample_simps split: option.splits)

text \<open>
  Hearing from a neighbour the node has a valid one-hop route to does not keep
  that route alive. The longer lifetime is set on a local copy, so the route expires at the old
  time however often the neighbour is heard.
\<close>

theorem neighbor_refresh_lost:
  assumes "rt_wf (m_routingTable s)" and "live_routes s sender = Some e"
    and "e_validSeqNo e" and "e_hops e = 1" and "deviceFor receiver s = Some d"
    and "Entry_GetOutputDevice e = Some d"
    and "UpdateRouteToNeighbor sender receiver s = Some s'" and "e_lifeTime e < later"
  shows "routes s' sender = Some e \<and>
    \<not> fst (RoutingTable_LookupValidRoute later sender rt (m_routingTable s'))"
proof -
  have s': "s' = s\<lparr>m_routingTable := RoutingTable_Purge (m_now s) (m_routingTable s)\<rparr>"
    using assms(2-7) by (simp add: UpdateRouteToNeighbor_def lookupRoute_eq)
  then have r: "routes s' sender = Some e" using assms(2) by simp
  have w: "rt_wf (m_routingTable s')" using assms(1) s' by (simp add: rt_wf_Purge)
  have "e_flag x \<noteq> VALID" if "purge_entry later bad e = Some x" for x bad
    using that assms(8) by (auto simp: purge_entry_def Entry_GetLifeTime_def Entry_Invalidate_def split: if_splits)
  then have "\<not> fst (RoutingTable_LookupValidRoute later sender rt (m_routingTable s'))"
    using rstore.view_purge [OF w, of later sender] r
    by (auto simp: RoutingTable_LookupValidRoute_def rstore.lookup_spec split: option.splits prod.splits)
  with r show ?thesis by simp
qed

abbreviation neighbor_entry :: RoutingTableEntry where
  "neighbor_entry \<equiv> RoutingTableEntry_make 0 (Some 1) 9 True 5 iface0 1 9 100"

theorem neighbor_refresh_lost_witness:
  "let s = node_with_route neighbor_entry; s' = the (UpdateRouteToNeighbor 9 0x0a000001 s)
   in \<not> fst (RoutingTable_LookupValidRoute 101 9 neighbor_entry (m_routingTable s'))"
proof -
  let ?s = "node_with_route neighbor_entry"
  let ?s' = "?s\<lparr>m_routingTable := RoutingTable_Purge 0 (m_routingTable ?s)\<rparr>"
  have d: "deviceFor 0x0a000001 ?s = Some 1"
    by (simp add: deviceFor_def node0_def Ipv4_GetInterfaceForAddress_def Ipv4_GetNetDevice_def
        Ipv4_GetInterface_def iface0_def Ipv4InterfaceAddress_make_def)
  have l: "live_routes ?s 9 = Some neighbor_entry" by (simp add: sample_simps)
  have e: "e_validSeqNo neighbor_entry" "e_hops neighbor_entry = 1"
    "Entry_GetOutputDevice neighbor_entry = Some 1" "e_lifeTime neighbor_entry < 101"
    by (simp_all add: RoutingTableEntry_make_def Entry_GetOutputDevice_def)
  have u: "UpdateRouteToNeighbor 9 0x0a000001 ?s = Some ?s'"
    using d l e by (simp add: UpdateRouteToNeighbor_def lookupRoute_eq)
  have w: "rt_wf (m_routingTable ?s)" by (simp add: sample_simps)
  show ?thesis
    using neighbor_refresh_lost [OF w l e(1,2) d e(3) u e(4)] u by simp
qed

lemma UpdateRouteLifeTime_valid:
  assumes "rt_wf (m_routingTable s)" and "live_routes s k = Some e" and "e_flag e = VALID"
  shows "\<exists>e'. routes (snd (UpdateRouteLifeTime a life s)) k = Some e' \<and>
      live_routes (snd (UpdateRouteLifeTime a life s)) k = Some e' \<and>
      e_flag e' = VALID \<and> e_route e' = e_route e \<and> e_lifeTime e \<le> e_lifeTime e' \<and>
      (k = a \<longrightarrow> m_now s + life \<le> e_lifeTime e')"
proof -
  let ?s' = "snd (UpdateRouteLifeTime a life s)"
  let ?e = "if k = a then refreshed (m_now s + life) e else e"
  have live: "m_now s \<le> e_lifeTime e"
    using assms rstore.view_purge [OF assms(1), of "m_now s" k] rstore.keep_live
    by (auto simp: bind_eq_Some_conv)
  have r: "routes ?s' k = Some ?e"
    using UpdateRouteLifeTime_routes(1) [OF assms(1) prod.collapse [symmetric], of a life] assms(2,3)
    by (auto split: option.splits)
  have now: "m_now ?s' = m_now s"
    by simp
  have "m_now s \<le> e_lifeTime ?e" using live by (auto simp: refreshed_def le_max_iff_disj)
  then have "live_routes ?s' k = Some ?e"
    using rstore.view_purge [OF UpdateRouteLifeTime_wf [OF assms(1)]] r rstore.keep_fresh
    by (simp add: now)
  with r assms(3) show ?thesis by (auto simp: refreshed_def)
qed

text \<open>
  Property C37: \<open>RouteOutput\<close> hands out either an unexpired valid route of the table, whose
  lifetime it extends by the active route timeout, over the requested device; or, only when the
  table has no valid route, the loopback route that defers the packet, which is then tagged.
\<close>

theorem route_output_sound:
  assumes "rt_wf (m_routingTable s)"
    and "RouteOutput (Some p) h oif s = Some (Some r, err, p', s')"
  shows "if \<exists>e. live_routes s (ih_dst h) = Some e \<and> e_flag e = VALID
    then (\<exists>e e'. live_routes s (ih_dst h) = Some e \<and> routes s' (ih_dst h) = Some e' \<and> r = e_route e \<and>
        e_flag e' = VALID \<and> m_now s + m_activeRouteTimeout (m_par s) \<le> e_lifeTime e' \<and>
        (oif = None \<or> rt_dev r = oif))
    else rt_gateway r = Ipv4Address_GetLoopback \<and> rt_dev r = m_lo s \<and> rt_dest r = ih_dst h \<and>
      routes s' = live_routes s \<and> (\<exists>q. p' = Some q \<and> p_oif q \<noteq> None \<and> p_bytes q = p_bytes p)"
proof -
  let ?s1 = "s\<lparr>m_routingTable := RoutingTable_Purge (m_now s) (m_routingTable s)\<rparr>"
  let ?dst = "ih_dst h" and ?active = "m_activeRouteTimeout (m_par s)"
  have w: "rt_wf (m_routingTable ?s1)" using assms(1) by (simp add: rt_wf_Purge)
  have sa: "m_socketAddresses s \<noteq> []" using assms(2) by (auto simp: RouteOutput_def)
  show ?thesis
  proof (cases "\<exists>e. live_routes s ?dst = Some e \<and> e_flag e = VALID")
    case True
    then obtain e where e: "live_routes s ?dst = Some e" "e_flag e = VALID" by blast
    have live: "m_now s \<le> e_lifeTime e"
      using e rstore.view_purge [OF assms(1), of "m_now s" ?dst] rstore.keep_live
      by (auto simp: bind_eq_Some_conv)
    have e1: "live_routes ?s1 ?dst = Some e"
      using rstore.view_purge [OF w, of "m_now s" ?dst] rstore.keep_fresh [OF live] e by simp
    let ?s2 = "snd (UpdateRouteLifeTime ?dst ?active ?s1)"
    obtain e2 where e2: "live_routes ?s2 ?dst = Some e2" "e_flag e2 = VALID" "e_route e2 = e_route e"
      "m_now s + ?active \<le> e_lifeTime e2"
      using UpdateRouteLifeTime_valid [OF w e1 e(2), of ?dst ?active] by auto
    let ?s3 = "snd (UpdateRouteLifeTime (rt_gateway (e_route e)) ?active ?s2)"
    obtain e3 where e3: "routes ?s3 ?dst = Some e3" "e_flag e3 = VALID" "e_lifeTime e2 \<le> e_lifeTime e3"
      using UpdateRouteLifeTime_valid [OF UpdateRouteLifeTime_wf [OF w] e2(1,2)] by blast
    have "r = e_route e" "s' = ?s3" "oif = None \<or> rt_dev r = oif"
      using assms(2) sa e
      by (auto simp: RouteOutput_def lookupValidRoute_eq Let_def split: if_splits)
    with True e e2 e3 show ?thesis by (auto intro: order_trans)
  next
    case False
    then show ?thesis
      using assms(2) sa
      by (auto simp: RouteOutput_def lookupValidRoute_eq Let_def
          elim!: bind_Some_elim dest!: LoopbackRoute_Some split: if_splits option.splits)
  qed
qed

theorem route_output_sound_witness:
  "\<exists>e'. routes (snd (snd (snd (the (RouteOutput (Some Packet_Create) (Ipv4Header_default\<lparr>ih_dst := 9\<rparr>) None
      (node_with_route neighbor_entry)))))) 9 = Some e' \<and> 3000000000 \<le> e_lifeTime e'"
proof -
  let ?s = "node_with_route neighbor_entry"
  let ?h = "Ipv4Header_default\<lparr>ih_dst := 9\<rparr>"
  have w: "rt_wf (m_routingTable ?s)" by (simp add: sample_simps)
  have l: "live_routes ?s 9 = Some neighbor_entry" "e_flag neighbor_entry = VALID"
    by (simp_all add: sample_simps)
  obtain s' where r: "RouteOutput (Some Packet_Create) ?h None ?s =
      Some (Some (e_route neighbor_entry), Some ERROR_NOTERROR, Some Packet_Create, s')"
    using l by (simp add: RouteOutput_def lookupValidRoute_eq Let_def)
  from route_output_sound [OF w r] l r show ?thesis
    by (auto simp: AodvParams_default_def Seconds_int_def)
qed

end
