(* ===== verification/Aodv_Rerr.thy ===== *)
theory Aodv_Rerr
  imports Aodv_Route
begin

text \<open>
  Route errors: \<open>SendRerrMessage\<close> with its rate limit, the reaction to a broken link and to a
  packet without a route, and the reception of a RERR. The neighbour table reports broken links
  here, so its operations are completed here with their callback.
\<close>

section \<open>SendRerrMessage\<close>

text \<open>The interfaces over which a precursor with a valid route is reached, each once.\<close>

fun precursor_ifaces ::
    "ip list \<Rightarrow> Ipv4InterfaceAddress list \<Rightarrow> aodv \<Rightarrow> Ipv4InterfaceAddress list \<times> aodv" where
  "precursor_ifaces [] ifaces s = (ifaces, s)"
| "precursor_ifaces (i # is) ifaces s =
     (let (valid, toPrecursor, s) = lookupValidRoute i (newRt s) s in
      if valid \<and> e_iface toPrecursor \<notin> set ifaces
      then precursor_ifaces is (ifaces @ [e_iface toPrecursor]) s
      else precursor_ifaces is ifaces s)"

definition SendRerrMessage :: "packet \<Rightarrow> ip list \<Rightarrow> aodv \<Rightarrow> aodv option" where
  "SendRerrMessage pk precursors s =
     (if precursors = [] then Some s
      else if m_rerrCount s = m_rerrRateLimit (m_par s) then do {
        ensure (m_rerrRateLimitTimer s \<noteq> None);
        Some s
      }
      else case precursors of
        [front] \<Rightarrow>
          let (valid, toPrecursor, s) = lookupValidRoute front (newRt s) s in
          if valid then do {
            k \<leftarrow> FindSocketWithInterfaceAddress (e_iface toPrecursor) s;
            let s = ScheduleSendTo k pk front s;
            Some (s\<lparr>m_rerrCount := m_rerrCount s + 1\<rparr>)
          }
          else Some s
      | _ \<Rightarrow>
          let (ifaces, s) = precursor_ifaces precursors [] s in
          fold_opt (\<lambda>iface s. do {
            k \<leftarrow> FindSocketWithInterfaceAddress iface s;
            Some (ScheduleSendTo k pk (bcast_destination iface) s)
          }) ifaces s)"

definition send_rerr :: "RerrHeader \<Rightarrow> ip list \<Rightarrow> aodv \<Rightarrow> aodv option" where
  "send_rerr h precursors s =
     do {
       p \<leftarrow> control_packet 1 (RerrHeader_GetSerializedSize h) (RerrHeader_Serialize h) AODVTYPE_RERR;
       SendRerrMessage p precursors s
     }"

text \<open>
  The loop that fills a RERR and collects the precursors. When \<open>AddUnDestination\<close> refuses, the
  header so far is sent and cleared and the same destination is tried again.
\<close>

function rerr_collect ::
    "(ip \<times> u32) list \<Rightarrow> RerrHeader \<Rightarrow> ip list \<Rightarrow> aodv \<Rightarrow> (RerrHeader \<times> ip list \<times> aodv) option" where
  "rerr_collect [] h precursors s = Some (h, precursors, s)"
| "rerr_collect ((a, n) # m) h precursors s =
     (case RerrHeader_AddUnDestination a n h of
        None \<Rightarrow> None
      | Some (added, h') \<Rightarrow>
          if \<not> added then
            (case send_rerr h' precursors s of
               None \<Rightarrow> None
             | Some s \<Rightarrow> rerr_collect ((a, n) # m) (RerrHeader_Clear h') precursors s)
          else
            let (found, toDst, s) = lookupRoute a (newRt s) s in
            rerr_collect m h' (Entry_GetPrecursors precursors toDst) s)"
  by pat_completeness auto
termination
  by (relation "measure (\<lambda>(m, h, p, s). length m)") (auto dest: RerrHeader_Add_True)

definition SendRerrWhenBreaksLinkToNextHop :: "ip \<Rightarrow> aodv \<Rightarrow> aodv option" where
  "SendRerrWhenBreaksLinkToNextHop nextHop s =
     (let (found, toNextHop, s) = lookupRoute nextHop (newRt s) s in
      if \<not> found then Some s
      else
        let precursors = Entry_GetPrecursors [] toNextHop in
        do {
          (_, h) \<leftarrow> RerrHeader_AddUnDestination nextHop (e_seqNo toNextHop) RerrHeader_make;
          let (unreachable, t) = RoutingTable_GetListOfDestinationWithNextHop (m_now s) nextHop
                                   (m_routingTable s);
          let s = s\<lparr>m_routingTable := t\<rparr>;
          (h, precursors, s) \<leftarrow> rerr_collect unreachable h precursors s;
          s \<leftarrow> (if RerrHeader_GetDestCount h \<noteq> 0 then send_rerr h precursors s else Some s);
          let unreachable = map_insert nextHop (e_seqNo toNextHop) unreachable;
          Some (s\<lparr>m_routingTable :=
                   RoutingTable_InvalidateRoutesWithDst (m_now s) unreachable (m_routingTable s)\<rparr>)
        })"

definition SendRerrWhenNoRouteToForward :: "ip \<Rightarrow> u32 \<Rightarrow> ip \<Rightarrow> aodv \<Rightarrow> aodv option" where
  "SendRerrWhenNoRouteToForward dst dstSeqNo origin s =
     (if m_rerrCount s = m_rerrRateLimit (m_par s) then do {
        ensure (m_rerrRateLimitTimer s \<noteq> None);
        Some s
      }
      else do {
        (_, h) \<leftarrow> RerrHeader_AddUnDestination dst dstSeqNo RerrHeader_make;
        p \<leftarrow> control_packet 1 (RerrHeader_GetSerializedSize h) (RerrHeader_Serialize h) AODVTYPE_RERR;
        let (valid, toOrigin, s) = lookupValidRoute origin (newRt s) s;
        if valid then do {
          k \<leftarrow> FindSocketWithInterfaceAddress (e_iface toOrigin) s;
          Socket_SendTo k p (Entry_GetNextHop toOrigin) s
        }
        else fold_opt (\<lambda>(k, iface) s. Socket_SendTo k p (bcast_destination iface) s)
               (m_socketAddresses s) s
      })"

section \<open>RecvError\<close>

text \<open>
  The loop that drains the received RERR, keeping the destinations this node reaches through
  the sender.
\<close>

function rerr_drain ::
    "RerrHeader \<Rightarrow> (ip \<times> u32) list \<Rightarrow> (ip \<times> u32) list \<Rightarrow> RerrHeader \<times> (ip \<times> u32) list" where
  "rerr_drain h through unreachable =
     (case RerrHeader_RemoveUnDestination h of
        None \<Rightarrow> (h, unreachable)
      | Some ((a, n), h) \<Rightarrow>
          rerr_drain h through
            (if list_ex (\<lambda>(j, x). j = a) through then map_insert a n unreachable else unreachable))"
  by auto
termination
  by (relation "measure (\<lambda>(h, d, u). length (re_unreachable h))")
    (auto simp: RerrHeader_RemoveUnDestination_def split: list.splits)

declare rerr_drain.simps [simp del]

definition RecvError :: "packet \<Rightarrow> ip \<Rightarrow> aodv \<Rightarrow> aodv option" where
  "RecvError p src s =
     do {
       (h, p) \<leftarrow> Packet_RemoveHeader RerrHeader_Deserialize p;
       let (through, t) = RoutingTable_GetListOfDestinationWithNextHop (m_now s) src
                            (m_routingTable s);
       let s = s\<lparr>m_routingTable := t\<rparr>;
       let (h, unreachable) = rerr_drain h through [];
       (h, precursors, s) \<leftarrow> rerr_collect unreachable h [] s;
       s \<leftarrow> (if RerrHeader_GetDestCount h \<noteq> 0 then send_rerr h precursors s else Some s);
       Some (s\<lparr>m_routingTable :=
                RoutingTable_InvalidateRoutesWithDst (m_now s) unreachable (m_routingTable s)\<rparr>)
     }"

section \<open>The neighbour table with its callback\<close>

definition link_failures :: "ip list \<times> Neighbors \<Rightarrow> aodv \<Rightarrow> aodv option" where
  "link_failures r s =
     map_option (\<lambda>s. s\<lparr>m_nb := snd r\<rparr>) (fold_opt SendRerrWhenBreaksLinkToNextHop (fst r) s)"

definition nbUpdate :: "ip \<Rightarrow> time \<Rightarrow> aodv \<Rightarrow> aodv option" where
  "nbUpdate a expire s =
     do {
       r \<leftarrow> Neighbors_Update (m_now s) (env_arps (m_env s)) a expire (m_nb s);
       link_failures r s
     }"

text \<open>\<open>NotifyTxError\<close>: the Wi-Fi MAC reports the receiver address of a frame it gave up.\<close>

definition NotifyTxError :: "mac \<Rightarrow> aodv \<Rightarrow> aodv option" where
  "NotifyTxError addr1 s = link_failures (Neighbors_ProcessTxError (m_now s) addr1 (m_nb s)) s"

definition NeighborTimerExpire :: "aodv \<Rightarrow> aodv option" where
  "NeighborTimerExpire s = link_failures (Neighbors_TimerExpire (m_now s) (m_nb s)) s"

section \<open>Rate limit timers\<close>

definition RreqRateLimitTimerExpire :: "aodv \<Rightarrow> aodv option" where
  "RreqRateLimitTimerExpire s =
     do {
       let s = s\<lparr>m_rreqCount := 0\<rparr>;
       t \<leftarrow> Timer_Schedule (m_now s) (Seconds_int 1) (m_rreqRateLimitTimer s);
       Some (s\<lparr>m_rreqRateLimitTimer := t\<rparr>)
     }"

definition RerrRateLimitTimerExpire :: "aodv \<Rightarrow> aodv option" where
  "RerrRateLimitTimerExpire s =
     do {
       let s = s\<lparr>m_rerrCount := 0\<rparr>;
       t \<leftarrow> Timer_Schedule (m_now s) (Seconds_int 1) (m_rerrRateLimitTimer s);
       Some (s\<lparr>m_rerrRateLimitTimer := t\<rparr>)
     }"

text \<open>\<open>AckTimerExpire\<close>; nothing schedules it, because \<open>m_ackTimer\<close> is never started.\<close>

definition AckTimerExpire :: "ip \<Rightarrow> time \<Rightarrow> aodv \<Rightarrow> aodv" where
  "AckTimerExpire neighbor blacklistTimeout s =
     s\<lparr>m_routingTable :=
         snd (RoutingTable_MarkLinkAsUnidirectional neighbor blacklistTimeout (m_routingTable s))\<rparr>"

end
