(* ===== verification/Rerr_Invariants.thy ===== *)
theory Rerr_Invariants
  imports Aodv_Rerr
begin

text \<open>
  What route lookups, sending and route errors can change. Three contracts, each extending the
  one before: a predicate that survives the purge of the table and the count of route errors
  survives every handler of route errors up to the invalidation at its end; one that also
  survives changes of entries survives these handlers whole; one that survives the log of
  effects survives the sending of packets. The first gives the exact effect of a broken link
  and of a received route error on the table, the others keep what is sent and the neighbour
  table out of their reach.
\<close>

section \<open>Lookups and route errors\<close>

locale purge_invariant =
  fixes I :: "aodv \<Rightarrow> bool"
  assumes sched_I: "I s \<Longrightarrow> I (s\<lparr>m_pending := ps\<rparr>)"
    and drawn_I: "I s \<Longrightarrow> I (s\<lparr>m_drawn := n\<rparr>)"
    and purge_I: "I s \<Longrightarrow> I (s\<lparr>m_routingTable := RoutingTable_Purge (m_now s) (m_routingTable s)\<rparr>)"
    and rerr_count_I: "I s \<Longrightarrow> m_rerrCount s \<noteq> m_rerrRateLimit (m_par s) \<Longrightarrow>
      I (s\<lparr>m_rerrCount := m_rerrCount s + 1\<rparr>)"
begin

lemmas purge_intros [simp] = sched_I drawn_I purge_I rerr_count_I

text \<open>
  The lemmas on operations that return a state end in an implication, so that they can be
  applied forward in any order.
\<close>

lemma lookupRoute_I: "lookupRoute a rt s = (b, rt', s') \<Longrightarrow> I s \<longrightarrow> I s'"
  by (auto simp: lookupRoute_def RoutingTable_LookupRoute_def Let_def split: option.splits)

lemma lookupValidRoute_I: "lookupValidRoute a rt s = (b, rt', s') \<Longrightarrow> I s \<longrightarrow> I s'"
  by (auto simp: lookupValidRoute_def RoutingTable_LookupValidRoute_def
      RoutingTable_LookupRoute_def Let_def split: option.splits if_splits)

lemma lookupRoute_snd_I [simp]: "I s \<Longrightarrow> I (snd (snd (lookupRoute a rt s)))"
  by (metis lookupRoute_I prod.collapse)

lemma Simulator_Schedule_I [simp]: "I s \<Longrightarrow> I (Simulator_Schedule d ev s)"
  by (simp add: Simulator_Schedule_def)

lemma GetInteger_I: "GetInteger lo hi s = (j, s') \<Longrightarrow> I s \<longrightarrow> I s'"
  by (auto simp: GetInteger_def)

lemma ScheduleSendTo_I [simp]: "I s \<Longrightarrow> I (ScheduleSendTo k p a s)"
  by (auto simp: ScheduleSendTo_def Let_def dest!: GetInteger_I split: prod.splits)

lemma fold_opt_I:
  assumes "\<And>x s s'. f x s = Some s' \<Longrightarrow> I s \<longrightarrow> I s'"
  shows "fold_opt f xs s = Some s' \<Longrightarrow> I s \<longrightarrow> I s'"
  using fold_opt_inv [where P = I] assms by blast

lemma precursor_ifaces_I: "precursor_ifaces ps fs s = (fs', s') \<Longrightarrow> I s \<longrightarrow> I s'"
proof (induction ps fs s rule: precursor_ifaces.induct)
  case (2 i "is" ifaces s)
  obtain v rt s1 where l: "lookupValidRoute i (newRt s) s = (v, rt, s1)" by (metis prod_cases3)
  with 2 lookupValidRoute_I [OF l] show ?case by (auto split: if_splits)
qed simp

lemma rerr_unicast_I:
  assumes "lookupValidRoute front (newRt s) s = (True, rt, s1)"
    and "m_rerrCount s \<noteq> m_rerrRateLimit (m_par s)" and "I s"
  shows "I ((ScheduleSendTo k p a s1)\<lparr>m_rerrCount := m_rerrCount (ScheduleSendTo k p a s1) + 1\<rparr>)"
proof -
  have "m_rerrCount s1 = m_rerrCount s" "m_par s1 = m_par s"
    using assms(1) by (auto simp: lookupValidRoute_def Let_def split: prod.splits)
  moreover have "I s1" using lookupValidRoute_I [OF assms(1)] assms(3) by simp
  ultimately show ?thesis
    using assms(2) by (intro rerr_count_I ScheduleSendTo_I)
      (auto simp: ScheduleSendTo_def GetInteger_def Simulator_Schedule_def)
qed

lemma rerr_broadcast_I:
  "fold_opt (\<lambda>iface s. do {
       k \<leftarrow> FindSocketWithInterfaceAddress iface s;
       Some (ScheduleSendTo k p (bcast_destination iface) s)
     }) fs s = Some s' \<Longrightarrow> I s \<longrightarrow> I s'"
  by (rule fold_opt_I) (auto elim!: bind_Some_elim)

lemma SendRerrMessage_I: "SendRerrMessage p ps s = Some s' \<Longrightarrow> I s \<longrightarrow> I s'"
proof (intro impI)
  assume s: "SendRerrMessage p ps s = Some s'" and I: "I s"
  show "I s'"
  proof (cases "ps = [] \<or> m_rerrCount s = m_rerrRateLimit (m_par s)")
    case True
    with s I show ?thesis
      by (auto simp: SendRerrMessage_def elim!: bind_Some_elim split: if_splits)
  next
    case more: False
    then obtain a as where ps: "ps = a # as" by (cases ps) auto
    show ?thesis
    proof (cases as)
      case Nil
      obtain v rt s1 where l: "lookupValidRoute a (newRt s) s = (v, rt, s1)" by (metis prod_cases3)
      with s I more ps Nil lookupValidRoute_I [OF l] rerr_unicast_I [of a s rt s1] show ?thesis
        by (auto simp: SendRerrMessage_def Let_def elim!: bind_Some_elim split: if_splits)
    next
      case (Cons b bs)
      obtain fs s1 where p: "precursor_ifaces ps [] s = (fs, s1)" by fastforce
      with s I more ps Cons precursor_ifaces_I [OF p] show ?thesis
        by (auto simp: SendRerrMessage_def Let_def simp del: precursor_ifaces.simps
            dest!: rerr_broadcast_I)
    qed
  qed
qed

lemma send_rerr_I: "send_rerr h ps s = Some s' \<Longrightarrow> I s \<longrightarrow> I s'"
  by (auto simp: send_rerr_def elim!: bind_Some_elim dest!: SendRerrMessage_I)

lemma rerr_collect_I: "rerr_collect m h ps s = Some (h', ps', s') \<Longrightarrow> I s \<longrightarrow> I s'"
proof (induction m h ps s arbitrary: h' ps' s' rule: rerr_collect.induct)
  case (2 a n m h precursors s)
  from "2.prems" obtain h1 where add: "RerrHeader_AddUnDestination a n h = Some (True, h1)"
    by (auto split: option.splits prod.splits dest: RerrHeader_Add_True)
  obtain f rt s1 where l: "lookupRoute a (newRt s) s = (f, rt, s1)" by (metis prod_cases3)
  have "rerr_collect m h1 (Entry_GetPrecursors precursors rt) s1 = Some (h', ps', s')"
    using "2.prems" add l by simp
  with "2.IH"(2) [OF add] l lookupRoute_I [OF l] show ?case by auto
qed simp

end

section \<open>Changes of routes\<close>

locale route_invariant = purge_invariant +
  assumes add_I: "I s \<Longrightarrow> I (s\<lparr>m_routingTable := snd (RoutingTable_AddRoute (m_now s) rt (m_routingTable s))\<rparr>)"
    and update_I: "I s \<Longrightarrow> I (s\<lparr>m_routingTable := snd (RoutingTable_Update rt (m_routingTable s))\<rparr>)"
    and delete_I: "I s \<Longrightarrow> I (s\<lparr>m_routingTable := snd (RoutingTable_DeleteRoute (m_now s) a (m_routingTable s))\<rparr>)"
    and invalidate_I: "I s \<Longrightarrow>
      I (s\<lparr>m_routingTable := RoutingTable_InvalidateRoutesWithDst (m_now s) u (m_routingTable s)\<rparr>)"
begin

lemmas I_intros [simp] = add_I update_I delete_I invalidate_I

lemma addRoute_I [simp]: "I s \<Longrightarrow> I (addRoute rt s)"
  by (simp add: addRoute_def)

lemma updateRoute_I [simp]: "I s \<Longrightarrow> I (updateRoute rt s)"
  by (simp add: updateRoute_def)

lemma deleteRoute_I [simp]: "I s \<Longrightarrow> I (deleteRoute a s)"
  by (simp add: deleteRoute_def)

lemma UpdateRouteLifeTime_I [simp]: "I s \<Longrightarrow> I (snd (UpdateRouteLifeTime a t s))"
  by (auto simp: UpdateRouteLifeTime_def Let_def dest!: lookupRoute_I split: prod.splits)

lemma UpdateRouteToNeighbor_I: "UpdateRouteToNeighbor a r s = Some s' \<Longrightarrow> I s \<longrightarrow> I s'"
  by (auto simp: UpdateRouteToNeighbor_def Let_def elim!: bind_Some_elim dest!: lookupRoute_I
      split: prod.splits if_splits)

lemma RouteOutput_I: "RouteOutput p h oif s = Some (r, e, p', s') \<Longrightarrow> I s \<longrightarrow> I s'"
  by (auto simp: RouteOutput_def Let_def elim!: bind_Some_elim
      dest!: lookupValidRoute_I split: option.splits prod.splits if_splits)

lemma SendRerrWhenBreaksLinkToNextHop_I:
  "SendRerrWhenBreaksLinkToNextHop a s = Some s' \<Longrightarrow> I s \<longrightarrow> I s'"
  by (auto simp: SendRerrWhenBreaksLinkToNextHop_def Let_def
      RoutingTable_GetListOfDestinationWithNextHop_def elim!: bind_Some_elim
      dest!: lookupRoute_I rerr_collect_I send_rerr_I split: prod.splits if_splits)

lemma RecvError_I: "RecvError p a s = Some s' \<Longrightarrow> I s \<longrightarrow> I s'"
  by (auto simp: RecvError_def Let_def RoutingTable_GetListOfDestinationWithNextHop_def
      elim!: bind_Some_elim dest!: rerr_collect_I send_rerr_I split: prod.splits if_splits)

end

section \<open>What is sent\<close>

locale table_invariant = route_invariant +
  assumes log_I: "I s \<Longrightarrow> I (s\<lparr>m_out := o1\<rparr>)"
begin

lemmas log_intros [simp] = log_I

lemma Socket_SendTo_I: "Socket_SendTo k p a s = Some s' \<Longrightarrow> I s \<longrightarrow> I s'"
  by (auto simp: Socket_SendTo_def Let_def elim!: bind_Some_elim dest!: RouteOutput_I
      split: prod.splits if_splits)

lemma SendRerrWhenNoRouteToForward_I:
  "SendRerrWhenNoRouteToForward a n og s = Some s' \<Longrightarrow> I s \<longrightarrow> I s'"
proof -
  have "fold_opt (\<lambda>(k, iface) s. Socket_SendTo k p (bcast_destination iface) s) js s = Some s' \<Longrightarrow>
      I s \<longrightarrow> I s'" for p js s s'
    by (rule fold_opt_I) (auto dest!: Socket_SendTo_I)
  then show "SendRerrWhenNoRouteToForward a n og s = Some s' \<Longrightarrow> I s \<longrightarrow> I s'"
    by (auto simp: SendRerrWhenNoRouteToForward_def Let_def elim!: bind_Some_elim
        dest!: lookupValidRoute_I Socket_SendTo_I split: prod.splits if_splits)
qed

end

text \<open>Handlers of broken links and received errors only schedule what they send.\<close>

interpretation keeps_out: route_invariant "\<lambda>s. m_out s = out" for out
  by unfold_locales simp_all

text \<open>The neighbour table is out of their reach, as its callback requires.\<close>

interpretation keeps_nb: table_invariant "\<lambda>s. m_nb s = nb" for nb
  by unfold_locales simp_all

section \<open>The effect of route errors\<close>

text \<open>While a handler of route errors runs, the purged table stays as it is.\<close>

definition purged_at :: "time \<Rightarrow> RoutingTable \<Rightarrow> aodv \<Rightarrow> bool" where
  "purged_at n T s \<longleftrightarrow> m_now s = n \<and> m_routingTable s = T \<and> RoutingTable_Purge n T = T"

interpretation purged: purge_invariant "purged_at n T" for n T
  by unfold_locales (auto simp: purged_at_def)

lemma keys_map_insert: "fst ` set (map_insert k v m) = insert k (fst ` set m)"
  using map_of_eq_None_iff [of m k] by (auto simp: map_insert_def)

lemma rerr_drain_keys:
  "rerr_drain h through u = (h', u') \<Longrightarrow>
     fst ` set u' = fst ` set u \<union> (fst ` set (re_unreachable h) \<inter> fst ` set through)"
proof (induction h through u arbitrary: h' u' rule: rerr_drain.induct)
  case (1 h through unreachable)
  have through: "list_ex (\<lambda>(j, x). j = a) through \<longleftrightarrow> a \<in> fst ` set through" for a
    by (force simp: list_ex_iff)
  show ?case
  proof (cases "re_unreachable h")
    case Nil
    then have "rerr_drain h through unreachable = (h, unreachable)"
      by (simp add: rerr_drain.simps RerrHeader_RemoveUnDestination_def)
    with "1.prems" Nil show ?thesis by simp
  next
    case (Cons d m)
    obtain a n where d: "d = (a, n)" by (cases d)
    have rem: "RerrHeader_RemoveUnDestination h = Some ((a, n), h\<lparr>re_unreachable := m\<rparr>)"
      using Cons d by (simp add: RerrHeader_RemoveUnDestination_def)
    then have "rerr_drain (h\<lparr>re_unreachable := m\<rparr>) through
        (if a \<in> fst ` set through then map_insert a n unreachable else unreachable) = (h', u')"
      using "1.prems" by (simp add: rerr_drain.simps [of h] through split: if_splits)
    from "1.IH" [OF rem refl refl, unfolded through, OF this]
    show ?thesis using Cons d by (auto simp: keys_map_insert)
  qed
qed

lemma InvalidateRoutes_view:
  assumes "RoutingTable_Purge now t = t"
  shows "map_of (rt_entries (RoutingTable_InvalidateRoutesWithDst now u t)) k =
    map_option (\<lambda>e. if k \<in> fst ` set u \<and> e_flag e = VALID
      then Entry_Invalidate now (rt_badLinkLifetime t) e else e) (map_of (rt_entries t) k)"
proof -
  have "list_ex (\<lambda>(j, s). k = j) u \<longleftrightarrow> k \<in> fst ` set u" by (force simp: list_ex_iff)
  then show ?thesis by (simp add: RoutingTable_InvalidateRoutesWithDst_def assms)
qed

lemma GetList_view:
  assumes "rt_wf t" and "RoutingTable_GetListOfDestinationWithNextHop now a t = (u, t')"
  shows "t' = RoutingTable_Purge now t"
    and "k \<in> fst ` set u \<longleftrightarrow> (\<exists>e. map_of (rt_entries t') k = Some e \<and> Entry_GetNextHop e = a)"
proof -
  have "(map (\<lambda>(k, e). (k, e_seqNo e)) (filter (\<lambda>(k, e). Entry_GetNextHop e = a)
      (rt_entries (RoutingTable_Purge now t))), RoutingTable_Purge now t) = (u, t')"
    using assms(2) by (simp only: RoutingTable_GetListOfDestinationWithNextHop_def Let_def)
  then have t': "t' = RoutingTable_Purge now t"
    and u: "u = map (\<lambda>(k, e). (k, e_seqNo e)) (filter (\<lambda>(k, e). Entry_GetNextHop e = a) (rt_entries t'))"
    by auto
  have "smap (rt_entries t')" using rt_wf_Purge [OF assms(1)] by (simp add: t' rt_wf_def)
  then have "map_of (rt_entries t') k = Some e \<longleftrightarrow> (k, e) \<in> set (rt_entries t')" for e
    by (simp add: map_of_eq_Some_iff smap_distinct)
  with u show "k \<in> fst ` set u \<longleftrightarrow> (\<exists>e. map_of (rt_entries t') k = Some e \<and> Entry_GetNextHop e = a)"
    by force
  show "t' = RoutingTable_Purge now t" by (rule t')
qed

text \<open>The end both handlers share: collect the precursors, send, invalidate.\<close>

lemma rerr_tail:
  assumes "do {
      (h, ps, s) \<leftarrow> rerr_collect u h0 ps0 s;
      s \<leftarrow> (if RerrHeader_GetDestCount h \<noteq> 0 then send_rerr h ps s else Some s);
      Some (s\<lparr>m_routingTable := RoutingTable_InvalidateRoutesWithDst (m_now s) v (m_routingTable s)\<rparr>)
    } = Some s'" and "purged_at n T s"
  shows "routes s' k = map_option (\<lambda>e. if k \<in> fst ` set v \<and> e_flag e = VALID
      then Entry_Invalidate n (rt_badLinkLifetime T) e else e) (map_of (rt_entries T) k)"
proof -
  from assms(1) obtain h ps s2 where
    c: "rerr_collect u h0 ps0 s = Some (h, ps, s2)" and
    r: "do {
      s \<leftarrow> (if RerrHeader_GetDestCount h \<noteq> 0 then send_rerr h ps s2 else Some s2);
      Some (s\<lparr>m_routingTable := RoutingTable_InvalidateRoutesWithDst (m_now s) v (m_routingTable s)\<rparr>)
    } = Some s'"
    by (elim bind_Some_elim) (simp split: prod.splits)
  from r obtain s3 where d: "(if RerrHeader_GetDestCount h \<noteq> 0 then send_rerr h ps s2 else Some s2) = Some s3"
    and s': "s' = s3\<lparr>m_routingTable := RoutingTable_InvalidateRoutesWithDst (m_now s3) v (m_routingTable s3)\<rparr>"
    by (elim bind_Some_elim) simp
  have "purged_at n T s3"
    using purged.rerr_collect_I [OF c] purged.send_rerr_I [of h ps s2] d assms(2) by (auto split: if_splits)
  then show ?thesis using s' InvalidateRoutes_view [of n T v k] by (simp add: purged_at_def)
qed

text \<open>
  Property C20: when the link to a next hop breaks and the table has an entry for the next hop,
  exactly the valid routes to it and through it become invalid, with the bad-link lifetime; every
  other route is only purged. When the table has no entry for the next hop the function does
  nothing but purge the table: routes through the lost neighbour, which can outlive the route to it, then
  stay valid, and no error is sent.
\<close>

theorem link_break_invalidates:
  assumes "rt_wf (m_routingTable s)" and "0 \<le> rt_badLinkLifetime (m_routingTable s)"
    and "SendRerrWhenBreaksLinkToNextHop a s = Some s'"
  shows "if live_routes s a = None
    then s' = s\<lparr>m_routingTable := RoutingTable_Purge (m_now s) (m_routingTable s)\<rparr>
    else \<forall>k. routes s' k = map_option (\<lambda>e.
        if (k = a \<or> Entry_GetNextHop e = a) \<and> e_flag e = VALID
        then Entry_Invalidate (m_now s) (rt_badLinkLifetime (m_routingTable s)) e else e) (live_routes s k)"
proof -
  let ?T = "RoutingTable_Purge (m_now s) (m_routingTable s)"
  have idem: "RoutingTable_Purge (m_now s) ?T = ?T" using Purge_idem [OF assms(2)] .
  show ?thesis
  proof (cases "live_routes s a")
    case None
    then show ?thesis using assms(3)
      by (auto simp: SendRerrWhenBreaksLinkToNextHop_def lookupRoute_eq)
  next
    case (Some ea)
    obtain u t' where u: "RoutingTable_GetListOfDestinationWithNextHop (m_now s) a ?T = (u, t')"
      by fastforce
    note g = GetList_view [OF rt_wf_Purge [OF assms(1)] u]
    obtain b h where add: "RerrHeader_AddUnDestination a (e_seqNo ea) RerrHeader_make = Some (b, h)"
      using assms(3) by (auto simp: SendRerrWhenBreaksLinkToNextHop_def lookupRoute_eq Some
          elim!: bind_Some_elim)
    have p: "purged_at (m_now s) ?T (s\<lparr>m_routingTable := t'\<rparr>)" using g(1) idem by (simp add: purged_at_def)
    have "routes s' k = map_option (\<lambda>e. if k \<in> fst ` set (map_insert a (e_seqNo ea) u) \<and> e_flag e = VALID
        then Entry_Invalidate (m_now s) (rt_badLinkLifetime ?T) e else e) (live_routes s k)" for k
      by (rule rerr_tail [OF _ p, of u h "Entry_GetPrecursors [] ea"])
        (use assms(3) Some u add in \<open>simp add: SendRerrWhenBreaksLinkToNextHop_def lookupRoute_eq\<close>)
    then show ?thesis
      using g Some idem by (auto simp: keys_map_insert intro!: option.map_cong)
  qed
qed

theorem link_break_invalidates_witness:
  "\<exists>s'. SendRerrWhenBreaksLinkToNextHop 9 (node_with_route neighbor_entry) = Some s' \<and>
     map_option e_flag (routes s' 9) = Some INVALID"
proof -
  let ?s = "node_with_route neighbor_entry"
  have "SendRerrWhenBreaksLinkToNextHop 9 ?s \<noteq> None" by code_simp
  then obtain s' where s': "SendRerrWhenBreaksLinkToNextHop 9 ?s = Some s'" by blast
  have w: "rt_wf (m_routingTable ?s)" "0 \<le> rt_badLinkLifetime (m_routingTable ?s)"
    by (simp_all add: sample_simps)
  have l: "live_routes ?s 9 = Some neighbor_entry" "e_flag neighbor_entry = VALID"
    by (simp_all add: sample_simps)
  show ?thesis
    using link_break_invalidates [OF w s'] s' l by (simp add: Entry_Invalidate_def)
qed

text \<open>
  Property C23: a received route error invalidates exactly the valid routes to the destinations it
  names whose next hop is the neighbour that sent it; every other route is only purged.
\<close>

theorem route_error_invalidates:
  assumes "rt_wf (m_routingTable s)" and "0 \<le> rt_badLinkLifetime (m_routingTable s)"
    and "Packet_RemoveHeader RerrHeader_Deserialize p = Some (h, p1)"
    and "RecvError p src s = Some s'"
  shows "routes s' k = map_option (\<lambda>e.
        if k \<in> fst ` set (re_unreachable h) \<and> Entry_GetNextHop e = src \<and> e_flag e = VALID
        then Entry_Invalidate (m_now s) (rt_badLinkLifetime (m_routingTable s)) e else e) (live_routes s k)"
proof -
  let ?T = "RoutingTable_Purge (m_now s) (m_routingTable s)"
  have idem: "RoutingTable_Purge (m_now s) ?T = ?T" using Purge_idem [OF assms(2)] .
  obtain through t' where u: "RoutingTable_GetListOfDestinationWithNextHop (m_now s) src
      (m_routingTable s) = (through, t')" by fastforce
  obtain h0 un where dr: "rerr_drain h through [] = (h0, un)" by fastforce
  note g = GetList_view [OF assms(1) u]
  have p: "purged_at (m_now s) ?T (s\<lparr>m_routingTable := t'\<rparr>)" using g(1) idem by (simp add: purged_at_def)
  have "routes s' k = map_option (\<lambda>e. if k \<in> fst ` set un \<and> e_flag e = VALID
      then Entry_Invalidate (m_now s) (rt_badLinkLifetime ?T) e else e) (live_routes s k)"
    by (rule rerr_tail [OF _ p, of un h0 "[]"])
      (use assms(4) in \<open>simp add: RecvError_def assms(3) u dr\<close>)
  then show ?thesis
    using g rerr_drain_keys [OF dr] by (auto intro!: option.map_cong)
qed


theorem route_error_invalidates_witness:
  "\<exists>s'. RecvError (Packet_Create\<lparr>p_bytes := RerrHeader_Serialize \<lparr>re_flag = 0, re_reserved = 0, re_unreachable = [(9, 6)]\<rparr>\<rparr>)
       9 (node_with_route neighbor_entry) = Some s' \<and> map_option e_flag (routes s' 9) = Some INVALID"
proof -
  let ?s = "node_with_route neighbor_entry"
  let ?h = "\<lparr>re_flag = 0, re_reserved = 0, re_unreachable = [(9, 6)]\<rparr>"
  let ?p = "Packet_Create\<lparr>p_bytes := RerrHeader_Serialize ?h\<rparr>"
  have "RecvError ?p 9 ?s \<noteq> None" by code_simp
  then obtain s' where s': "RecvError ?p 9 ?s = Some s'" by blast
  have w: "rt_wf (m_routingTable ?s)" "0 \<le> rt_badLinkLifetime (m_routingTable ?s)"
    by (simp_all add: sample_simps)
  have l: "live_routes ?s 9 = Some neighbor_entry" "e_flag neighbor_entry = VALID"
    "Entry_GetNextHop neighbor_entry = 9"
    by (simp_all add: sample_simps Entry_GetNextHop_def)
  have h: "Packet_RemoveHeader RerrHeader_Deserialize ?p = Some (?h, Packet_Create)"
    by code_simp
  show ?thesis
    using route_error_invalidates [OF w h s', of 9] s' l by (simp add: Entry_Invalidate_def)
qed

lemma ScheduleSendTo_counts [simp]:
  "m_rerrCount (ScheduleSendTo k p a s) = m_rerrCount s"
  "length (m_pending (ScheduleSendTo k p a s)) = Suc (length (m_pending s))"
  by (simp_all add: ScheduleSendTo_def GetInteger_def Simulator_Schedule_def)

lemma schedule_all_counts:
  "fold_opt (\<lambda>iface s. do {
      k \<leftarrow> FindSocketWithInterfaceAddress iface s;
      Some (ScheduleSendTo k pk (bcast_destination iface) s)
    }) fs s = Some s' \<Longrightarrow>
   m_rerrCount s' = m_rerrCount s \<and> length (m_pending s') = length (m_pending s) + length fs"
  by (induction fs arbitrary: s) (auto elim!: bind_Some_elim)

lemma precursor_ifaces_set:
  assumes "precursor_ifaces ps fs s = (fs', s')" and "live_routes s = map_of (rt_entries T)"
    and "RoutingTable_Purge (m_now s) (m_routingTable s) = T" and "RoutingTable_Purge (m_now s) T = T"
    and "distinct fs"
  shows "distinct fs' \<and> m_rerrCount s' = m_rerrCount s \<and> m_pending s' = m_pending s \<and>
    set fs' = set fs \<union> {f. \<exists>p \<in> set ps. \<exists>e. map_of (rt_entries T) p = Some e \<and> e_flag e = VALID \<and> f = e_iface e}"
  using assms
proof (induction ps fs s arbitrary: fs' s' rule: precursor_ifaces.induct)
  case (2 i "is" ifaces s)
  let ?s1 = "s\<lparr>m_routingTable := T\<rparr>"
  obtain v rt where l: "lookupValidRoute i (newRt s) s = (v, rt, ?s1)"
    and v: "v \<longleftrightarrow> (\<exists>e. map_of (rt_entries T) i = Some e \<and> e_flag e = VALID)"
    and rt: "v \<Longrightarrow> map_of (rt_entries T) i = Some rt"
    using "2.prems"(3) by (cases "map_of (rt_entries T) i") (auto simp: lookupValidRoute_eq)
  show ?case
  proof (cases "v \<and> e_iface rt \<notin> set ifaces")
    case True
    with "2.prems"(1) l have "precursor_ifaces is (ifaces @ [e_iface rt]) ?s1 = (fs', s')" by simp
    from "2.IH"(1) [OF l [symmetric] refl refl True this] True "2.prems" v rt show ?thesis by auto
  next
    case False
    with "2.prems"(1) l have "precursor_ifaces is ifaces ?s1 = (fs', s')" by auto
    from "2.IH"(2) [OF l [symmetric] refl refl False this] False "2.prems" v rt show ?thesis by auto
  qed
qed simp

text \<open>
  A route error for two or more precursors is broadcast once on every interface that
  reaches a precursor by a valid route, and none of these packets is counted: below the limit
  the rate counter of route errors does not change, so it does not bound them.
\<close>

theorem rerr_broadcast_uncounted:
  assumes "0 \<le> rt_badLinkLifetime (m_routingTable s)" and "2 \<le> length ps"
    and "m_rerrCount s \<noteq> m_rerrRateLimit (m_par s)" and "SendRerrMessage pk ps s = Some s'"
  shows "m_rerrCount s' = m_rerrCount s \<and>
    length (m_pending s') = length (m_pending s) +
      card {f. \<exists>p \<in> set ps. \<exists>e. live_routes s p = Some e \<and> e_flag e = VALID \<and> f = e_iface e}"
proof -
  let ?T = "RoutingTable_Purge (m_now s) (m_routingTable s)"
  have idem: "RoutingTable_Purge (m_now s) ?T = ?T" using Purge_idem [OF assms(1)] .
  obtain a b ps' where ps: "ps = a # b # ps'"
    using assms(2) by (cases ps; cases "tl ps") auto
  obtain fs s1 where p: "precursor_ifaces ps [] s = (fs, s1)" by fastforce
  have "fold_opt (\<lambda>iface s. do {
      k \<leftarrow> FindSocketWithInterfaceAddress iface s;
      Some (ScheduleSendTo k pk (bcast_destination iface) s)
    }) fs s1 = Some s'"
    using assms(3,4) p ps by (simp add: SendRerrMessage_def del: precursor_ifaces.simps)
  from schedule_all_counts [OF this] precursor_ifaces_set [OF p refl refl idem] show ?thesis
    using distinct_card [of fs] by simp
qed

theorem rerr_broadcast_uncounted_witness:
  "\<exists>s'. SendRerrMessage Packet_Create [9, 9] (node_with_route neighbor_entry) = Some s' \<and>
     m_rerrCount s' = 0 \<and> length (m_pending s') = 1"
proof -
  let ?s = "node_with_route neighbor_entry"
  have "SendRerrMessage Packet_Create [9, 9] ?s \<noteq> None" by code_simp
  then obtain s' where s': "SendRerrMessage Packet_Create [9, 9] ?s = Some s'" by blast
  have a: "0 \<le> rt_badLinkLifetime (m_routingTable ?s)" "2 \<le> length [9, 9 :: ip]"
    "m_rerrCount ?s \<noteq> m_rerrRateLimit (m_par ?s)"
    by (simp_all add: AodvParams_default_def)
  have l: "live_routes ?s 9 = Some neighbor_entry" "e_flag neighbor_entry = VALID"
    by (simp_all add: sample_simps)
  show ?thesis using rerr_broadcast_uncounted [OF a s'] s' l by simp
qed

end
