(* ===== verification/Wormhole.thy ===== *)
theory Wormhole
  imports Rerr_Invariants
begin

text \<open>
  The RTT-based wormhole detector this fork adds to AODV (aodv-routing-protocol.cc,
  \<open>StartRttProbe\<close> to \<open>EvaluateVerificationProbe\<close>): per-neighbour round-trip statistics, the
  test of a measured round trip against them, the second-stage verification probe, and the
  temporary blacklist.
\<close>

section \<open>Estimates\<close>

definition StartRttProbe :: "ip \<Rightarrow> ip \<Rightarrow> aodv \<Rightarrow> aodv" where
  "StartRttProbe origin dst s =
     s\<lparr>m_rttProbeStartTime := map_put (ProbeKey origin dst) (m_now s) (m_rttProbeStartTime s)\<rparr>"

definition EstimateProcessingTime :: "u32 \<Rightarrow> aodv \<Rightarrow> time" where
  "EstimateProcessingTime bufferLoad s =
     (let base = m_wormholeCpuProcessBase (m_wrm s) in
      if m_maxQueueLen (m_par s) = 0 then base
      else
        let ratio = min 1 (double_div (of_int (uint bufferLoad))
                             (of_int (uint (m_maxQueueLen (m_par s)))));
            ptSec = double_mul (Time_GetSeconds base) (double_add 1 ratio)
        in Seconds ptSec)"

definition EstimateTransmissionTime :: "u32 \<Rightarrow> aodv \<Rightarrow> time" where
  "EstimateTransmissionTime packetBytes s =
     (let bits = double_mul (of_int (uint packetBytes)) 8;
          ttSec = double_div bits (max 1 (m_wormholeLinkRateBps (m_wrm s)))
      in Seconds ttSec)"

text \<open>
  The exponential averages: mean += 0.125 err, variation += 0.25 (|err| - variation), each step
  through a \<^verbatim>\<open>double\<close> number of seconds. The first sample sets the mean to
  itself and the variation to half of it.
\<close>

definition UpdateNeighborRttStats :: "ip \<Rightarrow> time \<Rightarrow> aodv \<Rightarrow> aodv" where
  "UpdateNeighborRttStats neighbor sample s =
     (case map_of (m_neighborEstimatedRtt s) neighbor of
        None \<Rightarrow>
          s\<lparr>m_neighborEstimatedRtt := map_put neighbor sample (m_neighborEstimatedRtt s),
            m_neighborEstimatedVar := map_put neighbor (tdiv sample 2) (m_neighborEstimatedVar s)\<rparr>
      | Some currentMean \<Rightarrow>
          let currentVar = (case map_of (m_neighborEstimatedVar s) neighbor of
                              None \<Rightarrow> tdiv sample 2 | Some v \<Rightarrow> v);
              err = sample - currentMean;
              absErr = (if Time_GetNanoSeconds err < 0 then 0 - err else err);
              newMean = currentMean +
                Time_FromDouble_S (double_mul (1 / 8) (Time_GetSeconds err));
              varDelta = absErr - currentVar;
              newVar = currentVar +
                Time_FromDouble_S (double_mul (1 / 4) (Time_GetSeconds varDelta))
          in s\<lparr>m_neighborEstimatedRtt := map_put neighbor newMean (m_neighborEstimatedRtt s),
               m_neighborEstimatedVar := map_put neighbor newVar (m_neighborEstimatedVar s)\<rparr>)"

definition IsNeighborTemporarilySuspect :: "ip \<Rightarrow> aodv \<Rightarrow> bool" where
  "IsNeighborTemporarilySuspect neighbor s =
     (case map_of (m_suspectUntil s) neighbor of None \<Rightarrow> False | Some t \<Rightarrow> m_now s \<le> t)"

section \<open>The RTT test\<close>

text \<open>
  The computation both evaluations share: the expected round trip from the neighbour's mean
  (or twice the node traversal time), the processing, transmission and propagation terms, and
  the threshold of mu times the learned variation (or 1 ms).
\<close>

definition expected_rtt :: "u32 \<Rightarrow> ip \<Rightarrow> aodv \<Rightarrow> time" where
  "expected_rtt bufferLoad neighbor s =
     (let pt = EstimateProcessingTime bufferLoad s;
          tt = EstimateTransmissionTime (m_wormholeCtrlPacketBytes (m_wrm s)) s;
          baseline = (case map_of (m_neighborEstimatedRtt s) neighbor of
                        None \<Rightarrow> 2 * m_nodeTraversalTime (m_par s) | Some m \<Rightarrow> m)
      in baseline + pt + tt + m_wormholePd (m_wrm s))"

definition rtt_threshold :: "ip \<Rightarrow> aodv \<Rightarrow> time" where
  "rtt_threshold neighbor s =
     (let variation = (case map_of (m_neighborEstimatedVar s) neighbor of
                         None \<Rightarrow> MilliSeconds 1
                       | Some v \<Rightarrow> if MicroSeconds 1 < v then v else MilliSeconds 1)
      in Time_FromDouble_S (double_mul (m_wormholeMu (m_wrm s)) (Time_GetSeconds variation)))"

definition rtt_anomalous :: "u32 \<Rightarrow> ip \<Rightarrow> time \<Rightarrow> aodv \<Rightarrow> bool" where
  "rtt_anomalous bufferLoad neighbor rtt s =
     (let diff = rtt - expected_rtt bufferLoad neighbor s;
          absDiff = (if Time_GetNanoSeconds diff < 0 then 0 - diff else diff)
      in rtt_threshold neighbor s < absDiff)"

text \<open>The suspicion both evaluations record.\<close>

definition suspect_neighbor :: "ip \<Rightarrow> aodv \<Rightarrow> aodv" where
  "suspect_neighbor neighbor s =
     s\<lparr>m_suspectUntil :=
         map_put neighbor (m_now s + m_blackListTimeout (m_par s)) (m_suspectUntil s),
       m_detectedWormholePeers := map_insert neighbor () (m_detectedWormholePeers s)\<rparr>"

section \<open>Verification probes\<close>

definition SendVerificationTestPacket :: "ip \<Rightarrow> ip \<Rightarrow> aodv \<Rightarrow> aodv option" where
  "SendVerificationTestPacket origin neighbor s =
     do {
       let s = s\<lparr>m_verificationProbeStartTime :=
                   map_put (ProbeKey origin neighbor) (m_now s) (m_verificationProbeStartTime s)\<rparr>;
       iface \<leftarrow> ifaceFor origin s;
       k \<leftarrow> FindSocketWithInterfaceAddress iface s;
       let p = Packet_Create\<lparr>p_verify := Some False, p_ttl := Some 1\<rparr>;
       p \<leftarrow> Packet_AddHeader TypeHeader_GetSerializedSize
              (TypeHeader_Serialize (TypeHeader_make AODVTYPE_RVERIFY)) p;
       Socket_SendTo k p neighbor s
     }"

definition EvaluateRttProbe ::
    "ip \<Rightarrow> ip \<Rightarrow> ip \<Rightarrow> ip \<Rightarrow> time \<Rightarrow> aodv \<Rightarrow> (bool \<times> aodv) option" where
  "EvaluateRttProbe origin dst sender receiver actualRtt s =
     (let key = ProbeKey origin dst in
      case map_of (m_rttProbeStartTime s) key of
        None \<Rightarrow> Some (False, s)
      | Some _ \<Rightarrow>
          let bufferLoad = word_of_nat (length (m_rttProbeStartTime s));
              detected = rtt_anomalous bufferLoad sender actualRtt s;
              erase = (\<lambda>s. s\<lparr>m_rttProbeStartTime := map_erase key (m_rttProbeStartTime s)\<rparr>)
          in if detected then
               if m_enableSecondProbeVerification (m_wrm s) then do {
                 s \<leftarrow> (case map_of (m_underVerification s) sender of
                     None \<Rightarrow>
                       let s = s\<lparr>m_underVerification :=
                                   map_put sender (m_now s) (m_underVerification s)\<rparr>
                       in SendVerificationTestPacket receiver sender s
                   | Some _ \<Rightarrow> Some s);
                 Some (False, erase s)
               }
               else Some (detected, erase (suspect_neighbor sender s))
             else Some (detected, erase (UpdateNeighborRttStats sender actualRtt s)))"

definition EvaluateVerificationProbe :: "ip \<Rightarrow> ip \<Rightarrow> time \<Rightarrow> aodv \<Rightarrow> bool \<times> aodv" where
  "EvaluateVerificationProbe origin neighbor verificationRtt s =
     (let key = ProbeKey origin neighbor in
      case map_of (m_verificationProbeStartTime s) key of
        None \<Rightarrow> (False, s)
      | Some _ \<Rightarrow>
          let bufferLoad = word_of_nat (length (m_verificationProbeStartTime s));
              detected = rtt_anomalous bufferLoad neighbor verificationRtt s;
              count = (case map_of (m_verificationFailureCount s) neighbor of
                         None \<Rightarrow> 0 | Some c \<Rightarrow> c);
              s = (if detected then
                     suspect_neighbor neighbor
                       (s\<lparr>m_verificationFailureCount :=
                            map_put neighbor (count + 1) (m_verificationFailureCount s)\<rparr>)
                   else
                     UpdateNeighborRttStats neighbor verificationRtt
                       (s\<lparr>m_verificationFailureCount :=
                            map_erase neighbor (m_verificationFailureCount s)\<rparr>))
          in (detected,
              s\<lparr>m_underVerification := map_erase neighbor (m_underVerification s),
                m_verificationProbeStartTime := map_erase key (m_verificationProbeStartTime s)\<rparr>))"

section \<open>What sending leaves alone\<close>

definition detector :: "aodv \<Rightarrow> _" where
  "detector s = (m_suspectUntil s, m_detectedWormholePeers s, m_underVerification s,
     m_verificationProbeStartTime s, m_verificationFailureCount s, m_rttProbeStartTime s,
     m_neighborEstimatedRtt s, m_neighborEstimatedVar s)"

interpretation keeps_detector: table_invariant "\<lambda>s. detector s = d" for d
  by unfold_locales (simp_all add: detector_def)

lemma SendVerificationTestPacket_detector:
  assumes "SendVerificationTestPacket r a s = Some s'"
  shows "detector s' = detector (s\<lparr>m_verificationProbeStartTime :=
    map_put (ProbeKey r a) (m_now s) (m_verificationProbeStartTime s)\<rparr>)"
  using assms
  by (auto simp: SendVerificationTestPacket_def Let_def elim!: bind_Some_elim
      dest: keeps_detector.Socket_SendTo_I)

lemma suspect_simps [simp]:
  "m_suspectUntil (suspect_neighbor a s) = map_put a (m_now s + m_blackListTimeout (m_par s)) (m_suspectUntil s)"
  "m_underVerification (suspect_neighbor a s) = m_underVerification s"
  "m_verificationProbeStartTime (suspect_neighbor a s) = m_verificationProbeStartTime s"
  "m_rttProbeStartTime (suspect_neighbor a s) = m_rttProbeStartTime s"
  "m_verificationFailureCount (suspect_neighbor a s) = m_verificationFailureCount s"
  by (simp_all add: suspect_neighbor_def)

lemma stats_simps [simp]:
  "m_suspectUntil (UpdateNeighborRttStats a t s) = m_suspectUntil s"
  "m_underVerification (UpdateNeighborRttStats a t s) = m_underVerification s"
  "m_verificationProbeStartTime (UpdateNeighborRttStats a t s) = m_verificationProbeStartTime s"
  "m_rttProbeStartTime (UpdateNeighborRttStats a t s) = m_rttProbeStartTime s"
  "m_detectedWormholePeers (UpdateNeighborRttStats a t s) = m_detectedWormholePeers s"
  "m_verificationFailureCount (UpdateNeighborRttStats a t s) = m_verificationFailureCount s"
  "m_out (UpdateNeighborRttStats a t s) = m_out s" "m_wrm (UpdateNeighborRttStats a t s) = m_wrm s"
  by (simp_all add: UpdateNeighborRttStats_def Let_def split: option.splits)

section \<open>Properties of the detector\<close>

lemma EvaluateRttProbe_start:
  assumes "map_of (m_rttProbeStartTime s) (ProbeKey origin dst) = Some t0"
  shows "EvaluateRttProbe origin dst sender receiver rtt s =
     (let erase = (\<lambda>s. s\<lparr>m_rttProbeStartTime := map_erase (ProbeKey origin dst) (m_rttProbeStartTime s)\<rparr>);
          detected = rtt_anomalous (word_of_nat (length (m_rttProbeStartTime s))) sender rtt s
      in if \<not> detected then Some (False, erase (UpdateNeighborRttStats sender rtt s))
         else if \<not> m_enableSecondProbeVerification (m_wrm s) then Some (True, erase (suspect_neighbor sender s))
         else if map_of (m_underVerification s) sender \<noteq> None then Some (False, erase s)
         else map_option (\<lambda>s. (False, erase s))
                (SendVerificationTestPacket receiver sender
                   (s\<lparr>m_underVerification := map_put sender (m_now s) (m_underVerification s)\<rparr>)))"
  using assms
  by (cases "map_of (m_underVerification s) sender")
    (auto simp: EvaluateRttProbe_def Let_def map_option_case split: option.splits)

text \<open>
  Property C3: without the second stage, a reply whose round trip was probed is rejected if and
  only if the round trip is anomalous; the sender is then suspect up to and including now plus
  the blacklist timeout. The probe is consumed, every other pending probe stays.
\<close>

theorem rtt_detection_blacklists:
  assumes "\<not> m_enableSecondProbeVerification (m_wrm s)"
    and "map_of (m_rttProbeStartTime s) (ProbeKey origin dst) = Some t0"
    and "EvaluateRttProbe origin dst sender receiver rtt s = Some (rejected, s')"
  shows "rejected = rtt_anomalous (word_of_nat (length (m_rttProbeStartTime s))) sender rtt s \<and>
    (if rejected
     then IsNeighborTemporarilySuspect sender (s'\<lparr>m_now := t\<rparr>) = (t \<le> m_now s + m_blackListTimeout (m_par s))
     else m_suspectUntil s' = m_suspectUntil s) \<and>
    map_of (m_rttProbeStartTime s') = (map_of (m_rttProbeStartTime s))(ProbeKey origin dst := None)"
  using assms(1,3)
  by (auto simp: EvaluateRttProbe_start [OF assms(2)] Let_def IsNeighborTemporarilySuspect_def
      split: if_splits)

abbreviation probing_node :: "bool \<Rightarrow> aodv" where
  "probing_node second \<equiv> node0\<lparr>m_wrm := WormParams_default\<lparr>m_enableSecondProbeVerification := second\<rparr>,
     m_rttProbeStartTime := [(ProbeKey 1 2, 0)], m_underVerification := [(9, 0)],
     m_verificationProbeStartTime := [(ProbeKey 1 9, 0)]\<rparr>"

theorem rtt_detection_blacklists_witness:
  "let (rejected, s') = the (EvaluateRttProbe 1 2 9 1 (MilliSeconds 500) (probing_node False))
   in rejected = rtt_anomalous 1 9 (MilliSeconds 500) (probing_node False) \<and>
     map_of (m_rttProbeStartTime s') (ProbeKey 1 2) = None"
proof -
  let ?s = "probing_node False"
  have off: "\<not> m_enableSecondProbeVerification (m_wrm ?s)" by simp
  have p: "map_of (m_rttProbeStartTime ?s) (ProbeKey 1 2) = Some 0" by simp
  obtain r s' where "EvaluateRttProbe 1 2 9 1 (MilliSeconds 500) ?s = Some (r, s')"
    using EvaluateRttProbe_start [OF p, of 9 1 "MilliSeconds 500"] off
    by (cases "rtt_anomalous 1 9 (MilliSeconds 500) ?s") (auto simp: Let_def)
  from this rtt_detection_blacklists [OF off p this, of 0] show ?thesis by simp
qed

text \<open>
  With the second stage enabled, which is the default, the evaluation of a reply
  never rejects it and never makes the sender suspect, however anomalous the round trip: it
  only puts the sender under verification, and a sender already under verification is not
  probed again.
\<close>

theorem second_stage_accepts_reply:
  assumes "m_enableSecondProbeVerification (m_wrm s)"
    and "EvaluateRttProbe origin dst sender receiver rtt s = Some (rejected, s')"
  shows "\<not> rejected \<and> m_suspectUntil s' = m_suspectUntil s \<and>
    m_detectedWormholePeers s' = m_detectedWormholePeers s \<and>
    (if map_of (m_underVerification s) sender = None
     then map_of (m_underVerification s') sender \<in> {None, Some (m_now s)}
     else m_underVerification s' = m_underVerification s \<and> m_out s' = m_out s \<and>
       m_verificationProbeStartTime s' = m_verificationProbeStartTime s)"
proof (cases "map_of (m_rttProbeStartTime s) (ProbeKey origin dst)")
  case None
  then show ?thesis using assms(2) by (simp add: EvaluateRttProbe_def)
next
  case (Some t0)
  show ?thesis
    using assms
    by (auto simp: EvaluateRttProbe_start [OF Some] Let_def detector_def
        dest!: SendVerificationTestPacket_detector split: if_splits)
qed

theorem second_stage_accepts_reply_witness:
  "let (rejected, s') = the (EvaluateRttProbe 1 2 9 1 (MilliSeconds 500) (probing_node True))
   in \<not> rejected \<and> m_underVerification s' = [(9, 0)] \<and> m_suspectUntil s' = []"
proof -
  let ?s = "probing_node True"
  have on: "m_enableSecondProbeVerification (m_wrm ?s)" by simp
  have p: "map_of (m_rttProbeStartTime ?s) (ProbeKey 1 2) = Some 0" by simp
  obtain r s' where "EvaluateRttProbe 1 2 9 1 (MilliSeconds 500) ?s = Some (r, s')"
    using EvaluateRttProbe_start [OF p, of 9 1 "MilliSeconds 500"] on
    by (cases "rtt_anomalous 1 9 (MilliSeconds 500) ?s") (auto simp: Let_def)
  from this second_stage_accepts_reply [OF on this] show ?thesis by simp
qed

text \<open>
  Property C4: a verification answer is judged once. It is consumed with the suspicion it
  settles: an anomalous one makes the neighbour suspect until the blacklist timeout has passed
  and counts a failure, any other clears the failures; a repeated answer changes nothing.
\<close>

theorem verification_settles:
  assumes "map_of (m_verificationProbeStartTime s) (ProbeKey origin neighbor) = Some t0"
    and "EvaluateVerificationProbe origin neighbor rtt s = (bad, s')"
  shows "bad = rtt_anomalous (word_of_nat (length (m_verificationProbeStartTime s))) neighbor rtt s \<and>
    map_of (m_underVerification s') neighbor = None \<and>
    (if bad
     then IsNeighborTemporarilySuspect neighbor (s'\<lparr>m_now := t\<rparr>) = (t \<le> m_now s + m_blackListTimeout (m_par s)) \<and>
       map_of (m_verificationFailureCount s') neighbor =
         Some (case map_of (m_verificationFailureCount s) neighbor of None \<Rightarrow> 1 | Some c \<Rightarrow> c + 1)
     else m_suspectUntil s' = m_suspectUntil s \<and> map_of (m_verificationFailureCount s') neighbor = None) \<and>
    EvaluateVerificationProbe origin neighbor rtt' s' = (False, s')"
  using assms
  by (auto simp: EvaluateVerificationProbe_def Let_def IsNeighborTemporarilySuspect_def
      split: if_splits option.splits)

theorem verification_settles_witness:
  "let (bad, s') = EvaluateVerificationProbe 1 9 (MilliSeconds 500) (probing_node True)
   in map_of (m_underVerification s') 9 = None \<and>
     EvaluateVerificationProbe 1 9 (MilliSeconds 1) s' = (False, s')"
proof -
  let ?s = "probing_node True"
  obtain bad s' where e: "EvaluateVerificationProbe 1 9 (MilliSeconds 500) ?s = (bad, s')" by fastforce
  from verification_settles [OF _ e, of 0 0 "MilliSeconds 1"] e show ?thesis by simp
qed

end
