(* ===== verification/Aodv_Send.thy ===== *)
theory Aodv_Send
  imports Wormhole
begin

text \<open>
  What a node originates: route requests with the expanding ring search, their rate limit and
  retries, route replies, acknowledgements, hello messages, and the release of the packets that
  waited for a route.
\<close>

section \<open>Retry timer\<close>

text \<open>
  The wait before the next attempt: twice the node traversal time per hop of the ring inside
  the network diameter, binary exponential backoff at the diameter. A shift by 31 or more
  leaves the range of \<^verbatim>\<open>int\<close>.
\<close>

definition ScheduleRreqRetry :: "ip \<Rightarrow> aodv \<Rightarrow> aodv option" where
  "ScheduleRreqRetry dst s =
     (let s = s\<lparr>m_addressReqTimer := map_put dst None (m_addressReqTimer s)\<rparr>;
          (found, rt, s) = lookupRoute dst (newRt s) s
      in do {
        retry \<leftarrow>
          (if uint (e_hops rt) < uint (m_netDiameter (m_par s)) then
             Some (2 * m_nodeTraversalTime (m_par s) *
                     (uint (e_hops rt) + uint (m_timeoutBuffer (m_par s))))
           else do {
             ensure (0 < e_reqCount rt);
             let backoffFactor = unat (e_reqCount rt) - 1;
             ensure (backoffFactor < 31);
             Some (m_netTraversalTime (m_par s) * 2 ^ backoffFactor)
           });
        t \<leftarrow> Timer_Schedule (m_now s) retry None;
        Some (s\<lparr>m_addressReqTimer := map_put dst t (m_addressReqTimer s)\<rparr>)
      })"

section \<open>SendRequest\<close>

text \<open>
  The ring: the TTL of the next request for a destination with an entry. The sums are
  truncated to 16 bits, and so is the network diameter.
\<close>

definition next_ttl :: "AodvParams \<Rightarrow> RoutingTableEntry \<Rightarrow> u16" where
  "next_ttl p rt =
     (if e_flag rt \<noteq> IN_SEARCH then min (e_hops rt + m_ttlIncrement p) (ucast (m_netDiameter p))
      else
        let ttl = e_hops rt + m_ttlIncrement p in
        if m_ttlThreshold p < ttl then ucast (m_netDiameter p) else ttl)"

definition request_known :: "RoutingTableEntry \<Rightarrow> RreqHeader \<Rightarrow> aodv \<Rightarrow> u16 \<times> RreqHeader \<times> aodv" where
  "request_known rt h s =
     (let ttl = next_ttl (m_par s) rt;
          rt = (if ucast ttl = m_netDiameter (m_par s) then Entry_IncrementRreqCnt rt else rt);
          h = (if e_validSeqNo rt then h\<lparr>rq_dstSeqNo := e_seqNo rt\<rparr>
               else RreqHeader_SetUnknownSeqno True h);
          rt = rt\<lparr>e_hops := ttl, e_flag := IN_SEARCH\<rparr>;
          rt = Entry_SetLifeTime (m_now s) (m_pathDiscoveryTime (m_par s)) rt
      in (ttl, h, updateRoute rt s))"

definition request_new :: "ip \<Rightarrow> RreqHeader \<Rightarrow> aodv \<Rightarrow> u16 \<times> RreqHeader \<times> aodv" where
  "request_new dst h s =
     (let ttl = m_ttlStart (m_par s);
          h = RreqHeader_SetUnknownSeqno True h;
          rt = RoutingTableEntry_make (m_now s) None dst False 0 Ipv4InterfaceAddress_default ttl
                 Ipv4Address_default (m_pathDiscoveryTime (m_par s));
          rt = (if ucast ttl = m_netDiameter (m_par s) then Entry_IncrementRreqCnt rt else rt);
          rt = rt\<lparr>e_flag := IN_SEARCH\<rparr>
      in (ttl, h, addRoute rt s))"

text \<open>One round of the loop over the interfaces: probe, self-registration, broadcast.\<close>

definition request_on ::
    "ip \<Rightarrow> u16 \<Rightarrow> RreqHeader \<Rightarrow> sock \<times> Ipv4InterfaceAddress \<Rightarrow> aodv \<Rightarrow> aodv option" where
  "request_on dst ttl h j s =
     (let (k, iface) = j;
          h = h\<lparr>rq_origin := ia_local iface\<rparr>;
          s = (if m_enableRttWormholeDetect (m_wrm s) then StartRttProbe (ia_local iface) dst s else s);
          s = s\<lparr>m_rreqIdCache :=
                  snd (IdCache_IsDuplicate (m_now s) (ia_local iface) (m_requestId s) (m_rreqIdCache s))\<rparr>
      in do {
        p \<leftarrow> control_packet (ucast ttl) RreqHeader_GetSerializedSize (RreqHeader_Serialize h)
               AODVTYPE_RREQ;
        let s = s\<lparr>m_lastBcastTime := m_now s\<rparr>;
        Some (ScheduleSendTo k p (bcast_destination iface) s)
      })"

definition SendRequest :: "ip \<Rightarrow> aodv \<Rightarrow> aodv option" where
  "SendRequest dst s =
     (if m_rreqCount s = m_rreqRateLimit (m_par s) then
        Some (Simulator_Schedule
                (Timer_GetDelayLeft (m_now s) (m_rreqRateLimitTimer s) + MicroSeconds 100)
                (PendingSendRequest dst) s)
      else
        let s = s\<lparr>m_rreqCount := m_rreqCount s + 1\<rparr>;
            h = RreqHeader_default\<lparr>rq_dst := dst\<rparr>;
            (found, rt, s) = lookupRoute dst (newRt s) s;
            (ttl, h, s) = (if found then request_known rt h s else request_new dst h s);
            h = (if m_gratuitousReply (m_par s) then RreqHeader_SetGratuitousRrep True h else h);
            h = (if m_destinationOnly (m_par s) then RreqHeader_SetDestinationOnly True h else h);
            s = s\<lparr>m_seqNo := m_seqNo s + 1\<rparr>;
            h = h\<lparr>rq_originSeqNo := m_seqNo s\<rparr>;
            s = s\<lparr>m_requestId := m_requestId s + 1\<rparr>;
            h = h\<lparr>rq_requestID := m_requestId s, rq_hopCount := 0\<rparr>
        in do {
          s \<leftarrow> fold_opt (request_on dst ttl h) (m_socketAddresses s) s;
          ScheduleRreqRetry dst s
        })"

section \<open>Replies\<close>

definition SendReply :: "RreqHeader \<Rightarrow> RoutingTableEntry \<Rightarrow> aodv \<Rightarrow> aodv option" where
  "SendReply rreq toOrigin s =
     (let s = (if \<not> RreqHeader_GetUnknownSeqno rreq \<and> rq_dstSeqNo rreq = m_seqNo s + 1
               then s\<lparr>m_seqNo := m_seqNo s + 1\<rparr> else s);
          h = RrepHeader_make 0 0 (rq_dst rreq) (m_seqNo s) (Entry_GetDestination toOrigin)
                (m_myRouteTimeout (m_par s))
      in do {
        p \<leftarrow> control_packet (ucast (e_hops toOrigin)) RrepHeader_GetSerializedSize
               (RrepHeader_Serialize h) AODVTYPE_RREP;
        k \<leftarrow> FindSocketWithInterfaceAddress (e_iface toOrigin) s;
        Socket_SendTo k p (Entry_GetNextHop toOrigin) s
      })"

text \<open>
  A reply on behalf of the destination. The acknowledgement timer is configured on a copy of
  the entry that is dropped, so only the purge of that lookup remains of it. The route of the
  originator may use another interface than the one of the destination: each reply leaves
  through the socket of its own route.
\<close>

definition SendReplyByIntermediateNode ::
    "RoutingTableEntry \<Rightarrow> RoutingTableEntry \<Rightarrow> bool \<Rightarrow> aodv \<Rightarrow> aodv option" where
  "SendReplyByIntermediateNode toDst toOrigin gratRep s =
     (let h = RrepHeader_make 0 (ucast (e_hops toDst)) (Entry_GetDestination toDst) (e_seqNo toDst)
                (Entry_GetDestination toOrigin) (Entry_GetLifeTime (m_now s) toDst);
          h = (if IsMalicious (m_wrm s) then h\<lparr>rp_hopCount := 1\<rparr> else h);
          (h, s) = (if e_hops toDst = 1
                    then (RrepHeader_SetAckRequired True h,
                          snd (snd (lookupRoute (Entry_GetNextHop toOrigin) (newRt s) s)))
                    else (h, s));
          toDst = snd (Entry_InsertPrecursor (Entry_GetNextHop toOrigin) toDst);
          toOrigin = snd (Entry_InsertPrecursor (Entry_GetNextHop toDst) toOrigin);
          s = updateRoute toDst s;
          s = updateRoute toOrigin s
      in do {
        p \<leftarrow> control_packet (ucast (e_hops toOrigin)) RrepHeader_GetSerializedSize
               (RrepHeader_Serialize h) AODVTYPE_RREP;
        k \<leftarrow> FindSocketWithInterfaceAddress (e_iface toOrigin) s;
        s \<leftarrow> Socket_SendTo k p (Entry_GetNextHop toOrigin) s;
        if gratRep then do {
          let g = RrepHeader_make 0 (ucast (e_hops toOrigin)) (Entry_GetDestination toOrigin)
                    (e_seqNo toOrigin) (Entry_GetDestination toDst)
                    (Entry_GetLifeTime (m_now s) toOrigin);
          q \<leftarrow> control_packet (ucast (e_hops toDst)) RrepHeader_GetSerializedSize
                 (RrepHeader_Serialize g) AODVTYPE_RREP;
          k \<leftarrow> FindSocketWithInterfaceAddress (e_iface toDst) s;
          Socket_SendTo k q (Entry_GetNextHop toDst) s
        }
        else Some s
      })"

definition SendReplyAck :: "ip \<Rightarrow> aodv \<Rightarrow> aodv option" where
  "SendReplyAck neighbor s =
     do {
       p \<leftarrow> control_packet 1 RrepAckHeader_GetSerializedSize (RrepAckHeader_Serialize RrepAckHeader_make)
              AODVTYPE_RREP_ACK;
       let (found, toNeighbor, s) = lookupRoute neighbor (newRt s) s;
       k \<leftarrow> FindSocketWithInterfaceAddress (e_iface toNeighbor) s;
       Socket_SendTo k p neighbor s
     }"

section \<open>Hello messages\<close>

definition hello_on :: "sock \<times> Ipv4InterfaceAddress \<Rightarrow> aodv \<Rightarrow> aodv option" where
  "hello_on j s =
     (let (k, iface) = j;
          h = RrepHeader_make 0 0 (ia_local iface) (m_seqNo s) (ia_local iface)
                (uint (m_allowedHelloLoss (m_par s)) * m_helloInterval (m_par s))
      in do {
        p \<leftarrow> control_packet 1 RrepHeader_GetSerializedSize (RrepHeader_Serialize h) AODVTYPE_RREP;
        Some (ScheduleSendTo k p (bcast_destination iface) s)
      })"

definition SendHello :: "aodv \<Rightarrow> aodv option" where
  "SendHello s = fold_opt hello_on (m_socketAddresses s) s"

text \<open>A hello is skipped when the node broadcast since the last expiry.\<close>

definition HelloTimerExpire :: "aodv \<Rightarrow> aodv option" where
  "HelloTimerExpire s =
     do {
       (offset, s) \<leftarrow> (if 0 < m_lastBcastTime s then Some (m_now s - m_lastBcastTime s, s)
                       else map_option (\<lambda>s. (0, s)) (SendHello s));
       let diff = m_helloInterval (m_par s) - offset;
       t \<leftarrow> Timer_Schedule (m_now s) (max 0 diff) None;
       Some (s\<lparr>m_htimer := t, m_lastBcastTime := 0\<rparr>)
     }"

section \<open>Packets that waited\<close>

text \<open>\<open>RequestQueue::Drop\<close> calls the error callback of each entry that left the queue.\<close>

definition queue_drops :: "QueueEntry list \<Rightarrow> effect list" where
  "queue_drops ds = map (\<lambda>d. ErrorNotify (q_ecb d) (q_packet d) (q_header d)) ds"

text \<open>
  The loop of \<open>SendPacketFromQueue\<close>. A packet bound to another interface is dropped and ends
  the loop; the packets behind it stay queued. The fuel is the length of the queue: each round
  removes an entry.
\<close>

fun send_from_queue :: "nat \<Rightarrow> ip \<Rightarrow> Ipv4Route \<Rightarrow> aodv \<Rightarrow> aodv option" where
  "send_from_queue fuel dst route s =
     (let (found, e, drops, q) =
            RequestQueue_Dequeue (m_now s) dst
              (QueueEntry_make (m_now s) Packet_Create Ipv4Header_default 0 0 (m_now s)) (m_queue s);
          s = s\<lparr>m_queue := q,
                m_out := m_out s @ queue_drops drops\<rparr>
      in if \<not> found then Some s
         else case fuel of
           0 \<Rightarrow> None
         | Suc fuel \<Rightarrow>
             do {
               v \<leftarrow> m_ipv4 s;
               let tag = p_oif (q_packet e);
               let p = (q_packet e)\<lparr>p_oif := None\<rparr>;
               if tag \<noteq> None \<and> tag \<noteq> Some (-1) \<and>
                  tag \<noteq> Some (Ipv4_GetInterfaceForDevice v (rt_dev route))
               then Some s
               else
                 let h = (q_header e)\<lparr>ih_src := rt_source route, ih_ttl := ih_ttl (q_header e) + 1\<rparr>
                 in send_from_queue fuel dst route
                      (s\<lparr>m_out := m_out s @ [UnicastForward (q_ucb e) route p h]\<rparr>)
             })"

declare send_from_queue.simps [simp del]

definition SendPacketFromQueue :: "ip \<Rightarrow> Ipv4Route \<Rightarrow> aodv \<Rightarrow> aodv option" where
  "SendPacketFromQueue dst route s = send_from_queue (length (rq_queue (m_queue s))) dst route s"

section \<open>The request timer\<close>

definition dropQueued :: "ip \<Rightarrow> aodv \<Rightarrow> aodv" where
  "dropQueued dst s =
     (let (drops, q) = RequestQueue_DropPacketWithDst (m_now s) dst (m_queue s) in
      s\<lparr>m_queue := q,
        m_out := m_out s @ queue_drops drops\<rparr>)"

text \<open>
  The request count is 8 bits wide and compared with the 32-bit retry limit. Giving up forgets
  the timer, the route and the waiting packets.
\<close>

definition RouteRequestTimerExpire :: "ip \<Rightarrow> aodv \<Rightarrow> aodv option" where
  "RouteRequestTimerExpire dst s =
     (let (valid, toDst, s) = lookupValidRoute dst (newRt s) s;
          giveUp = (\<lambda>s. dropQueued dst
                     (deleteRoute dst (s\<lparr>m_addressReqTimer := map_erase dst (m_addressReqTimer s)\<rparr>)))
      in if valid then SendPacketFromQueue dst (e_route toDst) s
         else if ucast (e_reqCount toDst) = m_rreqRetries (m_par s) then Some (giveUp s)
         else if e_flag toDst = IN_SEARCH then SendRequest dst s
         else Some (giveUp s))"

section \<open>Requests on every interface\<close>

text \<open>
  Scheduled calls that send one packet through each socket, to the broadcast address of its
  interface; \<open>P\<close> says which packet it is.
\<close>

definition on_every_interface ::
    "(packet \<Rightarrow> Ipv4InterfaceAddress \<Rightarrow> bool) \<Rightarrow> (sock \<times> Ipv4InterfaceAddress) list \<Rightarrow> (time \<times> pending) list \<Rightarrow> bool" where
  "on_every_interface P js sent \<longleftrightarrow>
     list_all2 (\<lambda>(k, iface) (t, ev). \<exists>q. ev = PendingSendTo k q (bcast_destination iface) \<and> P q iface) js sent"

lemma on_every_interface_Nil [simp]: "on_every_interface P [] sent \<longleftrightarrow> sent = []"
  by (simp add: on_every_interface_def)

lemma on_every_interface_Cons:
  "P q (snd j) \<Longrightarrow> on_every_interface P js sent \<Longrightarrow>
    on_every_interface P (j # js) ((t, PendingSendTo (fst j) q (bcast_destination (snd j))) # sent)"
  by (simp add: on_every_interface_def case_prod_beta)

lemma request_packet:
  obtains q where "control_packet ttl RreqHeader_GetSerializedSize (RreqHeader_Serialize h) AODVTYPE_RREQ = Some q"
    and "p_ttl q = Some ttl" and "received_as RreqHeader_Deserialize AODVTYPE_RREQ h (Some q)"
proof -
  obtain q where q: "control_packet ttl RreqHeader_GetSerializedSize (RreqHeader_Serialize h) AODVTYPE_RREQ = Some q"
    "p_ttl q = Some ttl"
    using rreq_codec.enc_length [of h]
    by (auto simp: control_packet_def Packet_AddHeader_def Packet_Create_def TypeHeader_Serialize_def
        TypeHeader_GetSerializedSize_def)
  then have "received_as RreqHeader_Deserialize AODVTYPE_RREQ h (Some q)"
    using received_as_codec [of RreqHeader_Serialize h RreqHeader_GetSerializedSize RreqHeader_Deserialize
        AODVTYPE_RREQ, OF rreq_codec.enc_length rreq_codec.dec_enc] by metis
  with q that show thesis by blast
qed

text \<open>The request \<open>SendRequest\<close> puts on an interface.\<close>

definition request_for :: "ip \<Rightarrow> u32 \<Rightarrow> u32 \<Rightarrow> u16 \<Rightarrow> packet \<Rightarrow> Ipv4InterfaceAddress \<Rightarrow> bool" where
  "request_for dst ident seqNo ttl q iface \<longleftrightarrow> p_ttl q = Some (ucast ttl) \<and>
     (\<exists>h. received_as RreqHeader_Deserialize AODVTYPE_RREQ h (Some q) \<and> rq_dst h = dst \<and> rq_requestID h = ident \<and>
       rq_origin h = ia_local iface \<and> rq_originSeqNo h = seqNo \<and> rq_hopCount h = 0)"

lemma request_on_sends:
  assumes "rq_dst h = dst" and "rq_requestID h = ident" and "rq_originSeqNo h = n" and "rq_hopCount h = 0"
  shows "fold_opt (request_on dst ttl h) js s = Some s' \<Longrightarrow>
    \<exists>sent. m_pending s' = m_pending s @ sent \<and> on_every_interface (request_for dst ident n ttl) js sent \<and>
      m_requestId s' = m_requestId s \<and> m_rreqCount s' = m_rreqCount s"
proof (induction js arbitrary: s)
  case (Cons j js)
  let ?h = "h\<lparr>rq_origin := ia_local (snd j)\<rparr>"
  obtain q where q: "control_packet (ucast ttl) RreqHeader_GetSerializedSize (RreqHeader_Serialize ?h) AODVTYPE_RREQ = Some q"
    "p_ttl q = Some (ucast ttl)" "received_as RreqHeader_Deserialize AODVTYPE_RREQ ?h (Some q)"
    by (rule request_packet [of "ucast ttl" ?h])
  then have r: "request_for dst ident n ttl q (snd j)" using assms by (auto simp: request_for_def)
  from Cons.prems obtain s1 where s1: "request_on dst ttl h j s = Some s1" "fold_opt (request_on dst ttl h) js s1 = Some s'"
    by (auto elim!: bind_Some_elim)
  from s1(1) q(1) obtain t where p: "m_pending s1 = m_pending s @ [(t, PendingSendTo (fst j) q (bcast_destination (snd j)))]"
    "m_requestId s1 = m_requestId s" "m_rreqCount s1 = m_rreqCount s"
    by (auto simp: request_on_def Let_def case_prod_beta ScheduleSendTo_def GetInteger_def Simulator_Schedule_def StartRttProbe_def)
  from Cons.IH [OF s1(2)] obtain sent where "m_pending s' = m_pending s1 @ sent"
    "on_every_interface (request_for dst ident n ttl) js sent" "m_requestId s' = m_requestId s1" "m_rreqCount s' = m_rreqCount s1"
    by blast
  with p on_every_interface_Cons [of "request_for dst ident n ttl" q j, OF r]
  show ?case by (intro exI [of _ "(t, PendingSendTo (fst j) q (bcast_destination (snd j))) # sent"]) simp
qed simp

text \<open>
  What \<open>SendRequest\<close> does below the rate limit: it takes the next request identifier, counts
  the request, and schedules it once on every interface.
\<close>

lemma lookupRoute_keeps:
  assumes "lookupRoute a rt s = (b, rt', s')"
  shows "s' = s\<lparr>m_routingTable := RoutingTable_Purge (m_now s) (m_routingTable s)\<rparr>"
  using assms by (auto simp: lookupRoute_eq split: option.splits)

lemma ScheduleRreqRetry_keeps:
  assumes "ScheduleRreqRetry dst s = Some s'"
  shows "m_pending s' = m_pending s \<and> m_requestId s' = m_requestId s \<and> m_rreqCount s' = m_rreqCount s"
proof -
  let ?s = "s\<lparr>m_addressReqTimer := map_put dst None (m_addressReqTimer s)\<rparr>"
  obtain f rt s1 where l: "lookupRoute dst (newRt ?s) ?s = (f, rt, s1)" by (metis prod_cases3)
  have "m_pending s1 = m_pending s" "m_requestId s1 = m_requestId s" "m_rreqCount s1 = m_rreqCount s"
    unfolding lookupRoute_keeps [OF l] by simp_all
  with assms l show ?thesis by (auto simp: ScheduleRreqRetry_def Let_def elim!: bind_Some_elim)
qed

lemma SendRequest_sends:
  assumes "SendRequest dst s = Some s'" and "m_rreqCount s \<noteq> m_rreqRateLimit (m_par s)"
  shows "\<exists>sent ttl. m_pending s' = m_pending s @ sent \<and>
    on_every_interface (request_for dst (m_requestId s + 1) (m_seqNo s + 1) ttl) (m_socketAddresses s) sent \<and>
    m_requestId s' = m_requestId s + 1 \<and> m_rreqCount s' = m_rreqCount s + 1"
proof -
  let ?s1 = "s\<lparr>m_rreqCount := m_rreqCount s + 1\<rparr>" and ?h0 = "RreqHeader_default\<lparr>rq_dst := dst\<rparr>"
  obtain f rt s2 where l: "lookupRoute dst (newRt ?s1) ?s1 = (f, rt, s2)" by (metis prod_cases3)
  obtain ttl h s3 where r: "(if f then request_known rt ?h0 s2 else request_new dst ?h0 s2) = (ttl, h, s3)"
    by (metis prod_cases3)
  have s2: "s2 = ?s1\<lparr>m_routingTable := RoutingTable_Purge (m_now ?s1) (m_routingTable ?s1)\<rparr>" by (rule lookupRoute_keeps [OF l])
  have dst: "rq_dst h = dst"
    using r by (auto simp: request_known_def request_new_def Let_def RreqHeader_SetUnknownSeqno_def
        RreqHeader_default_def split: if_splits)
  have "(\<exists>e. s3 = updateRoute e s2) \<or> (\<exists>e. s3 = addRoute e s2)"
  proof (cases f)
    case True
    with r have "\<exists>e. s3 = updateRoute e s2" by (auto simp: request_known_def Let_def)
    then show ?thesis ..
  next
    case False
    with r have "\<exists>e. s3 = addRoute e s2" by (auto simp: request_new_def Let_def)
    then show ?thesis ..
  qed
  then obtain T where "s3 = s2\<lparr>m_routingTable := T\<rparr>" unfolding updateRoute_def addRoute_def by blast
  then have s3: "s3 = ?s1\<lparr>m_routingTable := T\<rparr>" unfolding s2 by simp
  let ?s4 = "s3\<lparr>m_seqNo := m_seqNo s + 1, m_requestId := m_requestId s + 1\<rparr>"
  let ?h1 = "if m_gratuitousReply (m_par s) then RreqHeader_SetGratuitousRrep True h else h"
  let ?h2 = "if m_destinationOnly (m_par s) then RreqHeader_SetDestinationOnly True ?h1 else ?h1"
  let ?h' = "?h2\<lparr>rq_originSeqNo := m_seqNo s + 1, rq_requestID := m_requestId s + 1, rq_hopCount := 0\<rparr>"
  have h': "rq_dst ?h' = dst" "rq_requestID ?h' = m_requestId s + 1" "rq_originSeqNo ?h' = m_seqNo s + 1"
      "rq_hopCount ?h' = 0"
    using dst by (simp_all add: RreqHeader_SetGratuitousRrep_def RreqHeader_SetDestinationOnly_def)
  have "SendRequest dst s = Option.bind (fold_opt (request_on dst ttl ?h') (m_socketAddresses s) ?s4) (ScheduleRreqRetry dst)"
    using assms(2) l r unfolding s3 by (simp add: SendRequest_def Let_def)
  with assms(1) obtain s5 where s5: "fold_opt (request_on dst ttl ?h') (m_socketAddresses s) ?s4 = Some s5"
      "ScheduleRreqRetry dst s5 = Some s'"
    by (auto elim!: bind_Some_elim)
  from request_on_sends [OF h' s5(1)] ScheduleRreqRetry_keeps [OF s5(2)] s3 show ?thesis by auto
qed

section \<open>The release of waiting packets\<close>

lemma dequeue_first_filter:
  "dequeue_first dst es = Some (e, rest) \<Longrightarrow>
     filter (\<lambda>e. entry_dst e = dst) es = e # filter (\<lambda>e. entry_dst e = dst) rest \<and>
     filter (\<lambda>e. entry_dst e \<noteq> dst) es = filter (\<lambda>e. entry_dst e \<noteq> dst) rest \<and>
     length es = Suc (length rest) \<and> set rest \<subseteq> set es"
  by (induction dst es arbitrary: rest rule: dequeue_first.induct)
    (auto split: if_splits option.splits)

text \<open>Whether a queued packet may leave by the route's device, and what is sent of it.\<close>

definition right_device :: "Ipv4 \<Rightarrow> Ipv4Route \<Rightarrow> QueueEntry \<Rightarrow> bool" where
  "right_device v route e \<longleftrightarrow>
     p_oif (q_packet e) \<in> {None, Some (-1), Some (Ipv4_GetInterfaceForDevice v (rt_dev route))}"

definition released :: "Ipv4Route \<Rightarrow> QueueEntry \<Rightarrow> effect" where
  "released route e = UnicastForward (q_ucb e) route ((q_packet e)\<lparr>p_oif := None\<rparr>)
     ((q_header e)\<lparr>ih_src := rt_source route, ih_ttl := ih_ttl (q_header e) + 1\<rparr>)"

abbreviation fresh :: "aodv \<Rightarrow> QueueEntry list" where
  "fresh s \<equiv> filter (\<lambda>e. \<not> RequestQueue_IsExpired (m_now s) e) (rq_queue (m_queue s))"

abbreviation stale :: "aodv \<Rightarrow> QueueEntry list" where
  "stale s \<equiv> filter (RequestQueue_IsExpired (m_now s)) (rq_queue (m_queue s))"

lemma send_from_queue_spec:
  assumes "m_ipv4 s = Some v" and "length (rq_queue (m_queue s)) \<le> fuel"
  shows "\<exists>s'. send_from_queue fuel dst route s = Some s' \<and>
    m_out s' = m_out s @ queue_drops (stale s) @ 
      map (released route) (takeWhile (right_device v route) (filter (\<lambda>e. entry_dst e = dst) (fresh s))) \<and>
    filter (\<lambda>e. entry_dst e = dst) (rq_queue (m_queue s')) =
      tl (dropWhile (right_device v route) (filter (\<lambda>e. entry_dst e = dst) (fresh s))) \<and>
    filter (\<lambda>e. entry_dst e \<noteq> dst) (rq_queue (m_queue s')) = filter (\<lambda>e. entry_dst e \<noteq> dst) (fresh s)"
  using assms
proof (induction fuel arbitrary: s)
  case 0
  then show ?case
    by (simp add: send_from_queue.simps RequestQueue_Dequeue_def RequestQueue_Purge_def Let_def queue_drops_def)
next
  case (Suc fuel)
  show ?case
  proof (cases "dequeue_first dst (fresh s)")
    case None
    then show ?thesis
      using dequeue_first_None [of dst "fresh s", folded filter_empty_conv]
      by (simp add: send_from_queue.simps RequestQueue_Dequeue_def RequestQueue_Purge_def Let_def)
  next
    case (Some r)
    obtain e rest where r: "r = (e, rest)" by (cases r)
    note d = dequeue_first_filter [OF Some [unfolded r]]
    have idem: "filter (\<lambda>e. \<not> RequestQueue_IsExpired (m_now s) e) rest = rest"
      "filter (RequestQueue_IsExpired (m_now s)) rest = []"
      using d by (auto simp: filter_id_conv filter_empty_conv)
    have len: "length rest \<le> fuel"
      using d Suc.prems(2) length_filter_le [of "\<lambda>e. \<not> RequestQueue_IsExpired (m_now s) e" "rq_queue (m_queue s)"]
      by simp
    let ?s1 = "s\<lparr>m_queue := (m_queue s)\<lparr>rq_queue := rest\<rparr>, m_out := m_out s @ queue_drops (stale s)\<rparr>"
    let ?s2 = "?s1\<lparr>m_out := m_out ?s1 @ [released route e]\<rparr>"
    have step: "send_from_queue (Suc fuel) dst route s =
        (if right_device v route e then send_from_queue fuel dst route ?s2 else Some ?s1)"
      using Some r Suc.prems(1)
      by (auto simp: send_from_queue.simps [of "Suc fuel"] RequestQueue_Dequeue_def
          RequestQueue_Purge_def Let_def right_device_def released_def)
    show ?thesis
    proof (cases "right_device v route e")
      case True
      from Suc.IH [of ?s2] Suc.prems(1) len idem d step True show ?thesis
        by (auto simp: queue_drops_def)
    next
      case False
      with step d idem show ?thesis by simp
    qed
  qed
qed

text \<open>
  Property C27: once a route is found, the packets waiting for the destination are released in
  arrival order, each with the route's source address and its TTL restored, and the loop
  always ends. A packet bound to another device is lost without a notice and ends the release:
  the packets behind it stay queued although the route is there. Other destinations are not
  touched.
\<close>

theorem queued_packets_released:
  assumes "m_ipv4 s = Some v"
    and "mine = filter (\<lambda>e. entry_dst e = dst) (fresh s)"
  shows "case SendPacketFromQueue dst route s of
      None \<Rightarrow> False
    | Some s' \<Rightarrow>
        m_out s' = m_out s @ queue_drops (stale s) @
          map (released route) (takeWhile (right_device v route) mine) \<and>
        filter (\<lambda>e. entry_dst e = dst) (rq_queue (m_queue s')) = tl (dropWhile (right_device v route) mine) \<and>
        filter (\<lambda>e. entry_dst e \<noteq> dst) (rq_queue (m_queue s')) = filter (\<lambda>e. entry_dst e \<noteq> dst) (fresh s)"
  using send_from_queue_spec [OF assms(1) le_refl, of dst route] assms(2)
  by (auto simp: SendPacketFromQueue_def)

abbreviation waiting :: "int option \<Rightarrow> u64 \<Rightarrow> QueueEntry" where
  "waiting oif uid \<equiv> QueueEntry_make 0 (Packet_Create\<lparr>p_oif := oif, p_uid := uid\<rparr>)
     (Ipv4Header_default\<lparr>ih_dst := 9\<rparr>) 0 0 100"

text \<open>Three packets wait; the second is bound to an interface that does not exist.\<close>

theorem queued_packets_released_witness:
  "let s = node0\<lparr>m_queue := (m_queue node0)\<lparr>rq_queue := [waiting (Some (-1)) 1, waiting (Some 7) 2, waiting None 3]\<rparr>\<rparr>;
       s' = the (SendPacketFromQueue 9 (e_route neighbor_entry) s)
   in m_out s' = [released (e_route neighbor_entry) (waiting (Some (-1)) 1)] \<and>
     filter (\<lambda>e. entry_dst e = 9) (rq_queue (m_queue s')) = [waiting None 3]"
proof -
  let ?w = "[waiting (Some (-1)) 1, waiting (Some 7) 2, waiting None 3]"
  let ?s = "node0\<lparr>m_queue := (m_queue node0)\<lparr>rq_queue := ?w\<rparr>\<rparr>"
  let ?r = "e_route neighbor_entry"
  have v: "m_ipv4 ?s = Some (the (m_ipv4 node0))" by (simp add: node0_def)
  have q: "fresh ?s = ?w" "stale ?s = []" "filter (\<lambda>e. entry_dst e = 9) ?w = ?w"
    by (simp_all add: RequestQueue_IsExpired_def QueueEntry_GetExpireTime_def QueueEntry_make_def
        Ipv4Header_default_def)
  have d: "\<not> right_device (the (m_ipv4 node0)) ?r (waiting (Some 7) 2)"
    "right_device (the (m_ipv4 node0)) ?r (waiting (Some (-1)) 1)"
    by (code_simp, code_simp)
  from queued_packets_released [OF v, of ?w 9 ?r] q d show ?thesis
    by (cases "SendPacketFromQueue 9 ?r ?s") (simp_all add: queue_drops_def)
qed

section \<open>The end of a search\<close>

text \<open>
  When the request timer expires for a destination without a valid route and the
  request has been tried often enough, or the entry is no longer in search, the node gives up:
  no timer, route or waiting packet for the destination is left, the senders of the packets are
  told, and no request is sent.
\<close>

theorem search_given_up:
  assumes "rt_wf (m_routingTable s)" and "live_routes s dst = Some e" and "e_flag e \<noteq> VALID"
    and "ucast (e_reqCount e) = m_rreqRetries (m_par s) \<or> e_flag e \<noteq> IN_SEARCH"
  shows "case RouteRequestTimerExpire dst s of
      None \<Rightarrow> False
    | Some s' \<Rightarrow> map_of (m_addressReqTimer s') dst = None \<and> routes s' dst = None \<and>
        rq_queue (m_queue s') = filter (\<lambda>e. entry_dst e \<noteq> dst) (fresh s) \<and>
        m_out s' = m_out s @ queue_drops (stale s @ filter (\<lambda>e. entry_dst e = dst) (fresh s)) \<and>
        m_pending s' = m_pending s \<and> m_rreqCount s' = m_rreqCount s"
proof -
  let ?s = "s\<lparr>m_routingTable := RoutingTable_Purge (m_now s) (m_routingTable s),
    m_addressReqTimer := map_erase dst (m_addressReqTimer s)\<rparr>"
  have r: "RouteRequestTimerExpire dst s = Some (dropQueued dst (deleteRoute dst ?s))"
    using assms(2-4) by (auto simp: RouteRequestTimerExpire_def lookupValidRoute_eq Let_def)
  have "routes (deleteRoute dst ?s) dst = None"
    using rstore.del_spec [of "m_now s" dst "m_routingTable ?s"]
    by (cases "RoutingTable_DeleteRoute (m_now s) dst (m_routingTable ?s)") (auto simp: deleteRoute_def)
  with r show ?thesis
    by (simp add: dropQueued_def RequestQueue_DropPacketWithDst_def RequestQueue_Purge_def deleteRoute_def)
qed


theorem search_given_up_witness:
  "let s = (node_with_route (neighbor_entry\<lparr>e_flag := IN_SEARCH, e_reqCount := 2\<rparr>))
         \<lparr>m_addressReqTimer := [(9, None)]\<rparr>;
       s' = the (RouteRequestTimerExpire 9 s)
   in map_of (m_addressReqTimer s') 9 = None \<and> routes s' 9 = None \<and> m_pending s' = []"
proof -
  let ?e = "neighbor_entry\<lparr>e_flag := IN_SEARCH, e_reqCount := 2\<rparr>"
  let ?s = "(node_with_route ?e)\<lparr>m_addressReqTimer := [(9, None)]\<rparr>"
  have a: "rt_wf (m_routingTable ?s)" "live_routes ?s 9 = Some ?e" "e_flag ?e \<noteq> VALID"
    "ucast (e_reqCount ?e) = m_rreqRetries (m_par ?s) \<or> e_flag ?e \<noteq> IN_SEARCH"
    by (simp_all add: sample_simps AodvParams_default_def)
  from search_given_up [OF a] show ?thesis
    by (cases "RouteRequestTimerExpire 9 ?s") simp_all
qed

section \<open>The expanding ring\<close>

text \<open>What an unanswered request makes of the entry that is searched for.\<close>

definition searched :: "AodvParams \<Rightarrow> RoutingTableEntry \<Rightarrow> RoutingTableEntry" where
  "searched p e =
     (let ttl = next_ttl p e;
          e = (if ucast ttl = m_netDiameter p then Entry_IncrementRreqCnt e else e)
      in e\<lparr>e_hops := ttl, e_flag := IN_SEARCH\<rparr>)"

lemma request_known_searched:
  "snd (snd (request_known e h s)) =
     updateRoute (Entry_SetLifeTime (m_now s) (m_pathDiscoveryTime (m_par s)) (searched (m_par s) e)) s"
  by (simp add: request_known_def searched_def Let_def)

lemma ring_sum:
  fixes a b :: u16
  assumes "uint a + uint b < 65536"
  shows "uint (a + b) = uint a + uint b"
  using assms by (simp add: uint_word_ariths)

lemma ucast_eq_iff: "(ucast (a::u16) = (b::u32)) \<longleftrightarrow> uint a = uint b"
  using uint_lt2p [of a] by (simp add: word_uint_eq_iff unsigned_ucast_eq take_bit_eq_mod)

lemma searched_growing:
  assumes "e_flag e = IN_SEARCH" and "uint (e_hops e) + uint (m_ttlIncrement p) \<le> uint (m_ttlThreshold p)"
    and "uint (m_ttlThreshold p) < uint (m_netDiameter p)"
  shows "e_flag (searched p e) = IN_SEARCH \<and> e_reqCount (searched p e) = e_reqCount e \<and>
    uint (e_hops (searched p e)) = uint (e_hops e) + uint (m_ttlIncrement p)"
proof -
  have u: "uint (e_hops e + m_ttlIncrement p) = uint (e_hops e) + uint (m_ttlIncrement p)"
    using assms(2) uint_lt2p [of "m_ttlThreshold p"] by (intro ring_sum) simp
  have "next_ttl p e = e_hops e + m_ttlIncrement p"
    using assms(1,2) by (simp add: next_ttl_def word_less_def u)
  then show ?thesis using assms u by (simp add: searched_def Let_def ucast_eq_iff)
qed

lemma searched_diameter:
  assumes "e_flag e = IN_SEARCH" and "uint (e_hops e) + uint (m_ttlIncrement p) < 65536"
    and "uint (m_ttlThreshold p) < uint (e_hops e) + uint (m_ttlIncrement p)"
    and "uint (m_netDiameter p) < 65536"
  shows "e_flag (searched p e) = IN_SEARCH \<and> e_reqCount (searched p e) = e_reqCount e + 1 \<and>
    uint (e_hops (searched p e)) = uint (m_netDiameter p)"
proof -
  have n: "next_ttl p e = ucast (m_netDiameter p)"
    using assms(1,3) by (simp add: next_ttl_def word_less_def ring_sum [OF assms(2)])
  have u: "uint (ucast (m_netDiameter p) :: u16) = uint (m_netDiameter p)"
    using assms(4) by (simp add: unsigned_ucast_eq take_bit_eq_mod)
  show ?thesis
    using assms(1) n u
    by (simp add: searched_def Let_def ucast_eq_iff Entry_IncrementRreqCnt_def)
qed

text \<open>The node tries the diameter after at most threshold / increment + 1 requests.\<close>

lemma ring_reaches_diameter:
  assumes "0 < uint (m_ttlIncrement p)" and "uint (m_ttlThreshold p) < uint (m_netDiameter p)"
    and "uint (m_netDiameter p) + uint (m_ttlIncrement p) < 65536"
    and "e_flag e = IN_SEARCH" and "uint (e_hops e) \<le> uint (m_ttlThreshold p)"
  shows "\<exists>n \<le> nat (uint (m_ttlThreshold p) - uint (e_hops e)) + 1.
      e_flag ((searched p ^^ n) e) = IN_SEARCH \<and> e_reqCount ((searched p ^^ n) e) = e_reqCount e + 1 \<and>
      uint (e_hops ((searched p ^^ n) e)) = uint (m_netDiameter p)"
  using assms(4,5)
proof (induction "nat (uint (m_ttlThreshold p) - uint (e_hops e))" arbitrary: e rule: less_induct)
  case less
  show ?case
  proof (cases "uint (e_hops e) + uint (m_ttlIncrement p) \<le> uint (m_ttlThreshold p)")
    case True
    note g = searched_growing [OF less.prems(1) True assms(2)]
    have "nat (uint (m_ttlThreshold p) - uint (e_hops (searched p e))) <
        nat (uint (m_ttlThreshold p) - uint (e_hops e))" using g True assms(1) by simp
    from less.hyps [OF this] g True obtain n where
      n: "n \<le> nat (uint (m_ttlThreshold p) - uint (e_hops (searched p e))) + 1"
      "e_flag ((searched p ^^ n) (searched p e)) = IN_SEARCH"
      "e_reqCount ((searched p ^^ n) (searched p e)) = e_reqCount e + 1"
      "uint (e_hops ((searched p ^^ n) (searched p e))) = uint (m_netDiameter p)" by auto
    have "Suc n \<le> nat (uint (m_ttlThreshold p) - uint (e_hops e)) + 1"
      using n(1) g True assms(1) by simp
    with n(2-4) show ?thesis by (intro exI [of _ "Suc n"]) (simp add: funpow_swap1)
  next
    case False
    have "uint (e_hops e) + uint (m_ttlIncrement p) < 65536" using less.prems(2) assms(2,3) by linarith
    from searched_diameter [OF less.prems(1) this] False assms(1,3) show ?thesis
      by (intro exI [of _ 1]) auto
  qed
qed

lemma ring_stays:
  assumes "uint (m_ttlThreshold p) < uint (m_netDiameter p)" and "0 < uint (m_ttlIncrement p)"
    and "uint (m_netDiameter p) + uint (m_ttlIncrement p) < 65536"
    and "e_flag e = IN_SEARCH" and "uint (e_hops e) = uint (m_netDiameter p)"
  shows "e_flag ((searched p ^^ n) e) = IN_SEARCH \<and>
    e_reqCount ((searched p ^^ n) e) = e_reqCount e + word_of_nat n \<and>
    uint (e_hops ((searched p ^^ n) e)) = uint (m_netDiameter p)"
proof (induction n)
  case (Suc n)
  let ?e = "(searched p ^^ n) e"
  have "e_flag (searched p ?e) = IN_SEARCH \<and> e_reqCount (searched p ?e) = e_reqCount ?e + 1 \<and>
      uint (e_hops (searched p ?e)) = uint (m_netDiameter p)"
    by (rule searched_diameter) (use Suc assms in auto)
  with Suc show ?case by simp
qed (use assms in simp)

text \<open>
  An unanswered search ends. With a positive increment, a threshold below the
  network diameter and no 16-bit overflow, after at most (threshold - first TTL + 1) +
  (retries - 1) further requests the entry's count equals the retry limit, the condition
  under which the next timer expiry gives up.
\<close>

theorem search_ends:
  assumes "0 < uint (m_ttlIncrement p)" and "uint (m_ttlThreshold p) < uint (m_netDiameter p)"
    and "uint (m_netDiameter p) + uint (m_ttlIncrement p) < 65536" and "uint (m_rreqRetries p) < 256"
    and "e_flag e = IN_SEARCH" and "uint (e_hops e) \<le> uint (m_ttlThreshold p)" and "e_reqCount e = 0"
  shows "\<exists>n \<le> nat (uint (m_ttlThreshold p) - uint (e_hops e)) + unat (m_rreqRetries p).
      e_flag ((searched p ^^ n) e) = IN_SEARCH \<and>
      ucast (e_reqCount ((searched p ^^ n) e)) = m_rreqRetries p"
proof (cases "m_rreqRetries p = 0")
  case True
  then show ?thesis using assms(5,7) by (intro exI [of _ 0]) simp
next
  case False
  then obtain k where k: "unat (m_rreqRetries p) = Suc k" by (metis not0_implies_Suc unat_eq_zero)
  obtain n where n: "n \<le> nat (uint (m_ttlThreshold p) - uint (e_hops e)) + 1"
    "e_flag ((searched p ^^ n) e) = IN_SEARCH" "e_reqCount ((searched p ^^ n) e) = 1"
    "uint (e_hops ((searched p ^^ n) e)) = uint (m_netDiameter p)"
    using ring_reaches_diameter [OF assms(1-3,5,6)] assms(7) by auto
  note s = ring_stays [OF assms(2,1,3) n(2,4), of k]
  have "ucast (e_reqCount ((searched p ^^ k) ((searched p ^^ n) e))) = m_rreqRetries p"
  proof -
    have "unat (1 + word_of_nat k :: u8) = Suc k"
      using k assms(4) by (simp add: unat_word_ariths unat_of_nat uint_nat)
    moreover have "k < 255" using k assms(4) by (simp add: uint_nat)
    ultimately show ?thesis
      using s n(3) k by (simp add: word_unat_eq_iff unsigned_ucast_eq take_bit_eq_mod)
  qed
  moreover have "(searched p ^^ (k + n)) e = (searched p ^^ k) ((searched p ^^ n) e)"
    by (simp add: funpow_add)
  ultimately show ?thesis using s n(1) k by (intro exI [of _ "k + n"]) simp
qed

theorem search_ends_witness:
  "\<exists>n \<le> 8. ucast (e_reqCount ((searched AodvParams_default ^^ n)
     (neighbor_entry\<lparr>e_flag := IN_SEARCH\<rparr>))) = (2 :: u32)"
proof -
  have "\<exists>n \<le> nat (uint (m_ttlThreshold AodvParams_default) - uint (e_hops (neighbor_entry\<lparr>e_flag := IN_SEARCH\<rparr>)))
        + unat (m_rreqRetries AodvParams_default).
      e_flag ((searched AodvParams_default ^^ n) (neighbor_entry\<lparr>e_flag := IN_SEARCH\<rparr>)) = IN_SEARCH \<and>
      ucast (e_reqCount ((searched AodvParams_default ^^ n) (neighbor_entry\<lparr>e_flag := IN_SEARCH\<rparr>))) =
        m_rreqRetries AodvParams_default"
    by (rule search_ends) (simp_all add: AodvParams_default_def RoutingTableEntry_make_def)
  then show ?thesis by (auto simp: AodvParams_default_def RoutingTableEntry_make_def)
qed

end
