(* ===== verification/Aodv_Recv.thy ===== *)
theory Aodv_Recv
  imports Aodv_Send
begin

text \<open>
  The control messages a node receives: \<open>RecvAodv\<close> and the handlers it dispatches to, with the
  changes of this fork, the wormhole tunnel, the black hole and the RTT detector.
\<close>

section \<open>Sequence numbers and the TTL of a packet\<close>

text \<open>
  Sequence numbers are compared by a signed 32-bit subtraction. Where it overflows the
  behaviour is undefined, and the result is what the environment says.
\<close>

definition seq_diff :: "AodvEnv \<Rightarrow> u32 \<Rightarrow> u32 \<Rightarrow> int" where
  "seq_diff e a b =
     (let d = sint a - sint b in
      if - (2 ^ 31) \<le> d \<and> d < 2 ^ 31 then d else env_overflow e (sint a) (sint b))"

definition GetTtl :: "AodvEnv \<Rightarrow> packet \<Rightarrow> u8" where
  "GetTtl e p = (case p_ttl p of None \<Rightarrow> env_uninitTtl e | Some t \<Rightarrow> t)"

section \<open>RecvRequest\<close>

text \<open>\<open>MinimalLifetime\<close> of a reverse route; negative beyond the network diameter.\<close>

definition reverse_lifetime :: "AodvParams \<Rightarrow> u8 \<Rightarrow> time" where
  "reverse_lifetime p hop = 2 * m_netTraversalTime p - 2 * uint hop * m_nodeTraversalTime p"

text \<open>The receiver address a tunnel end pretends for a request from the other end.\<close>

definition worm_receiver :: "ip \<Rightarrow> ip \<Rightarrow> aodv \<Rightarrow> ip" where
  "worm_receiver src receiver s =
     (if EnableWrmAttack (m_wrm s) \<and> src = FirstEndOfWormTunnel (m_wrm s)
      then SecondEndOfWormTunnel (m_wrm s)
      else if EnableWrmAttack (m_wrm s) \<and> src = SecondEndOfWormTunnel (m_wrm s)
      then FirstEndOfWormTunnel (m_wrm s)
      else receiver)"

text \<open>
  The reverse route to the originator: the receiver address (changed on a new route by the
  tunnel), the local entry \<open>toOrigin\<close> and the state.
\<close>

definition rreq_reverse_route ::
    "RreqHeader \<Rightarrow> ip \<Rightarrow> ip \<Rightarrow> aodv \<Rightarrow> (ip \<times> RoutingTableEntry \<times> aodv) option" where
  "rreq_reverse_route h receiver src s =
     (let hop = rq_hopCount h;
          life = reverse_lifetime (m_par s) hop;
          (found, toOrigin, s) = lookupRoute (rq_origin h) (newRt s) s
      in if \<not> found then do {
           _ \<leftarrow> deviceFor receiver s;
           let receiver = worm_receiver src receiver s;
           d \<leftarrow> deviceFor receiver s;
           iface \<leftarrow> ifaceFor receiver s;
           Some (receiver, toOrigin,
                 addRoute (RoutingTableEntry_make (m_now s) (Some d) (rq_origin h) True
                             (rq_originSeqNo h) iface (ucast hop) src life) s)
         }
         else do {
           let toOrigin =
             (if e_validSeqNo toOrigin \<and>
                 \<not> 0 < seq_diff (m_env s) (rq_originSeqNo h) (e_seqNo toOrigin)
              then toOrigin else toOrigin\<lparr>e_seqNo := rq_originSeqNo h\<rparr>);
           let toOrigin = Entry_SetNextHop src (toOrigin\<lparr>e_validSeqNo := True\<rparr>);
           d \<leftarrow> deviceFor receiver s;
           iface \<leftarrow> ifaceFor receiver s;
           let toOrigin = (Entry_SetOutputDevice (Some d) toOrigin)
                            \<lparr>e_iface := iface, e_hops := ucast hop\<rparr>;
           let toOrigin = Entry_SetLifeTime (m_now s)
                            (max life (Entry_GetLifeTime (m_now s) toOrigin)) toOrigin;
           Some (receiver, toOrigin, updateRoute toOrigin s)
         })"

definition rreq_neighbor_route :: "RreqHeader \<Rightarrow> ip \<Rightarrow> ip \<Rightarrow> aodv \<Rightarrow> aodv option" where
  "rreq_neighbor_route h receiver src s =
     (let (found, toNeighbor, s) = lookupRoute src (newRt s) s;
          active = m_activeRouteTimeout (m_par s)
      in do {
        d \<leftarrow> deviceFor receiver s;
        iface \<leftarrow> ifaceFor receiver s;
        Some (if \<not> found then
                addRoute (RoutingTableEntry_make (m_now s) (Some d) src False (rq_originSeqNo h)
                            iface 1 src active) s
              else
                let toNeighbor = Entry_SetLifeTime (m_now s) active toNeighbor;
                    toNeighbor = toNeighbor\<lparr>e_validSeqNo := False, e_seqNo := rq_originSeqNo h,
                                            e_flag := VALID\<rparr>;
                    toNeighbor = (Entry_SetOutputDevice (Some d) toNeighbor)
                                   \<lparr>e_iface := iface, e_hops := 1\<rparr>;
                    toNeighbor = Entry_SetNextHop src toNeighbor
                in updateRoute toNeighbor s)
      })"

text \<open>
  Whether to answer: \<open>None\<close> as header when the request was answered or dropped, the header to
  forward otherwise. A malicious node does not look the destination up, so \<open>toDst\<close> is a
  fresh entry, and it answers with a sequence number 100 above the requested one.
\<close>

definition rreq_answer ::
    "RreqHeader \<Rightarrow> ip \<Rightarrow> ip \<Rightarrow> RoutingTableEntry \<Rightarrow> aodv \<Rightarrow> (RreqHeader option \<times> aodv) option" where
  "rreq_answer h receiver src toOrigin s =
     (let bad = IsMalicious (m_wrm s);
          dst = rq_dst h;
          (found, toDst, s) = (if bad then (True, newRt s, s) else lookupRoute dst (newRt s) s)
      in if \<not> found then Some (Some h, s)
         else if Entry_GetNextHop toDst = src then Some (None, s)
         else if bad \<or>
                 (RreqHeader_GetUnknownSeqno h \<or>
                  0 \<le> seq_diff (m_env s) (e_seqNo toDst) (rq_dstSeqNo h)) \<and> e_validSeqNo toDst
         then
           if bad \<or> (\<not> RreqHeader_GetDestinationOnly h \<and> e_flag toDst = VALID) then
             let (_, toOrigin, s) = lookupRoute (rq_origin h) toOrigin s in
             if bad then do {
               d \<leftarrow> deviceFor receiver s;
               iface \<leftarrow> ifaceFor receiver s;
               let falseToDst = RoutingTableEntry_make (m_now s) (Some d) dst True
                     (rq_dstSeqNo h + 100) iface 1 dst (m_activeRouteTimeout (m_par s));
               s \<leftarrow> SendReplyByIntermediateNode falseToDst toOrigin (RreqHeader_GetGratuitousRrep h) s;
               Some (None, s)
             }
             else do {
               s \<leftarrow> SendReplyByIntermediateNode toDst toOrigin (RreqHeader_GetGratuitousRrep h) s;
               Some (None, s)
             }
           else
             Some (Some (RreqHeader_SetUnknownSeqno False (h\<lparr>rq_dstSeqNo := e_seqNo toDst\<rparr>)), s)
         else Some (Some h, s))"

definition rreq_forward :: "packet \<Rightarrow> RreqHeader \<Rightarrow> aodv \<Rightarrow> aodv option" where
  "rreq_forward p h s =
     (let ttl = GetTtl (m_env s) p in
      if ttl < 2 then Some s
      else fold_opt (\<lambda>(k, iface) s. do {
             q \<leftarrow> control_packet (ttl - 1) RreqHeader_GetSerializedSize (RreqHeader_Serialize h)
                    AODVTYPE_RREQ;
             let s = s\<lparr>m_lastBcastTime := m_now s\<rparr>;
             Some (ScheduleSendTo k q (bcast_destination iface) s)
           }) (m_socketAddresses s) s)"

definition RecvRequest :: "packet \<Rightarrow> ip \<Rightarrow> ip \<Rightarrow> aodv \<Rightarrow> aodv option" where
  "RecvRequest p receiver src s =
     do {
       (h, p) \<leftarrow> Packet_RemoveHeader RreqHeader_Deserialize p;
       let (found, toPrev, s) = lookupRoute src (newRt s) s;
       if found \<and> e_blackListState toPrev then Some s
       else
         let (dup, c) = IdCache_IsDuplicate (m_now s) (rq_origin h) (rq_requestID h) (m_rreqIdCache s);
             s = s\<lparr>m_rreqIdCache := c\<rparr>
         in if dup then Some s
         else do {
           let h = h\<lparr>rq_hopCount := rq_hopCount h + 1\<rparr>;
           (receiver, toOrigin, s) \<leftarrow> rreq_reverse_route h receiver src s;
           s \<leftarrow> rreq_neighbor_route h receiver src s;
           s \<leftarrow> nbUpdate src (uint (m_allowedHelloLoss (m_par s)) * m_helloInterval (m_par s)) s;
           if IsMyOwnAddress (rq_dst h) s then
             let (_, toOrigin, s) = lookupRoute (rq_origin h) toOrigin s in
             SendReply h toOrigin s
           else do {
             (fwd, s) \<leftarrow> rreq_answer h receiver src toOrigin s;
             case fwd of None \<Rightarrow> Some s | Some h \<Rightarrow> rreq_forward p h s
           }
         }
     }"

section \<open>RecvReply\<close>

definition ProcessHello :: "RrepHeader \<Rightarrow> ip \<Rightarrow> aodv \<Rightarrow> aodv option" where
  "ProcessHello h receiver s =
     (let dst = rp_dst h;
          hello = uint (m_allowedHelloLoss (m_par s)) * m_helloInterval (m_par s);
          (found, toNeighbor, s) = lookupRoute dst (newRt s) s
      in do {
        s \<leftarrow>
          (if \<not> found then do {
             d \<leftarrow> deviceFor receiver s;
             iface \<leftarrow> ifaceFor receiver s;
             Some (addRoute (RoutingTableEntry_make (m_now s) (Some d) dst True (rp_dstSeqNo h) iface 1
                               dst (RrepHeader_GetLifeTime h)) s)
           }
           else do {
             let toNeighbor = Entry_SetLifeTime (m_now s)
                                (max hello (Entry_GetLifeTime (m_now s) toNeighbor)) toNeighbor;
             let toNeighbor = toNeighbor\<lparr>e_seqNo := rp_dstSeqNo h, e_validSeqNo := True,
                                         e_flag := VALID\<rparr>;
             let receiver = worm_receiver dst receiver s;
             d \<leftarrow> deviceFor receiver s;
             iface \<leftarrow> ifaceFor receiver s;
             let toNeighbor = (Entry_SetOutputDevice (Some d) toNeighbor)
                                \<lparr>e_iface := iface, e_hops := 1\<rparr>;
             Some (updateRoute (Entry_SetNextHop dst toNeighbor) s)
           });
        if m_enableHello (m_par s) then nbUpdate dst hello s else Some s
      })"

text \<open>The detector's part: whether the reply is rejected.\<close>

definition rrep_rejected :: "RrepHeader \<Rightarrow> ip \<Rightarrow> ip \<Rightarrow> aodv \<Rightarrow> (bool \<times> aodv) option" where
  "rrep_rejected h receiver sender s =
     (if m_enableRttWormholeDetect (m_wrm s) then
        if IsNeighborTemporarilySuspect sender s then Some (True, s)
        else case map_of (m_rttProbeStartTime s) (ProbeKey (rp_origin h) (rp_dst h)) of
               None \<Rightarrow> Some (False, s)
             | Some start \<Rightarrow>
                 EvaluateRttProbe (rp_origin h) (rp_dst h) sender receiver (m_now s - start) s
      else Some (False, s))"

text \<open>
  The rules (i) to (iv) under which a reply replaces the entry for its destination.
\<close>

definition rrep_replaces :: "AodvEnv \<Rightarrow> RrepHeader \<Rightarrow> RoutingTableEntry \<Rightarrow> bool" where
  "rrep_replaces e h toDst \<longleftrightarrow>
     (if \<not> e_validSeqNo toDst then True
      else if 0 < seq_diff e (rp_dstSeqNo h) (e_seqNo toDst) then True
      else if rp_dstSeqNo h = e_seqNo toDst \<and> e_flag toDst \<noteq> VALID then True
      else rp_dstSeqNo h = e_seqNo toDst \<and> uint (rp_hopCount h) < uint (e_hops toDst))"

definition rrep_forward_route ::
    "RrepHeader \<Rightarrow> RoutingTableEntry \<Rightarrow> aodv \<Rightarrow> RoutingTableEntry \<times> aodv" where
  "rrep_forward_route h newEntry s =
     (let (found, toDst, s) = lookupRoute (rp_dst h) (newRt s) s in
      if found then
        (toDst, if rrep_replaces (m_env s) h toDst then updateRoute newEntry s else s)
      else (toDst, addRoute newEntry s))"

text \<open>The precursors a forwarded reply records on the four routes involved.\<close>

definition rrep_precursors :: "RrepHeader \<Rightarrow> RoutingTableEntry \<Rightarrow> aodv \<Rightarrow> RoutingTableEntry \<times> aodv" where
  "rrep_precursors h toOrigin s =
     (let (valid, toDst, s) = lookupValidRoute (rp_dst h) (newRt s) s in
      if \<not> valid then (toOrigin, s)
      else
        let toDst = snd (Entry_InsertPrecursor (Entry_GetNextHop toOrigin) toDst);
            s = updateRoute toDst s;
            (_, toNextHopToDst, s) = lookupRoute (Entry_GetNextHop toDst) (newRt s) s;
            s = updateRoute (snd (Entry_InsertPrecursor (Entry_GetNextHop toOrigin) toNextHopToDst)) s;
            toOrigin = snd (Entry_InsertPrecursor (Entry_GetNextHop toDst) toOrigin);
            s = updateRoute toOrigin s;
            (_, toNextHopToOrigin, s) = lookupRoute (Entry_GetNextHop toOrigin) (newRt s) s;
            s = updateRoute (snd (Entry_InsertPrecursor (Entry_GetNextHop toDst) toNextHopToOrigin)) s
        in (toOrigin, s))"

definition rrep_forward :: "packet \<Rightarrow> RrepHeader \<Rightarrow> aodv \<Rightarrow> aodv option" where
  "rrep_forward p h s =
     (let (found, toOrigin, s) = lookupRoute (rp_origin h) (newRt s) s in
      if \<not> found \<or> e_flag toOrigin = IN_SEARCH then Some s
      else
        let toOrigin = Entry_SetLifeTime (m_now s)
              (max (m_activeRouteTimeout (m_par s)) (Entry_GetLifeTime (m_now s) toOrigin)) toOrigin;
            s = updateRoute toOrigin s;
            (toOrigin, s) = rrep_precursors h toOrigin s;
            ttl = GetTtl (m_env s) p
        in if ttl < 2 then Some s
           else do {
             q \<leftarrow> control_packet (ttl - 1) RrepHeader_GetSerializedSize (RrepHeader_Serialize h)
                    AODVTYPE_RREP;
             k \<leftarrow> FindSocketWithInterfaceAddress (e_iface toOrigin) s;
             Socket_SendTo k q (Entry_GetNextHop toOrigin) s
           })"

definition RecvReply :: "packet \<Rightarrow> ip \<Rightarrow> ip \<Rightarrow> aodv \<Rightarrow> aodv option" where
  "RecvReply p receiver sender s =
     do {
       (h, p) \<leftarrow> Packet_RemoveHeader RrepHeader_Deserialize p;
       let dst = rp_dst h;
       let h = h\<lparr>rp_hopCount := rp_hopCount h + 1\<rparr>;
       if dst = rp_origin h then ProcessHello h receiver s
       else do {
         (rejected, s) \<leftarrow> rrep_rejected h receiver sender s;
         if rejected then Some s
         else do {
           d \<leftarrow> deviceFor receiver s;
           iface \<leftarrow> ifaceFor receiver s;
           let newEntry = RoutingTableEntry_make (m_now s) (Some d) dst True (rp_dstSeqNo h) iface
                            (ucast (rp_hopCount h)) sender (RrepHeader_GetLifeTime h);
           let (toDst, s) = rrep_forward_route h newEntry s;
           s \<leftarrow> (if RrepHeader_GetAckRequired h then SendReplyAck sender s else Some s);
           let h = (if RrepHeader_GetAckRequired h then RrepHeader_SetAckRequired False h else h);
           if IsMyOwnAddress (rp_origin h) s then
             let s = (if e_flag toDst = IN_SEARCH
                      then (updateRoute newEntry s)
                             \<lparr>m_addressReqTimer := map_erase dst (m_addressReqTimer s)\<rparr>
                      else s);
                 (_, toDst, s) = lookupRoute dst toDst s
             in SendPacketFromQueue dst (e_route toDst) s
           else rrep_forward p h s
         }
       }
     }"

definition RecvReplyAck :: "ip \<Rightarrow> aodv \<Rightarrow> aodv" where
  "RecvReplyAck neighbor s =
     (let (found, rt, s) = lookupRoute neighbor (newRt s) s in
      if found then updateRoute (rt\<lparr>e_ackTimer := Timer_Cancel (e_ackTimer rt), e_flag := VALID\<rparr>) s
      else s)"

section \<open>RecvAodv\<close>

text \<open>A verification probe is echoed; an answer is judged against the time the probe left.\<close>

definition RecvVerify :: "sock \<Rightarrow> packet \<Rightarrow> ip \<Rightarrow> ip \<Rightarrow> aodv \<Rightarrow> aodv option" where
  "RecvVerify k p receiver sender s =
     (if \<not> m_enableSecondProbeVerification (m_wrm s) then Some s
      else case p_verify p of
        None \<Rightarrow> Some s
      | Some isResponse \<Rightarrow>
          if \<not> isResponse then do {
            q \<leftarrow> Packet_AddHeader TypeHeader_GetSerializedSize
                   (TypeHeader_Serialize (TypeHeader_make AODVTYPE_RVERIFY)) (p\<lparr>p_verify := Some True\<rparr>);
            Socket_SendTo k q sender s
          }
          else if map_of (m_underVerification s) sender = None then Some s
          else case map_of (m_verificationProbeStartTime s) (ProbeKey receiver sender) of
                 None \<Rightarrow> Some s
               | Some start \<Rightarrow>
                   Some (snd (EvaluateVerificationProbe receiver sender (m_now s - start) s)))"

definition RecvAodv :: "sock \<Rightarrow> packet \<Rightarrow> ip \<Rightarrow> aodv \<Rightarrow> aodv option" where
  "RecvAodv k p sender s =
     do {
       receiver \<leftarrow>
         (case map_of (m_socketAddresses s) k of
            Some iface \<Rightarrow> Some (ia_local iface)
          | None \<Rightarrow> map_option ia_local (map_of (m_socketSubnetBroadcastAddresses s) k));
       let w = m_wrm s;
       let receiver = (if EnableWrmAttack w \<and> sender = FirstEndOfWormTunnel w \<and>
                          receiver = SecondEndWifiWormTunnel w
                       then SecondEndOfWormTunnel w else receiver);
       let receiver = (if EnableWrmAttack w \<and> sender = SecondEndOfWormTunnel w \<and>
                          receiver = FirstEndWifiWormTunnel w
                       then FirstEndOfWormTunnel w else receiver);
       s \<leftarrow> UpdateRouteToNeighbor sender receiver s;
       (t, p) \<leftarrow> Packet_RemoveHeader (TypeHeader_Deserialize AODVTYPE_RREQ) p;
       if \<not> th_valid t then Some s
       else case th_type t of
         AODVTYPE_RVERIFY \<Rightarrow> RecvVerify k p receiver sender s
       | AODVTYPE_RREQ \<Rightarrow> RecvRequest p receiver sender s
       | AODVTYPE_RREP \<Rightarrow> RecvReply p receiver sender s
       | AODVTYPE_RERR \<Rightarrow> RecvError p sender s
       | AODVTYPE_RREP_ACK \<Rightarrow> Some (RecvReplyAck sender s)
     }"

section \<open>What a handler sends\<close>

lemma UpdateRouteLifeTime_more [simp]:
  "closed_sockets (snd (UpdateRouteLifeTime a life s)) = closed_sockets s"
  "m_pending (snd (UpdateRouteLifeTime a life s)) = m_pending s"
  "m_socketAddresses (snd (UpdateRouteLifeTime a life s)) = m_socketAddresses s"
  by (simp_all add: UpdateRouteLifeTime_def lookupRoute_eq Let_def updateRoute_def split: option.splits)

lemma lookupRoute_out:
  "lookupRoute a rt s = (b, rt', s') \<Longrightarrow>
     m_out s' = m_out s \<and> closed_sockets s' = closed_sockets s \<and> m_wrm s' = m_wrm s"
  by (auto simp: lookupRoute_eq split: option.splits)

lemma snd_lookupRoute_out [simp]:
  "m_out (snd (snd (lookupRoute a rt s))) = m_out s"
  "closed_sockets (snd (snd (lookupRoute a rt s))) = closed_sockets s"
  by (simp_all add: lookupRoute_eq split: option.splits)

lemma RouteOutput_keeps:
  assumes "RouteOutput p h oif s = Some (r, e, p', s')"
  shows "m_out s' = m_out s \<and> closed_sockets s' = closed_sockets s"
  using assms
  by (auto simp: RouteOutput_def lookupValidRoute_eq Let_def elim!: bind_Some_elim
      split: option.splits if_splits)

lemma Socket_SendTo_out:
  assumes "Socket_SendTo k p a s = Some s'" and "closed_sockets s = []"
  shows "m_out s' = m_out s @ [SocketSendTo k p a] \<and> closed_sockets s' = []"
  using assms
  by (auto simp: Socket_SendTo_def Let_def elim!: bind_Some_elim dest!: RouteOutput_keeps split: if_splits)

lemma updateRoute_out [simp]:
  "m_out (updateRoute e s) = m_out s" "closed_sockets (updateRoute e s) = closed_sockets s"
  by (simp_all add: updateRoute_def)

text \<open>The reply a malicious node sends on behalf of a destination.\<close>

lemma malicious_reply:
  assumes "IsMalicious (m_wrm s)" and "closed_sockets s = []" and "e_hops toDst = 1"
    and "SendReplyByIntermediateNode toDst toOrigin grat s = Some s'"
  shows "\<exists>k p a rest hdr. m_out s' = m_out s @ SocketSendTo k p a # rest \<and>
      received_as RrepHeader_Deserialize AODVTYPE_RREP hdr (Some p) \<and>
      rp_dst hdr = Entry_GetDestination toDst \<and> rp_dstSeqNo hdr = e_seqNo toDst \<and> rp_hopCount hdr = 1 \<and>
      rp_origin hdr = Entry_GetDestination toOrigin"
proof -
  let ?h = "RrepHeader_SetAckRequired True ((RrepHeader_make 0 (ucast (e_hops toDst)) (Entry_GetDestination toDst)
      (e_seqNo toDst) (Entry_GetDestination toOrigin) (Entry_GetLifeTime (m_now s) toDst))\<lparr>rp_hopCount := 1\<rparr>)"
  let ?sz = "RrepHeader_GetSerializedSize"
  let ?dst' = "snd (Entry_InsertPrecursor (Entry_GetNextHop toOrigin) toDst)"
  let ?origin' = "snd (Entry_InsertPrecursor (Entry_GetNextHop ?dst') toOrigin)"
  let ?s = "updateRoute ?origin' (updateRoute ?dst' (snd (snd (lookupRoute (Entry_GetNextHop toOrigin) (newRt s) s))))"
  let ?T = "\<lambda>s1. if grat then do {
          q \<leftarrow> control_packet (ucast (e_hops ?dst')) ?sz (RrepHeader_Serialize
                 (RrepHeader_make 0 (ucast (e_hops ?origin')) (Entry_GetDestination ?origin')
                    (e_seqNo ?origin') (Entry_GetDestination ?dst') (Entry_GetLifeTime (m_now s1) ?origin')))
                 AODVTYPE_RREP;
          k \<leftarrow> FindSocketWithInterfaceAddress (e_iface ?dst') s1;
          Socket_SendTo k q (Entry_GetNextHop ?dst') s1
        } else Some s1"
  have "do {
      p \<leftarrow> control_packet (ucast (e_hops ?origin')) ?sz (RrepHeader_Serialize ?h) AODVTYPE_RREP;
      k \<leftarrow> FindSocketWithInterfaceAddress (e_iface ?origin') ?s;
      s1 \<leftarrow> Socket_SendTo k p (Entry_GetNextHop ?origin') ?s;
      ?T s1
    } = Some s'"
    using assms(1,3,4) by (simp add: SendReplyByIntermediateNode_def Let_def cong: if_cong)
  then obtain p k s1 where p: "control_packet (ucast (e_hops ?origin')) ?sz (RrepHeader_Serialize ?h) AODVTYPE_RREP = Some p"
    and s1: "Socket_SendTo k p (Entry_GetNextHop ?origin') ?s = Some s1" and T: "?T s1 = Some s'"
    by (elim bind_Some_elim)
  from T have s': "s' = s1 \<or> (\<exists>k q a. Socket_SendTo k q a s1 = Some s')"
    by (auto elim!: bind_Some_elim split: if_splits)
  have o1: "m_out s1 = m_out s @ [SocketSendTo k p (Entry_GetNextHop ?origin')]" "closed_sockets s1 = []"
    using Socket_SendTo_out [OF s1] assms(2) by simp_all
  have "m_out s' = m_out s1 \<or> (\<exists>e. m_out s' = m_out s1 @ [e])"
    using s' Socket_SendTo_out o1(2) by blast
  then obtain rest where "m_out s' = m_out s @ SocketSendTo k p (Entry_GetNextHop ?origin') # rest"
    using o1(1) by auto
  moreover have "received_as RrepHeader_Deserialize AODVTYPE_RREP ?h (Some p)"
    using received_as_codec [of RrepHeader_Serialize ?h ?sz RrepHeader_Deserialize AODVTYPE_RREP,
        OF rrep_codec.enc_length rrep_codec.dec_enc] p by metis
  moreover have "rp_dst ?h = Entry_GetDestination toDst \<and> rp_dstSeqNo ?h = e_seqNo toDst \<and> rp_hopCount ?h = 1 \<and>
      rp_origin ?h = Entry_GetDestination toOrigin"
    by (simp add: RrepHeader_SetAckRequired_def RrepHeader_make_def)
  ultimately show ?thesis by blast
qed

text \<open>
  A malicious node answers every route request itself and never forwards one: the
  first packet it sends is a RREP for the wanted destination with a sequence number 100 above
  the requested one and a hop count of 1, whatever its own table holds.
\<close>

theorem malicious_answers_every_request:
  assumes "IsMalicious (m_wrm s)" and "closed_sockets s = []"
    and "src \<noteq> Entry_GetNextHop (newRt s)"
    and "rreq_answer h receiver src toOrigin s = Some (fwd, s')"
  shows "fwd = None \<and> (\<exists>k p a rest hdr. m_out s' = m_out s @ SocketSendTo k p a # rest \<and>
      received_as RrepHeader_Deserialize AODVTYPE_RREP hdr (Some p) \<and> rp_dst hdr = rq_dst h \<and>
      rp_dstSeqNo hdr = rq_dstSeqNo h + 100 \<and> rp_hopCount hdr = 1)"
proof -
  obtain found rt s1 where l: "lookupRoute (rq_origin h) toOrigin s = (found, rt, s1)" by (metis prod_cases3)
  note o = lookupRoute_out [OF l]
  obtain d iface s2 where s2: "SendReplyByIntermediateNode (RoutingTableEntry_make (m_now s1) (Some d) (rq_dst h)
        True (rq_dstSeqNo h + 100) iface 1 (rq_dst h) (m_activeRouteTimeout (m_par s1))) rt
        (RreqHeader_GetGratuitousRrep h) s1 = Some s2" and r: "fwd = None" "s' = s2"
    using assms(1,3,4) l by (auto simp: rreq_answer_def Let_def elim!: bind_Some_elim)
  from malicious_reply [OF _ _ _ s2] o assms(1,2) r show ?thesis
    by (simp add: RoutingTableEntry_make_def Entry_GetDestination_def) blast
qed

theorem malicious_answers_every_request_witness:
  "\<exists>s' k p a rest. rreq_answer (RreqHeader_default\<lparr>rq_dst := 5, rq_dstSeqNo := 3, rq_origin := 9\<rparr>) 0x0a000001 8
       neighbor_entry ((node_with_route neighbor_entry)\<lparr>m_wrm := WormParams_default\<lparr>IsMalicious := True\<rparr>\<rparr>) =
       Some (None, s') \<and> m_out s' = SocketSendTo k p a # rest"
proof -
  let ?h = "RreqHeader_default\<lparr>rq_dst := 5, rq_dstSeqNo := 3, rq_origin := 9\<rparr>"
  let ?s = "(node_with_route neighbor_entry)\<lparr>m_wrm := WormParams_default\<lparr>IsMalicious := True\<rparr>\<rparr>"
  have "rreq_answer ?h 0x0a000001 8 neighbor_entry ?s \<noteq> None" by code_simp
  then obtain fwd s' where r: "rreq_answer ?h 0x0a000001 8 neighbor_entry ?s = Some (fwd, s')" by fastforce
  have n: "8 \<noteq> Entry_GetNextHop (newRt ?s)"
    by (simp add: Entry_GetNextHop_def RoutingTableEntry_default_def RoutingTableEntry_make_def
        Ipv4Address_default_def)
  from malicious_answers_every_request [OF _ _ n r] r show ?thesis by auto
qed

text \<open>
  Property C32: a request is forwarded once through each socket, to the broadcast address of its
  interface, unchanged and with the TTL decremented, and not at all when the TTL it came with is
  below 2: a flood ends after at most as many hops as its first TTL.
\<close>

theorem request_flood_bounded:
  assumes "rreq_forward p h s = Some s'"
  shows "if GetTtl (m_env s) p < 2 then s' = s
    else \<exists>sent. m_pending s' = m_pending s @ sent \<and> on_every_interface
      (\<lambda>q iface. p_ttl q = Some (GetTtl (m_env s) p - 1) \<and> received_as RreqHeader_Deserialize AODVTYPE_RREQ h (Some q))
      (m_socketAddresses s) sent"
proof (cases "GetTtl (m_env s) p < 2")
  case True
  then show ?thesis using assms by (simp add: rreq_forward_def)
next
  case False
  let ?ttl = "GetTtl (m_env s) p - 1"
  let ?P = "\<lambda>q (iface :: Ipv4InterfaceAddress). p_ttl q = Some ?ttl \<and> received_as RreqHeader_Deserialize AODVTYPE_RREQ h (Some q)"
  obtain q where q: "control_packet ?ttl RreqHeader_GetSerializedSize (RreqHeader_Serialize h) AODVTYPE_RREQ = Some q"
    and P: "?P q iface" for iface by (rule request_packet [of ?ttl h]) blast
  have "\<exists>sent. m_pending s' = m_pending s @ sent \<and> on_every_interface ?P js sent"
    if "fold_opt (\<lambda>(k, iface) s. do {
             q \<leftarrow> control_packet ?ttl RreqHeader_GetSerializedSize (RreqHeader_Serialize h) AODVTYPE_RREQ;
             let s = s\<lparr>m_lastBcastTime := m_now s\<rparr>;
             Some (ScheduleSendTo k q (bcast_destination iface) s)
           }) js s = Some s'" for js and s s' :: aodv
    using that
  proof (induction js arbitrary: s)
    case (Cons j js)
    let ?s1 = "ScheduleSendTo (fst j) q (bcast_destination (snd j)) (s\<lparr>m_lastBcastTime := m_now s\<rparr>)"
    obtain t where p: "m_pending ?s1 = m_pending s @ [(t, PendingSendTo (fst j) q (bcast_destination (snd j)))]"
      by (simp add: ScheduleSendTo_def GetInteger_def Simulator_Schedule_def)
    from Cons.prems q obtain sent where "m_pending s' = m_pending ?s1 @ sent" "on_every_interface ?P js sent"
      using Cons.IH [of ?s1] by (auto simp: case_prod_beta)
    with p on_every_interface_Cons [of ?P q j, OF P] show ?case
      by (intro exI [of _ "(t, PendingSendTo (fst j) q (bcast_destination (snd j))) # sent"]) simp
  qed simp
  from this [of "m_socketAddresses s" s s'] assms False show ?thesis by (simp add: rreq_forward_def)
qed

theorem request_flood_bounded_witness:
  "\<exists>s' t q. rreq_forward (Packet_Create\<lparr>p_ttl := Some 5\<rparr>) RreqHeader_default node0 = Some s' \<and>
     m_pending s' = [(t, PendingSendTo 1 q (bcast_destination iface0))] \<and> p_ttl q = Some 4"
proof -
  have "rreq_forward (Packet_Create\<lparr>p_ttl := Some 5\<rparr>) RreqHeader_default node0 \<noteq> None" by code_simp
  then obtain s' where s': "rreq_forward (Packet_Create\<lparr>p_ttl := Some 5\<rparr>) RreqHeader_default node0 = Some s'"
    by blast
  from request_flood_bounded [OF s'] obtain sent where sent: "m_pending s' = sent" "on_every_interface
      (\<lambda>q iface. p_ttl q = Some 4 \<and> received_as RreqHeader_Deserialize AODVTYPE_RREQ RreqHeader_default (Some q))
      [(1, iface0)] sent" by (auto simp: GetTtl_def)
  then show ?thesis using s' by (auto simp: on_every_interface_def list_all2_Cons1)
qed

section \<open>Replies that arrive\<close>

lemma send_from_queue_table:
  "send_from_queue fuel dst r s = Some s' \<Longrightarrow> m_routingTable s' = m_routingTable s"
proof (induction fuel arbitrary: s)
  case (Suc fuel)
  then show ?case
    by (auto simp: send_from_queue.simps [of "Suc fuel"] Let_def elim!: bind_Some_elim
        split: prod.splits if_splits)
qed (auto simp: send_from_queue.simps Let_def split: prod.splits if_splits)

text \<open>
  A reply to the node's own search is taken whatever its sequence number. The entry in
  search is replaced by the route of the reply even when the reply is older than what the node
  knew, although the comment lists the only circumstances in which an entry is updated.
\<close>

theorem stale_reply_ends_search:
  assumes "rt_wf (m_routingTable s)" and "\<not> m_enableRttWormholeDetect (m_wrm s)"
    and "Packet_RemoveHeader RrepHeader_Deserialize p = Some (h, q)" and "rp_dst h \<noteq> rp_origin h"
    and "\<not> RrepHeader_GetAckRequired h" and "IsMyOwnAddress (rp_origin h) s"
    and "live_routes s (rp_dst h) = Some e" and "e_flag e = IN_SEARCH"
    and "RecvReply p receiver sender s = Some s'"
  shows "\<exists>e'. routes s' (rp_dst h) = Some e' \<and> e_flag e' = VALID \<and> e_seqNo e' = rp_dstSeqNo h \<and>
    Entry_GetNextHop e' = sender \<and> e_lifeTime e' = m_now s + RrepHeader_GetLifeTime h"
proof -
  let ?h = "h\<lparr>rp_hopCount := rp_hopCount h + 1\<rparr>" and ?dst = "rp_dst h"
  let ?p = "s\<lparr>m_routingTable := RoutingTable_Purge (m_now s) (m_routingTable s)\<rparr>"
  obtain d iface where d: "deviceFor receiver s = Some d" "ifaceFor receiver s = Some iface"
    using assms(2-4,9) by (auto simp: RecvReply_def rrep_rejected_def Let_def elim!: bind_Some_elim)
  let ?new = "RoutingTableEntry_make (m_now s) (Some d) ?dst True (rp_dstSeqNo h) iface
      (ucast (rp_hopCount h + 1)) sender (RrepHeader_GetLifeTime ?h)"
  define s1 where s1: "s1 = (if rrep_replaces (m_env s) ?h e then updateRoute ?new ?p else ?p)"
  define s2 where s2: "s2 = (updateRoute ?new s1)\<lparr>m_addressReqTimer := map_erase ?dst (m_addressReqTimer s1)\<rparr>"
  have f: "rrep_forward_route ?h ?new s = (e, s1)"
    using assms(7) by (simp add: rrep_forward_route_def lookupRoute_eq s1)
  have own: "IsMyOwnAddress (rp_origin h) s1"
    using assms(6) by (simp add: s1 IsMyOwnAddress_def)
  have ack: "\<not> RrepHeader_GetAckRequired ?h" using assms(5) by (simp add: RrepHeader_GetAckRequired_def)
  obtain r s3 where l: "lookupRoute ?dst e s2 = (True, r, s3)" and send: "SendPacketFromQueue ?dst (e_route r) s3 = Some s'"
    and live: "live_routes s2 ?dst = Some (clear_count ?new)"
  proof -
    have w: "rt_wf (m_routingTable s2)"
      using assms(1) by (auto simp: s2 s1 updateRoute_def intro!: rt_wf_Update rt_wf_Purge)
    have "routes s1 ?dst \<noteq> None" using assms(7) by (auto simp: s1 updateRoute_routes)
    then have "routes s2 ?dst = Some (clear_count ?new)" by (simp add: s2 updateRoute_routes)
    moreover have "m_now s2 \<le> e_lifeTime (clear_count ?new)"
      by (simp add: s2 s1 clear_count_def Entry_SetRreqCnt_def RoutingTableEntry_make_def
          RrepHeader_GetLifeTime_def MilliSeconds_def)
    ultimately have live: "live_routes s2 ?dst = Some (clear_count ?new)"
      using rstore.view_purge [OF w, of "m_now s2" ?dst] rstore.keep_fresh by simp
    let ?s3 = "s2\<lparr>m_routingTable := RoutingTable_Purge (m_now s2) (m_routingTable s2)\<rparr>"
    have l: "lookupRoute ?dst e s2 = (True, clear_count ?new, ?s3)" using live by (simp add: lookupRoute_eq)
    have "SendPacketFromQueue ?dst (e_route (clear_count ?new)) ?s3 = Some s'"
      using assms(9) assms(2-4,8) d f own ack l
      by (simp add: RecvReply_def rrep_rejected_def Let_def flip: s2)
    from l this live show thesis by (rule that)
  qed
  have "routes s' ?dst = Some (clear_count ?new)"
    using send_from_queue_table [OF send [unfolded SendPacketFromQueue_def]] l live
    by (auto simp: lookupRoute_eq)
  then show ?thesis
    by (simp add: clear_count_def Entry_SetRreqCnt_def RoutingTableEntry_make_def Entry_GetNextHop_def
        RrepHeader_GetLifeTime_def)
qed

theorem stale_reply_ends_search_witness:
  "let e = neighbor_entry\<lparr>e_flag := IN_SEARCH, e_seqNo := 10\<rparr>;
       s = (node_with_route e)\<lparr>m_wrm := WormParams_default\<lparr>m_enableRttWormholeDetect := False\<rparr>\<rparr>;
       p = Packet_Create\<lparr>p_bytes := RrepHeader_Serialize (RrepHeader_make 0 0 9 5 0x0a000001 (MilliSeconds 50))\<rparr>
   in \<exists>e'. routes (the (RecvReply p 0x0a000001 8 s)) 9 = Some e' \<and> e_flag e' = VALID \<and> e_seqNo e' = 5"
proof -
  let ?e = "neighbor_entry\<lparr>e_flag := IN_SEARCH, e_seqNo := 10\<rparr>"
  let ?s = "(node_with_route ?e)\<lparr>m_wrm := WormParams_default\<lparr>m_enableRttWormholeDetect := False\<rparr>\<rparr>"
  let ?h = "RrepHeader_make 0 0 9 5 0x0a000001 (MilliSeconds 50)"
  let ?p = "Packet_Create\<lparr>p_bytes := RrepHeader_Serialize ?h\<rparr>"
  have "RecvReply ?p 0x0a000001 8 ?s \<noteq> None" by code_simp
  then obtain s' where r: "RecvReply ?p 0x0a000001 8 ?s = Some s'" by blast
  have a: "rt_wf (m_routingTable ?s)" "\<not> m_enableRttWormholeDetect (m_wrm ?s)"
    "live_routes ?s (rp_dst ?h) = Some ?e" "e_flag ?e = IN_SEARCH"
    by (simp_all add: sample_simps RrepHeader_make_def)
  have h: "Packet_RemoveHeader RrepHeader_Deserialize ?p = Some (?h, Packet_Create)" by code_simp
  have b: "rp_dst ?h \<noteq> rp_origin ?h" "\<not> RrepHeader_GetAckRequired ?h" "IsMyOwnAddress (rp_origin ?h) ?s"
    by (simp_all add: RrepHeader_make_def RrepHeader_GetAckRequired_def get_flag_def IsMyOwnAddress_def
        iface0_def Ipv4InterfaceAddress_make_def)
  from stale_reply_ends_search [OF a(1,2) h b a(3,4) r] r show ?thesis
    by (simp add: Let_def RrepHeader_make_def) blast
qed

end
