(* ===== verification/Aodv_Data.thy ===== *)
theory Aodv_Data
  imports Aodv_Recv
begin

text \<open>
  The data plane (aodv-routing-protocol.cc, \<open>DeferredRouteOutput\<close>, \<open>RouteInput\<close> and
  \<open>Forwarding\<close>): packets that arrive from the node's own transport through the loopback
  device or from the network. The callbacks of the IP layer are recorded in \<open>m_out\<close>; what a
  delivery makes an application do next is a further event.
\<close>

definition DeferredRouteOutput ::
    "packet \<Rightarrow> Ipv4Header \<Rightarrow> callback \<Rightarrow> callback \<Rightarrow> aodv \<Rightarrow> aodv option" where
  "DeferredRouteOutput p header ucb ecb s =
     do {
       let newEntry = QueueEntry_make (m_now s) p header ucb ecb (m_now s);
       (queued, drops, q) \<leftarrow> RequestQueue_Enqueue (m_now s) newEntry (m_queue s);
       let s = s\<lparr>m_queue := q, m_out := m_out s @ queue_drops drops\<rparr>;
       if queued then
         let (found, rt, s) = lookupRoute (ih_dst header) (newRt s) s in
         if \<not> found \<or> e_flag rt \<noteq> IN_SEARCH then SendRequest (ih_dst header) s else Some s
       else Some s
     }"

text \<open>
  A malicious node swallows the packet. Of an unknown origin the entry is the default one,
  whose next hop is the uninitialised address.
\<close>

definition Forwarding ::
    "packet \<Rightarrow> Ipv4Header \<Rightarrow> callback \<Rightarrow> callback \<Rightarrow> aodv \<Rightarrow> (bool \<times> aodv) option" where
  "Forwarding p header ucb ecb s =
     (let dst = ih_dst header; origin = ih_src header;
          active = m_activeRouteTimeout (m_par s);
          s = s\<lparr>m_routingTable := RoutingTable_Purge (m_now s) (m_routingTable s)\<rparr>
      in if IsMalicious (m_wrm s) then Some (False, s)
         else
           let (found, toDst, s) = lookupRoute dst (newRt s) s in
           if found \<and> e_flag toDst = VALID then
             let route = e_route toDst;
                 s = snd (UpdateRouteLifeTime origin active s);
                 s = snd (UpdateRouteLifeTime dst active s);
                 s = snd (UpdateRouteLifeTime (rt_gateway route) active s);
                 (_, toOrigin, s) = lookupRoute origin (newRt s) s;
                 s = snd (UpdateRouteLifeTime (Entry_GetNextHop toOrigin) active s)
             in do {
               s \<leftarrow> nbUpdate (rt_gateway route) active s;
               s \<leftarrow> nbUpdate (Entry_GetNextHop toOrigin) active s;
               Some (True, s\<lparr>m_out := m_out s @ [UnicastForward ucb route p header]\<rparr>)
             }
           else do {
             s \<leftarrow> SendRerrWhenNoRouteToForward dst
                    (if found \<and> e_validSeqNo toDst then e_seqNo toDst else 0) origin s;
             Some (False, s)
           })"

section \<open>RouteInput\<close>

definition AODV_PORT :: u16 where
  "AODV_PORT = 654"

definition UDP_PROT_NUMBER :: u8 where
  "UDP_PROT_NUMBER = 17"

text \<open>The destination port of the UDP header in front; fewer than 8 bytes overrun the buffer.\<close>

definition udp_dest_port :: "u8 list \<Rightarrow> u16 option" where
  "udp_dest_port bs =
     (if length bs < 8 then None
      else Some (push_bit 8 (ucast (bs ! 2)) OR ucast (bs ! 3)))"

definition deliver ::
    "callback option \<Rightarrow> callback \<Rightarrow> packet \<Rightarrow> Ipv4Header \<Rightarrow> int \<Rightarrow> aodv \<Rightarrow> aodv" where
  "deliver lcb ecb p header iif s =
     s\<lparr>m_out := m_out s @ [case lcb of Some l \<Rightarrow> LocalDeliver l p header iif
                                     | None \<Rightarrow> ErrorNotify ecb p header]\<rparr>"

definition broadcast_input ::
    "packet \<Rightarrow> Ipv4Header \<Rightarrow> int \<Rightarrow> callback \<Rightarrow> callback option \<Rightarrow> callback \<Rightarrow> aodv \<Rightarrow> aodv option" where
  "broadcast_input p header iif ucb lcb ecb s =
     (let (dup, c) = Dpd_IsDuplicate (m_now s) (p_uid p) (ih_src header) (m_dpd s);
          s = s\<lparr>m_dpd := c\<rparr>
      in if dup then Some s
         else
           let s = snd (UpdateRouteLifeTime (ih_src header) (m_activeRouteTimeout (m_par s)) s);
               s = deliver lcb ecb p header iif s
           in if \<not> m_enableBroadcast (m_par s) then Some s
              else do {
                own \<leftarrow> (if ih_protocol header = UDP_PROT_NUMBER
                        then map_option (\<lambda>port. port = AODV_PORT) (udp_dest_port (p_bytes p))
                        else Some False);
                if own then Some s
                else if 1 < ih_ttl header then
                  let (found, toBroadcast, s) = lookupRoute (ih_dst header) (newRt s) s in
                  Some (if found
                        then s\<lparr>m_out := m_out s @ [UnicastForward ucb (e_route toBroadcast) p header]\<rparr>
                        else s)
                else Some s
              })"

text \<open>A delivery addressed to an end of the tunnel is attributed to interface 1.\<close>

definition local_input ::
    "packet \<Rightarrow> Ipv4Header \<Rightarrow> int \<Rightarrow> callback option \<Rightarrow> callback \<Rightarrow> aodv \<Rightarrow> aodv option" where
  "local_input p header iif lcb ecb s =
     (let active = m_activeRouteTimeout (m_par s);
          s = snd (UpdateRouteLifeTime (ih_src header) active s);
          (valid, toOrigin, s) = lookupValidRoute (ih_src header) (newRt s) s
      in do {
        s \<leftarrow> (if valid then
                nbUpdate (Entry_GetNextHop toOrigin) active
                  (snd (UpdateRouteLifeTime (Entry_GetNextHop toOrigin) active s))
              else Some s);
        let w = m_wrm s;
        let iif = (if lcb \<noteq> None \<and> EnableWrmAttack w \<and>
                      (ih_dst header = FirstEndOfWormTunnel w \<or> ih_dst header = SecondEndOfWormTunnel w)
                   then 1 else iif);
        Some (deliver lcb ecb p header iif s)
      })"

definition RouteInput ::
    "packet \<Rightarrow> Ipv4Header \<Rightarrow> dev \<Rightarrow> callback \<Rightarrow> callback option \<Rightarrow> callback \<Rightarrow> aodv \<Rightarrow>
     (bool \<times> aodv) option" where
  "RouteInput p header idev ucb lcb ecb s =
     (if m_socketAddresses s = [] then Some (False, s)
      else do {
        v \<leftarrow> m_ipv4 s;
        let iif = Ipv4_GetInterfaceForDevice v (Some idev);
        ensure (0 \<le> iif);
        let dst = ih_dst header;
        if m_lo s = Some idev \<and> p_oif p \<noteq> None
        then map_option (\<lambda>s. (True, s)) (DeferredRouteOutput p header ucb ecb s)
        else if IsMyOwnAddress (ih_src header) s then Some (True, s)
        else if Ipv4Address_IsMulticast dst then Some (False, s)
        else if list_ex (\<lambda>(k, iface). Ipv4_GetInterfaceForAddress v (ia_local iface) = iif \<and>
                     (dst = ia_broadcast iface \<or> Ipv4Address_IsBroadcast dst)) (m_socketAddresses s)
        then map_option (\<lambda>s. (True, s)) (broadcast_input p header iif ucb lcb ecb s)
        else do {
          own \<leftarrow> Ipv4_IsDestinationAddress v (env_weakEsModel (m_env s)) dst iif;
          if own then map_option (\<lambda>s. (True, s)) (local_input p header iif lcb ecb s)
          else do {
            fwd \<leftarrow> Ipv4_IsForwarding v iif;
            if \<not> fwd then Some (True, s\<lparr>m_out := m_out s @ [ErrorNotify ecb p header]\<rparr>)
            else Forwarding p header ucb ecb s
          }
        }
      })"

end
