(* ===== verification/Aodv_Iface.thy ===== *)
theory Aodv_Iface
  imports Aodv_Data
begin

text \<open>
  Start-up, shut-down and the notifications of the IP layer (aodv-routing-protocol.cc,
  \<open>SetIpv4\<close>, \<open>Start\<close>, \<open>DoInitialize\<close>, \<open>DoDispose\<close> and the \<open>Notify\<close> handlers): which sockets
  the node listens on, and the broadcast routes of its interfaces. The pointers of the sockets
  a handler creates are arguments.
\<close>

text \<open>\<open>Simulator::GetMaximumSimulationTime\<close>, the lifetime of a route that never expires.\<close>

definition GetMaximumSimulationTime :: time where
  "GetMaximumSimulationTime = int64_max"

definition SetIpv4 :: "Ipv4 \<Rightarrow> aodv \<Rightarrow> aodv option" where
  "SetIpv4 v s =
     do {
       ensure (m_ipv4 s = None);
       a \<leftarrow> Ipv4_GetAddress v 0 0;
       ensure (length v = 1 \<and> ia_local a = Ipv4Address_GetLoopback);
       lo \<leftarrow> Ipv4_GetNetDevice v 0;
       let s = s\<lparr>m_ipv4 := Some v, m_lo := Some lo\<rparr>;
       let rt = RoutingTableEntry_make (m_now s) (Some lo) Ipv4Address_GetLoopback True 0
                  (Ipv4InterfaceAddress_make Ipv4Address_GetLoopback 0xff000000) 1
                  Ipv4Address_GetLoopback GetMaximumSimulationTime;
       Some (Simulator_Schedule 0 PendingStart (addRoute rt s))
     }"

definition Start :: "aodv \<Rightarrow> aodv option" where
  "Start s =
     do {
       let s = (if m_enableHello (m_par s)
                then s\<lparr>m_nb := Neighbors_ScheduleTimer (m_now s) (m_nb s)\<rparr> else s);
       t1 \<leftarrow> Timer_Schedule (m_now s) (Seconds_int 1) (m_rreqRateLimitTimer s);
       t2 \<leftarrow> Timer_Schedule (m_now s) (Seconds_int 1) (m_rerrRateLimitTimer s);
       Some (s\<lparr>m_rreqRateLimitTimer := t1, m_rerrRateLimitTimer := t2\<rparr>)
     }"

definition DoInitialize :: "aodv \<Rightarrow> aodv option" where
  "DoInitialize s =
     (if m_enableHello (m_par s) then
        let (startTime, s) = GetInteger 0 100 s in
        do {
          t \<leftarrow> Timer_Schedule (m_now s) (MilliSeconds (uint startTime)) (m_htimer s);
          Some (s\<lparr>m_htimer := t\<rparr>)
        }
      else Some s)"

definition closeSocket :: "sock \<Rightarrow> aodv \<Rightarrow> aodv" where
  "closeSocket k s = s\<lparr>closed_sockets := k # closed_sockets s, m_out := m_out s @ [SocketClose k]\<rparr>"

definition DoDispose :: "aodv \<Rightarrow> aodv" where
  "DoDispose s =
     (let s = s\<lparr>m_ipv4 := None\<rparr>;
          s = foldl (\<lambda>s (k, iface). closeSocket k s) s (m_socketAddresses s);
          s = s\<lparr>m_socketAddresses := []\<rparr>;
          s = foldl (\<lambda>s (k, iface). closeSocket k s) s (m_socketSubnetBroadcastAddresses s)
      in s\<lparr>m_socketSubnetBroadcastAddresses := []\<rparr>)"

section \<open>Interfaces that come and go\<close>

text \<open>A new socket bound to a device and an address; \<open>ttl\<close>: \<open>SetIpRecvTtl\<close> was called.\<close>

definition createSocket :: "sock \<Rightarrow> dev \<Rightarrow> ip \<Rightarrow> bool \<Rightarrow> aodv \<Rightarrow> aodv" where
  "createSocket k d a ttl s = s\<lparr>m_out := m_out s @ [SocketCreate k d a ttl]\<rparr>"

text \<open>
  What the three handlers that open an interface share: the unicast socket \<open>k1\<close>, the subnet
  broadcast socket \<open>k2\<close>, and the route of the broadcast address. Only \<open>NotifyAddAddress\<close>
  leaves the unicast socket without the TTL of received packets.
\<close>

definition open_interface ::
    "nat \<Rightarrow> sock \<Rightarrow> sock \<Rightarrow> bool \<Rightarrow> Ipv4InterfaceAddress \<Rightarrow> aodv \<Rightarrow> (dev \<times> aodv) option" where
  "open_interface i k1 k2 ttl iface s =
     do {
       v \<leftarrow> m_ipv4 s;
       di \<leftarrow> Ipv4_GetNetDevice v (int i);
       let s = createSocket k1 di (ia_local iface) ttl s;
       let s = s\<lparr>m_socketAddresses := map_insert k1 iface (m_socketAddresses s)\<rparr>;
       let s = createSocket k2 di (ia_broadcast iface) True s;
       let s = s\<lparr>m_socketSubnetBroadcastAddresses :=
                   map_insert k2 iface (m_socketSubnetBroadcastAddresses s)\<rparr>;
       d \<leftarrow> deviceFor (ia_local iface) s;
       Some (d, addRoute (RoutingTableEntry_make (m_now s) (Some d) (ia_broadcast iface) True 0 iface 1
                            (ia_broadcast iface) GetMaximumSimulationTime) s)
     }"

definition NotifyInterfaceUp :: "nat \<Rightarrow> sock \<Rightarrow> sock \<Rightarrow> aodv \<Rightarrow> aodv option" where
  "NotifyInterfaceUp i k1 k2 s =
     do {
       v \<leftarrow> m_ipv4 s;
       iface \<leftarrow> Ipv4_GetAddress v (int i) 0;
       if ia_local iface = Ipv4Address_GetLoopback then Some s
       else do {
         (d, s) \<leftarrow> open_interface i k1 k2 True iface s;
         f \<leftarrow> Ipv4_GetInterface v (int i);
         let s = (case if_arp f of
                    None \<Rightarrow> s | Some a \<Rightarrow> s\<lparr>m_nb := Neighbors_AddArpCache a (m_nb s)\<rparr>);
         Some (if env_wifi (m_env s) d = OtherMac \<or> env_wifi (m_env s) d = AdhocMac
               then s\<lparr>m_out := m_out s @ [MacTraceConnect d]\<rparr> else s)
       }
     }"

definition no_interfaces :: "aodv \<Rightarrow> aodv" where
  "no_interfaces s =
     s\<lparr>m_htimer := Timer_Cancel (m_htimer s), m_nb := Neighbors_Clear (m_nb s),
       m_routingTable := RoutingTable_Clear (m_routingTable s)\<rparr>"

definition NotifyInterfaceDown :: "nat \<Rightarrow> aodv \<Rightarrow> aodv option" where
  "NotifyInterfaceDown i s =
     do {
       v \<leftarrow> m_ipv4 s;
       f \<leftarrow> Ipv4_GetInterface v (int i);
       let d = if_dev f;
       ensure (env_wifi (m_env s) d \<noteq> WifiWithoutMac);
       let s = (if env_wifi (m_env s) d = AdhocMac then
                  s\<lparr>m_out := m_out s @ [MacTraceDisconnect d],
                    m_nb := (case if_arp f of
                               None \<Rightarrow> m_nb s | Some a \<Rightarrow> Neighbors_DelArpCache a (m_nb s))\<rparr>
                else s);
       iface \<leftarrow> Ipv4_GetAddress v (int i) 0;
       k \<leftarrow> FindSocketWithInterfaceAddress iface s;
       let s = closeSocket k s;
       let s = s\<lparr>m_socketAddresses := map_erase k (m_socketAddresses s)\<rparr>;
       k \<leftarrow> FindSubnetBroadcastSocketWithInterfaceAddress iface s;
       let s = closeSocket k s;
       let s = s\<lparr>m_socketSubnetBroadcastAddresses :=
                   map_erase k (m_socketSubnetBroadcastAddresses s)\<rparr>;
       Some (if m_socketAddresses s = [] then no_interfaces s
             else s\<lparr>m_routingTable :=
                      RoutingTable_DeleteAllRoutesFromInterface iface (m_routingTable s)\<rparr>)
     }"

definition NotifyAddAddress :: "nat \<Rightarrow> sock \<Rightarrow> sock \<Rightarrow> aodv \<Rightarrow> aodv option" where
  "NotifyAddAddress i k1 k2 s =
     do {
       v \<leftarrow> m_ipv4 s;
       f \<leftarrow> Ipv4_GetInterface v (int i);
       if \<not> if_up f then Some s
       else if length (if_addrs f) = 1 then do {
         iface \<leftarrow> Ipv4_GetAddress v (int i) 0;
         if FindSocketWithInterfaceAddress iface s \<noteq> None \<or> ia_local iface = Ipv4Address_GetLoopback
         then Some s
         else map_option snd (open_interface i k1 k2 False iface s)
       }
       else Some s
     }"

text \<open>
  The subnet broadcast socket of a removed address is closed, but erased from the map of the
  unicast sockets, where it is not: it stays in its own map.
\<close>

definition NotifyRemoveAddress ::
    "nat \<Rightarrow> Ipv4InterfaceAddress \<Rightarrow> sock \<Rightarrow> sock \<Rightarrow> aodv \<Rightarrow> aodv option" where
  "NotifyRemoveAddress i address k1 k2 s =
     (case FindSocketWithInterfaceAddress address s of
        None \<Rightarrow> Some s
      | Some k \<Rightarrow>
          let s = s\<lparr>m_routingTable :=
                      RoutingTable_DeleteAllRoutesFromInterface address (m_routingTable s)\<rparr>;
              s = closeSocket k s;
              s = s\<lparr>m_socketAddresses := map_erase k (m_socketAddresses s)\<rparr>;
              s = (case FindSubnetBroadcastSocketWithInterfaceAddress address s of
                     None \<Rightarrow> s
                   | Some b \<Rightarrow>
                       let s = closeSocket b s
                       in s\<lparr>m_socketAddresses := map_erase b (m_socketAddresses s)\<rparr>)
          in do {
            v \<leftarrow> m_ipv4 s;
            n \<leftarrow> Ipv4_GetNAddresses v (int i);
            s \<leftarrow> (if n \<noteq> 0 then do {
                    iface \<leftarrow> Ipv4_GetAddress v (int i) 0;
                    map_option snd (open_interface i k1 k2 True iface s)
                  }
                  else Some s);
            Some (if m_socketAddresses s = [] then no_interfaces s else s)
          })"

end
