(* ===== verification/Aodv_Node.thy ===== *)
theory Aodv_Node
  imports Aodv_Iface
begin

text \<open>
  One node as a state machine: the events that reach \<open>RoutingProtocol\<close>, from the simulator's
  clock, its timers and scheduled calls, its sockets, the IP layer and the MAC, as a step
  function and the step relation it defines.
\<close>

section \<open>Events\<close>

datatype event =
  EvAdvance time
| EvPending nat
| EvNeighborTimer
| EvRreqRateTimer
| EvRerrRateTimer
| EvHelloTimer
| EvRequestTimer ip
| EvRecvAodv sock packet ip
| EvRouteOutput "packet option" Ipv4Header "dev option"
| EvRouteInput packet Ipv4Header dev callback "callback option" callback
| EvTxError mac
| EvInterfaceUp nat sock sock
| EvInterfaceDown nat
| EvAddAddress nat sock sock
| EvRemoveAddress nat Ipv4InterfaceAddress sock sock
| EvIpv4 Ipv4
| EvEnv AodvEnv
| EvSetIpv4 Ipv4
| EvInitialize
| EvDispose

text \<open>
  A timer or a scheduled call fires when the clock has reached its time, and the clock does
  not pass one that is due.
\<close>

definition due_times :: "aodv \<Rightarrow> time list" where
  "due_times s =
     map fst (m_pending s) @
     List.map_filter id ([nbs_timer (m_nb s), m_rreqRateLimitTimer s, m_rerrRateLimitTimer s, m_htimer s] @
                 map snd (m_addressReqTimer s))"

fun run_pending :: "pending \<Rightarrow> aodv \<Rightarrow> aodv option" where
  "run_pending (PendingSendTo k p dst) s = RoutingProtocol_SendTo k p dst s"
| "run_pending (PendingSendRequest dst) s = SendRequest dst s"
| "run_pending PendingStart s = Start s"

text \<open>
  The step of an event; the outer \<open>None\<close> is an event that cannot happen in this state, the
  inner one a run that aborts.
\<close>

definition when_due :: "time \<Rightarrow> timer \<Rightarrow> aodv option \<Rightarrow> aodv option option" where
  "when_due n t r = (if t = Some n then Some r else None)"

fun node_step :: "event \<Rightarrow> aodv \<Rightarrow> aodv option option" where
  "node_step (EvAdvance t) s =
     (if m_now s \<le> t \<and> list_all (\<lambda>d. t \<le> d) (due_times s) then Some (Some (s\<lparr>m_now := t\<rparr>)) else None)"
| "node_step (EvPending i) s =
     (if i < length (m_pending s) \<and> fst (m_pending s ! i) = m_now s
      then Some (run_pending (snd (m_pending s ! i))
                   (s\<lparr>m_pending := take i (m_pending s) @ drop (Suc i) (m_pending s)\<rparr>))
      else None)"
| "node_step EvNeighborTimer s = when_due (m_now s) (nbs_timer (m_nb s)) (NeighborTimerExpire s)"
| "node_step EvRreqRateTimer s =
     when_due (m_now s) (m_rreqRateLimitTimer s) (RreqRateLimitTimerExpire (s\<lparr>m_rreqRateLimitTimer := None\<rparr>))"
| "node_step EvRerrRateTimer s =
     when_due (m_now s) (m_rerrRateLimitTimer s) (RerrRateLimitTimerExpire (s\<lparr>m_rerrRateLimitTimer := None\<rparr>))"
| "node_step EvHelloTimer s =
     when_due (m_now s) (m_htimer s) (HelloTimerExpire (s\<lparr>m_htimer := None\<rparr>))"
| "node_step (EvRequestTimer dst) s =
     (case map_of (m_addressReqTimer s) dst of
        None \<Rightarrow> None
      | Some t \<Rightarrow> when_due (m_now s) t
          (RouteRequestTimerExpire dst (s\<lparr>m_addressReqTimer := map_put dst None (m_addressReqTimer s)\<rparr>)))"
| "node_step (EvRecvAodv k p sender) s = Some (RecvAodv k p sender s)"
| "node_step (EvRouteOutput p h oif) s =
     Some (map_option (\<lambda>(r, e, p', s). s) (RouteOutput p h oif s))"
| "node_step (EvRouteInput p h idev ucb lcb ecb) s =
     Some (map_option snd (RouteInput p h idev ucb lcb ecb s))"
| "node_step (EvTxError m) s = Some (NotifyTxError m s)"
| "node_step (EvInterfaceUp i k1 k2) s = Some (NotifyInterfaceUp i k1 k2 s)"
| "node_step (EvInterfaceDown i) s = Some (NotifyInterfaceDown i s)"
| "node_step (EvAddAddress i k1 k2) s = Some (NotifyAddAddress i k1 k2 s)"
| "node_step (EvRemoveAddress i a k1 k2) s = Some (NotifyRemoveAddress i a k1 k2 s)"
| "node_step (EvIpv4 v) s = (if m_ipv4 s = None then None else Some (Some (s\<lparr>m_ipv4 := Some v\<rparr>)))"
| "node_step (EvEnv e) s = Some (Some (s\<lparr>m_env := e\<rparr>))"
| "node_step (EvSetIpv4 v) s = Some (SetIpv4 v s)"
| "node_step EvInitialize s = Some (DoInitialize s)"
| "node_step EvDispose s = Some (Some (DoDispose s))"

inductive aodv_step :: "aodv \<Rightarrow> event \<Rightarrow> aodv \<Rightarrow> bool" where
  step: "node_step e s = Some (Some s') \<Longrightarrow> aodv_step s e s'"

inductive_simps aodv_step_iff: "aodv_step s e s'"
inductive_cases aodv_stepE [elim]: "aodv_step s e s'"

inductive aodv_reach :: "AodvParams \<Rightarrow> WormParams \<Rightarrow> aodv \<Rightarrow> bool"
  for p :: AodvParams and w :: WormParams where
  init: "aodv_reach p w (RoutingProtocol_make p w e t)"
| step: "aodv_reach p w s \<Longrightarrow> aodv_step s e s' \<Longrightarrow> aodv_reach p w s'"

text \<open>A run: the events that happen one after the other, with the states before and after.\<close>

inductive aodv_run :: "aodv \<Rightarrow> event list \<Rightarrow> aodv \<Rightarrow> bool" where
  nil: "aodv_run s [] s"
| cons: "aodv_step s e s1 \<Longrightarrow> aodv_run s1 es s' \<Longrightarrow> aodv_run s (e # es) s'"

text \<open>The neighbour whose answer to a verification probe an event delivers.\<close>

fun verification_answer_of :: "event \<Rightarrow> ip option" where
  "verification_answer_of (EvRecvAodv k p sender) = (if p_verify p = Some True then Some sender else None)"
| "verification_answer_of _ = None"

end
