(* ===== verification/Aodv_Invariants.thy ===== *)
theory Aodv_Invariants
  imports Aodv_Node Rerr_Invariants
begin

text \<open>
  Invariants of a node. The locale \<open>node_invariant\<close> states what a predicate on states has to
  survive, the elementary updates the handlers are made of, and proves once that every event
  preserves it. It is interpreted for the well-formedness of the node's data structures, for
  the count of route requests, for a neighbour under verification, and for a request seen.
\<close>

section \<open>What every handler is made of\<close>

text \<open>
  The second contract adds every other update a handler makes. A request is counted before it
  gets its identifier; in between, while the route of the destination is looked up and
  changed, \<open>busy\<close> holds instead of the predicate. \<open>ok\<close> singles out the neighbours
  whose verification answers the predicate survives: only such an answer can end a verification
  and, with the second stage enabled, make a neighbour suspect. \<open>resets\<close> says whether the
  predicate survives the timer that sets the count of requests back.
\<close>

locale node_invariant = table_invariant I + work: route_invariant busy
  for I :: "aodv \<Rightarrow> bool" and busy :: "aodv \<Rightarrow> bool" +
  fixes ok :: "ip \<Rightarrow> bool" and resets :: bool
  assumes now_I: "I s \<Longrightarrow> m_now s \<le> t \<Longrightarrow> I (s\<lparr>m_now := t\<rparr>)"
    and env_I: "I s \<Longrightarrow> I (s\<lparr>m_env := e\<rparr>)"
    and closed_I: "I s \<Longrightarrow> I (s\<lparr>closed_sockets := ks\<rparr>)"
    and ipv4_I: "I s \<Longrightarrow> I (s\<lparr>m_ipv4 := v\<rparr>)"
    and lo_I: "I s \<Longrightarrow> I (s\<lparr>m_lo := lo\<rparr>)"
    and bcast_time_I: "I s \<Longrightarrow> I (s\<lparr>m_lastBcastTime := t\<rparr>)"
    and htimer_I: "I s \<Longrightarrow> I (s\<lparr>m_htimer := ti\<rparr>)"
    and rreq_timer_I: "I s \<Longrightarrow> I (s\<lparr>m_rreqRateLimitTimer := ti\<rparr>)"
    and rerr_timer_I: "I s \<Longrightarrow> I (s\<lparr>m_rerrRateLimitTimer := ti\<rparr>)"
    and seqno_I: "I s \<Longrightarrow> I (s\<lparr>m_seqNo := q + 1\<rparr>)"
    and request_id_I: "busy s \<Longrightarrow> I (s\<lparr>m_seqNo := m_seqNo s + 1, m_requestId := m_requestId s + 1\<rparr>)"
    and delete_iface_I: "I s \<Longrightarrow> I (s\<lparr>m_routingTable := RoutingTable_DeleteAllRoutesFromInterface f (m_routingTable s)\<rparr>)"
    and clear_I: "I s \<Longrightarrow> I (s\<lparr>m_routingTable := RoutingTable_Clear (m_routingTable s)\<rparr>)"
    and enqueue_I: "I s \<Longrightarrow> RequestQueue_Enqueue t qe (m_queue s) = Some (b, ds, q') \<Longrightarrow> I (s\<lparr>m_queue := q'\<rparr>)"
    and dequeue_I: "I s \<Longrightarrow> RequestQueue_Dequeue t a qe (m_queue s) = (b, qe', ds, q') \<Longrightarrow> I (s\<lparr>m_queue := q'\<rparr>)"
    and drop_dst_I: "I s \<Longrightarrow> RequestQueue_DropPacketWithDst t a (m_queue s) = (ds, q') \<Longrightarrow> I (s\<lparr>m_queue := q'\<rparr>)"
    and rreq_id_I: "I s \<Longrightarrow> IdCache_IsDuplicate (m_now s) a i (m_rreqIdCache s) = (b, c) \<Longrightarrow> I (s\<lparr>m_rreqIdCache := c\<rparr>)"
    and dpd_I: "I s \<Longrightarrow> Dpd_IsDuplicate t uid a (m_dpd s) = (b, c) \<Longrightarrow> I (s\<lparr>m_dpd := c\<rparr>)"
    and nb_I: "I s \<Longrightarrow> nb_step t arps op (m_nb s) = Some (lost, nb) \<Longrightarrow> I (s\<lparr>m_nb := nb\<rparr>)"
    and rreq_count_I: "I s \<Longrightarrow> m_rreqCount s \<noteq> m_rreqRateLimit (m_par s) \<Longrightarrow>
      busy (s\<lparr>m_rreqCount := m_rreqCount s + 1\<rparr>)"
    and rreq_reset_I: "I s \<Longrightarrow> resets \<Longrightarrow> I (s\<lparr>m_rreqCount := 0\<rparr>)"
    and rerr_reset_I: "I s \<Longrightarrow> I (s\<lparr>m_rerrCount := 0\<rparr>)"
    and sockets_add_I: "I s \<Longrightarrow> I (s\<lparr>m_socketAddresses := map_insert k f (m_socketAddresses s)\<rparr>)"
    and sockets_del_I: "I s \<Longrightarrow> I (s\<lparr>m_socketAddresses := map_erase k (m_socketAddresses s)\<rparr>)"
    and sockets_clear_I: "I s \<Longrightarrow> I (s\<lparr>m_socketAddresses := []\<rparr>)"
    and bsockets_add_I: "I s \<Longrightarrow>
      I (s\<lparr>m_socketSubnetBroadcastAddresses := map_insert k f (m_socketSubnetBroadcastAddresses s)\<rparr>)"
    and bsockets_del_I: "I s \<Longrightarrow>
      I (s\<lparr>m_socketSubnetBroadcastAddresses := map_erase k (m_socketSubnetBroadcastAddresses s)\<rparr>)"
    and bsockets_clear_I: "I s \<Longrightarrow> I (s\<lparr>m_socketSubnetBroadcastAddresses := []\<rparr>)"
    and retry_put_I: "I s \<Longrightarrow> I (s\<lparr>m_addressReqTimer := map_put a ti (m_addressReqTimer s)\<rparr>)"
    and retry_del_I: "I s \<Longrightarrow> I (s\<lparr>m_addressReqTimer := map_erase a (m_addressReqTimer s)\<rparr>)"
    and probe_put_I: "I s \<Longrightarrow> I (s\<lparr>m_rttProbeStartTime := map_put pk t (m_rttProbeStartTime s)\<rparr>)"
    and probe_del_I: "I s \<Longrightarrow> I (s\<lparr>m_rttProbeStartTime := map_erase pk (m_rttProbeStartTime s)\<rparr>)"
    and mean_I: "I s \<Longrightarrow> I (s\<lparr>m_neighborEstimatedRtt := map_put a t (m_neighborEstimatedRtt s)\<rparr>)"
    and var_I: "I s \<Longrightarrow> I (s\<lparr>m_neighborEstimatedVar := map_put a t (m_neighborEstimatedVar s)\<rparr>)"
    and suspect_I: "I s \<Longrightarrow> ok a \<or> \<not> m_enableSecondProbeVerification (m_wrm s) \<Longrightarrow>
      I (s\<lparr>m_suspectUntil := map_put a t (m_suspectUntil s)\<rparr>)"
    and peers_I: "I s \<Longrightarrow> I (s\<lparr>m_detectedWormholePeers := map_insert a () (m_detectedWormholePeers s)\<rparr>)"
    and verify_put_I: "I s \<Longrightarrow> I (s\<lparr>m_underVerification := map_put a t (m_underVerification s)\<rparr>)"
    and verify_del_I: "I s \<Longrightarrow> ok a \<Longrightarrow> I (s\<lparr>m_underVerification := map_erase a (m_underVerification s)\<rparr>)"
    and vprobe_put_I: "I s \<Longrightarrow>
      I (s\<lparr>m_verificationProbeStartTime := map_put pk t (m_verificationProbeStartTime s)\<rparr>)"
    and vprobe_del_I: "I s \<Longrightarrow>
      I (s\<lparr>m_verificationProbeStartTime := map_erase pk (m_verificationProbeStartTime s)\<rparr>)"
    and failures_put_I: "I s \<Longrightarrow>
      I (s\<lparr>m_verificationFailureCount := map_put a nf (m_verificationFailureCount s)\<rparr>)"
    and failures_del_I: "I s \<Longrightarrow>
      I (s\<lparr>m_verificationFailureCount := map_erase a (m_verificationFailureCount s)\<rparr>)"
begin

lemmas node_intros [simp] = now_I env_I closed_I ipv4_I lo_I bcast_time_I htimer_I rreq_timer_I
  rerr_timer_I seqno_I request_id_I delete_iface_I clear_I rreq_count_I rreq_reset_I rerr_reset_I
  sockets_add_I sockets_del_I sockets_clear_I bsockets_add_I bsockets_del_I bsockets_clear_I
  retry_put_I retry_del_I probe_put_I probe_del_I mean_I var_I suspect_I peers_I verify_put_I
  verify_del_I vprobe_put_I vprobe_del_I failures_put_I failures_del_I

subsection \<open>The neighbour table\<close>

lemma link_failures_I:
  assumes "link_failures r s = Some s'" and "nb_step t arps op (m_nb s) = Some r" and "I s"
  shows "I s'"
proof -
  obtain s1 where f: "fold_opt SendRerrWhenBreaksLinkToNextHop (fst r) s = Some s1"
    and s': "s' = s1\<lparr>m_nb := snd r\<rparr>"
    using assms(1) by (auto simp: link_failures_def)
  have "I s1 \<and> m_nb s1 = m_nb s"
  proof (rule fold_opt_inv [where P = "\<lambda>s1. I s1 \<and> m_nb s1 = m_nb s", OF f])
    show "I s \<and> m_nb s = m_nb s" using assms(3) by simp
  next
    fix x s2 s3
    assume "I s2 \<and> m_nb s2 = m_nb s" "SendRerrWhenBreaksLinkToNextHop x s2 = Some s3"
    then show "I s3 \<and> m_nb s3 = m_nb s"
      using SendRerrWhenBreaksLinkToNextHop_I [of x s2 s3] keeps_nb.SendRerrWhenBreaksLinkToNextHop_I [of x s2 s3 "m_nb s"] by simp
  qed
  then show ?thesis using s' nb_I [of s1 t arps op "fst r" "snd r"] assms(2) by simp
qed

lemma nbUpdate_I: "nbUpdate a t s = Some s' \<Longrightarrow> I s \<longrightarrow> I s'"
  by (auto simp: nbUpdate_def elim!: bind_Some_elim intro: link_failures_I [where op = "NbUpdate a t"])

lemma NotifyTxError_I: "NotifyTxError m s = Some s' \<Longrightarrow> I s \<longrightarrow> I s'"
  by (auto simp: NotifyTxError_def intro: link_failures_I [where op = "NbTxError m"])

lemma NeighborTimerExpire_I: "NeighborTimerExpire s = Some s' \<Longrightarrow> I s \<longrightarrow> I s'"
  by (auto simp: NeighborTimerExpire_def intro: link_failures_I [where op = NbTimer])

lemma nb_ops_I [simp]:
  "I s \<Longrightarrow> I (s\<lparr>m_nb := Neighbors_ScheduleTimer t (m_nb s)\<rparr>)"
  "I s \<Longrightarrow> I (s\<lparr>m_nb := Neighbors_Clear (m_nb s)\<rparr>)"
  "I s \<Longrightarrow> m_nb s = n \<Longrightarrow> I (s\<lparr>m_nb := Neighbors_AddArpCache i n\<rparr>)"
  "I s \<Longrightarrow> m_nb s = n \<Longrightarrow> I (s\<lparr>m_nb := Neighbors_DelArpCache i n\<rparr>)"
  using nb_I [of s t _ NbSchedule] nb_I [of s t _ NbClear] nb_I [of s t _ "NbAddArp i"]
    nb_I [of s t _ "NbDelArp i"] by auto

subsection \<open>The detector\<close>

lemma StartRttProbe_I [simp]: "I s \<Longrightarrow> I (StartRttProbe a b s)"
  by (simp add: StartRttProbe_def)

lemma UpdateNeighborRttStats_I [simp]:
  assumes "I s"
  shows "I (UpdateNeighborRttStats a t s)"
proof -
  have "I (s\<lparr>m_neighborEstimatedRtt := map_put a x (m_neighborEstimatedRtt s),
            m_neighborEstimatedVar := map_put a y (m_neighborEstimatedVar s)\<rparr>)" for x y
    using var_I [OF mean_I [OF assms, of a x], of a y] by simp
  then show ?thesis by (simp add: UpdateNeighborRttStats_def Let_def split: option.split)
qed

lemma suspect_neighbor_I [simp]:
  assumes "I s" and "ok a \<or> \<not> m_enableSecondProbeVerification (m_wrm s)"
  shows "I (suspect_neighbor a s)"
  using peers_I [OF suspect_I [OF assms, of "m_now s + m_blackListTimeout (m_par s)"], of a]
  by (simp add: suspect_neighbor_def)

lemma SendVerificationTestPacket_I: "SendVerificationTestPacket a b s = Some s' \<Longrightarrow> I s \<longrightarrow> I s'"
  by (auto simp: SendVerificationTestPacket_def Let_def elim!: bind_Some_elim dest!: Socket_SendTo_I)

lemma EvaluateRttProbe_I: "EvaluateRttProbe a b c d t s = Some (r, s') \<Longrightarrow> I s \<longrightarrow> I s'"
  by (auto simp: EvaluateRttProbe_def Let_def simp del: suspect_simps stats_simps
      elim!: bind_Some_elim dest!: SendVerificationTestPacket_I split: option.splits if_splits)

lemma EvaluateVerificationProbe_I [simp]:
  assumes "I s" and ok: "ok b"
  shows "I (snd (EvaluateVerificationProbe a b t s))"
proof -
  have "I (s1\<lparr>m_underVerification := map_erase b (m_underVerification s1),
            m_verificationProbeStartTime := map_erase k (m_verificationProbeStartTime s1)\<rparr>)"
    if "I s1" for s1 k
    using vprobe_del_I [OF verify_del_I [OF that ok], of k] by simp
  with assms show ?thesis
    by (simp add: EvaluateVerificationProbe_def Let_def del: suspect_simps stats_simps
        split: option.split)
qed

subsection \<open>Sending\<close>

lemma ScheduleRreqRetry_I: "ScheduleRreqRetry a s = Some s' \<Longrightarrow> I s \<longrightarrow> I s'"
  by (auto simp: ScheduleRreqRetry_def Let_def elim!: bind_Some_elim dest!: lookupRoute_I
      split: prod.splits if_splits)

lemma request_known_busy: "request_known rt h s = (ttl, h', s') \<Longrightarrow> busy s \<longrightarrow> busy s'"
  by (auto simp: request_known_def Let_def)

lemma request_new_busy: "request_new a h s = (ttl, h', s') \<Longrightarrow> busy s \<longrightarrow> busy s'"
  by (auto simp: request_new_def Let_def)

lemma rreq_id_snd_I [simp]:
  "I s \<Longrightarrow> I (s\<lparr>m_rreqIdCache := snd (IdCache_IsDuplicate (m_now s) a i (m_rreqIdCache s))\<rparr>)"
  using rreq_id_I [of s a i] by (metis prod.collapse)

lemma request_on_I: "request_on a ttl h j s = Some s' \<Longrightarrow> I s \<longrightarrow> I s'"
  by (auto simp: request_on_def Let_def elim!: bind_Some_elim split: prod.splits)

lemma SendRequest_I: "SendRequest a s = Some s' \<Longrightarrow> I s \<longrightarrow> I s'"
proof (intro impI)
  assume s: "SendRequest a s = Some s'" and I: "I s"
  show "I s'"
  proof (cases "m_rreqCount s = m_rreqRateLimit (m_par s)")
    case True
    with s I show ?thesis by (auto simp: SendRequest_def)
  next
    case False
    let ?s1 = "s\<lparr>m_rreqCount := m_rreqCount s + 1\<rparr>"
    obtain f rt s2 where l: "lookupRoute a (newRt ?s1) ?s1 = (f, rt, s2)" by (metis prod_cases3)
    obtain ttl h s3 where r: "(if f then request_known rt (RreqHeader_default\<lparr>rq_dst := a\<rparr>) s2
        else request_new a (RreqHeader_default\<lparr>rq_dst := a\<rparr>) s2) = (ttl, h, s3)"
      by (metis prod_cases3)
    have "busy s3"
      using work.lookupRoute_I [OF l] r rreq_count_I [OF I False] request_known_busy [of rt _ s2 ttl h s3]
        request_new_busy [of a _ s2 ttl h s3] by (auto split: if_splits)
    then have "I (s3\<lparr>m_seqNo := m_seqNo s3 + 1, m_requestId := m_requestId s3 + 1\<rparr>)"
      by (rule request_id_I)
    moreover obtain h' s4 where
      "fold_opt (request_on a ttl h') (m_socketAddresses s3)
         (s3\<lparr>m_seqNo := m_seqNo s3 + 1, m_requestId := m_requestId s3 + 1\<rparr>) = Some s4"
      "ScheduleRreqRetry a s4 = Some s'"
      using s False l r by (auto simp: SendRequest_def Let_def elim!: bind_Some_elim)
    ultimately show ?thesis
      using fold_opt_I [of "request_on a ttl h'"] request_on_I ScheduleRreqRetry_I by blast
  qed
qed

lemma SendReply_I: "SendReply h rt s = Some s' \<Longrightarrow> I s \<longrightarrow> I s'"
  by (auto simp: SendReply_def Let_def elim!: bind_Some_elim dest!: Socket_SendTo_I
      split: if_splits)

lemma SendReplyByIntermediateNode_I:
  "SendReplyByIntermediateNode a b g s = Some s' \<Longrightarrow> I s \<longrightarrow> I s'"
  by (auto simp: SendReplyByIntermediateNode_def Let_def elim!: bind_Some_elim
      dest!: Socket_SendTo_I split: if_splits prod.splits)

lemma SendReplyAck_I: "SendReplyAck a s = Some s' \<Longrightarrow> I s \<longrightarrow> I s'"
  by (auto simp: SendReplyAck_def Let_def elim!: bind_Some_elim
      dest!: Socket_SendTo_I lookupRoute_I split: prod.splits)

lemma hello_on_I: "hello_on j s = Some s' \<Longrightarrow> I s \<longrightarrow> I s'"
  by (auto simp: hello_on_def Let_def elim!: bind_Some_elim split: prod.splits)

lemma SendHello_I: "SendHello s = Some s' \<Longrightarrow> I s \<longrightarrow> I s'"
  unfolding SendHello_def by (rule fold_opt_I) (rule hello_on_I)

lemma HelloTimerExpire_I: "HelloTimerExpire s = Some s' \<Longrightarrow> I s \<longrightarrow> I s'"
  by (auto simp: HelloTimerExpire_def Let_def elim!: bind_Some_elim dest!: SendHello_I
      split: if_splits)

lemma send_from_queue_I: "send_from_queue fuel a r s = Some s' \<Longrightarrow> I s \<longrightarrow> I s'"
proof (induction fuel arbitrary: s)
  case (Suc fuel)
  show ?case
  proof (intro impI)
    assume I: "I s"
    obtain f e ds q where d: "RequestQueue_Dequeue (m_now s) a
        (QueueEntry_make (m_now s) Packet_Create Ipv4Header_default 0 0 (m_now s)) (m_queue s) =
        (f, e, ds, q)" by (metis prod_cases4)
    with I dequeue_I [OF I d] Suc show "I s'"
      by (subst (asm) (2) send_from_queue.simps) (auto simp: Let_def elim!: bind_Some_elim split: if_splits)
  qed
next
  case 0
  then show ?case
    by (subst (asm) send_from_queue.simps)
      (auto simp: Let_def dest: dequeue_I split: prod.splits if_splits)
qed

lemma SendPacketFromQueue_I: "SendPacketFromQueue a r s = Some s' \<Longrightarrow> I s \<longrightarrow> I s'"
  by (simp add: SendPacketFromQueue_def send_from_queue_I)

lemma dropQueued_I [simp]: "I s \<Longrightarrow> I (dropQueued a s)"
  by (auto simp: dropQueued_def Let_def dest: drop_dst_I split: prod.splits)

lemma RouteRequestTimerExpire_I: "RouteRequestTimerExpire a s = Some s' \<Longrightarrow> I s \<longrightarrow> I s'"
  by (auto simp: RouteRequestTimerExpire_def Let_def dest!: lookupValidRoute_I
      SendPacketFromQueue_I SendRequest_I split: prod.splits if_splits)

subsection \<open>Receiving\<close>

lemma rreq_reverse_route_I: "rreq_reverse_route h r a s = Some (r', rt, s') \<Longrightarrow> I s \<longrightarrow> I s'"
  by (auto simp: rreq_reverse_route_def Let_def elim!: bind_Some_elim dest!: lookupRoute_I
      split: prod.splits if_splits)

lemma rreq_neighbor_route_I: "rreq_neighbor_route h r a s = Some s' \<Longrightarrow> I s \<longrightarrow> I s'"
  by (auto simp: rreq_neighbor_route_def Let_def elim!: bind_Some_elim dest!: lookupRoute_I
      split: prod.splits if_splits)

lemma rreq_answer_I: "rreq_answer h r a rt s = Some (f, s') \<Longrightarrow> I s \<longrightarrow> I s'"
  by (auto simp: rreq_answer_def Let_def elim!: bind_Some_elim
      dest!: lookupRoute_I SendReplyByIntermediateNode_I split: prod.splits if_splits)

lemma rreq_forward_I: "rreq_forward p h s = Some s' \<Longrightarrow> I s \<longrightarrow> I s'"
proof -
  have "fold_opt (\<lambda>(k, iface) s. do {
             q \<leftarrow> control_packet ttl RreqHeader_GetSerializedSize (RreqHeader_Serialize h)
                    AODVTYPE_RREQ;
             let s = s\<lparr>m_lastBcastTime := m_now s\<rparr>;
             Some (ScheduleSendTo k q (bcast_destination iface) s)
           }) js s = Some s' \<Longrightarrow> I s \<longrightarrow> I s'" for ttl js s s'
    by (rule fold_opt_I) (auto elim!: bind_Some_elim)
  then show "rreq_forward p h s = Some s' \<Longrightarrow> I s \<longrightarrow> I s'"
    by (auto simp: rreq_forward_def Let_def split: if_splits)
qed

lemma RecvRequest_I: "RecvRequest p r a s = Some s' \<Longrightarrow> I s \<longrightarrow> I s'"
proof (intro impI)
  assume s: "RecvRequest p r a s = Some s'" and I: "I s"
  obtain h p1 where h: "Packet_RemoveHeader RreqHeader_Deserialize p = Some (h, p1)"
    using s by (auto simp: RecvRequest_def elim!: bind_Some_elim)
  obtain f rt s1 where l: "lookupRoute a (newRt s) s = (f, rt, s1)" by (metis prod_cases3)
  obtain dup c where d: "IdCache_IsDuplicate (m_now s1) (rq_origin h) (rq_requestID h)
      (m_rreqIdCache s1) = (dup, c)" by fastforce
  have 1: "I s1" using lookupRoute_I [OF l] I by simp
  have 2: "I (s1\<lparr>m_rreqIdCache := c\<rparr>)" by (rule rreq_id_I [OF 1 d])
  from s h l d 1 2 show "I s'"
    by (auto simp: RecvRequest_def Let_def elim!: bind_Some_elim dest!: rreq_reverse_route_I
        rreq_neighbor_route_I nbUpdate_I lookupRoute_I SendReply_I rreq_answer_I rreq_forward_I
        split: prod.splits if_splits option.splits)
qed

lemma ProcessHello_I: "ProcessHello h r s = Some s' \<Longrightarrow> I s \<longrightarrow> I s'"
  by (auto simp: ProcessHello_def Let_def elim!: bind_Some_elim dest!: lookupRoute_I nbUpdate_I
      split: prod.splits if_splits)

lemma rrep_rejected_I: "rrep_rejected h r a s = Some (b, s') \<Longrightarrow> I s \<longrightarrow> I s'"
  by (auto simp: rrep_rejected_def Let_def dest!: EvaluateRttProbe_I split: if_splits option.splits)

lemma rrep_forward_route_I: "rrep_forward_route h rt s = (rt', s') \<Longrightarrow> I s \<longrightarrow> I s'"
  by (auto simp: rrep_forward_route_def Let_def dest!: lookupRoute_I split: prod.splits if_splits)

lemma rrep_precursors_I: "rrep_precursors h rt s = (rt', s') \<Longrightarrow> I s \<longrightarrow> I s'"
  by (auto simp: rrep_precursors_def Let_def dest!: lookupRoute_I lookupValidRoute_I
      split: prod.splits if_splits)

lemma rrep_forward_I: "rrep_forward p h s = Some s' \<Longrightarrow> I s \<longrightarrow> I s'"
  by (auto simp: rrep_forward_def Let_def elim!: bind_Some_elim
      dest!: lookupRoute_I rrep_precursors_I Socket_SendTo_I split: prod.splits if_splits)

lemma updateRoute_retry_I [simp]:
  assumes "I s"
  shows "I ((updateRoute rt s)\<lparr>m_addressReqTimer := map_erase a (m_addressReqTimer s)\<rparr>)"
  using retry_del_I [OF updateRoute_I [OF assms, of rt], of a] by (simp add: updateRoute_def)

lemma RecvReply_I: "RecvReply p r a s = Some s' \<Longrightarrow> I s \<longrightarrow> I s'"
  by (auto simp: RecvReply_def Let_def elim!: bind_Some_elim dest!: ProcessHello_I rrep_rejected_I
      rrep_forward_route_I SendReplyAck_I lookupRoute_I SendPacketFromQueue_I rrep_forward_I
      split: prod.splits if_splits)

lemma RecvReplyAck_I [simp]: "I s \<Longrightarrow> I (RecvReplyAck a s)"
  by (auto simp: RecvReplyAck_def Let_def dest!: lookupRoute_I split: prod.splits)

lemma RecvVerify_I:
  "RecvVerify k p r a s = Some s' \<Longrightarrow> (p_verify p = Some True \<longrightarrow> ok a) \<longrightarrow> I s \<longrightarrow> I s'"
  by (auto simp: RecvVerify_def elim!: bind_Some_elim dest!: Socket_SendTo_I
      split: if_splits option.splits)

lemma RemoveHeader_verify:
  "Packet_RemoveHeader des p = Some (h, q) \<Longrightarrow> p_verify q = p_verify p"
  by (auto simp: Packet_RemoveHeader_def elim!: bind_Some_elim)

lemma RecvAodv_I:
  "RecvAodv k p a s = Some s' \<Longrightarrow> (p_verify p = Some True \<longrightarrow> ok a) \<longrightarrow> I s \<longrightarrow> I s'"
  by (auto simp: RecvAodv_def Let_def elim!: bind_Some_elim dest!: UpdateRouteToNeighbor_I
      RemoveHeader_verify RecvVerify_I RecvRequest_I RecvReply_I RecvError_I
      split: prod.splits if_splits MessageType.splits)

subsection \<open>The data plane\<close>

lemma enqueue_imp_I:
  "RequestQueue_Enqueue t qe (m_queue s) = Some (b, ds, q') \<Longrightarrow> I s \<longrightarrow> I (s\<lparr>m_queue := q'\<rparr>)"
  using enqueue_I by blast

lemma DeferredRouteOutput_I: "DeferredRouteOutput p h u e s = Some s' \<Longrightarrow> I s \<longrightarrow> I s'"
  by (auto simp: DeferredRouteOutput_def Let_def elim!: bind_Some_elim
      dest!: enqueue_imp_I lookupRoute_I SendRequest_I split: prod.splits if_splits)

lemma Forwarding_I: "Forwarding p h u e s = Some (b, s') \<Longrightarrow> I s \<longrightarrow> I s'"
  by (auto simp: Forwarding_def Let_def elim!: bind_Some_elim
      dest!: lookupRoute_I nbUpdate_I SendRerrWhenNoRouteToForward_I split: prod.splits if_splits)

lemma deliver_I [simp]: "I s \<Longrightarrow> I (deliver l e p h i s)"
  by (simp add: deliver_def)

lemma broadcast_input_I: "broadcast_input p h i u l e s = Some s' \<Longrightarrow> I s \<longrightarrow> I s'"
proof (intro impI)
  assume s: "broadcast_input p h i u l e s = Some s'" and I: "I s"
  obtain dup c where d: "Dpd_IsDuplicate (m_now s) (p_uid p) (ih_src h) (m_dpd s) = (dup, c)"
    by fastforce
  have "I (s\<lparr>m_dpd := c\<rparr>)" by (rule dpd_I [OF I d])
  with s d show "I s'"
    by (auto simp: broadcast_input_def Let_def elim!: bind_Some_elim dest!: lookupRoute_I
        split: prod.splits if_splits)
qed

lemma local_input_I: "local_input p h i l e s = Some s' \<Longrightarrow> I s \<longrightarrow> I s'"
  by (auto simp: local_input_def Let_def elim!: bind_Some_elim dest!: lookupValidRoute_I nbUpdate_I
      split: prod.splits if_splits)

lemma RouteInput_I: "RouteInput p h d u l e s = Some (b, s') \<Longrightarrow> I s \<longrightarrow> I s'"
  by (auto simp: RouteInput_def Let_def elim!: bind_Some_elim dest!: DeferredRouteOutput_I
      broadcast_input_I local_input_I Forwarding_I split: if_splits)

subsection \<open>Start-up and interfaces\<close>

lemma SetIpv4_I: "SetIpv4 v s = Some s' \<Longrightarrow> I s \<longrightarrow> I s'"
  using lo_I [OF ipv4_I [of s]]
  by (auto simp: SetIpv4_def Let_def elim!: bind_Some_elim)

lemma Start_I: "Start s = Some s' \<Longrightarrow> I s \<longrightarrow> I s'"
  by (auto simp: Start_def Let_def elim!: bind_Some_elim split: if_splits)

lemma DoInitialize_I: "DoInitialize s = Some s' \<Longrightarrow> I s \<longrightarrow> I s'"
  by (auto simp: DoInitialize_def Let_def elim!: bind_Some_elim dest!: GetInteger_I
      split: if_splits prod.splits)

lemma closeSocket_I [simp]: "I s \<Longrightarrow> I (closeSocket k s)"
  using log_I [OF closed_I] by (simp add: closeSocket_def)

lemma close_all_I [simp]: "I s \<Longrightarrow> I (foldl (\<lambda>s (k, iface). closeSocket k s) s js)"
  by (induction js arbitrary: s) auto

lemma DoDispose_I [simp]: "I s \<Longrightarrow> I (DoDispose s)"
  by (simp add: DoDispose_def Let_def)

lemma createSocket_I [simp]: "I s \<Longrightarrow> I (createSocket k d a b s)"
  by (simp add: createSocket_def)

lemma open_interface_I: "open_interface i k1 k2 b f s = Some (d, s') \<Longrightarrow> I s \<longrightarrow> I s'"
  by (auto simp: open_interface_def Let_def elim!: bind_Some_elim)

lemma no_interfaces_I [simp]:
  assumes "I s"
  shows "I (no_interfaces s)"
  using clear_I [OF nb_ops_I(2) [OF htimer_I [OF assms]]] by (simp add: no_interfaces_def)

lemma NotifyInterfaceUp_I: "NotifyInterfaceUp i k1 k2 s = Some s' \<Longrightarrow> I s \<longrightarrow> I s'"
  by (auto simp: NotifyInterfaceUp_def Let_def elim!: bind_Some_elim dest!: open_interface_I
      split: if_splits option.splits)

lemma delete_iface_eq_I [simp]:
  "I s \<Longrightarrow> m_routingTable s = t \<Longrightarrow>
     I (s\<lparr>m_routingTable := RoutingTable_DeleteAllRoutesFromInterface f t\<rparr>)"
  using delete_iface_I by blast

lemma NotifyInterfaceDown_I: "NotifyInterfaceDown i s = Some s' \<Longrightarrow> I s \<longrightarrow> I s'"
  by (auto simp: NotifyInterfaceDown_def Let_def elim!: bind_Some_elim
      split: if_splits option.splits)

lemma NotifyAddAddress_I: "NotifyAddAddress i k1 k2 s = Some s' \<Longrightarrow> I s \<longrightarrow> I s'"
  by (auto simp: NotifyAddAddress_def Let_def elim!: bind_Some_elim dest!: open_interface_I
      split: if_splits)

lemma NotifyRemoveAddress_I: "NotifyRemoveAddress i a k1 k2 s = Some s' \<Longrightarrow> I s \<longrightarrow> I s'"
  by (auto simp: NotifyRemoveAddress_def Let_def elim!: bind_Some_elim dest!: open_interface_I
      split: if_splits option.splits)

subsection \<open>Every event\<close>

lemma RoutingProtocol_SendTo_I: "RoutingProtocol_SendTo k p a s = Some s' \<Longrightarrow> I s \<longrightarrow> I s'"
  by (auto simp: RoutingProtocol_SendTo_def dest!: Socket_SendTo_I)

lemma run_pending_I: "run_pending e s = Some s' \<Longrightarrow> I s \<longrightarrow> I s'"
  by (cases e) (auto dest!: RoutingProtocol_SendTo_I SendRequest_I Start_I)

lemma rate_timers_I:
  "RreqRateLimitTimerExpire s = Some s' \<Longrightarrow> resets \<longrightarrow> I s \<longrightarrow> I s'"
  "RerrRateLimitTimerExpire s = Some s' \<Longrightarrow> I s \<longrightarrow> I s'"
  by (auto simp: RreqRateLimitTimerExpire_def RerrRateLimitTimerExpire_def Let_def
      elim!: bind_Some_elim)

lemma node_step_I:
  "node_step e s = Some (Some s') \<Longrightarrow>
     (\<forall>a. verification_answer_of e = Some a \<longrightarrow> ok a) \<longrightarrow> (e = EvRreqRateTimer \<longrightarrow> resets) \<longrightarrow> I s \<longrightarrow> I s'"
  by (cases e)
    (auto simp: when_due_def dest!: run_pending_I rate_timers_I NeighborTimerExpire_I
      HelloTimerExpire_I RouteRequestTimerExpire_I RecvAodv_I RouteOutput_I RouteInput_I
      NotifyTxError_I NotifyInterfaceUp_I NotifyInterfaceDown_I NotifyAddAddress_I
      NotifyRemoveAddress_I SetIpv4_I DoInitialize_I split: if_splits option.splits)

text \<open>What holds before a run holds after it, and what holds initially in every reachable state.\<close>

lemma run_I:
  assumes "aodv_run s es s'" and "I s"
    and "\<And>e a. e \<in> set es \<Longrightarrow> verification_answer_of e = Some a \<Longrightarrow> ok a"
    and "EvRreqRateTimer \<in> set es \<Longrightarrow> resets"
  shows "I s'"
  using assms by (induction rule: aodv_run.induct) (auto dest!: node_step_I)

lemma reach_I:
  assumes "aodv_reach p w s" and "\<And>e t. I (RoutingProtocol_make p w e t)" and "\<And>a. ok a" and resets
  shows "I s"
  using assms by (induction rule: aodv_reach.induct) (auto dest!: node_step_I)

end

section \<open>Well-formed nodes\<close>

text \<open>
  The containers of a node satisfy their own invariants: maps in key order, one route per
  destination filed under it, one entry per neighbour with the purge timer pending, no
  repeated identifiers, a bounded queue.
\<close>

definition aodv_wf :: "aodv \<Rightarrow> bool" where
  "aodv_wf s \<longleftrightarrow>
     rt_wf (m_routingTable s) \<and> nb_inv (m_nb s) \<and> rq_ok (m_queue s) \<and>
     id_cache_inv (m_rreqIdCache s) \<and> id_cache_inv (m_dpd s) \<and>
     smap (m_socketAddresses s) \<and> smap (m_socketSubnetBroadcastAddresses s) \<and>
     smap (m_addressReqTimer s) \<and> smap (m_rttProbeStartTime s) \<and>
     smap (m_neighborEstimatedRtt s) \<and> smap (m_neighborEstimatedVar s) \<and>
     smap (m_suspectUntil s) \<and> smap (m_detectedWormholePeers s) \<and>
     smap (m_underVerification s) \<and> smap (m_verificationProbeStartTime s) \<and>
     smap (m_verificationFailureCount s)"

interpretation wf: node_invariant aodv_wf aodv_wf "\<lambda>a. True" True
  by unfold_locales
    (auto simp: aodv_wf_def Dpd_IsDuplicate_def intro: smap_intros IsDuplicate_inv nb_step_inv
      Enqueue_rq_ok Dequeue_rq_ok DropPacketWithDst_rq_ok)

text \<open>
  In every reachable state of a node that no attribute setter touched its data structures are well-formed: every
  map is in key order, the table has one route per destination, filed under it, the queue has
  at most the maximum number of packets and no duplicates, neighbours are unique.
\<close>

lemma node_well_formed:
  assumes "aodv_reach p w s"
  shows "aodv_wf s"
  using assms
  by (rule wf.reach_I)
    (simp_all add: aodv_wf_def RoutingProtocol_make_def RoutingTable_make_def rt_wf_def
      Neighbors_SetCallback_def Neighbors_make_def nb_inv_def rq_ok_make)

section \<open>The rate of route requests\<close>

text \<open>
  From a state with count \<open>c\<close> and request identifier \<open>i\<close> on, as long as the count is not set back, every
  request counted has taken one identifier.
\<close>

definition counted :: "u16 \<Rightarrow> u32 \<Rightarrow> u16 \<Rightarrow> nat \<Rightarrow> aodv \<Rightarrow> bool" where
  "counted c i l k s \<longleftrightarrow> m_rreqRateLimit (m_par s) = l \<and> m_rreqCount s \<le> l \<and>
     (\<exists>n. unat (m_rreqCount s) = unat c + n + k \<and> m_requestId s = i + word_of_nat n)"

lemma counted_inc:
  assumes "counted c i l 0 s" and "m_rreqCount s \<noteq> m_rreqRateLimit (m_par s)"
  shows "counted c i l 1 (s\<lparr>m_rreqCount := m_rreqCount s + 1\<rparr>)"
proof -
  have less: "m_rreqCount s < l" using assms by (simp add: counted_def order_less_le)
  have "m_rreqCount s + 1 \<le> l" by (rule inc_le [OF less])
  moreover have "unat (m_rreqCount s + 1) = unat (m_rreqCount s) + 1"
    using less unsigned_less [of l, where ?'a = nat] by (simp add: unat_word_ariths word_less_nat_alt)
  ultimately show ?thesis using assms(1) by (auto simp: counted_def)
qed

lemma counted_id:
  assumes "counted c i l 1 s"
  shows "counted c i l 0 (s\<lparr>m_seqNo := q, m_requestId := m_requestId s + 1\<rparr>)"
proof -
  from assms obtain n where "unat (m_rreqCount s) = unat c + n + 1" "m_requestId s = i + word_of_nat n"
    and "m_rreqRateLimit (m_par s) = l" "m_rreqCount s \<le> l" by (auto simp: counted_def)
  then show ?thesis by (auto simp: counted_def intro!: exI [of _ "Suc n"])
qed

interpretation counts: node_invariant "counted c i l 0" "counted c i l 1" "\<lambda>a. True" False for c i l
  by unfold_locales ((erule (1) counted_inc | erule counted_id | simp add: counted_def)+)

definition within_limit :: "u16 \<Rightarrow> aodv \<Rightarrow> bool" where
  "within_limit l s \<longleftrightarrow> m_rreqRateLimit (m_par s) = l \<and> m_rreqCount s \<le> l"

lemma within_limit_inc:
  assumes "within_limit l s" and "m_rreqCount s \<noteq> m_rreqRateLimit (m_par s)"
  shows "within_limit l (s\<lparr>m_rreqCount := m_rreqCount s + 1\<rparr>)"
  using assms inc_le [of "m_rreqCount s" l] by (simp add: within_limit_def order_less_le)

interpretation within: node_invariant "within_limit l" "within_limit l" "\<lambda>a. True" True for l
  by unfold_locales ((erule (1) within_limit_inc | simp add: within_limit_def)+)

text \<open>
  Property C24: between two expiries of the rate timer a node originates no more route requests than
  \<open>m_rreqRateLimit\<close>, whatever happens to it: every request identifier it takes is counted, and the count never
  passes the limit. Below the limit the next request takes the next identifier and
  is scheduled once on every interface; at the limit nothing is sent and no identifier taken, but the
  same request is tried again 100 microseconds after the timer expires.
\<close>

theorem requests_rate_limited:
  assumes "aodv_reach p w s" and "aodv_run s es s1" and "EvRreqRateTimer \<notin> set es"
    and "SendRequest dst s1 = Some s2"
  shows "\<exists>n. m_requestId s1 = m_requestId s + word_of_nat n \<and>
    unat (m_rreqCount s1) = unat (m_rreqCount s) + n \<and> unat (m_rreqCount s) + n \<le> unat (m_rreqRateLimit p) \<and>
    (if unat (m_rreqCount s) + n < unat (m_rreqRateLimit p)
     then \<exists>sent ttl. m_pending s2 = m_pending s1 @ sent \<and>
       on_every_interface (request_for dst (m_requestId s1 + 1) (m_seqNo s1 + 1) ttl) (m_socketAddresses s1) sent \<and>
       m_requestId s2 = m_requestId s1 + 1 \<and> m_rreqCount s2 = m_rreqCount s1 + 1
     else s2 = s1\<lparr>m_pending := m_pending s1 @
       [(m_now s1 + (Timer_GetDelayLeft (m_now s1) (m_rreqRateLimitTimer s1) + MicroSeconds 100), PendingSendRequest dst)]\<rparr>)"
proof -
  have "within_limit (m_rreqRateLimit p) s"
    using assms(1) by (rule within.reach_I) (simp_all add: within_limit_def RoutingProtocol_make_def)
  then have "counted (m_rreqCount s) (m_requestId s) (m_rreqRateLimit p) 0 s" by (simp add: counted_def within_limit_def)
  then have "counted (m_rreqCount s) (m_requestId s) (m_rreqRateLimit p) 0 s1"
    using counts.run_I [OF assms(2)] assms(3) by blast
  then obtain n where n: "m_requestId s1 = m_requestId s + word_of_nat n" "unat (m_rreqCount s1) = unat (m_rreqCount s) + n"
    "m_rreqRateLimit (m_par s1) = m_rreqRateLimit p" "m_rreqCount s1 \<le> m_rreqRateLimit p" by (auto simp: counted_def)
  have le: "unat (m_rreqCount s) + n \<le> unat (m_rreqRateLimit p)" using n(2,4) by (simp add: word_le_nat_alt)
  have at: "m_rreqCount s1 = m_rreqRateLimit (m_par s1) \<longleftrightarrow> \<not> unat (m_rreqCount s) + n < unat (m_rreqRateLimit p)"
    using n(2,3) le by (metis nless_le word_unat_eq_iff)
  show ?thesis
  proof (cases "m_rreqCount s1 = m_rreqRateLimit (m_par s1)")
    case True
    then have "s2 = s1\<lparr>m_pending := m_pending s1 @
       [(m_now s1 + (Timer_GetDelayLeft (m_now s1) (m_rreqRateLimitTimer s1) + MicroSeconds 100), PendingSendRequest dst)]\<rparr>"
      using assms(4) by (simp add: SendRequest_def Simulator_Schedule_def)
    with n le at True show ?thesis by (intro exI [of _ n]) simp
  next
    case False
    from SendRequest_sends [OF assms(4) False] n le at False show ?thesis by (intro exI [of _ n]) simp
  qed
qed

text \<open>A node that starts up, gets a Wi-Fi interface and searches a route for a packet of its own.\<close>

definition lo_iface :: Ipv4Interface where
  "lo_iface = \<lparr>if_dev = 0, if_addrs = [Ipv4InterfaceAddress_make 0x7f000001 0xff000000], if_up = True,
     if_forwarding = True, if_arp = None\<rparr>"

definition search_run :: "event list" where
  "search_run = [EvSetIpv4 [lo_iface],
     EvIpv4 [lo_iface, \<lparr>if_dev = 1, if_addrs = [iface0], if_up = True, if_forwarding = True, if_arp = Some 0\<rparr>],
     EvInterfaceUp 1 1 2,
     EvRouteInput (Packet_Create\<lparr>p_oif := Some (-1)\<rparr>) (Ipv4Header_default\<lparr>ih_dst := 0x0a000005\<rparr>) 0 1 None 2]"

fun node_steps :: "event list \<Rightarrow> aodv \<Rightarrow> aodv option" where
  "node_steps [] s = Some s"
| "node_steps (e # es) s = (case node_step e s of Some (Some s) \<Rightarrow> node_steps es s | _ \<Rightarrow> None)"

lemma node_steps_run: "node_steps es s = Some s' \<Longrightarrow> aodv_run s es s'"
  by (induction es arbitrary: s) (auto split: option.splits intro: aodv_run.intros aodv_step.intros)

lemma search_run_requests:
  "case node_steps search_run (RoutingProtocol_make AodvParams_default WormParams_default env0 0) of
     None \<Rightarrow> False
   | Some s1 \<Rightarrow> m_rreqCount s1 = 1 \<and> length (m_socketAddresses s1) = 1 \<and> SendRequest 0x0a000006 s1 \<noteq> None"
  by code_simp

theorem requests_rate_limited_witness:
  "\<exists>s1 s2. aodv_run (RoutingProtocol_make AodvParams_default WormParams_default env0 0) search_run s1 \<and>
     SendRequest 0x0a000006 s1 = Some s2 \<and> m_rreqCount s1 = 1 \<and> m_requestId s1 = 1 \<and>
     m_rreqCount s2 = 2 \<and> length (m_pending s2) = Suc (length (m_pending s1))"
proof -
  let ?s = "RoutingProtocol_make AodvParams_default WormParams_default env0 0"
  obtain s1 s2 where s: "node_steps search_run ?s = Some s1" "m_rreqCount s1 = 1" "length (m_socketAddresses s1) = 1"
      "SendRequest 0x0a000006 s1 = Some s2"
    using search_run_requests by (auto split: option.splits)
  have run: "aodv_run ?s search_run s1" by (rule node_steps_run [OF s(1)])
  have t: "EvRreqRateTimer \<notin> set search_run" by (simp add: search_run_def)
  have l: "m_rreqRateLimit AodvParams_default = 10" "m_rreqCount ?s = 0" "m_requestId ?s = 0"
    by (simp_all add: AodvParams_default_def RoutingProtocol_make_def)
  from requests_rate_limited [OF aodv_reach.init run t s(4)] obtain n sent ttl where
    n: "m_requestId s1 = word_of_nat n" "n = 1" "m_rreqCount s2 = m_rreqCount s1 + 1"
      "m_pending s2 = m_pending s1 @ sent"
      "on_every_interface (request_for 0x0a000006 (m_requestId s1 + 1) (m_seqNo s1 + 1) ttl) (m_socketAddresses s1) sent"
    unfolding l s(2) by (auto split: if_splits)
  have "length sent = 1" using n(5) s(3) by (auto simp: on_every_interface_def dest: list_all2_lengthD)
  with run s n show ?thesis by (intro exI [of _ s1] exI [of _ s2]) simp
qed

section \<open>A neighbour that never answers the second probe\<close>

definition verifying :: "ip \<Rightarrow> time option \<Rightarrow> aodv \<Rightarrow> bool" where
  "verifying a until s \<longleftrightarrow> m_enableSecondProbeVerification (m_wrm s) \<and>
     map_of (m_underVerification s) a \<noteq> None \<and> map_of (m_suspectUntil s) a = until"

interpretation silent: node_invariant "verifying a u" "verifying a u" "\<lambda>b. b \<noteq> a" True for a u
  by unfold_locales (auto simp: verifying_def map_of_map_insert)

text \<open>
  Property C2: a neighbour under verification escapes the detector by staying silent. Whatever
  happens to the node, its further replies with any round trip included, as long as no
  verification answer of that neighbour arrives it stays under verification, its suspicion does
  not change, and by \<open>rrep_rejected\<close> none of its replies is rejected.
\<close>

theorem silent_neighbor_escapes:
  assumes "m_enableSecondProbeVerification (m_wrm s)" and "map_of (m_underVerification s) a \<noteq> None"
    and "map_of (m_suspectUntil s) a = None"
    and "aodv_run s es s'" and "\<forall>e \<in> set es. verification_answer_of e \<noteq> Some a"
    and "rrep_rejected h receiver a s' = Some (rejected, s2)"
  shows "map_of (m_underVerification s') a \<noteq> None \<and> \<not> IsNeighborTemporarilySuspect a s' \<and> \<not> rejected"
proof -
  have "verifying a None s" using assms(1-3) by (simp add: verifying_def)
  then have v: "verifying a None s'" using silent.run_I [OF assms(4)] assms(5) by blast
  then have ns: "\<not> IsNeighborTemporarilySuspect a s'"
    by (simp add: verifying_def IsNeighborTemporarilySuspect_def)
  have "\<not> rejected"
    using assms(6) v ns
    by (auto simp: rrep_rejected_def verifying_def EvaluateRttProbe_start Let_def
        split: if_splits option.splits)
  with v ns show ?thesis by (simp add: verifying_def)
qed

theorem silent_neighbor_escapes_witness:
  "let s' = (probing_node True)\<lparr>m_now := 5\<rparr>
   in \<not> IsNeighborTemporarilySuspect 9 s' \<and>
     \<not> fst (the (rrep_rejected (RrepHeader_make 0 0 2 1 1 0) 1 9 s'))"
proof -
  let ?s = "probing_node True" and ?h = "RrepHeader_make 0 0 2 1 1 0"
  let ?s' = "?s\<lparr>m_now := 5\<rparr>"
  have "aodv_step ?s (EvAdvance 5) ?s'"
    by (rule aodv_step.step)
      (simp add: due_times_def map_filter_def node0_def RoutingProtocol_make_def
        Neighbors_SetCallback_def Neighbors_make_def)
  then have run: "aodv_run ?s [EvAdvance 5] ?s'" by (rule aodv_run.cons) (rule aodv_run.nil)
  have p: "map_of (m_rttProbeStartTime ?s') (ProbeKey 1 2) = Some 0" by simp
  obtain r s2 where r: "rrep_rejected ?h 1 9 ?s' = Some (r, s2)"
    using EvaluateRttProbe_start [OF p, of 9 1 5]
    by (cases "rtt_anomalous 1 9 5 ?s'")
      (auto simp: rrep_rejected_def RrepHeader_make_def IsNeighborTemporarilySuspect_def
        WormParams_default_def Let_def)
  have a: "m_enableSecondProbeVerification (m_wrm ?s)" "map_of (m_underVerification ?s) 9 \<noteq> None"
    "map_of (m_suspectUntil ?s) 9 = None"
    "\<forall>e \<in> set [EvAdvance 5]. verification_answer_of e \<noteq> Some 9" by simp_all
  from silent_neighbor_escapes [OF a(1-3) run a(4) r] r show ?thesis by simp
qed

section \<open>A request is processed once\<close>

definition seen_request :: "ip \<times> u32 \<Rightarrow> time \<Rightarrow> aodv \<Rightarrow> bool" where
  "seen_request k e s \<longleftrightarrow> id_cache_inv (m_rreqIdCache s) \<and>
     (m_now s \<le> e \<longrightarrow> seen_until (m_rreqIdCache s) k = Some e)"

lemma seen_request_IsDuplicate:
  assumes "seen_request k e s" and "IdCache_IsDuplicate (m_now s) a i (m_rreqIdCache s) = (b, c)"
  shows "seen_request k e (s\<lparr>m_rreqIdCache := c\<rparr>)"
proof -
  have inv: "id_cache_inv (m_rreqIdCache s)" using assms(1) by (simp add: seen_request_def)
  have "seen_until c k = Some e" if "m_now s \<le> e"
    using that assms(1) IsDuplicate_refines [OF inv assms(2)]
      spec_keep [where m = "seen_until (m_rreqIdCache s)" and k = k and e = e and k' = "(a, i)" and now = "m_now s"]
    by (metis seen_request_def snd_conv)
  with IsDuplicate_inv [OF inv assms(2)] show ?thesis by (simp add: seen_request_def)
qed

interpretation seen: node_invariant "seen_request k e" "seen_request k e" "\<lambda>b. True" True for k e
  by unfold_locales ((erule (1) seen_request_IsDuplicate | simp add: seen_request_def)+)

lemma RecvRequest_seen:
  assumes "id_cache_inv (m_rreqIdCache s)"
    and "Packet_RemoveHeader RreqHeader_Deserialize p = Some (h, q)"
    and "\<not> (\<exists>e. live_routes s src = Some e \<and> e_blackListState e)"
    and "\<not> fst (IdCache_IsDuplicate (m_now s) (rq_origin h) (rq_requestID h) (m_rreqIdCache s))"
    and "RecvRequest p receiver src s = Some s1"
  shows "seen_request (rq_origin h, rq_requestID h) (m_now s + ic_lifetime (m_rreqIdCache s)) s1"
proof -
  let ?k = "(rq_origin h, rq_requestID h)" and ?e = "m_now s + ic_lifetime (m_rreqIdCache s)"
  obtain c where c: "IdCache_IsDuplicate (m_now s) (rq_origin h) (rq_requestID h) (m_rreqIdCache s) = (False, c)"
    using assms(4) by (metis fst_conv surj_pair)
  define found rt where fr: "found = fst (lookupRoute src (newRt s) s)"
    "rt = fst (snd (lookupRoute src (newRt s) s))"
  have l: "lookupRoute src (newRt s) s =
      (found, rt, s\<lparr>m_routingTable := RoutingTable_Purge (m_now s) (m_routingTable s)\<rparr>)"
    and nb: "\<not> (found \<and> e_blackListState rt)"
    using assms(3) by (auto simp: fr lookupRoute_eq split: option.splits)
  let ?s = "s\<lparr>m_routingTable := RoutingTable_Purge (m_now s) (m_routingTable s), m_rreqIdCache := c\<rparr>"
  have "seen_request ?k ?e ?s"
    using IsDuplicate_inv [OF assms(1) c] IsDuplicate_refines [OF assms(1) c]
    by (auto simp: seen_request_def spec_is_duplicate_def add.commute split: if_splits)
  moreover have "do {
      let h = h\<lparr>rq_hopCount := rq_hopCount h + 1\<rparr>;
      (receiver, toOrigin, s) \<leftarrow> rreq_reverse_route h receiver src ?s;
      s \<leftarrow> rreq_neighbor_route h receiver src s;
      s \<leftarrow> nbUpdate src (uint (m_allowedHelloLoss (m_par s)) * m_helloInterval (m_par s)) s;
      if IsMyOwnAddress (rq_dst h) s then
        let (_, toOrigin, s) = lookupRoute (rq_origin h) toOrigin s in SendReply h toOrigin s
      else do {
        (fwd, s) \<leftarrow> rreq_answer h receiver src toOrigin s;
        case fwd of None \<Rightarrow> Some s | Some h \<Rightarrow> rreq_forward q h s
      }
    } = Some s1"
    using assms(5) nb by (simp add: RecvRequest_def assms(2) l c)
  ultimately show ?thesis
    by (auto simp: Let_def elim!: bind_Some_elim dest!: seen.rreq_reverse_route_I
        seen.rreq_neighbor_route_I seen.nbUpdate_I seen.lookupRoute_I seen.SendReply_I
        seen.rreq_answer_I seen.rreq_forward_I split: prod.splits if_splits option.splits)
qed

text \<open>
  Property C1: a route request is processed once. After a request that was new to the node has been
  handled, whatever happens, every copy of it that arrives within the lifetime of the cache
  is dropped: the node only purges its table and its cache, and sends nothing.
\<close>

theorem request_processed_once:
  assumes "id_cache_inv (m_rreqIdCache s)"
    and "Packet_RemoveHeader RreqHeader_Deserialize p = Some (h, q)"
    and "\<not> (\<exists>e. live_routes s src = Some e \<and> e_blackListState e)"
    and "\<not> fst (IdCache_IsDuplicate (m_now s) (rq_origin h) (rq_requestID h) (m_rreqIdCache s))"
    and "RecvRequest p receiver src s = Some s1" and "aodv_run s1 es s2"
    and "m_now s2 \<le> m_now s + ic_lifetime (m_rreqIdCache s)"
    and "Packet_RemoveHeader RreqHeader_Deserialize p' = Some (h', q')"
    and "rq_origin h' = rq_origin h" and "rq_requestID h' = rq_requestID h"
  shows "\<exists>c. RecvRequest p' receiver' src' s2 =
    Some (s2\<lparr>m_routingTable := RoutingTable_Purge (m_now s2) (m_routingTable s2), m_rreqIdCache := c\<rparr>)"
proof -
  let ?k = "(rq_origin h, rq_requestID h)" and ?e = "m_now s + ic_lifetime (m_rreqIdCache s)"
  have "seen_request ?k ?e s2"
    by (rule seen.run_I [OF assms(6) RecvRequest_seen [OF assms(1-5)]]) simp_all
  then have inv: "id_cache_inv (m_rreqIdCache s2)" and k: "seen_until (m_rreqIdCache s2) ?k = Some ?e"
    using assms(7) by (simp_all add: seen_request_def)
  obtain b c where c: "IdCache_IsDuplicate (m_now s2) (rq_origin h) (rq_requestID h) (m_rreqIdCache s2) = (b, c)"
    by fastforce
  have b
    using IsDuplicate_refines [OF inv c] k assms(7) by (auto simp: spec_is_duplicate_def spec_seen_def split: if_splits)
  show ?thesis
  proof (cases "\<exists>e. live_routes s2 src' = Some e \<and> e_blackListState e")
    case True
    then show ?thesis
      by (intro exI [of _ "m_rreqIdCache s2"]) (auto simp: RecvRequest_def assms(8) lookupRoute_eq)
  next
    case False
    with c \<open>b\<close> show ?thesis
      by (intro exI [of _ c]) (auto simp: RecvRequest_def assms(8-10) lookupRoute_eq Let_def split: option.splits)
  qed
qed

theorem request_processed_once_witness:
  "let p = Packet_Create\<lparr>p_bytes := RreqHeader_Serialize (RreqHeader_default
          \<lparr>rq_requestID := 4, rq_origin := 7, rq_dst := 5, rq_originSeqNo := 3\<rparr>), p_ttl := Some 5\<rparr>;
       s1 = the (RecvRequest p 0x0a000001 9 node0);
       s2 = the (RecvRequest p 0x0a000001 8 s1)
   in m_pending s2 = m_pending s1 \<and> m_out s2 = m_out s1"
proof -
  let ?h = "RreqHeader_default\<lparr>rq_requestID := 4, rq_origin := 7, rq_dst := 5, rq_originSeqNo := 3\<rparr>"
  let ?p = "Packet_Create\<lparr>p_bytes := RreqHeader_Serialize ?h, p_ttl := Some 5\<rparr>"
  let ?q = "?p\<lparr>p_bytes := []\<rparr>"
  have h: "Packet_RemoveHeader RreqHeader_Deserialize ?p = Some (?h, ?q)" by code_simp
  have "RecvRequest ?p 0x0a000001 9 node0 \<noteq> None" by code_simp
  then obtain s1 where s1: "RecvRequest ?p 0x0a000001 9 node0 = Some s1" by blast
  have c: "m_rreqIdCache node0 = IdCache_make (MilliSeconds 5600)"
    by (simp add: node0_def RoutingProtocol_make_def)
  have now: "m_now s1 = 0"
  proof -
    have "map_option m_now (RecvRequest ?p 0x0a000001 9 node0) = Some 0" by code_simp
    then show ?thesis using s1 by simp
  qed
  obtain c' where "RecvRequest ?p 0x0a000001 8 s1 =
      Some (s1\<lparr>m_routingTable := RoutingTable_Purge (m_now s1) (m_routingTable s1), m_rreqIdCache := c'\<rparr>)"
    using request_processed_once [OF _ h _ _ s1 aodv_run.nil _ h refl refl,
        where receiver' = "0x0a000001" and src' = "8"]
    by (auto simp: c now IdCache_make_def id_cache_inv_def IdCache_IsDuplicate_def IdCache_Purge_def
        MilliSeconds_def RoutingTable_make_def RoutingTable_Purge_def)
  with s1 show ?thesis by simp
qed

end
