(* ===== verification/Aodv_Attack.thy ===== *)
theory Aodv_Attack
  imports Aodv_Invariants
begin

text \<open>
  The black hole attack of this fork from end to end: what a malicious node sends in answer to a
  request, what the searching node that receives it does with its route and its waiting packets,
  and what becomes of the answer of the destination itself.
\<close>

section \<open>Entries that outlive a handler\<close>

text \<open>\<open>route_held P k s\<close>: the table has an unexpired entry for \<open>k\<close> with the property \<open>P\<close>.\<close>

definition route_held :: "(RoutingTableEntry \<Rightarrow> bool) \<Rightarrow> ip \<Rightarrow> aodv \<Rightarrow> bool" where
  "route_held P k s \<longleftrightarrow> rt_wf (m_routingTable s) \<and>
     (\<exists>e. routes s k = Some e \<and> m_now s \<le> e_lifeTime e \<and> P e)"

lemma route_held_simps [simp]:
  "route_held P k (s\<lparr>m_out := o1\<rparr>) = route_held P k s"
  "route_held P k (s\<lparr>m_queue := q\<rparr>) = route_held P k s"
  "route_held P k (s\<lparr>m_addressReqTimer := a\<rparr>) = route_held P k s"
  "route_held P k (s\<lparr>m_underVerification := u\<rparr>) = route_held P k s"
  "route_held P k (s\<lparr>m_rttProbeStartTime := r\<rparr>) = route_held P k s"
  "route_held P k (s\<lparr>m_verificationProbeStartTime := v\<rparr>) = route_held P k s"
  by (simp_all add: route_held_def)

lemma held_live: "route_held P k s \<Longrightarrow> \<exists>e. live_routes s k = Some e \<and> routes s k = Some e \<and> P e \<and>
    m_now s \<le> e_lifeTime e \<and> Entry_GetDestination e = k"
  using rstore.view_purge [of "m_routingTable s" "m_now s" k] rstore.keep_fresh rt_wf_dest [of "m_routingTable s" k]
  by (fastforce simp: route_held_def)

lemma held_purge [simp]:
  assumes "route_held P k s"
  shows "route_held P k (s\<lparr>m_routingTable := RoutingTable_Purge (m_now s) (m_routingTable s)\<rparr>)"
  using held_live [OF assms] assms rt_wf_Purge [of "m_routingTable s"] by (auto simp: route_held_def)

lemma held_lookupRoute: "lookupRoute a rt s = (b, rt', s') \<Longrightarrow> route_held P k s \<Longrightarrow> route_held P k s'"
  by (auto simp: lookupRoute_eq split: option.splits)

lemma held_lookupValidRoute:
  "lookupValidRoute a rt s = (b, rt', s') \<Longrightarrow> route_held P k s \<Longrightarrow> route_held P k s'"
  by (auto simp: lookupValidRoute_eq split: option.splits)

lemma held_snd_lookup [simp]: "route_held P k s \<Longrightarrow> route_held P k (snd (snd (lookupRoute a rt s)))"
  by (simp add: lookupRoute_eq split: option.splits)

lemma held_UpdateRouteToNeighbor:
  assumes "UpdateRouteToNeighbor a r s = Some s'" and "a \<noteq> k" and "route_held P k s"
  shows "route_held P k s'"
proof -
  let ?p = "s\<lparr>m_routingTable := RoutingTable_Purge (m_now s) (m_routingTable s)\<rparr>"
  have h: "route_held P k ?p" using assms(3) by simp
  obtain b rt where l: "lookupRoute a (newRt s) s = (b, rt, ?p)" by (cases "live_routes s a") (auto simp: lookupRoute_eq)
  have add: "route_held P k (addRoute e ?p)" "route_held P k (updateRoute e ?p)" if "Entry_GetDestination e = a" for e
  proof -
    from held_live [OF h] obtain x where x: "live_routes ?p k = Some x" "routes ?p k = Some x" "P x"
      "m_now s \<le> e_lifeTime x" by auto
    have w: "rt_wf (m_routingTable (addRoute e ?p))" "rt_wf (m_routingTable (updateRoute e ?p))"
      using h rstore.wf_add rstore.wf_upd by (simp_all add: route_held_def addRoute_def updateRoute_def)
    show "route_held P k (addRoute e ?p)" "route_held P k (updateRoute e ?p)"
      using x w that assms(2) by (simp_all add: route_held_def addRoute_routes updateRoute_routes)
  qed
  show ?thesis
    using assms(1) h l
    by (auto simp: UpdateRouteToNeighbor_def Let_def RoutingTableEntry_make_def Entry_GetDestination_def
        elim!: bind_Some_elim intro!: add split: if_splits)
qed

text \<open>A property that refreshing a route keeps survives everything that only sends.\<close>

locale kept_route =
  fixes P :: "RoutingTableEntry \<Rightarrow> bool"
  assumes refreshed_P: "P e \<Longrightarrow> P (refreshed t e)"
begin

lemma held_lifetime:
  assumes "route_held P k s"
  shows "route_held P k (snd (UpdateRouteLifeTime a life s))"
proof -
  obtain e where e: "live_routes s k = Some e" "P e" "m_now s \<le> e_lifeTime e" using held_live [OF assms] by blast
  have w: "rt_wf (m_routingTable s)" using assms by (simp add: route_held_def)
  have "routes (snd (UpdateRouteLifeTime a life s)) k = Some e \<or>
      routes (snd (UpdateRouteLifeTime a life s)) k = Some (refreshed (m_now s + life) e)"
    using UpdateRouteLifeTime_routes(1) [OF w prod.collapse [symmetric], of a life] e(1)
    by (auto split: option.splits if_splits)
  then show ?thesis
    using e refreshed_P UpdateRouteLifeTime_wf [OF w]
    by (auto simp: route_held_def refreshed_def le_max_iff_disj)
qed

lemma held_RouteOutput: "RouteOutput p h oif s = Some (r, x, p', s') \<Longrightarrow> route_held P k s \<Longrightarrow> route_held P k s'"
  by (auto simp: RouteOutput_def Let_def elim!: bind_Some_elim intro!: held_lifetime
      dest!: held_lookupValidRoute split: option.splits prod.splits if_splits)

lemma held_SendTo: "Socket_SendTo i p a s = Some s' \<Longrightarrow> route_held P k s \<Longrightarrow> route_held P k s'"
  by (auto simp: Socket_SendTo_def Let_def elim!: bind_Some_elim dest!: held_RouteOutput
      split: prod.splits if_splits)

lemma held_verification: "SendVerificationTestPacket a b s = Some s' \<Longrightarrow> route_held P k s \<Longrightarrow> route_held P k s'"
  by (auto simp: SendVerificationTestPacket_def Let_def elim!: bind_Some_elim dest!: held_SendTo)

lemma held_stats: "route_held P k s \<Longrightarrow> route_held P k (UpdateNeighborRttStats a t s)"
  by (auto simp: UpdateNeighborRttStats_def Let_def route_held_def split: option.splits)

lemma held_suspect: "route_held P k s \<Longrightarrow> route_held P k (suspect_neighbor a s)"
  by (simp add: suspect_neighbor_def route_held_def)

lemma held_rejected: "rrep_rejected h r a s = Some (b, s') \<Longrightarrow> route_held P k s \<Longrightarrow> route_held P k s'"
  by (auto simp: rrep_rejected_def EvaluateRttProbe_def Let_def elim!: bind_Some_elim
      intro: held_stats held_suspect dest!: held_verification split: option.splits if_splits)

lemma held_ack: "SendReplyAck a s = Some s' \<Longrightarrow> route_held P k s \<Longrightarrow> route_held P k s'"
  by (auto simp: SendReplyAck_def Let_def elim!: bind_Some_elim dest!: held_lookupRoute held_SendTo
      split: prod.splits)

end

interpretation searching: kept_route "\<lambda>e. e_flag e = IN_SEARCH"
  by unfold_locales (simp add: refreshed_def)

text \<open>A valid route with a given next hop, sequence number and hop count.\<close>

definition route_like :: "RoutingTableEntry \<Rightarrow> RoutingTableEntry \<Rightarrow> bool" where
  "route_like x e \<longleftrightarrow> e_flag e = VALID \<and> e_validSeqNo e \<and> e_seqNo e = e_seqNo x \<and> e_hops e = e_hops x \<and>
     e_route e = e_route x"

interpretation like: kept_route "route_like x" for x
  by unfold_locales (simp add: refreshed_def route_like_def)

text \<open>What sending and judging replies never touches.\<close>

definition frame :: "aodv \<Rightarrow> _" where
  "frame s = (m_queue s, m_ipv4 s, m_par s, m_wrm s, m_env s, m_socketAddresses s, m_now s)"

interpretation frame: table_invariant "\<lambda>s. frame s = c" for c
  by unfold_locales (simp_all add: frame_def)

lemma SendTo_frame: "Socket_SendTo i p a s = Some s' \<Longrightarrow> frame s' = frame s"
  using frame.Socket_SendTo_I by blast

lemma lookup_frame: "lookupRoute a rt s = (b, rt', s') \<Longrightarrow> frame s' = frame s"
  using frame.lookupRoute_I by blast

lemma frame_rejected: "rrep_rejected h r a s = Some (b, s') \<Longrightarrow> frame s' = frame s"
  by (auto simp: rrep_rejected_def EvaluateRttProbe_def SendVerificationTestPacket_def Let_def frame_def
      UpdateNeighborRttStats_def suspect_neighbor_def
      elim!: bind_Some_elim dest!: frame.Socket_SendTo_I [unfolded frame_def] split: option.splits if_splits)

text \<open>The log only grows.\<close>

definition log_grows :: "aodv \<Rightarrow> aodv \<Rightarrow> bool" where
  "log_grows s s' \<longleftrightarrow> (\<exists>mid. m_out s' = m_out s @ mid)"

lemma log_grows_refl [simp]: "m_out s' = m_out s \<Longrightarrow> log_grows s s'"
  by (simp add: log_grows_def)

lemma log_grows_trans: "log_grows s s1 \<Longrightarrow> log_grows s1 s2 \<Longrightarrow> log_grows s s2"
  by (auto simp: log_grows_def)

lemma SendTo_grows: "Socket_SendTo i p a s = Some s' \<Longrightarrow> log_grows s s'"
  by (auto simp: log_grows_def Socket_SendTo_def Let_def elim!: bind_Some_elim dest!: RouteOutput_keeps
      split: if_splits)

lemma verification_grows: "SendVerificationTestPacket a b s = Some s' \<Longrightarrow> log_grows s s'"
  by (auto simp: SendVerificationTestPacket_def Let_def log_grows_def elim!: bind_Some_elim
      dest!: SendTo_grows)

lemma rejected_grows: "rrep_rejected h r a s = Some (b, s') \<Longrightarrow> log_grows s s'"
  by (auto simp: rrep_rejected_def EvaluateRttProbe_def Let_def log_grows_def
      suspect_neighbor_def elim!: bind_Some_elim dest!: verification_grows split: option.splits if_splits)

lemma ack_grows: "SendReplyAck a s = Some s' \<Longrightarrow> log_grows s s'"
  by (auto simp: SendReplyAck_def Let_def log_grows_def elim!: bind_Some_elim dest!: lookupRoute_out SendTo_grows
      split: prod.splits)

lemma ack_frame: "SendReplyAck a s = Some s' \<Longrightarrow> frame s' = frame s"
  by (auto simp: SendReplyAck_def Let_def elim!: bind_Some_elim
      dest!: lookup_frame SendTo_frame split: prod.splits)

section \<open>A reply to the own search\<close>

text \<open>
  The detector lets a reply through when it is off, or in its second stage, the default, when the
  sender is not suspect already.
\<close>

definition lets_through :: "ip \<Rightarrow> aodv \<Rightarrow> bool" where
  "lets_through sender s \<longleftrightarrow> m_enableRttWormholeDetect (m_wrm s) \<longrightarrow>
     m_enableSecondProbeVerification (m_wrm s) \<and> \<not> IsNeighborTemporarilySuspect sender s"

lemma not_rejected: "lets_through sender s \<Longrightarrow> rrep_rejected h r sender s = Some (b, s') \<Longrightarrow> \<not> b"
  by (auto simp: lets_through_def rrep_rejected_def EvaluateRttProbe_def Let_def elim!: bind_Some_elim
      split: option.splits if_splits)

lemma send_from_queue_frame:
  "send_from_queue fuel dst r s = Some s' \<Longrightarrow> m_now s' = m_now s \<and> m_routingTable s' = m_routingTable s"
proof (induction fuel arbitrary: s)
  case (Suc fuel)
  then show ?case
    by (fastforce simp: send_from_queue.simps [of "Suc fuel"] Let_def elim!: bind_Some_elim
        split: prod.splits if_splits)
qed (auto simp: send_from_queue.simps Let_def split: prod.splits if_splits)

text \<open>The entry a reply makes.\<close>

definition reply_entry :: "RrepHeader \<Rightarrow> ip \<Rightarrow> ip \<Rightarrow> aodv \<Rightarrow> RoutingTableEntry option" where
  "reply_entry h receiver sender s =
     do {
       d \<leftarrow> deviceFor receiver s;
       iface \<leftarrow> ifaceFor receiver s;
       Some (RoutingTableEntry_make (m_now s) (Some d) (rp_dst h) True (rp_dstSeqNo h) iface
               (ucast (rp_hopCount h + 1)) sender (RrepHeader_GetLifeTime h))
     }"

lemma reply_entry_frame: "frame s' = frame s \<Longrightarrow> reply_entry h r a s' = reply_entry h r a s"
  by (simp add: reply_entry_def deviceFor_def ifaceFor_def frame_def)

lemma reply_entry_simps:
  assumes "reply_entry h r a s = Some x"
  shows "Entry_GetDestination x = rp_dst h" "Entry_GetNextHop x = a" "e_seqNo x = rp_dstSeqNo h"
    "e_hops x = ucast (rp_hopCount h + 1)" "e_flag x = VALID" "e_validSeqNo x"
    "e_lifeTime x = m_now s + RrepHeader_GetLifeTime h" "m_now s \<le> e_lifeTime x"
  using assms
  by (auto simp: reply_entry_def RoutingTableEntry_make_def Entry_GetDestination_def Entry_GetNextHop_def
      RrepHeader_GetLifeTime_def MilliSeconds_def elim!: bind_Some_elim)

lemma hop_simps [simp]:
  "RrepHeader_GetLifeTime (h\<lparr>rp_hopCount := c\<rparr>) = RrepHeader_GetLifeTime h"
  "RrepHeader_GetAckRequired (h\<lparr>rp_hopCount := c\<rparr>) = RrepHeader_GetAckRequired h"
  "rp_origin (RrepHeader_SetAckRequired b h) = rp_origin h"
  by (simp_all add: RrepHeader_GetLifeTime_def RrepHeader_GetAckRequired_def RrepHeader_SetAckRequired_def)

lemma own_address_frame: "frame s' = frame s \<Longrightarrow> IsMyOwnAddress a s' = IsMyOwnAddress a s"
  by (simp add: IsMyOwnAddress_def frame_def)

text \<open>The handler step by step when the reply is for this node and passes the detector.\<close>

lemma own_reply_steps:
  assumes "Packet_RemoveHeader RrepHeader_Deserialize p = Some (h, q)" and "rp_dst h \<noteq> rp_origin h"
    and "IsMyOwnAddress (rp_origin h) s" and "lets_through sender s"
    and "RecvReply p receiver sender s = Some s'"
  obtains s1 x toDst s2 s3 where
    "rrep_rejected (h\<lparr>rp_hopCount := rp_hopCount h + 1\<rparr>) receiver sender s = Some (False, s1)"
    "frame s1 = frame s" "reply_entry h receiver sender s = Some x"
    "rrep_forward_route (h\<lparr>rp_hopCount := rp_hopCount h + 1\<rparr>) x s1 = (toDst, s2)"
    "(if RrepHeader_GetAckRequired h then SendReplyAck sender s2 else Some s2) = Some s3"
    "(let s = (if e_flag toDst = IN_SEARCH
               then (updateRoute x s3)\<lparr>m_addressReqTimer := map_erase (rp_dst h) (m_addressReqTimer s3)\<rparr>
               else s3);
          (_, toDst, s) = lookupRoute (rp_dst h) toDst s
      in SendPacketFromQueue (rp_dst h) (e_route toDst) s) = Some s'"
proof -
  let ?h = "h\<lparr>rp_hopCount := rp_hopCount h + 1\<rparr>"
  obtain b s1 where r: "rrep_rejected ?h receiver sender s = Some (b, s1)"
    using assms(1,2,5) by (auto simp: RecvReply_def Let_def elim!: bind_Some_elim)
  note b = not_rejected [OF assms(4) r] and f1 = frame_rejected [OF r]
  obtain d iface where d: "deviceFor receiver s1 = Some d" "ifaceFor receiver s1 = Some iface"
    using assms(1,2,5) r b by (auto simp: RecvReply_def Let_def elim!: bind_Some_elim)
  let ?x = "RoutingTableEntry_make (m_now s1) (Some d) (rp_dst h) True (rp_dstSeqNo h) iface
      (ucast (rp_hopCount h + 1)) sender (RrepHeader_GetLifeTime h)"
  have x: "reply_entry h receiver sender s1 = Some ?x" using d by (simp add: reply_entry_def)
  obtain toDst s2 where f2: "rrep_forward_route ?h ?x s1 = (toDst, s2)" by (cases "rrep_forward_route ?h ?x s1")
  obtain s3 where s3: "(if RrepHeader_GetAckRequired h then SendReplyAck sender s2 else Some s2) = Some s3"
    using assms(1,2,5) r b d f2 by (auto simp: RecvReply_def Let_def elim!: bind_Some_elim)
  have "frame s2 = frame s1" using f2
    by (auto simp: rrep_forward_route_def frame_def lookupRoute_eq updateRoute_def addRoute_def
        split: option.splits if_splits)
  then have "frame s3 = frame s" using s3 ack_frame f1 by (metis option.inject)
  then have own: "IsMyOwnAddress (rp_origin h) s3" using assms(3) own_address_frame by blast
  show thesis
  proof (rule that)
    show "(let s = (if e_flag toDst = IN_SEARCH
               then (updateRoute ?x s3)\<lparr>m_addressReqTimer := map_erase (rp_dst h) (m_addressReqTimer s3)\<rparr>
               else s3);
          (_, toDst, s) = lookupRoute (rp_dst h) toDst s
      in SendPacketFromQueue (rp_dst h) (e_route toDst) s) = Some s'"
      using assms(1,2,5) r b d f2 s3 own
      by (cases "RrepHeader_GetAckRequired h"; cases "e_flag toDst = IN_SEARCH")
        (simp_all add: RecvReply_def Let_def)
  qed (use r b f1 f2 s3 x reply_entry_frame [OF f1] in simp_all)
qed

interpretation any: kept_route "\<lambda>e. True"
  by unfold_locales simp

lemma held_update:
  assumes "route_held P k s" and "Entry_GetDestination x = k" and "m_now s \<le> e_lifeTime x"
    and "Q (clear_count x)"
  shows "route_held Q k (updateRoute x s)" and "routes (updateRoute x s) k = Some (clear_count x)"
proof -
  show r: "routes (updateRoute x s) k = Some (clear_count x)"
    using assms(1,2) by (auto simp: route_held_def updateRoute_routes)
  have "rt_wf (m_routingTable (updateRoute x s))"
    using assms(1) rt_wf_Update by (simp add: route_held_def updateRoute_def)
  then show "route_held Q k (updateRoute x s)"
    unfolding route_held_def r using assms(3,4) by (simp add: clear_count_def Entry_SetRreqCnt_def)
qed

lemma clear_count_like: "e_flag x = VALID \<Longrightarrow> e_validSeqNo x \<Longrightarrow> route_like x (clear_count x)"
  by (simp add: route_like_def clear_count_def Entry_SetRreqCnt_def)

lemma frame_simps:
  "frame s' = frame s \<Longrightarrow> m_queue s' = m_queue s \<and> m_ipv4 s' = m_ipv4 s \<and> m_now s' = m_now s \<and>
     m_env s' = m_env s \<and> m_wrm s' = m_wrm s"
  by (simp add: frame_def)

lemma own_reply:
  assumes held: "route_held (\<lambda>e. e_flag e = IN_SEARCH) (rp_dst h) s"
    and p: "Packet_RemoveHeader RrepHeader_Deserialize p = Some (h, q)" "rp_dst h \<noteq> rp_origin h"
    and own: "IsMyOwnAddress (rp_origin h) s" "lets_through sender s" and v: "m_ipv4 s = Some v"
    and run: "RecvReply p receiver sender s = Some s'"
  shows "\<exists>x e mid. reply_entry h receiver sender s = Some x \<and> live_routes s' (rp_dst h) = Some e \<and>
    route_like x e \<and> e_lifeTime e = e_lifeTime x \<and>
    m_out s' = m_out s @ mid @ queue_drops (stale s) @ map (released (e_route x))
      (takeWhile (right_device v (e_route x)) (filter (\<lambda>e. entry_dst e = rp_dst h) (fresh s)))"
proof -
  let ?h = "h\<lparr>rp_hopCount := rp_hopCount h + 1\<rparr>" and ?dst = "rp_dst h"
  obtain s1 x toDst s2 s3 where
    r: "rrep_rejected ?h receiver sender s = Some (False, s1)" and f1: "frame s1 = frame s"
    and x: "reply_entry h receiver sender s = Some x" and fw: "rrep_forward_route ?h x s1 = (toDst, s2)"
    and ack: "(if RrepHeader_GetAckRequired h then SendReplyAck sender s2 else Some s2) = Some s3"
    and fin: "(let s = (if e_flag toDst = IN_SEARCH
               then (updateRoute x s3)\<lparr>m_addressReqTimer := map_erase ?dst (m_addressReqTimer s3)\<rparr>
               else s3);
          (_, toDst, s) = lookupRoute ?dst toDst s
      in SendPacketFromQueue ?dst (e_route toDst) s) = Some s'"
    by (rule own_reply_steps [OF p own run])
  note xs = reply_entry_simps [OF x]
  let ?p = "s1\<lparr>m_routingTable := RoutingTable_Purge (m_now s1) (m_routingTable s1)\<rparr>"
  have h1: "route_held (\<lambda>e. e_flag e = IN_SEARCH) ?dst ?p"
    by (rule held_purge [OF searching.held_rejected [OF r held]])
  obtain e0 where e0: "live_routes s1 ?dst = Some e0" "e_flag e0 = IN_SEARCH"
    using held_live [OF searching.held_rejected [OF r held]] by blast
  have "rrep_forward_route ?h x s1 = (e0, if rrep_replaces (m_env s1) ?h e0 then updateRoute x ?p else ?p)"
    using e0(1) by (simp add: rrep_forward_route_def lookupRoute_eq)
  from fw [unfolded this]
  have toDst: "toDst = e0" "s2 = (if rrep_replaces (m_env s1) ?h e0 then updateRoute x ?p else ?p)"
    unfolding prod.inject by blast+
  have now: "m_now ?p = m_now s" using frame_simps [OF f1] by simp
  have h2: "route_held (\<lambda>e. True) ?dst s2"
    using h1 held_update(1) [OF h1 xs(1), of "\<lambda>e. True"] xs(8) now unfolding toDst(2)
    by (auto simp: route_held_def)
  have h3: "route_held (\<lambda>e. True) ?dst s3"
    using ack h2 any.held_ack by (cases "RrepHeader_GetAckRequired h") auto
  have "frame s2 = frame s1" unfolding toDst(2) by (simp add: frame_def updateRoute_def)
  then have f3: "frame s3 = frame s" using ack ack_frame f1 by (metis option.inject)
  let ?s4 = "(updateRoute x s3)\<lparr>m_addressReqTimer := map_erase ?dst (m_addressReqTimer s3)\<rparr>"
  let ?s5 = "?s4\<lparr>m_routingTable := RoutingTable_Purge (m_now ?s4) (m_routingTable ?s4)\<rparr>"
  have le: "m_now s3 \<le> e_lifeTime x" using xs(8) frame_simps [OF f3] by simp
  have h4: "route_held (\<lambda>e. e = clear_count x) ?dst ?s4"
    using held_update(1) [OF h3 xs(1) le, of "\<lambda>e. e = clear_count x"] by simp
  then have l: "lookupRoute ?dst e0 ?s4 = (True, clear_count x, ?s5)"
    using held_live [OF h4] by (auto simp: lookupRoute_eq)
  have rt: "e_route (clear_count x) = e_route x" by (simp add: clear_count_def Entry_SetRreqCnt_def)
  have send: "SendPacketFromQueue ?dst (e_route x) ?s5 = Some s'"
    using fin e0(2) toDst(1) l rt by (simp add: Let_def)
  have s5: "m_ipv4 ?s5 = Some v" "m_queue ?s5 = m_queue s" "m_now ?s5 = m_now s" "m_out ?s5 = m_out s3"
    using frame_simps [OF f3] v by (simp_all add: updateRoute_def)
  from send_from_queue_spec [OF s5(1) le_refl, of ?dst "e_route x"] send
  have out: "m_out s' = m_out s3 @ queue_drops (stale s) @ map (released (e_route x))
      (takeWhile (right_device v (e_route x)) (filter (\<lambda>e. entry_dst e = ?dst) (fresh s)))"
    unfolding SendPacketFromQueue_def s5 by simp
  have "log_grows s s2" using rejected_grows [OF r] toDst(2) by (simp add: log_grows_def)
  then have "log_grows s s3"
    using ack ack_grows log_grows_trans by (cases "RrepHeader_GetAckRequired h") auto
  then obtain mid where mid: "m_out s3 = m_out s @ mid" by (auto simp: log_grows_def)
  have h5: "route_held (\<lambda>e. e = clear_count x) ?dst ?s5" by (rule held_purge [OF h4])
  then have "route_held (\<lambda>e. e = clear_count x) ?dst s'"
    using send_from_queue_frame [OF send [unfolded SendPacketFromQueue_def]] by (simp add: route_held_def)
  from held_live [OF this] have "live_routes s' ?dst = Some (clear_count x)" by blast
  moreover have "route_like x (clear_count x)" using xs(5,6) by (rule clear_count_like)
  moreover have "e_lifeTime (clear_count x) = e_lifeTime x" by (simp add: clear_count_def Entry_SetRreqCnt_def)
  ultimately show ?thesis using x out mid by (intro exI [of _ x] exI [of _ "clear_count x"] exI [of _ mid]) simp
qed

text \<open>
  A reply whose number is not above that of a valid route, and not equal to it with fewer hops,
  leaves the route as it is.
\<close>

lemma late_reply:
  assumes held: "route_held (route_like y) (rp_dst h) s"
    and p: "Packet_RemoveHeader RrepHeader_Deserialize p = Some (h, q)" "rp_dst h \<noteq> rp_origin h"
    and own: "IsMyOwnAddress (rp_origin h) s" "lets_through sender s"
    and late: "seq_diff (m_env s) (rp_dstSeqNo h) (e_seqNo y) < 0"
    and run: "RecvReply p receiver sender s = Some s'"
  shows "\<exists>e. live_routes s' (rp_dst h) = Some e \<and> route_like y e"
proof -
  let ?h = "h\<lparr>rp_hopCount := rp_hopCount h + 1\<rparr>" and ?dst = "rp_dst h"
  obtain s1 x toDst s2 s3 where
    r: "rrep_rejected ?h receiver sender s = Some (False, s1)" and f1: "frame s1 = frame s"
    and x: "reply_entry h receiver sender s = Some x" and fw: "rrep_forward_route ?h x s1 = (toDst, s2)"
    and ack: "(if RrepHeader_GetAckRequired h then SendReplyAck sender s2 else Some s2) = Some s3"
    and fin: "(let s = (if e_flag toDst = IN_SEARCH
               then (updateRoute x s3)\<lparr>m_addressReqTimer := map_erase ?dst (m_addressReqTimer s3)\<rparr>
               else s3);
          (_, toDst, s) = lookupRoute ?dst toDst s
      in SendPacketFromQueue ?dst (e_route toDst) s) = Some s'"
    by (rule own_reply_steps [OF p own run])
  have h1: "route_held (route_like y) ?dst s1" by (rule like.held_rejected [OF r held])
  obtain e0 where e0: "live_routes s1 ?dst = Some e0" "route_like y e0" using held_live [OF h1] by blast
  have "seq_diff (m_env s) (e_seqNo y) (e_seqNo y) = 0" by (simp add: seq_diff_def)
  then have "rp_dstSeqNo h \<noteq> e_seqNo y" using late by auto
  then have "\<not> rrep_replaces (m_env s1) ?h e0"
    using e0(2) late frame_simps [OF f1] by (auto simp: rrep_replaces_def route_like_def)
  then have "toDst = e0" "s2 = s1\<lparr>m_routingTable := RoutingTable_Purge (m_now s1) (m_routingTable s1)\<rparr>"
    using fw e0(1) by (simp_all add: rrep_forward_route_def lookupRoute_eq)
  then have h2: "route_held (route_like y) ?dst s2" and to: "e_flag toDst = VALID"
    using held_purge [OF h1] e0(2) by (simp_all add: route_like_def)
  have h3: "route_held (route_like y) ?dst s3"
    using ack h2 like.held_ack by (cases "RrepHeader_GetAckRequired h") auto
  obtain b rt s4 where l: "lookupRoute ?dst toDst s3 = (b, rt, s4)" by (metis prod_cases3)
  have "SendPacketFromQueue ?dst (e_route rt) s4 = Some s'" using fin to l by simp
  then have "route_held (route_like y) ?dst s'"
    using held_lookupRoute [OF l h3] send_from_queue_frame [of _ ?dst "e_route rt" s4 s']
    by (simp add: route_held_def SendPacketFromQueue_def)
  from held_live [OF this] show ?thesis by blast
qed

section \<open>From the request to the captured route\<close>

lemma keeps_all_UpdateRouteToNeighbor:
  assumes "UpdateRouteToNeighbor a r s = Some s'"
  shows "frame s' = frame s" "m_out s' = m_out s" "detector s' = detector s"
  using frame.UpdateRouteToNeighbor_I [OF assms] keeps_out.UpdateRouteToNeighbor_I [OF assms]
    keeps_detector.UpdateRouteToNeighbor_I [OF assms] by blast+

lemma lets_through_frame: "frame s' = frame s \<Longrightarrow> detector s' = detector s \<Longrightarrow> lets_through a s' = lets_through a s"
  by (auto simp: lets_through_def IsNeighborTemporarilySuspect_def frame_def detector_def split: option.splits)

text \<open>A packet that holds a reply reaches \<open>RecvReply\<close> after the route to its sender is refreshed.\<close>

lemma RecvAodv_reply:
  assumes "received_as RrepHeader_Deserialize AODVTYPE_RREP h (Some p)"
    and "RecvAodv k p sender s = Some s'"
  obtains receiver s1 p1 p2 where "UpdateRouteToNeighbor sender receiver s = Some s1"
    "Packet_RemoveHeader RrepHeader_Deserialize p1 = Some (h, p2)"
    "RecvReply p1 receiver sender s1 = Some s'"
proof -
  obtain p1 p2 where p: "Packet_RemoveHeader (TypeHeader_Deserialize AODVTYPE_RREQ) p =
      Some (TypeHeader_make AODVTYPE_RREP, p1)" "Packet_RemoveHeader RrepHeader_Deserialize p1 = Some (h, p2)"
    using assms(1) by (auto simp: received_as_def elim!: bind_Some_elim)
  have "\<exists>receiver s1. UpdateRouteToNeighbor sender receiver s = Some s1 \<and>
      RecvReply p1 receiver sender s1 = Some s'"
    using assms(2) p(1) by (auto simp: RecvAodv_def Let_def TypeHeader_make_def elim!: bind_Some_elim)
  then show thesis using that p(2) by blast
qed

text \<open>
  Property C5: the black hole attack succeeds. A malicious node answers the request for a
  destination at once with a forged reply; the searching node that hears it accepts it, with the
  detector in its default setting too: its route now leads to the attacker, with a sequence number
  100 above the one it asked for, and the packets that waited are handed to that route.
\<close>

theorem blackhole_captures_route:
  assumes attacker: "IsMalicious (m_wrm a)" "closed_sockets a = []" "rt_wf (m_routingTable a)"
      "live_routes a (rq_origin h) \<noteq> None" "src \<noteq> Entry_GetNextHop (newRt a)"
      "rreq_answer h ra src toOrigin a = Some (fwd, a')"
    and victim: "route_held (\<lambda>e. e_flag e = IN_SEARCH) (rq_dst h) v" "IsMyOwnAddress (rq_origin h) v"
      "rq_dst h \<noteq> rq_origin h" "atk \<noteq> rq_dst h" "lets_through atk v" "m_ipv4 v = Some i"
  shows "\<exists>k p x rest. m_out a' = m_out a @ SocketSendTo k p x # rest \<and>
    (\<forall>j v'. RecvAodv j p atk v = Some v' \<longrightarrow>
      (\<exists>e mid. live_routes v' (rq_dst h) = Some e \<and> e_flag e = VALID \<and> Entry_GetNextHop e = atk \<and>
        e_seqNo e = rq_dstSeqNo h + 100 \<and> e_hops e = 2 \<and>
        m_out v' = m_out v @ mid @ queue_drops (stale v) @ map (released (e_route e))
          (takeWhile (right_device i (e_route e)) (filter (\<lambda>q. entry_dst q = rq_dst h) (fresh v)))))"
proof -
  obtain o1 where o1: "live_routes a (rq_origin h) = Some o1" using attacker(4) by blast
  let ?a = "a\<lparr>m_routingTable := RoutingTable_Purge (m_now a) (m_routingTable a)\<rparr>"
  have l: "lookupRoute (rq_origin h) toOrigin a = (True, o1, ?a)" using o1 by (simp add: lookupRoute_eq)
  obtain d iface where send: "SendReplyByIntermediateNode (RoutingTableEntry_make (m_now ?a) (Some d) (rq_dst h)
        True (rq_dstSeqNo h + 100) iface 1 (rq_dst h) (m_activeRouteTimeout (m_par ?a))) o1
        (RreqHeader_GetGratuitousRrep h) ?a = Some a'"
    using attacker(1,5,6) l by (auto simp: rreq_answer_def Let_def elim!: bind_Some_elim)
  have "Entry_GetDestination o1 = rq_origin h" by (rule live_routes_dest [OF attacker(3) o1])
  with malicious_reply [OF _ _ _ send] attacker(1,2) obtain k p x rest hdr where
    out: "m_out a' = m_out a @ SocketSendTo k p x # rest"
    and p: "received_as RrepHeader_Deserialize AODVTYPE_RREP hdr (Some p)"
    and hdr: "rp_dst hdr = rq_dst h" "rp_dstSeqNo hdr = rq_dstSeqNo h + 100" "rp_hopCount hdr = 1"
      "rp_origin hdr = rq_origin h"
    by (auto simp: RoutingTableEntry_make_def Entry_GetDestination_def)
  have "\<exists>e mid. live_routes v' (rq_dst h) = Some e \<and> e_flag e = VALID \<and> Entry_GetNextHop e = atk \<and>
        e_seqNo e = rq_dstSeqNo h + 100 \<and> e_hops e = 2 \<and>
        m_out v' = m_out v @ mid @ queue_drops (stale v) @ map (released (e_route e))
          (takeWhile (right_device i (e_route e)) (filter (\<lambda>q. entry_dst q = rq_dst h) (fresh v)))"
    if run: "RecvAodv j p atk v = Some v'" for j v'
  proof -
    obtain receiver v1 p1 p2 where v1: "UpdateRouteToNeighbor atk receiver v = Some v1"
      "Packet_RemoveHeader RrepHeader_Deserialize p1 = Some (hdr, p2)" "RecvReply p1 receiver atk v1 = Some v'"
      by (rule RecvAodv_reply [OF p run])
    note k = keeps_all_UpdateRouteToNeighbor [OF v1(1)]
    have held: "route_held (\<lambda>e. e_flag e = IN_SEARCH) (rp_dst hdr) v1"
      using held_UpdateRouteToNeighbor [OF v1(1) victim(4,1)] hdr(1) by simp
    have own: "rp_dst hdr \<noteq> rp_origin hdr" "IsMyOwnAddress (rp_origin hdr) v1" "lets_through atk v1" "m_ipv4 v1 = Some i"
      using victim hdr own_address_frame [OF k(1)] lets_through_frame [OF k(1,3)] frame_simps [OF k(1)] by simp_all
    from own_reply [OF held v1(2) own v1(3)] obtain y e mid where
      y: "reply_entry hdr receiver atk v1 = Some y" "live_routes v' (rp_dst hdr) = Some e" "route_like y e"
      "m_out v' = m_out v1 @ mid @ queue_drops (stale v1) @ map (released (e_route y))
        (takeWhile (right_device i (e_route y)) (filter (\<lambda>q. entry_dst q = rp_dst hdr) (fresh v1)))" by blast
    have "stale v1 = stale v" "fresh v1 = fresh v" using frame_simps [OF k(1)] by simp_all
    then show ?thesis
      using y reply_entry_simps [OF y(1)] k(2) hdr
      by (intro exI [of _ e] exI [of _ mid]) (auto simp: route_like_def Entry_GetNextHop_def)
  qed
  with out show ?thesis by blast
qed

text \<open>
  The answer of the destination comes too late. While the captured route lives, a reply
  from any other neighbour whose sequence number is below the forged one leaves route and next hop
  as they are. (Only when the destination itself is the neighbour that sends the reply is the route
  corrected, since hearing it makes it a one-hop neighbour first.)
\<close>

theorem genuine_reply_too_late:
  assumes "route_held (route_like y) (rp_dst g) v"
    and "received_as RrepHeader_Deserialize AODVTYPE_RREP g (Some p)" and "rp_dst g \<noteq> rp_origin g"
    and "IsMyOwnAddress (rp_origin g) v" and "sender \<noteq> rp_dst g" and "lets_through sender v"
    and "seq_diff (m_env v) (rp_dstSeqNo g) (e_seqNo y) < 0" and "RecvAodv k p sender v = Some v'"
  shows "\<exists>e. live_routes v' (rp_dst g) = Some e \<and> e_flag e = VALID \<and>
    Entry_GetNextHop e = Entry_GetNextHop y \<and> e_seqNo e = e_seqNo y"
proof -
  obtain receiver v1 p1 p2 where v1: "UpdateRouteToNeighbor sender receiver v = Some v1"
    "Packet_RemoveHeader RrepHeader_Deserialize p1 = Some (g, p2)" "RecvReply p1 receiver sender v1 = Some v'"
    by (rule RecvAodv_reply [OF assms(2,8)])
  note k = keeps_all_UpdateRouteToNeighbor [OF v1(1)]
  have held: "route_held (route_like y) (rp_dst g) v1"
    by (rule held_UpdateRouteToNeighbor [OF v1(1) assms(5,1)])
  have own: "IsMyOwnAddress (rp_origin g) v1" "lets_through sender v1"
    "seq_diff (m_env v1) (rp_dstSeqNo g) (e_seqNo y) < 0"
    using assms(4,6,7) own_address_frame [OF k(1)] lets_through_frame [OF k(1,3)] frame_simps [OF k(1)] by simp_all
  from late_reply [OF held v1(2) assms(3) own v1(3)] show ?thesis
    by (auto simp: route_like_def Entry_GetNextHop_def)
qed

section \<open>An attack on a small network\<close>

text \<open>The attacker is 10.0.0.2 and has a route to 10.0.0.1, which searches 9.\<close>

definition attacker0 :: aodv where
  "attacker0 = node0\<lparr>m_ipv4 := Some
        [\<lparr>if_dev = 0, if_addrs = [Ipv4InterfaceAddress_make 0x7f000001 0xff000000], if_up = True,
          if_forwarding = True, if_arp = None\<rparr>,
         \<lparr>if_dev = 1, if_addrs = [Ipv4InterfaceAddress_make 0x0a000002 0xffffff00], if_up = True,
          if_forwarding = True, if_arp = Some 0\<rparr>],
      m_socketAddresses := [(1, Ipv4InterfaceAddress_make 0x0a000002 0xffffff00)],
      m_routingTable := \<lparr>rt_entries = [(0x0a000001, RoutingTableEntry_make 0 (Some 1) 0x0a000001 True 5
          (Ipv4InterfaceAddress_make 0x0a000002 0xffffff00) 1 0x0a000001 100)], rt_badLinkLifetime = 15\<rparr>,
      m_wrm := WormParams_default\<lparr>IsMalicious := True\<rparr>\<rparr>"

definition victim0 :: aodv where
  "victim0 = node_with_route (RoutingTableEntry_make 0 None 9 False 0 Ipv4InterfaceAddress_default 1
     Ipv4Address_default 100\<lparr>e_flag := IN_SEARCH\<rparr>)"

abbreviation (input) request0 :: RreqHeader where
  "request0 \<equiv> RreqHeader_default\<lparr>rq_dst := 9, rq_dstSeqNo := 3, rq_origin := 0x0a000001\<rparr>"

definition first_sent :: "aodv \<Rightarrow> packet option" where
  "first_sent s = (case m_out s of SocketSendTo k p x # rest \<Rightarrow> Some p | _ \<Rightarrow> None)"

lemma attack_runs:
  "case rreq_answer request0 0x0a000002 0x0a000001 sample_entry attacker0 of
     None \<Rightarrow> False
   | Some (f, a') \<Rightarrow> (case first_sent a' of None \<Rightarrow> False | Some p \<Rightarrow> RecvAodv 1 p 0x0a000002 victim0 \<noteq> None)"
  by code_simp

lemma attacker0_facts:
  "IsMalicious (m_wrm attacker0)" "closed_sockets attacker0 = []" "rt_wf (m_routingTable attacker0)"
  "live_routes attacker0 0x0a000001 \<noteq> None" "0x0a000001 \<noteq> Entry_GetNextHop (newRt attacker0)" "m_out attacker0 = []"
  by (simp_all add: attacker0_def sample_simps Entry_GetNextHop_def RoutingTableEntry_default_def
      Ipv4Address_default_def)

lemma victim0_facts:
  "route_held (\<lambda>e. e_flag e = IN_SEARCH) 9 victim0" "IsMyOwnAddress 0x0a000001 victim0"
  "lets_through 0x0a000002 victim0" "m_ipv4 victim0 \<noteq> None"
  by (simp_all add: victim0_def sample_simps route_held_def IsMyOwnAddress_def iface0_def
      Ipv4InterfaceAddress_make_def lets_through_def WormParams_default_def IsNeighborTemporarilySuspect_def)
    (simp add: node0_def)

theorem blackhole_captures_route_witness:
  "\<exists>f a' p v' e. rreq_answer request0 0x0a000002 0x0a000001 sample_entry attacker0 = Some (f, a') \<and>
     first_sent a' = Some p \<and> RecvAodv 1 p 0x0a000002 victim0 = Some v' \<and>
     live_routes v' 9 = Some e \<and> Entry_GetNextHop e = 0x0a000002 \<and> e_seqNo e = 103"
proof -
  obtain f a' p v' where r: "rreq_answer request0 0x0a000002 0x0a000001 sample_entry attacker0 = Some (f, a')"
    "first_sent a' = Some p" "RecvAodv 1 p 0x0a000002 victim0 = Some v'"
    using attack_runs by (auto split: option.splits prod.splits)
  obtain i where i: "m_ipv4 victim0 = Some i" using victim0_facts(4) by blast
  have d: "rq_dst request0 \<noteq> rq_origin request0" "0x0a000002 \<noteq> rq_dst request0"
    "live_routes attacker0 (rq_origin request0) \<noteq> None" "route_held (\<lambda>e. e_flag e = IN_SEARCH) (rq_dst request0) victim0"
    "IsMyOwnAddress (rq_origin request0) victim0"
    using attacker0_facts victim0_facts by simp_all
  from blackhole_captures_route [OF attacker0_facts(1-3) d(3) attacker0_facts(5) r(1) d(4,5,1,2) victim0_facts(3) i]
  obtain k q x rest where o: "m_out a' = SocketSendTo k q x # rest"
    "\<forall>j v'. RecvAodv j q 0x0a000002 victim0 = Some v' \<longrightarrow>
      (\<exists>e. live_routes v' 9 = Some e \<and> Entry_GetNextHop e = 0x0a000002 \<and> e_seqNo e = 103)"
    using attacker0_facts(6) by fastforce
  then have "q = p" using r(2) by (simp add: first_sent_def)
  with o(2) r(3) obtain e where "live_routes v' 9 = Some e" "Entry_GetNextHop e = 0x0a000002" "e_seqNo e = 103"
    by blast
  with r show ?thesis by blast
qed

definition captured0 :: RoutingTableEntry where
  "captured0 = RoutingTableEntry_make 0 (Some 1) 9 True 103 iface0 2 0x0a000002 100"

abbreviation (input) genuine0 :: RrepHeader where
  "genuine0 \<equiv> RrepHeader_make 0 1 9 5 0x0a000001 (MilliSeconds 50)"

definition genuine_packet :: packet where
  "genuine_packet = the (control_packet 1 RrepHeader_GetSerializedSize (RrepHeader_Serialize genuine0) AODVTYPE_RREP)"

lemma genuine_facts:
  "received_as RrepHeader_Deserialize AODVTYPE_RREP genuine0 (Some genuine_packet)"
  "RecvAodv 1 genuine_packet 0x0a000003 (node_with_route captured0) \<noteq> None"
proof -
  have "control_packet 1 RrepHeader_GetSerializedSize (RrepHeader_Serialize genuine0) AODVTYPE_RREP \<noteq> None"
    by code_simp
  then have "control_packet 1 RrepHeader_GetSerializedSize (RrepHeader_Serialize genuine0) AODVTYPE_RREP =
    Some genuine_packet" by (auto simp: genuine_packet_def)
  with received_as_codec [of RrepHeader_Serialize genuine0 RrepHeader_GetSerializedSize RrepHeader_Deserialize
      AODVTYPE_RREP 1, OF rrep_codec.enc_length rrep_codec.dec_enc]
  show "received_as RrepHeader_Deserialize AODVTYPE_RREP genuine0 (Some genuine_packet)" by simp
  show "RecvAodv 1 genuine_packet 0x0a000003 (node_with_route captured0) \<noteq> None" by code_simp
qed

theorem genuine_reply_too_late_witness:
  "\<exists>v' e. RecvAodv 1 genuine_packet 0x0a000003 (node_with_route captured0) = Some v' \<and>
     live_routes v' 9 = Some e \<and> Entry_GetNextHop e = 0x0a000002 \<and> e_seqNo e = 103"
proof -
  let ?v = "node_with_route captured0"
  obtain v' where v': "RecvAodv 1 genuine_packet 0x0a000003 ?v = Some v'" using genuine_facts(2) by blast
  have a: "route_held (route_like captured0) (rp_dst genuine0) ?v" "rp_dst genuine0 \<noteq> rp_origin genuine0"
    "IsMyOwnAddress (rp_origin genuine0) ?v" "0x0a000003 \<noteq> rp_dst genuine0" "lets_through 0x0a000003 ?v"
    by (simp_all add: captured0_def sample_simps route_held_def route_like_def IsMyOwnAddress_def iface0_def
      RrepHeader_make_def Ipv4InterfaceAddress_make_def lets_through_def WormParams_default_def
      IsNeighborTemporarilySuspect_def)
  have "seq_diff (m_env ?v) (rp_dstSeqNo genuine0) (e_seqNo captured0) < 0" by code_simp
  from genuine_reply_too_late [OF a(1) genuine_facts(1) a(2-5) this v'] v' show ?thesis
    by (auto simp: captured0_def RoutingTableEntry_make_def RrepHeader_make_def Entry_GetNextHop_def)
qed

end
