(* ===== verification/Event_Scheduler.thy ===== *)
theory Event_Scheduler
  imports Prelude "HOL-Library.Multiset"
begin

text \<open>
  The event containers of the simulator core: keys and events with the comparisons of
  src/core/model/scheduler.h, the virtual functions of \<open>Scheduler\<close> as a record of operations,
  and the contract their documentation states. \<open>event_queue\<close> is the contract without the
  removal of a given event, \<open>event_store\<close> adds it. A container is handed to the simulator as
  the record of its operations, as a \<open>Ptr<Scheduler>\<close> is in the code.
\<close>

section \<open>Events\<close>

record EventKey =
  ek_ts :: u64
  ek_uid :: u32
  ek_context :: u32

text \<open>An event points to its implementation; the pointer is the identity of that object.\<close>

record Event =
  ev_impl :: nat
  ev_key :: EventKey

abbreviation ev_ts :: "Event \<Rightarrow> u64" where
  "ev_ts e \<equiv> ek_ts (ev_key e)"

abbreviation ev_uid :: "Event \<Rightarrow> u32" where
  "ev_uid e \<equiv> ek_uid (ev_key e)"

definition EventKey_eq :: "EventKey \<Rightarrow> EventKey \<Rightarrow> bool" where
  "EventKey_eq a b \<longleftrightarrow> ek_uid a = ek_uid b"

definition EventKey_less :: "EventKey \<Rightarrow> EventKey \<Rightarrow> bool" where
  "EventKey_less a b \<longleftrightarrow>
     (if ek_ts a < ek_ts b then True
      else if ek_ts a = ek_ts b \<and> ek_uid a < ek_uid b then True
      else False)"

definition EventKey_greater :: "EventKey \<Rightarrow> EventKey \<Rightarrow> bool" where
  "EventKey_greater a b \<longleftrightarrow>
     (if ek_ts a > ek_ts b then True
      else if ek_ts a = ek_ts b \<and> ek_uid a > ek_uid b then True
      else False)"

definition Event_eq :: "Event \<Rightarrow> Event \<Rightarrow> bool" where
  "Event_eq a b \<longleftrightarrow> EventKey_eq (ev_key a) (ev_key b)"

definition Event_less :: "Event \<Rightarrow> Event \<Rightarrow> bool" where
  "Event_less a b \<longleftrightarrow> EventKey_less (ev_key a) (ev_key b)"

definition Event_greater :: "Event \<Rightarrow> Event \<Rightarrow> bool" where
  "Event_greater a b \<longleftrightarrow> EventKey_greater (ev_key a) (ev_key b)"

text \<open>
  The order as a number: time first, then the order of scheduling. On events with different
  ids it is the strict order of the code.
\<close>

definition key_prio :: "EventKey \<Rightarrow> nat" where
  "key_prio k = unat (ek_ts k) * 2 ^ 32 + unat (ek_uid k)"

abbreviation prio :: "Event \<Rightarrow> nat" where
  "prio e \<equiv> key_prio (ev_key e)"

lemma key_prio_less: "key_prio a < key_prio b \<longleftrightarrow> EventKey_less a b"
proof -
  have u: "unat (ek_uid a) < 2 ^ 32" "unat (ek_uid b) < 2 ^ 32"
    using unsigned_less [of "ek_uid a"] unsigned_less [of "ek_uid b"] by simp_all
  consider "ek_ts a < ek_ts b" | "ek_ts a = ek_ts b" | "ek_ts b < ek_ts a"
    by (rule linorder_cases)
  then show ?thesis
  proof cases
    case 1
    then have "unat (ek_ts a) + 1 \<le> unat (ek_ts b)" by (simp add: word_less_nat_alt)
    then have "(unat (ek_ts a) + 1) * 2 ^ 32 \<le> unat (ek_ts b) * 2 ^ 32" by (rule mult_right_mono) simp
    with u 1 show ?thesis by (simp add: key_prio_def EventKey_less_def)
  next
    case 2
    then show ?thesis by (simp add: key_prio_def EventKey_less_def word_less_nat_alt)
  next
    case 3
    then have "unat (ek_ts b) + 1 \<le> unat (ek_ts a)" by (simp add: word_less_nat_alt)
    then have "(unat (ek_ts b) + 1) * 2 ^ 32 \<le> unat (ek_ts a) * 2 ^ 32" by (rule mult_right_mono) simp
    with u 3 show ?thesis by (auto simp: key_prio_def EventKey_less_def)
  qed
qed

lemma EventKey_greater_less: "EventKey_greater a b \<longleftrightarrow> EventKey_less b a"
  by (auto simp: EventKey_greater_def EventKey_less_def)

lemma Event_less_prio: "Event_less a b \<longleftrightarrow> prio a < prio b"
  by (simp add: Event_less_def key_prio_less)

lemma Event_greater_prio: "Event_greater a b \<longleftrightarrow> prio b < prio a"
  by (simp add: Event_greater_def EventKey_greater_less key_prio_less)

lemma key_prio_eq: "key_prio a = key_prio b \<longleftrightarrow> ek_ts a = ek_ts b \<and> ek_uid a = ek_uid b"
  using key_prio_less [of a b] key_prio_less [of b a]
  by (auto simp: EventKey_less_def key_prio_def split: if_splits)

lemma prio_ts: "prio a \<le> prio b \<Longrightarrow> ev_ts a \<le> ev_ts b"
  using key_prio_less [of "ev_key b" "ev_key a"] by (auto simp: EventKey_less_def split: if_splits)

lemma ts_prio: "ev_ts a < ev_ts b \<Longrightarrow> prio a < prio b"
  by (simp add: key_prio_less EventKey_less_def)

section \<open>Sets of pending events\<close>

text \<open>Ids are unique, and times are non-negative values of a signed 64-bit integer.\<close>

definition events_ok :: "Event set \<Rightarrow> bool" where
  "events_ok E \<longleftrightarrow> finite E \<and> inj_on ev_uid E \<and> (\<forall>e \<in> E. unat (ev_ts e) < 2 ^ 63)"

definition first_of :: "Event set \<Rightarrow> Event \<Rightarrow> bool" where
  "first_of E e \<longleftrightarrow> e \<in> E \<and> (\<forall>x \<in> E. prio e \<le> prio x)"

definition insertable :: "u64 \<Rightarrow> Event set \<Rightarrow> Event \<Rightarrow> bool" where
  "insertable t E ev \<longleftrightarrow> t \<le> ev_ts ev \<and> unat (ev_ts ev) < 2 ^ 63 \<and> ev_uid ev \<notin> ev_uid ` E \<and>
     card E + 1 < 2 ^ 32"

lemma uid_eq: "events_ok E \<Longrightarrow> a \<in> E \<Longrightarrow> b \<in> E \<Longrightarrow> ev_uid a = ev_uid b \<longleftrightarrow> a = b"
  by (auto simp: events_ok_def inj_on_def)

lemma first_of_unique:
  assumes "events_ok E" and "first_of E a" and "first_of E b"
  shows "a = b"
proof -
  have "prio a = prio b" using assms(2,3) by (auto simp: first_of_def intro: le_antisym)
  then have "ev_uid a = ev_uid b" by (simp add: key_prio_eq)
  with assms show ?thesis using uid_eq by (auto simp: first_of_def)
qed

lemma events_ok_insert: "events_ok E \<Longrightarrow> insertable t E ev \<Longrightarrow> events_ok (insert ev E)"
  unfolding events_ok_def insertable_def by (elim conjE) (simp add: inj_on_insert, blast)

lemma events_ok_subset: "events_ok E \<Longrightarrow> F \<subseteq> E \<Longrightarrow> events_ok F"
  by (auto simp: events_ok_def intro: finite_subset inj_on_subset)

lemma events_ok_empty [simp]: "events_ok {}"
  by (simp add: events_ok_def)

lemma prio_inj: "events_ok E \<Longrightarrow> inj_on prio E"
  by (auto simp: events_ok_def inj_on_def key_prio_eq)

section \<open>The contract of a scheduler\<close>

record 'q scheduler =
  op_Insert :: "Event \<Rightarrow> 'q \<Rightarrow> 'q option"
  op_IsEmpty :: "'q \<Rightarrow> bool"
  op_PeekNext :: "'q \<Rightarrow> Event option"
  op_RemoveNext :: "'q \<Rightarrow> (Event \<times> 'q) option"
  op_Remove :: "Event \<Rightarrow> 'q \<Rightarrow> 'q option"

text \<open>
  \<open>inv t q\<close> says that the container is sound and may be given events from time \<open>t\<close> on; \<open>t\<close> is
  the time of the simulation. The next event is the one with the smallest key.
\<close>

locale event_queue =
  fixes ops :: "'q scheduler"
    and inv :: "u64 \<Rightarrow> 'q \<Rightarrow> bool"
    and pending :: "'q \<Rightarrow> Event set"
  assumes inv_events: "inv t q \<Longrightarrow> events_ok (pending q)"
    and inv_later: "inv t q \<Longrightarrow> t \<le> t' \<Longrightarrow> inv t' q"
    and isEmpty_law: "inv t q \<Longrightarrow> op_IsEmpty ops q \<longleftrightarrow> pending q = {}"
    and insert_law: "inv t q \<Longrightarrow> insertable t (pending q) ev \<Longrightarrow>
      \<exists>q'. op_Insert ops ev q = Some q' \<and> inv t q' \<and> pending q' = insert ev (pending q)"
    and peek_law: "inv t q \<Longrightarrow> pending q \<noteq> {} \<Longrightarrow>
      \<exists>e. op_PeekNext ops q = Some e \<and> first_of (pending q) e"
    and remove_next_law: "inv t q \<Longrightarrow> pending q \<noteq> {} \<Longrightarrow>
      \<exists>e q'. op_RemoveNext ops q = Some (e, q') \<and> first_of (pending q) e \<and> inv (ev_ts e) q' \<and>
        pending q' = pending q - {e}"
    and remove_next_empty: "inv t q \<Longrightarrow> pending q = {} \<Longrightarrow> op_RemoveNext ops q = None"
begin

lemma peek_is_next:
  assumes "inv t q" and "op_RemoveNext ops q = Some (e, q')"
  shows "op_PeekNext ops q = Some e"
proof -
  from assms have ne: "pending q \<noteq> {}" using remove_next_empty by force
  obtain a where "op_PeekNext ops q = Some a" "first_of (pending q) a"
    using peek_law [OF assms(1) ne] by blast
  moreover have "first_of (pending q) e"
    using remove_next_law [OF assms(1) ne] assms(2) by auto
  ultimately show ?thesis using first_of_unique inv_events [OF assms(1)] by blast
qed

end

locale event_store = event_queue +
  assumes remove_law: "inv t q \<Longrightarrow> ev \<in> pending q \<Longrightarrow>
      \<exists>q'. op_Remove ops ev q = Some q' \<and> inv t q' \<and> pending q' = pending q - {ev}"

section \<open>Containers in comparison\<close>

text \<open>
  A use of a container: a sequence of calls, and what they hand out. \<open>legal\<close> follows the calls
  on the sorted list of the pending events: an inserted event is not earlier than the last one
  handed out and has an id of its own, and only a pending event is removed.
\<close>

datatype sched_op = SInsert Event | SPeekNext | SRemoveNext | SRemove Event

fun sched_run :: "'q scheduler \<Rightarrow> sched_op list \<Rightarrow> 'q \<Rightarrow> Event list option" where
  "sched_run ops [] q = Some []"
| "sched_run ops (SInsert ev # xs) q = do { q \<leftarrow> op_Insert ops ev q; sched_run ops xs q }"
| "sched_run ops (SPeekNext # xs) q =
     do { e \<leftarrow> op_PeekNext ops q; es \<leftarrow> sched_run ops xs q; Some (e # es) }"
| "sched_run ops (SRemoveNext # xs) q =
     do { (e, q) \<leftarrow> op_RemoveNext ops q; es \<leftarrow> sched_run ops xs q; Some (e # es) }"
| "sched_run ops (SRemove ev # xs) q = do { q \<leftarrow> op_Remove ops ev q; sched_run ops xs q }"

fun legal :: "u64 \<Rightarrow> sched_op list \<Rightarrow> Event list \<Rightarrow> bool" where
  "legal t [] es \<longleftrightarrow> True"
| "legal t (SInsert ev # xs) es \<longleftrightarrow>
     t \<le> ev_ts ev \<and> unat (ev_ts ev) < 2 ^ 63 \<and> ev_uid ev \<notin> ev_uid ` set es \<and>
     length es + 1 < 2 ^ 32 \<and> legal t xs (insort_key prio ev es)"
| "legal t (SPeekNext # xs) es \<longleftrightarrow> es \<noteq> [] \<and> legal t xs es"
| "legal t (SRemoveNext # xs) es \<longleftrightarrow> (case es of [] \<Rightarrow> False | e # es \<Rightarrow> legal (ev_ts e) xs es)"
| "legal t (SRemove ev # xs) es \<longleftrightarrow> ev \<in> set es \<and> legal t xs (remove1 ev es)"

fun keeps :: "sched_op \<Rightarrow> bool" where
  "keeps (SRemove ev) = False"
| "keeps _ = True"

definition sorted_events :: "Event set \<Rightarrow> Event list \<Rightarrow> bool" where
  "sorted_events E es \<longleftrightarrow> set es = E \<and> distinct es \<and> sorted (map prio es)"

lemma sorted_events_insort:
  assumes "sorted_events E es" and "ev_uid ev \<notin> ev_uid ` E"
  shows "sorted_events (insert ev E) (insort_key prio ev es)"
  using assms by (auto simp: sorted_events_def set_insort_key distinct_insort sorted_insort_key)

lemma sorted_events_remove1:
  "sorted_events E es \<Longrightarrow> sorted_events (E - {ev}) (remove1 ev es)"
  by (auto simp: sorted_events_def sorted_map_remove1)

lemma sorted_events_first:
  assumes "sorted_events E (e # es)" and "events_ok E" and "first_of E a"
  shows "a = e" and "sorted_events (E - {e}) es"
proof -
  have "first_of E e" using assms(1) by (auto simp: sorted_events_def first_of_def)
  with assms(2,3) show "a = e" by (blast intro: first_of_unique)
  show "sorted_events (E - {e}) es" using assms(1) by (auto simp: sorted_events_def)
qed

text \<open>What a legal use hands out is what the sorted list hands out.\<close>

fun spec_run :: "sched_op list \<Rightarrow> Event list \<Rightarrow> Event list" where
  "spec_run [] es = []"
| "spec_run (SInsert ev # xs) es = spec_run xs (insort_key prio ev es)"
| "spec_run (SPeekNext # xs) es = hd es # spec_run xs es"
| "spec_run (SRemoveNext # xs) es = hd es # spec_run xs (tl es)"
| "spec_run (SRemove ev # xs) es = spec_run xs (remove1 ev es)"

context event_queue
begin

lemma run_step:
  assumes "inv t q" and "sorted_events (pending q) es" and "legal t (x # xs) es" and "keeps x"
    and IH: "\<And>t q es. inv t q \<Longrightarrow> sorted_events (pending q) es \<Longrightarrow> legal t xs es \<Longrightarrow>
      sched_run ops xs q = Some (spec_run xs es)"
  shows "sched_run ops (x # xs) q = Some (spec_run (x # xs) es)"
proof (cases x)
  case (SInsert ev)
  have "card (pending q) = length es"
    using assms(2) distinct_card [of es] by (simp add: sorted_events_def)
  with SInsert assms(2,3) have "insertable t (pending q) ev"
    by (auto simp: insertable_def sorted_events_def)
  from insert_law [OF assms(1) this] obtain q' where
    q': "op_Insert ops ev q = Some q'" "inv t q'" "pending q' = insert ev (pending q)" by blast
  have "sorted_events (pending q') (insort_key prio ev es)"
    using sorted_events_insort [OF assms(2)] assms(2,3) SInsert q'(3) by (auto simp: sorted_events_def)
  from IH [OF q'(2) this] q'(1) SInsert assms(3) show ?thesis by simp
next
  case SPeekNext
  with assms(3) obtain e es' where es: "es = e # es'" by (cases es) auto
  then have ne: "pending q \<noteq> {}" using assms(2) by (auto simp: sorted_events_def)
  from peek_law [OF assms(1) this] obtain a where
    a: "op_PeekNext ops q = Some a" "first_of (pending q) a" by blast
  note f = sorted_events_first [OF assms(2) [unfolded es] inv_events [OF assms(1)] a(2)]
  with IH [OF assms(1,2)] a(1) f(1) SPeekNext assms(3) es show ?thesis by simp
next
  case SRemoveNext
  with assms(3) obtain e es' where es: "es = e # es'" by (cases es) auto
  then have ne: "pending q \<noteq> {}" using assms(2) by (auto simp: sorted_events_def)
  from remove_next_law [OF assms(1) this] obtain a q' where
    a: "op_RemoveNext ops q = Some (a, q')" "first_of (pending q) a" "inv (ev_ts a) q'"
      "pending q' = pending q - {a}" by blast
  note f = sorted_events_first [OF assms(2) [unfolded es] inv_events [OF assms(1)] a(2)]
  have "legal (ev_ts a) xs es'" using assms(3) SRemoveNext es f(1) by simp
  with IH [OF a(3)] f a(1,4) SRemoveNext es show ?thesis by simp
qed (use assms(4) in simp)

theorem run_without_removal:
  "inv t q \<Longrightarrow> sorted_events (pending q) es \<Longrightarrow> legal t xs es \<Longrightarrow> list_all keeps xs \<Longrightarrow>
     sched_run ops xs q = Some (spec_run xs es)"
proof (induction xs arbitrary: t q es)
  case (Cons x xs)
  then show ?case by (intro run_step) auto
qed simp

end

context event_store
begin

theorem run_refines:
  "inv t q \<Longrightarrow> sorted_events (pending q) es \<Longrightarrow> legal t xs es \<Longrightarrow>
     sched_run ops xs q = Some (spec_run xs es)"
proof (induction xs arbitrary: t q es)
  case (Cons x xs)
  show ?case
  proof (cases "keeps x")
    case True
    with Cons show ?thesis by (intro run_step) auto
  next
    case False
    then obtain ev where x: "x = SRemove ev" by (cases x) auto
    with Cons.prems(2,3) have "ev \<in> pending q" by (auto simp: sorted_events_def)
    from remove_law [OF Cons.prems(1) this] obtain q' where
      q': "op_Remove ops ev q = Some q'" "inv t q'" "pending q' = pending q - {ev}" by blast
    have "sorted_events (pending q') (remove1 ev es)"
      using sorted_events_remove1 [OF Cons.prems(2)] q'(3) by simp
    from Cons.IH [OF q'(2) this] q'(1) x Cons.prems(3) show ?thesis by simp
  qed
qed simp

end

end
