(* ===== verification/List_Scheduler.thy ===== *)
theory List_Scheduler
  imports Event_Scheduler
begin

text \<open>
  \<open>ListScheduler\<close> (src/core/model/list-scheduler.cc): the pending events in a list kept in
  order. \<open>None\<close> is the front of an empty list, or the assertion that the event to be removed
  is there.
\<close>

type_synonym ListScheduler = "Event list"

definition ListScheduler_make :: ListScheduler where
  "ListScheduler_make = []"

fun ListScheduler_insert_at :: "Event \<Rightarrow> ListScheduler \<Rightarrow> ListScheduler" where
  "ListScheduler_insert_at ev [] = [ev]"
| "ListScheduler_insert_at ev (i # m_events) =
     (if EventKey_less (ev_key ev) (ev_key i) then ev # i # m_events
      else i # ListScheduler_insert_at ev m_events)"

definition ListScheduler_Insert :: "Event \<Rightarrow> ListScheduler \<Rightarrow> ListScheduler option" where
  "ListScheduler_Insert ev m_events = Some (ListScheduler_insert_at ev m_events)"

definition ListScheduler_IsEmpty :: "ListScheduler \<Rightarrow> bool" where
  "ListScheduler_IsEmpty m_events \<longleftrightarrow> m_events = []"

fun ListScheduler_PeekNext :: "ListScheduler \<Rightarrow> Event option" where
  "ListScheduler_PeekNext [] = None"
| "ListScheduler_PeekNext (e # m_events) = Some e"

fun ListScheduler_RemoveNext :: "ListScheduler \<Rightarrow> (Event \<times> ListScheduler) option" where
  "ListScheduler_RemoveNext [] = None"
| "ListScheduler_RemoveNext (e # m_events) = Some (e, m_events)"

fun ListScheduler_Remove :: "Event \<Rightarrow> ListScheduler \<Rightarrow> ListScheduler option" where
  "ListScheduler_Remove ev [] = None"
| "ListScheduler_Remove ev (i # m_events) =
     (if ek_uid (ev_key i) = ek_uid (ev_key ev) then
        do { ensure (ev_impl ev = ev_impl i); Some m_events }
      else do { r \<leftarrow> ListScheduler_Remove ev m_events; Some (i # r) })"

definition ListScheduler_ops :: "ListScheduler scheduler" where
  "ListScheduler_ops =
     \<lparr>op_Insert = ListScheduler_Insert, op_IsEmpty = ListScheduler_IsEmpty,
      op_PeekNext = ListScheduler_PeekNext, op_RemoveNext = ListScheduler_RemoveNext,
      op_Remove = ListScheduler_Remove\<rparr>"

section \<open>The contract\<close>

definition list_inv :: "u64 \<Rightarrow> ListScheduler \<Rightarrow> bool" where
  "list_inv t q \<longleftrightarrow> events_ok (set q) \<and> distinct q \<and> sorted (map prio q)"

lemma ListScheduler_insert_insort:
  "prio ev \<notin> prio ` set q \<Longrightarrow> ListScheduler_insert_at ev q = insort_key prio ev q"
  by (induction q) (auto simp: key_prio_less [symmetric])

lemma fresh_prio: "ev_uid ev \<notin> ev_uid ` E \<Longrightarrow> prio ev \<notin> prio ` E"
  by (auto simp: key_prio_eq image_iff)

lemma ListScheduler_Remove_remove1:
  assumes "events_ok (set q)" and "ev \<in> set q"
  shows "ListScheduler_Remove ev q = Some (remove1 ev q)"
  using assms
proof (induction q)
  case (Cons i q)
  have "ev_uid i = ev_uid ev \<longleftrightarrow> i = ev" using Cons.prems by (auto simp: uid_eq)
  moreover have "events_ok (set q)" using Cons.prems(1) by (auto intro: events_ok_subset)
  ultimately show ?case using Cons by auto
qed simp

lemma list_insert_ok:
  assumes "list_inv t q" and "insertable t (set q) ev"
  shows "list_inv t (ListScheduler_insert_at ev q)"
    and "set (ListScheduler_insert_at ev q) = insert ev (set q)"
proof -
  have e: "ListScheduler_insert_at ev q = insort_key prio ev q"
    using assms(2) by (auto simp: insertable_def intro!: ListScheduler_insert_insort fresh_prio)
  show "set (ListScheduler_insert_at ev q) = insert ev (set q)"
    by (simp add: e set_insort_key)
  have "ev \<notin> set q" using assms(2) by (auto simp: insertable_def)
  with assms(1) events_ok_insert [OF _ assms(2)] show "list_inv t (ListScheduler_insert_at ev q)"
    by (simp add: e list_inv_def set_insort_key distinct_insort sorted_insort_key)
qed

lemma list_inv_first: "list_inv t (e # q) \<Longrightarrow> first_of (set (e # q)) e"
  by (auto simp: list_inv_def first_of_def)

lemma list_inv_tail: "list_inv t (e # q) \<Longrightarrow> list_inv t' q"
  by (auto simp: list_inv_def intro: events_ok_subset)

lemma list_inv_remove: "list_inv t q \<Longrightarrow> list_inv t (remove1 ev q)"
  using set_remove1_subset [of ev q]
  by (auto simp: list_inv_def sorted_map_remove1 intro: events_ok_subset)

interpretation list_store: event_store ListScheduler_ops list_inv set
proof
  fix t t' :: u64 and q ev
  assume inv: "list_inv t q"
  show "events_ok (set q)" using inv by (simp add: list_inv_def)
  show "list_inv t' q" using inv by (simp add: list_inv_def)
  show "op_IsEmpty ListScheduler_ops q \<longleftrightarrow> set q = {}"
    by (simp add: ListScheduler_ops_def ListScheduler_IsEmpty_def)
  show "\<exists>q'. op_Insert ListScheduler_ops ev q = Some q' \<and> list_inv t q' \<and> set q' = insert ev (set q)"
    if "insertable t (set q) ev"
    using list_insert_ok [OF inv that] by (simp add: ListScheduler_ops_def ListScheduler_Insert_def)
  show "\<exists>e. op_PeekNext ListScheduler_ops q = Some e \<and> first_of (set q) e" if "set q \<noteq> {}"
    using that inv list_inv_first by (cases q) (force simp: ListScheduler_ops_def)+
  show "\<exists>e q'. op_RemoveNext ListScheduler_ops q = Some (e, q') \<and> first_of (set q) e \<and>
      list_inv (ev_ts e) q' \<and> set q' = set q - {e}" if "set q \<noteq> {}"
  proof (cases q)
    case (Cons e r)
    have "set r = set q - {e}" using inv by (auto simp: Cons list_inv_def)
    then show ?thesis
      using inv list_inv_first list_inv_tail by (auto simp: Cons ListScheduler_ops_def)
  qed (use that in simp)
  show "op_RemoveNext ListScheduler_ops q = None" if "set q = {}"
    using that by (simp add: ListScheduler_ops_def)
  show "\<exists>q'. op_Remove ListScheduler_ops ev q = Some q' \<and> list_inv t q' \<and> set q' = set q - {ev}"
    if "ev \<in> set q"
    using inv that
    by (auto simp: ListScheduler_ops_def ListScheduler_Remove_remove1 list_inv_def
        intro: list_inv_remove [unfolded list_inv_def, THEN conjunct2] events_ok_subset
        intro!: sorted_map_remove1)
qed

end
