(* ===== verification/Map_Scheduler.thy ===== *)
theory Map_Scheduler
  imports Event_Scheduler
begin

text \<open>
  \<open>MapScheduler\<close> (src/core/model/map-scheduler.cc), the default container: a \<^verbatim>\<open>std::map\<close> from
  event keys to implementations, as the list of its pairs in key order. The map compares keys
  with the order of \<open>EventKey\<close>, which does not look at the context: two keys that are not
  ordered either way are the same key. \<open>None\<close> is a failed assertion or the end iterator
  dereferenced.
\<close>

type_synonym MapScheduler = "(EventKey \<times> nat) list"

definition same_key :: "EventKey \<Rightarrow> EventKey \<Rightarrow> bool" where
  "same_key a b \<longleftrightarrow> \<not> EventKey_less a b \<and> \<not> EventKey_less b a"

definition MapScheduler_make :: MapScheduler where
  "MapScheduler_make = []"

text \<open>\<^verbatim>\<open>m_list.insert\<close>, with the flag it returns.\<close>

fun map_insert_pair :: "EventKey \<times> nat \<Rightarrow> MapScheduler \<Rightarrow> MapScheduler \<times> bool" where
  "map_insert_pair kv [] = ([kv], True)"
| "map_insert_pair kv (i # m_list) =
     (if EventKey_less (fst kv) (fst i) then (kv # i # m_list, True)
      else if same_key (fst kv) (fst i) then (i # m_list, False)
      else let (m, r) = map_insert_pair kv m_list in (i # m, r))"

definition MapScheduler_Insert :: "Event \<Rightarrow> MapScheduler \<Rightarrow> MapScheduler option" where
  "MapScheduler_Insert ev m_list =
     (let (m, r) = map_insert_pair (ev_key ev, ev_impl ev) m_list in
      do { ensure r; Some m })"

definition MapScheduler_IsEmpty :: "MapScheduler \<Rightarrow> bool" where
  "MapScheduler_IsEmpty m_list \<longleftrightarrow> m_list = []"

fun MapScheduler_PeekNext :: "MapScheduler \<Rightarrow> Event option" where
  "MapScheduler_PeekNext [] = None"
| "MapScheduler_PeekNext ((k, i) # m_list) = Some \<lparr>ev_impl = i, ev_key = k\<rparr>"

fun MapScheduler_RemoveNext :: "MapScheduler \<Rightarrow> (Event \<times> MapScheduler) option" where
  "MapScheduler_RemoveNext [] = None"
| "MapScheduler_RemoveNext ((k, i) # m_list) = Some (\<lparr>ev_impl = i, ev_key = k\<rparr>, m_list)"

fun MapScheduler_Remove :: "Event \<Rightarrow> MapScheduler \<Rightarrow> MapScheduler option" where
  "MapScheduler_Remove ev [] = None"
| "MapScheduler_Remove ev ((k, i) # m_list) =
     (if same_key k (ev_key ev) then do { ensure (i = ev_impl ev); Some m_list }
      else do { r \<leftarrow> MapScheduler_Remove ev m_list; Some ((k, i) # r) })"

definition MapScheduler_ops :: "MapScheduler scheduler" where
  "MapScheduler_ops =
     \<lparr>op_Insert = MapScheduler_Insert, op_IsEmpty = MapScheduler_IsEmpty,
      op_PeekNext = MapScheduler_PeekNext, op_RemoveNext = MapScheduler_RemoveNext,
      op_Remove = MapScheduler_Remove\<rparr>"

section \<open>The contract\<close>

definition map_event :: "EventKey \<times> nat \<Rightarrow> Event" where
  "map_event kv = \<lparr>ev_impl = snd kv, ev_key = fst kv\<rparr>"

abbreviation map_pending :: "MapScheduler \<Rightarrow> Event set" where
  "map_pending q \<equiv> map_event ` set q"

definition map_inv :: "u64 \<Rightarrow> MapScheduler \<Rightarrow> bool" where
  "map_inv t q \<longleftrightarrow> events_ok (map_pending q) \<and> sorted_wrt (\<lambda>a b. EventKey_less (fst a) (fst b)) q"

lemma map_event_simps [simp]: "ev_key (map_event kv) = fst kv" "ev_impl (map_event kv) = snd kv"
  "map_event (ev_key ev, ev_impl ev) = ev"
  by (simp_all add: map_event_def)

lemma map_event_eq [simp]: "map_event a = map_event b \<longleftrightarrow> a = b"
  by (simp add: map_event_def prod_eq_iff conj_commute)

lemma same_key_prio: "same_key a b \<longleftrightarrow> key_prio a = key_prio b"
  by (auto simp: same_key_def key_prio_less [symmetric])

lemma EventKey_less_trans: "EventKey_less a b \<Longrightarrow> EventKey_less b c \<Longrightarrow> EventKey_less a c"
  by (simp add: key_prio_less [symmetric])

lemma map_insert_pair_fresh:
  assumes "prio ev \<notin> prio ` map_pending q" and "sorted_wrt (\<lambda>a b. EventKey_less (fst a) (fst b)) q"
  shows "\<exists>m. map_insert_pair (ev_key ev, ev_impl ev) q = (m, True) \<and>
    set m = insert (ev_key ev, ev_impl ev) (set q) \<and> sorted_wrt (\<lambda>a b. EventKey_less (fst a) (fst b)) m"
  using assms
proof (induction q)
  case (Cons i q)
  then obtain m where m: "map_insert_pair (ev_key ev, ev_impl ev) q = (m, True)"
    "set m = insert (ev_key ev, ev_impl ev) (set q)"
    "sorted_wrt (\<lambda>a b. EventKey_less (fst a) (fst b)) m" by auto
  have "prio ev \<noteq> key_prio (fst i)" using Cons.prems(1) by auto
  then have "EventKey_less (ev_key ev) (fst i) \<or>
      \<not> same_key (ev_key ev) (fst i) \<and> EventKey_less (fst i) (ev_key ev)"
    by (auto simp: same_key_prio key_prio_less [symmetric])
  with m Cons.prems(2) show ?case
    by (auto intro: EventKey_less_trans)
qed simp

lemma MapScheduler_Remove_spec:
  assumes "events_ok (map_pending q)" and "ev \<in> map_pending q"
    and "sorted_wrt (\<lambda>a b. EventKey_less (fst a) (fst b)) q"
  shows "\<exists>m. MapScheduler_Remove ev q = Some m \<and> set m = set q - {(ev_key ev, ev_impl ev)} \<and>
    sorted_wrt (\<lambda>a b. EventKey_less (fst a) (fst b)) m"
  using assms
proof (induction q)
  case (Cons kv q)
  obtain k i where kv: "kv = (k, i)" by (cases kv)
  have "prio (map_event kv) = prio ev \<longleftrightarrow> map_event kv = ev"
    using inj_on_eq_iff [OF prio_inj [OF Cons.prems(1)] _ Cons.prems(2), of "map_event kv"] by simp
  then have same: "same_key k (ev_key ev) \<longleftrightarrow> (k, i) = (ev_key ev, ev_impl ev)"
    by (auto simp: same_key_prio kv map_event_def)
  have gt: "\<And>x. x \<in> set q \<Longrightarrow> EventKey_less k (fst x)" using Cons.prems(3) kv by auto
  then have notin: "(k, i) \<notin> set q" by (force simp: EventKey_less_def)
  show ?case
  proof (cases "same_key k (ev_key ev)")
    case True
    with same notin Cons.prems(3) show ?thesis by (auto simp: kv)
  next
    case False
    with same Cons.prems(2) have "ev \<in> map_pending q" by (auto simp: kv map_event_def)
    moreover have "events_ok (map_pending q)"
      using Cons.prems(1) by (rule events_ok_subset) auto
    moreover have "sorted_wrt (\<lambda>a b. EventKey_less (fst a) (fst b)) q"
      using Cons.prems(3) by simp
    ultimately obtain m where "MapScheduler_Remove ev q = Some m"
      "set m = set q - {(ev_key ev, ev_impl ev)}" "sorted_wrt (\<lambda>a b. EventKey_less (fst a) (fst b)) m"
      using Cons.IH by blast
    with False same gt show ?thesis by (auto simp: kv)
  qed
qed simp

lemma map_inv_first: "map_inv t (kv # q) \<Longrightarrow> first_of (map_pending (kv # q)) (map_event kv)"
  by (auto simp: map_inv_def first_of_def key_prio_less [symmetric] intro: less_imp_le)

lemma map_inv_tail: "map_inv t (kv # q) \<Longrightarrow> map_inv t' q"
  by (auto simp: map_inv_def intro: events_ok_subset)

lemma map_inv_head_fresh: "map_inv t (kv # q) \<Longrightarrow> kv \<notin> set q"
  by (force simp: map_inv_def EventKey_less_def)

interpretation map_store: event_store MapScheduler_ops map_inv map_pending
proof
  fix t t' :: u64 and q ev
  assume inv: "map_inv t q"
  show "events_ok (map_pending q)" using inv by (simp add: map_inv_def)
  show "map_inv t' q" using inv by (simp add: map_inv_def)
  show "op_IsEmpty MapScheduler_ops q \<longleftrightarrow> map_pending q = {}"
    by (simp add: MapScheduler_ops_def MapScheduler_IsEmpty_def)
  show "\<exists>q'. op_Insert MapScheduler_ops ev q = Some q' \<and> map_inv t q' \<and>
      map_pending q' = insert ev (map_pending q)" if i: "insertable t (map_pending q) ev"
  proof -
    have "prio ev \<notin> prio ` map_pending q"
      using i by (auto simp: insertable_def key_prio_eq image_iff)
    from map_insert_pair_fresh [OF this] inv obtain m where
      m: "map_insert_pair (ev_key ev, ev_impl ev) q = (m, True)"
        "set m = insert (ev_key ev, ev_impl ev) (set q)"
        "sorted_wrt (\<lambda>a b. EventKey_less (fst a) (fst b)) m" by (auto simp: map_inv_def)
    then have "map_pending m = insert ev (map_pending q)" by simp
    with m events_ok_insert [OF _ i] inv show ?thesis
      by (simp add: MapScheduler_ops_def MapScheduler_Insert_def map_inv_def)
  qed
  show "\<exists>e. op_PeekNext MapScheduler_ops q = Some e \<and> first_of (map_pending q) e"
    if "map_pending q \<noteq> {}"
    using that inv map_inv_first [of t "hd q" "tl q"]
    by (cases q) (auto simp: MapScheduler_ops_def map_event_def)
  show "\<exists>e q'. op_RemoveNext MapScheduler_ops q = Some (e, q') \<and> first_of (map_pending q) e \<and>
      map_inv (ev_ts e) q' \<and> map_pending q' = map_pending q - {e}" if "map_pending q \<noteq> {}"
  proof (cases q)
    case (Cons kv r)
    have "op_RemoveNext MapScheduler_ops q = Some (map_event kv, r)"
      by (cases kv) (simp add: Cons MapScheduler_ops_def map_event_def)
    moreover have "map_pending r = map_pending q - {map_event kv}"
      using map_inv_head_fresh [OF inv [unfolded Cons]] by (auto simp: Cons)
    ultimately show ?thesis
      using map_inv_first [OF inv [unfolded Cons]] map_inv_tail [OF inv [unfolded Cons]] Cons by blast
  qed (use that in simp)
  show "op_RemoveNext MapScheduler_ops q = None" if "map_pending q = {}"
    using that by (simp add: MapScheduler_ops_def)
  show "\<exists>q'. op_Remove MapScheduler_ops ev q = Some q' \<and> map_inv t q' \<and>
      map_pending q' = map_pending q - {ev}" if "ev \<in> map_pending q"
  proof -
    note ok = inv [unfolded map_inv_def]
    from MapScheduler_Remove_spec [OF ok [THEN conjunct1] that ok [THEN conjunct2]]
    obtain m where m: "MapScheduler_Remove ev q = Some m" "set m = set q - {(ev_key ev, ev_impl ev)}"
      "sorted_wrt (\<lambda>a b. EventKey_less (fst a) (fst b)) m" by blast
    have "inj map_event" by (simp add: inj_on_def)
    then have d: "map_pending m = map_pending q - {ev}"
      by (simp add: m(2) image_set_diff)
    have "events_ok (map_pending m)"
      unfolding d by (rule events_ok_subset [OF ok [THEN conjunct1]]) blast
    with m d show ?thesis by (simp add: MapScheduler_ops_def map_inv_def)
  qed
qed

end
