(* ===== verification/Priority_Queue_Scheduler.thy ===== *)
theory Priority_Queue_Scheduler
  imports Event_Scheduler
begin

text \<open>
  \<open>PriorityQueueScheduler\<close> (src/core/model/priority-queue-scheduler.cc): a
  \<^verbatim>\<open>std::priority_queue\<close> over a vector, with \<open>remove\<close> added. Of the standard container only
  what it promises is modelled: while the vector is a heap, \<open>push\<close> adds an element, \<open>top\<close> is an
  element no other is before, \<open>pop\<close> takes it out, and all keep it a heap; \<open>erase\<close> of an element
  leaves a vector that need not be one, and \<^verbatim>\<open>std::make_heap\<close> makes it one. The arrangement of
  the vector is left to the library: the model keeps the elements in the order of insertion and
  whether the vector is known to be a heap. Using it when it is not is \<open>None\<close>.
\<close>

record PriorityQueueScheduler =
  pq_c :: "Event list"
  pq_heap :: bool

definition PriorityQueue_make :: PriorityQueueScheduler where
  "PriorityQueue_make = \<lparr>pq_c = [], pq_heap = True\<rparr>"

definition PriorityQueue_Insert :: "Event \<Rightarrow> PriorityQueueScheduler \<Rightarrow> PriorityQueueScheduler option" where
  "PriorityQueue_Insert ev m_queue =
     do { ensure (pq_heap m_queue); Some (m_queue\<lparr>pq_c := pq_c m_queue @ [ev]\<rparr>) }"

definition PriorityQueue_IsEmpty :: "PriorityQueueScheduler \<Rightarrow> bool" where
  "PriorityQueue_IsEmpty m_queue \<longleftrightarrow> pq_c m_queue = []"

text \<open>The top of a heap with these elements.\<close>

fun pq_top :: "Event list \<Rightarrow> Event option" where
  "pq_top [] = None"
| "pq_top (e # c) =
     (case pq_top c of
        None \<Rightarrow> Some e
      | Some m \<Rightarrow> Some (if Event_greater e m then m else e))"

definition PriorityQueue_PeekNext :: "PriorityQueueScheduler \<Rightarrow> Event option" where
  "PriorityQueue_PeekNext m_queue = do { ensure (pq_heap m_queue); pq_top (pq_c m_queue) }"

definition PriorityQueue_RemoveNext ::
    "PriorityQueueScheduler \<Rightarrow> (Event \<times> PriorityQueueScheduler) option" where
  "PriorityQueue_RemoveNext m_queue =
     do {
       ev \<leftarrow> PriorityQueue_PeekNext m_queue;
       Some (ev, m_queue\<lparr>pq_c := remove1 ev (pq_c m_queue)\<rparr>)
     }"

text \<open>\<open>std::find\<close> compares with the equality of events, that is by id.\<close>

fun pq_find_erase :: "Event \<Rightarrow> Event list \<Rightarrow> Event list option" where
  "pq_find_erase ev [] = None"
| "pq_find_erase ev (i # c) =
     (if Event_eq i ev then Some c else map_option ((#) i) (pq_find_erase ev c))"

definition make_heap :: "PriorityQueueScheduler \<Rightarrow> PriorityQueueScheduler" where
  "make_heap m_queue = m_queue\<lparr>pq_heap := True\<rparr>"

definition EventPriorityQueue_remove ::
    "Event \<Rightarrow> PriorityQueueScheduler \<Rightarrow> bool \<times> PriorityQueueScheduler" where
  "EventPriorityQueue_remove ev m_queue =
     (case pq_find_erase ev (pq_c m_queue) of
        Some c \<Rightarrow>
          let m_queue = m_queue\<lparr>pq_c := c, pq_heap := False\<rparr>;
              m_queue = make_heap m_queue
          in (True, m_queue)
      | None \<Rightarrow> (False, m_queue))"

definition PriorityQueue_Remove :: "Event \<Rightarrow> PriorityQueueScheduler \<Rightarrow> PriorityQueueScheduler option" where
  "PriorityQueue_Remove ev m_queue = Some (snd (EventPriorityQueue_remove ev m_queue))"

definition PriorityQueue_ops :: "PriorityQueueScheduler scheduler" where
  "PriorityQueue_ops =
     \<lparr>op_Insert = PriorityQueue_Insert, op_IsEmpty = PriorityQueue_IsEmpty,
      op_PeekNext = PriorityQueue_PeekNext, op_RemoveNext = PriorityQueue_RemoveNext,
      op_Remove = PriorityQueue_Remove\<rparr>"

section \<open>The contract\<close>

abbreviation pq_events :: "PriorityQueueScheduler \<Rightarrow> Event set" where
  "pq_events q \<equiv> set (pq_c q)"

definition pq_inv :: "u64 \<Rightarrow> PriorityQueueScheduler \<Rightarrow> bool" where
  "pq_inv t q \<longleftrightarrow> events_ok (pq_events q) \<and> distinct (pq_c q) \<and> pq_heap q"

lemma pq_top_first: "c \<noteq> [] \<Longrightarrow> \<exists>e. pq_top c = Some e \<and> first_of (set c) e"
proof (induction c)
  case (Cons e c)
  show ?case
  proof (cases "c = []")
    case False
    with Cons.IH obtain m where "pq_top c = Some m" "first_of (set c) m" by blast
    then show ?thesis
      by (auto simp: first_of_def Event_greater_prio intro: le_trans [OF less_imp_le])
  qed (simp add: first_of_def)
qed simp

lemma pq_find_erase_remove1:
  assumes "events_ok (set c)" and "ev \<in> set c"
  shows "pq_find_erase ev c = Some (remove1 ev c)"
  using assms
proof (induction c)
  case (Cons i c)
  have "Event_eq i ev \<longleftrightarrow> i = ev"
    using uid_eq [OF Cons.prems(1) _ Cons.prems(2), of i] by (simp add: Event_eq_def EventKey_eq_def)
  moreover have "events_ok (set c)" using Cons.prems(1) by (rule events_ok_subset) auto
  ultimately show ?case using Cons by auto
qed simp

lemma pq_inv_remove:
  assumes "pq_inv t q"
  shows "pq_inv t' (q\<lparr>pq_c := remove1 ev (pq_c q)\<rparr>)" and "set (remove1 ev (pq_c q)) = pq_events q - {ev}"
proof -
  show "set (remove1 ev (pq_c q)) = pq_events q - {ev}" using assms by (simp add: pq_inv_def)
  have "events_ok (set (remove1 ev (pq_c q)))"
    using assms set_remove1_subset by (metis pq_inv_def events_ok_subset)
  with assms show "pq_inv t' (q\<lparr>pq_c := remove1 ev (pq_c q)\<rparr>)" by (simp add: pq_inv_def)
qed

interpretation pq_store: event_store PriorityQueue_ops pq_inv pq_events
proof
  fix t t' :: u64 and q ev
  assume inv: "pq_inv t q"
  then have heap: "pq_heap q" by (simp add: pq_inv_def)
  show "events_ok (pq_events q)" using inv by (simp add: pq_inv_def)
  show "pq_inv t' q" using inv by (simp add: pq_inv_def)
  show "op_IsEmpty PriorityQueue_ops q \<longleftrightarrow> pq_events q = {}"
    by (simp add: PriorityQueue_ops_def PriorityQueue_IsEmpty_def)
  show "\<exists>q'. op_Insert PriorityQueue_ops ev q = Some q' \<and> pq_inv t q' \<and> pq_events q' = insert ev (pq_events q)"
    if i: "insertable t (pq_events q) ev"
  proof -
    have "ev \<notin> pq_events q" using i by (auto simp: insertable_def)
    with events_ok_insert [OF _ i] inv show ?thesis
      by (simp add: PriorityQueue_ops_def PriorityQueue_Insert_def pq_inv_def)
  qed
  show "\<exists>e. op_PeekNext PriorityQueue_ops q = Some e \<and> first_of (pq_events q) e" if "pq_events q \<noteq> {}"
    using pq_top_first [of "pq_c q"] that heap by (simp add: PriorityQueue_ops_def PriorityQueue_PeekNext_def)
  show "\<exists>e q'. op_RemoveNext PriorityQueue_ops q = Some (e, q') \<and> first_of (pq_events q) e \<and>
      pq_inv (ev_ts e) q' \<and> pq_events q' = pq_events q - {e}" if "pq_events q \<noteq> {}"
    using pq_top_first [of "pq_c q"] that heap pq_inv_remove [OF inv]
    by (auto simp: PriorityQueue_ops_def PriorityQueue_RemoveNext_def PriorityQueue_PeekNext_def)
  show "op_RemoveNext PriorityQueue_ops q = None" if "pq_events q = {}"
    using that by (simp add: PriorityQueue_ops_def PriorityQueue_RemoveNext_def PriorityQueue_PeekNext_def)
  show "\<exists>q'. op_Remove PriorityQueue_ops ev q = Some q' \<and> pq_inv t q' \<and> pq_events q' = pq_events q - {ev}"
    if "ev \<in> pq_events q"
    using pq_find_erase_remove1 [of "pq_c q" ev] that inv pq_inv_remove [OF inv]
    by (simp add: PriorityQueue_ops_def PriorityQueue_Remove_def EventPriorityQueue_remove_def make_heap_def pq_inv_def Let_def)
qed

end
