(* ===== verification/Heap_Scheduler.thy ===== *)
theory Heap_Scheduler
  imports Event_Scheduler
begin

text \<open>
  \<open>HeapScheduler\<close> (src/core/model/heap-scheduler.cc): a binary heap in a vector whose first
  element is unused, so that the root has index 1 and the children of \<open>i\<close> are \<open>2i\<close> and \<open>2i+1\<close>.
  \<open>None\<close> is a failed assertion or an access past the end of the vector.
\<close>

type_synonym HeapScheduler = "Event list"

definition HeapScheduler_make :: HeapScheduler where
  "HeapScheduler_make = [\<lparr>ev_impl = 0, ev_key = \<lparr>ek_ts = 0, ek_uid = 0, ek_context = 0\<rparr>\<rparr>]"

definition Heap_Parent :: "nat \<Rightarrow> nat" where
  "Heap_Parent i = i div 2"

definition Heap_LeftChild :: "nat \<Rightarrow> nat" where
  "Heap_LeftChild i = i * 2"

definition Heap_RightChild :: "nat \<Rightarrow> nat" where
  "Heap_RightChild i = i * 2 + 1"

definition Heap_Root :: nat where
  "Heap_Root = 1"

definition Heap_IsRoot :: "nat \<Rightarrow> bool" where
  "Heap_IsRoot i \<longleftrightarrow> i = Heap_Root"

definition Heap_Last :: "HeapScheduler \<Rightarrow> nat" where
  "Heap_Last m_heap = length m_heap - 1"

definition Heap_IsBottom :: "nat \<Rightarrow> HeapScheduler \<Rightarrow> bool" where
  "Heap_IsBottom i m_heap \<longleftrightarrow> length m_heap \<le> i"

definition Heap_Exch :: "nat \<Rightarrow> nat \<Rightarrow> HeapScheduler \<Rightarrow> HeapScheduler option" where
  "Heap_Exch a b m_heap =
     do {
       ensure (b < length m_heap \<and> a < length m_heap);
       let tmp = m_heap ! a;
       Some (m_heap[a := m_heap ! b, b := tmp])
     }"

definition Heap_IsLessStrictly :: "nat \<Rightarrow> nat \<Rightarrow> HeapScheduler \<Rightarrow> bool" where
  "Heap_IsLessStrictly a b m_heap \<longleftrightarrow> Event_less (m_heap ! a) (m_heap ! b)"

definition Heap_Smallest :: "nat \<Rightarrow> nat \<Rightarrow> HeapScheduler \<Rightarrow> nat" where
  "Heap_Smallest a b m_heap = (if Heap_IsLessStrictly a b m_heap then a else b)"

definition Heap_IsEmpty :: "HeapScheduler \<Rightarrow> bool" where
  "Heap_IsEmpty m_heap \<longleftrightarrow> length m_heap = 1"

lemma Event_less_irrefl [simp]: "\<not> Event_less e e"
  by (simp add: Event_less_prio)

text \<open>The loop of \<open>BottomUp\<close> from an index on.\<close>

function Heap_bottom_up :: "nat \<Rightarrow> HeapScheduler \<Rightarrow> HeapScheduler option" where
  "Heap_bottom_up index m_heap =
     (if \<not> Heap_IsRoot index \<and> Heap_IsLessStrictly index (Heap_Parent index) m_heap then
        do {
          m_heap \<leftarrow> Heap_Exch index (Heap_Parent index) m_heap;
          Heap_bottom_up (Heap_Parent index) m_heap
        }
      else Some m_heap)"
  by pat_completeness auto
termination
proof (relation "measure fst")
  fix i h and h' :: HeapScheduler
  assume "\<not> Heap_IsRoot i \<and> Heap_IsLessStrictly i (Heap_Parent i) h"
  then have "i \<noteq> 0" by (cases "i = 0") (simp_all add: Heap_IsLessStrictly_def Heap_Parent_def)
  then show "((Heap_Parent i, h'), (i, h)) \<in> measure fst" by (simp add: Heap_Parent_def)
qed simp

definition Heap_BottomUp :: "HeapScheduler \<Rightarrow> HeapScheduler option" where
  "Heap_BottomUp m_heap = Heap_bottom_up (Heap_Last m_heap) m_heap"

text \<open>\<open>TopDown\<close>, which is called with indexes from 1 on: the loop, then the last step where a node has a left child only.\<close>

definition Heap_top_down_last :: "nat \<Rightarrow> HeapScheduler \<Rightarrow> HeapScheduler option" where
  "Heap_top_down_last index m_heap =
     (if Heap_IsBottom index m_heap then Some m_heap
      else let left = Heap_LeftChild index in
        if Heap_IsBottom left m_heap then Some m_heap
        else if Heap_IsLessStrictly index left m_heap then Some m_heap
        else Heap_Exch index left m_heap)"

function Heap_TopDown :: "nat \<Rightarrow> HeapScheduler \<Rightarrow> HeapScheduler option" where
  "Heap_TopDown index m_heap =
     (if index = 0 then None
      else if \<not> Heap_IsBottom (Heap_RightChild index) m_heap then
        let tmp = Heap_Smallest (Heap_LeftChild index) (Heap_RightChild index) m_heap in
        if Heap_IsLessStrictly index tmp m_heap then Some m_heap
        else do { m_heap \<leftarrow> Heap_Exch index tmp m_heap; Heap_TopDown tmp m_heap }
      else Heap_top_down_last index m_heap)"
  by pat_completeness auto
termination
  by (relation "measure (\<lambda>(i, h). length h - i)")
    (auto simp: Heap_IsBottom_def Heap_Exch_def Heap_LeftChild_def Heap_RightChild_def
      Heap_Smallest_def bind_eq_Some_conv Let_def)

declare Heap_bottom_up.simps [simp del] Heap_TopDown.simps [simp del]

definition HeapScheduler_Insert :: "Event \<Rightarrow> HeapScheduler \<Rightarrow> HeapScheduler option" where
  "HeapScheduler_Insert ev m_heap = Heap_BottomUp (m_heap @ [ev])"

definition HeapScheduler_PeekNext :: "HeapScheduler \<Rightarrow> Event option" where
  "HeapScheduler_PeekNext m_heap =
     do { ensure (Heap_Root < length m_heap); Some (m_heap ! Heap_Root) }"

definition HeapScheduler_RemoveNext :: "HeapScheduler \<Rightarrow> (Event \<times> HeapScheduler) option" where
  "HeapScheduler_RemoveNext m_heap =
     do {
       ensure (Heap_Root < length m_heap);
       let next = m_heap ! Heap_Root;
       m_heap \<leftarrow> Heap_Exch Heap_Root (Heap_Last m_heap) m_heap;
       let m_heap = butlast m_heap;
       m_heap \<leftarrow> Heap_TopDown Heap_Root m_heap;
       Some (next, m_heap)
     }"

text \<open>\<open>Remove\<close> looks for the id from index 1 on.\<close>

fun Heap_find :: "u32 \<Rightarrow> nat list \<Rightarrow> HeapScheduler \<Rightarrow> nat option" where
  "Heap_find uid [] m_heap = None"
| "Heap_find uid (i # is) m_heap =
     (if uid = ev_uid (m_heap ! i) then Some i else Heap_find uid is m_heap)"

definition HeapScheduler_Remove :: "Event \<Rightarrow> HeapScheduler \<Rightarrow> HeapScheduler option" where
  "HeapScheduler_Remove ev m_heap =
     do {
       i \<leftarrow> Heap_find (ev_uid ev) [1 ..< length m_heap] m_heap;
       ensure (ev_impl (m_heap ! i) = ev_impl ev);
       m_heap \<leftarrow> Heap_Exch i (Heap_Last m_heap) m_heap;
       Heap_TopDown i (butlast m_heap)
     }"

definition HeapScheduler_ops :: "HeapScheduler scheduler" where
  "HeapScheduler_ops =
     \<lparr>op_Insert = HeapScheduler_Insert, op_IsEmpty = Heap_IsEmpty,
      op_PeekNext = HeapScheduler_PeekNext, op_RemoveNext = HeapScheduler_RemoveNext,
      op_Remove = HeapScheduler_Remove\<rparr>"

section \<open>Heap order\<close>

text \<open>
  The order on the priorities by index: everywhere, everywhere but above one index, everywhere
  but below one index. In the last two the grandparent still is not after the children.
\<close>

definition ordered_heap :: "(nat \<Rightarrow> nat) \<Rightarrow> nat \<Rightarrow> bool" where
  "ordered_heap f n \<longleftrightarrow> (\<forall>i. 2 \<le> i \<and> i < n \<longrightarrow> f (i div 2) \<le> f i)"

definition around :: "(nat \<Rightarrow> nat) \<Rightarrow> nat \<Rightarrow> nat \<Rightarrow> bool" where
  "around f n k \<longleftrightarrow> (\<forall>i. 2 \<le> k \<and> i < n \<and> i div 2 = k \<longrightarrow> f (k div 2) \<le> f i)"

definition up_at :: "(nat \<Rightarrow> nat) \<Rightarrow> nat \<Rightarrow> nat \<Rightarrow> bool" where
  "up_at f n k \<longleftrightarrow> (\<forall>i. 2 \<le> i \<and> i < n \<and> i \<noteq> k \<longrightarrow> f (i div 2) \<le> f i) \<and> around f n k"

definition down_at :: "(nat \<Rightarrow> nat) \<Rightarrow> nat \<Rightarrow> nat \<Rightarrow> bool" where
  "down_at f n k \<longleftrightarrow> (\<forall>i. 2 \<le> i \<and> i < n \<and> i div 2 \<noteq> k \<longrightarrow> f (i div 2) \<le> f i) \<and> around f n k"

lemma up_step:
  assumes "up_at f n k" and "2 \<le> k" and "k < n" and "f k < f (k div 2)"
  shows "up_at (f(k := f (k div 2), k div 2 := f k)) n (k div 2)" (is "up_at ?g n ?j")
proof -
  have ord: "f (i div 2) \<le> f i" if "2 \<le> i" "i < n" "i \<noteq> k" for i
    using assms(1) that by (simp add: up_at_def)
  have grand: "f ?j \<le> f i" if "i < n" "i div 2 = k" for i
    using assms(1,2) that by (simp add: up_at_def around_def)
  have jk: "?j \<noteq> k" "?j < n" "1 \<le> ?j" using assms(2,3) by auto
  have "?g (i div 2) \<le> ?g i" if i: "2 \<le> i" "i < n" "i \<noteq> ?j" for i
  proof (cases "i = k")
    case True
    then show ?thesis using assms(4) jk by simp
  next
    case False
    with i ord [of i] grand [of i] assms(4) jk show ?thesis by auto
  qed
  moreover have "?g (?j div 2) \<le> ?g i" if i: "2 \<le> ?j" "i < n" "i div 2 = ?j" for i
  proof -
    have far: "?j div 2 \<noteq> ?j" "?j div 2 \<noteq> k" "i \<noteq> ?j" using i(1,3) assms(2) by auto
    have "f (?j div 2) \<le> f ?j" using ord [of ?j] i(1) jk by simp
    moreover have "i \<noteq> k \<Longrightarrow> f ?j \<le> f i" using ord [of i] i by auto
    ultimately show ?thesis using far by auto
  qed
  ultimately show ?thesis by (simp add: up_at_def around_def)
qed

lemma up_done: "up_at f n k \<Longrightarrow> k < 2 \<or> f (k div 2) \<le> f k \<Longrightarrow> ordered_heap f n"
  unfolding up_at_def ordered_heap_def by (metis not_le)

lemma down_step:
  assumes "down_at f n k" and "1 \<le> k" and "c < n" and "c div 2 = k" and "f c \<le> f k"
    and "\<And>i. i < n \<Longrightarrow> i div 2 = k \<Longrightarrow> f c \<le> f i"
  shows "down_at (f(k := f c, c := f k)) n c" (is "down_at ?g n c")
proof -
  have ord: "f (i div 2) \<le> f i" if "2 \<le> i" "i < n" "i div 2 \<noteq> k" for i
    using assms(1) that by (simp add: down_at_def)
  have grand: "f (k div 2) \<le> f i" if "2 \<le> k" "i < n" "i div 2 = k" for i
    using assms(1) that by (simp add: down_at_def around_def)
  have ck: "c \<noteq> k" "2 \<le> c" using assms(2,4) by auto
  have "?g (i div 2) \<le> ?g i" if i: "2 \<le> i" "i < n" "i div 2 \<noteq> c" for i
  proof (cases "i div 2 = k")
    case True
    then show ?thesis using assms(5,6) i ck by auto
  next
    case False
    then have "f (i div 2) \<le> f i" using ord i by simp
    moreover have "i = k \<Longrightarrow> f (k div 2) \<le> f c" using grand [of c] assms(3,4) i by simp
    moreover have "i \<noteq> c" using False assms(4) by auto
    ultimately show ?thesis using False i by auto
  qed
  moreover have "?g (c div 2) \<le> ?g i" if i: "2 \<le> c" "i < n" "i div 2 = c" for i
  proof -
    have "f c \<le> f i" using ord [of i] i ck by auto
    moreover have "i \<noteq> k" "i \<noteq> c" using i ck assms(2,4) by auto
    ultimately show ?thesis using assms(4) ck by auto
  qed
  ultimately show ?thesis by (simp add: down_at_def around_def)
qed

lemma down_done:
  assumes "down_at f n k" and "\<And>i. i < n \<Longrightarrow> i div 2 = k \<Longrightarrow> f k \<le> f i"
  shows "ordered_heap f n"
  using assms by (auto simp: down_at_def ordered_heap_def)

lemma ordered_heap_root:
  assumes "ordered_heap f n" and "1 \<le> i" and "i < n"
  shows "f 1 \<le> f i"
  using assms(2,3)
proof (induction i rule: less_induct)
  case (less i)
  show ?case
  proof (cases "i = 1")
    case False
    then have "f 1 \<le> f (i div 2)" using less by simp
    also have "\<dots> \<le> f i" using assms(1) less False by (simp add: ordered_heap_def)
    finally show ?thesis .
  qed simp
qed

section \<open>The operations keep the heap\<close>

abbreviation hprio :: "HeapScheduler \<Rightarrow> nat \<Rightarrow> nat" where
  "hprio h \<equiv> \<lambda>i. prio (h ! i)"

lemma Heap_less: "Heap_IsLessStrictly a b h \<longleftrightarrow> hprio h a < hprio h b"
  by (simp add: Heap_IsLessStrictly_def Event_less_prio)

lemma Heap_Exch_spec:
  assumes "1 \<le> a" and "a < length h" and "1 \<le> b" and "b < length h"
  obtains g where "Heap_Exch a b h = Some g" and "length g = length h"
    and "mset (tl g) = mset (tl h)" and "hprio g = (hprio h)(a := hprio h b, b := hprio h a)"
    and "g ! b = h ! a"
proof
  let ?g = "h[a := h ! b, b := h ! a]"
  show "Heap_Exch a b h = Some ?g" using assms by (simp add: Heap_Exch_def)
  show "hprio ?g = (hprio h)(a := hprio h b, b := hprio h a)"
    using assms by (auto simp: fun_eq_iff nth_list_update)
  show "?g ! b = h ! a" using assms by simp
  have "mset ?g = mset h" using assms by (simp add: mset_swap)
  moreover have "hd ?g = hd h" "h \<noteq> []" using assms by (cases h; cases a; cases b; simp)+
  ultimately show "mset (tl ?g) = mset (tl h)"
    by (metis add_mset_add_single add_right_imp_eq list.collapse list_update_nonempty mset.simps(2))
qed simp

lemma Heap_bottom_up_spec:
  assumes "1 \<le> k" and "k < length h" and "up_at (hprio h) (length h) k"
  shows "\<exists>g. Heap_bottom_up k h = Some g \<and> length g = length h \<and> mset (tl g) = mset (tl h) \<and>
    ordered_heap (hprio g) (length g)"
  using assms
proof (induction k h rule: Heap_bottom_up.induct)
  case (1 k h)
  show ?case
  proof (cases "\<not> Heap_IsRoot k \<and> Heap_IsLessStrictly k (Heap_Parent k) h")
    case True
    then have k: "2 \<le> k" "hprio h k < hprio h (k div 2)" "k div 2 \<noteq> k"
      using "1.prems"(1) by (auto simp: Heap_IsRoot_def Heap_Root_def Heap_less Heap_Parent_def)
    then have j: "1 \<le> k div 2" "k div 2 < length h" using "1.prems"(2) by auto
    from Heap_Exch_spec [OF "1.prems"(1,2) j] k obtain g where
      g: "Heap_Exch k (k div 2) h = Some g" "length g = length h" "mset (tl g) = mset (tl h)"
        "hprio g = (hprio h)(k := hprio h (k div 2), k div 2 := hprio h k)" by metis
    have "up_at (hprio g) (length g) (k div 2)"
      unfolding g(2,4) by (rule up_step [OF "1.prems"(3) k(1) "1.prems"(2) k(2)])
    from "1.IH" [OF True, unfolded Heap_Parent_def, OF g(1) j(1) _ this] j(2) g
    obtain g' where "Heap_bottom_up (k div 2) g = Some g'" "length g' = length g"
      "mset (tl g') = mset (tl g)" "ordered_heap (hprio g') (length g')" by auto
    with True g show ?thesis
      by (subst Heap_bottom_up.simps) (simp add: Heap_Parent_def)
  next
    case False
    then have "k < 2 \<or> hprio h (k div 2) \<le> hprio h k"
      by (auto simp: Heap_IsRoot_def Heap_Root_def Heap_less Heap_Parent_def)
    from up_done [OF "1.prems"(3) this] False show ?thesis
      by (subst Heap_bottom_up.simps) auto
  qed
qed

lemma Heap_TopDown_spec:
  assumes "1 \<le> k" and "down_at (hprio h) (length h) k"
  shows "\<exists>g. Heap_TopDown k h = Some g \<and> length g = length h \<and> mset (tl g) = mset (tl h) \<and>
    ordered_heap (hprio g) (length g)"
  using assms
proof (induction k h rule: Heap_TopDown.induct)
  case (1 k h)
  have child: "i div 2 = k \<longleftrightarrow> i = Heap_LeftChild k \<or> i = Heap_RightChild k" for i
    by (auto simp: Heap_LeftChild_def Heap_RightChild_def)
  note down = "1.prems"(2)
  show ?case
  proof (cases "Heap_IsBottom (Heap_RightChild k) h")
    case False
    let ?c = "Heap_Smallest (Heap_LeftChild k) (Heap_RightChild k) h"
    have c: "?c < length h" "?c div 2 = k" "1 \<le> ?c" "?c \<noteq> k"
      using False "1.prems"(1)
      by (auto simp: Heap_Smallest_def Heap_IsBottom_def Heap_LeftChild_def Heap_RightChild_def)
    have least: "hprio h ?c \<le> hprio h i" if "i div 2 = k" for i
      using that by (auto simp: child Heap_Smallest_def Heap_less)
    show ?thesis
    proof (cases "Heap_IsLessStrictly k ?c h")
      case True
      have "ordered_heap (hprio h) (length h)"
        using least True by (intro down_done [OF down]) (force simp: Heap_less)
      with True False "1.prems"(1) show ?thesis
        by (subst Heap_TopDown.simps) (simp add: Let_def)
    next
      case notless: False
      have k: "k < length h" using c by linarith
      from Heap_Exch_spec [OF "1.prems"(1) k c(3,1)] c(4) obtain g where
        g: "Heap_Exch k ?c h = Some g" "length g = length h" "mset (tl g) = mset (tl h)"
          "hprio g = (hprio h)(k := hprio h ?c, ?c := hprio h k)" by metis
      have "down_at (hprio g) (length g) ?c"
        unfolding g(2,4) using notless least
        by (intro down_step [OF down "1.prems"(1) c(1,2)]) (auto simp: Heap_less)
      from "1.IH" [OF _ _ refl notless g(1) c(3) this] False "1.prems"(1) obtain g' where
        "Heap_TopDown ?c g = Some g'" "length g' = length g" "mset (tl g') = mset (tl g)"
        "ordered_heap (hprio g') (length g')" by auto
      with g False notless "1.prems"(1) show ?thesis
        by (subst Heap_TopDown.simps) (simp add: Let_def)
    qed
  next
    case True
    let ?l = "Heap_LeftChild k"
    have only: "i = ?l" if "i < length h" "i div 2 = k" for i
      using that True by (auto simp: child Heap_IsBottom_def)
    have run: "Heap_TopDown k h = Heap_top_down_last k h"
      using True "1.prems"(1) by (subst Heap_TopDown.simps) simp
    show ?thesis
    proof (cases "?l < length h \<and> \<not> Heap_IsLessStrictly k ?l h")
      case True
      have l: "1 \<le> ?l" "?l div 2 = k" "?l \<noteq> k" "k < length h"
        using "1.prems"(1) True by (auto simp: Heap_LeftChild_def)
      from Heap_Exch_spec [OF "1.prems"(1) l(4,1)] True l(3) obtain g where
        g: "Heap_Exch k ?l h = Some g" "length g = length h" "mset (tl g) = mset (tl h)"
          "hprio g = (hprio h)(k := hprio h ?l, ?l := hprio h k)" by metis
      have "down_at (hprio g) (length g) ?l"
        unfolding g(2,4) using True only
        by (intro down_step [OF down "1.prems"(1) _ l(2)]) (auto simp: Heap_less)
      moreover have "\<not> i div 2 = ?l" if "i < length g" for i
        using that \<open>Heap_IsBottom (Heap_RightChild k) h\<close> g(2) "1.prems"(1)
        by (auto simp: Heap_IsBottom_def Heap_LeftChild_def Heap_RightChild_def)
      ultimately have "ordered_heap (hprio g) (length g)" by (auto intro: down_done)
      with g True l show ?thesis
        by (auto simp: run Heap_top_down_last_def Heap_IsBottom_def Let_def)
    next
      case False
      have "ordered_heap (hprio h) (length h)"
        using False only by (intro down_done [OF down]) (auto simp: Heap_less)
      with False show ?thesis
        by (auto simp: run Heap_top_down_last_def Heap_IsBottom_def Let_def)
    qed
  qed
qed

section \<open>The contract without removal\<close>

definition heap_inv :: "u64 \<Rightarrow> HeapScheduler \<Rightarrow> bool" where
  "heap_inv t h \<longleftrightarrow> h \<noteq> [] \<and> events_ok (set (tl h)) \<and> distinct (tl h) \<and>
     ordered_heap (hprio h) (length h)"

lemma ordered_heap_cong:
  "(\<And>i. 1 \<le> i \<Longrightarrow> i < n \<Longrightarrow> f i = g i) \<Longrightarrow> ordered_heap f n = ordered_heap g n"
  by (auto simp: ordered_heap_def)

lemma heap_inv_first:
  assumes "heap_inv t h" and "1 < length h"
  shows "first_of (set (tl h)) (h ! 1)"
proof -
  have "h ! 1 \<in> set (tl h)" using assms by (cases h) auto
  moreover have "prio (h ! 1) \<le> prio x" if "x \<in> set (tl h)" for x
  proof -
    from that obtain i where i: "i < length (tl h)" "x = tl h ! i" by (auto simp: in_set_conv_nth)
    then have "x = h ! (i + 1)" by (simp add: nth_tl)
    with ordered_heap_root [of "hprio h" "length h" "i + 1"] assms i show ?thesis
      by (simp add: heap_inv_def)
  qed
  ultimately show ?thesis by (simp add: first_of_def)
qed

lemma HeapScheduler_Insert_spec:
  assumes "heap_inv t h" and "insertable t (set (tl h)) ev"
  shows "\<exists>g. HeapScheduler_Insert ev h = Some g \<and> heap_inv t g \<and> set (tl g) = insert ev (set (tl h))"
proof -
  let ?h = "h @ [ev]"
  have ne: "h \<noteq> []" and ord: "ordered_heap (hprio h) (length h)"
    using assms(1) by (simp_all add: heap_inv_def)
  have "up_at (hprio ?h) (length ?h) (length h)"
    using ord ne by (auto simp: up_at_def around_def ordered_heap_def nth_append)
  from Heap_bottom_up_spec [OF _ _ this] ne obtain g where
    g: "Heap_bottom_up (length h) ?h = Some g" "length g = length ?h" "mset (tl g) = mset (tl ?h)"
      "ordered_heap (hprio g) (length g)" by (auto simp: Suc_le_eq)
  have s: "set (tl g) = insert ev (set (tl h))" using mset_eq_setD [OF g(3)] ne by simp
  have "ev \<notin> set (tl h)" using assms(2) by (auto simp: insertable_def)
  then have "distinct (tl g)"
    using mset_eq_imp_distinct_iff [OF g(3)] ne assms(1) by (simp add: heap_inv_def)
  with g s assms events_ok_insert [OF _ assms(2)] ne have "heap_inv t g"
    by (auto simp: heap_inv_def)
  with g s show ?thesis by (simp add: HeapScheduler_Insert_def Heap_BottomUp_def Heap_Last_def)
qed

lemma HeapScheduler_RemoveNext_spec:
  assumes "heap_inv t h" and "1 < length h"
  shows "\<exists>g. HeapScheduler_RemoveNext h = Some (h ! 1, g) \<and> heap_inv t' g \<and>
    set (tl g) = set (tl h) - {h ! 1}"
proof -
  let ?l = "length h - 1"
  have l: "1 < length h" "1 \<le> ?l" "?l < length h" using assms(2) by auto
  from Heap_Exch_spec [OF order.refl l] obtain x where
    x: "Heap_Exch 1 ?l h = Some x" "length x = length h" "mset (tl x) = mset (tl h)"
      "hprio x = (hprio h)(1 := hprio h ?l, ?l := hprio h 1)" "x ! ?l = h ! 1" by metis
  let ?b = "butlast x"
  have lx: "tl x \<noteq> []" "last (tl x) = h ! 1"
  proof -
    show ne: "tl x \<noteq> []" using assms(2) x(2) by (cases x) auto
    then have "x \<noteq> []" "last (tl x) = last x" by (auto simp: last_tl)
    then show "last (tl x) = h ! 1" using x(2,5) by (simp add: last_conv_nth)
  qed
  have m: "mset (tl ?b) = mset (tl h) - {# h ! 1 #}"
    using append_butlast_last_id [OF lx(1)] lx(2) x(3)
    by (metis add_diff_cancel_right' butlast_tl mset_append mset.simps mset_single_iff_right)
  have f: "hprio ?b i = hprio h i" if "2 \<le> i" "i < ?l" for i
    using that fun_cong [OF x(4), of i] x(2) by (simp add: nth_butlast)
  have "hprio ?b (i div 2) \<le> hprio ?b i" if "2 \<le> i" "i < length ?b" "i div 2 \<noteq> 1" for i
  proof -
    have "2 \<le> i div 2" "i div 2 < ?l" "i < ?l" using that x(2) by auto
    then show ?thesis using f that(1) assms(1) by (simp add: heap_inv_def ordered_heap_def)
  qed
  then have "down_at (hprio ?b) (length ?b) 1" by (simp add: down_at_def around_def)
  from Heap_TopDown_spec [OF _ this] obtain g where
    g: "Heap_TopDown 1 ?b = Some g" "length g = length ?b" "mset (tl g) = mset (tl ?b)"
      "ordered_heap (hprio g) (length g)" by auto
  have d: "distinct (tl h)" "h ! 1 \<in> set (tl h)"
    using assms by (cases h; auto simp: heap_inv_def)+
  have s: "set (tl g) = set (tl h) - {h ! 1}"
    using mset_eq_setD [OF g(3)] d m
    by (metis mset_remove1 mset_eq_setD set_remove1_eq)
  have "distinct (tl g)"
    using mset_eq_imp_distinct_iff [of "tl g" "remove1 (h ! 1) (tl h)"] g(3) m d(1) by simp
  moreover have "g \<noteq> []" using g(2) x(2) assms(2) by auto
  moreover have "events_ok (set (tl g))"
    unfolding s by (rule events_ok_subset [of "set (tl h)"]) (use assms(1) in \<open>auto simp: heap_inv_def\<close>)
  ultimately have "heap_inv t' g" using g(4) by (simp add: heap_inv_def)
  with s g(1) x(1) assms(2) show ?thesis
    by (simp add: HeapScheduler_RemoveNext_def Heap_Root_def Heap_Last_def)
qed

interpretation heap_queue: event_queue HeapScheduler_ops heap_inv "\<lambda>h. set (tl h)"
proof
  fix t t' :: u64 and q ev
  assume inv: "heap_inv t q"
  have len: "set (tl q) \<noteq> {} \<longleftrightarrow> 1 < length q" by (cases q) auto
  show "events_ok (set (tl q))" using inv by (simp add: heap_inv_def)
  show "heap_inv t' q" using inv by (simp add: heap_inv_def)
  show "op_IsEmpty HeapScheduler_ops q \<longleftrightarrow> set (tl q) = {}"
    using inv len by (cases q) (auto simp: HeapScheduler_ops_def Heap_IsEmpty_def heap_inv_def)
  show "\<exists>q'. op_Insert HeapScheduler_ops ev q = Some q' \<and> heap_inv t q' \<and>
      set (tl q') = insert ev (set (tl q))" if "insertable t (set (tl q)) ev"
    using HeapScheduler_Insert_spec [OF inv that] by (simp add: HeapScheduler_ops_def)
  show "\<exists>e. op_PeekNext HeapScheduler_ops q = Some e \<and> first_of (set (tl q)) e" if "set (tl q) \<noteq> {}"
    using heap_inv_first [OF inv] that len
    by (simp add: HeapScheduler_ops_def HeapScheduler_PeekNext_def Heap_Root_def)
  show "\<exists>e q'. op_RemoveNext HeapScheduler_ops q = Some (e, q') \<and> first_of (set (tl q)) e \<and>
      heap_inv (ev_ts e) q' \<and> set (tl q') = set (tl q) - {e}" if "set (tl q) \<noteq> {}"
    using HeapScheduler_RemoveNext_spec [OF inv, of "ev_ts (q ! 1)"] heap_inv_first [OF inv] that len
    by (auto simp: HeapScheduler_ops_def)
  show "op_RemoveNext HeapScheduler_ops q = None" if "set (tl q) = {}"
    using that len by (simp add: HeapScheduler_ops_def HeapScheduler_RemoveNext_def Heap_Root_def)
qed

section \<open>Removal\<close>

lemma Heap_find_unique:
  "i \<in> set ks \<Longrightarrow> (\<And>k. k \<in> set ks \<Longrightarrow> ev_uid (h ! k) = ev_uid (h ! i) \<Longrightarrow> k = i) \<Longrightarrow>
     Heap_find (ev_uid (h ! i)) ks h = Some i"
  by (induction ks) auto

lemma Heap_find_index:
  assumes "heap_inv t h" and "1 \<le> i" and "i < length h"
  shows "Heap_find (ev_uid (h ! i)) [1 ..< length h] h = Some i"
proof -
  have tl: "h ! k = tl h ! (k - 1)" if "1 \<le> k" "k < length h" for k
    using that by (simp add: nth_tl)
  have "k = i" if "k \<in> set [1 ..< length h]" "ev_uid (h ! k) = ev_uid (h ! i)" for k
  proof -
    have k: "1 \<le> k" "k < length h" using that(1) by auto
    have "h ! k \<in> set (tl h)" "h ! i \<in> set (tl h)"
      using k assms(2,3) by (simp_all add: tl)
    then have "h ! k = h ! i" using uid_eq [of "set (tl h)" "h ! k" "h ! i"] that(2) assms(1) by (simp add: heap_inv_def)
    then have "k - 1 = i - 1"
      using assms k by (simp add: tl heap_inv_def nth_eq_iff_index_eq)
    with k assms(2) show ?thesis by simp
  qed
  moreover have "i \<in> set [1 ..< length h]" using assms(2,3) by simp
  ultimately show ?thesis by (intro Heap_find_unique)
qed

text \<open>
  \<open>Remove\<close> puts the last event in the place of the removed one and lets it sink. The heap stays
  in order if and only if that event is not before its new parent.
\<close>

lemma Heap_Remove_swap:
  assumes "heap_inv t h" and "1 \<le> i" and "i < length h"
  obtains b where "HeapScheduler_Remove (h ! i) h = Heap_TopDown i b"
    and "length b = length h - 1" and "mset (tl b) = mset (tl h) - {#h ! i#}"
    and "\<forall>j < length b. hprio b j = ((hprio h)(i := hprio h (length h - 1))) j"
proof -
  let ?l = "length h - 1"
  have l: "1 \<le> ?l" "?l < length h" using assms(2,3) by auto
  from Heap_Exch_spec [OF assms(2,3) l] obtain x where
    x: "Heap_Exch i ?l h = Some x" "length x = length h" "mset (tl x) = mset (tl h)"
      "hprio x = (hprio h)(i := hprio h ?l, ?l := hprio h i)" "x ! ?l = h ! i" by metis
  have ne: "tl x \<noteq> []" using l x(2) by (cases x) auto
  then have "x \<noteq> []" "last (tl x) = last x" by (auto simp: last_tl)
  then have last: "last (tl x) = h ! i" using x(2,5) by (simp add: last_conv_nth)
  have "mset (tl (butlast x)) = mset (tl h) - {#h ! i#}"
    using append_butlast_last_id [OF ne] last x(3)
    by (metis add_diff_cancel_right' butlast_tl mset_append mset.simps mset_single_iff_right)
  moreover have "hprio (butlast x) j = ((hprio h)(i := hprio h ?l)) j" if "j < length (butlast x)" for j
    using that fun_cong [OF x(4), of j] x(2) by (simp add: nth_butlast)
  moreover have "HeapScheduler_Remove (h ! i) h = Heap_TopDown i (butlast x)"
    using Heap_find_index [OF assms] x(1) by (simp add: HeapScheduler_Remove_def Heap_Last_def)
  ultimately show thesis using that [of "butlast x"] x(2) by simp
qed

lemma down_at_prefix:
  assumes "ordered_heap f (n + 1)" and "1 \<le> i" and "i < n \<Longrightarrow> 2 \<le> i \<Longrightarrow> f (i div 2) \<le> f n"
    and "\<And>j. j < n \<Longrightarrow> g j = (f(i := f n)) j"
  shows "down_at g n i"
proof -
  have ord: "f (j div 2) \<le> f j" if "2 \<le> j" "j < n" for j
    using assms(1) that by (simp add: ordered_heap_def)
  have "g (j div 2) \<le> g j" if j: "2 \<le> j" "j < n" "j div 2 \<noteq> i" for j
    using j ord [of j] assms(3,4) by (cases "j = i") (simp_all add: less_trans)
  moreover have "g (i div 2) \<le> g j" if j: "2 \<le> i" "j < n" "j div 2 = i" for j
  proof -
    have "i < n" "j \<noteq> i" "i div 2 \<noteq> i" "i div 2 < n" using j by auto
    moreover have "f (i div 2) \<le> f i" using ord [of i] j by simp
    moreover have "f i \<le> f j" using ord [of j] j by auto
    ultimately show ?thesis using assms(4) j by simp
  qed
  ultimately show ?thesis by (simp add: down_at_def around_def)
qed

lemma Heap_TopDown_stays:
  assumes "1 \<le> i" and "\<And>c. c < length b \<Longrightarrow> c div 2 = i \<Longrightarrow> hprio b i < hprio b c"
  shows "Heap_TopDown i b = Some b"
proof -
  have "Heap_LeftChild i div 2 = i" "Heap_RightChild i div 2 = i" "Heap_LeftChild i < Heap_RightChild i"
    by (simp_all add: Heap_LeftChild_def Heap_RightChild_def)
  with assms show ?thesis
    by (subst Heap_TopDown.simps)
      (auto simp: Let_def Heap_IsBottom_def Heap_less Heap_Smallest_def Heap_top_down_last_def not_le)
qed

lemma HeapScheduler_Remove_spec:
  assumes "heap_inv t h" and "1 \<le> i" and "i < length h"
  shows "\<exists>g. HeapScheduler_Remove (h ! i) h = Some g \<and> set (tl g) = set (tl h) - {h ! i} \<and>
    (heap_inv t' g \<longleftrightarrow>
      \<not> (2 \<le> i \<and> i < length h - 1 \<and> Event_less (h ! (length h - 1)) (h ! (i div 2))))"
proof -
  obtain b where b: "HeapScheduler_Remove (h ! i) h = Heap_TopDown i b"
    "length b = length h - 1" "mset (tl b) = mset (tl h) - {#h ! i#}"
    "\<forall>j < length b. hprio b j = ((hprio h)(i := hprio h (length h - 1))) j"
    using Heap_Remove_swap [OF assms] by blast
  let ?n = "length b"
  have n: "length h = ?n + 1" using assms(3) b(2) by simp
  have ord: "ordered_heap (hprio h) (?n + 1)" using assms(1) n by (simp add: heap_inv_def)
  have d: "distinct (tl h)" "h ! i \<in> set (tl h)"
    using assms by (cases h; auto simp: heap_inv_def nth_Cons')+
  have rest: "set (tl g) = set (tl h) - {h ! i} \<and> distinct (tl g) \<and> events_ok (set (tl g))"
    if "mset (tl g) = mset (tl b)" for g :: HeapScheduler
  proof -
    have m: "mset (tl g) = mset (remove1 (h ! i) (tl h))" using that b(3) by simp
    have s: "set (tl g) = set (tl h) - {h ! i}" using mset_eq_setD [OF m] d by simp
    moreover have "distinct (tl g)" using mset_eq_imp_distinct_iff [OF m] d(1) by simp
    moreover have "events_ok (set (tl g))"
      unfolding s by (rule events_ok_subset [of "set (tl h)"]) (use assms(1) in \<open>auto simp: heap_inv_def\<close>)
    ultimately show ?thesis by blast
  qed
  have bne: "b \<noteq> []" using assms(2,3) b(2) by auto
  show ?thesis
  proof (cases "2 \<le> i \<and> i < ?n \<and> hprio h ?n < hprio h (i div 2)")
    case True
    have up: "hprio h (j div 2) \<le> hprio h j" if "2 \<le> j" "j < ?n" for j
      using ord that by (simp add: ordered_heap_def)
    have "hprio b i < hprio b c" if c: "c < ?n" "c div 2 = i" for c
    proof -
      have "hprio h (i div 2) \<le> hprio h i" "hprio h i \<le> hprio h c"
        using up [of i] up [of c] True c by auto
      moreover have "c \<noteq> i" using c True by auto
      ultimately show ?thesis using b(4) c(1) True n by simp
    qed
    then have "Heap_TopDown i b = Some b" by (rule Heap_TopDown_stays [OF assms(2)])
    moreover have "\<not> heap_inv t' b"
    proof
      assume "heap_inv t' b"
      then have "hprio b (i div 2) \<le> hprio b i" using True by (simp add: heap_inv_def ordered_heap_def)
      moreover have "i div 2 < ?n" "i div 2 \<noteq> i" using True by auto
      ultimately show False using b(4) True n by simp
    qed
    ultimately show ?thesis using True b(1) rest [OF refl] n by (simp add: Event_less_prio)
  next
    case False
    have "down_at (hprio b) ?n i"
      using False b(4) n by (intro down_at_prefix [OF ord assms(2)]) auto
    from Heap_TopDown_spec [OF assms(2) this] obtain g where
      g: "Heap_TopDown i b = Some g" "length g = ?n" "mset (tl g) = mset (tl b)"
        "ordered_heap (hprio g) (length g)" by blast
    have "g \<noteq> []" using g(2) bne by auto
    with rest [OF g(3)] g(4) have "heap_inv t' g" unfolding heap_inv_def by blast
    with False g b(1) rest [OF g(3)] n show ?thesis by (auto simp: Event_less_prio)
  qed
qed

end
