(* ===== verification/Calendar_Scheduler.thy ===== *)
theory Calendar_Scheduler
  imports Event_Scheduler
begin

text \<open>
  \<open>CalendarScheduler\<close> (src/core/model/calendar-scheduler.cc): a calendar queue. Time is cut into
  spans of \<open>m_width\<close>, and the events of a span go to the bucket with the number of the span
  modulo \<open>m_nBuckets\<close>. The search for the next event starts at the bucket of the last one and
  takes an event of the current year, or, after a year without one, the least of all buckets.
  The number and the width of the buckets follow the number of events. The function pointers
  that \<open>SetReverse\<close> chooses are conditionals on \<open>m_reverse\<close>.
\<close>

record CalendarScheduler =
  m_buckets :: "Event list list"
  m_nBuckets :: u32
  m_width :: u64
  m_lastBucket :: u32
  m_bucketTop :: u64
  m_lastPrio :: u64
  m_qSize :: u32
  m_reverse :: bool

definition Calendar_NextEvent :: "bool \<Rightarrow> Event list \<Rightarrow> Event" where
  "Calendar_NextEvent reverse bucket = (if reverse then last bucket else hd bucket)"

definition Calendar_Order :: "bool \<Rightarrow> EventKey \<Rightarrow> EventKey \<Rightarrow> bool" where
  "Calendar_Order reverse a b = (if reverse then EventKey_greater a b else EventKey_less a b)"

definition Calendar_Pop :: "bool \<Rightarrow> Event list \<Rightarrow> Event list" where
  "Calendar_Pop reverse bucket = (if reverse then butlast bucket else tl bucket)"

definition Calendar_SetReverse :: "bool \<Rightarrow> CalendarScheduler \<Rightarrow> CalendarScheduler" where
  "Calendar_SetReverse reverse q = q\<lparr>m_reverse := reverse\<rparr>"

definition Calendar_Hash :: "u64 \<Rightarrow> CalendarScheduler \<Rightarrow> u32" where
  "Calendar_Hash ts q = ucast ((ts div m_width q) mod ucast (m_nBuckets q))"

definition Calendar_Init :: "u32 \<Rightarrow> u64 \<Rightarrow> u64 \<Rightarrow> CalendarScheduler \<Rightarrow> CalendarScheduler" where
  "Calendar_Init nBuckets width startPrio q =
     (let q = q\<lparr>m_buckets := replicate (unat nBuckets) [], m_nBuckets := nBuckets,
                m_width := width, m_lastPrio := startPrio\<rparr>
      in q\<lparr>m_lastBucket := Calendar_Hash startPrio q,
            m_bucketTop := (startPrio div width + 1) * width\<rparr>)"

definition CalendarScheduler_make :: "bool \<Rightarrow> CalendarScheduler" where
  "CalendarScheduler_make reverse =
     Calendar_SetReverse reverse
       (Calendar_Init 2 1 0
         \<lparr>m_buckets = [], m_nBuckets = 0, m_width = 0, m_lastBucket = 0, m_bucketTop = 0,
          m_lastPrio = 0, m_qSize = 0, m_reverse = False\<rparr>)"

fun Calendar_insert_at :: "bool \<Rightarrow> Event \<Rightarrow> Event list \<Rightarrow> Event list" where
  "Calendar_insert_at reverse ev [] = [ev]"
| "Calendar_insert_at reverse ev (i # bucket) =
     (if Calendar_Order reverse (ev_key ev) (ev_key i) then ev # i # bucket
      else i # Calendar_insert_at reverse ev bucket)"

definition Calendar_DoInsert :: "Event \<Rightarrow> CalendarScheduler \<Rightarrow> CalendarScheduler" where
  "Calendar_DoInsert ev q =
     (let bucket = unat (Calendar_Hash (ev_ts ev) q) in
      q\<lparr>m_buckets := (m_buckets q)
           [bucket := Calendar_insert_at (m_reverse q) ev (m_buckets q ! bucket)]\<rparr>)"

definition Calendar_IsEmpty :: "CalendarScheduler \<Rightarrow> bool" where
  "Calendar_IsEmpty q \<longleftrightarrow> m_qSize q = 0"

text \<open>
  The loop that \<open>PeekNext\<close> and \<open>DoRemoveNext\<close> share: from bucket \<open>i\<close> on until it is back at
  \<open>m_lastBucket\<close>. It stops at an event of the current year, with the bucket and its top, or
  returns the bucket with the least event. One round per bucket is enough fuel.
\<close>

fun Calendar_scan ::
    "nat \<Rightarrow> u32 \<Rightarrow> u64 \<Rightarrow> EventKey \<Rightarrow> u32 option \<Rightarrow> CalendarScheduler \<Rightarrow>
      ((u32 \<times> u64 \<times> Event) + u32 option) option" where
  "Calendar_scan 0 i bucketTop minKey minBucket q = None"
| "Calendar_scan (Suc rounds) i bucketTop minKey minBucket q =
     (let bucket = m_buckets q ! unat i in
      if bucket \<noteq> [] \<and> ev_ts (Calendar_NextEvent (m_reverse q) bucket) < bucketTop
      then Some (Inl (i, bucketTop, Calendar_NextEvent (m_reverse q) bucket))
      else let (minKey, minBucket) =
                 (if bucket \<noteq> [] \<and>
                     EventKey_less (ev_key (Calendar_NextEvent (m_reverse q) bucket)) minKey
                  then (ev_key (Calendar_NextEvent (m_reverse q) bucket), Some i)
                  else (minKey, minBucket));
               i = (i + 1) mod m_nBuckets q
           in if i = m_lastBucket q then Some (Inr minBucket)
              else Calendar_scan rounds i (bucketTop + m_width q) minKey minBucket q)"

definition Calendar_PeekNext :: "CalendarScheduler \<Rightarrow> Event option" where
  "Calendar_PeekNext q =
     do {
       ensure (\<not> Calendar_IsEmpty q);
       let minKey = \<lparr>ek_ts = -1, ek_uid = -1, ek_context = 0\<rparr>;
       r \<leftarrow> Calendar_scan (unat (m_nBuckets q)) (m_lastBucket q) (m_bucketTop q) minKey None q;
       case r of
         Inl (i, bucketTop, next) \<Rightarrow> Some next
       | Inr None \<Rightarrow> Some \<lparr>ev_impl = 0, ev_key = minKey\<rparr>
       | Inr (Some i) \<Rightarrow> Some (Calendar_NextEvent (m_reverse q) (m_buckets q ! unat i))
     }"

definition Calendar_pop_bucket :: "u32 \<Rightarrow> CalendarScheduler \<Rightarrow> CalendarScheduler" where
  "Calendar_pop_bucket i q =
     q\<lparr>m_buckets := (m_buckets q)[unat i := Calendar_Pop (m_reverse q) (m_buckets q ! unat i)]\<rparr>"

definition Calendar_DoRemoveNext :: "CalendarScheduler \<Rightarrow> (Event \<times> CalendarScheduler) option" where
  "Calendar_DoRemoveNext q =
     do {
       ensure (\<not> Calendar_IsEmpty q);
       let minKey = \<lparr>ek_ts = -1, ek_uid = 0, ek_context = 0xffffffff\<rparr>;
       r \<leftarrow> Calendar_scan (unat (m_nBuckets q)) (m_lastBucket q) (m_bucketTop q) minKey None q;
       case r of
         Inl (i, bucketTop, next) \<Rightarrow>
           Some (next, Calendar_pop_bucket i
             (q\<lparr>m_lastBucket := i, m_lastPrio := ev_ts next, m_bucketTop := bucketTop\<rparr>))
       | Inr None \<Rightarrow> None
       | Inr (Some i) \<Rightarrow>
           let next = Calendar_NextEvent (m_reverse q) (m_buckets q ! unat i) in
           Some (next, Calendar_pop_bucket i
             (q\<lparr>m_lastBucket := Calendar_Hash (ev_ts next) q, m_lastPrio := ev_ts next,
                m_bucketTop := (ev_ts next div m_width q + 1) * m_width q\<rparr>))
     }"

section \<open>The width of the buckets\<close>

fun Calendar_gather :: "nat \<Rightarrow> CalendarScheduler \<Rightarrow> (Event list \<times> CalendarScheduler) option" where
  "Calendar_gather 0 q = Some ([], q)"
| "Calendar_gather (Suc k) q =
     do {
       (ev, q) \<leftarrow> Calendar_DoRemoveNext q;
       (samples, q) \<leftarrow> Calendar_gather k q;
       Some (ev # samples, q)
     }"

fun separations :: "Event list \<Rightarrow> u64 list" where
  "separations (cur # next # samples) = (ev_ts next - ev_ts cur) # separations (next # samples)"
| "separations _ = []"

definition Calendar_nSamples :: "u32 \<Rightarrow> u32" where
  "Calendar_nSamples qSize = min 25 (if qSize \<le> 5 then qSize else 5 + qSize div 10)"

definition Calendar_CalculateNewWidth ::
    "CalendarScheduler \<Rightarrow> (u64 \<times> CalendarScheduler) option" where
  "Calendar_CalculateNewWidth q =
     (if m_qSize q < 2 then Some (1, q)
      else do {
        let nSamples = Calendar_nSamples (m_qSize q);
        (samples, q') \<leftarrow> Calendar_gather (unat nSamples) q;
        let q' = fold Calendar_DoInsert samples q';
        let q' = q'\<lparr>m_lastBucket := m_lastBucket q, m_bucketTop := m_bucketTop q,
                    m_lastPrio := m_lastPrio q\<rparr>;
        let totalSeparation = sum_list (separations samples);
        let twiceAvg = totalSeparation div ucast (nSamples - 1) * 2;
        let totalSeparation = sum_list (filter (\<lambda>diff. diff \<le> twiceAvg) (separations samples));
        Some (max (totalSeparation * 3) 1, q')
      })"

definition Calendar_DoResize :: "u32 \<Rightarrow> u64 \<Rightarrow> CalendarScheduler \<Rightarrow> CalendarScheduler" where
  "Calendar_DoResize newSize newWidth q =
     fold Calendar_DoInsert (concat (m_buckets q)) (Calendar_Init newSize newWidth (m_lastPrio q) q)"

definition Calendar_Resize :: "u32 \<Rightarrow> CalendarScheduler \<Rightarrow> CalendarScheduler option" where
  "Calendar_Resize newSize q =
     do {
       (newWidth, q) \<leftarrow> Calendar_CalculateNewWidth q;
       Some (Calendar_DoResize newSize newWidth q)
     }"

definition Calendar_ResizeUp :: "CalendarScheduler \<Rightarrow> CalendarScheduler option" where
  "Calendar_ResizeUp q =
     (if m_qSize q > m_nBuckets q * 2 \<and> m_nBuckets q < 32768
      then Calendar_Resize (m_nBuckets q * 2) q else Some q)"

definition Calendar_ResizeDown :: "CalendarScheduler \<Rightarrow> CalendarScheduler option" where
  "Calendar_ResizeDown q =
     (if m_qSize q < m_nBuckets q div 2
      then Calendar_Resize (m_nBuckets q div 2) q else Some q)"

definition Calendar_Insert :: "Event \<Rightarrow> CalendarScheduler \<Rightarrow> CalendarScheduler option" where
  "Calendar_Insert ev q =
     (let q = Calendar_DoInsert ev q in Calendar_ResizeUp (q\<lparr>m_qSize := m_qSize q + 1\<rparr>))"

definition Calendar_RemoveNext :: "CalendarScheduler \<Rightarrow> (Event \<times> CalendarScheduler) option" where
  "Calendar_RemoveNext q =
     do {
       ensure (\<not> Calendar_IsEmpty q);
       (ev, q) \<leftarrow> Calendar_DoRemoveNext q;
       q \<leftarrow> Calendar_ResizeDown (q\<lparr>m_qSize := m_qSize q - 1\<rparr>);
       Some (ev, q)
     }"

fun Calendar_erase :: "Event \<Rightarrow> Event list \<Rightarrow> Event list option" where
  "Calendar_erase ev [] = None"
| "Calendar_erase ev (i # bucket) =
     (if ev_uid i = ev_uid ev then do { ensure (ev_impl ev = ev_impl i); Some bucket }
      else do { r \<leftarrow> Calendar_erase ev bucket; Some (i # r) })"

definition Calendar_Remove :: "Event \<Rightarrow> CalendarScheduler \<Rightarrow> CalendarScheduler option" where
  "Calendar_Remove ev q =
     do {
       ensure (\<not> Calendar_IsEmpty q);
       let bucket = unat (Calendar_Hash (ev_ts ev) q);
       b \<leftarrow> Calendar_erase ev (m_buckets q ! bucket);
       Calendar_ResizeDown
         (q\<lparr>m_buckets := (m_buckets q)[bucket := b], m_qSize := m_qSize q - 1\<rparr>)
     }"

definition Calendar_ops :: "CalendarScheduler scheduler" where
  "Calendar_ops =
     \<lparr>op_Insert = Calendar_Insert, op_IsEmpty = Calendar_IsEmpty,
      op_PeekNext = Calendar_PeekNext, op_RemoveNext = Calendar_RemoveNext,
      op_Remove = Calendar_Remove\<rparr>"

section \<open>Buckets\<close>

definition bucket_ok :: "bool \<Rightarrow> Event list \<Rightarrow> bool" where
  "bucket_ok reverse b \<longleftrightarrow> sorted_wrt (\<lambda>x y. Calendar_Order reverse (ev_key x) (ev_key y)) b"

lemma Order_prio: "Calendar_Order reverse (ev_key a) (ev_key b) \<longleftrightarrow>
    (if reverse then prio b < prio a else prio a < prio b)"
  by (simp add: Calendar_Order_def EventKey_greater_less key_prio_less)

lemma mset_insert_at: "mset (Calendar_insert_at reverse ev b) = add_mset ev (mset b)"
  by (induction b) auto

lemma bucket_ok_insert:
  assumes "bucket_ok reverse b" and "prio ev \<notin> prio ` set b"
  shows "bucket_ok reverse (Calendar_insert_at reverse ev b)"
  using assms
proof (induction b)
  case (Cons i b)
  have "set (Calendar_insert_at reverse ev b) = insert ev (set b)"
    using mset_eq_setD [OF mset_insert_at [of reverse ev b, folded mset.simps(2)]] by simp
  with Cons show ?case
    by (cases reverse) (auto simp: bucket_ok_def Order_prio dest: less_trans)
qed (simp add: bucket_ok_def)

lemma bucket_ok_next:
  assumes "bucket_ok reverse b" and "b \<noteq> []"
  shows "first_of (set b) (Calendar_NextEvent reverse b)"
    and "bucket_ok reverse (Calendar_Pop reverse b)"
    and "mset b = add_mset (Calendar_NextEvent reverse b) (mset (Calendar_Pop reverse b))"
proof -
  have "first_of (set b) (Calendar_NextEvent reverse b) \<and> bucket_ok reverse (Calendar_Pop reverse b) \<and>
    mset b = add_mset (Calendar_NextEvent reverse b) (mset (Calendar_Pop reverse b))"
  proof (cases reverse)
    case True
    obtain c x where "b = c @ [x]" using assms(2) by (cases b rule: rev_cases) auto
    with assms(1) True show ?thesis
      by (auto simp: bucket_ok_def Order_prio first_of_def Calendar_NextEvent_def Calendar_Pop_def
          sorted_wrt_append intro: less_imp_le)
  next
    case False
    with assms show ?thesis
      by (cases b) (auto simp: bucket_ok_def Order_prio first_of_def Calendar_NextEvent_def
          Calendar_Pop_def intro: less_imp_le)
  qed
  then show "first_of (set b) (Calendar_NextEvent reverse b)"
    and "bucket_ok reverse (Calendar_Pop reverse b)"
    and "mset b = add_mset (Calendar_NextEvent reverse b) (mset (Calendar_Pop reverse b))"
    by simp_all
qed

lemma Calendar_erase_spec:
  assumes "events_ok (set b)" and "ev \<in> set b"
  shows "Calendar_erase ev b = Some (remove1 ev b)"
  using assms
proof (induction b)
  case (Cons i b)
  have "ev_uid i = ev_uid ev \<longleftrightarrow> i = ev" using Cons.prems by (auto simp: uid_eq)
  moreover have "events_ok (set b)" using Cons.prems(1) by (rule events_ok_subset) auto
  ultimately show ?case using Cons by auto
qed simp

lemma bucket_ok_remove1: "bucket_ok reverse b \<Longrightarrow> bucket_ok reverse (remove1 ev b)"
proof (induction b)
  case (Cons i b)
  then show ?case using set_remove1_subset [of ev b] by (auto simp: bucket_ok_def)
qed simp

section \<open>The calendar\<close>

abbreviation calendar_events :: "CalendarScheduler \<Rightarrow> Event multiset" where
  "calendar_events q \<equiv> mset (concat (m_buckets q))"

abbreviation calendar_pending :: "CalendarScheduler \<Rightarrow> Event set" where
  "calendar_pending q \<equiv> set (concat (m_buckets q))"

text \<open>The number of the span an event belongs to.\<close>

definition span :: "CalendarScheduler \<Rightarrow> u64 \<Rightarrow> nat" where
  "span q ts = unat ts div unat (m_width q)"

definition buckets_ok :: "CalendarScheduler \<Rightarrow> bool" where
  "buckets_ok q \<longleftrightarrow> length (m_buckets q) = unat (m_nBuckets q) \<and> 0 < m_nBuckets q \<and> 0 < m_width q \<and>
     m_nBuckets q \<le> 65535 \<and>
     (\<forall>i < length (m_buckets q). bucket_ok (m_reverse q) (m_buckets q ! i) \<and>
        (\<forall>e \<in> set (m_buckets q ! i). unat (Calendar_Hash (ev_ts e) q) = i))"

definition cursor_ok :: "CalendarScheduler \<Rightarrow> bool" where
  "cursor_ok q \<longleftrightarrow> m_lastBucket q = Calendar_Hash (m_lastPrio q) q \<and>
     m_bucketTop q = (m_lastPrio q div m_width q + 1) * m_width q \<and>
     (\<forall>e \<in> calendar_pending q. m_lastPrio q \<le> ev_ts e)"

lemma unat_Hash:
  assumes "buckets_ok q"
  shows "unat (Calendar_Hash ts q) = span q ts mod unat (m_nBuckets q)"
proof -
  have n: "0 < unat (m_nBuckets q)" "unat (m_nBuckets q) < 2 ^ 32"
    using assms unsigned_less [of "m_nBuckets q"]
    by (simp_all add: buckets_ok_def word_less_nat_alt)
  have c: "unat (ucast (m_nBuckets q) :: u64) = unat (m_nBuckets q)"
    using n(2) by (simp add: unsigned_ucast_eq take_bit_nat_eq_self_iff)
  have "unat ((ts div m_width q) mod ucast (m_nBuckets q)) = span q ts mod unat (m_nBuckets q)"
    by (simp add: unat_mod unat_div c span_def)
  moreover have "span q ts mod unat (m_nBuckets q) < 2 ^ 32"
    using n mod_less_divisor [OF n(1)] by (meson less_trans)
  ultimately show ?thesis
    by (simp add: Calendar_Hash_def unsigned_ucast_eq take_bit_nat_eq_self)
qed

lemma Hash_less: "buckets_ok q \<Longrightarrow> unat (Calendar_Hash ts q) < length (m_buckets q)"
  by (simp add: unat_Hash) (simp add: buckets_ok_def word_less_nat_alt)

lemma mset_update_bucket:
  assumes "i < length bs" and "mset (bs ! i) + A = mset b + B"
  shows "mset (concat (bs[i := b])) + B = mset (concat bs) + A"
  using assms
proof (induction bs arbitrary: i)
  case (Cons x bs)
  show ?case
  proof (cases i)
    case 0
    with Cons.prems(2) have "mset x + A = mset b + B" by simp
    from arg_cong [OF this, of "\<lambda>m. m + mset (concat bs)"] 0 show ?thesis
      by (simp add: ac_simps)
  next
    case (Suc j)
    with Cons.IH [of j] Cons.prems have "mset (concat (bs[j := b])) + B = mset (concat bs) + A" by simp
    with Suc show ?thesis by (simp add: add.assoc)
  qed
qed simp

lemma calendar_update_simps [simp]:
  "Calendar_Hash ts (q\<lparr>m_buckets := bs\<rparr>) = Calendar_Hash ts q"
  "Calendar_Hash ts (q\<lparr>m_lastBucket := i\<rparr>) = Calendar_Hash ts q"
  "Calendar_Hash ts (q\<lparr>m_bucketTop := tp\<rparr>) = Calendar_Hash ts q"
  "Calendar_Hash ts (q\<lparr>m_lastPrio := t\<rparr>) = Calendar_Hash ts q"
  "Calendar_Hash ts (q\<lparr>m_qSize := k\<rparr>) = Calendar_Hash ts q"
  "buckets_ok (q\<lparr>m_lastBucket := i\<rparr>) = buckets_ok q"
  "buckets_ok (q\<lparr>m_bucketTop := tp\<rparr>) = buckets_ok q"
  "buckets_ok (q\<lparr>m_lastPrio := t\<rparr>) = buckets_ok q"
  "buckets_ok (q\<lparr>m_qSize := k\<rparr>) = buckets_ok q"
  "cursor_ok (q\<lparr>m_qSize := k\<rparr>) = cursor_ok q"
  by (simp_all add: Calendar_Hash_def buckets_ok_def cursor_ok_def)

lemma bucket_subset: "i < length bs \<Longrightarrow> set (bs ! i) \<subseteq> set (concat bs)"
  by (auto intro: nth_mem)

lemma pending_bucket:
  assumes "buckets_ok q" and "x \<in> calendar_pending q"
  shows "x \<in> set (m_buckets q ! unat (Calendar_Hash (ev_ts x) q))"
proof -
  from assms(2) obtain b where "b \<in> set (m_buckets q)" "x \<in> set b" by auto
  then obtain i where i: "i < length (m_buckets q)" "x \<in> set (m_buckets q ! i)"
    by (auto simp: in_set_conv_nth)
  with assms(1) have "unat (Calendar_Hash (ev_ts x) q) = i" by (simp add: buckets_ok_def)
  with i show ?thesis by simp
qed

text \<open>Replacing one bucket.\<close>

lemma buckets_ok_update:
  assumes "buckets_ok q" and "i < length (m_buckets q)" and "bucket_ok (m_reverse q) b"
    and "\<And>e. e \<in> set b \<Longrightarrow> unat (Calendar_Hash (ev_ts e) q) = i"
  shows "buckets_ok (q\<lparr>m_buckets := (m_buckets q)[i := b]\<rparr>)"
  using assms by (auto simp: buckets_ok_def nth_list_update)

lemma DoInsert_simps [simp]:
  "m_nBuckets (Calendar_DoInsert ev q) = m_nBuckets q"
  "m_width (Calendar_DoInsert ev q) = m_width q"
  "m_lastBucket (Calendar_DoInsert ev q) = m_lastBucket q"
  "m_bucketTop (Calendar_DoInsert ev q) = m_bucketTop q"
  "m_lastPrio (Calendar_DoInsert ev q) = m_lastPrio q"
  "m_qSize (Calendar_DoInsert ev q) = m_qSize q"
  "m_reverse (Calendar_DoInsert ev q) = m_reverse q"
  by (simp_all add: Calendar_DoInsert_def Let_def)

lemma DoInsert_ok:
  assumes "buckets_ok q" and "prio ev \<notin> prio ` calendar_pending q"
  shows "buckets_ok (Calendar_DoInsert ev q)"
    and "calendar_events (Calendar_DoInsert ev q) = add_mset ev (calendar_events q)"
proof -
  let ?i = "unat (Calendar_Hash (ev_ts ev) q)"
  let ?b = "Calendar_insert_at (m_reverse q) ev (m_buckets q ! ?i)"
  have i: "?i < length (m_buckets q)" using assms(1) by (rule Hash_less)
  have m: "mset ?b = add_mset ev (mset (m_buckets q ! ?i))" by (rule mset_insert_at)
  have set_b: "set ?b = insert ev (set (m_buckets q ! ?i))"
    using arg_cong [OF m, of set_mset] by simp
  have ok: "bucket_ok (m_reverse q) (m_buckets q ! ?i)"
    "\<And>e. e \<in> set (m_buckets q ! ?i) \<Longrightarrow> unat (Calendar_Hash (ev_ts e) q) = ?i"
    using assms(1) i by (auto simp: buckets_ok_def)
  have "bucket_ok (m_reverse q) ?b"
    using bucket_ok_insert [OF ok(1)] assms(2) bucket_subset [OF i] by blast
  then show "buckets_ok (Calendar_DoInsert ev q)"
    unfolding Calendar_DoInsert_def Let_def
    by (rule buckets_ok_update [OF assms(1) i]) (use ok(2) set_b in auto)
  have "mset (m_buckets q ! ?i) + {#ev#} = mset ?b + {#}" using m by simp
  from mset_update_bucket [OF i this]
  show "calendar_events (Calendar_DoInsert ev q) = add_mset ev (calendar_events q)"
    by (simp add: Calendar_DoInsert_def Let_def)
qed

lemma fold_DoInsert_ok:
  assumes "buckets_ok q" and "distinct es" and "set es \<inter> calendar_pending q = {}"
    and "events_ok (set es \<union> calendar_pending q)"
  shows "buckets_ok (fold Calendar_DoInsert es q) \<and>
    calendar_events (fold Calendar_DoInsert es q) = calendar_events q + mset es"
  using assms
proof (induction es arbitrary: q)
  case (Cons e es)
  have "prio e \<notin> prio ` calendar_pending q"
    using prio_inj [OF Cons.prems(4)] Cons.prems(3) by (auto simp: inj_on_def)
  note ins = DoInsert_ok [OF Cons.prems(1) this]
  have p: "calendar_pending (Calendar_DoInsert e q) = insert e (calendar_pending q)"
    using arg_cong [OF ins(2), of set_mset] by simp
  from Cons.IH [OF ins(1)] Cons.prems p ins(2) show ?case by auto
qed simp

lemma fold_DoInsert_simps [simp]:
  "m_nBuckets (fold Calendar_DoInsert es q) = m_nBuckets q"
  "m_width (fold Calendar_DoInsert es q) = m_width q"
  "m_lastBucket (fold Calendar_DoInsert es q) = m_lastBucket q"
  "m_bucketTop (fold Calendar_DoInsert es q) = m_bucketTop q"
  "m_lastPrio (fold Calendar_DoInsert es q) = m_lastPrio q"
  "m_qSize (fold Calendar_DoInsert es q) = m_qSize q"
  "m_reverse (fold Calendar_DoInsert es q) = m_reverse q"
  by (induction es arbitrary: q) simp_all

section \<open>The search\<close>

lemma round_arith:
  fixes a n j x :: nat
  assumes "a \<le> x" and "j < n" and "(x - a) mod n = j"
  shows "a + j \<le> x" and "x mod n = (a + j) mod n" and "x \<noteq> a + j \<Longrightarrow> a + n \<le> x"
proof -
  have x: "x = a + j + n * ((x - a) div n)"
    using assms(1,3) mod_mult_div_eq [of "x - a" n] by linarith
  then show "a + j \<le> x" by linarith
  from x show "x mod n = (a + j) mod n" by (metis mod_mult_self2)
  show "a + n \<le> x" if "x \<noteq> a + j"
  proof -
    have "0 < (x - a) div n" using x that by (cases "(x - a) div n") auto
    then have "n \<le> n * ((x - a) div n)" by simp
    with x show ?thesis by linarith
  qed
qed

text \<open>
  The top of a span, computed in 64 bits, tells whether an event that is not before the span
  is in it: for times below \<open>2^63\<close> the computation only wraps where no such event is.
\<close>

lemma top_test:
  assumes "k * w \<le> t" and "t < 2 ^ 63" and "0 < w" and "w < 2 ^ 64"
  shows "(word_of_nat t :: u64) < word_of_nat ((k + 1) * w) \<longleftrightarrow> t div w = k"
proof -
  have small: "(k + 1) * w < 2 ^ 64"
  proof (cases "k = 0")
    case False
    then have "w \<le> k * w" by simp
    moreover have "(k + 1) * w = k * w + w" by simp
    moreover have "(2 :: nat) ^ 64 = 2 ^ 63 + 2 ^ 63" by simp
    ultimately show ?thesis using assms(1,2) by linarith
  qed (use assms(4) in simp)
  have "t < (k + 1) * w \<longleftrightarrow> t div w = k"
  proof
    assume "t < (k + 1) * w"
    with assms(1,3) show "t div w = k"
      by (intro div_nat_eqI) (simp_all add: mult.commute)
  next
    assume "t div w = k"
    then show "t < (k + 1) * w" using assms(3) dividend_less_div_times [of w t] by simp
  qed
  moreover have "(word_of_nat t :: u64) < word_of_nat m \<longleftrightarrow> t < m" if "m < 2 ^ 64" for m
    using assms(2) that by (simp add: word_less_nat_alt unat_of_nat)
  ultimately show ?thesis using small by blast
qed

text \<open>The round of the search that looks at the bucket of an event.\<close>

definition round_of :: "CalendarScheduler \<Rightarrow> Event \<Rightarrow> nat" where
  "round_of q x = (span q (ev_ts x) - span q (m_lastPrio q)) mod unat (m_nBuckets q)"

text \<open>What holds after \<open>j\<close> rounds.\<close>

definition scanned :: "CalendarScheduler \<Rightarrow> nat \<Rightarrow> EventKey \<Rightarrow> u32 option \<Rightarrow> bool" where
  "scanned q j mk mb \<longleftrightarrow>
     (\<forall>x \<in> calendar_pending q. round_of q x < j \<longrightarrow>
        span q (m_lastPrio q) + unat (m_nBuckets q) \<le> span q (ev_ts x)) \<and>
     (case mb of
        None \<Rightarrow> \<forall>x \<in> calendar_pending q. \<not> round_of q x < j \<and> EventKey_less (ev_key x) mk
      | Some b \<Rightarrow> unat b < length (m_buckets q) \<and> m_buckets q ! unat b \<noteq> [] \<and>
          mk = ev_key (Calendar_NextEvent (m_reverse q) (m_buckets q ! unat b)) \<and>
          (\<forall>x \<in> calendar_pending q. round_of q x < j \<longrightarrow> key_prio mk \<le> prio x))"

definition found_next :: "CalendarScheduler \<Rightarrow> u32 \<Rightarrow> Event \<Rightarrow> bool" where
  "found_next q i e \<longleftrightarrow> unat i < length (m_buckets q) \<and> m_buckets q ! unat i \<noteq> [] \<and>
     e = Calendar_NextEvent (m_reverse q) (m_buckets q ! unat i) \<and> first_of (calendar_pending q) e"

definition search_result ::
    "CalendarScheduler \<Rightarrow> (u32 \<times> u64 \<times> Event) + u32 option \<Rightarrow> bool" where
  "search_result q r \<longleftrightarrow> (case r of
       Inl (i, tp, e) \<Rightarrow> found_next q i e \<and> i = Calendar_Hash (ev_ts e) q \<and>
         tp = (ev_ts e div m_width q + 1) * m_width q
     | Inr None \<Rightarrow> calendar_pending q = {}
     | Inr (Some i) \<Rightarrow> found_next q i (Calendar_NextEvent (m_reverse q) (m_buckets q ! unat i)))"

lemma span_mono: "t \<le> t' \<Longrightarrow> span q t \<le> span q t'"
  by (simp add: span_def div_le_mono word_le_nat_alt)

lemma span_less: "span q t < span q t' \<Longrightarrow> t < t'"
  using span_mono [of t' t q] by (meson leD not_le_imp_less)

lemma word_top: "(t div w + 1) * w = (word_of_nat ((unat t div unat w + 1) * unat w) :: u64)"
proof -
  have "t div w = word_of_nat (unat t div unat w)" by (metis unat_div of_nat_unat ucast_id)
  then show ?thesis by (simp add: algebra_simps)
qed

lemma next_index:
  assumes "unat i < unat n" and "n \<le> (65535 :: u32)"
  shows "unat ((i + 1) mod n) = (unat i + 1) mod unat n"
proof -
  have "unat i + 1 < 2 ^ 32" using assms by (simp add: word_le_nat_alt)
  then have "unat (i + 1) = unat i + 1" by (simp add: unat_word_ariths)
  then show ?thesis by (simp add: unat_mod)
qed

lemma mod_shift:
  fixes a x j n :: nat
  assumes "a \<le> x" and "j < n" and "x mod n = (a + j) mod n"
  shows "(x - a) mod n = j"
proof -
  obtain d where x: "x = a + d" using assms(1) le_Suc_ex by blast
  have "(int a + int d) mod int n = (int a + int j) mod int n"
    using arg_cong [OF assms(3), of int] by (simp add: x zmod_int)
  then have "int n dvd int d - int j" by (simp add: mod_eq_dvd_iff)
  then have "int d mod int n = int j mod int n" by (simp add: mod_eq_dvd_iff)
  then have "int (d mod n) = int (j mod n)" by (simp add: zmod_int)
  with x assms(2) show ?thesis by simp
qed

lemma Calendar_round:
  assumes "buckets_ok q" and "cursor_ok q" and "events_ok (calendar_pending q)"
    and "j < unat (m_nBuckets q)" and "unat i = (span q (m_lastPrio q) + j) mod unat (m_nBuckets q)"
  shows "set (m_buckets q ! unat i) = {x \<in> calendar_pending q. round_of q x = j}" (is ?rounds)
    and "x \<in> calendar_pending q \<Longrightarrow> span q (m_lastPrio q) + round_of q x \<le> span q (ev_ts x)"
    and "x \<in> calendar_pending q \<Longrightarrow> span q (ev_ts x) = span q (m_lastPrio q) + round_of q x \<or>
      span q (m_lastPrio q) + unat (m_nBuckets q) \<le> span q (ev_ts x)"
    and "x \<in> calendar_pending q \<Longrightarrow> round_of q x < unat (m_nBuckets q)"
proof -
  let ?n = "unat (m_nBuckets q)" and ?a = "span q (m_lastPrio q)"
  have n: "0 < ?n" using assms(1) by (simp add: buckets_ok_def word_less_nat_alt)
  have i: "unat i < length (m_buckets q)"
    using assms(1,5) n by (simp add: buckets_ok_def)
  have a: "?a \<le> span q (ev_ts x)" if "x \<in> calendar_pending q" for x
    using assms(2) that unfolding cursor_ok_def by (blast intro: span_mono)
  note hash = unat_Hash [OF assms(1)]
  show round: "x \<in> calendar_pending q \<Longrightarrow> round_of q x < ?n" for x
    using n by (simp add: round_of_def)
  note arith = round_arith [OF a round round_of_def [symmetric]]
  show "?a + round_of q x \<le> span q (ev_ts x)" if "x \<in> calendar_pending q" for x
    using arith(1) [OF that that] .
  show "span q (ev_ts x) = ?a + round_of q x \<or> ?a + ?n \<le> span q (ev_ts x)"
    if "x \<in> calendar_pending q" for x
    using arith(3) [OF that that] by blast
  show ?rounds
  proof (intro set_eqI iffI)
    fix x assume x: "x \<in> set (m_buckets q ! unat i)"
    then have p: "x \<in> calendar_pending q" using bucket_subset [OF i] by blast
    have "unat (Calendar_Hash (ev_ts x) q) = unat i"
      using assms(1) i x by (simp add: buckets_ok_def)
    then have "round_of q x = j"
      unfolding round_of_def using hash assms(5) by (intro mod_shift [OF a [OF p] assms(4)]) simp
    with p show "x \<in> {x \<in> calendar_pending q. round_of q x = j}" by simp
  next
    fix x assume "x \<in> {x \<in> calendar_pending q. round_of q x = j}"
    then have p: "x \<in> calendar_pending q" and r: "round_of q x = j" by simp_all
    then have "unat (Calendar_Hash (ev_ts x) q) = unat i"
      using arith(2) [OF p p] hash assms(5) by simp
    with pending_bucket [OF assms(1) p] show "x \<in> set (m_buckets q ! unat i)" by simp
  qed
qed

lemma span_test:
  assumes "buckets_ok q" and "k \<le> span q (ev_ts e)" and "unat (ev_ts e) < 2 ^ 63"
  shows "ev_ts e < word_of_nat ((k + 1) * unat (m_width q)) \<longleftrightarrow> span q (ev_ts e) = k"
proof -
  have w: "0 < unat (m_width q)" "unat (m_width q) < 2 ^ 64"
    using assms(1) unsigned_less [of "m_width q"] by (simp_all add: buckets_ok_def word_less_nat_alt)
  have "k * unat (m_width q) \<le> span q (ev_ts e) * unat (m_width q)"
    using assms(2) by (rule mult_le_mono1)
  also have "\<dots> \<le> unat (ev_ts e)" by (simp add: span_def)
  finally have "k * unat (m_width q) \<le> unat (ev_ts e)" .
  from top_test [OF this assms(3) w] show ?thesis by (simp add: span_def)
qed

lemma ts_before: "span q (ev_ts a) < span q (ev_ts b) \<Longrightarrow> prio a \<le> prio b"
  using span_less ts_prio by (blast intro: less_imp_le)

lemma first_bucket:
  assumes "buckets_ok q" and "i < length (m_buckets q)" and "m_buckets q ! i \<noteq> []"
  shows "first_of (set (m_buckets q ! i)) (Calendar_NextEvent (m_reverse q) (m_buckets q ! i))"
  using assms by (intro bucket_ok_next) (auto simp: buckets_ok_def)

text \<open>An event of the current year that the search meets is the next one.\<close>

lemma scan_found:
  assumes ok: "buckets_ok q" "cursor_ok q" "events_ok (calendar_pending q)"
    and j: "j < unat (m_nBuckets q)" "unat i = (span q (m_lastPrio q) + j) mod unat (m_nBuckets q)"
    and sc: "scanned q j mk mb" and ne: "m_buckets q ! unat i \<noteq> []"
    and year: "span q (ev_ts (Calendar_NextEvent (m_reverse q) (m_buckets q ! unat i))) =
      span q (m_lastPrio q) + j"
  shows "found_next q i (Calendar_NextEvent (m_reverse q) (m_buckets q ! unat i))"
proof -
  let ?e = "Calendar_NextEvent (m_reverse q) (m_buckets q ! unat i)"
  note round = Calendar_round [OF ok j]
  have i: "unat i < length (m_buckets q)"
    using ok(1) j by (simp add: buckets_ok_def)
  note first = first_bucket [OF ok(1) i ne]
  have "prio ?e \<le> prio x" if x: "x \<in> calendar_pending q" for x
  proof -
    consider "round_of q x < j" | "round_of q x = j" | "j < round_of q x" by linarith
    then show ?thesis
    proof cases
      case 1
      then have "span q (ev_ts ?e) < span q (ev_ts x)"
        using sc x j(1) year unfolding scanned_def by fastforce
      then show ?thesis by (rule ts_before)
    next
      case 2
      then show ?thesis using first x round(1) by (simp add: first_of_def)
    next
      case 3
      then have "span q (ev_ts ?e) < span q (ev_ts x)" using round(2) [OF x] year by linarith
      then show ?thesis by (rule ts_before)
    qed
  qed
  moreover have "?e \<in> calendar_pending q" using first round(1) by (auto simp: first_of_def)
  ultimately show ?thesis using i ne by (simp add: found_next_def first_of_def)
qed

text \<open>A bucket without an event of the current year.\<close>

lemma scan_on:
  assumes ok: "buckets_ok q" "cursor_ok q" "events_ok (calendar_pending q)"
    and j: "j < unat (m_nBuckets q)" "unat i = (span q (m_lastPrio q) + j) mod unat (m_nBuckets q)"
    and sc: "scanned q j mk mb"
    and year: "m_buckets q ! unat i \<noteq> [] \<Longrightarrow>
      span q (ev_ts (Calendar_NextEvent (m_reverse q) (m_buckets q ! unat i))) \<noteq>
      span q (m_lastPrio q) + j"
    and upd: "(if m_buckets q ! unat i \<noteq> [] \<and>
          EventKey_less (ev_key (Calendar_NextEvent (m_reverse q) (m_buckets q ! unat i))) mk
        then (ev_key (Calendar_NextEvent (m_reverse q) (m_buckets q ! unat i)), Some i)
        else (mk, mb)) = (mk', mb')"
  shows "scanned q (j + 1) mk' mb'"
proof -
  let ?b = "m_buckets q ! unat i" and ?e = "Calendar_NextEvent (m_reverse q) (m_buckets q ! unat i)"
  note round = Calendar_round [OF ok j]
  have i: "unat i < length (m_buckets q)"
    using ok(1) j by (simp add: buckets_ok_def)
  have later: "span q (m_lastPrio q) + unat (m_nBuckets q) \<le> span q (ev_ts x)"
    if x: "x \<in> calendar_pending q" "round_of q x < j + 1" for x
  proof (cases "round_of q x = j")
    case True
    with x(1) round(1) have xb: "x \<in> set ?b" by simp
    then have ne: "?b \<noteq> []" by auto
    note first = first_bucket [OF ok(1) i ne]
    then have e: "?e \<in> calendar_pending q" "round_of q ?e = j" using round(1) by (auto simp: first_of_def)
    with round(3) [OF e(1)] year [OF ne]
    have "span q (m_lastPrio q) + unat (m_nBuckets q) \<le> span q (ev_ts ?e)" by auto
    also have "\<dots> \<le> span q (ev_ts x)"
      using first xb by (intro span_mono prio_ts) (simp add: first_of_def)
    finally show ?thesis .
  next
    case False
    with x(2) have "round_of q x < j" by linarith
    with x(1) sc show ?thesis unfolding scanned_def by blast
  qed
  show ?thesis
  proof (cases "?b = []")
    case True
    then have "round_of q x \<noteq> j" if "x \<in> calendar_pending q" for x using round(1) that by auto
    then have "round_of q x < j + 1 \<longleftrightarrow> round_of q x < j" if "x \<in> calendar_pending q" for x
      using that by (metis less_Suc_eq Suc_eq_plus1)
    moreover have "mk' = mk" "mb' = mb" using True upd by auto
    ultimately show ?thesis using sc later unfolding scanned_def
      by (cases mb) (auto simp del: set_concat)
  next
    case False
    note first = first_bucket [OF ok(1) i False]
    have e: "?e \<in> calendar_pending q" using first round(1) by (auto simp: first_of_def)
    have least: "prio ?e \<le> prio x" if "x \<in> calendar_pending q" "round_of q x = j" for x
      using first round(1) that by (simp add: first_of_def)
    have step: "round_of q x = j \<or> round_of q x < j" if "round_of q x < j + 1" for x
      using that by linarith
    show ?thesis
    proof (cases "EventKey_less (ev_key ?e) mk")
      case True
      with upd False have u: "mk' = ev_key ?e" "mb' = Some i" by auto
      have "key_prio (ev_key ?e) \<le> prio x" if x: "x \<in> calendar_pending q" "round_of q x < j + 1" for x
        using step [OF x(2)]
      proof
        assume "round_of q x < j"
        with x(1) sc have "key_prio mk \<le> prio x" by (auto simp: scanned_def split: option.splits)
        with True show ?thesis by (simp add: key_prio_less [symmetric])
      qed (use least x in blast)
      with u later i False show ?thesis by (simp add: scanned_def)
    next
      case not_less: False
      with upd False have u: "mk' = mk" "mb' = mb" by auto
      have mb: "mb \<noteq> None" 
        using sc e not_less unfolding scanned_def by (cases mb) (auto simp del: set_concat)
      have "key_prio mk \<le> prio x" if x: "x \<in> calendar_pending q" "round_of q x < j + 1" for x
        using step [OF x(2)]
      proof
        assume "round_of q x = j"
        from least [OF x(1) this] not_less show ?thesis by (simp add: key_prio_less [symmetric])
      next
        assume "round_of q x < j"
        with x(1) sc mb show ?thesis by (auto simp: scanned_def)
      qed
      with u mb later sc show ?thesis by (auto simp: scanned_def)
    qed
  qed
qed

lemma Calendar_scan_spec:
  assumes ok: "buckets_ok q" "cursor_ok q" "events_ok (calendar_pending q)"
  shows "j + rounds = unat (m_nBuckets q) \<Longrightarrow> 0 < rounds \<Longrightarrow>
    unat i = (span q (m_lastPrio q) + j) mod unat (m_nBuckets q) \<Longrightarrow>
    tp = word_of_nat ((span q (m_lastPrio q) + j + 1) * unat (m_width q)) \<Longrightarrow>
    scanned q j mk mb \<Longrightarrow>
    \<exists>r. Calendar_scan rounds i tp mk mb q = Some r \<and> search_result q r"
proof (induction rounds arbitrary: j i tp mk mb)
  case (Suc rounds)
  let ?b = "m_buckets q ! unat i" and ?e = "Calendar_NextEvent (m_reverse q) (m_buckets q ! unat i)"
  let ?a = "span q (m_lastPrio q)" and ?n = "unat (m_nBuckets q)"
  have j: "j < ?n" using Suc.prems(1) by simp
  note round = Calendar_round [OF ok j Suc.prems(3)]
  have i: "unat i < length (m_buckets q)"
    using ok(1) j Suc.prems(3) by (simp add: buckets_ok_def)
  have test: "ev_ts ?e < tp \<longleftrightarrow> span q (ev_ts ?e) = ?a + j" if "?b \<noteq> []"
  proof -
    have e: "?e \<in> calendar_pending q" "round_of q ?e = j"
      using first_bucket [OF ok(1) i that] round(1) by (auto simp: first_of_def)
    have "unat (ev_ts ?e) < 2 ^ 63" using ok(3) e(1) unfolding events_ok_def by blast
    moreover have "?a + j \<le> span q (ev_ts ?e)" using round(2) [OF e(1)] e(2) by simp
    ultimately show ?thesis unfolding Suc.prems(4) by (intro span_test ok)
  qed
  show ?case
  proof (cases "?b \<noteq> [] \<and> ev_ts ?e < tp")
    case True
    with test have year: "span q (ev_ts ?e) = ?a + j" by blast
    have found: "found_next q i ?e"
      using scan_found [OF ok j Suc.prems(3,5) _ year] True by blast
    have "unat i = unat (Calendar_Hash (ev_ts ?e) q)"
      using unat_Hash [OF ok(1)] year Suc.prems(3) by simp
    moreover have "tp = (ev_ts ?e div m_width q + 1) * m_width q"
      unfolding word_top Suc.prems(4) year [symmetric] by (simp only: span_def)
    ultimately show ?thesis using True found
      by (simp add: search_result_def word_unat_eq_iff Let_def)
  next
    case False
    let ?i = "(i + 1) mod m_nBuckets q"
    obtain mk' mb' where upd: "(if ?b \<noteq> [] \<and> EventKey_less (ev_key ?e) mk
        then (ev_key ?e, Some i) else (mk, mb)) = (mk', mb')" by (rule prod.exhaust)
    have sc: "scanned q (j + 1) mk' mb'"
      using scan_on [OF ok j Suc.prems(3,5) _ upd] test False by blast
    have nB: "m_nBuckets q \<le> 65535" using ok(1) by (simp add: buckets_ok_def)
    have "unat i < ?n" using i ok(1) by (simp add: buckets_ok_def)
    from next_index [OF this nB] have ni: "unat ?i = (?a + (j + 1)) mod ?n"
      using Suc.prems(3) by (simp add: mod_Suc_eq)
    have last: "unat (m_lastBucket q) = ?a mod ?n"
      using ok(1,2) unat_Hash by (simp add: cursor_ok_def)
    have "?i = m_lastBucket q \<longleftrightarrow> rounds = 0"
    proof
      assume "?i = m_lastBucket q"
      then have "(?a + (j + 1)) mod ?n = ?a mod ?n" using ni last by simp
      then have "?n dvd j + 1" using mod_eq_dvd_iff_nat [of ?a "?a + (j + 1)" ?n] by simp
      then show "rounds = 0" using Suc.prems(1) dvd_imp_le [of ?n "j + 1"] by simp
    next
      assume "rounds = 0"
      then have "?a + (j + 1) = ?a + ?n" using Suc.prems(1) by simp
      with ni have "unat ?i = (?a + ?n) mod ?n" by (simp only:)
      with last have "unat ?i = unat (m_lastBucket q)" by simp
      then show "?i = m_lastBucket q" by (rule word_unat_eq_iff [THEN iffD2])
    qed
    moreover have "search_result q (Inr mb')" if "rounds = 0"
    proof -
      have all: "round_of q x < j + 1" if "x \<in> calendar_pending q" for x
        using round(4) [OF that] Suc.prems(1) \<open>rounds = 0\<close> by simp
      show ?thesis
      proof (cases mb')
        case None
        have "x \<notin> calendar_pending q" for x
          using sc None all [of x] unfolding scanned_def by (auto simp del: set_concat)
        then have "calendar_pending q = {}" by (metis equals0I)
        with None show ?thesis by (simp add: search_result_def)
      next
        case (Some b)
        with sc have b: "unat b < length (m_buckets q)" "m_buckets q ! unat b \<noteq> []"
          by (simp_all add: scanned_def)
        have "Calendar_NextEvent (m_reverse q) (m_buckets q ! unat b) \<in> calendar_pending q"
          using first_bucket [OF ok(1) b] bucket_subset [OF b(1)] by (auto simp: first_of_def)
        moreover have "key_prio mk' \<le> prio x" if "x \<in> calendar_pending q" for x
          using sc Some all [OF that] that unfolding scanned_def by (auto simp del: set_concat)
        moreover have "mk' = ev_key (Calendar_NextEvent (m_reverse q) (m_buckets q ! unat b))"
          using sc Some by (simp add: scanned_def)
        ultimately show ?thesis using Some b
          by (simp add: search_result_def found_next_def first_of_def del: set_concat)
      qed
    qed
    moreover have "\<exists>r. Calendar_scan rounds ?i (tp + m_width q) mk' mb' q = Some r \<and>
        search_result q r" if "rounds \<noteq> 0"
    proof (rule Suc.IH [OF _ _ ni _ sc])
      show "tp + m_width q = word_of_nat ((?a + (j + 1) + 1) * unat (m_width q))"
        by (simp add: Suc.prems(4) algebra_simps)
    qed (use Suc.prems(1) that in simp_all)
    ultimately show ?thesis using False upd by (auto simp: Let_def)
  qed
qed simp

text \<open>The start of the search, with either of the two initial keys.\<close>

lemma scan_start:
  assumes "events_ok (calendar_pending q)" and "ek_ts mk = -1"
  shows "scanned q 0 mk None"
proof -
  have "EventKey_less (ev_key x) mk" if "x \<in> calendar_pending q" for x
  proof -
    have "unat (ev_ts x) < 2 ^ 63" using assms(1) that unfolding events_ok_def by blast
    moreover have "unat (-1 :: u64) = 2 ^ 64 - 1" by (simp add: unsigned_minus_1_eq_mask mask_eq_exp_minus_1)
    ultimately have "ev_ts x < ek_ts mk" by (simp add: assms(2) word_less_nat_alt)
    then show ?thesis by (simp add: EventKey_less_def)
  qed
  then show ?thesis by (simp add: scanned_def del: set_concat)
qed

lemma Calendar_scan_total:
  assumes "buckets_ok q" and "cursor_ok q" and "events_ok (calendar_pending q)" and "ek_ts mk = -1"
  shows "\<exists>r. Calendar_scan (unat (m_nBuckets q)) (m_lastBucket q) (m_bucketTop q) mk None q = Some r \<and>
    search_result q r"
proof (rule Calendar_scan_spec [OF assms(1-3)])
  show "0 < unat (m_nBuckets q)" using assms(1) by (simp add: buckets_ok_def word_less_nat_alt)
  show "unat (m_lastBucket q) = (span q (m_lastPrio q) + 0) mod unat (m_nBuckets q)"
    using assms(1,2) by (simp add: cursor_ok_def unat_Hash)
  show "m_bucketTop q = word_of_nat ((span q (m_lastPrio q) + 0 + 1) * unat (m_width q))"
    using assms(2) by (simp add: cursor_ok_def word_top span_def)
  show "scanned q 0 mk None" using assms(3,4) by (rule scan_start)
qed simp

text \<open>Taking the event out.\<close>

lemma pop_bucket_ok:
  assumes "buckets_ok q" and "found_next q i e"
  shows "buckets_ok (Calendar_pop_bucket i q)"
    and "calendar_events q = add_mset e (calendar_events (Calendar_pop_bucket i q))"
proof -
  let ?b = "m_buckets q ! unat i"
  have i: "unat i < length (m_buckets q)" "?b \<noteq> []"
    and e: "e = Calendar_NextEvent (m_reverse q) ?b" using assms(2) by (simp_all add: found_next_def)
  have b: "bucket_ok (m_reverse q) ?b" "\<And>x. x \<in> set ?b \<Longrightarrow> unat (Calendar_Hash (ev_ts x) q) = unat i"
    using assms(1) i by (auto simp: buckets_ok_def)
  note nxt = bucket_ok_next [OF b(1) i(2)]
  have sub: "set (Calendar_Pop (m_reverse q) ?b) \<subseteq> set ?b"
    using arg_cong [OF nxt(3), of set_mset] by auto
  show "buckets_ok (Calendar_pop_bucket i q)"
    unfolding Calendar_pop_bucket_def
    by (rule buckets_ok_update [OF assms(1) i(1) nxt(2)]) (use b(2) sub in blast)
  have "mset ?b + {#} = mset (Calendar_Pop (m_reverse q) ?b) + {#e#}" using nxt(3) e by simp
  from mset_update_bucket [OF i(1) this]
  show "calendar_events q = add_mset e (calendar_events (Calendar_pop_bucket i q))"
    by (simp add: Calendar_pop_bucket_def)
qed

lemma pop_bucket_simps [simp]:
  "m_nBuckets (Calendar_pop_bucket i q) = m_nBuckets q"
  "m_width (Calendar_pop_bucket i q) = m_width q"
  "m_lastBucket (Calendar_pop_bucket i q) = m_lastBucket q"
  "m_bucketTop (Calendar_pop_bucket i q) = m_bucketTop q"
  "m_lastPrio (Calendar_pop_bucket i q) = m_lastPrio q"
  "m_qSize (Calendar_pop_bucket i q) = m_qSize q"
  "m_reverse (Calendar_pop_bucket i q) = m_reverse q"
  "Calendar_Hash ts (Calendar_pop_bucket i q) = Calendar_Hash ts q"
  by (simp_all add: Calendar_pop_bucket_def)

text \<open>What an operation on the buckets leaves as it is.\<close>

definition same_shape :: "CalendarScheduler \<Rightarrow> CalendarScheduler \<Rightarrow> bool" where
  "same_shape q q' \<longleftrightarrow> m_nBuckets q' = m_nBuckets q \<and> m_width q' = m_width q \<and>
     m_qSize q' = m_qSize q \<and> m_reverse q' = m_reverse q"

lemma DoRemoveNext_spec:
  assumes ok: "buckets_ok q" "cursor_ok q" "events_ok (calendar_pending q)"
    and "m_qSize q \<noteq> 0" and "calendar_pending q \<noteq> {}"
  shows "\<exists>e q'. Calendar_DoRemoveNext q = Some (e, q') \<and> first_of (calendar_pending q) e \<and>
    buckets_ok q' \<and> cursor_ok q' \<and> same_shape q q' \<and> m_lastPrio q' = ev_ts e \<and>
    calendar_events q = add_mset e (calendar_events q')"
proof -
  let ?mk = "\<lparr>ek_ts = -1, ek_uid = 0, ek_context = 0xffffffff\<rparr> :: EventKey"
  from Calendar_scan_total [OF ok, of ?mk] obtain r where
    r: "Calendar_scan (unat (m_nBuckets q)) (m_lastBucket q) (m_bucketTop q) ?mk None q = Some r"
      "search_result q r" by auto
  have taken: "first_of (calendar_pending q) e \<and> buckets_ok q' \<and> cursor_ok q' \<and> same_shape q q' \<and>
      m_lastPrio q' = ev_ts e \<and> calendar_events q = add_mset e (calendar_events q')"
    if f: "found_next q i e" and q': "q' = Calendar_pop_bucket i (q\<lparr>m_lastBucket := Calendar_Hash (ev_ts e) q,
      m_lastPrio := ev_ts e, m_bucketTop := (ev_ts e div m_width q + 1) * m_width q\<rparr>)" for i e q'
  proof -
    let ?q = "q\<lparr>m_lastBucket := Calendar_Hash (ev_ts e) q,
      m_lastPrio := ev_ts e, m_bucketTop := (ev_ts e div m_width q + 1) * m_width q\<rparr>"
    have "found_next ?q i e" using f unfolding found_next_def by auto
    note pop = pop_bucket_ok [OF _ this, simplified, OF ok(1), folded q']
    have first: "first_of (calendar_pending q) e" using f unfolding found_next_def by blast
    have "calendar_pending q = insert e (calendar_pending q')"
      using arg_cong [OF pop(2), of set_mset] by simp
    then have "ev_ts e \<le> ev_ts x" if "x \<in> calendar_pending q'" for x
      using first that prio_ts by (simp add: first_of_def del: set_concat)
    then have "cursor_ok q'" by (simp add: q' cursor_ok_def del: set_concat)
    with pop first show ?thesis by (simp add: q' same_shape_def del: set_concat)
  qed
  show ?thesis
  proof (cases r)
    case (Inl a)
    obtain i tp e where a: "a = (i, tp, e)" by (cases a)
    have f: "found_next q i e" "i = Calendar_Hash (ev_ts e) q"
      "tp = (ev_ts e div m_width q + 1) * m_width q"
      using r(2) by (auto simp: Inl a search_result_def)
    from taken [OF f(1) refl] r(1) assms(4) show ?thesis
      by (simp add: Calendar_DoRemoveNext_def Calendar_IsEmpty_def Inl a f(2,3) del: set_concat)
  next
    case (Inr a)
    with r(2) assms(5) obtain i where a: "a = Some i"
      by (cases a) (simp_all add: search_result_def)
    with r(2) Inr have f: "found_next q i (Calendar_NextEvent (m_reverse q) (m_buckets q ! unat i))"
      by (simp add: search_result_def)
    from taken [OF f refl] r(1) assms(4) show ?thesis
      by (simp add: Calendar_DoRemoveNext_def Calendar_IsEmpty_def Inr a Let_def del: set_concat)
  qed
qed

section \<open>The width and the number of buckets\<close>

lemma distinct_mset: "mset xs = mset ys \<Longrightarrow> distinct xs = distinct ys"
  by (rule mset_eq_imp_distinct_iff)

lemma Calendar_gather_spec:
  assumes "buckets_ok q" and "cursor_ok q" and "events_ok (calendar_pending q)" and "m_qSize q \<noteq> 0"
    and "k \<le> size (calendar_events q)" and "distinct (concat (m_buckets q))"
  shows "\<exists>es q'. Calendar_gather k q = Some (es, q') \<and> buckets_ok q' \<and> same_shape q q' \<and>
    calendar_events q = mset es + calendar_events q' \<and> length es = k"
  using assms
proof (induction k arbitrary: q)
  case (Suc k)
  have "calendar_pending q \<noteq> {}" using Suc.prems(5) by (cases "concat (m_buckets q)") (auto simp del: set_concat)
  from DoRemoveNext_spec [OF Suc.prems(1-4) this] obtain e q1 where
    q1: "Calendar_DoRemoveNext q = Some (e, q1)" "buckets_ok q1" "cursor_ok q1" "same_shape q q1"
      "calendar_events q = add_mset e (calendar_events q1)" by blast
  have "calendar_pending q1 \<subseteq> calendar_pending q"
    using arg_cong [OF q1(5), of set_mset] by auto
  with Suc.prems(3) have "events_ok (calendar_pending q1)" by (rule events_ok_subset)
  moreover have "distinct (concat (m_buckets q1))"
    using distinct_mset [of "concat (m_buckets q)" "e # concat (m_buckets q1)"] q1(5) Suc.prems(6) by simp
  moreover have "k \<le> size (calendar_events q1)" using Suc.prems(5) q1(5) by simp
  ultimately obtain es q' where "Calendar_gather k q1 = Some (es, q')" "buckets_ok q'" "same_shape q1 q'"
    "calendar_events q1 = mset es + calendar_events q'" "length es = k"
    using Suc.IH [of q1] q1 Suc.prems(4) by (auto simp: same_shape_def)
  with q1 show ?case by (simp add: same_shape_def)
qed (auto simp: same_shape_def)

lemma nSamples_le: "unat (Calendar_nSamples n) \<le> unat n"
proof -
  have "unat (5 + n div 10) \<le> unat n" if "\<not> n \<le> 5"
  proof -
    have "6 \<le> unat n" using that by (simp add: word_le_nat_alt)
    then have "5 + unat n div 10 \<le> unat n" by linarith
    moreover have "unat (5 + n div 10) \<le> 5 + unat (n div 10)"
      by (simp add: unat_word_ariths)
    ultimately show ?thesis by (simp add: unat_div)
  qed
  then show ?thesis by (auto simp: Calendar_nSamples_def min_def word_le_nat_alt)
qed

text \<open>A calendar with the events counted and no event twice.\<close>

definition calendar_ok :: "CalendarScheduler \<Rightarrow> bool" where
  "calendar_ok q \<longleftrightarrow> buckets_ok q \<and> cursor_ok q \<and> events_ok (calendar_pending q) \<and>
     distinct (concat (m_buckets q)) \<and> unat (m_qSize q) = size (calendar_events q)"

lemma CalculateNewWidth_spec:
  assumes "calendar_ok q"
  shows "\<exists>w q'. Calendar_CalculateNewWidth q = Some (w, q') \<and> 0 < w \<and> buckets_ok q' \<and>
    same_shape q q' \<and> calendar_events q' = calendar_events q \<and> m_lastPrio q' = m_lastPrio q"
proof (cases "m_qSize q < 2")
  case True
  with assms show ?thesis by (simp add: Calendar_CalculateNewWidth_def calendar_ok_def same_shape_def)
next
  case False
  then have n0: "m_qSize q \<noteq> 0" by auto
  note ok = assms [unfolded calendar_ok_def]
  have "unat (Calendar_nSamples (m_qSize q)) \<le> size (calendar_events q)"
    using nSamples_le ok by metis
  with ok n0 obtain es q1 where
    g: "Calendar_gather (unat (Calendar_nSamples (m_qSize q))) q = Some (es, q1)" "buckets_ok q1"
      "same_shape q q1" "calendar_events q = mset es + calendar_events q1"
    using Calendar_gather_spec [of q] by blast
  have p: "calendar_pending q = set es \<union> calendar_pending q1"
    using arg_cong [OF g(4), of set_mset] by simp
  have d: "distinct (es @ concat (m_buckets q1))"
    using distinct_mset [of "concat (m_buckets q)" "es @ concat (m_buckets q1)"] g(4) ok by simp
  then have "distinct es" "set es \<inter> calendar_pending q1 = {}" by (simp_all del: set_concat)
  from fold_DoInsert_ok [OF g(2) this] ok p
  have "buckets_ok (fold Calendar_DoInsert es q1)"
    "calendar_events (fold Calendar_DoInsert es q1) = calendar_events q" using g(4)
    by (simp_all add: add.commute del: set_concat)
  moreover have "0 < max x (1 :: u64)" for x
    by (metis max.strict_coboundedI2 word_gt_0 zero_neq_one)
  ultimately show ?thesis using False g(1,3)
    by (simp add: Calendar_CalculateNewWidth_def Let_def same_shape_def)
qed

lemma Calendar_Init_spec:
  assumes "0 < n" and "n \<le> 65535" and "0 < w"
  shows "buckets_ok (Calendar_Init n w t q)" and "concat (m_buckets (Calendar_Init n w t q)) = []"
    and "m_lastBucket (Calendar_Init n w t q) = Calendar_Hash t (Calendar_Init n w t q)"
    and "m_bucketTop (Calendar_Init n w t q) = (t div w + 1) * w"
    and "m_lastPrio (Calendar_Init n w t q) = t" and "m_qSize (Calendar_Init n w t q) = m_qSize q"
    and "m_width (Calendar_Init n w t q) = w" and "m_nBuckets (Calendar_Init n w t q) = n"
    and "m_reverse (Calendar_Init n w t q) = m_reverse q"
  using assms by (simp_all add: Calendar_Init_def Let_def buckets_ok_def bucket_ok_def)

lemma Calendar_Resize_spec:
  assumes "calendar_ok q" and "0 < n" and "n \<le> 65535"
  shows "\<exists>q'. Calendar_Resize n q = Some q' \<and> calendar_ok q' \<and>
    calendar_events q' = calendar_events q \<and> m_lastPrio q' = m_lastPrio q"
proof -
  from CalculateNewWidth_spec [OF assms(1)] obtain w q1 where
    q1: "Calendar_CalculateNewWidth q = Some (w, q1)" "0 < w" "buckets_ok q1" "same_shape q q1"
      "calendar_events q1 = calendar_events q" "m_lastPrio q1 = m_lastPrio q" by blast
  note ok = assms(1) [unfolded calendar_ok_def]
  let ?i = "Calendar_Init n w (m_lastPrio q1) q1" and ?es = "concat (m_buckets q1)"
  let ?q = "fold Calendar_DoInsert ?es ?i"
  note init = Calendar_Init_spec [OF assms(2,3) q1(2), of "m_lastPrio q1" q1]
  have same: "set ?es = calendar_pending q" "distinct ?es"
    using mset_eq_setD [OF q1(5)] distinct_mset [OF q1(5)] ok by (simp_all del: set_concat)
  have f: "buckets_ok ?q" "calendar_events ?q = calendar_events q"
    using fold_DoInsert_ok [OF init(1) same(2)] init(2) ok same(1) q1(5) by (simp_all del: set_concat)
  have p: "calendar_pending ?q = calendar_pending q" using mset_eq_setD [OF f(2)] .
  have "Calendar_Hash t ?q = Calendar_Hash t ?i" for t by (simp add: Calendar_Hash_def)
  then have "cursor_ok ?q"
    using init ok q1(6) p by (simp add: cursor_ok_def del: set_concat)
  moreover have "distinct (concat (m_buckets ?q))" using distinct_mset [OF f(2)] ok by simp
  ultimately have "calendar_ok ?q"
    using f p ok init(6) q1(4) by (simp add: calendar_ok_def same_shape_def del: set_concat)
  with q1 f init(5) show ?thesis by (simp add: Calendar_Resize_def Calendar_DoResize_def)
qed

lemma ResizeUp_spec:
  assumes "calendar_ok q"
  shows "\<exists>q'. Calendar_ResizeUp q = Some q' \<and> calendar_ok q' \<and>
    calendar_events q' = calendar_events q \<and> m_lastPrio q' = m_lastPrio q"
proof (cases "m_qSize q > m_nBuckets q * 2 \<and> m_nBuckets q < 32768")
  case True
  then have n: "unat (m_nBuckets q * 2) = unat (m_nBuckets q) * 2"
    by (simp add: unat_word_ariths word_less_nat_alt)
  have "0 < unat (m_nBuckets q)"
    using assms by (simp add: calendar_ok_def buckets_ok_def word_less_nat_alt)
  with True n have "0 < m_nBuckets q * 2" "m_nBuckets q * 2 \<le> 65535"
    by (simp_all add: word_less_nat_alt word_le_nat_alt)
  from Calendar_Resize_spec [OF assms this] True show ?thesis by (simp add: Calendar_ResizeUp_def)
next
  case False
  with assms show ?thesis unfolding Calendar_ResizeUp_def by (metis (no_types))
qed

lemma ResizeDown_spec:
  assumes "calendar_ok q"
  shows "\<exists>q'. Calendar_ResizeDown q = Some q' \<and> calendar_ok q' \<and>
    calendar_events q' = calendar_events q \<and> m_lastPrio q' = m_lastPrio q"
proof (cases "m_qSize q < m_nBuckets q div 2")
  case True
  then have "0 < m_nBuckets q div 2" by (metis word_gt_0 word_not_simps(1))
  moreover have "m_nBuckets q div 2 \<le> 65535"
  proof -
    have "unat (m_nBuckets q) \<le> 65535"
      using assms by (simp add: calendar_ok_def buckets_ok_def word_le_nat_alt)
    then show ?thesis by (simp add: word_le_nat_alt unat_div)
  qed
  ultimately show ?thesis using Calendar_Resize_spec [OF assms] True by (simp add: Calendar_ResizeDown_def)
next
  case False
  with assms show ?thesis by (simp add: Calendar_ResizeDown_def)
qed

section \<open>The contract\<close>

definition calendar_inv :: "u64 \<Rightarrow> CalendarScheduler \<Rightarrow> bool" where
  "calendar_inv t q \<longleftrightarrow> calendar_ok q \<and> m_lastPrio q \<le> t"

lemma calendar_pending_eq: "calendar_events q' = calendar_events q \<Longrightarrow> calendar_pending q' = calendar_pending q"
  by (rule mset_eq_setD)

lemma Calendar_Insert_spec:
  assumes "calendar_inv t q" and "insertable t (calendar_pending q) ev"
  shows "\<exists>q'. Calendar_Insert ev q = Some q' \<and> calendar_inv t q' \<and>
    calendar_pending q' = insert ev (calendar_pending q)"
proof -
  note ok = assms(1) [unfolded calendar_inv_def calendar_ok_def]
  have "prio ev \<notin> prio ` calendar_pending q"
    using assms(2) by (auto simp: insertable_def key_prio_eq image_iff simp del: set_concat)
  note ins = DoInsert_ok [OF _ this]
  let ?q = "(Calendar_DoInsert ev q)\<lparr>m_qSize := m_qSize q + 1\<rparr>"
  have e: "calendar_events ?q = add_mset ev (calendar_events q)" using ins ok by simp
  have p: "calendar_pending ?q = insert ev (calendar_pending q)"
    using arg_cong [OF e, of set_mset] by (simp del: set_concat)
  have "size (calendar_events q) = card (calendar_pending q)"
    using ok distinct_card by (metis size_mset)
  then have "unat (m_qSize q) + 1 < 2 ^ 32" using assms(2) ok by (simp add: insertable_def)
  then have n: "unat (m_qSize q + 1) = size (calendar_events ?q)"
    using e ok by (simp add: unat_word_ariths)
  have "ev \<notin> calendar_pending q" using assms(2) by (auto simp: insertable_def)
  then have d: "distinct (concat (m_buckets ?q))"
    using distinct_mset [of "concat (m_buckets ?q)" "ev # concat (m_buckets q)"] e ok by simp
  have "Calendar_Hash x ?q = Calendar_Hash x q" for x by (simp add: Calendar_Hash_def)
  moreover have "m_lastPrio q \<le> ev_ts ev" using ok assms(2) unfolding insertable_def by (meson order_trans)
  ultimately have "cursor_ok ?q"
    using ok p by (simp add: cursor_ok_def del: set_concat)
  moreover have "events_ok (calendar_pending ?q)"
    unfolding p using ok assms(2) by (intro events_ok_insert) simp_all
  ultimately have "calendar_ok ?q" using ins ok n d by (simp add: calendar_ok_def del: set_concat)
  from ResizeUp_spec [OF this] obtain q' where q': "Calendar_ResizeUp ?q = Some q'" "calendar_ok q'"
    "calendar_events q' = calendar_events ?q" "m_lastPrio q' = m_lastPrio ?q" by blast
  then show ?thesis
    using ok p calendar_pending_eq [OF q'(3)]
    by (simp add: Calendar_Insert_def Let_def calendar_inv_def del: set_concat)
qed

text \<open>One event less.\<close>

lemma calendar_less:
  assumes ok: "calendar_ok q" and "buckets_ok q1" and "cursor_ok q1"
    and e: "calendar_events q = add_mset e (calendar_events q1)" and n: "m_qSize q1 = m_qSize q"
  shows "\<exists>q'. Calendar_ResizeDown (q1\<lparr>m_qSize := m_qSize q1 - 1\<rparr>) = Some q' \<and> calendar_ok q' \<and>
    calendar_pending q' = calendar_pending q - {e} \<and> m_lastPrio q' = m_lastPrio q1"
proof -
  note ok = assms(1) [unfolded calendar_ok_def]
  let ?q = "q1\<lparr>m_qSize := m_qSize q1 - 1\<rparr>"
  have d: "distinct (e # concat (m_buckets q1))"
    using distinct_mset [of "concat (m_buckets q)" "e # concat (m_buckets q1)"] e ok by simp
  have p: "calendar_pending q = insert e (calendar_pending q1)"
    using arg_cong [OF e, of set_mset] by simp
  then have p1: "calendar_pending q1 = calendar_pending q - {e}" using d by auto
  have "0 < unat (m_qSize q)" using ok e by simp
  then have "unat (m_qSize q - 1) = unat (m_qSize q) - 1"
    by (simp add: unat_minus_one word_neq_0_conv word_less_nat_alt)
  then have "unat (m_qSize ?q) = size (calendar_events ?q)" using ok e n by simp
  moreover have "events_ok (calendar_pending q1)"
    using ok p by (auto intro: events_ok_subset simp del: set_concat)
  ultimately have "calendar_ok ?q" using assms(2,3) d by (simp add: calendar_ok_def del: set_concat)
  from ResizeDown_spec [OF this] obtain q' where q': "Calendar_ResizeDown ?q = Some q'" "calendar_ok q'"
    "calendar_events q' = calendar_events ?q" "m_lastPrio q' = m_lastPrio ?q" by blast
  then show ?thesis using p1 calendar_pending_eq [OF q'(3)] by (simp del: set_concat)
qed

lemma calendar_nonempty:
  assumes "calendar_ok q"
  shows "Calendar_IsEmpty q \<longleftrightarrow> calendar_pending q = {}"
  using assms by (auto simp: calendar_ok_def Calendar_IsEmpty_def word_unat_eq_iff)

lemma Calendar_RemoveNext_spec:
  assumes "calendar_inv t q" and "calendar_pending q \<noteq> {}"
  shows "\<exists>e q'. Calendar_RemoveNext q = Some (e, q') \<and> first_of (calendar_pending q) e \<and>
    calendar_inv (ev_ts e) q' \<and> calendar_pending q' = calendar_pending q - {e}"
proof -
  have ok: "calendar_ok q" using assms(1) by (simp add: calendar_inv_def)
  then have ne: "\<not> Calendar_IsEmpty q" using calendar_nonempty assms(2) by blast
  from ok ne assms(2) obtain e q1 where q1: "Calendar_DoRemoveNext q = Some (e, q1)"
    "first_of (calendar_pending q) e" "buckets_ok q1" "cursor_ok q1" "same_shape q q1"
    "m_lastPrio q1 = ev_ts e" "calendar_events q = add_mset e (calendar_events q1)"
    using DoRemoveNext_spec unfolding calendar_ok_def Calendar_IsEmpty_def by blast
  then have "m_qSize q1 = m_qSize q" by (simp add: same_shape_def)
  from calendar_less [OF ok q1(3,4,7) this] q1(1,2,6) ne show ?thesis
    by (auto simp: Calendar_RemoveNext_def calendar_inv_def simp del: set_concat)
qed

lemma Calendar_Remove_spec:
  assumes "calendar_inv t q" and "ev \<in> calendar_pending q"
  shows "\<exists>q'. Calendar_Remove ev q = Some q' \<and> calendar_inv t q' \<and>
    calendar_pending q' = calendar_pending q - {ev}"
proof -
  have cal: "calendar_ok q" using assms(1) by (simp add: calendar_inv_def)
  note ok = cal [unfolded calendar_ok_def]
  let ?i = "unat (Calendar_Hash (ev_ts ev) q)"
  let ?b = "m_buckets q ! ?i"
  let ?q1 = "q\<lparr>m_buckets := (m_buckets q)[?i := remove1 ev ?b]\<rparr>"
  have ne: "\<not> Calendar_IsEmpty q" using calendar_nonempty [OF cal] assms(2) by (metis empty_iff)
  have i: "?i < length (m_buckets q)" using ok by (simp add: Hash_less)
  have evb: "ev \<in> set ?b" using pending_bucket ok assms(2) by blast
  have b: "bucket_ok (m_reverse q) ?b" "\<And>x. x \<in> set ?b \<Longrightarrow> unat (Calendar_Hash (ev_ts x) q) = ?i"
    using ok i by (auto simp: buckets_ok_def)
  have "events_ok (set ?b)" using ok bucket_subset [OF i] by (blast intro: events_ok_subset)
  then have erase: "Calendar_erase ev ?b = Some (remove1 ev ?b)" using evb by (rule Calendar_erase_spec)
  have ok1: "buckets_ok ?q1"
  proof (rule buckets_ok_update [OF _ i bucket_ok_remove1 [OF b(1)]])
    show "unat (Calendar_Hash (ev_ts x) q) = ?i" if "x \<in> set (remove1 ev ?b)" for x
      using b(2) set_mp [OF set_remove1_subset that] .
  qed (use ok in blast)
  have "mset ?b + {#} = mset (remove1 ev ?b) + {#ev#}" using evb by simp
  from mset_update_bucket [OF i this]
  have e: "calendar_events q = add_mset ev (calendar_events ?q1)" by simp
  have sub: "calendar_pending ?q1 \<subseteq> calendar_pending q" using arg_cong [OF e, of set_mset] by auto
  then have "\<forall>e \<in> calendar_pending ?q1. m_lastPrio q \<le> ev_ts e"
    using ok unfolding cursor_ok_def by blast
  then have "cursor_ok ?q1" using ok by (simp add: cursor_ok_def del: set_concat)
  from calendar_less [OF cal ok1 this e] assms(1) ne erase show ?thesis
    by (auto simp: Calendar_Remove_def Let_def calendar_inv_def simp del: set_concat)
qed

lemma Calendar_PeekNext_spec:
  assumes "calendar_inv t q" and "calendar_pending q \<noteq> {}"
  shows "\<exists>e. Calendar_PeekNext q = Some e \<and> first_of (calendar_pending q) e"
proof -
  have cal: "calendar_ok q" using assms(1) by (simp add: calendar_inv_def)
  then have ne: "\<not> Calendar_IsEmpty q" using calendar_nonempty assms(2) by blast
  let ?mk = "\<lparr>ek_ts = -1, ek_uid = -1, ek_context = 0\<rparr> :: EventKey"
  have "ek_ts ?mk = -1" by simp
  from Calendar_scan_total [OF _ _ _ this] cal [unfolded calendar_ok_def] obtain r where
    r: "Calendar_scan (unat (m_nBuckets q)) (m_lastBucket q) (m_bucketTop q) ?mk None q = Some r"
      "search_result q r" by blast
  note peek = Calendar_PeekNext_def ne r(1) bind.bind_lunit ensure_simps Let_def
  show ?thesis
  proof (cases r)
    case (Inl a)
    obtain i tp e where a: "a = (i, tp, e)" by (cases a)
    from r(2) [unfolded Inl a search_result_def sum.case prod.case] have "found_next q i e" ..
    then have "first_of (calendar_pending q) e" unfolding found_next_def by blast
    then show ?thesis by (simp add: peek Inl a)
  next
    case (Inr a)
    with r(2) assms(2) obtain i where a: "a = Some i"
      by (cases a) (simp_all add: search_result_def)
    have "first_of (calendar_pending q) (Calendar_NextEvent (m_reverse q) (m_buckets q ! unat i))"
      using r(2) by (simp only: Inr a search_result_def sum.case option.case found_next_def)
    then show ?thesis by (simp add: peek Inr a)
  qed
qed

interpretation calendar_store: event_store Calendar_ops calendar_inv calendar_pending
proof
  fix t t' :: u64 and q ev
  assume inv: "calendar_inv t q"
  then have cal: "calendar_ok q" by (simp add: calendar_inv_def)
  show "events_ok (calendar_pending q)" using cal by (simp add: calendar_ok_def)
  show "calendar_inv t' q" if "t \<le> t'" using inv that by (auto simp: calendar_inv_def intro: order_trans)
  show "op_IsEmpty Calendar_ops q \<longleftrightarrow> calendar_pending q = {}"
    using calendar_nonempty [OF cal] by (simp add: Calendar_ops_def)
  show "\<exists>q'. op_Insert Calendar_ops ev q = Some q' \<and> calendar_inv t q' \<and>
      calendar_pending q' = insert ev (calendar_pending q)" if "insertable t (calendar_pending q) ev"
    using Calendar_Insert_spec [OF inv that] by (simp add: Calendar_ops_def)
  show "\<exists>e. op_PeekNext Calendar_ops q = Some e \<and> first_of (calendar_pending q) e"
    if "calendar_pending q \<noteq> {}"
    using Calendar_PeekNext_spec [OF inv that] by (simp add: Calendar_ops_def)
  show "\<exists>e q'. op_RemoveNext Calendar_ops q = Some (e, q') \<and> first_of (calendar_pending q) e \<and>
      calendar_inv (ev_ts e) q' \<and> calendar_pending q' = calendar_pending q - {e}"
    if "calendar_pending q \<noteq> {}"
    using Calendar_RemoveNext_spec [OF inv that] by (simp add: Calendar_ops_def)
  show "op_RemoveNext Calendar_ops q = None" if "calendar_pending q = {}"
    using calendar_nonempty [OF cal] that by (simp add: Calendar_ops_def Calendar_RemoveNext_def)
  show "\<exists>q'. op_Remove Calendar_ops ev q = Some q' \<and> calendar_inv t q' \<and>
      calendar_pending q' = calendar_pending q - {ev}" if "ev \<in> calendar_pending q"
    using Calendar_Remove_spec [OF inv that] by (simp add: Calendar_ops_def)
qed

lemma calendar_inv_make: "calendar_inv 0 (CalendarScheduler_make reverse)"
  and calendar_pending_make: "calendar_pending (CalendarScheduler_make reverse) = {}"
proof -
  have "unat (2 :: u32) = Suc (Suc 0)" by simp
  then have "replicate (unat (2 :: u32)) ([] :: Event list) = [[], []]" by (simp only: replicate.simps)
  then show "calendar_inv 0 (CalendarScheduler_make reverse)"
    and "calendar_pending (CalendarScheduler_make reverse) = {}"
    by (auto simp: CalendarScheduler_make_def Calendar_SetReverse_def Calendar_Init_def Let_def
        calendar_inv_def calendar_ok_def buckets_ok_def cursor_ok_def bucket_ok_def Calendar_Hash_def
        nth_Cons split: nat.splits)
qed

end
