(* ===== verification/Scheduler_Agreement.thy ===== *)
theory Scheduler_Agreement
  imports List_Scheduler Map_Scheduler Priority_Queue_Scheduler Heap_Scheduler Calendar_Scheduler
begin

text \<open>
  The schedulers of the simulator core compared: on every legal use they hand out the same
  events, but for the heap, whose \<open>Remove\<close> may break the order.
\<close>

section \<open>New containers\<close>

lemma list_make: "list_inv 0 ListScheduler_make" "set ListScheduler_make = {}"
  by (simp_all add: ListScheduler_make_def list_inv_def)

lemma map_make: "map_inv 0 MapScheduler_make" "map_pending MapScheduler_make = {}"
  by (simp_all add: MapScheduler_make_def map_inv_def)

lemma pq_make: "pq_inv 0 PriorityQueue_make" "pq_events PriorityQueue_make = {}"
  by (simp_all add: PriorityQueue_make_def pq_inv_def)

lemma heap_make: "heap_inv 0 HeapScheduler_make" "set (tl HeapScheduler_make) = {}"
  by (simp_all add: HeapScheduler_make_def heap_inv_def ordered_heap_def)

lemma sorted_events_empty: "E = {} \<Longrightarrow> sorted_events E []"
  by (simp add: sorted_events_def)

lemmas fresh_runs =
  list_store.run_refines [OF list_make(1) sorted_events_empty [OF list_make(2)]]
  map_store.run_refines [OF map_make(1) sorted_events_empty [OF map_make(2)]]
  pq_store.run_refines [OF pq_make(1) sorted_events_empty [OF pq_make(2)]]
  calendar_store.run_refines [OF calendar_inv_make sorted_events_empty [OF calendar_pending_make]]

section \<open>Agreement\<close>

abbreviation sample_event :: "u64 \<Rightarrow> u32 \<Rightarrow> Event" where
  "sample_event t u \<equiv> \<lparr>ev_impl = 0, ev_key = \<lparr>ek_ts = t, ek_uid = u, ek_context = 0\<rparr>\<rparr>"

text \<open>
  Property C8: the choice of the scheduler does not matter. A legal sequence of insertions,
  removals and requests for the next event gets the same answers from the calendar, whether it
  is stored in reverse or not, the map, the priority queue and the sorted list, and none fails.
\<close>

theorem schedulers_agree:
  assumes "legal 0 xs []"
  shows "sched_run Calendar_ops xs (CalendarScheduler_make reverse) =
      sched_run ListScheduler_ops xs ListScheduler_make \<and>
    sched_run MapScheduler_ops xs MapScheduler_make =
      sched_run ListScheduler_ops xs ListScheduler_make \<and>
    sched_run PriorityQueue_ops xs PriorityQueue_make =
      sched_run ListScheduler_ops xs ListScheduler_make \<and>
    sched_run ListScheduler_ops xs ListScheduler_make \<noteq> None"
  by (simp add: fresh_runs [OF assms])

theorem schedulers_agree_witness:
  "sched_run Calendar_ops
     [SInsert (sample_event 7 4), SInsert (sample_event 3 5), SInsert (sample_event 3 6),
      SRemoveNext, SRemove (sample_event 7 4), SPeekNext] (CalendarScheduler_make True) =
    Some [sample_event 3 5, sample_event 3 6]"
  using schedulers_agree [of "[SInsert (sample_event 7 4), SInsert (sample_event 3 5),
      SInsert (sample_event 3 6), SRemoveNext, SRemove (sample_event 7 4), SPeekNext]" True]
  by (simp add: key_prio_def ListScheduler_ops_def ListScheduler_Insert_def ListScheduler_make_def
      EventKey_less_def)

text \<open>
  Without the removal of given events the binary heap is a correct scheduler too:
  it hands out what the sorted list does.
\<close>

theorem heap_agrees_without_removal:
  assumes "legal 0 xs []" and "list_all keeps xs"
  shows "sched_run HeapScheduler_ops xs HeapScheduler_make =
      sched_run ListScheduler_ops xs ListScheduler_make \<and>
    sched_run HeapScheduler_ops xs HeapScheduler_make \<noteq> None"
  using heap_queue.run_without_removal [OF heap_make(1) sorted_events_empty [OF heap_make(2)] assms]
  by (simp add: fresh_runs [OF assms(1)])

theorem heap_agrees_without_removal_witness:
  "sched_run HeapScheduler_ops
     [SInsert (sample_event 7 4), SInsert (sample_event 3 5), SPeekNext, SRemoveNext, SRemoveNext]
     HeapScheduler_make = Some [sample_event 3 5, sample_event 3 5, sample_event 7 4]"
  using heap_agrees_without_removal [of "[SInsert (sample_event 7 4), SInsert (sample_event 3 5),
      SPeekNext, SRemoveNext, SRemoveNext]"]
  by (simp add: key_prio_def ListScheduler_ops_def ListScheduler_Insert_def ListScheduler_make_def
      EventKey_less_def)

text \<open>
  Property C36: when \<open>HeapScheduler::Remove\<close> keeps the heap. Of a heap in order it removes exactly the
  event, wherever it is, and the heap stays in order if and only if the last event, which takes
  its place and only sinks, is not before its new parent; otherwise later calls hand out events in
  the wrong order.
\<close>

theorem heap_removal_order:
  assumes "heap_inv t h" and "1 \<le> i" and "i < length h"
  shows "\<exists>g. HeapScheduler_Remove (h ! i) h = Some g \<and> set (tl g) = set (tl h) - {h ! i} \<and>
    (heap_inv t' g \<longleftrightarrow>
      \<not> (2 \<le> i \<and> i < length h - 1 \<and> Event_less (h ! (length h - 1)) (h ! (i div 2))))"
  using assms by (rule HeapScheduler_Remove_spec)

lemma sample_heap: "heap_inv 0 [sample_event 0 0, sample_event 1 4, sample_event 2 5]"
proof -
  have "2 \<le> i \<and> i < Suc (Suc (Suc 0)) \<longleftrightarrow> i = 2" for i :: nat by auto
  then show ?thesis by (simp add: heap_inv_def events_ok_def ordered_heap_def key_prio_def)
qed

theorem heap_removal_order_witness:
  "\<exists>g. HeapScheduler_Remove (sample_event 2 5)
      [sample_event 0 0, sample_event 1 4, sample_event 2 5] = Some g \<and> heap_inv 0 g"
  using heap_removal_order [OF sample_heap, of 2 0] by auto

definition heap_removal_use :: "sched_op list" where
  "heap_removal_use =
     map (\<lambda>(t, u). SInsert (sample_event t u))
       [(1, 4), (10, 5), (2, 6), (11, 7), (12, 8), (20, 9), (4, 10)] @
     [SRemove (sample_event 11 7), SRemoveNext, SRemoveNext, SRemoveNext, SRemoveNext]"

text \<open>
  The second case happens in legal uses of the scheduler: here the event at time 10 is handed out before the one at time 4.
\<close>

lemma heap_removal_breaks_order:
  "legal 0 heap_removal_use [] \<and>
   map_option (map ev_ts) (sched_run ListScheduler_ops heap_removal_use ListScheduler_make) =
     Some [1, 2, 4, 10] \<and>
   map_option (map ev_ts) (sched_run HeapScheduler_ops heap_removal_use HeapScheduler_make) =
     Some [1, 2, 10, 4]"
proof (intro conjI)
  show "legal 0 heap_removal_use []"
    by (simp add: heap_removal_use_def key_prio_def)
  show "map_option (map ev_ts) (sched_run ListScheduler_ops heap_removal_use ListScheduler_make) =
     Some [1, 2, 4, 10]" by code_simp
  show "map_option (map ev_ts) (sched_run HeapScheduler_ops heap_removal_use HeapScheduler_make) =
     Some [1, 2, 10, 4]" by code_simp
qed

end
