(* ===== verification/Simulator_Impl.thy ===== *)
theory Simulator_Impl
  imports Event_Scheduler
begin

text \<open>
  The event engine: \<open>DefaultSimulatorImpl\<close> (src/core/model/default-simulator-impl.cc) with
  \<open>EventId\<close> (event-id.cc, event-id.h) and the cancel flag of \<open>EventImpl\<close> (event-impl.cc). The
  engine works over any \<open>Scheduler\<close>, given as the record of its operations.

  An event implementation is a number, its \<open>Notify\<close> the sequence of calls of the engine it makes;
  a program is the function that gives these calls from the events invoked so far, which
  determine everything a deterministic program can have seen. Calls from other threads are a
  call of their own. Time is 64 bits: an addition of times that leaves \<^verbatim>\<open>int64_t\<close> is \<open>None\<close>, as
  is a failed assertion. Reference counts are left out.
\<close>

section \<open>Event ids\<close>

record EventId =
  id_impl :: "nat option"
  id_ts :: u64
  id_context :: u32
  id_uid :: u32

definition EventId_default :: EventId where
  "EventId_default = \<lparr>id_impl = None, id_ts = 0, id_context = 0, id_uid = 0\<rparr>"

definition UID_INVALID :: u32 where "UID_INVALID = 0"

definition UID_DESTROY :: u32 where "UID_DESTROY = 2"

definition UID_VALID :: u32 where "UID_VALID = 4"

section \<open>The state\<close>

record EventWithContext =
  ec_context :: u32
  ec_timestamp :: u64
  ec_event :: nat

text \<open>
  The members of the class, the cancel flags of the implementations, and three logs: the
  events invoked, the events inserted, and the ids returned to callers.
\<close>

record 'q sim =
  m_stop :: bool
  m_events :: 'q
  m_uid :: u32
  m_currentUid :: u32
  m_currentTs :: u64
  m_currentContext :: u32
  m_eventCount :: u64
  m_unscheduledEvents :: int
  m_eventsWithContext :: "EventWithContext list"
  m_eventsWithContextEmpty :: bool
  m_destroyEvents :: "EventId list"
  cancelled :: "nat \<Rightarrow> bool"
  invoked :: "Event list"
  inserted :: "Event list"
  issued :: "EventId list"

definition Sim_make :: "'q \<Rightarrow> 'q sim" where
  "Sim_make q =
     \<lparr>m_stop = False, m_events = q, m_uid = UID_VALID, m_currentUid = UID_INVALID,
      m_currentTs = 0, m_currentContext = 0xffffffff, m_eventCount = 0, m_unscheduledEvents = 0,
      m_eventsWithContext = [], m_eventsWithContextEmpty = True, m_destroyEvents = [],
      cancelled = (\<lambda>_. False), invoked = [], inserted = [], issued = []\<rparr>"

section \<open>Scheduling\<close>

text \<open>The part the scheduling functions share: the key, the id, the count, the insertion.\<close>

definition Sim_insert :: "'q scheduler \<Rightarrow> u64 \<Rightarrow> u32 \<Rightarrow> nat \<Rightarrow> 'q sim \<Rightarrow> 'q sim option" where
  "Sim_insert ops ts context impl s =
     (let ev = \<lparr>ev_impl = impl, ev_key = \<lparr>ek_ts = ts, ek_uid = m_uid s, ek_context = context\<rparr>\<rparr> in
      do {
        q \<leftarrow> op_Insert ops ev (m_events s);
        Some (s\<lparr>m_uid := m_uid s + 1, m_unscheduledEvents := m_unscheduledEvents s + 1,
                m_events := q, inserted := inserted s @ [ev]\<rparr>)
      })"

definition Sim_tAbsolute :: "time \<Rightarrow> 'q sim \<Rightarrow> u64 option" where
  "Sim_tAbsolute delay s =
     do {
       let t = delay + sint (m_currentTs s);
       ensure (- int64_max - 1 \<le> t \<and> t \<le> int64_max);
       Some (word_of_int t)
     }"

definition Sim_Schedule :: "'q scheduler \<Rightarrow> time \<Rightarrow> nat \<Rightarrow> 'q sim \<Rightarrow> 'q sim option" where
  "Sim_Schedule ops delay impl s =
     do {
       ensure (0 \<le> delay);
       ts \<leftarrow> Sim_tAbsolute delay s;
       let eid = \<lparr>id_impl = Some impl, id_ts = ts, id_context = m_currentContext s, id_uid = m_uid s\<rparr>;
       s \<leftarrow> Sim_insert ops ts (m_currentContext s) impl s;
       Some (s\<lparr>issued := issued s @ [eid]\<rparr>)
     }"

definition Sim_ScheduleNow :: "'q scheduler \<Rightarrow> nat \<Rightarrow> 'q sim \<Rightarrow> 'q sim option" where
  "Sim_ScheduleNow ops impl s = Sim_Schedule ops 0 impl s"

text \<open>\<open>ScheduleWithContext\<close> from the main thread, and from another one.\<close>

definition Sim_ScheduleWithContext ::
    "'q scheduler \<Rightarrow> u32 \<Rightarrow> time \<Rightarrow> nat \<Rightarrow> 'q sim \<Rightarrow> 'q sim option" where
  "Sim_ScheduleWithContext ops context delay impl s =
     do { ts \<leftarrow> Sim_tAbsolute delay s; Sim_insert ops ts context impl s }"

definition Sim_ScheduleFromThread :: "u32 \<Rightarrow> time \<Rightarrow> nat \<Rightarrow> 'q sim \<Rightarrow> 'q sim" where
  "Sim_ScheduleFromThread context delay impl s =
     s\<lparr>m_eventsWithContext := m_eventsWithContext s @
          [\<lparr>ec_context = context, ec_timestamp = word_of_int delay, ec_event = impl\<rparr>],
        m_eventsWithContextEmpty := False\<rparr>"

definition Sim_ProcessEventsWithContext :: "'q scheduler \<Rightarrow> 'q sim \<Rightarrow> 'q sim option" where
  "Sim_ProcessEventsWithContext ops s =
     (if m_eventsWithContextEmpty s then Some s
      else
        let eventsWithContext = m_eventsWithContext s;
            s = s\<lparr>m_eventsWithContext := [], m_eventsWithContextEmpty := True\<rparr>
        in fold_opt (\<lambda>e s. Sim_insert ops (m_currentTs s + ec_timestamp e) (ec_context e) (ec_event e) s)
             eventsWithContext s)"

definition Sim_ScheduleDestroy :: "nat \<Rightarrow> 'q sim \<Rightarrow> 'q sim" where
  "Sim_ScheduleDestroy impl s =
     (let eid = \<lparr>id_impl = Some impl, id_ts = m_currentTs s, id_context = 0xffffffff,
                id_uid = UID_DESTROY\<rparr>
      in s\<lparr>m_destroyEvents := m_destroyEvents s @ [eid], m_uid := m_uid s + 1,
            issued := issued s @ [eid]\<rparr>)"

section \<open>Cancelling\<close>

definition Sim_IsExpired :: "EventId \<Rightarrow> 'q sim \<Rightarrow> bool" where
  "Sim_IsExpired eid s \<longleftrightarrow>
     (case id_impl eid of
        None \<Rightarrow> True
      | Some impl \<Rightarrow>
          if id_uid eid = UID_DESTROY then cancelled s impl \<or> eid \<notin> set (m_destroyEvents s)
          else id_ts eid < m_currentTs s \<or>
            (id_ts eid = m_currentTs s \<and> id_uid eid \<le> m_currentUid s) \<or> cancelled s impl)"

definition Sim_GetDelayLeft :: "EventId \<Rightarrow> 'q sim \<Rightarrow> time" where
  "Sim_GetDelayLeft eid s =
     (if Sim_IsExpired eid s then 0 else sint (id_ts eid - m_currentTs s))"

definition Sim_cancel_impl :: "nat \<Rightarrow> 'q sim \<Rightarrow> 'q sim" where
  "Sim_cancel_impl impl s = s\<lparr>cancelled := (cancelled s)(impl := True)\<rparr>"

definition Sim_Cancel :: "EventId \<Rightarrow> 'q sim \<Rightarrow> 'q sim" where
  "Sim_Cancel eid s =
     (if \<not> Sim_IsExpired eid s then
        (case id_impl eid of None \<Rightarrow> s | Some impl \<Rightarrow> Sim_cancel_impl impl s)
      else s)"

definition Sim_Remove :: "'q scheduler \<Rightarrow> EventId \<Rightarrow> 'q sim \<Rightarrow> 'q sim option" where
  "Sim_Remove ops eid s =
     (if id_uid eid = UID_DESTROY then
        Some (s\<lparr>m_destroyEvents := remove1 eid (m_destroyEvents s)\<rparr>)
      else if Sim_IsExpired eid s then Some s
      else do {
        impl \<leftarrow> id_impl eid;
        let ev = \<lparr>ev_impl = impl,
                  ev_key = \<lparr>ek_ts = id_ts eid, ek_uid = id_uid eid, ek_context = id_context eid\<rparr>\<rparr>;
        q \<leftarrow> op_Remove ops ev (m_events s);
        Some (Sim_cancel_impl impl
          (s\<lparr>m_events := q, m_unscheduledEvents := m_unscheduledEvents s - 1\<rparr>))
      })"

definition Sim_Stop :: "'q sim \<Rightarrow> 'q sim" where
  "Sim_Stop s = s\<lparr>m_stop := True\<rparr>"

section \<open>Running\<close>

text \<open>
  The calls an event makes. An id is named by its place in the order in which the ids were
  returned; a place not reached yet is the default id, which is expired. \<open>Stop\<close> with a delay is
  \<open>CallSchedule\<close> of an event that calls \<open>Stop\<close>.
\<close>

datatype sim_call =
    CallSchedule time nat
  | CallScheduleNow nat
  | CallScheduleWithContext u32 time nat
  | CallScheduleFromThread u32 time nat
  | CallScheduleDestroy nat
  | CallCancel nat
  | CallRemove nat
  | CallStop

definition issued_id :: "nat \<Rightarrow> 'q sim \<Rightarrow> EventId" where
  "issued_id k s = (if k < length (issued s) then issued s ! k else EventId_default)"

fun do_call :: "'q scheduler \<Rightarrow> sim_call \<Rightarrow> 'q sim \<Rightarrow> 'q sim option" where
  "do_call ops (CallSchedule delay impl) s = Sim_Schedule ops delay impl s"
| "do_call ops (CallScheduleNow impl) s = Sim_ScheduleNow ops impl s"
| "do_call ops (CallScheduleWithContext context delay impl) s =
     Sim_ScheduleWithContext ops context delay impl s"
| "do_call ops (CallScheduleFromThread context delay impl) s =
     Some (Sim_ScheduleFromThread context delay impl s)"
| "do_call ops (CallScheduleDestroy impl) s = Some (Sim_ScheduleDestroy impl s)"
| "do_call ops (CallCancel k) s = Some (Sim_Cancel (issued_id k s) s)"
| "do_call ops (CallRemove k) s = Sim_Remove ops (issued_id k s) s"
| "do_call ops CallStop s = Some (Sim_Stop s)"

type_synonym program = "Event list \<Rightarrow> sim_call list"

text \<open>\<open>EventImpl::Invoke\<close>: a cancelled event does nothing.\<close>

definition Sim_Invoke :: "'q scheduler \<Rightarrow> program \<Rightarrow> Event \<Rightarrow> 'q sim \<Rightarrow> 'q sim option" where
  "Sim_Invoke ops prog ev s =
     (if cancelled s (ev_impl ev) then Some s
      else let s = s\<lparr>invoked := invoked s @ [ev]\<rparr> in
        fold_opt (do_call ops) (prog (invoked s)) s)"

definition Sim_ProcessOneEvent :: "'q scheduler \<Rightarrow> program \<Rightarrow> 'q sim \<Rightarrow> 'q sim option" where
  "Sim_ProcessOneEvent ops prog s =
     do {
       (next, q) \<leftarrow> op_RemoveNext ops (m_events s);
       ensure (m_currentTs s \<le> ev_ts next);
       let s = s\<lparr>m_events := q, m_unscheduledEvents := m_unscheduledEvents s - 1,
                 m_eventCount := m_eventCount s + 1, m_currentTs := ev_ts next,
                 m_currentContext := ek_context (ev_key next), m_currentUid := ev_uid next\<rparr>;
       s \<leftarrow> Sim_Invoke ops prog next s;
       Sim_ProcessEventsWithContext ops s
     }"

definition Sim_IsFinished :: "'q scheduler \<Rightarrow> 'q sim \<Rightarrow> bool" where
  "Sim_IsFinished ops s \<longleftrightarrow> op_IsEmpty ops (m_events s) \<or> m_stop s"

text \<open>The loop of \<open>Run\<close> may go on forever; then it has no result.\<close>

partial_function (option) Sim_loop :: "'q scheduler \<Rightarrow> program \<Rightarrow> 'q sim \<Rightarrow> 'q sim option" where
  "Sim_loop ops prog s =
     (if Sim_IsFinished ops s then Some s
      else do { s \<leftarrow> Sim_ProcessOneEvent ops prog s; Sim_loop ops prog s })"

definition Sim_Run :: "'q scheduler \<Rightarrow> program \<Rightarrow> 'q sim \<Rightarrow> 'q sim option" where
  "Sim_Run ops prog s =
     do {
       s \<leftarrow> Sim_ProcessEventsWithContext ops s;
       s \<leftarrow> Sim_loop ops prog (s\<lparr>m_stop := False\<rparr>);
       ensure (\<not> op_IsEmpty ops (m_events s) \<or> m_unscheduledEvents s = 0);
       Some s
     }"

text \<open>A simulation: the calls of \<open>main\<close> on a new engine, then \<open>Run\<close>.\<close>

definition simulate :: "'q scheduler \<Rightarrow> 'q \<Rightarrow> sim_call list \<Rightarrow> program \<Rightarrow> 'q sim option" where
  "simulate ops q setup prog =
     do { s \<leftarrow> fold_opt (do_call ops) setup (Sim_make q); Sim_Run ops prog s }"

section \<open>Changing the scheduler\<close>

partial_function (option) Sim_move :: "'p scheduler \<Rightarrow> 'q scheduler \<Rightarrow> 'p \<Rightarrow> 'q \<Rightarrow> 'q option" where
  "Sim_move old new p q =
     (if op_IsEmpty old p then Some q
      else do {
        (next, p) \<leftarrow> op_RemoveNext old p;
        q \<leftarrow> op_Insert new next q;
        Sim_move old new p q
      })"

text \<open>
  \<open>DoDispose\<close> empties the container; it is followed through the sequence of the events it
  releases.
\<close>

partial_function (option) Sim_drain :: "'q scheduler \<Rightarrow> 'q \<Rightarrow> Event list option" where
  "Sim_drain ops q =
     (if op_IsEmpty ops q then Some []
      else do { (next, q) \<leftarrow> op_RemoveNext ops q; es \<leftarrow> Sim_drain ops q; Some (next # es) })"

definition Sim_DoDispose :: "'q scheduler \<Rightarrow> 'q sim \<Rightarrow> Event list option" where
  "Sim_DoDispose ops s =
     do { s \<leftarrow> Sim_ProcessEventsWithContext ops s; Sim_drain ops (m_events s) }"

section \<open>The destroy events\<close>

text \<open>
  \<open>Destroy\<close> invokes the implementations scheduled for the end, \<open>calls\<close> gives what each of them
  calls; the result is the sequence of the invoked ones and the state. An implementation that
  schedules itself again keeps the loop going forever.
\<close>

partial_function (option) Sim_Destroy ::
    "'q scheduler \<Rightarrow> (nat \<Rightarrow> sim_call list) \<Rightarrow> 'q sim \<Rightarrow> (nat list \<times> 'q sim) option" where
  "Sim_Destroy ops calls s =
     (case m_destroyEvents s of
        [] \<Rightarrow> Some ([], s)
      | eid # rest \<Rightarrow>
          do {
            impl \<leftarrow> id_impl eid;
            let s = s\<lparr>m_destroyEvents := rest\<rparr>;
            (if cancelled s impl then Sim_Destroy ops calls s
             else do {
               s \<leftarrow> fold_opt (do_call ops) (calls impl) s;
               (impls, s) \<leftarrow> Sim_Destroy ops calls s;
               Some (impl # impls, s)
             })
          })"

section \<open>The states of a simulation\<close>

text \<open>
  Calls of a program that stays in its thread and never schedules into the past; the other
  functions check that themselves.
\<close>

fun call_ok :: "sim_call \<Rightarrow> bool" where
  "call_ok (CallScheduleWithContext context delay impl) = (0 \<le> delay)"
| "call_ok (CallScheduleFromThread context delay impl) = False"
| "call_ok _ = True"

text \<open>
  The steps of any program in the thread of the simulation: a call, the start of \<open>Run\<close>, and the
  next event of \<open>ProcessOneEvent\<close> in two moves: the clock moves to the event, then the event is
  entered in the log, unless it was cancelled. What the event does are calls again.
\<close>

definition begin_event :: "Event \<Rightarrow> 'q \<Rightarrow> 'q sim \<Rightarrow> 'q sim" where
  "begin_event nx q s = s\<lparr>m_events := q, m_unscheduledEvents := m_unscheduledEvents s - 1,
     m_eventCount := m_eventCount s + 1, m_currentTs := ev_ts nx,
     m_currentContext := ek_context (ev_key nx), m_currentUid := ev_uid nx\<rparr>"

definition enter_event :: "Event \<Rightarrow> 'q sim \<Rightarrow> 'q sim" where
  "enter_event nx s = (if cancelled s (ev_impl nx) then s else s\<lparr>invoked := invoked s @ [nx]\<rparr>)"

inductive sim_step :: "'q scheduler \<Rightarrow> 'q sim \<Rightarrow> 'q sim \<Rightarrow> bool" for ops where
  call: "call_ok c \<Longrightarrow> do_call ops c s = Some s' \<Longrightarrow> sim_step ops s s'"
| run: "sim_step ops s (s\<lparr>m_stop := False\<rparr>)"
| event: "\<not> op_IsEmpty ops (m_events s) \<Longrightarrow> op_RemoveNext ops (m_events s) = Some (nx, q) \<Longrightarrow>
    m_currentTs s \<le> ev_ts nx \<Longrightarrow> sim_step ops s (enter_event nx (begin_event nx q s))"

abbreviation sim_steps :: "'q scheduler \<Rightarrow> 'q sim \<Rightarrow> 'q sim \<Rightarrow> bool" where
  "sim_steps ops \<equiv> (sim_step ops)\<^sup>*\<^sup>*"

inductive_cases sim_stepE: "sim_step ops s s'"

section \<open>The invariant of the engine\<close>

text \<open>
  The number of event ids handed out; as long as it fits into 32 bits they are all different.
\<close>

definition uids_used :: "'q sim \<Rightarrow> nat" where
  "uids_used s = 4 + length (inserted s) + length (filter (\<lambda>i. id_uid i = UID_DESTROY) (issued s))"

text \<open>The key of the running event, as a number.\<close>

definition cur_prio :: "'q sim \<Rightarrow> nat" where
  "cur_prio s = unat (m_currentTs s) * 2 ^ 32 + unat (m_currentUid s)"

definition names_event :: "EventId \<Rightarrow> Event \<Rightarrow> bool" where
  "names_event i e \<longleftrightarrow> id_impl i = Some (ev_impl e) \<and>
     ev_key e = \<lparr>ek_ts = id_ts i, ek_uid = id_uid i, ek_context = id_context i\<rparr>"

definition sim_ok :: "(u64 \<Rightarrow> 'q \<Rightarrow> bool) \<Rightarrow> ('q \<Rightarrow> Event set) \<Rightarrow> 'q sim \<Rightarrow> bool" where
  "sim_ok good pending s \<longleftrightarrow>
     good (m_currentTs s) (m_events s) \<and> unat (m_currentTs s) < 2 ^ 63 \<and>
     unat (m_uid s) = uids_used s \<and> unat (m_currentUid s) < uids_used s \<and>
     m_unscheduledEvents s = int (card (pending (m_events s))) \<and> m_eventsWithContextEmpty s \<and>
     (\<forall>e \<in> pending (m_events s). e \<in> set (inserted s) \<and> cur_prio s < prio e) \<and>
     (\<forall>e \<in> set (inserted s). 4 \<le> unat (ev_uid e) \<and> unat (ev_uid e) < uids_used s \<and>
        (e \<in> pending (m_events s) \<or> e \<in> set (invoked s) \<or> cancelled s (ev_impl e))) \<and>
     set (invoked s) \<subseteq> set (inserted s) \<and> sorted_wrt (\<lambda>a b. prio a < prio b) (invoked s) \<and>
     (\<forall>e \<in> set (invoked s). prio e \<le> cur_prio s) \<and>
     (\<forall>i \<in> set (issued s). id_uid i \<noteq> UID_DESTROY \<longrightarrow> (\<exists>e \<in> set (inserted s). names_event i e))"

lemma names_event_eq:
  assumes "names_event i e" and "id_impl i = Some impl"
  shows "e = \<lparr>ev_impl = impl,
    ev_key = \<lparr>ek_ts = id_ts i, ek_uid = id_uid i, ek_context = id_context i\<rparr>\<rparr>"
  using assms by (cases e) (simp add: names_event_def)

lemma sint_small:
  assumes "unat (t :: u64) < 2 ^ 63"
  shows "sint t = int (unat t)"
proof -
  have "int (unat t) < int (2 ^ 63)" using assms by (simp only: of_nat_less_iff)
  then have less: "int (unat t) < 2 ^ 63" by (simp only: of_nat_power of_nat_numeral)
  have "- (2 ^ 63) \<le> (0 :: int)" by simp
  also have "0 \<le> int (unat t)" by (rule of_nat_0_le_iff)
  finally have "signed_take_bit 63 (int (unat t)) = int (unat t)"
    using less by (rule signed_take_bit_int_eq_self)
  then show ?thesis by (simp add: sint_uint)
qed

lemma tAbsolute_later:
  assumes "unat (m_currentTs s) < 2 ^ 63" and "0 \<le> delay" and "Sim_tAbsolute delay s = Some ts"
  shows "m_currentTs s \<le> ts" and "unat ts < 2 ^ 63"
proof -
  have c: "sint (m_currentTs s) = int (unat (m_currentTs s))" using assms(1) by (rule sint_small)
  from assms(2,3) have t: "ts = word_of_int (delay + int (unat (m_currentTs s)))"
    "delay + int (unat (m_currentTs s)) \<le> int64_max"
    by (auto simp: Sim_tAbsolute_def c Let_def bind_eq_Some_conv)
  have "uint (word_of_int x :: u64) = x" if "0 \<le> x" "x \<le> int64_max" for x
    using that by (simp add: uint_word_of_int)
  from this [OF _ t(2), folded t(1)] have "uint ts = delay + int (unat (m_currentTs s))"
    using assms(2) by simp
  with t(2) assms(2) show "m_currentTs s \<le> ts" "unat ts < 2 ^ 63"
    by (simp_all add: word_le_nat_alt unat_eq_nat_uint [of ts] nat_less_iff le_nat_iff)
qed

end
