(* ===== verification/Simulator_Order.thy ===== *)
theory Simulator_Order
  imports Simulator_Impl
begin

text \<open>
  The engine over any container that meets the contract of \<open>Scheduler\<close>: the invariant of
  \<open>Simulator_Impl\<close> is kept by every call and by every event, as long as the 32-bit event ids
  last. It gives the order of events, that none is lost, and what an expired id is.
\<close>

named_theorems sim_simps \<open>fields that an operation of the engine keeps\<close>

lemma uids_used_simps [sim_simps]:
  "uids_used (s\<lparr>m_events := q\<rparr>) = uids_used s"
  "uids_used (s\<lparr>m_stop := b\<rparr>) = uids_used s"
  "uids_used (s\<lparr>m_uid := u\<rparr>) = uids_used s"
  "uids_used (s\<lparr>m_currentUid := u\<rparr>) = uids_used s"
  "uids_used (s\<lparr>m_currentTs := t\<rparr>) = uids_used s"
  "uids_used (s\<lparr>m_currentContext := u\<rparr>) = uids_used s"
  "uids_used (s\<lparr>m_eventCount := n\<rparr>) = uids_used s"
  "uids_used (s\<lparr>m_unscheduledEvents := k\<rparr>) = uids_used s"
  "uids_used (s\<lparr>m_destroyEvents := ds\<rparr>) = uids_used s"
  "uids_used (s\<lparr>cancelled := c\<rparr>) = uids_used s"
  "uids_used (s\<lparr>invoked := es\<rparr>) = uids_used s"
  "uids_used (s\<lparr>issued := ids\<rparr>) = 4 + length (inserted s) + length (filter (\<lambda>i. id_uid i = UID_DESTROY) ids)"
  by (simp_all add: uids_used_def)

lemma cur_prio_simps [sim_simps]:
  "cur_prio (s\<lparr>m_events := q\<rparr>) = cur_prio s"
  "cur_prio (s\<lparr>m_stop := b\<rparr>) = cur_prio s"
  "cur_prio (s\<lparr>m_uid := u\<rparr>) = cur_prio s"
  "cur_prio (s\<lparr>m_unscheduledEvents := k\<rparr>) = cur_prio s"
  "cur_prio (s\<lparr>m_destroyEvents := ds\<rparr>) = cur_prio s"
  "cur_prio (s\<lparr>cancelled := c\<rparr>) = cur_prio s"
  "cur_prio (s\<lparr>invoked := es\<rparr>) = cur_prio s"
  "cur_prio (s\<lparr>inserted := es\<rparr>) = cur_prio s"
  "cur_prio (s\<lparr>issued := ids\<rparr>) = cur_prio s"
  by (simp_all add: cur_prio_def)

lemma sim_ok_inserted:
  assumes "sim_ok good pending s" and "e \<in> set (inserted s)"
  shows "4 \<le> unat (ev_uid e) \<and> unat (ev_uid e) < uids_used s \<and>
    (e \<in> pending (m_events s) \<or> e \<in> set (invoked s) \<or> cancelled s (ev_impl e))"
  using assms by (simp add: sim_ok_def)

lemma sim_ok_invoked:
  assumes "sim_ok good pending s"
  shows "sorted_wrt (\<lambda>a b. prio a < prio b) (invoked s)" and "set (invoked s) \<subseteq> set (inserted s)"
    and "e \<in> set (invoked s) \<Longrightarrow> prio e \<le> cur_prio s"
  using assms by (simp_all add: sim_ok_def)

lemma uid_fits: "uids_used s + 1 < 2 ^ 32 \<Longrightarrow> unat (m_uid s) = uids_used s \<Longrightarrow>
    unat (m_uid s + 1) = uids_used s + 1"
  by (simp add: unat_word_ariths)

section \<open>One insertion\<close>

text \<open>The engine asks nothing of its container beyond the contract.\<close>

locale engine = event_store ops inv pending
  for ops :: "'q scheduler" and inv :: "u64 \<Rightarrow> 'q \<Rightarrow> bool" and pending :: "'q \<Rightarrow> Event set"
begin

abbreviation ok :: "'q sim \<Rightarrow> bool" where
  "ok \<equiv> sim_ok inv pending"

lemma ok_events: "ok s \<Longrightarrow> events_ok (pending (m_events s))"
  unfolding sim_ok_def by (blast intro: inv_events)

lemma pending_card:
  assumes "ok s"
  shows "card (pending (m_events s)) + 4 \<le> uids_used s"
proof -
  let ?E = "pending (m_events s)"
  have ev: "events_ok ?E" using assms by (rule ok_events)
  have "unat (ev_uid e) \<in> {4 ..< uids_used s}" if "e \<in> ?E" for e
    using assms that by (auto simp: sim_ok_def)
  then have "(\<lambda>e. unat (ev_uid e)) ` ?E \<subseteq> {4 ..< uids_used s}" by blast
  moreover have "inj_on (\<lambda>e. unat (ev_uid e)) ?E"
    using ev uid_eq unfolding inj_on_def by (metis word_unat_eq_iff)
  ultimately have "card ?E \<le> card {4 ..< uids_used s}"
    by (metis card_image card_mono finite_atLeastLessThan)
  then show ?thesis by (simp add: uids_used_def)
qed

lemma insert_ok:
  fixes ctxt :: u32 and impl :: nat
  assumes ok: "ok s" and fits: "uids_used s + 1 < 2 ^ 32"
    and ts: "m_currentTs s \<le> ts" "unat ts < 2 ^ 63"
  defines "ev \<equiv> \<lparr>ev_impl = impl, ev_key = \<lparr>ek_ts = ts, ek_uid = m_uid s, ek_context = ctxt\<rparr>\<rparr>"
  shows "\<exists>q. op_Insert ops ev (m_events s) = Some q \<and> pending q = insert ev (pending (m_events s)) \<and>
    Sim_insert ops ts ctxt impl s = Some (s\<lparr>m_uid := m_uid s + 1,
      m_unscheduledEvents := m_unscheduledEvents s + 1, m_events := q, inserted := inserted s @ [ev]\<rparr>) \<and>
    ok (s\<lparr>m_uid := m_uid s + 1,
      m_unscheduledEvents := m_unscheduledEvents s + 1, m_events := q, inserted := inserted s @ [ev]\<rparr>)"
proof -
  let ?E = "pending (m_events s)"
  note o = ok [unfolded sim_ok_def]
  have uid: "unat (ev_uid ev) = uids_used s" using o by (simp add: ev_def)
  have "ev_uid ev \<notin> ev_uid ` ?E"
  proof
    assume "ev_uid ev \<in> ev_uid ` ?E"
    then obtain e where "e \<in> ?E" "ev_uid e = ev_uid ev" by auto
    with o uid show False by fastforce
  qed
  then have "insertable (m_currentTs s) ?E ev"
    using ts fits pending_card [OF ok] by (simp add: insertable_def ev_def)
  from insert_law [OF _ this] o obtain q where
    q: "op_Insert ops ev (m_events s) = Some q" "inv (m_currentTs s) q" "pending q = insert ev ?E" by blast
  have ins: "Sim_insert ops ts ctxt impl s = Some (s\<lparr>m_uid := m_uid s + 1,
      m_unscheduledEvents := m_unscheduledEvents s + 1, m_events := q, inserted := inserted s @ [ev]\<rparr>)"
    using q(1) by (simp add: Sim_insert_def ev_def)
  have new: "ev \<notin> ?E" using o uid by fastforce
  have fin: "finite ?E" using ok_events [OF ok] by (simp add: events_ok_def)
  have "unat (m_currentTs s) * 2 ^ 32 \<le> unat ts * 2 ^ 32" using ts(1) by (simp add: word_le_nat_alt)
  moreover have "unat (m_currentUid s) < unat (m_uid s)" using o by simp
  ultimately have later: "cur_prio s < prio ev" by (simp add: cur_prio_def key_prio_def ev_def)
  have used: "4 \<le> uids_used s" by (simp add: uids_used_def)
  have mono: "unat (ev_uid e) < uids_used s + 1" if "e \<in> set (inserted s)" for e
    using o that by (simp add: less_Suc_eq)
  have "ok (s\<lparr>m_uid := m_uid s + 1, m_unscheduledEvents := m_unscheduledEvents s + 1,
      m_events := q, inserted := inserted s @ [ev]\<rparr>)"
    unfolding sim_ok_def
  proof (intro conjI)
    let ?s = "s\<lparr>m_uid := m_uid s + 1, m_unscheduledEvents := m_unscheduledEvents s + 1,
      m_events := q, inserted := inserted s @ [ev]\<rparr>"
    have u: "uids_used ?s = uids_used s + 1" by (simp add: uids_used_def)
    show "unat (m_uid ?s) = uids_used ?s" using u uid_fits [OF fits] o by simp
    show "unat (m_currentUid ?s) < uids_used ?s" using u o by simp
    show "m_unscheduledEvents ?s = int (card (pending (m_events ?s)))"
      using o q(3) new fin by simp
    show "\<forall>e \<in> pending (m_events ?s). e \<in> set (inserted ?s) \<and> cur_prio ?s < prio e"
      using o q(3) later by (auto simp: cur_prio_def)
    show "\<forall>e \<in> set (inserted ?s). 4 \<le> unat (ev_uid e) \<and> unat (ev_uid e) < uids_used ?s \<and>
        (e \<in> pending (m_events ?s) \<or> e \<in> set (invoked ?s) \<or> cancelled ?s (ev_impl e))"
      using o q(3) uid u used mono by auto
    show "\<forall>e \<in> set (invoked ?s). prio e \<le> cur_prio ?s" using o by (simp add: cur_prio_def)
    show "\<forall>i \<in> set (issued ?s). id_uid i \<noteq> UID_DESTROY \<longrightarrow>
        (\<exists>e \<in> set (inserted ?s). names_event i e)"
      using o by auto
  qed (use o q in auto)
  with q ins show ?thesis by blast
qed

end

section \<open>The calls of a program\<close>

lemma do_call_grows:
  assumes "do_call ops c s = Some s'"
  shows "uids_used s \<le> uids_used s'"
    and "call_ok c \<Longrightarrow> m_eventsWithContextEmpty s' = m_eventsWithContextEmpty s"
    and "cancelled s i \<Longrightarrow> cancelled s' i" and "invoked s' = invoked s"
    and "\<exists>es. inserted s' = inserted s @ es"
  using assms by (cases c; auto simp: Sim_Schedule_def Sim_ScheduleNow_def Sim_ScheduleWithContext_def
      Sim_ScheduleFromThread_def Sim_ScheduleDestroy_def Sim_Cancel_def Sim_cancel_impl_def
      Sim_Remove_def Sim_Stop_def Sim_insert_def Let_def uids_used_def bind_eq_Some_conv
      split: if_splits option.splits)+

lemma issued_id_cases: "issued_id k s = EventId_default \<or> issued_id k s \<in> set (issued s)"
  by (simp add: issued_id_def)

lemma default_expired: "Sim_IsExpired EventId_default s"
  by (simp add: Sim_IsExpired_def EventId_default_def)

lemma enter_begin_simps [sim_simps]:
  "uids_used (enter_event nx (begin_event nx q s)) = uids_used s"
  "m_eventsWithContextEmpty (enter_event nx (begin_event nx q s)) = m_eventsWithContextEmpty s"
  "cancelled (enter_event nx (begin_event nx q s)) = cancelled s"
  "inserted (enter_event nx (begin_event nx q s)) = inserted s"
  by (simp_all add: enter_event_def begin_event_def uids_used_def)

lemma step_grows:
  assumes "sim_step ops s s'"
  shows "uids_used s \<le> uids_used s'"
    and "m_eventsWithContextEmpty s' = m_eventsWithContextEmpty s"
    and "cancelled s i \<Longrightarrow> cancelled s' i"
  using assms by (auto elim!: sim_stepE dest: do_call_grows(1-3) simp: sim_simps)

context engine
begin

lemma insert_step:
  assumes "ok s" and "uids_used s + 1 < 2 ^ 32" and "m_currentTs s \<le> ts" and "unat ts < 2 ^ 63"
  obtains s' where "Sim_insert ops ts ctxt impl s = Some s'" and "ok s'"
    and "\<lparr>ev_impl = impl, ev_key = \<lparr>ek_ts = ts, ek_uid = m_uid s, ek_context = ctxt\<rparr>\<rparr> \<in> set (inserted s')"
  using insert_ok [OF assms, of impl ctxt] by fastforce

lemma schedule_ok:
  assumes ok: "ok s" and "0 \<le> delay" and ts: "Sim_tAbsolute delay s = Some ts"
    and fits: "uids_used s + 1 < 2 ^ 32"
  shows "\<exists>s'. Sim_Schedule ops delay impl s = Some s' \<and> ok s'"
proof -
  note o = ok [unfolded sim_ok_def]
  have later: "m_currentTs s \<le> ts" "unat ts < 2 ^ 63"
    using tAbsolute_later [OF _ assms(2) ts] o by blast+
  let ?ev = "\<lparr>ev_impl = impl, ev_key = \<lparr>ek_ts = ts, ek_uid = m_uid s, ek_context = m_currentContext s\<rparr>\<rparr>"
  let ?id = "\<lparr>id_impl = Some impl, id_ts = ts, id_context = m_currentContext s, id_uid = m_uid s\<rparr>"
  obtain s1 where
    s1: "Sim_insert ops ts (m_currentContext s) impl s = Some s1" "ok s1" "?ev \<in> set (inserted s1)"
    by (rule insert_step [OF ok fits later])
  have "4 \<le> unat (m_uid s)" using o by (simp add: uids_used_def)
  then have "m_uid s \<noteq> UID_DESTROY" by (auto simp: UID_DESTROY_def)
  moreover have "names_event ?id ?ev" by (simp add: names_event_def)
  ultimately have "ok (s1\<lparr>issued := issued s1 @ [?id]\<rparr>)"
    using s1(2,3) by (auto simp: sim_ok_def uids_used_def cur_prio_def)
  with s1(1) assms(2) ts show ?thesis by (simp add: Sim_Schedule_def Let_def)
qed

lemma with_context_ok:
  assumes ok: "ok s" and "0 \<le> delay" and ts: "Sim_tAbsolute delay s = Some ts"
    and fits: "uids_used s + 1 < 2 ^ 32"
  shows "\<exists>s'. Sim_ScheduleWithContext ops context delay impl s = Some s' \<and> ok s'"
proof -
  have later: "m_currentTs s \<le> ts" "unat ts < 2 ^ 63"
    using tAbsolute_later [OF _ assms(2) ts] ok by (auto simp: sim_ok_def)
  obtain s' where "Sim_insert ops ts context impl s = Some s'" "ok s'"
    by (rule insert_step [OF ok fits later])
  with ts show ?thesis by (simp add: Sim_ScheduleWithContext_def)
qed

text \<open>An id that has not expired names a pending event.\<close>

lemma live_id_pending:
  assumes ok: "ok s" and "i \<in> set (issued s)" and "id_uid i \<noteq> UID_DESTROY" and "names_event i e"
    and "e \<in> set (inserted s)"
  shows "Sim_IsExpired i s \<longleftrightarrow> e \<notin> pending (m_events s) \<or> cancelled s (ev_impl e)"
proof -
  note o = ok [unfolded sim_ok_def]
  have key: "id_ts i = ev_ts e" "id_uid i = ev_uid e" "id_impl i = Some (ev_impl e)"
    using assms(4) by (simp_all add: names_event_def)
  have "prio e \<le> cur_prio s \<longleftrightarrow>
      ev_ts e < m_currentTs s \<or> ev_ts e = m_currentTs s \<and> ev_uid e \<le> m_currentUid s"
    using key_prio_less [of "\<lparr>ek_ts = m_currentTs s, ek_uid = m_currentUid s, ek_context = 0\<rparr>" "ev_key e"]
    by (auto simp: EventKey_less_def key_prio_def cur_prio_def not_less [symmetric] split: if_splits)
  moreover have "e \<in> pending (m_events s) \<Longrightarrow> \<not> prio e \<le> cur_prio s" using o by auto
  moreover have "e \<notin> pending (m_events s) \<Longrightarrow> \<not> cancelled s (ev_impl e) \<Longrightarrow> prio e \<le> cur_prio s"
    using o assms(5) by blast
  ultimately show ?thesis using assms(3) key by (auto simp: Sim_IsExpired_def)
qed

lemma cancel_ok: "ok s \<Longrightarrow> ok (Sim_Cancel i s)"
  by (auto simp: Sim_Cancel_def Sim_cancel_impl_def sim_ok_def uids_used_def cur_prio_def
      split: option.splits)

lemma remove_live:
  assumes ok: "ok s" and mem: "i \<in> set (issued s)" and live: "id_uid i \<noteq> UID_DESTROY" "\<not> Sim_IsExpired i s"
  obtains e q where "names_event i e" and "e \<in> pending (m_events s)" and "inv (m_currentTs s) q"
    and "pending q = pending (m_events s) - {e}"
    and "int (card (pending q)) = int (card (pending (m_events s))) - 1"
    and "Sim_Remove ops i s = Some (Sim_cancel_impl (ev_impl e)
      (s\<lparr>m_events := q, m_unscheduledEvents := m_unscheduledEvents s - 1\<rparr>))"
proof -
  let ?E = "pending (m_events s)"
  obtain e where e: "e \<in> set (inserted s)" "names_event i e"
    using ok mem live(1) unfolding sim_ok_def by blast
  have p: "e \<in> ?E" using live_id_pending [OF ok mem live(1) e(2,1)] live(2) by blast
  have "inv (m_currentTs s) (m_events s)" using ok by (simp add: sim_ok_def)
  from remove_law [OF this p] obtain q where
    q: "op_Remove ops e (m_events s) = Some q" "inv (m_currentTs s) q" "pending q = ?E - {e}" by blast
  have impl: "id_impl i = Some (ev_impl e)" using e(2) by (simp add: names_event_def)
  have "Sim_Remove ops i s = Some (Sim_cancel_impl (ev_impl e)
      (s\<lparr>m_events := q, m_unscheduledEvents := m_unscheduledEvents s - 1\<rparr>))"
    using live impl q(1) names_event_eq [OF e(2) impl] by (simp add: Sim_Remove_def Let_def)
  moreover have "int (card (pending q)) = int (card ?E) - 1"
  proof -
    have fin: "finite ?E" using ok_events [OF ok] by (simp add: events_ok_def)
    then have "0 < card ?E" using p by (auto simp: card_gt_0_iff)
    then show ?thesis using p fin q(3) by (simp add: card_Diff_singleton of_nat_diff)
  qed
  ultimately show thesis using e(2) p q(2,3) by (intro that)
qed

lemma remove_ok:
  assumes ok: "ok s" and i: "i = EventId_default \<or> i \<in> set (issued s)"
  shows "\<exists>s'. Sim_Remove ops i s = Some s' \<and> ok s' \<and> uids_used s' = uids_used s"
proof (cases "id_uid i = UID_DESTROY \<or> Sim_IsExpired i s")
  case True
  moreover have "ok (s\<lparr>m_destroyEvents := remove1 i (m_destroyEvents s)\<rparr>)"
    using ok by (simp add: sim_ok_def uids_used_def cur_prio_def)
  ultimately show ?thesis using ok by (auto simp: Sim_Remove_def uids_used_def)
next
  case False
  with i have mem: "i \<in> set (issued s)" using default_expired by blast
  obtain e q where q: "inv (m_currentTs s) q" "pending q = pending (m_events s) - {e}"
    "int (card (pending q)) = int (card (pending (m_events s))) - 1"
    and rem: "Sim_Remove ops i s = Some (Sim_cancel_impl (ev_impl e)
      (s\<lparr>m_events := q, m_unscheduledEvents := m_unscheduledEvents s - 1\<rparr>))"
    by (rule remove_live [OF ok mem]) (use False in auto)
  note o = ok [unfolded sim_ok_def]
  let ?s = "Sim_cancel_impl (ev_impl e)
    (s\<lparr>m_events := q, m_unscheduledEvents := m_unscheduledEvents s - 1\<rparr>)"
  have "\<forall>x \<in> set (inserted s). 4 \<le> unat (ev_uid x) \<and> unat (ev_uid x) < uids_used s \<and>
      (x \<in> pending (m_events s) - {e} \<or> x \<in> set (invoked s) \<or> x = e \<or> cancelled s (ev_impl x))"
    using sim_ok_inserted [OF ok] by blast
  then have "ok ?s" using o q by (auto simp: Sim_cancel_impl_def sim_ok_def uids_used_def cur_prio_def)
  moreover have "uids_used ?s = uids_used s" by (simp add: Sim_cancel_impl_def uids_used_def)
  ultimately show ?thesis using rem by blast
qed

lemma do_call_ok:
  assumes ok: "ok s" and "call_ok c" and run: "do_call ops c s = Some s'" and fits: "uids_used s' < 2 ^ 32"
  shows "ok s'"
proof (cases c)
  case (CallSchedule delay impl)
  with run obtain ts where "0 \<le> delay" "Sim_tAbsolute delay s = Some ts"
    by (auto simp: Sim_Schedule_def bind_eq_Some_conv)
  moreover have "uids_used s + 1 \<le> uids_used s'"
    using run CallSchedule
    by (auto simp: Sim_Schedule_def Sim_insert_def Let_def uids_used_def bind_eq_Some_conv)
  ultimately obtain s1 where "Sim_Schedule ops delay impl s = Some s1" "ok s1"
    using schedule_ok [OF ok, of delay ts impl] fits by auto
  with run CallSchedule show ?thesis by simp
next
  case (CallScheduleNow impl)
  with run obtain ts where "Sim_tAbsolute 0 s = Some ts"
    by (auto simp: Sim_ScheduleNow_def Sim_Schedule_def bind_eq_Some_conv)
  moreover have "uids_used s + 1 \<le> uids_used s'"
    using run CallScheduleNow
    by (auto simp: Sim_ScheduleNow_def Sim_Schedule_def Sim_insert_def Let_def uids_used_def
        bind_eq_Some_conv)
  ultimately obtain s1 where "Sim_Schedule ops 0 impl s = Some s1" "ok s1"
    using schedule_ok [OF ok, of 0 ts impl] fits by auto
  with run CallScheduleNow show ?thesis by (simp add: Sim_ScheduleNow_def)
next
  case (CallScheduleWithContext ctxt delay impl)
  with run obtain ts where "Sim_tAbsolute delay s = Some ts"
    by (auto simp: Sim_ScheduleWithContext_def bind_eq_Some_conv)
  moreover have "uids_used s + 1 \<le> uids_used s'"
    using run CallScheduleWithContext
    by (auto simp: Sim_ScheduleWithContext_def Sim_insert_def Let_def uids_used_def bind_eq_Some_conv)
  ultimately obtain s1 where "Sim_ScheduleWithContext ops ctxt delay impl s = Some s1" "ok s1"
    using with_context_ok [OF ok, of delay ts ctxt impl] fits assms(2) CallScheduleWithContext by auto
  with run CallScheduleWithContext show ?thesis by simp
next
  case (CallScheduleDestroy impl)
  have s': "s' = Sim_ScheduleDestroy impl s" using run CallScheduleDestroy by simp
  then have u: "uids_used s' = uids_used s + 1"
    by (simp add: Sim_ScheduleDestroy_def uids_used_def Let_def)
  have "unat (m_uid s) = uids_used s" using ok by (simp add: sim_ok_def)
  then have "unat (m_uid s') = uids_used s'"
    using uid_fits [of s] fits u s' by (simp add: Sim_ScheduleDestroy_def Let_def)
  with ok u show ?thesis
    by (auto simp: s' Sim_ScheduleDestroy_def Let_def sim_ok_def cur_prio_def intro: less_SucI)
next
  case (CallRemove k)
  with remove_ok [OF ok issued_id_cases, of k] run show ?thesis by auto
next
  case (CallCancel k)
  with cancel_ok [OF ok] run show ?thesis by auto
next
  case CallStop
  with ok run show ?thesis by (auto simp: Sim_Stop_def sim_ok_def uids_used_def cur_prio_def)
qed (use assms(2) in simp)

section \<open>One event\<close>

lemma next_event_ok:
  assumes ok: "ok s" and ne: "\<not> op_IsEmpty ops (m_events s)"
  obtains nx q where "op_RemoveNext ops (m_events s) = Some (nx, q)" and "m_currentTs s \<le> ev_ts nx"
    and "first_of (pending (m_events s)) nx" and "pending q = pending (m_events s) - {nx}"
    and "ok (enter_event nx (begin_event nx q s))"
proof -
  note o = ok [unfolded sim_ok_def]
  let ?E = "pending (m_events s)"
  have good: "inv (m_currentTs s) (m_events s)" using o by simp
  then have "?E \<noteq> {}" using ne isEmpty_law by blast
  from remove_next_law [OF good this] obtain nx q where
    q: "op_RemoveNext ops (m_events s) = Some (nx, q)" "first_of ?E nx" "inv (ev_ts nx) q"
      "pending q = ?E - {nx}" by blast
  have nx: "nx \<in> ?E" "nx \<in> set (inserted s)" "cur_prio s < prio nx"
    using q(2) o by (auto simp: first_of_def)
  have evs: "events_ok ?E" using ok by (rule ok_events)
  have "prio \<lparr>ev_impl = 0, ev_key = \<lparr>ek_ts = m_currentTs s, ek_uid = m_currentUid s, ek_context = 0\<rparr>\<rparr> \<le> prio nx"
    using nx(3) by (simp add: cur_prio_def key_prio_def)
  from prio_ts [OF this] have ts: "m_currentTs s \<le> ev_ts nx" by simp
  let ?s = "begin_event nx q s"
  have cur: "cur_prio ?s = prio nx" by (simp add: begin_event_def cur_prio_def key_prio_def)
  have fin: "finite ?E" using evs by (simp add: events_ok_def)
  have "0 < card ?E" using nx(1) fin by (auto simp: card_gt_0_iff)
  then have card: "int (card (?E - {nx})) = int (card ?E) - 1"
    using nx(1) fin by (simp add: card_Diff_singleton of_nat_diff)
  have later: "prio nx < prio e" if "e \<in> ?E - {nx}" for e
  proof -
    have "prio nx \<le> prio e" using q(2) that by (simp add: first_of_def)
    moreover have "prio nx \<noteq> prio e"
      using that inj_on_eq_iff [OF prio_inj [OF evs] nx(1), of e] by auto
    ultimately show ?thesis by simp
  qed
  have inserted: "\<forall>e \<in> set (inserted s). 4 \<le> unat (ev_uid e) \<and> unat (ev_uid e) < uids_used s \<and>
      (e \<in> ?E - {nx} \<or> e \<in> set (invoked s) \<or> cancelled s (ev_impl e) \<or> e = nx)"
    using sim_ok_inserted [OF ok] by blast
  have old: "\<forall>e \<in> set (invoked s). prio e < prio nx"
    using sim_ok_invoked(3) [OF ok] nx(3) by fastforce
  have "ok (enter_event nx ?s)"
    unfolding sim_ok_def
  proof (intro conjI)
    show "unat (m_currentTs (enter_event nx ?s)) < 2 ^ 63"
      using evs nx(1) unfolding events_ok_def by (simp add: enter_event_def begin_event_def)
    show "unat (m_currentUid (enter_event nx ?s)) < uids_used (enter_event nx ?s)"
      using inserted nx(2) by (simp add: enter_event_def begin_event_def uids_used_def)
    show "\<forall>e \<in> pending (m_events (enter_event nx ?s)).
        e \<in> set (inserted (enter_event nx ?s)) \<and> cur_prio (enter_event nx ?s) < prio e"
      using o q(4) later cur by (auto simp: enter_event_def begin_event_def cur_prio_def)
    show "\<forall>e \<in> set (inserted (enter_event nx ?s)).
        4 \<le> unat (ev_uid e) \<and> unat (ev_uid e) < uids_used (enter_event nx ?s) \<and>
        (e \<in> pending (m_events (enter_event nx ?s)) \<or> e \<in> set (invoked (enter_event nx ?s)) \<or>
         cancelled (enter_event nx ?s) (ev_impl e))"
      using inserted q(4) by (auto simp: enter_event_def begin_event_def uids_used_def)
    show "sorted_wrt (\<lambda>a b. prio a < prio b) (invoked (enter_event nx ?s))"
      using o old by (auto simp: enter_event_def begin_event_def sorted_wrt_append)
    show "\<forall>e \<in> set (invoked (enter_event nx ?s)). prio e \<le> cur_prio (enter_event nx ?s)"
      using old cur by (auto simp: enter_event_def begin_event_def cur_prio_def less_imp_le)
  qed (use o q card nx in \<open>auto simp: enter_event_def begin_event_def uids_used_def\<close>)
  with q ts show thesis by (intro that)
qed

section \<open>All states\<close>

lemma step_ok:
  assumes "ok s" and "sim_step ops s s'" and "uids_used s' < 2 ^ 32"
  shows "ok s'"
  using assms(2)
proof cases
  case (call c)
  with do_call_ok assms(1,3) show ?thesis by blast
next
  case run
  with assms(1) show ?thesis by (simp add: sim_ok_def uids_used_def cur_prio_def)
next
  case (event nx q)
  from next_event_ok [OF assms(1) event(2)] event(1,3) show ?thesis by force
qed

lemma steps_ok: "sim_steps ops s s' \<Longrightarrow> ok s \<Longrightarrow> uids_used s' < 2 ^ 32 \<Longrightarrow> ok s'"
proof (induction rule: rtranclp_induct)
  case (step s1 s2)
  then show ?case using step_ok step_grows by (meson le_less_trans)
qed simp

lemma make_ok: "inv 0 q \<Longrightarrow> pending q = {} \<Longrightarrow> ok (Sim_make q)"
  by (simp add: sim_ok_def Sim_make_def uids_used_def UID_VALID_def UID_INVALID_def)

end

end
