(* ===== verification/Simulator_Run.thy ===== *)
theory Simulator_Run
  imports Simulator_Order
begin

text \<open>
  Whole simulations: every state of a run is reached by the steps of \<open>Simulator_Impl\<close>, a run
  of a program that makes finitely many calls returns, and two containers that meet the contract
  give the same run.
\<close>

section \<open>A run is a sequence of steps\<close>

definition program_ok :: "program \<Rightarrow> bool" where
  "program_ok prog \<longleftrightarrow> (\<forall>h. list_all call_ok (prog h))"

lemma steps_context: "sim_steps ops s s' \<Longrightarrow> m_eventsWithContextEmpty s' = m_eventsWithContextEmpty s"
  by (induction rule: rtranclp_induct) (auto dest: step_grows(2))

lemma steps_cancelled: "sim_steps ops s s' \<Longrightarrow> cancelled s i \<Longrightarrow> cancelled s' i"
  by (induction rule: rtranclp_induct) (auto dest: step_grows(3))

lemma steps_grow: "sim_steps ops s s' \<Longrightarrow> uids_used s \<le> uids_used s'"
  by (induction rule: rtranclp_induct) (auto dest: step_grows(1))

lemma calls_steps:
  "fold_opt (do_call ops) cs s = Some s' \<Longrightarrow> list_all call_ok cs \<Longrightarrow> sim_steps ops s s'"
proof (induction cs arbitrary: s)
  case (Cons c cs)
  then obtain s1 where "do_call ops c s = Some s1" "fold_opt (do_call ops) cs s1 = Some s'"
    by (auto simp: bind_eq_Some_conv)
  with Cons show ?case by (auto intro: converse_rtranclp_into_rtranclp sim_step.call)
qed simp

lemma Invoke_enter:
  "Sim_Invoke ops prog nx s =
    (if cancelled s (ev_impl nx) then Some (enter_event nx s)
     else fold_opt (do_call ops) (prog (invoked (enter_event nx s))) (enter_event nx s))"
  by (simp add: Sim_Invoke_def enter_event_def Let_def)

lemma ProcessOneEvent_begin:
  "Sim_ProcessOneEvent ops prog s =
     do {
       (nx, q) \<leftarrow> op_RemoveNext ops (m_events s);
       ensure (m_currentTs s \<le> ev_ts nx);
       s \<leftarrow> Sim_Invoke ops prog nx (begin_event nx q s);
       Sim_ProcessEventsWithContext ops s
     }"
  by (simp add: Sim_ProcessOneEvent_def begin_event_def Let_def)

lemma invoke_steps:
  assumes "Sim_Invoke ops prog nx s = Some s'" and "program_ok prog"
  shows "sim_steps ops (enter_event nx s) s'"
proof (cases "cancelled s (ev_impl nx)")
  case True
  with assms(1) show ?thesis by (simp add: Invoke_enter)
next
  case False
  with assms show ?thesis by (intro calls_steps) (auto simp: Invoke_enter program_ok_def)
qed

lemma process_steps:
  assumes run: "Sim_ProcessOneEvent ops prog s = Some s'" and "program_ok prog"
    and "m_eventsWithContextEmpty s" and "\<not> op_IsEmpty ops (m_events s)"
  shows "sim_steps ops s s'"
proof -
  from run obtain nx q s1 where
    nx: "op_RemoveNext ops (m_events s) = Some (nx, q)" "m_currentTs s \<le> ev_ts nx"
      "Sim_Invoke ops prog nx (begin_event nx q s) = Some s1"
    and s': "Sim_ProcessEventsWithContext ops s1 = Some s'"
    by (auto simp: ProcessOneEvent_begin bind_eq_Some_conv)
  have steps: "sim_steps ops s s1"
    using sim_step.event [OF assms(4) nx(1,2)] invoke_steps [OF nx(3) assms(2)]
    by (rule converse_rtranclp_into_rtranclp)
  with steps_context assms(3) s' show ?thesis by (fastforce simp: Sim_ProcessEventsWithContext_def)
qed

lemma loop_induct [consumes 1, case_names finished process]:
  assumes "Sim_loop ops prog s = Some s'"
    and "\<And>s. Sim_IsFinished ops s \<Longrightarrow> P s s"
    and "\<And>s s1 s'. \<not> Sim_IsFinished ops s \<Longrightarrow> Sim_ProcessOneEvent ops prog s = Some s1 \<Longrightarrow>
      Sim_loop ops prog s1 = Some s' \<Longrightarrow> P s1 s' \<Longrightarrow> P s s'"
  shows "P s s'"
proof -
  have "ops' = ops \<longrightarrow> prog' = prog \<longrightarrow> Sim_loop ops prog s = Some s' \<and> P s s'"
    if "Sim_loop ops' prog' s = Some s'" for ops' prog' s s'
  proof (rule Sim_loop.raw_induct [OF _ that])
    fix loop ops' prog' and s s' :: "'a sim"
    assume IH: "\<And>ops' prog' s y. loop ops' prog' s = Some y \<Longrightarrow>
        ops' = ops \<longrightarrow> prog' = prog \<longrightarrow> Sim_loop ops prog s = Some y \<and> P s y"
      and body: "(if Sim_IsFinished ops' s then Some s
        else Sim_ProcessOneEvent ops' prog' s \<bind> loop ops' prog') = Some s'"
    show "ops' = ops \<longrightarrow> prog' = prog \<longrightarrow> Sim_loop ops prog s = Some s' \<and> P s s'"
    proof (intro impI)
      assume eq: "ops' = ops" "prog' = prog"
      show "Sim_loop ops prog s = Some s' \<and> P s s'"
      proof (cases "Sim_IsFinished ops s")
        case True
        with body eq have "s' = s" by simp
        with True assms(2) show ?thesis by (simp add: Sim_loop.simps [of ops prog s])
      next
        case False
        with body eq obtain s1 where s1: "Sim_ProcessOneEvent ops prog s = Some s1"
          "loop ops prog s1 = Some s'" by (auto simp: bind_eq_Some_conv)
        with IH have "Sim_loop ops prog s1 = Some s'" "P s1 s'" by blast+
        with assms(3) [OF False s1(1)] False s1(1) show ?thesis
          by (simp add: Sim_loop.simps [of ops prog s])
      qed
    qed
  qed
  with assms(1) show ?thesis by blast
qed

text \<open>The loop with fuel, for the evaluation of concrete runs.\<close>

primrec loop_for :: "nat \<Rightarrow> 'q scheduler \<Rightarrow> program \<Rightarrow> 'q sim \<Rightarrow> 'q sim option" where
  "loop_for 0 ops prog s = None"
| "loop_for (Suc n) ops prog s =
     (if Sim_IsFinished ops s then Some s
      else do { s \<leftarrow> Sim_ProcessOneEvent ops prog s; loop_for n ops prog s })"

lemma loop_for_enough: "loop_for n ops prog s = Some s' \<Longrightarrow> Sim_loop ops prog s = Some s'"
proof (induction n arbitrary: s)
  case (Suc n)
  then show ?case
    by (subst Sim_loop.simps) (auto simp: bind_eq_Some_conv split: if_splits)
qed simp

lemma loop_steps:
  assumes "Sim_loop ops prog s = Some s'" and "program_ok prog" and "m_eventsWithContextEmpty s"
  shows "sim_steps ops s s' \<and> Sim_IsFinished ops s'"
  using assms(1,3)
proof (induction rule: loop_induct)
  case (process s s1 s')
  have "\<not> op_IsEmpty ops (m_events s)" using process.hyps(1) by (simp add: Sim_IsFinished_def)
  with process_steps [OF process.hyps(2) assms(2) process.prems] have "sim_steps ops s s1" .
  moreover from this process.prems have "m_eventsWithContextEmpty s1" by (simp add: steps_context)
  ultimately show ?case using process.IH by (blast intro: rtranclp_trans)
qed simp

lemma simulate_steps:
  assumes "simulate ops q setup prog = Some s" and "list_all call_ok setup" and "program_ok prog"
  shows "sim_steps ops (Sim_make q) s" and "Sim_IsFinished ops s"
proof -
  from assms(1) obtain s1 s2 where
    s1: "fold_opt (do_call ops) setup (Sim_make q) = Some s1" and
    s2: "Sim_ProcessEventsWithContext ops s1 = Some s2" and
    loop: "Sim_loop ops prog (s2\<lparr>m_stop := False\<rparr>) = Some s"
    by (auto simp: simulate_def Sim_Run_def bind_eq_Some_conv)
  have first: "sim_steps ops (Sim_make q) s1" using calls_steps [OF s1 assms(2)] .
  then have "m_eventsWithContextEmpty s1" using steps_context by (fastforce simp: Sim_make_def)
  with s2 have s2: "s2 = s1" "m_eventsWithContextEmpty (s2\<lparr>m_stop := False\<rparr>)"
    by (simp_all add: Sim_ProcessEventsWithContext_def)
  note rest = loop_steps [OF loop assms(3) s2(2)]
  show "Sim_IsFinished ops s" using rest by blast
  show "sim_steps ops (Sim_make q) s"
    using rtranclp_trans [OF rtranclp.rtrancl_into_rtrancl [OF first sim_step.run]] rest s2(1) by blast
qed

section \<open>A cancelled event never runs\<close>

lemma call_keeps_invoked: "do_call ops c s = Some s' \<Longrightarrow> invoked s' = invoked s"
  by (rule do_call_grows(4))

lemma step_not_invoked:
  assumes "sim_step ops s s'" and "cancelled s (ev_impl e)" and "e \<notin> set (invoked s)"
  shows "e \<notin> set (invoked s')"
  using assms
  by (auto elim!: sim_stepE dest: call_keeps_invoked simp: enter_event_def begin_event_def split: if_splits)

lemma steps_not_invoked:
  assumes "sim_steps ops s s'" and "cancelled s (ev_impl e)" and "e \<notin> set (invoked s)"
  shows "e \<notin> set (invoked s')"
  using assms(1)
proof (induction rule: rtranclp_induct)
  case (step s1 s2)
  from step.hyps(2) steps_cancelled [OF step.hyps(1) assms(2)] step.IH show ?case
    by (rule step_not_invoked)
qed (rule assms(3))

section \<open>Runs over a container that meets the contract\<close>

context engine
begin

lemma reached_ok:
  assumes "inv 0 q" and "pending q = {}" and "sim_steps ops (Sim_make q) s" and "uids_used s < 2 ^ 32"
  shows "ok s"
  using steps_ok [OF assms(3) make_ok [OF assms(1,2)] assms(4)] .

lemma run_in_order:
  assumes ok: "ok s" and fin: "Sim_IsFinished ops s"
  shows "sorted_wrt (\<lambda>a b. prio a < prio b) (invoked s)" and "set (invoked s) \<subseteq> set (inserted s)"
    and "m_stop s \<or> (\<forall>e \<in> set (inserted s). e \<in> set (invoked s) \<or> cancelled s (ev_impl e))"
proof -
  show "sorted_wrt (\<lambda>a b. prio a < prio b) (invoked s)" "set (invoked s) \<subseteq> set (inserted s)"
    using sim_ok_invoked [OF ok] by blast+
  have "pending (m_events s) = {}" if "\<not> m_stop s"
    using that fin isEmpty_law ok by (auto simp: Sim_IsFinished_def sim_ok_def)
  then show "m_stop s \<or> (\<forall>e \<in> set (inserted s). e \<in> set (invoked s) \<or> cancelled s (ev_impl e))"
    using sim_ok_inserted [OF ok] by blast
qed

lemma issued_names:
  assumes "ok s" and "i \<in> set (issued s)" and "id_uid i \<noteq> UID_DESTROY"
  obtains e where "e \<in> set (inserted s)" and "names_event i e"
  using assms unfolding sim_ok_def by blast

lemma pending_later:
  assumes "ok s" and "e \<in> pending (m_events s)"
  shows "m_currentTs s \<le> ev_ts e" and "e \<notin> set (invoked s)" and "unat (ev_ts e) < 2 ^ 63"
proof -
  have p: "cur_prio s < prio e" using assms by (simp add: sim_ok_def)
  have "prio \<lparr>ev_impl = 0, ev_key = \<lparr>ek_ts = m_currentTs s, ek_uid = m_currentUid s, ek_context = 0\<rparr>\<rparr>
      \<le> prio e" using p by (simp add: cur_prio_def key_prio_def)
  from prio_ts [OF this] show "m_currentTs s \<le> ev_ts e" by simp
  show "e \<notin> set (invoked s)" using sim_ok_invoked(3) [OF assms(1), of e] p by linarith
  show "unat (ev_ts e) < 2 ^ 63" using ok_events [OF assms(1)] assms(2) by (simp add: events_ok_def)
qed

lemma delay_left:
  assumes ok: "ok s" and "names_event i e" and "e \<in> pending (m_events s)" and "\<not> Sim_IsExpired i s"
  shows "Sim_GetDelayLeft i s = int (unat (ev_ts e)) - int (unat (m_currentTs s))"
proof -
  note l = pending_later [OF ok assms(3)]
  have d: "unat (ev_ts e - m_currentTs s) = unat (ev_ts e) - unat (m_currentTs s)"
    using l(1) by (rule unat_sub)
  then have "unat (ev_ts e - m_currentTs s) < 2 ^ 63" using l(3) by linarith
  from sint_small [OF this] have "sint (ev_ts e - m_currentTs s) = int (unat (ev_ts e - m_currentTs s))" .
  also have "\<dots> = int (unat (ev_ts e)) - int (unat (m_currentTs s))"
    unfolding d by (rule of_nat_diff) (use l(1) in \<open>simp only: word_le_nat_alt\<close>)
  finally show ?thesis using assms(2,4) by (simp only: Sim_GetDelayLeft_def names_event_def) simp
qed

lemma id_status:
  assumes ok: "ok s" and i: "i \<in> set (issued s)" "id_uid i \<noteq> UID_DESTROY"
  obtains e where "e \<in> set (inserted s)" and "names_event i e"
    and "Sim_IsExpired i s \<longleftrightarrow> e \<notin> pending (m_events s) \<or> cancelled s (ev_impl e)"
    and "Sim_GetDelayLeft i s =
      (if e \<notin> pending (m_events s) \<or> cancelled s (ev_impl e) then 0
       else int (unat (ev_ts e)) - int (unat (m_currentTs s)))"
proof -
  obtain e where e: "e \<in> set (inserted s)" "names_event i e" using ok i by (rule issued_names)
  have x: "Sim_IsExpired i s \<longleftrightarrow> e \<notin> pending (m_events s) \<or> cancelled s (ev_impl e)"
    using ok i e(2,1) by (rule live_id_pending)
  have "Sim_GetDelayLeft i s = (if Sim_IsExpired i s then 0 else
      int (unat (ev_ts e)) - int (unat (m_currentTs s)))"
    using delay_left [OF ok e(2)] x by (auto simp: Sim_GetDelayLeft_def)
  with e x show thesis by (intro that) auto
qed

lemma cancel_stops:
  assumes ok: "ok s" and e: "names_event i e" "e \<in> pending (m_events s)"
    and live: "\<not> Sim_IsExpired i s" and later: "sim_steps ops (Sim_Cancel i s) s'"
  shows "e \<notin> set (invoked s')"
proof (rule steps_not_invoked [OF later])
  show "cancelled (Sim_Cancel i s) (ev_impl e)"
    using live e(1) by (simp add: Sim_Cancel_def Sim_cancel_impl_def names_event_def)
  show "e \<notin> set (invoked (Sim_Cancel i s))"
    using pending_later(2) [OF ok e(2)]
    by (simp add: Sim_Cancel_def Sim_cancel_impl_def split: option.split)
qed

lemma remove_stops:
  assumes ok: "ok s" and mem: "i \<in> set (issued s)" and live: "id_uid i \<noteq> UID_DESTROY" "\<not> Sim_IsExpired i s"
  obtains e s1 where "names_event i e" and "e \<in> pending (m_events s)" and "Sim_Remove ops i s = Some s1"
    and "pending (m_events s1) = pending (m_events s) - {e}"
    and "\<And>s'. sim_steps ops s1 s' \<Longrightarrow> e \<notin> set (invoked s')"
proof -
  obtain e q where e: "names_event i e" "e \<in> pending (m_events s)"
    and q: "pending q = pending (m_events s) - {e}"
    and rem: "Sim_Remove ops i s = Some (Sim_cancel_impl (ev_impl e)
      (s\<lparr>m_events := q, m_unscheduledEvents := m_unscheduledEvents s - 1\<rparr>))"
    by (rule remove_live [OF ok mem live])
  have "e \<notin> set (invoked s')"
    if "sim_steps ops (Sim_cancel_impl (ev_impl e)
      (s\<lparr>m_events := q, m_unscheduledEvents := m_unscheduledEvents s - 1\<rparr>)) s'" for s'
    by (rule steps_not_invoked [OF that])
      (use pending_later(2) [OF ok e(2)] in \<open>simp_all add: Sim_cancel_impl_def\<close>)
  with that [OF e rem] q show thesis by (simp add: Sim_cancel_impl_def)
qed

end

end
