(* ===== verification/Simulator_Ends.thy ===== *)
theory Simulator_Ends
  imports Simulator_Run
begin

text \<open>
  A program that falls silent lets \<open>Run\<close> return: \<open>N\<close> is the number of events that may make
  calls, \<open>k\<close> the number of calls of each and \<open>D\<close> the longest delay. Each event takes one from
  the container and adds at most \<open>k\<close> for the first \<open>N\<close>, so the loop ends; time stays within
  \<open>(N + 1) * D\<close> and the event ids within \<open>4 + setup + N * k\<close>.
\<close>

fun call_within :: "time \<Rightarrow> sim_call \<Rightarrow> bool" where
  "call_within D (CallSchedule delay impl) \<longleftrightarrow> 0 \<le> delay \<and> delay \<le> D"
| "call_within D (CallScheduleWithContext ctxt delay impl) \<longleftrightarrow> 0 \<le> delay \<and> delay \<le> D"
| "call_within D (CallScheduleFromThread ctxt delay impl) \<longleftrightarrow> False"
| "call_within D _ \<longleftrightarrow> 0 \<le> D"

definition program_within :: "nat \<Rightarrow> nat \<Rightarrow> time \<Rightarrow> program \<Rightarrow> bool" where
  "program_within N k D prog \<longleftrightarrow>
     (\<forall>h. list_all (call_within D) (prog h) \<and> length (prog h) \<le> (if length h \<le> N then k else 0))"

lemma within_ok: "call_within D c \<Longrightarrow> call_ok c"
  by (cases c) simp_all

lemma program_within_ok: "program_within N k D prog \<Longrightarrow> program_ok prog"
  unfolding program_within_def program_ok_def list_all_iff using within_ok by blast

lemma unat_time: "0 \<le> x \<Longrightarrow> x \<le> int64_max \<Longrightarrow> int (unat (word_of_int x :: u64)) = x"
  by (simp add: uint_word_of_int)

lemma tAbsolute_returns:
  assumes "unat (m_currentTs s) < 2 ^ 63" and "0 \<le> delay"
    and "int (unat (m_currentTs s)) + delay \<le> int64_max"
  obtains ts where "Sim_tAbsolute delay s = Some ts" and "int (unat ts) = int (unat (m_currentTs s)) + delay"
proof -
  let ?t = "delay + int (unat (m_currentTs s))"
  have "0 \<le> int (unat (m_currentTs s))" by (rule of_nat_0_le_iff)
  with assms(2,3) have t: "- int64_max - 1 \<le> ?t" "?t \<le> int64_max" "0 \<le> ?t" by linarith+
  have "Sim_tAbsolute delay s = Some (word_of_int ?t)"
    using t(1,2) unfolding Sim_tAbsolute_def sint_small [OF assms(1)] by simp
  moreover have "int (unat (word_of_int ?t :: u64)) = int (unat (m_currentTs s)) + delay"
    using unat_time [OF t(3,2)] by (rule trans) (rule add.commute)
  ultimately show thesis by (rule that)
qed

section \<open>Calls within the bounds return\<close>

text \<open>What a call leaves: \<open>s'\<close> has at most one pending event more, due within \<open>D\<close>.\<close>

definition call_effect :: "('q \<Rightarrow> Event set) \<Rightarrow> time \<Rightarrow> nat \<Rightarrow> 'q sim \<Rightarrow> 'q sim \<Rightarrow> bool" where
  "call_effect pending D n s s' \<longleftrightarrow>
     uids_used s' \<le> uids_used s + n \<and> card (pending (m_events s')) \<le> card (pending (m_events s)) + n \<and>
     m_currentTs s' = m_currentTs s \<and> invoked s' = invoked s \<and>
     (\<forall>e \<in> pending (m_events s'). e \<in> pending (m_events s) \<or>
        int (unat (ev_ts e)) \<le> int (unat (m_currentTs s)) + D)"

lemma call_effect_refl: "call_effect pending D n s s"
  by (simp add: call_effect_def)

lemma call_effect_trans:
  "call_effect pending D m s s1 \<Longrightarrow> call_effect pending D n s1 s2 \<Longrightarrow> call_effect pending D (m + n) s s2"
  by (fastforce simp: call_effect_def)

context engine
begin

lemma insert_returns:
  assumes ok: "ok s" and fits: "uids_used s + 1 < 2 ^ 32" and delay: "0 \<le> delay" "delay \<le> D"
    and time: "int (unat (m_currentTs s)) + D \<le> int64_max"
  obtains ts s' where "Sim_tAbsolute delay s = Some ts" and "Sim_insert ops ts ctxt impl s = Some s'"
    and "issued s' = issued s" and "call_effect pending D 1 s s'"
proof -
  have small: "unat (m_currentTs s) < 2 ^ 63" using ok by (simp add: sim_ok_def)
  have "int (unat (m_currentTs s)) + delay \<le> int64_max" using delay(2) time by linarith
  then obtain ts where ts: "Sim_tAbsolute delay s = Some ts"
    "int (unat ts) = int (unat (m_currentTs s)) + delay"
    by (rule tAbsolute_returns [OF small delay(1)])
  note later = tAbsolute_later [OF small delay(1) ts(1)]
  from insert_ok [OF ok fits later, of impl ctxt] obtain q where
    q: "pending q = insert \<lparr>ev_impl = impl, ev_key = \<lparr>ek_ts = ts, ek_uid = m_uid s, ek_context = ctxt\<rparr>\<rparr>
          (pending (m_events s))" and
    ins: "Sim_insert ops ts ctxt impl s = Some (s\<lparr>m_uid := m_uid s + 1,
      m_unscheduledEvents := m_unscheduledEvents s + 1, m_events := q, inserted := inserted s @
        [\<lparr>ev_impl = impl, ev_key = \<lparr>ek_ts = ts, ek_uid = m_uid s, ek_context = ctxt\<rparr>\<rparr>]\<rparr>)"
    by blast
  have "card (pending q) \<le> card (pending (m_events s)) + 1"
    unfolding q by (simp add: card_insert_le_m1 card_insert_if finite_subset)
  with q ts delay(2) show thesis
    by (intro that [OF ts(1) ins]) (auto simp: call_effect_def uids_used_def)
qed

lemma remove_effect:
  assumes ok: "ok s" and i: "i = EventId_default \<or> i \<in> set (issued s)"
  obtains s' where "Sim_Remove ops i s = Some s'" and "call_effect pending D 1 s s'"
proof (cases "id_uid i = UID_DESTROY \<or> Sim_IsExpired i s")
  case True
  then show thesis
    by (cases "id_uid i = UID_DESTROY") (auto intro: that simp: Sim_Remove_def call_effect_def uids_used_def)
next
  case False
  with i have mem: "i \<in> set (issued s)" using default_expired by blast
  obtain e q where q: "pending q = pending (m_events s) - {e}"
    "int (card (pending q)) = int (card (pending (m_events s))) - 1"
    and rem: "Sim_Remove ops i s = Some (Sim_cancel_impl (ev_impl e)
      (s\<lparr>m_events := q, m_unscheduledEvents := m_unscheduledEvents s - 1\<rparr>))"
    by (rule remove_live [OF ok mem]) (use False in auto)
  have "card (pending q) \<le> card (pending (m_events s)) + 1" using q(2) by linarith
  with q(1) show thesis
    by (intro that [OF rem]) (auto simp: Sim_cancel_impl_def call_effect_def uids_used_def)
qed

lemma do_call_returns:
  assumes ok: "ok s" and fits: "uids_used s + 1 < 2 ^ 32" and c: "call_within D c"
    and time: "int (unat (m_currentTs s)) + D \<le> int64_max"
  obtains s' where "do_call ops c s = Some s'" and "call_effect pending D 1 s s'"
proof -
  note result = that
  have sched: thesis
    if "do_call ops c s = Sim_Schedule ops delay impl s" and delay: "0 \<le> delay" "delay \<le> D"
    for delay impl
  proof -
    obtain ts s' where s': "Sim_tAbsolute delay s = Some ts"
      "Sim_insert ops ts (m_currentContext s) impl s = Some s'" "issued s' = issued s"
      "call_effect pending D 1 s s'"
      by (rule insert_returns [OF ok fits delay time])
    have "m_uid s \<noteq> UID_DESTROY"
    proof
      assume "m_uid s = UID_DESTROY"
      with ok show False by (simp add: sim_ok_def UID_DESTROY_def uids_used_def)
    qed
    let ?s = "s'\<lparr>issued := issued s' @ [\<lparr>id_impl = Some impl, id_ts = ts,
      id_context = m_currentContext s, id_uid = m_uid s\<rparr>]\<rparr>"
    have "do_call ops c s = Some ?s" using s' that(1,2) by (simp add: Sim_Schedule_def Let_def)
    moreover have "call_effect pending D 1 s ?s"
      using s'(4) \<open>m_uid s \<noteq> UID_DESTROY\<close> by (simp add: call_effect_def uids_used_def)
    ultimately show thesis by (rule result)
  qed
  show thesis
  proof (cases c)
    case (CallSchedule delay impl)
    with c show thesis by (intro sched) auto
  next
    case (CallScheduleNow impl)
    with c show thesis by (intro sched) (auto simp: Sim_ScheduleNow_def)
  next
    case (CallScheduleWithContext ctxt delay impl)
    with c have delay: "0 \<le> delay" "delay \<le> D" by simp_all
    obtain ts s' where "Sim_tAbsolute delay s = Some ts" "Sim_insert ops ts ctxt impl s = Some s'"
      "call_effect pending D 1 s s'"
      by (rule insert_returns [OF ok fits delay time])
    with CallScheduleWithContext show thesis
      by (intro result) (simp_all add: Sim_ScheduleWithContext_def)
  next
    case (CallScheduleDestroy impl)
    then show thesis by (intro that) (auto simp: Sim_ScheduleDestroy_def Let_def call_effect_def uids_used_def)
  next
    case (CallCancel k)
    then show thesis by (intro result)
      (auto simp: Sim_Cancel_def Sim_cancel_impl_def call_effect_def uids_used_def split: option.splits if_splits)
  next
    case (CallRemove k)
    obtain s' where "Sim_Remove ops (issued_id k s) s = Some s'" "call_effect pending D 1 s s'"
      by (rule remove_effect [OF ok issued_id_cases])
    with CallRemove show thesis by (intro result) simp_all
  next
    case CallStop
    then show thesis by (intro that) (auto simp: Sim_Stop_def call_effect_def uids_used_def)
  qed (use c in simp)
qed

lemma do_calls_return:
  assumes "ok s" and "list_all (call_within D) cs" and "uids_used s + length cs < 2 ^ 32"
    and "int (unat (m_currentTs s)) + D \<le> int64_max"
  shows "\<exists>s'. fold_opt (do_call ops) cs s = Some s' \<and> ok s' \<and> call_effect pending D (length cs) s s'"
  using assms
proof (induction cs arbitrary: s)
  case (Cons c cs)
  from Cons.prems have c: "call_within D c" and fits: "uids_used s + 1 < 2 ^ 32" by simp_all
  obtain s1 where s1: "do_call ops c s = Some s1" "call_effect pending D 1 s s1"
    by (rule do_call_returns [OF Cons.prems(1) fits c Cons.prems(4)])
  then have e: "uids_used s1 \<le> uids_used s + 1" "m_currentTs s1 = m_currentTs s"
    by (simp_all add: call_effect_def)
  then have "uids_used s1 < 2 ^ 32" using fits by linarith
  from do_call_ok [OF Cons.prems(1) within_ok [OF c] s1(1) this] have "ok s1" .
  moreover have "uids_used s1 + length cs < 2 ^ 32" using e(1) Cons.prems(3) by simp
  ultimately obtain s' where s': "fold_opt (do_call ops) cs s1 = Some s'" "ok s'"
    "call_effect pending D (length cs) s1 s'"
    using Cons.IH [of s1] Cons.prems(2,4) e(2) by auto
  with call_effect_trans [OF s1(2) s'(3)] s1(1) show ?case by auto
qed (simp add: call_effect_refl)

section \<open>The loop ends\<close>

text \<open>
  Before an event: \<open>bounded\<close> holds with \<open>L\<close> events invoked. What is still to come is bounded by
  the pending events and the calls the program has left.
\<close>

abbreviation left_over :: "nat \<Rightarrow> nat \<Rightarrow> 'q sim \<Rightarrow> nat" where
  "left_over N k s \<equiv> card (pending (m_events s)) + k * (N - length (invoked s))"

abbreviation bounded :: "nat \<Rightarrow> nat \<Rightarrow> time \<Rightarrow> nat \<Rightarrow> 'q sim \<Rightarrow> bool" where
  "bounded N k D B s \<equiv> ok s \<and> uids_used s + k * (N - length (invoked s)) \<le> B \<and>
     (\<forall>e \<in> pending (m_events s). int (unat (ev_ts e)) \<le> (int (length (invoked s)) + 1) * D)"

lemma process_returns:
  assumes b: "bounded N k D B s" and "B < 2 ^ 32" and time: "(int N + 1) * D \<le> int64_max"
    and D: "0 \<le> D" and prog: "program_within N k D prog" and ne: "\<not> op_IsEmpty ops (m_events s)"
  obtains s' where "Sim_ProcessOneEvent ops prog s = Some s'" and "bounded N k D B s'"
    and "left_over N k s' < left_over N k s"
proof -
  have ok: "ok s" using b by blast
  obtain nx q where rn: "op_RemoveNext ops (m_events s) = Some (nx, q)" "m_currentTs s \<le> ev_ts nx"
    and first: "first_of (pending (m_events s)) nx" and q: "pending q = pending (m_events s) - {nx}"
    and ok1: "ok (enter_event nx (begin_event nx q s))"
    by (rule next_event_ok [OF ok ne])
  let ?s = "enter_event nx (begin_event nx q s)"
  have nx: "nx \<in> pending (m_events s)" using first by (simp add: first_of_def)
  have "finite (pending (m_events s))" using ok_events [OF ok] by (simp add: events_ok_def)
  then have card: "card (pending q) < card (pending (m_events s))" unfolding q using nx
    by (rule card_Diff1_less)
  have ts: "m_currentTs ?s = ev_ts nx" and ev: "m_events ?s = q" and u: "uids_used ?s = uids_used s"
    by (simp_all add: enter_event_def begin_event_def uids_used_def)
  have due: "int (unat (ev_ts nx)) \<le> (int (length (invoked s)) + 1) * D" using b nx by blast
  have finish: "Sim_ProcessOneEvent ops prog s = Some s'"
    if "Sim_Invoke ops prog nx (begin_event nx q s) = Some s'" "ok s'" for s'
    using that rn by (simp add: ProcessOneEvent_begin Sim_ProcessEventsWithContext_def sim_ok_def)
  show thesis
  proof (cases "cancelled s (ev_impl nx)")
    case True
    then have "invoked ?s = invoked s" by (simp add: enter_event_def begin_event_def)
    moreover have "Sim_Invoke ops prog nx (begin_event nx q s) = Some ?s"
      using True by (simp add: Invoke_enter begin_event_def)
    ultimately show thesis
      using that [OF finish [OF _ ok1]] ok1 b card q ev u by simp
  next
    case False
    let ?L = "length (invoked s)" and ?cs = "prog (invoked ?s)"
    have inv: "invoked ?s = invoked s @ [nx]" using False by (simp add: enter_event_def begin_event_def)
    have cs: "list_all (call_within D) ?cs" "length ?cs \<le> (if ?L + 1 \<le> N then k else 0)"
      using prog [unfolded program_within_def, THEN spec [of _ "invoked ?s"]] inv by simp_all
    have run: "Sim_Invoke ops prog nx (begin_event nx q s) = fold_opt (do_call ops) ?cs ?s"
      using False by (simp add: Invoke_enter begin_event_def)
    have next_due: "(int ?L + 1) * D \<le> (int (?L + 1) + 1) * D" using D by (simp add: mult_right_mono)
    have old_due: "int (unat (ev_ts e)) \<le> (int (?L + 1) + 1) * D" if "e \<in> pending q" for e
      using b q that next_due by fastforce
    show thesis
    proof (cases "?L + 1 \<le> N")
      case True
      then have left: "k * (N - ?L) = k + k * (N - (?L + 1))"
        by (metis Suc_diff_Suc Suc_eq_plus1 Suc_le_eq mult_Suc_right)
      have "(int (?L + 1) + 1) * D \<le> (int N + 1) * D" using True D by (intro mult_right_mono) auto
      moreover have cur: "int (unat (m_currentTs ?s)) + D \<le> (int (?L + 1) + 1) * D"
        using due by (simp add: ts algebra_simps)
      ultimately have "int (unat (m_currentTs ?s)) + D \<le> int64_max" using time by linarith
      moreover have "uids_used ?s + length ?cs < 2 ^ 32"
        using b assms(2) cs(2) True left unfolding u by simp
      ultimately obtain s' where s': "fold_opt (do_call ops) ?cs ?s = Some s'" "ok s'"
        "call_effect pending D (length ?cs) ?s s'"
        using do_calls_return [OF ok1 cs(1)] by blast
      note e = s'(3) [unfolded call_effect_def ev u inv]
      have len: "length (invoked s') = ?L + 1" using e by simp
      have "int (unat (ev_ts x)) \<le> (int (length (invoked s')) + 1) * D" if "x \<in> pending (m_events s')" for x
        using e that old_due cur unfolding len by fastforce
      moreover have "uids_used s' + k * (N - length (invoked s')) \<le> B"
        using e b cs(2) [unfolded inv] True left unfolding len by simp
      moreover have "left_over N k s' < left_over N k s"
        using e card cs(2) [unfolded inv] True left unfolding len by simp
      ultimately show thesis using that finish s'(2) run s'(1) by metis
    next
      case last: False
      then have "fold_opt (do_call ops) ?cs ?s = Some ?s" using cs(2) by simp
      with run have "Sim_ProcessOneEvent ops prog s = Some ?s" by (intro finish ok1) simp
      moreover have "uids_used ?s + k * (N - length (invoked ?s)) \<le> B" using b last unfolding u inv by simp
      moreover have "int (unat (ev_ts x)) \<le> (int (length (invoked ?s)) + 1) * D"
        if "x \<in> pending (m_events ?s)" for x
        using old_due [of x] that unfolding ev inv by simp
      moreover have "left_over N k ?s < left_over N k s" using card last unfolding ev inv by simp
      ultimately show thesis using ok1 by (intro that) auto
    qed
  qed
qed

lemma loop_returns:
  assumes "B < 2 ^ 32" and "(int N + 1) * D \<le> int64_max" and "0 \<le> D" and "program_within N k D prog"
  shows "bounded N k D B s \<Longrightarrow> \<exists>s'. Sim_loop ops prog s = Some s' \<and> bounded N k D B s'"
proof (induction "left_over N k s" arbitrary: s rule: less_induct)
  case less
  show ?case
  proof (cases "Sim_IsFinished ops s")
    case True
    with less.prems show ?thesis by (subst Sim_loop.simps) simp
  next
    case False
    then have ne: "\<not> op_IsEmpty ops (m_events s)" by (simp add: Sim_IsFinished_def)
    obtain s1 where "Sim_ProcessOneEvent ops prog s = Some s1" "bounded N k D B s1"
      "left_over N k s1 < left_over N k s"
      by (rule process_returns [OF less.prems assms ne])
    with less.hyps [of s1] False show ?thesis by (subst Sim_loop.simps) simp
  qed
qed

theorem simulate_returns:
  assumes q: "inv 0 q" "pending q = {}" and main: "list_all (call_within D) setup"
    and prog: "program_within N k D prog" and D: "0 \<le> D" "(int N + 1) * D \<le> int64_max"
    and ids: "4 + length setup + N * k < 2 ^ 32"
  shows "\<exists>s. simulate ops q setup prog = Some s \<and> uids_used s \<le> 4 + length setup + N * k"
proof -
  let ?B = "4 + length setup + N * k"
  have new: "ok (Sim_make q)" "uids_used (Sim_make q) = 4" "m_currentTs (Sim_make q) = 0"
      "m_events (Sim_make q) = q" "invoked (Sim_make q) = []"
    using make_ok [OF q] by (simp_all add: Sim_make_def uids_used_def)
  have "D \<le> (int N + 1) * D" using D(1) by (simp add: algebra_simps)
  then have "int (unat (m_currentTs (Sim_make q))) + D \<le> int64_max" using D(2) new(3) by simp
  moreover have "uids_used (Sim_make q) + length setup < 2 ^ 32" using ids new(2) by simp
  ultimately obtain s where s: "fold_opt (do_call ops) setup (Sim_make q) = Some s" "ok s"
    "call_effect pending D (length setup) (Sim_make q) s"
    using do_calls_return [OF new(1) main] by blast
  note e = s(3) [unfolded call_effect_def new q(2)]
  let ?s = "s\<lparr>m_stop := False\<rparr>"
  have "bounded N k D ?B ?s"
    using s(2) e by (auto simp: sim_ok_def uids_used_def cur_prio_def algebra_simps)
  from loop_returns [OF ids D(2,1) prog this] obtain s' where
    s': "Sim_loop ops prog ?s = Some s'" "bounded N k D ?B s'" by blast
  have "m_unscheduledEvents s' = 0" if "op_IsEmpty ops (m_events s')"
    using s'(2) that isEmpty_law by (auto simp: sim_ok_def)
  moreover have "Sim_ProcessEventsWithContext ops s = Some s"
    using s(2) by (simp add: Sim_ProcessEventsWithContext_def sim_ok_def)
  ultimately have "simulate ops q setup prog = Some s'"
    using s(1) s'(1) by (simp add: simulate_def Sim_Run_def)
  with s'(2) show ?thesis by auto
qed

end

end
