(* ===== verification/Simulator_Pair.thy ===== *)
theory Simulator_Pair
  imports Simulator_Run
begin

text \<open>
  The engine over two containers at once. Both hold the same events, so a call or an event of
  one is the same call or event of the other: the run of a program does not depend on the
  \<open>Scheduler\<close> chosen.
\<close>

text \<open>The states differ in the container only.\<close>

definition same_sim ::
    "('p \<Rightarrow> Event set) \<Rightarrow> ('q \<Rightarrow> Event set) \<Rightarrow> 'p sim \<Rightarrow> 'q sim \<Rightarrow> bool" where
  "same_sim pend1 pend2 s s' \<longleftrightarrow>
     pend1 (m_events s) = pend2 (m_events s') \<and> m_stop s = m_stop s' \<and> m_uid s = m_uid s' \<and>
     m_currentUid s = m_currentUid s' \<and> m_currentTs s = m_currentTs s' \<and>
     m_currentContext s = m_currentContext s' \<and> m_eventCount s = m_eventCount s' \<and>
     m_unscheduledEvents s = m_unscheduledEvents s' \<and> m_eventsWithContext s = m_eventsWithContext s' \<and>
     m_eventsWithContextEmpty s = m_eventsWithContextEmpty s' \<and>
     m_destroyEvents s = m_destroyEvents s' \<and> cancelled s = cancelled s' \<and>
     invoked s = invoked s' \<and> inserted s = inserted s' \<and> issued s = issued s'"

lemma same_uids: "same_sim p q s s' \<Longrightarrow> uids_used s' = uids_used s"
  by (simp add: same_sim_def uids_used_def)

lemma same_expired: "same_sim p q s s' \<Longrightarrow> Sim_IsExpired i s' = Sim_IsExpired i s"
  by (cases "id_impl i") (simp_all add: same_sim_def Sim_IsExpired_def)

lemma same_tAbsolute: "same_sim p q s s' \<Longrightarrow> Sim_tAbsolute d s' = Sim_tAbsolute d s"
  by (simp add: same_sim_def Sim_tAbsolute_def)

lemma same_issued_id: "same_sim p q s s' \<Longrightarrow> issued_id k s' = issued_id k s"
  by (simp add: same_sim_def issued_id_def)

lemma same_Stop: "same_sim p q s s' \<Longrightarrow> same_sim p q (Sim_Stop s) (Sim_Stop s')"
  by (simp add: same_sim_def Sim_Stop_def)

lemma same_ScheduleDestroy:
  "same_sim p q s s' \<Longrightarrow> same_sim p q (Sim_ScheduleDestroy impl s) (Sim_ScheduleDestroy impl s')"
  by (simp add: same_sim_def Sim_ScheduleDestroy_def Let_def)

lemma same_Cancel:
  assumes "same_sim p q s s'"
  shows "same_sim p q (Sim_Cancel i s) (Sim_Cancel i s')"
proof -
  have "same_sim p q (Sim_cancel_impl impl s) (Sim_cancel_impl impl s')" for impl
    using assms by (simp add: same_sim_def Sim_cancel_impl_def)
  with assms same_expired [OF assms, of i] show ?thesis
    by (cases "id_impl i") (simp_all add: Sim_Cancel_def)
qed

lemma same_destroyEvents:
  "same_sim p q s s' \<Longrightarrow> same_sim p q (s\<lparr>m_destroyEvents := remove1 i (m_destroyEvents s)\<rparr>)
     (s'\<lparr>m_destroyEvents := remove1 i (m_destroyEvents s')\<rparr>)"
  by (simp add: same_sim_def)

locale store_pair = one: engine ops1 inv1 pend1 + two: engine ops2 inv2 pend2
  for ops1 :: "'p scheduler" and inv1 pend1 and ops2 :: "'q scheduler" and inv2 pend2
begin

abbreviation same :: "'p sim \<Rightarrow> 'q sim \<Rightarrow> bool" where
  "same \<equiv> same_sim pend1 pend2"

definition related :: "'p sim \<Rightarrow> 'q sim \<Rightarrow> bool" where
  "related s s' \<longleftrightarrow> same s s' \<and> one.ok s \<and> two.ok s'"

lemma insert_same:
  assumes r: "related s s'" and fits: "uids_used s + 1 < 2 ^ 32"
    and ts: "m_currentTs s \<le> ts" "unat ts < 2 ^ 63"
  obtains s1 s1' where "Sim_insert ops1 ts ctxt impl s = Some s1"
    and "Sim_insert ops2 ts ctxt impl s' = Some s1'" and "same s1 s1'"
proof -
  have r': "same s s'" "one.ok s" "two.ok s'" using r by (simp_all add: related_def)
  have fits': "uids_used s' + 1 < 2 ^ 32" and ts': "m_currentTs s' \<le> ts" "m_uid s' = m_uid s"
    using same_uids [OF r'(1)] fits ts(1) r'(1) by (simp_all add: same_sim_def)
  from one.insert_ok [OF r'(2) fits ts, of impl ctxt] two.insert_ok [OF r'(3) fits' ts'(1) ts(2), of impl ctxt]
  obtain q q' where
    "pend1 q = insert \<lparr>ev_impl = impl, ev_key = \<lparr>ek_ts = ts, ek_uid = m_uid s, ek_context = ctxt\<rparr>\<rparr>
        (pend1 (m_events s))"
    "pend2 q' = insert \<lparr>ev_impl = impl, ev_key = \<lparr>ek_ts = ts, ek_uid = m_uid s', ek_context = ctxt\<rparr>\<rparr>
        (pend2 (m_events s'))"
    and ins: "Sim_insert ops1 ts ctxt impl s = Some (s\<lparr>m_uid := m_uid s + 1,
      m_unscheduledEvents := m_unscheduledEvents s + 1, m_events := q, inserted := inserted s @
        [\<lparr>ev_impl = impl, ev_key = \<lparr>ek_ts = ts, ek_uid = m_uid s, ek_context = ctxt\<rparr>\<rparr>]\<rparr>)"
    "Sim_insert ops2 ts ctxt impl s' = Some (s'\<lparr>m_uid := m_uid s' + 1,
      m_unscheduledEvents := m_unscheduledEvents s' + 1, m_events := q', inserted := inserted s' @
        [\<lparr>ev_impl = impl, ev_key = \<lparr>ek_ts = ts, ek_uid = m_uid s', ek_context = ctxt\<rparr>\<rparr>]\<rparr>)"
    by blast
  with r'(1) ts'(2) show thesis by (intro that [OF ins]) (simp add: same_sim_def)
qed

lemma schedule_same:
  assumes r: "related s s'" and run: "Sim_Schedule ops1 delay impl s = Some s1" and "uids_used s1 < 2 ^ 32"
  shows "\<exists>s1'. Sim_Schedule ops2 delay impl s' = Some s1' \<and> same s1 s1'"
proof -
  have r': "same s s'" "one.ok s" using r by (simp_all add: related_def)
  from run obtain ts where d: "0 \<le> delay" and ts: "Sim_tAbsolute delay s = Some ts"
    by (auto simp: Sim_Schedule_def bind_eq_Some_conv)
  have fits: "uids_used s + 1 < 2 ^ 32"
    using run assms(3)
    by (auto simp: Sim_Schedule_def Sim_insert_def Let_def uids_used_def bind_eq_Some_conv)
  have small: "unat (m_currentTs s) < 2 ^ 63" using r'(2) by (simp add: sim_ok_def)
  obtain t t' where "Sim_insert ops1 ts (m_currentContext s) impl s = Some t"
    "Sim_insert ops2 ts (m_currentContext s) impl s' = Some t'" "same t t'"
    by (rule insert_same [OF r fits tAbsolute_later [OF small d ts]])
  moreover have "m_currentContext s' = m_currentContext s" "m_uid s' = m_uid s"
    using r'(1) by (simp_all add: same_sim_def)
  ultimately have
    "s1 = t\<lparr>issued := issued t @ [\<lparr>id_impl = Some impl, id_ts = ts, id_context = m_currentContext s,
       id_uid = m_uid s\<rparr>]\<rparr>"
    "Sim_Schedule ops2 delay impl s' = Some (t'\<lparr>issued := issued t' @
       [\<lparr>id_impl = Some impl, id_ts = ts, id_context = m_currentContext s, id_uid = m_uid s\<rparr>]\<rparr>)"
    using run d ts same_tAbsolute [OF r'(1), of delay] by (simp_all add: Sim_Schedule_def Let_def)
  with \<open>same t t'\<close> show ?thesis by (simp add: same_sim_def)
qed

lemma remove_same:
  assumes r: "related s s'" and i: "i = EventId_default \<or> i \<in> set (issued s)"
    and run: "Sim_Remove ops1 i s = Some s1"
  shows "\<exists>s1'. Sim_Remove ops2 i s' = Some s1' \<and> same s1 s1'"
proof (cases "id_uid i = UID_DESTROY \<or> Sim_IsExpired i s")
  case True
  show ?thesis
  proof (cases "id_uid i = UID_DESTROY")
    case True
    with run r same_destroyEvents show ?thesis by (auto simp: Sim_Remove_def related_def)
  next
    case no: False
    with True have x: "Sim_IsExpired i s" by simp
    have "same s s'" using r by (simp add: related_def)
    from x same_expired [OF this, of i] have "Sim_IsExpired i s" "Sim_IsExpired i s'" by simp_all
    with no run r show ?thesis by (simp add: Sim_Remove_def related_def)
  qed
next
  case False
  have r': "same s s'" "one.ok s" "two.ok s'" using r by (simp_all add: related_def)
  have mem: "i \<in> set (issued s)" "i \<in> set (issued s')"
    using False i default_expired r'(1) by (auto simp: same_sim_def)
  have live: "id_uid i \<noteq> UID_DESTROY" "\<not> Sim_IsExpired i s" "\<not> Sim_IsExpired i s'"
    using False same_expired [OF r'(1)] by auto
  obtain e q where e: "names_event i e" and q: "pend1 q = pend1 (m_events s) - {e}"
    and rem: "Sim_Remove ops1 i s = Some (Sim_cancel_impl (ev_impl e)
      (s\<lparr>m_events := q, m_unscheduledEvents := m_unscheduledEvents s - 1\<rparr>))"
    by (rule one.remove_live [OF r'(2) mem(1) live(1,2)])
  obtain e' q' where e': "names_event i e'" and q': "pend2 q' = pend2 (m_events s') - {e'}"
    and rem': "Sim_Remove ops2 i s' = Some (Sim_cancel_impl (ev_impl e')
      (s'\<lparr>m_events := q', m_unscheduledEvents := m_unscheduledEvents s' - 1\<rparr>))"
    by (rule two.remove_live [OF r'(3) mem(2) live(1,3)])
  have "e' = e" using e e' by (cases e; cases e') (auto simp: names_event_def)
  then have "same (Sim_cancel_impl (ev_impl e)
        (s\<lparr>m_events := q, m_unscheduledEvents := m_unscheduledEvents s - 1\<rparr>))
      (Sim_cancel_impl (ev_impl e')
        (s'\<lparr>m_events := q', m_unscheduledEvents := m_unscheduledEvents s' - 1\<rparr>))"
    using r'(1) q q' by (simp add: same_sim_def Sim_cancel_impl_def)
  with run rem rem' show ?thesis by simp
qed

lemma do_call_same:
  assumes r: "related s s'" and c: "call_ok c" and run: "do_call ops1 c s = Some s1"
    and fits: "uids_used s1 < 2 ^ 32"
  obtains s1' where "do_call ops2 c s' = Some s1'" and "related s1 s1'"
proof -
  have r': "same s s'" "one.ok s" "two.ok s'" using r by (simp_all add: related_def)
  have "\<exists>s1'. do_call ops2 c s' = Some s1' \<and> same s1 s1'"
  proof (cases c)
    case (CallSchedule delay impl)
    with schedule_same [OF r _ fits] run show ?thesis by simp
  next
    case (CallScheduleNow impl)
    with schedule_same [OF r _ fits] run show ?thesis by (simp add: Sim_ScheduleNow_def)
  next
    case (CallScheduleWithContext ctxt delay impl)
    with run obtain ts where ts: "Sim_tAbsolute delay s = Some ts" "Sim_insert ops1 ts ctxt impl s = Some s1"
      by (auto simp: Sim_ScheduleWithContext_def bind_eq_Some_conv)
    have fit: "uids_used s + 1 < 2 ^ 32"
      using ts(2) fits by (auto simp: Sim_insert_def Let_def uids_used_def bind_eq_Some_conv)
    have small: "unat (m_currentTs s) < 2 ^ 63" using r'(2) by (simp add: sim_ok_def)
    have "0 \<le> delay" using c CallScheduleWithContext by simp
    note later = tAbsolute_later [OF small this ts(1)]
    obtain t t' where "Sim_insert ops1 ts ctxt impl s = Some t" "Sim_insert ops2 ts ctxt impl s' = Some t'"
      "same t t'" by (rule insert_same [OF r fit later])
    with ts CallScheduleWithContext same_tAbsolute [OF r'(1), of delay] show ?thesis
      by (simp add: Sim_ScheduleWithContext_def)
  next
    case (CallScheduleDestroy impl)
    with run same_ScheduleDestroy [OF r'(1)] show ?thesis by auto
  next
    case (CallCancel k)
    with run same_Cancel [OF r'(1)] same_issued_id [OF r'(1), of k] show ?thesis by auto
  next
    case (CallRemove k)
    with run have "Sim_Remove ops1 (issued_id k s) s = Some s1" by simp
    from remove_same [OF r issued_id_cases this] CallRemove same_issued_id [OF r'(1), of k]
    show ?thesis by simp
  next
    case CallStop
    with run same_Stop [OF r'(1)] show ?thesis by auto
  qed (use c in simp)
  then obtain s1' where s1': "do_call ops2 c s' = Some s1'" "same s1 s1'" by blast
  have "uids_used s1' < 2 ^ 32" using same_uids [OF s1'(2)] fits by simp
  then have "two.ok s1'" by (rule two.do_call_ok [OF r'(3) c s1'(1)])
  with one.do_call_ok [OF r'(2) c run fits] s1' show thesis by (intro that) (simp_all add: related_def)
qed

lemma do_calls_same:
  "related s s' \<Longrightarrow> list_all call_ok cs \<Longrightarrow> fold_opt (do_call ops1) cs s = Some s1 \<Longrightarrow>
     uids_used s1 < 2 ^ 32 \<Longrightarrow> \<exists>s1'. fold_opt (do_call ops2) cs s' = Some s1' \<and> related s1 s1'"
proof (induction cs arbitrary: s s')
  case (Cons c cs)
  from Cons.prems(3) obtain t where t: "do_call ops1 c s = Some t" "fold_opt (do_call ops1) cs t = Some s1"
    by (auto simp: bind_eq_Some_conv)
  from Cons.prems(2) have c: "call_ok c" "list_all call_ok cs" by simp_all
  have "uids_used t < 2 ^ 32"
    using steps_grow [OF calls_steps [OF t(2) c(2)]] Cons.prems(4) by simp
  then obtain t' where "do_call ops2 c s' = Some t'" "related t t'"
    by (rule do_call_same [OF Cons.prems(1) c(1) t(1)])
  with Cons.IH [OF _ c(2) t(2) Cons.prems(4)] show ?case by auto
qed simp

section \<open>The same events in the same order\<close>

lemma empty_same:
  assumes "related s s'"
  shows "op_IsEmpty ops2 (m_events s') \<longleftrightarrow> op_IsEmpty ops1 (m_events s)"
proof -
  have "inv1 (m_currentTs s) (m_events s)" "inv2 (m_currentTs s') (m_events s')"
    using assms by (simp_all add: related_def sim_ok_def)
  with one.isEmpty_law two.isEmpty_law assms show ?thesis by (auto simp: related_def same_sim_def)
qed

lemma next_same:
  assumes r: "related s s'" and ne: "\<not> op_IsEmpty ops1 (m_events s)"
  obtains nx q q' where "op_RemoveNext ops1 (m_events s) = Some (nx, q)"
    and "op_RemoveNext ops2 (m_events s') = Some (nx, q')"
    and "m_currentTs s \<le> ev_ts nx" and "m_currentTs s' \<le> ev_ts nx"
    and "related (enter_event nx (begin_event nx q s)) (enter_event nx (begin_event nx q' s'))"
proof -
  have r': "same s s'" "one.ok s" "two.ok s'" using r by (simp_all add: related_def)
  have ne': "\<not> op_IsEmpty ops2 (m_events s')" using ne empty_same [OF r] by simp
  obtain nx q where a: "op_RemoveNext ops1 (m_events s) = Some (nx, q)" "m_currentTs s \<le> ev_ts nx"
    "first_of (pend1 (m_events s)) nx" "pend1 q = pend1 (m_events s) - {nx}"
    "one.ok (enter_event nx (begin_event nx q s))"
    by (rule one.next_event_ok [OF r'(2) ne])
  obtain nx' q' where b: "op_RemoveNext ops2 (m_events s') = Some (nx', q')" "m_currentTs s' \<le> ev_ts nx'"
    "first_of (pend2 (m_events s')) nx'" "pend2 q' = pend2 (m_events s') - {nx'}"
    "two.ok (enter_event nx' (begin_event nx' q' s'))"
    by (rule two.next_event_ok [OF r'(3) ne'])
  have p: "pend2 (m_events s') = pend1 (m_events s)" using r'(1) by (simp add: same_sim_def)
  have eq: "nx' = nx"
    using first_of_unique [OF _ _ b(3) [unfolded p]] a(3) one.ok_events [OF r'(2)] by blast
  have "same (enter_event nx (begin_event nx q s)) (enter_event nx (begin_event nx q' s'))"
    using r'(1) a(4) b(4) eq by (simp add: same_sim_def enter_event_def begin_event_def)
  with a b eq show thesis by (intro that) (simp_all add: related_def)
qed

lemma process_same:
  assumes r: "related s s'" and prog: "program_ok prog" and ne: "\<not> op_IsEmpty ops1 (m_events s)"
    and run: "Sim_ProcessOneEvent ops1 prog s = Some s1" and fits: "uids_used s1 < 2 ^ 32"
  shows "\<exists>s1'. Sim_ProcessOneEvent ops2 prog s' = Some s1' \<and> related s1 s1'"
proof -
  obtain nx q q' where n: "op_RemoveNext ops1 (m_events s) = Some (nx, q)"
    "op_RemoveNext ops2 (m_events s') = Some (nx, q')"
    "m_currentTs s \<le> ev_ts nx" "m_currentTs s' \<le> ev_ts nx"
    and r1: "related (enter_event nx (begin_event nx q s)) (enter_event nx (begin_event nx q' s'))"
    by (rule next_same [OF r ne])
  let ?t = "enter_event nx (begin_event nx q s)" and ?t' = "enter_event nx (begin_event nx q' s')"
  have c: "cancelled (begin_event nx q s) = cancelled (begin_event nx q' s')" "invoked ?t' = invoked ?t"
    using r r1 by (simp_all add: related_def same_sim_def begin_event_def)
  from run n(1) obtain t1 where t1: "Sim_Invoke ops1 prog nx (begin_event nx q s) = Some t1"
    "Sim_ProcessEventsWithContext ops1 t1 = Some s1"
    by (auto simp: ProcessOneEvent_begin bind_eq_Some_conv)
  have "m_eventsWithContextEmpty t1"
    using steps_context [OF invoke_steps [OF t1(1) prog]] r1 by (simp add: related_def sim_ok_def)
  with t1(2) have s1: "t1 = s1" by (simp add: Sim_ProcessEventsWithContext_def)
  have "\<exists>s1'. Sim_Invoke ops2 prog nx (begin_event nx q' s') = Some s1' \<and> related s1 s1'"
  proof (cases "cancelled (begin_event nx q s) (ev_impl nx)")
    case True
    with t1(1) s1 r1 c(1) show ?thesis by (simp add: Invoke_enter)
  next
    case False
    with t1(1) s1 have "fold_opt (do_call ops1) (prog (invoked ?t)) ?t = Some s1" by (simp add: Invoke_enter)
    moreover have "list_all call_ok (prog (invoked ?t))" using prog by (simp add: program_ok_def)
    ultimately obtain s1' where "fold_opt (do_call ops2) (prog (invoked ?t)) ?t' = Some s1'" "related s1 s1'"
      using do_calls_same [OF r1 _ _ fits] by blast
    with False c show ?thesis by (simp add: Invoke_enter)
  qed
  then obtain s1' where s1': "Sim_Invoke ops2 prog nx (begin_event nx q' s') = Some s1'" "related s1 s1'"
    by blast
  then have "m_eventsWithContextEmpty s1'" by (simp add: related_def sim_ok_def)
  with s1' n(2,4) show ?thesis
    by (simp add: ProcessOneEvent_begin Sim_ProcessEventsWithContext_def)
qed

lemma loop_same:
  assumes "Sim_loop ops1 prog s = Some s1" and prog: "program_ok prog" and "related s s'"
    and "uids_used s1 < 2 ^ 32"
  shows "\<exists>s1'. Sim_loop ops2 prog s' = Some s1' \<and> related s1 s1'"
  using assms(1,3,4)
proof (induction arbitrary: s' rule: loop_induct)
  case (finished s)
  then have "Sim_IsFinished ops2 s'"
    using empty_same [OF finished.prems(1)] by (auto simp: Sim_IsFinished_def related_def same_sim_def)
  with finished show ?case by (simp add: Sim_loop.simps [of ops2 prog s'])
next
  case (process s t s1)
  have ne: "\<not> op_IsEmpty ops1 (m_events s)" using process.hyps(1) by (simp add: Sim_IsFinished_def)
  have cont: "\<not> Sim_IsFinished ops2 s'"
    using process.hyps(1) empty_same [OF process.prems(1)] process.prems(1)
    by (auto simp: Sim_IsFinished_def related_def same_sim_def)
  have "m_eventsWithContextEmpty s" using process.prems(1) by (simp add: related_def sim_ok_def)
  from process_steps [OF process.hyps(2) prog this ne] this have "m_eventsWithContextEmpty t"
    by (simp add: steps_context)
  from loop_steps [OF process.hyps(3) prog this] steps_grow have "uids_used t \<le> uids_used s1" by blast
  then have "uids_used t < 2 ^ 32" using process.prems(2) by linarith
  from process_same [OF process.prems(1) prog ne process.hyps(2) this] obtain t' where
    t': "Sim_ProcessOneEvent ops2 prog s' = Some t'" "related t t'" by blast
  from process.IH [OF t'(2) process.prems(2)] t'(1) cont show ?case
    by (simp add: Sim_loop.simps [of ops2 prog s'])
qed

theorem simulate_same:
  assumes q: "inv1 0 q" "pend1 q = {}" "inv2 0 q'" "pend2 q' = {}"
    and run: "simulate ops1 q calls prog = Some s" and main: "list_all call_ok calls"
    and prog: "program_ok prog" and fits: "uids_used s < 2 ^ 32"
  shows "\<exists>s'. simulate ops2 q' calls prog = Some s' \<and> same s s'"
proof -
  from run obtain s1 s2 where
    s1: "fold_opt (do_call ops1) calls (Sim_make q) = Some s1" and
    s2: "Sim_ProcessEventsWithContext ops1 s1 = Some s2" and
    loop: "Sim_loop ops1 prog (s2\<lparr>m_stop := False\<rparr>) = Some s" and
    final: "\<not> op_IsEmpty ops1 (m_events s) \<or> m_unscheduledEvents s = 0"
    by (auto simp: simulate_def Sim_Run_def bind_eq_Some_conv)
  have r: "related (Sim_make q) (Sim_make q')"
    using one.make_ok [OF q(1,2)] two.make_ok [OF q(3,4)] q(2,4)
    by (simp add: related_def) (simp add: same_sim_def Sim_make_def)
  have "m_eventsWithContextEmpty s1"
    using steps_context [OF calls_steps [OF s1 main]] by (simp add: Sim_make_def)
  with s2 have e: "s2 = s1" "m_eventsWithContextEmpty (s1\<lparr>m_stop := False\<rparr>)"
    by (simp_all add: Sim_ProcessEventsWithContext_def)
  from loop_steps [OF loop [unfolded e(1)] prog e(2)] have "uids_used (s1\<lparr>m_stop := False\<rparr>) \<le> uids_used s"
    using steps_grow by blast
  then have "uids_used s1 < 2 ^ 32" using fits by (simp add: sim_simps)
  from do_calls_same [OF r main s1 this] obtain s1' where
    s1': "fold_opt (do_call ops2) calls (Sim_make q') = Some s1'" "related s1 s1'" by blast
  have "related (s1\<lparr>m_stop := False\<rparr>) (s1'\<lparr>m_stop := False\<rparr>)"
    using s1'(2) by (simp add: related_def sim_ok_def uids_used_def cur_prio_def) (simp add: same_sim_def)
  from loop_same [OF loop [unfolded e(1)] prog this fits] obtain s' where
    s': "Sim_loop ops2 prog (s1'\<lparr>m_stop := False\<rparr>) = Some s'" "related s s'" by blast
  have "Sim_ProcessEventsWithContext ops2 s1' = Some s1'"
    using s1'(2) by (simp add: related_def sim_ok_def Sim_ProcessEventsWithContext_def)
  moreover have "\<not> op_IsEmpty ops2 (m_events s') \<or> m_unscheduledEvents s' = 0"
    using final empty_same [OF s'(2)] s'(2) by (auto simp: related_def same_sim_def)
  ultimately have "simulate ops2 q' calls prog = Some s'"
    using s1'(1) s'(1) by (simp add: simulate_def Sim_Run_def)
  with s'(2) show ?thesis by (auto simp: related_def)
qed

end

end
