(* ===== verification/Simulator_Properties.thy ===== *)
theory Simulator_Properties
  imports Scheduler_Agreement Simulator_Ends Simulator_Pair
begin

text \<open>
  What the engine promises its users, stated over the map scheduler, the default one: the order
  of events, what an event id says, that a cancelled event never runs, that a bounded program
  ends. The other schedulers give the same runs, and \<open>SetScheduler\<close> moves all events.
\<close>

section \<open>Changing the scheduler\<close>

locale queue_pair = old: event_queue ops1 inv1 pend1 + new: event_queue ops2 inv2 pend2
  for ops1 :: "'p scheduler" and inv1 pend1 and ops2 :: "'q scheduler" and inv2 pend2
begin

lemma move_all:
  assumes "inv1 t p" and "inv2 t0 q" and "events_ok (pend1 p \<union> pend2 q)"
    and "card (pend1 p \<union> pend2 q) < 2 ^ 32" and "pend1 p \<inter> pend2 q = {}"
    and "\<forall>e \<in> pend1 p. t0 \<le> ev_ts e"
  shows "\<exists>q'. Sim_move ops1 ops2 p q = Some q' \<and> inv2 t0 q' \<and> pend2 q' = pend1 p \<union> pend2 q"
  using assms
proof (induction "card (pend1 p)" arbitrary: t p q rule: less_induct)
  case less
  note p = less.prems(1) and q = less.prems(2) and evs = less.prems(3)
  have fin: "finite (pend1 p \<union> pend2 q)" using evs by (simp add: events_ok_def)
  show ?case
  proof (cases "pend1 p = {}")
    case True
    then have "op_IsEmpty ops1 p" using old.isEmpty_law [OF p] by simp
    with q True show ?thesis by (simp add: Sim_move.simps [of ops1 ops2 p q])
  next
    case False
    then have ne: "\<not> op_IsEmpty ops1 p" using old.isEmpty_law [OF p] by simp
    from old.remove_next_law [OF p False] obtain nx p' where
      n: "op_RemoveNext ops1 p = Some (nx, p')" "first_of (pend1 p) nx" "inv1 (ev_ts nx) p'"
        "pend1 p' = pend1 p - {nx}" by blast
    have nx: "nx \<in> pend1 p" using n(2) by (simp add: first_of_def)
    have ts: "unat (ev_ts nx) < 2 ^ 63" using evs nx by (simp add: events_ok_def)
    have "ev_uid nx \<notin> ev_uid ` pend2 q"
      using evs nx less.prems(5) uid_eq by blast
    moreover have "card (pend2 q) + 1 < 2 ^ 32 \<or> card (pend2 q) + 1 = card (pend1 p \<union> pend2 q)"
    proof -
      have "insert nx (pend2 q) \<subseteq> pend1 p \<union> pend2 q" "nx \<notin> pend2 q" using nx less.prems(5) by auto
      then have "card (pend2 q) + 1 \<le> card (pend1 p \<union> pend2 q)"
        using fin by (metis Suc_eq_plus1 card_insert_disjoint card_mono finite_Un)
      with less.prems(4) show ?thesis by linarith
    qed
    ultimately have "insertable t0 (pend2 q) nx"
      using less.prems(4,6) nx ts by (auto simp: insertable_def)
    from new.insert_law [OF q this] obtain q1 where
      q1: "op_Insert ops2 nx q = Some q1" "inv2 t0 q1" "pend2 q1 = insert nx (pend2 q)" by blast
    have u: "pend1 p' \<union> pend2 q1 = pend1 p \<union> pend2 q" using n(4) q1(3) nx by auto
    have "finite (pend1 p)" using fin by simp
    then have "card (pend1 p') < card (pend1 p)" unfolding n(4) using nx by (rule card_Diff1_less)
    moreover have "pend1 p' \<inter> pend2 q1 = {}" using n(4) q1(3) less.prems(5) by auto
    ultimately have "\<exists>q'. Sim_move ops1 ops2 p' q1 = Some q' \<and> inv2 t0 q' \<and>
        pend2 q' = pend1 p' \<union> pend2 q1"
      using less.hyps [of p' "ev_ts nx" q1] n(3,4) q1(2) evs less.prems(4,6) u by simp
    with n(1) q1(1) ne u show ?thesis by (simp add: Sim_move.simps [of ops1 ops2 p q])
  qed
qed

end

interpretation to_heap: queue_pair MapScheduler_ops map_inv map_pending
  HeapScheduler_ops heap_inv "\<lambda>h. set (tl h)" ..

interpretation to_calendar: queue_pair MapScheduler_ops map_inv map_pending
  Calendar_ops calendar_inv calendar_pending ..

interpretation map_engine: engine MapScheduler_ops map_inv map_pending ..

interpretation map_list: store_pair MapScheduler_ops map_inv map_pending ListScheduler_ops list_inv set ..

interpretation map_pq: store_pair MapScheduler_ops map_inv map_pending PriorityQueue_ops pq_inv pq_events ..

interpretation map_calendar: store_pair MapScheduler_ops map_inv map_pending
  Calendar_ops calendar_inv calendar_pending ..

section \<open>A small program\<close>

text \<open>
  Three events, two at the same time; the first schedules a fourth and cancels the last.
\<close>

definition demo_calls :: "sim_call list" where
  "demo_calls = [CallSchedule 10 0, CallSchedule 20 2, CallSchedule 10 3]"

definition demo_program :: program where
  "demo_program h = (if length h = 1 then [CallSchedule 5 1, CallCancel 1] else [])"

lemma demo_ok: "list_all call_ok demo_calls" "program_ok demo_program"
  by (simp_all add: demo_calls_def demo_program_def program_ok_def)

lemma demo_run:
  obtains s where "simulate MapScheduler_ops MapScheduler_make demo_calls demo_program = Some s"
    and "map ev_impl (invoked s) = [0, 3, 1]" and "uids_used s = 8"
proof -
  have "map_option (\<lambda>s. (map ev_impl (invoked s), uids_used s, m_unscheduledEvents s,
          op_IsEmpty MapScheduler_ops (m_events s)))
      (do { s \<leftarrow> fold_opt (do_call MapScheduler_ops) demo_calls (Sim_make MapScheduler_make);
            s \<leftarrow> Sim_ProcessEventsWithContext MapScheduler_ops s;
            loop_for 5 MapScheduler_ops demo_program (s\<lparr>m_stop := False\<rparr>) }) =
      Some ([0, 3, 1], 8, 0, True)"
    by code_simp
  then obtain s1 s2 s where
    "fold_opt (do_call MapScheduler_ops) demo_calls (Sim_make MapScheduler_make) = Some s1"
    "Sim_ProcessEventsWithContext MapScheduler_ops s1 = Some s2"
    "loop_for 5 MapScheduler_ops demo_program (s2\<lparr>m_stop := False\<rparr>) = Some s"
    "map ev_impl (invoked s) = [0, 3, 1]" "uids_used s = 8" "m_unscheduledEvents s = 0"
    by (auto simp: bind_eq_Some_conv)
  moreover from loop_for_enough [OF this(3)] this(1,2,6)
  have "simulate MapScheduler_ops MapScheduler_make demo_calls demo_program = Some s"
    by (simp add: simulate_def Sim_Run_def)
  ultimately show thesis by (intro that)
qed

text \<open>The state before the run.\<close>

lemma demo_before:
  obtains s where "sim_steps MapScheduler_ops (Sim_make MapScheduler_make) s" and "uids_used s = 7"
    and "issued s ! 1 = \<lparr>id_impl = Some 2, id_ts = 20, id_context = 0xffffffff, id_uid = 5\<rparr>"
    and "length (issued s) = 3" and "\<not> Sim_IsExpired (issued s ! 1) s"
    and "length (m_events s) = 3" and "issued s ! 1 \<in> set (issued s)"
proof -
  have "map_option (\<lambda>s. (uids_used s, issued s ! 1, length (issued s), Sim_IsExpired (issued s ! 1) s,
        length (m_events s)))
      (fold_opt (do_call MapScheduler_ops) demo_calls (Sim_make MapScheduler_make)) =
      Some (7, \<lparr>id_impl = Some 2, id_ts = 20, id_context = 0xffffffff, id_uid = 5\<rparr>, 3, False, 3)"
    by code_simp
  then obtain s where s: "fold_opt (do_call MapScheduler_ops) demo_calls (Sim_make MapScheduler_make) = Some s"
    "uids_used s = 7" "issued s ! 1 = \<lparr>id_impl = Some 2, id_ts = 20, id_context = 0xffffffff, id_uid = 5\<rparr>"
    "length (issued s) = 3" "\<not> Sim_IsExpired (issued s ! 1) s" "length (m_events s) = 3" by auto
  from calls_steps [OF s(1) demo_ok(1)] s show thesis by (intro that) (auto intro: nth_mem)
qed

section \<open>The order of events\<close>

text \<open>
  Property C6: a simulation invokes events strictly in the order of their keys, that is by time
  and at the same time in the order they were scheduled, none twice and only scheduled ones;
  unless it was stopped, every scheduled event was invoked or cancelled when \<open>Run\<close> returns.
\<close>

theorem simulation_order:
  assumes "simulate MapScheduler_ops MapScheduler_make calls prog = Some s"
    and "list_all call_ok calls" and "program_ok prog" and "uids_used s < 2 ^ 32"
  shows "sorted_wrt (\<lambda>a b. EventKey_less (ev_key a) (ev_key b)) (invoked s) \<and>
    set (invoked s) \<subseteq> set (inserted s) \<and>
    (m_stop s \<or> (\<forall>e \<in> set (inserted s). e \<in> set (invoked s) \<or> cancelled s (ev_impl e)))"
proof -
  note run = simulate_steps [OF assms(1-3)]
  have "sim_ok map_inv map_pending s" using map_engine.reached_ok [OF map_make run(1) assms(4)] .
  from map_engine.run_in_order [OF this run(2)] show ?thesis by (simp add: key_prio_less)
qed

theorem simulation_order_witness:
  "\<exists>s. simulate MapScheduler_ops MapScheduler_make demo_calls demo_program = Some s \<and>
     map ev_impl (invoked s) = [0, 3, 1] \<and>
     sorted_wrt (\<lambda>a b. EventKey_less (ev_key a) (ev_key b)) (invoked s)"
proof -
  obtain s where s: "simulate MapScheduler_ops MapScheduler_make demo_calls demo_program = Some s"
    "map ev_impl (invoked s) = [0, 3, 1]" "uids_used s = 8" by (rule demo_run)
  with simulation_order [OF s(1) demo_ok] show ?thesis by simp
qed

section \<open>Event ids\<close>

text \<open>
  In every state, the id that scheduling an event returned is expired exactly when
  the event is no longer pending or was cancelled, and \<open>GetDelayLeft\<close> is the time left to a
  pending event.
\<close>

theorem event_id_status:
  assumes "sim_steps MapScheduler_ops (Sim_make MapScheduler_make) s" and "uids_used s < 2 ^ 32"
    and "i \<in> set (issued s)" and "id_uid i \<noteq> UID_DESTROY"
  shows "\<exists>e \<in> set (inserted s). names_event i e \<and>
    (Sim_IsExpired i s \<longleftrightarrow> e \<notin> map_pending (m_events s) \<or> cancelled s (ev_impl e)) \<and>
    Sim_GetDelayLeft i s =
      (if e \<notin> map_pending (m_events s) \<or> cancelled s (ev_impl e) then 0
       else int (unat (ev_ts e)) - int (unat (m_currentTs s)))"
proof -
  have "sim_ok map_inv map_pending s" using map_engine.reached_ok [OF map_make assms(1,2)] .
  from map_engine.id_status [OF this assms(3,4)] show ?thesis by blast
qed

theorem event_id_status_witness:
  "\<exists>s e. sim_steps MapScheduler_ops (Sim_make MapScheduler_make) s \<and>
     e \<in> map_pending (m_events s) \<and> names_event (issued s ! 1) e \<and> ev_ts e = 20"
proof -
  obtain s where s: "sim_steps MapScheduler_ops (Sim_make MapScheduler_make) s" "uids_used s = 7"
    "issued s ! 1 = \<lparr>id_impl = Some 2, id_ts = 20, id_context = 0xffffffff, id_uid = 5\<rparr>"
    "\<not> Sim_IsExpired (issued s ! 1) s" "issued s ! 1 \<in> set (issued s)" by (rule demo_before)
  have "id_uid (issued s ! 1) \<noteq> UID_DESTROY" unfolding s(3) by (simp add: UID_DESTROY_def)
  from event_id_status [OF s(1) _ s(5) this] s(1,2,4) obtain e where
    "e \<in> map_pending (m_events s)" "names_event (issued s ! 1) e" by auto
  moreover from this(2) s(3) have "ev_ts e = 20" by (simp add: names_event_def)
  ultimately show ?thesis using s(1) by blast
qed

text \<open>
  Property C7: \<open>Cancel\<close> and \<open>Remove\<close> of an id that has not expired name a pending event;
  \<open>Remove\<close> does not fail and takes exactly this event from the container; after either of them
  the event is never invoked, whatever the program does.
\<close>

theorem cancelled_event_never_runs:
  assumes "sim_steps MapScheduler_ops (Sim_make MapScheduler_make) s" and "uids_used s < 2 ^ 32"
    and "i \<in> set (issued s)" and "id_uid i \<noteq> UID_DESTROY" and "\<not> Sim_IsExpired i s"
  shows "\<exists>e s1. e \<in> map_pending (m_events s) \<and> names_event i e \<and>
    (\<forall>s'. sim_steps MapScheduler_ops (Sim_Cancel i s) s' \<longrightarrow> e \<notin> set (invoked s')) \<and>
    Sim_Remove MapScheduler_ops i s = Some s1 \<and>
    map_pending (m_events s1) = map_pending (m_events s) - {e} \<and>
    (\<forall>s'. sim_steps MapScheduler_ops s1 s' \<longrightarrow> e \<notin> set (invoked s'))"
proof -
  have ok: "sim_ok map_inv map_pending s" using map_engine.reached_ok [OF map_make assms(1,2)] .
  obtain e s1 where e: "names_event i e" "e \<in> map_pending (m_events s)"
    and s1: "Sim_Remove MapScheduler_ops i s = Some s1"
      "map_pending (m_events s1) = map_pending (m_events s) - {e}"
      "\<And>s'. sim_steps MapScheduler_ops s1 s' \<Longrightarrow> e \<notin> set (invoked s')"
    by (rule map_engine.remove_stops [OF ok assms(3-5)]) blast
  from map_engine.cancel_stops [OF ok e assms(5)] e s1 show ?thesis by blast
qed

theorem cancelled_event_never_runs_witness:
  "\<exists>s s1. sim_steps MapScheduler_ops (Sim_make MapScheduler_make) s \<and>
     Sim_Remove MapScheduler_ops (issued s ! 1) s = Some s1 \<and>
     map_pending (m_events s1) \<noteq> map_pending (m_events s)"
proof -
  obtain s where s: "sim_steps MapScheduler_ops (Sim_make MapScheduler_make) s" "uids_used s = 7"
    "issued s ! 1 = \<lparr>id_impl = Some 2, id_ts = 20, id_context = 0xffffffff, id_uid = 5\<rparr>"
    "\<not> Sim_IsExpired (issued s ! 1) s" "issued s ! 1 \<in> set (issued s)" by (rule demo_before)
  have "id_uid (issued s ! 1) \<noteq> UID_DESTROY" unfolding s(3) by (simp add: UID_DESTROY_def)
  from cancelled_event_never_runs [OF s(1) _ s(5) this s(4)] s(1,2) show ?thesis by fastforce
qed

section \<open>Termination\<close>

text \<open>
  Property C35: a program whose first \<open>N\<close> events make at most \<open>k\<close> calls each, with delays up to
  \<open>D\<close>, and whose later events make none, runs to its end: no assertion fails, no event is lost,
  the container is empty or the program was stopped, and at most \<open>4 + setup + N * k\<close> event ids are
  used.
\<close>

theorem simulation_returns:
  assumes "list_all (call_within D) calls" and "program_within N k D prog"
    and "0 \<le> D" and "(int N + 1) * D \<le> int64_max" and "4 + length calls + N * k < 2 ^ 32"
  shows "\<exists>s. simulate MapScheduler_ops MapScheduler_make calls prog = Some s \<and>
    Sim_IsFinished MapScheduler_ops s \<and> uids_used s \<le> 4 + length calls + N * k"
proof -
  from map_engine.simulate_returns [OF map_make assms] obtain s where
    s: "simulate MapScheduler_ops MapScheduler_make calls prog = Some s"
      "uids_used s \<le> 4 + length calls + N * k" by blast
  have "list_all call_ok calls" using assms(1) within_ok unfolding list_all_iff by blast
  from simulate_steps(2) [OF s(1) this program_within_ok [OF assms(2)]] s show ?thesis by blast
qed

theorem simulation_returns_witness:
  "\<exists>s. simulate MapScheduler_ops MapScheduler_make demo_calls demo_program = Some s \<and>
     Sim_IsFinished MapScheduler_ops s \<and> uids_used s \<le> 9"
proof -
  have "list_all (call_within 20) demo_calls" by (simp add: demo_calls_def)
  moreover have "program_within 1 2 20 demo_program" by (simp add: program_within_def demo_program_def)
  ultimately show ?thesis
    using simulation_returns [of 20 demo_calls 1 2 demo_program] by (simp add: demo_calls_def)
qed

section \<open>The choice of the scheduler\<close>

text \<open>
  Property C34: a program that runs over the map scheduler runs over the list, the priority queue
  and the calendar in the same way: the same events in the same order, and an end state that
  differs in the container only, which holds the same events.
\<close>

theorem scheduler_independent:
  assumes "simulate MapScheduler_ops MapScheduler_make calls prog = Some s"
    and "list_all call_ok calls" and "program_ok prog" and "uids_used s < 2 ^ 32"
  shows "(\<exists>s'. simulate ListScheduler_ops ListScheduler_make calls prog = Some s' \<and>
      same_sim map_pending set s s') \<and>
    (\<exists>s'. simulate PriorityQueue_ops PriorityQueue_make calls prog = Some s' \<and>
      same_sim map_pending pq_events s s') \<and>
    (\<exists>s'. simulate Calendar_ops (CalendarScheduler_make reverse) calls prog = Some s' \<and>
      same_sim map_pending calendar_pending s s')"
  using map_list.simulate_same [OF map_make list_make assms] map_pq.simulate_same [OF map_make pq_make assms]
    map_calendar.simulate_same [OF map_make calendar_inv_make calendar_pending_make assms] by blast

theorem scheduler_independent_witness:
  "\<exists>s. simulate Calendar_ops (CalendarScheduler_make True) demo_calls demo_program = Some s \<and>
     map ev_impl (invoked s) = [0, 3, 1]"
proof -
  obtain s where s: "simulate MapScheduler_ops MapScheduler_make demo_calls demo_program = Some s"
    "map ev_impl (invoked s) = [0, 3, 1]" "uids_used s = 8" by (rule demo_run)
  with scheduler_independent [OF s(1) demo_ok, of True] show ?thesis by (auto simp: same_sim_def)
qed

text \<open>
  In every state of a simulation \<open>SetScheduler\<close> moves all pending events to the new
  container, a heap or a calendar: the loop ends, no insertion fails, the pending events are the
  same, and the new container is sound at the time of the simulation.
\<close>

theorem set_scheduler_keeps_events:
  assumes "sim_steps MapScheduler_ops (Sim_make MapScheduler_make) s" and "uids_used s < 2 ^ 32"
  shows "(\<exists>h. Sim_move MapScheduler_ops HeapScheduler_ops (m_events s) HeapScheduler_make = Some h \<and>
      set (tl h) = map_pending (m_events s) \<and> heap_inv (m_currentTs s) h) \<and>
    (\<exists>c. Sim_move MapScheduler_ops Calendar_ops (m_events s) (CalendarScheduler_make reverse) = Some c \<and>
      calendar_pending c = map_pending (m_events s) \<and> calendar_inv (m_currentTs s) c)"
proof -
  have ok: "sim_ok map_inv map_pending s" using map_engine.reached_ok [OF map_make assms] .
  have inv: "map_inv (m_currentTs s) (m_events s)" using ok by (simp add: sim_ok_def)
  have evs: "events_ok (map_pending (m_events s))" using ok by (rule map_engine.ok_events)
  have card: "card (map_pending (m_events s)) < 2 ^ 32"
    using map_engine.pending_card [OF ok] assms(2) by linarith
  have start: "0 \<le> m_currentTs s" by simp
  obtain h where h: "Sim_move MapScheduler_ops HeapScheduler_ops (m_events s) HeapScheduler_make = Some h"
    "heap_inv 0 h" "set (tl h) = map_pending (m_events s)"
    using to_heap.move_all [OF inv heap_make(1), unfolded heap_make(2)] evs card by auto
  obtain c where c: "Sim_move MapScheduler_ops Calendar_ops (m_events s) (CalendarScheduler_make reverse) = Some c"
    "calendar_inv 0 c" "calendar_pending c = map_pending (m_events s)"
    using to_calendar.move_all [OF inv calendar_inv_make, unfolded calendar_pending_make, of reverse]
      evs card by auto
  show ?thesis
    using h c heap_queue.inv_later [OF h(2) start] calendar_store.inv_later [OF c(2) start] by blast
qed

theorem set_scheduler_keeps_events_witness:
  "\<exists>s h. sim_steps MapScheduler_ops (Sim_make MapScheduler_make) s \<and> length (m_events s) = 3 \<and>
     Sim_move MapScheduler_ops HeapScheduler_ops (m_events s) HeapScheduler_make = Some h \<and>
     set (tl h) = map_pending (m_events s)"
proof -
  obtain s where s: "sim_steps MapScheduler_ops (Sim_make MapScheduler_make) s" "uids_used s = 7"
    "length (m_events s) = 3" by (rule demo_before)
  then have "uids_used s < 2 ^ 32" by simp
  from set_scheduler_keeps_events [OF s(1) this] s(1,3) show ?thesis by blast
qed

end
