(* ===== verification/Seq_Number.thy ===== *)
theory Seq_Number
  imports Prelude
begin

text \<open>
  \<^verbatim>\<open>SequenceNumber<uint32_t, int32_t>\<close> (src/network/utils/sequence-number.h): numbers that wrap
  around and are compared by their distance. The abstraction \<open>sq\<close> numbers the bytes of an
  unbounded stream; comparisons and differences agree with those of the stream positions as
  long as these are less than half the range apart.
\<close>

definition half_max :: u32 where
  "half_max = 0x7fffffff"

definition SeqNum_greater :: "u32 \<Rightarrow> u32 \<Rightarrow> bool" where
  "SeqNum_greater a b \<longleftrightarrow> (a > b \<and> a - b \<le> half_max) \<or> (b > a \<and> b - a > half_max)"

definition SeqNum_le :: "u32 \<Rightarrow> u32 \<Rightarrow> bool" where
  "SeqNum_le a b \<longleftrightarrow> \<not> SeqNum_greater a b"

definition SeqNum_ge :: "u32 \<Rightarrow> u32 \<Rightarrow> bool" where
  "SeqNum_ge a b \<longleftrightarrow> SeqNum_greater a b \<or> a = b"

definition SeqNum_less :: "u32 \<Rightarrow> u32 \<Rightarrow> bool" where
  "SeqNum_less a b \<longleftrightarrow> \<not> SeqNum_greater a b \<and> a \<noteq> b"

text \<open>
  The difference as a signed number. The cast to \<^verbatim>\<open>int32_t\<close> is modulo \<open>2 ^ 32\<close>; the negation of
  the least number is undefined.
\<close>

definition neg32 :: "int \<Rightarrow> int option" where
  "neg32 x = (if x = - (2 ^ 31) then None else Some (- x))"

definition SeqNum_diff :: "u32 \<Rightarrow> u32 \<Rightarrow> int option" where
  "SeqNum_diff a b =
     (if a > b then
        let diff = a - b in
        if diff < half_max then Some (sint diff) else neg32 (sint (0xffffffff - a + 1 + b))
      else
        let diff = b - a in
        if diff < half_max then neg32 (sint diff) else Some (sint (0xffffffff - b + 1 + a)))"

section \<open>Positions of a stream\<close>

definition sq :: "nat \<Rightarrow> nat \<Rightarrow> u32" where
  "sq isn p = word_of_nat (isn + p)"

definition near :: "nat \<Rightarrow> nat \<Rightarrow> bool" where
  "near a b \<longleftrightarrow> a < b + 2 ^ 31 \<and> b < a + 2 ^ 31"

lemma near_sym: "near a b \<longleftrightarrow> near b a"
  by (auto simp: near_def)

lemma sq_add: "sq isn p + word_of_nat n = sq isn (p + n)"
  by (simp add: sq_def)

lemma sq_diff: "b \<le> a \<Longrightarrow> sq isn a - sq isn b = word_of_nat (a - b)"
  by (simp add: sq_def of_nat_diff)

lemma unat_small: "n < 2 ^ 32 \<Longrightarrow> unat (word_of_nat n :: u32) = n"
  by (simp add: unat_of_nat)

lemma unat_neg32:
  assumes "x \<noteq> (0 :: u32)"
  shows "unat (- x) = 2 ^ 32 - unat x"
proof -
  have "unat (- x + x) = (unat (- x) + unat x) mod 2 ^ 32" by (simp only: unat_word_ariths) simp
  then have "(unat (- x) + unat x) mod 2 ^ 32 = 0" by simp
  then have "(2 :: nat) ^ 32 dvd unat (- x) + unat x" by (rule mod_eq_0_iff_dvd [THEN iffD1])
  moreover have "unat (- x) < 2 ^ 32" "unat x < 2 ^ 32"
    using unsigned_less [of "- x"] unsigned_less [of x] by simp_all
  moreover have "0 < unat x" using assms by (simp add: unat_gt_0)
  ultimately have "unat (- x) + unat x = 2 ^ 32"
    by (elim dvdE) (case_tac k; case_tac "k - 1"; simp)
  then show ?thesis by simp
qed

text \<open>
  On the circle \<open>a\<close> is greater when it is less than half the range ahead of \<open>b\<close>. At exactly half
  the range the order of the plain numbers decides, and it is reversed.
\<close>

lemma greater_unat:
  assumes half: "unat (a - b) \<noteq> 2 ^ 31"
  shows "SeqNum_greater a b \<longleftrightarrow> a \<noteq> b \<and> unat (a - b) < 2 ^ 31"
proof (cases "a > b")
  case True
  then have "unat (a - b) \<le> 2 ^ 31 - 1 \<longleftrightarrow> a - b \<le> half_max"
    by (simp add: word_le_nat_alt half_max_def)
  with True show ?thesis by (auto simp: SeqNum_greater_def)
next
  case False
  show ?thesis
  proof (cases "a = b")
    case True
    then show ?thesis by (simp add: SeqNum_greater_def)
  next
    case ne: False
    then have b: "b - a \<noteq> 0" "a < b" using False by auto
    have "a - b = - (b - a)" by simp
    then have "unat (a - b) = 2 ^ 32 - unat (b - a)"
      using unat_neg32 [OF b(1)] by simp
    moreover have "unat (b - a) < 2 ^ 32" using unsigned_less [of "b - a"] by simp
    moreover have "b - a > half_max \<longleftrightarrow> unat (b - a) > 2 ^ 31 - 1"
      by (simp add: word_less_nat_alt half_max_def)
    ultimately show ?thesis using ne b(2) half by (auto simp: SeqNum_greater_def)
  qed
qed

lemma sq_eq: "near a b \<Longrightarrow> sq isn a = sq isn b \<longleftrightarrow> a = b"
proof -
  have *: "x = y" if "sq isn x = sq isn y" "x \<le> y" "y < x + 2 ^ 31" for x y
  proof -
    have "word_of_nat (y - x) = (0 :: u32)" using sq_diff [OF that(2), of isn] that(1) by simp
    then have "unat (word_of_nat (y - x) :: u32) = 0" by (simp only:) simp
    moreover have "unat (word_of_nat (y - x) :: u32) = y - x" using that(3) by (intro unat_small) simp
    ultimately show ?thesis using that(2) by simp
  qed
  assume "near a b"
  with * [of a b] * [of b a] show ?thesis by (cases "a \<le> b") (auto simp: near_def)
qed

lemma sq_greater: "near a b \<Longrightarrow> SeqNum_greater (sq isn a) (sq isn b) \<longleftrightarrow> b < a"
proof -
  assume n: "near a b"
  show ?thesis
  proof (cases "b \<le> a")
    case True
    then have "unat (sq isn a - sq isn b) = a - b"
      unfolding sq_diff [OF True] using n by (intro unat_small) (simp add: near_def)
    with n True sq_eq [OF n, of isn] show ?thesis by (auto simp: greater_unat near_def)
  next
    case False
    then have "sq isn a - sq isn b = - word_of_nat (b - a)" using sq_diff [of a b isn]
      by (metis minus_diff_eq nat_le_linear)
    moreover have "unat (word_of_nat (b - a) :: u32) = b - a"
      using n False by (intro unat_small) (simp add: near_def)
    moreover from this False have "word_of_nat (b - a) \<noteq> (0 :: u32)" by fastforce
    ultimately have "unat (sq isn a - sq isn b) = 2 ^ 32 - (b - a)" using unat_neg32 by metis
    with n False show ?thesis by (auto simp: greater_unat near_def)
  qed
qed

lemma sq_le: "near a b \<Longrightarrow> SeqNum_le (sq isn a) (sq isn b) \<longleftrightarrow> a \<le> b"
  using sq_greater [of a b isn] by (auto simp: SeqNum_le_def)

lemma sq_ge: "near a b \<Longrightarrow> SeqNum_ge (sq isn a) (sq isn b) \<longleftrightarrow> b \<le> a"
  using sq_greater [of a b isn] sq_eq [of a b isn] by (auto simp: SeqNum_ge_def)

lemma sq_less: "near a b \<Longrightarrow> SeqNum_less (sq isn a) (sq isn b) \<longleftrightarrow> a < b"
  using sq_greater [of a b isn] sq_eq [of a b isn] by (auto simp: SeqNum_less_def)

lemmas sq_compare = sq_eq sq_greater sq_le sq_ge sq_less

lemma sint_below: "unat (w :: u32) < 2 ^ 31 \<Longrightarrow> sint w = int (unat w)"
proof -
  assume a: "unat w < 2 ^ 31"
  then have "int (unat w) < int (2 ^ 31)" by (simp only: of_nat_less_iff)
  then have less: "int (unat w) < 2 ^ 31" by (simp only: of_nat_power of_nat_numeral)
  have "- (2 ^ 31) \<le> (0 :: int)" by simp
  also have "0 \<le> int (unat w)" by (rule of_nat_0_le_iff)
  finally have "signed_take_bit 31 (int (unat w)) = int (unat w)"
    using less by (rule signed_take_bit_int_eq_self)
  then show ?thesis by (simp add: sint_uint)
qed

lemma all_ones_wrap: "0xffffffff - a + 1 + b = b - (a :: u32)"
proof -
  have "(0xffffffff :: u32) + 1 = 0" by simp
  then show ?thesis by (metis (no_types, opaque_lifting) add.assoc add.commute add_diff_eq diff_0 uminus_add_conv_diff)
qed

lemma SeqNum_diff_alt:
  "SeqNum_diff a b =
     (if a > b then if a - b < half_max then Some (sint (a - b)) else neg32 (sint (b - a))
      else if b - a < half_max then neg32 (sint (b - a)) else Some (sint (a - b)))"
  by (simp only: SeqNum_diff_def Let_def all_ones_wrap)

lemma sq_seqdiff:
  assumes le: "b \<le> a" and lt: "a < b + 2 ^ 31"
  shows "SeqNum_diff (sq isn a) (sq isn b) = Some (int (a - b))"
proof -
  let ?A = "sq isn a" and ?B = "sq isn b"
  have d: "unat (?A - ?B) = a - b"
    unfolding sq_diff [OF le] using lt by (intro unat_small) simp
  then have s: "sint (?A - ?B) = int (a - b)" using lt le by (subst sint_below) simp_all
  show ?thesis
  proof (cases "?A > ?B")
    case True
    show ?thesis
    proof (cases "?A - ?B < half_max")
      case True
      with \<open>?A > ?B\<close> s show ?thesis by (simp add: SeqNum_diff_alt)
    next
      case False
      then have "a - b = 2 ^ 31 - 1"
        using d lt le by (simp add: word_less_nat_alt half_max_def)
      then have "?A - ?B = half_max" using d by (simp add: word_unat_eq_iff half_max_def)
      then have "?B - ?A = - half_max" by (metis minus_diff_eq)
      then have "sint (?B - ?A) = - (2 ^ 31 - 1)" by (simp add: half_max_def)
      with \<open>?A > ?B\<close> False \<open>a - b = 2 ^ 31 - 1\<close> show ?thesis
        by (simp add: SeqNum_diff_alt neg32_def)
    qed
  next
    case False
    show ?thesis
    proof (cases "a = b")
      case True
      then show ?thesis by (simp add: SeqNum_diff_alt half_max_def neg32_def)
    next
      case ne: False
      then have nz: "?A - ?B \<noteq> 0" using d le by (metis diff_is_0_eq le_antisym unat_0)
      have "?B - ?A = - (?A - ?B)" by simp
      then have "unat (?B - ?A) = 2 ^ 32 - (a - b)" using unat_neg32 [OF nz] d by metis
      then have "\<not> ?B - ?A < half_max" using lt by (simp add: word_less_nat_alt half_max_def)
      with False s show ?thesis by (simp add: SeqNum_diff_alt)
    qed
  qed
qed

lemma sq_seqdiff_neg:
  assumes le: "b < a" and lt: "a < b + 2 ^ 31"
  shows "SeqNum_diff (sq isn b) (sq isn a) = Some (- int (a - b))"
proof -
  let ?A = "sq isn a" and ?B = "sq isn b"
  have d: "unat (?A - ?B) = a - b"
    unfolding sq_diff [OF less_imp_le [OF le]] using lt by (intro unat_small) simp
  then have s: "sint (?A - ?B) = int (a - b)" using lt le by (subst sint_below) simp_all
  then have n: "neg32 (sint (?A - ?B)) = Some (- int (a - b))" by (simp add: neg32_def)
  show ?thesis
  proof (cases "?B > ?A")
    case True
    have "?A - ?B \<noteq> 0" using d le by (metis unat_0 zero_less_diff less_irrefl)
    then have "unat (- (?A - ?B)) = 2 ^ 32 - (a - b)" using unat_neg32 d by metis
    then have "\<not> ?B - ?A < half_max" using lt by (simp add: word_less_nat_alt half_max_def)
    with True n show ?thesis by (simp add: SeqNum_diff_alt)
  next
    case False
    show ?thesis
    proof (cases "?A - ?B < half_max")
      case True
      with False n show ?thesis by (simp add: SeqNum_diff_alt)
    next
      case ge: False
      then have e: "a - b = 2 ^ 31 - 1"
        using d lt le by (simp add: word_less_nat_alt half_max_def)
      then have "?A - ?B = half_max" using d by (simp add: word_unat_eq_iff half_max_def)
      then have "?B - ?A = - half_max" by (metis minus_diff_eq)
      then have "sint (?B - ?A) = - (2 ^ 31 - 1)" by (simp add: half_max_def)
      with False ge e show ?thesis by (simp add: SeqNum_diff_alt)
    qed
  qed
qed

end
