(* ===== verification/Tcp_Rx_Buffer.thy ===== *)
theory Tcp_Rx_Buffer
  imports Seq_Number
begin

text \<open>
  \<open>TcpRxBuffer\<close> (src/internet/model/tcp-rx-buffer.cc): the receive buffer of a TCP socket. It
  keeps the segments that arrived, trimmed so that they do not overlap, in a map from sequence
  numbers to packets, hands the bytes in order to the application and lists the blocks to be
  acknowledged selectively. A packet is the list of its bytes; the map is the list of its pairs
  in the order of the sequence numbers. \<open>None\<close> is a failed assertion.
\<close>

type_synonym SackBlock = "u32 \<times> u32"

record TcpRxBuffer =
  rx_sackList :: "SackBlock list"
  rx_nextRxSeq :: u32
  rx_finSeq :: u32
  rx_gotFin :: bool
  rx_size :: u32
  rx_maxBuffer :: u32
  rx_availBytes :: u32
  rx_data :: "(u32 \<times> u8 list) list"

definition TcpRxBuffer_make :: "u32 \<Rightarrow> TcpRxBuffer" where
  "TcpRxBuffer_make n =
     \<lparr>rx_sackList = [], rx_nextRxSeq = n, rx_finSeq = 0, rx_gotFin = False, rx_size = 0,
      rx_maxBuffer = 32768, rx_availBytes = 0, rx_data = []\<rparr>"

definition Rx_SetNextRxSequence :: "u32 \<Rightarrow> TcpRxBuffer \<Rightarrow> TcpRxBuffer" where
  "Rx_SetNextRxSequence s b = b\<lparr>rx_nextRxSeq := s\<rparr>"

definition Rx_SetMaxBufferSize :: "u32 \<Rightarrow> TcpRxBuffer \<Rightarrow> TcpRxBuffer" where
  "Rx_SetMaxBufferSize s b = b\<lparr>rx_maxBuffer := s\<rparr>"

definition Rx_Size :: "TcpRxBuffer \<Rightarrow> u32" where
  "Rx_Size b = rx_size b"

definition Rx_Available :: "TcpRxBuffer \<Rightarrow> u32" where
  "Rx_Available b = rx_availBytes b"

definition Rx_IncNextRxSequence :: "TcpRxBuffer \<Rightarrow> TcpRxBuffer option" where
  "Rx_IncNextRxSequence b =
     do { ensure (rx_size b = 0); Some (b\<lparr>rx_nextRxSeq := rx_nextRxSeq b + 1\<rparr>) }"

definition Rx_MaxRxSequence :: "TcpRxBuffer \<Rightarrow> u32" where
  "Rx_MaxRxSequence b =
     (if rx_gotFin b then rx_finSeq b
      else if rx_data b \<noteq> [] \<and> SeqNum_greater (rx_nextRxSeq b) (fst (hd (rx_data b)))
      then fst (hd (rx_data b)) + rx_maxBuffer b
      else rx_nextRxSeq b + rx_maxBuffer b)"

definition Rx_SetFinSequence :: "u32 \<Rightarrow> TcpRxBuffer \<Rightarrow> TcpRxBuffer" where
  "Rx_SetFinSequence s b =
     (let b = b\<lparr>rx_gotFin := True, rx_finSeq := s\<rparr> in
      if rx_nextRxSeq b = rx_finSeq b then b\<lparr>rx_nextRxSeq := rx_nextRxSeq b + 1\<rparr> else b)"

definition Rx_Finished :: "TcpRxBuffer \<Rightarrow> bool" where
  "Rx_Finished b \<longleftrightarrow> rx_gotFin b \<and> SeqNum_less (rx_finSeq b) (rx_nextRxSeq b)"

section \<open>Selective acknowledgements\<close>

text \<open>
  The loop of \<open>UpdateSackList\<close>: the first block of the list in which the new block \<open>b\<close> finds a
  neighbour is merged with it and the search starts again.
\<close>

definition sack_merge :: "SackBlock \<Rightarrow> SackBlock \<Rightarrow> SackBlock option option" where
  "sack_merge b current =
     (if fst b = snd current then
        do { ensure (SeqNum_less (fst current) (snd b)); Some (Some (fst current, snd b)) }
      else if snd b = fst current then
        do { ensure (SeqNum_less (fst b) (snd current)); Some (Some (fst b, snd current)) }
      else Some None)"

fun sack_scan ::
    "SackBlock \<Rightarrow> SackBlock list \<Rightarrow> SackBlock list \<Rightarrow> (SackBlock \<times> SackBlock list) option option" where
  "sack_scan b before [] = Some None"
| "sack_scan b before (current # rest) =
     do {
       m \<leftarrow> sack_merge b current;
       case m of
         Some merged \<Rightarrow> Some (Some (merged, before @ rest))
       | None \<Rightarrow> sack_scan b (before @ [current]) rest
     }"

lemma sack_scan_length:
  "sack_scan b before l = Some (Some (m, l')) \<Longrightarrow> Suc (length l') = length before + length l"
proof (induction l arbitrary: before)
  case (Cons c l)
  then show ?case by (cases "sack_merge b c") (force split: option.splits)+
qed simp

function sack_loop :: "SackBlock \<Rightarrow> SackBlock list \<Rightarrow> SackBlock list option" where
  "sack_loop b l =
     (case sack_scan b [] l of
        None \<Rightarrow> None
      | Some None \<Rightarrow> Some (b # l)
      | Some (Some (m, l')) \<Rightarrow> sack_loop m l')"
  by pat_completeness auto
termination
  by (relation "measure (\<lambda>(b, l). length l)") (auto dest!: sack_scan_length)

declare sack_loop.simps [simp del]

definition Rx_UpdateSackList :: "u32 \<Rightarrow> u32 \<Rightarrow> TcpRxBuffer \<Rightarrow> TcpRxBuffer option" where
  "Rx_UpdateSackList head tail b =
     do {
       ensure (SeqNum_greater head (rx_nextRxSeq b));
       l \<leftarrow> sack_loop (head, tail) (rx_sackList b);
       Some (b\<lparr>rx_sackList := (if length l > 4 then butlast l else l)\<rparr>)
     }"

fun clear_sacks :: "u32 \<Rightarrow> SackBlock list \<Rightarrow> SackBlock list option" where
  "clear_sacks seq [] = Some []"
| "clear_sacks seq (block # l) =
     do {
       ensure (SeqNum_less (fst block) (snd block));
       l \<leftarrow> clear_sacks seq l;
       Some (if SeqNum_le (snd block) seq then l else block # l)
     }"

definition Rx_ClearSackList :: "u32 \<Rightarrow> TcpRxBuffer \<Rightarrow> TcpRxBuffer option" where
  "Rx_ClearSackList seq b =
     do { l \<leftarrow> clear_sacks seq (rx_sackList b); Some (b\<lparr>rx_sackList := l\<rparr>) }"

section \<open>Adding a segment\<close>

definition pktLen :: "u8 list \<Rightarrow> u32" where
  "pktLen p = word_of_nat (length p)"

text \<open>\<^verbatim>\<open>m_data[k] = v\<close> and \<^verbatim>\<open>m_data.find(k)\<close>.\<close>

fun rx_put :: "u32 \<Rightarrow> u8 list \<Rightarrow> (u32 \<times> u8 list) list \<Rightarrow> (u32 \<times> u8 list) list" where
  "rx_put k v [] = [(k, v)]"
| "rx_put k v ((s, p) # ds) =
     (if SeqNum_less k s then (k, v) # (s, p) # ds
      else if SeqNum_less s k then (s, p) # rx_put k v ds
      else (s, v) # ds)"

text \<open>
  The loop that removes the bytes of the new segment \<open>[head, tail)\<close> that are buffered already, or
  the buffered packets that lie inside it.
\<close>

fun rx_overlap ::
    "(u32 \<times> u8 list) list \<Rightarrow> u32 \<Rightarrow> u32 \<Rightarrow> u32 \<Rightarrow> (u32 \<times> u8 list) list \<times> u32 \<times> u32 \<times> u32" where
  "rx_overlap [] headSeq tailSeq sz = ([], headSeq, tailSeq, sz)"
| "rx_overlap ((s, p) # ds) headSeq tailSeq sz =
     (if \<not> SeqNum_le s tailSeq then ((s, p) # ds, headSeq, tailSeq, sz)
      else let lastByteSeq = s + pktLen p in
        if SeqNum_greater lastByteSeq headSeq \<and> SeqNum_greater s headSeq \<and> SeqNum_less lastByteSeq tailSeq
        then rx_overlap ds headSeq tailSeq (sz - pktLen p)
        else
          let (headSeq', tailSeq') =
            (if SeqNum_greater lastByteSeq headSeq
             then (if SeqNum_le s headSeq then lastByteSeq else headSeq,
                   if SeqNum_ge lastByteSeq tailSeq then s else tailSeq)
             else (headSeq, tailSeq));
            (ds', h, t, sz') = rx_overlap ds headSeq' tailSeq' sz
          in ((s, p) # ds', h, t, sz'))"

text \<open>The loop that moves \<open>m_nextRxSeq\<close> over the packets that are now in order.\<close>

fun rx_advance :: "(u32 \<times> u8 list) list \<Rightarrow> TcpRxBuffer \<Rightarrow> TcpRxBuffer option" where
  "rx_advance [] b = Some b"
| "rx_advance ((s, p) # ds) b =
     (if SeqNum_less s (rx_nextRxSeq b) then rx_advance ds b
      else if SeqNum_greater s (rx_nextRxSeq b) then Some b
      else do {
        let b = b\<lparr>rx_nextRxSeq := s + pktLen p, rx_availBytes := rx_availBytes b + pktLen p\<rparr>;
        b \<leftarrow> Rx_ClearSackList (rx_nextRxSeq b) b;
        rx_advance ds b
      })"

definition Packet_CreateFragment :: "nat \<Rightarrow> nat \<Rightarrow> u8 list \<Rightarrow> u8 list option" where
  "Packet_CreateFragment start len p =
     do { ensure (start + len \<le> length p); Some (take len (drop start p)) }"

text \<open>The bounds of the segment before the comparison with the buffered packets.\<close>

definition rx_trim :: "u32 \<Rightarrow> u32 \<Rightarrow> TcpRxBuffer \<Rightarrow> u32 \<times> u32" where
  "rx_trim headSeq tailSeq b =
     (let headSeq = (if SeqNum_less headSeq (rx_nextRxSeq b) then rx_nextRxSeq b else headSeq) in
      if rx_data b = [] then (headSeq, tailSeq)
      else let maxSeq = fst (hd (rx_data b)) + rx_maxBuffer b;
               tailSeq = (if SeqNum_less maxSeq tailSeq then maxSeq else tailSeq)
           in (if SeqNum_less tailSeq headSeq then tailSeq else headSeq, tailSeq))"

text \<open>\<open>Add\<close> of the packet \<open>p\<close> whose header has the sequence number \<open>seq\<close>.\<close>

definition Rx_Add :: "u32 \<Rightarrow> u8 list \<Rightarrow> TcpRxBuffer \<Rightarrow> (bool \<times> TcpRxBuffer) option" where
  "Rx_Add seq p b =
     (let (headSeq, tailSeq) = rx_trim seq (seq + pktLen p) b;
          (ds, headSeq, tailSeq, sz) = rx_overlap (rx_data b) headSeq tailSeq (rx_size b);
          b = b\<lparr>rx_data := ds, rx_size := sz\<rparr>
      in if SeqNum_ge headSeq tailSeq then Some (False, b)
      else do {
        start \<leftarrow> SeqNum_diff headSeq seq;
        len \<leftarrow> SeqNum_diff tailSeq headSeq;
        p \<leftarrow> Packet_CreateFragment (unat (word_of_int start :: u32)) (unat (word_of_int len :: u32)) p;
        ensure (headSeq \<notin> fst ` set ds);
        let b = b\<lparr>rx_data := rx_put headSeq p ds\<rparr>;
        b \<leftarrow> (if SeqNum_greater headSeq (rx_nextRxSeq b) then Rx_UpdateSackList headSeq tailSeq b
              else Some b);
        let b = b\<lparr>rx_size := rx_size b + pktLen p\<rparr>;
        b \<leftarrow> rx_advance (rx_data b) b;
        Some (True,
          if rx_gotFin b \<and> rx_nextRxSeq b = rx_finSeq b then b\<lparr>rx_nextRxSeq := rx_nextRxSeq b + 1\<rparr>
          else b)
      })"

section \<open>Handing bytes to the application\<close>

text \<open>
  The loop of \<open>Extract\<close>, with the bytes left to extract; the state is the map, the occupancy and
  the bytes available.
\<close>

fun rx_extract ::
    "u32 \<Rightarrow> u32 \<Rightarrow> (u32 \<times> u8 list) list \<Rightarrow> u32 \<Rightarrow> u32 \<Rightarrow>
      (u8 list \<times> (u32 \<times> u8 list) list \<times> u32 \<times> u32) option" where
  "rx_extract extractSize nextRxSeq [] sz avail =
     (if extractSize = 0 then Some ([], [], sz, avail) else None)"
| "rx_extract extractSize nextRxSeq ((s, p) # ds) sz avail =
     (if extractSize = 0 then Some ([], (s, p) # ds, sz, avail)
      else do {
        ensure (SeqNum_le s nextRxSeq);
        (if pktLen p \<le> extractSize then do {
           (out, r) \<leftarrow> rx_extract (extractSize - pktLen p) nextRxSeq ds (sz - pktLen p)
             (avail - pktLen p);
           Some (p @ out, r)
         }
         else do {
           first \<leftarrow> Packet_CreateFragment 0 (unat extractSize) p;
           rest \<leftarrow> Packet_CreateFragment (unat extractSize) (unat (pktLen p - extractSize)) p;
           Some (first, rx_put (s + extractSize) rest ds, sz - extractSize, avail - extractSize)
         })
      })"

definition Rx_Extract :: "u32 \<Rightarrow> TcpRxBuffer \<Rightarrow> (u8 list option \<times> TcpRxBuffer) option" where
  "Rx_Extract maxSize b =
     (let extractSize = min maxSize (rx_availBytes b) in
      if extractSize = 0 then Some (None, b)
      else do {
        ensure (rx_data b \<noteq> []);
        (out, ds, sz, avail) \<leftarrow> rx_extract extractSize (rx_nextRxSeq b) (rx_data b) (rx_size b)
          (rx_availBytes b);
        let b = b\<lparr>rx_data := ds, rx_size := sz, rx_availBytes := avail\<rparr>;
        Some (if out = [] then None else Some out, b)
      })"

end
