(* ===== verification/Tcp_Reassembly.thy ===== *)
theory Tcp_Reassembly
  imports Tcp_Rx_Buffer
begin

text \<open>
  The receive buffer against the stream that is sent. The buffered packets are intervals of
  stream positions; the loops of the code do on sequence numbers what the same loops do on
  positions, as long as all positions are less than half the sequence space apart, however
  often the numbers wrap around.
\<close>

section \<open>Intervals of positions\<close>

text \<open>\<open>blocks lo bs\<close>: the intervals are not empty, do not overlap and come in order from \<open>lo\<close> on.\<close>

fun blocks :: "nat \<Rightarrow> (nat \<times> nat) list \<Rightarrow> bool" where
  "blocks lo [] \<longleftrightarrow> True"
| "blocks lo ((p, e) # bs) \<longleftrightarrow> lo \<le> p \<and> p < e \<and> blocks e bs"

fun covered :: "(nat \<times> nat) list \<Rightarrow> nat set" where
  "covered [] = {}"
| "covered ((p, e) # bs) = {p ..< e} \<union> covered bs"

fun bytes_in :: "(nat \<times> nat) list \<Rightarrow> nat" where
  "bytes_in [] = 0"
| "bytes_in ((p, e) # bs) = e - p + bytes_in bs"

definition ends_by :: "nat \<Rightarrow> (nat \<times> nat) list \<Rightarrow> bool" where
  "ends_by hi bs \<longleftrightarrow> (\<forall>(p, e) \<in> set bs. e \<le> hi)"

lemma ends_by_simps [simp]:
  "ends_by hi []"
  "ends_by hi ((p, e) # bs) \<longleftrightarrow> e \<le> hi \<and> ends_by hi bs"
  by (auto simp: ends_by_def)

lemma blocks_lower: "blocks lo bs \<Longrightarrow> (p, e) \<in> set bs \<Longrightarrow> lo \<le> p \<and> p < e"
  by (induction lo bs rule: blocks.induct) fastforce+

lemma blocks_mono: "blocks lo bs \<Longrightarrow> lo' \<le> lo \<Longrightarrow> blocks lo' bs"
  by (cases bs) auto

lemma covered_iff: "x \<in> covered bs \<longleftrightarrow> (\<exists>p e. (p, e) \<in> set bs \<and> p \<le> x \<and> x < e)"
  by (induction bs rule: covered.induct) auto

lemma covered_lower: "blocks lo bs \<Longrightarrow> x \<in> covered bs \<Longrightarrow> lo \<le> x"
  by (induction lo bs rule: blocks.induct) fastforce+

lemma finite_covered [simp]: "finite (covered bs)"
  by (induction bs rule: covered.induct) auto

lemma bytes_card: "blocks lo bs \<Longrightarrow> card (covered bs) = bytes_in bs"
proof (induction lo bs rule: blocks.induct)
  case (2 lo p e bs)
  have "{p ..< e} \<inter> covered bs = {}" using covered_lower [of e bs] 2 by fastforce
  then have "card (covered ((p, e) # bs)) = card {p ..< e} + card (covered bs)"
    by (simp add: card_Un_disjoint)
  with 2 show ?case by simp
qed simp

section \<open>The loops on positions\<close>

fun ov :: "(nat \<times> nat) list \<Rightarrow> nat \<Rightarrow> nat \<Rightarrow> (nat \<times> nat) list \<times> nat \<times> nat" where
  "ov [] h t = ([], h, t)"
| "ov ((p, e) # bs) h t =
     (if t < p then ((p, e) # bs, h, t)
      else if h < e \<and> h < p \<and> e < t then ov bs h t
      else let (h', t') = (if h < e then (if p \<le> h then e else h, if t \<le> e then p else t) else (h, t));
               (bs', h2, t2) = ov bs h' t'
           in ((p, e) # bs', h2, t2))"

fun ins :: "nat \<times> nat \<Rightarrow> (nat \<times> nat) list \<Rightarrow> (nat \<times> nat) list" where
  "ins (h, t) [] = [(h, t)]"
| "ins (h, t) ((p, e) # bs) = (if h < p then (h, t) # (p, e) # bs else (p, e) # ins (h, t) bs)"

fun adv :: "(nat \<times> nat) list \<Rightarrow> nat \<Rightarrow> nat" where
  "adv [] n = n"
| "adv ((p, e) # bs) n = (if p < n then adv bs n else if n < p then n else adv bs e)"

fun ext :: "nat \<Rightarrow> (nat \<times> nat) list \<Rightarrow> (nat \<times> nat) list" where
  "ext k [] = []"
| "ext k ((p, e) # bs) =
     (if k = 0 then (p, e) # bs else if e - p \<le> k then ext (k - (e - p)) bs else (p + k, e) # bs)"

lemma ov_stop: "blocks e bs \<Longrightarrow> t < e \<Longrightarrow> ov bs h t = (bs, h, t)"
  by (cases bs) auto

text \<open>No byte is lost, none is stored twice.\<close>

lemma ov_spec:
  "blocks lo bs \<Longrightarrow> h \<le> t \<Longrightarrow> ov bs h t = (bs', h', t') \<Longrightarrow>
    covered bs' \<union> {h' ..< t'} = covered bs \<union> {h ..< t} \<and> covered bs' \<inter> {h' ..< t'} = {} \<and>
    blocks lo bs' \<and> set bs' \<subseteq> set bs \<and> h \<le> h' \<and> t' \<le> t"
proof (induction bs arbitrary: lo h t bs')
  case (Cons i bs)
  obtain p e where i: "i = (p, e)" by (cases i)
  note prems = Cons.prems [unfolded i]
  have b: "lo \<le> p" "p < e" "blocks e bs" using prems(1) by simp_all
  show ?case
  proof (cases "t < p")
    case True
    with prems(3) have r: "bs' = (p, e) # bs" "h' = h" "t' = t" by simp_all
    have "x \<notin> {h ..< t}" if "x \<in> covered ((p, e) # bs)" for x
    proof -
      have "p \<le> x" by (rule covered_lower [OF _ that]) (use b in simp)
      with True show ?thesis by simp
    qed
    with r prems(1,2) i show ?thesis by auto
  next
    case np: False
    show ?thesis
    proof (cases "h < e \<and> h < p \<and> e < t")
      case True
      with prems(3) np have "ov bs h t = (bs', h', t')" by simp
      from Cons.IH [OF b(3) prems(2) this] show ?thesis
        using True b(1,2) blocks_mono [of e bs' lo] i by auto
    next
      case False
      let ?h = "if h < e \<and> p \<le> h then e else h" and ?t = "if h < e \<and> t \<le> e then p else t"
      obtain r where r: "ov bs ?h ?t = (r, h', t')" "bs' = (p, e) # r"
        using prems(3) np False by (auto simp: Let_def split: prod.splits if_splits)
      show ?thesis
      proof (cases "h < e \<and> t \<le> e")
        case True
        then have "ov bs ?h ?t = (bs, ?h, p)" using ov_stop [OF b(3), of p ?h] b(2) by simp
        from trans [OF r(1) [symmetric] this] have "r = bs \<and> h' = ?h \<and> t' = p" by (simp only: prod.inject)
        with r(2) have r': "bs' = (p, e) # bs" "h' = ?h" "t' = p" by simp_all
        have "x \<notin> {h' ..< t'}" if "x \<in> covered ((p, e) # bs)" for x
          using covered_lower [of e bs x] b that True unfolding r' by auto
        with r' b prems(1,2) np True i show ?thesis by auto
      next
        case tail: False
        with False np have "?t = t" "?h \<le> ?t" using prems(2) by auto
        from Cons.IH [OF b(3) this(2) r(1)] this(1) r(2) b False tail i show ?thesis
          using prems(2) by (auto split: if_splits)
      qed
    qed
  qed
qed simp

lemma ins_spec:
  assumes "blocks lo bs" and "lo \<le> h" and "h < t" and "covered bs \<inter> {h ..< t} = {}"
  shows "blocks lo (ins (h, t) bs)" and "covered (ins (h, t) bs) = covered bs \<union> {h ..< t}"
proof -
  have "blocks lo (ins (h, t) bs) \<and> covered (ins (h, t) bs) = covered bs \<union> {h ..< t}"
    using assms
  proof (induction lo bs rule: blocks.induct)
    case (2 lo p e bs)
    have pe: "lo \<le> p" "p < e" "blocks e bs" using 2 by simp_all
    have apart: "t \<le> p \<or> e \<le> h"
    proof (rule ccontr)
      assume "\<not> (t \<le> p \<or> e \<le> h)"
      then have "max p h \<in> covered ((p, e) # bs)" "max p h \<in> {h ..< t}" using pe "2.prems"(3) by auto
      with "2.prems"(4) show False by blast
    qed
    show ?case
    proof (cases "h < p")
      case True
      with apart pe "2.prems" show ?thesis by auto
    next
      case False
      with apart "2.prems"(3) pe have "e \<le> h" by linarith
      moreover have "covered bs \<inter> {h ..< t} = {}" using "2.prems"(4) by auto
      ultimately show ?thesis using 2 False pe by auto
    qed
  qed simp
  then show "blocks lo (ins (h, t) bs)" "covered (ins (h, t) bs) = covered bs \<union> {h ..< t}"
    by simp_all
qed

lemma set_ins: "set (ins i bs) = insert i (set bs)"
  by (induction i bs rule: ins.induct) auto

text \<open>The next byte missing.\<close>

definition is_next :: "nat set \<Rightarrow> nat \<Rightarrow> nat \<Rightarrow> bool" where
  "is_next S n n' \<longleftrightarrow> n \<le> n' \<and> {n ..< n'} \<subseteq> S \<and> n' \<notin> S"

lemma adv_spec:
  "blocks lo bs \<Longrightarrow> \<forall>(p, e) \<in> set bs. p < n \<longrightarrow> e \<le> n \<Longrightarrow> is_next (covered bs) n (adv bs n)"
proof (induction bs arbitrary: lo n)
  case (Cons i bs)
  obtain p e where i: "i = (p, e)" by (cases i)
  have b: "lo \<le> p" "p < e" "blocks e bs" using Cons.prems(1) i by simp_all
  have above: "e \<le> x" if "x \<in> covered bs" for x by (rule covered_lower [OF b(3) that])
  consider "p < n" | "n < p" | "n = p" by linarith
  then show ?case
  proof cases
    case 1
    then have "e \<le> n" using Cons.prems(2) i by auto
    moreover have "is_next (covered bs) n (adv bs n)" using Cons.IH [OF b(3)] Cons.prems(2) by simp
    ultimately show ?thesis using 1 i by (auto simp: is_next_def)
  next
    case 2
    have "n \<notin> covered bs" using above [of n] 2 b(2) by linarith
    with 2 i b show ?thesis by (auto simp: is_next_def)
  next
    case 3
    have "\<forall>(p', e') \<in> set bs. p' < e \<longrightarrow> e' \<le> e" using blocks_lower [OF b(3)] by fastforce
    from Cons.IH [OF b(3) this] have "is_next (covered bs) e (adv bs e)" .
    then have n: "e \<le> adv bs e" "{e ..< adv bs e} \<subseteq> covered bs" "adv bs e \<notin> covered bs"
      by (simp_all add: is_next_def)
    then have "{p ..< adv bs e} \<subseteq> covered (i # bs)" using i by (fastforce simp: subset_iff not_less)
    then show ?thesis using 3 i b n by (auto simp: is_next_def)
  qed
qed (simp add: is_next_def)

lemma is_next_unique: "is_next S n a \<Longrightarrow> is_next S n b \<Longrightarrow> a = b"
proof (rule ccontr)
  assume "is_next S n a" "is_next S n b" "a \<noteq> b"
  then show False by (cases "a < b") (auto simp: is_next_def subset_iff)
qed

lemma ext_spec:
  "blocks d bs \<Longrightarrow> {d ..< d + k} \<subseteq> covered bs \<Longrightarrow>
     blocks (d + k) (ext k bs) \<and> covered (ext k bs) = covered bs - {..< d + k}"
proof (induction bs arbitrary: d k)
  case (Cons i bs)
  obtain p e where i: "i = (p, e)" by (cases i)
  have b: "d \<le> p" "p < e" "blocks e bs" using Cons.prems(1) i by simp_all
  have above: "e \<le> x" if "x \<in> covered bs" for x by (rule covered_lower [OF b(3) that])
  show ?case
  proof (cases "k = 0")
    case True
    have "d \<le> x" if "x \<in> covered (i # bs)" for x by (rule covered_lower [OF Cons.prems(1) that])
    then have "covered (i # bs) - {..< d + k} = covered (i # bs)" using True by fastforce
    with True Cons.prems(1) i show ?thesis by simp
  next
    case False
    then have "d \<in> covered (i # bs)" using Cons.prems(2) by auto
    then have p: "p = d" using above [of d] b i by fastforce
    show ?thesis
    proof (cases "e - p \<le> k")
      case True
      then have d: "d + k = e + (k - (e - p))" using b p by simp
      have "{e ..< e + (k - (e - p))} \<subseteq> covered bs"
      proof
        fix x
        assume x: "x \<in> {e ..< e + (k - (e - p))}"
        then have "x \<in> {d ..< d + k}" using b(2) p d by auto
        with Cons.prems(2) x show "x \<in> covered bs" unfolding i by auto
      qed
      from Cons.IH [OF b(3) this] have
        "blocks (d + k) (ext (k - (e - p)) bs) \<and>
         covered (ext (k - (e - p)) bs) = covered bs - {..< d + k}" unfolding d .
      moreover have "ext k (i # bs) = ext (k - (e - p)) bs" using True False i by simp
      moreover have "covered (i # bs) - {..< d + k} = covered bs - {..< d + k}"
        using True i b(2) p by fastforce
      ultimately show ?thesis by simp
    next
      case short: False
      then have "d + k < e" using p by simp
      moreover have "covered bs - {..< d + k} = covered bs" using above \<open>d + k < e\<close> by fastforce
      moreover have "{p ..< e} - {..< d + k} = {d + k ..< e}" using p by auto
      ultimately show ?thesis using short False i b p by (simp add: Un_Diff)
    qed
  qed
qed auto

end
