(* ===== verification/Tcp_Rx_Positions.thy ===== *)
theory Tcp_Rx_Positions
  imports Tcp_Reassembly
begin

text \<open>
  The loops of \<open>TcpRxBuffer\<close> on the encoding of intervals are the loops on positions, as long as
  all positions lie between \<open>lo\<close> and \<open>hi\<close> with \<open>hi < lo + 2 ^ 31\<close>.
\<close>

definition enc :: "nat \<Rightarrow> (nat \<Rightarrow> u8) \<Rightarrow> nat \<times> nat \<Rightarrow> u32 \<times> u8 list" where
  "enc isn f i = (sq isn (fst i), map f [fst i ..< snd i])"

lemma enc_pair: "enc isn f (p, e) = (sq isn p, map f [p ..< e])"
  by (simp add: enc_def)

lemma pktLen_upt: "pktLen (map f [p ..< e]) = word_of_nat (e - p)"
  by (simp add: pktLen_def)

lemma sq_end: "p \<le> e \<Longrightarrow> sq isn p + pktLen (map f [p ..< e]) = sq isn e"
  by (simp only: pktLen_upt sq_add le_add_diff_inverse)

lemma window_near: "lo \<le> a \<Longrightarrow> a \<le> hi \<Longrightarrow> lo \<le> b \<Longrightarrow> b \<le> hi \<Longrightarrow> hi < lo + 2 ^ 31 \<Longrightarrow> near a b"
  by (simp add: near_def)

lemma overlap_enc:
  assumes "hi < lo + 2 ^ 31"
  shows "blocks lo bs \<Longrightarrow> ends_by hi bs \<Longrightarrow> lo \<le> h \<Longrightarrow> h \<le> hi \<Longrightarrow> lo \<le> t \<Longrightarrow> t \<le> hi \<Longrightarrow>
    ov bs h t = (bs', h', t') \<Longrightarrow>
    rx_overlap (map (enc isn f) bs) (sq isn h) (sq isn t) sz =
      (map (enc isn f) bs', sq isn h', sq isn t', sz - word_of_nat (bytes_in bs) + word_of_nat (bytes_in bs'))"
proof (induction bs arbitrary: h t sz bs')
  case (Cons i bs)
  obtain p e where i: "i = (p, e)" by (cases i)
  have b: "lo \<le> p" "p < e" "blocks e bs" "e \<le> hi" "ends_by hi bs"
    using Cons.prems(1,2) i by simp_all
  have lo: "blocks lo bs" using b(1-3) by (intro blocks_mono [OF b(3)]) simp
  have pe: "p \<le> e" "lo \<le> e" "p \<le> hi" using b by simp_all
  note n = window_near [OF _ _ _ _ assms]
  have c: "SeqNum_le (sq isn p) (sq isn t) \<longleftrightarrow> p \<le> t"
      "SeqNum_greater (sq isn e) (sq isn h) \<longleftrightarrow> h < e"
      "SeqNum_greater (sq isn p) (sq isn h) \<longleftrightarrow> h < p"
      "SeqNum_less (sq isn e) (sq isn t) \<longleftrightarrow> e < t"
      "SeqNum_le (sq isn p) (sq isn h) \<longleftrightarrow> p \<le> h"
      "SeqNum_ge (sq isn e) (sq isn t) \<longleftrightarrow> t \<le> e"
    using n b pe Cons.prems(3-6) by (intro sq_compare; blast)+
  have last: "sq isn p + word_of_nat (e - p) = sq isn e" using pe(1) by (simp only: sq_add le_add_diff_inverse)
  have len: "pktLen (map f [p ..< e]) = word_of_nat (e - p)" by (rule pktLen_upt)
  have split: "(word_of_nat (bytes_in (i # bs)) :: u32) = word_of_nat (e - p) + word_of_nat (bytes_in bs)"
    using i by simp
  show ?case
  proof (cases "t < p")
    case True
    with Cons.prems(7) i have "bs' = (p, e) # bs" "h' = h" "t' = t" by simp_all
    with True c i show ?thesis by (simp add: enc_pair)
  next
    case np: False
    show ?thesis
    proof (cases "h < e \<and> h < p \<and> e < t")
      case True
      with Cons.prems(7) np i have "ov bs h t = (bs', h', t')" by simp
      from Cons.IH [OF lo b(5) Cons.prems(3-6) this, of "sz - word_of_nat (e - p)"]
      have "rx_overlap (map (enc isn f) (i # bs)) (sq isn h) (sq isn t) sz =
        (map (enc isn f) bs', sq isn h', sq isn t',
         sz - word_of_nat (e - p) - word_of_nat (bytes_in bs) + word_of_nat (bytes_in bs'))"
        using True np c i by (simp add: enc_pair len last Let_def)
      then show ?thesis unfolding split by (simp add: diff_diff_eq)
    next
      case False
      let ?h = "if h < e \<and> p \<le> h then e else h" and ?t = "if h < e \<and> t \<le> e then p else t"
      obtain r where r: "ov bs ?h ?t = (r, h', t')" "bs' = (p, e) # r"
        using Cons.prems(7) np False i by (auto simp: Let_def split: prod.splits if_splits)
      have hs: "(if h < e then if p \<le> h then sq isn e else sq isn h else sq isn h) = sq isn ?h"
        "(if h < e then if t \<le> e then sq isn p else sq isn t else sq isn t) = sq isn ?t" by simp_all
      have "lo \<le> ?h" "?h \<le> hi" "lo \<le> ?t" "?t \<le> hi" using pe b Cons.prems(3-6) by auto
      from Cons.IH [OF lo b(5) this r(1), of sz]
      have "rx_overlap (map (enc isn f) bs) (sq isn ?h) (sq isn ?t) sz =
        (map (enc isn f) r, sq isn h', sq isn t', sz - word_of_nat (bytes_in bs) + word_of_nat (bytes_in r))" .
      note * = this
      have "rx_overlap (map (enc isn f) (i # bs)) (sq isn h) (sq isn t) sz =
        (map (enc isn f) bs', sq isn h', sq isn t', sz - word_of_nat (bytes_in bs) + word_of_nat (bytes_in r))"
      proof (cases "h < e")
        case True
        with False np c i r(2) hs *
        show ?thesis
          by (cases "h < p"; cases "e < t") (simp_all add: enc_pair len last not_le Let_def del: of_nat_diff)
      next
        case below: False
        with b(2) have "\<not> h < p" by simp
        with below False np c i r(2) hs *
        show ?thesis by (simp add: enc_pair len last not_le Let_def del: of_nat_diff)
      qed
      then show ?thesis unfolding split r(2) by simp
    qed
  qed
qed simp

lemma put_enc:
  assumes "hi < lo + 2 ^ 31" and "lo \<le> h" and "h \<le> hi"
  shows "blocks lo bs \<Longrightarrow> ends_by hi bs \<Longrightarrow> h \<notin> fst ` set bs \<Longrightarrow>
    rx_put (sq isn h) (map f [h ..< t]) (map (enc isn f) bs) = map (enc isn f) (ins (h, t) bs)"
proof (induction bs)
  case (Cons i bs)
  obtain p e where i: "i = (p, e)" by (cases i)
  have b: "lo \<le> p" "p \<le> hi" "blocks lo bs" "ends_by hi bs" "h \<noteq> p" "h \<notin> fst ` set bs"
    using Cons.prems i blocks_mono [of e bs lo] by auto
  have "SeqNum_less (sq isn h) (sq isn p) \<longleftrightarrow> h < p" "SeqNum_less (sq isn p) (sq isn h) \<longleftrightarrow> p < h"
    using window_near [OF _ _ _ _ assms(1)] assms(2,3) b(1,2) by (intro sq_compare; blast)+
  with Cons.IH [OF b(3,4,6)] b(5) i show ?case by (simp add: enc_pair)
qed (simp add: enc_pair)

lemma keys_enc:
  assumes "hi < lo + 2 ^ 31" and "lo \<le> h" and "h \<le> hi" and "blocks lo bs" and "ends_by hi bs"
  shows "sq isn h \<in> fst ` set (map (enc isn f) bs) \<longleftrightarrow> h \<in> fst ` set bs"
proof -
  have "sq isn h = sq isn p \<longleftrightarrow> h = p" if "(p, e) \<in> set bs" for p e
  proof -
    have "lo \<le> p" "p \<le> hi"
      using blocks_lower [OF assms(4) that] assms(5) that by (auto simp: ends_by_def)
    then show ?thesis using window_near [OF _ _ _ _ assms(1)] assms(2,3) by (intro sq_eq; blast)
  qed
  then show ?thesis by (force simp: enc_def)
qed

section \<open>Sack blocks\<close>

definition encs :: "nat \<Rightarrow> nat \<times> nat \<Rightarrow> SackBlock" where
  "encs isn i = (sq isn (fst i), sq isn (snd i))"

text \<open>A list of blocks that hold received bytes beyond the next one expected.\<close>

definition sacks_ok :: "nat set \<Rightarrow> nat \<Rightarrow> nat \<Rightarrow> (nat \<times> nat) list \<Rightarrow> bool" where
  "sacks_ok S n hi l \<longleftrightarrow> (\<forall>(h, t) \<in> set l. n < h \<and> h < t \<and> t \<le> hi \<and> {h ..< t} \<subseteq> S)"

lemma sacks_ok_simps [simp]:
  "sacks_ok S n hi []"
  "sacks_ok S n hi ((h, t) # l) \<longleftrightarrow> n < h \<and> h < t \<and> t \<le> hi \<and> {h ..< t} \<subseteq> S \<and> sacks_ok S n hi l"
  "sacks_ok S n hi (l @ l') \<longleftrightarrow> sacks_ok S n hi l \<and> sacks_ok S n hi l'"
  by (auto simp: sacks_ok_def)

lemma sacks_ok_mono: "sacks_ok S n hi l \<Longrightarrow> S \<subseteq> S' \<Longrightarrow> hi \<le> hi' \<Longrightarrow> sacks_ok S' n hi' l"
  by (fastforce simp: sacks_ok_def)

lemma scan_ok:
  assumes "hi < lo + 2 ^ 31" and "lo \<le> n" and "n < h" "h < t" "t \<le> hi" "{h ..< t} \<subseteq> S"
  shows "sacks_ok S n hi before \<Longrightarrow> sacks_ok S n hi l \<Longrightarrow>
    sack_scan (encs isn (h, t)) (map (encs isn) before) (map (encs isn) l) = Some None \<or>
    (\<exists>h' t' l'. sack_scan (encs isn (h, t)) (map (encs isn) before) (map (encs isn) l) =
        Some (Some (encs isn (h', t'), map (encs isn) l')) \<and>
      n < h' \<and> h' < t' \<and> t' \<le> hi \<and> {h' ..< t'} \<subseteq> S \<and> sacks_ok S n hi l' \<and>
      Suc (length l') = length before + length l)"
proof (induction l arbitrary: before)
  case (Cons c l)
  obtain a b where c: "c = (a, b)" by (cases c)
  have o: "n < a" "a < b" "b \<le> hi" "{a ..< b} \<subseteq> S" "sacks_ok S n hi l" using Cons.prems c by simp_all
  have q: "sq isn h = sq isn b \<longleftrightarrow> h = b" "sq isn t = sq isn a \<longleftrightarrow> t = a"
      "SeqNum_less (sq isn a) (sq isn t) \<longleftrightarrow> a < t" "SeqNum_less (sq isn h) (sq isn b) \<longleftrightarrow> h < b"
    using assms o by (intro sq_compare window_near [OF _ _ _ _ assms(1)]; simp)+
  consider "h = b" | "h \<noteq> b" "t = a" | "h \<noteq> b" "t \<noteq> a" by blast
  then show ?case
  proof cases
    case 1
    have "{a ..< t} \<subseteq> {a ..< b} \<union> {h ..< t}" using 1 by auto
    then have "{a ..< t} \<subseteq> S" using o(4) assms(6) by blast
    moreover have "sack_merge (encs isn (h, t)) (encs isn c) = Some (Some (encs isn (a, t)))"
      using 1 q o(2) assms(4) c by (simp add: sack_merge_def encs_def)
    ultimately show ?thesis using 1 o assms(3-5) Cons.prems(1)
      by (intro disjI2 exI [of _ a] exI [of _ t] exI [of _ "before @ l"]) simp
  next
    case 2
    have "{h ..< b} \<subseteq> {a ..< b} \<union> {h ..< t}" using 2 by auto
    then have "{h ..< b} \<subseteq> S" using o(4) assms(6) by blast
    moreover have "sack_merge (encs isn (h, t)) (encs isn c) = Some (Some (encs isn (h, b)))"
      using 2 q o(2) assms(4) c by (simp add: sack_merge_def encs_def)
    ultimately show ?thesis using 2 o assms(3-5) Cons.prems(1)
      by (intro disjI2 exI [of _ h] exI [of _ b] exI [of _ "before @ l"]) simp
  next
    case 3
    have "sacks_ok S n hi (before @ [c])" using Cons.prems c o by simp
    from Cons.IH [OF this o(5)] 3 q c show ?thesis by (simp add: sack_merge_def encs_def)
  qed
qed simp

lemma loop_ok:
  assumes "hi < lo + 2 ^ 31" and "lo \<le> n"
  shows "n < h \<Longrightarrow> h < t \<Longrightarrow> t \<le> hi \<Longrightarrow> {h ..< t} \<subseteq> S \<Longrightarrow> sacks_ok S n hi l \<Longrightarrow>
    \<exists>l'. sack_loop (encs isn (h, t)) (map (encs isn) l) = Some (map (encs isn) l') \<and> sacks_ok S n hi l' \<and>
      length l' \<le> Suc (length l)"
proof (induction "length l" arbitrary: h t l rule: less_induct)
  case less
  from scan_ok [OF assms less.prems(1-4), of "[]", OF _ less.prems(5), of isn]
  consider "sack_scan (encs isn (h, t)) [] (map (encs isn) l) = Some None"
    | h' t' l' where "sack_scan (encs isn (h, t)) [] (map (encs isn) l) =
        Some (Some (encs isn (h', t'), map (encs isn) l'))"
      "n < h'" "h' < t'" "t' \<le> hi" "{h' ..< t'} \<subseteq> S" "sacks_ok S n hi l'" "Suc (length l') = length l"
    by auto
  then show ?case
  proof cases
    case 1
    then have "sack_loop (encs isn (h, t)) (map (encs isn) l) = Some (map (encs isn) ((h, t) # l))"
      by (subst sack_loop.simps) simp
    with less.prems show ?thesis by (intro exI [of _ "(h, t) # l"]) simp
  next
    case 2
    have "length l' < length l" using 2(7) by simp
    from less.hyps [OF this 2(2-6)] obtain l2 where
      "sack_loop (encs isn (h', t')) (map (encs isn) l') = Some (map (encs isn) l2)" "sacks_ok S n hi l2"
      "length l2 \<le> Suc (length l')" by blast
    with 2(1,7) show ?thesis by (subst sack_loop.simps) (intro exI [of _ l2], simp)
  qed
qed

lemma clear_ok:
  assumes "hi < lo + 2 ^ 31" and "lo \<le> n" and "lo \<le> m" and "m \<le> hi"
  shows "sacks_ok S n hi l \<Longrightarrow>
    clear_sacks (sq isn m) (map (encs isn) l) = Some (map (encs isn) (filter (\<lambda>(h, t). m < t) l))"
proof (induction l)
  case (Cons c l)
  obtain a b where c: "c = (a, b)" by (cases c)
  have o: "n < a" "a < b" "b \<le> hi" "sacks_ok S n hi l" using Cons.prems c by simp_all
  have "SeqNum_less (sq isn a) (sq isn b) \<longleftrightarrow> a < b" "SeqNum_le (sq isn b) (sq isn m) \<longleftrightarrow> b \<le> m"
    using assms o by (intro sq_compare window_near [OF _ _ _ _ assms(1)]; simp)+
  with Cons.IH [OF o(4)] o c show ?case by (simp add: encs_def not_le)
qed simp

section \<open>Moving on over the bytes in order\<close>

lemma sq_less_window:
  assumes "hi < lo + 2 ^ 31" "lo \<le> a" "a \<le> hi" "lo \<le> b" "b \<le> hi"
  shows "SeqNum_less (sq isn a) (sq isn b) \<longleftrightarrow> a < b" and "SeqNum_greater (sq isn a) (sq isn b) \<longleftrightarrow> b < a"
    and "SeqNum_le (sq isn a) (sq isn b) \<longleftrightarrow> a \<le> b" and "SeqNum_ge (sq isn a) (sq isn b) \<longleftrightarrow> b \<le> a"
    and "sq isn a = sq isn b \<longleftrightarrow> a = b"
  using assms window_near [of lo a hi b] by (simp_all add: sq_compare)

lemma advance_enc:
  assumes w: "hi < lo + 2 ^ 31"
  shows "blocks lo bs \<Longrightarrow> ends_by hi bs \<Longrightarrow> lo \<le> n \<Longrightarrow> n \<le> hi \<Longrightarrow>
    rx_nextRxSeq b = sq isn n \<Longrightarrow> rx_sackList b = map (encs isn) l \<Longrightarrow> sacks_ok S n0 hi l \<Longrightarrow> lo \<le> n0 \<Longrightarrow>
    \<exists>l'. rx_advance (map (enc isn f) bs) b = Some (b\<lparr>rx_nextRxSeq := sq isn (adv bs n),
        rx_availBytes := rx_availBytes b + word_of_nat (adv bs n - n), rx_sackList := map (encs isn) l'\<rparr>) \<and>
      set l' \<subseteq> set l \<and> length l' \<le> length l \<and> n \<le> adv bs n \<and> (n < adv bs n \<longrightarrow> (\<forall>(h, t) \<in> set l'. adv bs n < t))"
proof (induction bs arbitrary: n b l)
  case Nil
  then show ?case by (intro exI [of _ l]) simp
next
  case (Cons i bs)
  obtain p e where i: "i = (p, e)" by (cases i)
  have b: "lo \<le> p" "p < e" "e \<le> hi" "blocks lo bs" "ends_by hi bs" "p \<le> hi" "lo \<le> e"
    using Cons.prems(1,2) i blocks_mono [of e bs lo] by auto
  note c = sq_less_window [OF w b(1,6) Cons.prems(3,4), of isn]
  consider "p < n" | "n < p" | "p = n" by linarith
  then show ?case
  proof cases
    case 1
    with Cons.IH [OF b(4,5) Cons.prems(3-8)] c i Cons.prems(5) show ?thesis by (simp add: enc_pair)
  next
    case 2
    with c i Cons.prems(5,6) show ?thesis by (intro exI [of _ l]) (simp add: enc_pair)
  next
    case 3
    have last: "sq isn n + word_of_nat (e - n) = sq isn e"
      using 3 b(2) by (simp only: sq_add) simp
    let ?l = "filter (\<lambda>(h, t). e < t) l"
    let ?b = "b\<lparr>rx_nextRxSeq := sq isn e, rx_availBytes := rx_availBytes b + word_of_nat (e - n),
      rx_sackList := map (encs isn) ?l\<rparr>"
    have "clear_sacks (sq isn e) (map (encs isn) l) = Some (map (encs isn) ?l)"
      using w Cons.prems(8) b(7,3) Cons.prems(7) by (rule clear_ok)
    then have step: "rx_advance (map (enc isn f) (i # bs)) b = rx_advance (map (enc isn f) bs) ?b"
      using c 3 i Cons.prems(5,6) by (simp add: enc_pair pktLen_upt last Rx_ClearSackList_def Let_def)
    have "sacks_ok S n0 hi ?l" using Cons.prems(7) by (auto simp: sacks_ok_def)
    from Cons.IH [OF b(4,5,7,3) _ _ this Cons.prems(8), of ?b] obtain l' where
      l': "rx_advance (map (enc isn f) bs) ?b = Some (?b\<lparr>rx_nextRxSeq := sq isn (adv bs e),
        rx_availBytes := rx_availBytes ?b + word_of_nat (adv bs e - e), rx_sackList := map (encs isn) l'\<rparr>)"
      "set l' \<subseteq> set ?l" "e \<le> adv bs e" "e < adv bs e \<longrightarrow> (\<forall>(h, t) \<in> set l'. adv bs e < t)"
      "length l' \<le> length ?l" by auto
    have "(word_of_nat (e - n) :: u32) + word_of_nat (adv bs e - e) = word_of_nat (adv bs e - n)"
      using 3 b(2) l'(3) by (simp flip: of_nat_add)
    moreover have "adv (i # bs) n = adv bs e" using i 3 by simp
    ultimately have "rx_advance (map (enc isn f) (i # bs)) b = Some (b\<lparr>rx_nextRxSeq := sq isn (adv (i # bs) n),
        rx_availBytes := rx_availBytes b + word_of_nat (adv (i # bs) n - n), rx_sackList := map (encs isn) l'\<rparr>)"
      unfolding step l'(1) by (simp add: add.assoc)
    moreover have "\<forall>(h, t) \<in> set l'. adv bs e < t"
      using l'(2-4) by (cases "e < adv bs e") auto
    moreover have "set l' \<subseteq> set l" using l'(2) by auto
    moreover have "length l' \<le> length l" using l'(5) length_filter_le [of _ l] le_trans by blast
    moreover have "n \<le> adv bs e" using l'(3) 3 b(2) by simp
    ultimately show ?thesis using \<open>adv (i # bs) n = adv bs e\<close> by (intro exI [of _ l']) simp
  qed
qed

end
