(* ===== verification/Tcp_Rx_Run.thy ===== *)
theory Tcp_Rx_Run
  imports Tcp_Rx_Positions
begin

text \<open>
  The receive buffer as a whole. Its contract: the state is a set of stream positions received
  and not yet read, of which those below \<open>N\<close> are in order; a segment adds the positions inside the
  receive window, a read takes the first ones. \<open>rx_rel\<close> relates the code's buffer to this state,
  and every operation keeps it.
\<close>

text \<open>Positions further than this from the reader are not considered.\<close>

abbreviation (input) span :: nat where
  "span \<equiv> 2 ^ 29"

definition rx_rel ::
    "nat \<Rightarrow> (nat \<Rightarrow> u8) \<Rightarrow> nat \<Rightarrow> nat \<Rightarrow> nat \<Rightarrow> (nat \<times> nat) list \<Rightarrow> (nat \<times> nat) list \<Rightarrow> TcpRxBuffer \<Rightarrow> bool" where
  "rx_rel isn f mx D N bs l b \<longleftrightarrow>
     blocks D bs \<and> ends_by (D + span) bs \<and> is_next (covered bs) D N \<and>
     sacks_ok (covered bs) N (D + span) l \<and> length l \<le> 4 \<and> mx \<le> span \<and>
     rx_sackList b = map (encs isn) l \<and> rx_nextRxSeq b = sq isn N \<and> \<not> rx_gotFin b \<and>
     rx_size b = word_of_nat (bytes_in bs) \<and> rx_maxBuffer b = word_of_nat mx \<and>
     rx_availBytes b = word_of_nat (N - D) \<and> rx_data b = map (enc isn f) bs"

lemma covered_below: "ends_by hi bs \<Longrightarrow> x \<in> covered bs \<Longrightarrow> x < hi"
  by (auto simp: ends_by_def covered_iff)

lemma next_below:
  assumes "is_next (covered bs) d n" "ends_by hi bs" "d \<le> hi"
  shows "n \<le> hi"
proof (rule ccontr)
  assume "\<not> n \<le> hi"
  then have "hi \<in> {d ..< n}" using assms(3) by simp
  then have "hi \<in> covered bs" using assms(1) by (auto simp: is_next_def)
  from covered_below [OF assms(2) this] show False by simp
qed

lemma bytes_ins: "h \<le> t \<Longrightarrow> bytes_in (ins (h, t) bs) = bytes_in bs + (t - h)"
  by (induction "(h, t)" bs rule: ins.induct) auto

lemma ends_by_ins: "ends_by hi (ins (h, t) bs) \<longleftrightarrow> t \<le> hi \<and> ends_by hi bs"
  by (auto simp: ends_by_def set_ins)

lemma fragment_upt:
  assumes "q \<le> h" "h \<le> t" "t \<le> q + m"
  shows "take (t - h) (drop (h - q) (map f [q ..< q + m])) = map f [h ..< t]"
proof -
  have "take (t - h) (drop (h - q) [q ..< q + m]) = [h ..< t]" using assms by (simp add: take_upt)
  then show ?thesis by (simp add: take_map drop_map)
qed

section \<open>A segment\<close>

text \<open>The bounds of the segment inside the window.\<close>

definition trim :: "nat \<Rightarrow> nat \<Rightarrow> (nat \<times> nat) list \<Rightarrow> nat \<Rightarrow> nat \<Rightarrow> nat \<times> nat" where
  "trim mx N bs h t =
     (if bs = [] then (max h N, t)
      else let t' = min t (fst (hd bs) + mx) in (min (max h N) t', t'))"

lemma trim_enc:
  assumes w: "hi < lo + 2 ^ 31" and p: "lo \<le> q" "q \<le> hi" "lo \<le> e" "e \<le> hi" "lo \<le> N" "N \<le> hi"
    and m: "bs \<noteq> [] \<Longrightarrow> lo \<le> fst (hd bs) \<and> fst (hd bs) + mx \<le> hi"
    and b: "rx_nextRxSeq b = sq isn N" "rx_data b = map (enc isn f) bs" "rx_maxBuffer b = word_of_nat mx"
    and r: "trim mx N bs q e = (h, t)"
  shows "rx_trim (sq isn q) (sq isn e) b = (sq isn h, sq isn t)"
proof -
  have h: "(if SeqNum_less (sq isn q) (sq isn N) then sq isn N else sq isn q) = sq isn (max q N)"
    using sq_less_window(1) [OF w p(1,2,5,6)] by simp
  show ?thesis
  proof (cases bs)
    case Nil
    with b r h show ?thesis by (auto simp: rx_trim_def trim_def Let_def simp del: if_split_asm)
  next
    case (Cons i bs')
    then have x: "lo \<le> fst i + mx" "fst i + mx \<le> hi" using m by auto
    let ?T = "fst i + mx"
    have t: "(if SeqNum_less (sq isn ?T) (sq isn e) then sq isn ?T else sq isn e) = sq isn (min e ?T)"
      using sq_less_window(1) [OF w x p(3,4)] by simp
    have "lo \<le> min e ?T" "min e ?T \<le> hi" "lo \<le> max q N" "max q N \<le> hi" using x p by auto
    from sq_less_window(1) [OF w this]
    have y: "(if SeqNum_less (sq isn (min e ?T)) (sq isn (max q N)) then sq isn (min e ?T)
      else sq isn (max q N)) = sq isn (min (max q N) (min e ?T))"
      by (cases "min e ?T < max q N") (simp_all only: if_True if_False min_absorb1 min_absorb2 not_less less_imp_le)
    have z: "fst (enc isn f i) + word_of_nat mx = sq isn ?T"
      by (simp only: enc_def fst_conv sq_add)
    have "rx_trim (sq isn q) (sq isn e) b = (sq isn (min (max q N) (min e ?T)), sq isn (min e ?T))"
      unfolding rx_trim_def Let_def b h Cons list.map list.sel z t y by simp
    then show ?thesis using r Cons by (auto simp: trim_def Let_def)
  qed
qed

lemma trim_range:
  assumes "trim mx N bs q e = (h, t)"
  shows "bs \<noteq> [] \<Longrightarrow> h \<le> t" and "t \<le> e" and "h < t \<Longrightarrow> N \<le> h \<and> q \<le> h"
  using assms by (auto simp: trim_def Let_def min_def max_def split: if_splits)

lemma ov_range:
  "blocks lo bs \<Longrightarrow> ends_by hi bs \<Longrightarrow> lo \<le> h \<Longrightarrow> h \<le> hi \<Longrightarrow> lo \<le> t \<Longrightarrow> t \<le> hi \<Longrightarrow>
    ov bs h t = (bs', h', t') \<Longrightarrow> lo \<le> h' \<and> h' \<le> hi \<and> lo \<le> t' \<and> t' \<le> hi"
proof (induction bs arbitrary: h t bs')
  case (Cons i bs)
  obtain p e where i: "i = (p, e)" by (cases i)
  have b: "lo \<le> p" "p < e" "e \<le> hi" "blocks lo bs" "ends_by hi bs"
    using Cons.prems(1,2) i blocks_mono [of e bs lo] by auto
  show ?case
  proof (cases "t < p \<or> (h < e \<and> h < p \<and> e < t)")
    case True
    then show ?thesis using Cons.IH [OF b(4,5) Cons.prems(3-6)] Cons.prems(3-7) i
      by (cases "t < p") auto
  next
    case False
    let ?h = "if h < e \<and> p \<le> h then e else h" and ?t = "if h < e \<and> t \<le> e then p else t"
    obtain r where "ov bs ?h ?t = (r, h', t')"
      using Cons.prems(7) False i by (auto simp: Let_def split: prod.splits if_splits)
    from Cons.IH [OF b(4,5) _ _ _ _ this] show ?thesis using b(1-3) Cons.prems(3-6) by (auto split: if_splits)
  qed
qed simp

lemma trim_set:
  "trim mx N bs q e = (h, t) \<Longrightarrow>
    {h ..< t} = {q ..< e} \<inter> {N ..} \<inter> (if bs = [] then UNIV else {..< fst (hd bs) + mx})"
  by (auto simp: trim_def Let_def split: if_splits)

lemma ov_lower: "blocks e bs \<Longrightarrow> h < e \<Longrightarrow> ov bs h t = (bs', h', t') \<Longrightarrow> h' = h"
proof (induction bs arbitrary: e h t bs')
  case (Cons i bs)
  obtain p x where i: "i = (p, x)" by (cases i)
  have b: "e \<le> p" "p < x" "blocks x bs" "h < x" "h < p" using Cons.prems(1,2) i by simp_all
  show ?case
  proof (cases "t < p \<or> x < t")
    case True
    then show ?thesis using Cons.IH [OF b(3,4)] Cons.prems(3) b(4,5) i by (cases "t < p") (auto split: if_splits)
  next
    case False
    then obtain r where "ov bs h p = (r, h', t')"
      using Cons.prems(3) b(2,4,5) i by (auto simp: Let_def split: prod.splits)
    from Cons.IH [OF b(3,4) this] show ?thesis .
  qed
qed simp

text \<open>What is stored begins with a byte that was missing.\<close>

lemma ov_fresh:
  "blocks lo bs \<Longrightarrow> h \<le> t \<Longrightarrow> ov bs h t = (bs', h', t') \<Longrightarrow> h' < t' \<Longrightarrow> h' \<notin> covered bs"
proof (induction bs arbitrary: lo h t bs')
  case (Cons i bs)
  obtain p e where i: "i = (p, e)" by (cases i)
  have b: "lo \<le> p" "p < e" "blocks e bs" using Cons.prems(1) i by simp_all
  note spec = ov_spec [OF Cons.prems(1-3)]
  show ?case
  proof (cases "t < p")
    case True
    with Cons.prems(3) i have "bs' = i # bs" by simp
    with spec Cons.prems(4) show ?thesis by auto
  next
    case np: False
    show ?thesis
    proof (cases "h < e \<and> h < p \<and> e < t")
      case True
      then have "ov bs h t = (bs', h', t')" using Cons.prems(3) np i by simp
      from Cons.IH [OF b(3) Cons.prems(2) this Cons.prems(4)] ov_lower [OF b(3) _ this]
      show ?thesis using True i by auto
    next
      case False
      let ?h = "if h < e \<and> p \<le> h then e else h" and ?t = "if h < e \<and> t \<le> e then p else t"
      obtain r where r: "ov bs ?h ?t = (r, h', t')" "bs' = (p, e) # r"
        using Cons.prems(3) np False i by (auto simp: Let_def split: prod.splits if_splits)
      have "h' \<notin> {p ..< e}" using spec r(2) Cons.prems(4) by auto
      moreover have "h' \<notin> covered bs"
      proof (cases "?h \<le> ?t")
        case True
        then show ?thesis using Cons.IH [OF b(3) _ r(1) Cons.prems(4)] by simp
      next
        case False
        with np \<open>\<not> (h < e \<and> h < p \<and> e < t)\<close> Cons.prems(2) b(2) have "?t < e"
          by (auto split: if_splits)
        with ov_stop [OF b(3) this] r(1) Cons.prems(4) False show ?thesis by simp
      qed
      ultimately show ?thesis using i by simp
    qed
  qed
qed simp

text \<open>
  \<open>seg_in D q m\<close>: the segment of the bytes from \<open>q\<close> to \<open>q + m\<close> is close enough to the reader for the
  comparison of sequence numbers to be right.
\<close>

definition seg_in :: "nat \<Rightarrow> nat \<Rightarrow> nat \<Rightarrow> bool" where
  "seg_in D q m \<longleftrightarrow> D \<le> q + span \<and> q + m \<le> D + span"

text \<open>The positions after a segment.\<close>

definition accept :: "nat \<Rightarrow> nat \<Rightarrow> (nat \<times> nat) list \<Rightarrow> nat \<Rightarrow> nat \<Rightarrow> nat set" where
  "accept mx N bs q m =
     covered bs \<union> ({q ..< q + m} \<inter> {N ..} \<inter> (if bs = [] then UNIV else {..< fst (hd bs) + mx}))"

text \<open>The bytes from \<open>h\<close> to \<open>t\<close>, none of which is buffered, are stored.\<close>

lemma update_rel:
  assumes w: "hi < lo + 2 ^ 31" "lo \<le> N" and h: "N \<le> h" "h < t" "t \<le> hi" "{h ..< t} \<subseteq> S"
    and l: "sacks_ok S N hi l" "length l \<le> 4" and b: "rx_sackList b = map (encs isn) l" "rx_nextRxSeq b = sq isn N"
  shows "\<exists>l'. (if SeqNum_greater (sq isn h) (rx_nextRxSeq b) then Rx_UpdateSackList (sq isn h) (sq isn t) b
      else Some b) = Some (b\<lparr>rx_sackList := map (encs isn) l'\<rparr>) \<and> sacks_ok S N hi l' \<and> length l' \<le> 4"
proof -
  have g: "SeqNum_greater (sq isn h) (sq isn N) \<longleftrightarrow> N < h"
    by (rule sq_less_window(2) [OF w(1)]) (use w h in simp_all)
  show ?thesis
  proof (cases "N < h")
    case False
    with g b l show ?thesis by (intro exI [of _ l]) simp
  next
    case True
    from loop_ok [OF w True h(2-4) l(1), of isn] obtain l1 where
      l1: "sack_loop (encs isn (h, t)) (map (encs isn) l) = Some (map (encs isn) l1)" "sacks_ok S N hi l1"
      "length l1 \<le> Suc (length l)" by blast
    let ?l = "if length l1 > 4 then butlast l1 else l1"
    have "sacks_ok S N hi ?l" using l1(2) by (auto simp: sacks_ok_def dest: in_set_butlastD)
    moreover have "length ?l \<le> 4" using l1(3) l(2) by auto
    ultimately show ?thesis using True g b l1(1)
      by (intro exI [of _ ?l]) (simp add: Rx_UpdateSackList_def encs_def map_butlast)
  qed
qed

lemma sacks_advance:
  assumes "sacks_ok S N hi l" "set l' \<subseteq> set l" "N \<le> N'" "N < N' \<longrightarrow> (\<forall>(h, t) \<in> set l'. N' < t)" "N' \<notin> S"
  shows "sacks_ok S N' hi l'"
  unfolding sacks_ok_def
proof clarify
  fix h t
  assume m: "(h, t) \<in> set l'"
  then have o: "N < h" "h < t" "t \<le> hi" "{h ..< t} \<subseteq> S" using assms(1,2) by (auto simp: sacks_ok_def)
  have "N' < h"
  proof (rule ccontr)
    assume n: "\<not> N' < h"
    with o(1) assms(4) m have "N' < t" by auto
    with n have "N' \<in> {h ..< t}" by simp
    with o(4) assms(5) show False by blast
  qed
  with o show "N' < h \<and> h < t \<and> t \<le> hi \<and> {h ..< t} \<subseteq> S" by simp
qed

lemma store_rel:
  assumes blk: "blocks D bs" "ends_by (D + span) bs" and N: "D \<le> N" "N \<le> D + span" "{D ..< N} \<subseteq> S" "N \<notin> covered bs"
    and h: "N \<le> h" "h < t" "t \<le> D + span" "covered bs \<inter> {h ..< t} = {}" and S: "S = covered bs \<union> {h ..< t}"
    and l: "sacks_ok S N (D + span) l" "length l \<le> 4" and mx: "mx \<le> span"
    and b: "rx_sackList b = map (encs isn) l" "rx_nextRxSeq b = sq isn N" "\<not> rx_gotFin b"
      "rx_size b = word_of_nat (bytes_in bs)" "rx_maxBuffer b = word_of_nat mx"
      "rx_availBytes b = word_of_nat (N - D)" "rx_data b = map (enc isn f) bs"
  shows "\<exists>b2 b' N' l'. sq isn h \<notin> fst ` set (rx_data b) \<and>
    (let b = b\<lparr>rx_data := rx_put (sq isn h) (map f [h ..< t]) (rx_data b)\<rparr> in
     if SeqNum_greater (sq isn h) (rx_nextRxSeq b) then Rx_UpdateSackList (sq isn h) (sq isn t) b else Some b) =
      Some b2 \<and>
    (let b = b2\<lparr>rx_size := rx_size b2 + pktLen (map f [h ..< t])\<rparr> in rx_advance (rx_data b) b) = Some b' \<and>
    rx_rel isn f mx D N' (ins (h, t) bs) l' b'"
proof -
  let ?lo = "D - span" and ?hi = "D + span" and ?bs = "ins (h, t) bs"
  have w: "?hi < ?lo + 2 ^ 31" by simp
  have lo: "blocks ?lo bs" by (rule blocks_mono [OF blk(1)]) simp
  have fresh: "h \<notin> fst ` set bs"
  proof
    assume "h \<in> fst ` set bs"
    then obtain e where "(h, e) \<in> set bs" by auto
    with blocks_lower [OF blk(1) this] have "h \<in> covered bs" by (auto simp: covered_iff)
    with h(2,4) show False by auto
  qed
  have hw: "?lo \<le> h" "h \<le> ?hi" "?lo \<le> N" using h N by simp_all
  have key: "sq isn h \<notin> fst ` set (rx_data b)"
    using keys_enc [OF w hw(1,2) lo blk(2), of isn f] fresh b(7) by simp
  have put: "rx_put (sq isn h) (map f [h ..< t]) (rx_data b) = map (enc isn f) ?bs"
    unfolding b(7) by (rule put_enc [OF w hw(1,2) lo blk(2) fresh])
  have blk': "blocks D ?bs" "covered ?bs = S" "ends_by ?hi ?bs" "blocks ?lo ?bs"
    using ins_spec [OF blk(1) _ h(2,4)] blocks_mono [of D ?bs ?lo] N(1) h(1,3) S blk(2)
    by (simp_all add: ends_by_ins)
  let ?b = "b\<lparr>rx_data := rx_put (sq isn h) (map f [h ..< t]) (rx_data b)\<rparr>"
  obtain l1 where l1: "(if SeqNum_greater (sq isn h) (rx_nextRxSeq ?b)
      then Rx_UpdateSackList (sq isn h) (sq isn t) ?b else Some ?b) = Some (?b\<lparr>rx_sackList := map (encs isn) l1\<rparr>)"
    "sacks_ok S N ?hi l1" "length l1 \<le> 4"
    using update_rel [OF w hw(3) h(1-3) _ l, of ?b] S b by auto
  let ?b2 = "?b\<lparr>rx_sackList := map (encs isn) l1\<rparr>"
  let ?b3 = "?b2\<lparr>rx_size := rx_size ?b2 + pktLen (map f [h ..< t])\<rparr>"
  obtain l2 where l2: "rx_advance (map (enc isn f) ?bs) ?b3 = Some (?b3\<lparr>rx_nextRxSeq := sq isn (adv ?bs N),
      rx_availBytes := rx_availBytes ?b3 + word_of_nat (adv ?bs N - N), rx_sackList := map (encs isn) l2\<rparr>)"
    "set l2 \<subseteq> set l1" "length l2 \<le> length l1" "N \<le> adv ?bs N"
    "N < adv ?bs N \<longrightarrow> (\<forall>(h, t) \<in> set l2. adv ?bs N < t)"
    using advance_enc [OF w blk'(4,3) hw(3) N(2) _ _ l1(2) hw(3), of ?b3 isn f] b(2) by auto
  have "\<forall>(p, e) \<in> set ?bs. p < N \<longrightarrow> e \<le> N"
    using h(1) N(4) by (fastforce simp: set_ins covered_iff not_le)
  from adv_spec [OF blk'(1) this] have nx: "is_next S N (adv ?bs N)" unfolding blk'(2) .
  then have nx': "is_next S D (adv ?bs N)" using N(1,3) by (fastforce simp: is_next_def subset_iff not_less)
  have sk: "sacks_ok S (adv ?bs N) ?hi l2"
    using sacks_advance [OF l1(2) l2(2,4,5)] nx by (simp add: is_next_def)
  have avail: "(word_of_nat (N - D) :: u32) + word_of_nat (adv ?bs N - N) = word_of_nat (adv ?bs N - D)"
    using N(1) l2(4) by (simp flip: of_nat_add)
  have size: "(word_of_nat (bytes_in bs) :: u32) + word_of_nat (t - h) = word_of_nat (bytes_in ?bs)"
    using h(2) by (simp add: bytes_ins)
  let ?b4 = "?b3\<lparr>rx_nextRxSeq := sq isn (adv ?bs N),
      rx_availBytes := rx_availBytes ?b3 + word_of_nat (adv ?bs N - N), rx_sackList := map (encs isn) l2\<rparr>"
  have "rx_rel isn f mx D (adv ?bs N) ?bs l2 ?b4"
    unfolding rx_rel_def blk'(2)
    using blk'(1,3) nx' sk l2(3) l1(3) mx b put avail size by (simp add: pktLen_upt)
  moreover have "rx_advance (rx_data ?b3) ?b3 = Some ?b4" using l2(1) put by simp
  ultimately show ?thesis using key l1(1) unfolding Let_def by blast
qed

lemma add_rel:
  assumes rel: "rx_rel isn f mx D N bs l b" and seg: "seg_in D q m"
  shows "\<exists>ok b' N' bs' l'. Rx_Add (sq isn q) (map f [q ..< q + m]) b = Some (ok, b') \<and>
    rx_rel isn f mx D N' bs' l' b' \<and> covered bs' = accept mx N bs q m \<and>
    (ok \<longleftrightarrow> covered bs' \<noteq> covered bs)"
proof -
  let ?lo = "D - span" and ?hi = "D + 2 ^ 30"
  have w: "?hi < ?lo + 2 ^ 31" by simp
  have r: "blocks D bs" "ends_by (D + span) bs" "is_next (covered bs) D N"
    "sacks_ok (covered bs) N (D + span) l" "length l \<le> 4" "mx \<le> span"
    "rx_sackList b = map (encs isn) l" "rx_nextRxSeq b = sq isn N" "\<not> rx_gotFin b"
    "rx_size b = word_of_nat (bytes_in bs)" "rx_maxBuffer b = word_of_nat mx"
    "rx_availBytes b = word_of_nat (N - D)" "rx_data b = map (enc isn f) bs"
    using rel unfolding rx_rel_def by blast+
  have N: "D \<le> N" "N \<le> D + span" using r(3) next_below [OF r(3,2)] by (simp_all add: is_next_def)
  have lo: "blocks ?lo bs" by (rule blocks_mono [OF r(1)]) simp
  have hi: "ends_by ?hi bs" using r(2) by (fastforce simp: ends_by_def)
  obtain h t where ht: "trim mx N bs q (q + m) = (h, t)" by (cases "trim mx N bs q (q + m)")
  have hd: "D \<le> fst (hd bs) \<and> fst (hd bs) \<le> D + span" if "bs \<noteq> []"
    using that r(1,2) by (cases bs) (auto simp: ends_by_def)
  have trim: "rx_trim (sq isn q) (sq isn (q + m)) b = (sq isn h, sq isn t)"
    using seg N r(6) hd by (intro trim_enc [OF w _ _ _ _ _ _ _ r(8,13,11) ht]) (auto simp: seg_in_def)
  have T: "h \<le> ?hi" "?lo \<le> h" "?lo \<le> t" "t \<le> ?hi"
    using ht seg N r(6) hd by (auto simp: trim_def seg_in_def Let_def min_def max_def split: if_splits)
  obtain bs1 h1 t1 where ov: "ov bs h t = (bs1, h1, t1)" by (cases "ov bs h t")
  have over: "rx_overlap (rx_data b) (sq isn h) (sq isn t) (rx_size b) =
    (map (enc isn f) bs1, sq isn h1, sq isn t1, word_of_nat (bytes_in bs1))"
    using overlap_enc [OF w lo hi T(2,1,3,4) ov, of isn f "rx_size b"] r(10,13) by simp
  note R = ov_range [OF lo hi T(2,1,3,4) ov]
  have spec: "covered bs1 \<union> {h1 ..< t1} = accept mx N bs q m \<and> covered bs1 \<inter> {h1 ..< t1} = {} \<and>
    blocks D bs1 \<and> set bs1 \<subseteq> set bs \<and> (h1 < t1 \<longrightarrow> h \<le> h1 \<and> t1 \<le> t \<and> h1 \<notin> covered bs)"
  proof (cases "bs = []")
    case True
    then show ?thesis using ov trim_set [OF ht] by (auto simp: accept_def)
  next
    case False
    note le = trim_range(1) [OF ht False]
    from ov_spec [OF r(1) le ov] ov_fresh [OF r(1) le ov] trim_set [OF ht] show ?thesis
      by (simp add: accept_def)
  qed
  have ge: "SeqNum_ge (sq isn h1) (sq isn t1) \<longleftrightarrow> t1 \<le> h1"
    using sq_less_window(4) [OF w] R by blast
  note start = Rx_Add_def trim [folded sq_add] pktLen_upt over
  show ?thesis
  proof (cases "h1 < t1")
    case False
    then have same: "covered bs1 = accept mx N bs q m" using spec by simp
    have "covered bs1 \<subseteq> covered bs" using spec by (fastforce simp: covered_iff)
    then have S: "covered bs1 = covered bs" using same by (auto simp: accept_def)
    let ?b = "b\<lparr>rx_data := map (enc isn f) bs1, rx_size := word_of_nat (bytes_in bs1)\<rparr>"
    have "Rx_Add (sq isn q) (map f [q ..< q + m]) b = Some (False, ?b)"
      using False ge trim over unfolding Rx_Add_def by (simp add: pktLen_upt sq_add)
    moreover have "rx_rel isn f mx D N bs1 l ?b"
      using r spec S unfolding rx_rel_def by (auto simp: ends_by_def)
    ultimately show ?thesis using S same by blast
  next
    case True
    then have T1: "N \<le> h1" "q \<le> h1" "t1 \<le> q + m" "t1 \<le> D + span"
      using spec trim_range(2,3) [OF ht] seg by (auto simp: seg_in_def)
    let ?S = "accept mx N bs q m"
    let ?b = "b\<lparr>rx_data := map (enc isn f) bs1, rx_size := word_of_nat (bytes_in bs1)\<rparr>"
    have sub: "covered bs1 \<subseteq> covered bs" using spec by (fastforce simp: covered_iff)
    have S: "covered bs \<subseteq> ?S" by (simp add: accept_def)
    have N1: "{D ..< N} \<subseteq> ?S" "N \<notin> covered bs1" using r(3) S sub by (auto simp: is_next_def)
    have blk1: "blocks D bs1" "ends_by (D + span) bs1" using spec r(2) by (auto simp: ends_by_def)
    have dis: "covered bs1 \<inter> {h1 ..< t1} = {}" "?S = covered bs1 \<union> {h1 ..< t1}" using spec by auto
    have b: "rx_sackList ?b = map (encs isn) l" "rx_nextRxSeq ?b = sq isn N" "\<not> rx_gotFin ?b"
      "rx_size ?b = word_of_nat (bytes_in bs1)" "rx_maxBuffer ?b = word_of_nat mx"
      "rx_availBytes ?b = word_of_nat (N - D)" "rx_data ?b = map (enc isn f) bs1"
      using r by simp_all
    from store_rel [OF blk1 N N1 T1(1) True T1(4) dis sacks_ok_mono [OF r(4) S le_refl] r(5,6) b]
    obtain b2 b' N' l' where st: "sq isn h1 \<notin> fst ` set (map (enc isn f) bs1)"
      "(let b = ?b\<lparr>rx_data := rx_put (sq isn h1) (map f [h1 ..< t1]) (map (enc isn f) bs1)\<rparr> in
       if SeqNum_greater (sq isn h1) (rx_nextRxSeq b) then Rx_UpdateSackList (sq isn h1) (sq isn t1) b
       else Some b) = Some b2"
      "(let b = b2\<lparr>rx_size := rx_size b2 + pktLen (map f [h1 ..< t1])\<rparr> in rx_advance (rx_data b) b) = Some b'"
      "rx_rel isn f mx D N' (ins (h1, t1) bs1) l' b'"
      unfolding b by blast
    have small: "h1 - q < 2 ^ 31" "t1 - h1 < 2 ^ 31" using T1 seg True by (auto simp: seg_in_def)
    then have d: "SeqNum_diff (sq isn h1) (sq isn q) = Some (int (h1 - q))"
      "SeqNum_diff (sq isn t1) (sq isn h1) = Some (int (t1 - h1))"
      using True T1(2) by (intro sq_seqdiff; simp)+
    have u: "unat (word_of_nat (h1 - q) :: u32) = h1 - q" "unat (word_of_nat (t1 - h1) :: u32) = t1 - h1"
      using small by (intro unat_small; simp)+
    have frag: "Packet_CreateFragment (h1 - q) (t1 - h1) (map f [q ..< q + m]) = Some (map f [h1 ..< t1])"
    proof -
      have "t1 - q \<le> m" using T1(3) by simp
      then show ?thesis using fragment_upt [OF T1(2) less_imp_le [OF True] T1(3), of f] True T1(2)
        by (simp add: Packet_CreateFragment_def)
    qed
    have fin: "\<not> rx_gotFin b'" using st(4) by (simp add: rx_rel_def)
    have "Rx_Add (sq isn q) (map f [q ..< q + m]) b = Some (True, b')"
      using True ge st(1-3) fin
      unfolding Rx_Add_def pktLen_upt [of f q "q + m"] diff_add_inverse sq_add trim over Let_def split_conv
      by (simp add: d u frag del: of_nat_diff)
    moreover have "covered (ins (h1, t1) bs1) = ?S"
      using ins_spec(2) [OF blk1(1) _ True dis(1)] T1(1) N(1) dis(2) by simp
    moreover have "?S \<noteq> covered bs" using spec dis(2) True by auto
    ultimately show ?thesis using st(4) by blast
  qed
qed

section \<open>A read\<close>

lemma bytes_nonzero: "blocks d bs \<Longrightarrow> bs \<noteq> [] \<Longrightarrow> {d ..< d + k} \<subseteq> covered bs \<Longrightarrow> 0 < k \<Longrightarrow> fst (hd bs) = d"
proof (cases bs)
  case (Cons i bs')
  assume a: "blocks d bs" "{d ..< d + k} \<subseteq> covered bs" "0 < k"
  obtain p e where i: "i = (p, e)" by (cases i)
  have "d \<in> covered bs" using a(2,3) by auto
  with a(1) Cons i covered_lower [of e bs' d] show ?thesis by fastforce
qed simp

lemma extract_enc:
  assumes w: "hi < lo + 2 ^ 31" "lo \<le> N" "N \<le> hi"
  shows "lo \<le> d \<Longrightarrow> blocks d bs \<Longrightarrow> ends_by hi bs \<Longrightarrow> {d ..< d + k} \<subseteq> covered bs \<Longrightarrow> d + k \<le> N \<Longrightarrow>
    rx_extract (word_of_nat k) (sq isn N) (map (enc isn f) bs) sz avail =
      Some (map f [d ..< d + k], map (enc isn f) (ext k bs), sz - word_of_nat k, avail - word_of_nat k)"
proof (induction bs arbitrary: d k sz avail)
  case Nil
  then have "k = 0" by (cases k) auto
  then show ?case by simp
next
  case (Cons i bs)
  obtain p e where i: "i = (p, e)" by (cases i)
  have b: "d \<le> p" "p < e" "blocks e bs" "e \<le> hi" "ends_by hi bs" using Cons.prems(2,3) i by simp_all
  have k: "k < 2 ^ 31" using Cons.prems(1,5) w by linarith
  then have uk: "unat (word_of_nat k :: u32) = k" by (intro unat_small) simp
  show ?case
  proof (cases "k = 0")
    case True
    with i show ?thesis by (simp add: enc_pair)
  next
    case False
    then have nz: "(word_of_nat k :: u32) \<noteq> 0" using uk by auto
    have p: "p = d" using bytes_nonzero [OF Cons.prems(2) _ Cons.prems(4)] False i by simp
    have le: "SeqNum_le (sq isn p) (sq isn N)"
      using sq_less_window(3) [OF w(1), of p N isn] Cons.prems(1,5) p w(2,3) by simp
    have "e - p < 2 ^ 31" using b(2,4) Cons.prems(1) p w(1) by simp
    then have ue: "unat (word_of_nat (e - p) :: u32) = e - p" by (intro unat_small) simp
    have cmp: "pktLen (map f [p ..< e]) \<le> word_of_nat k \<longleftrightarrow> e - p \<le> k"
      unfolding word_le_nat_alt pktLen_upt ue uk ..
    show ?thesis
    proof (cases "e - p \<le> k")
      case True
      let ?k = "k - (e - p)"
      have d: "d + k = e + ?k" using True b(2) p by simp
      have wk: "(word_of_nat k :: u32) - word_of_nat (e - p) = word_of_nat ?k" using True by (simp add: of_nat_diff)
      have "{e ..< e + ?k} \<subseteq> covered bs"
      proof
        fix x
        assume x: "x \<in> {e ..< e + ?k}"
        then have "x \<in> {d ..< d + k}" using b(2) p d by auto
        with Cons.prems(4) x show "x \<in> covered bs" unfolding i by auto
      qed
      from Cons.IH [OF _ b(3,5) this, of "sz - word_of_nat (e - p)" "avail - word_of_nat (e - p)"]
      have "rx_extract (word_of_nat ?k) (sq isn N) (map (enc isn f) bs) (sz - word_of_nat (e - p))
          (avail - word_of_nat (e - p)) =
        Some (map f [e ..< d + k], map (enc isn f) (ext ?k bs), sz - word_of_nat (e - p) - word_of_nat ?k,
          avail - word_of_nat (e - p) - word_of_nat ?k)"
        using Cons.prems(1,5) b(1,2) d by simp
      moreover have "[d ..< d + k] = [p ..< e] @ [e ..< d + k]"
        using p b(2) d upt_add_eq_append [of p e ?k] by simp
      moreover have "(word_of_nat (e - p) :: u32) + word_of_nat ?k = word_of_nat k"
        using True by (simp flip: of_nat_add)
      ultimately show ?thesis
        using True False nz le cmp i by (simp add: enc_pair pktLen_upt wk diff_diff_eq del: of_nat_diff)
    next
      case short: False
      have bh: "h < q" if "(q, x) \<in> set bs" "h = p + k" for h q x
        using blocks_lower [OF b(3) that(1)] short that(2) by linarith
      have len: "unat (pktLen (map f [p ..< e]) - word_of_nat k) = e - p - k"
      proof -
        have "(word_of_nat (e - p) :: u32) - word_of_nat k = word_of_nat (e - p - k)"
          using short by (simp add: of_nat_diff)
        then show ?thesis unfolding pktLen_upt using \<open>e - p < 2 ^ 31\<close> by (simp only:) (intro unat_small, simp)
      qed
      have first: "Packet_CreateFragment 0 k (map f [p ..< e]) = Some (map f [d ..< d + k])"
        and rest: "Packet_CreateFragment k (e - p - k) (map f [p ..< e]) = Some (map f [p + k ..< e])"
        using short p by (simp_all add: Packet_CreateFragment_def take_map drop_map)
      have "p + k \<notin> fst ` set bs" using bh by fastforce
      moreover have "blocks lo bs" by (rule blocks_mono [OF b(3)]) (use Cons.prems(1) p b(2) in simp)
      ultimately have "rx_put (sq isn (p + k)) (map f [p + k ..< e]) (map (enc isn f) bs) =
        map (enc isn f) (ins (p + k, e) bs)"
        using put_enc [OF w(1) _ _ _ b(5)] Cons.prems(1) p short b(4) by simp
      moreover have "ins (p + k, e) bs = (p + k, e) # bs"
      proof (cases bs)
        case (Cons j bs')
        with bh [of "fst j" "snd j"] show ?thesis by (cases j) simp
      qed simp
      ultimately show ?thesis
        using short False nz le cmp i first rest len
        by (simp add: enc_pair uk sq_add del: of_nat_diff)
    qed
  qed
qed

end
