(* ===== verification/Tcp_Rx_Properties.thy ===== *)
theory Tcp_Rx_Properties
  imports Tcp_Rx_Run
begin

text \<open>
  Reads, the functions of the socket that look at the buffer (src/internet/model/tcp-socket-base.cc),
  and what a run of arriving segments and reads guarantees.
\<close>

section \<open>The window the socket checks and advertises\<close>

datatype TcpStates = CLOSED | LISTEN | SYN_SENT | SYN_RCVD | ESTABLISHED | CLOSE_WAIT | LAST_ACK
  | FIN_WAIT_1 | FIN_WAIT_2 | CLOSING | TIME_WAIT

definition OutOfRange :: "TcpStates \<Rightarrow> u32 \<Rightarrow> u32 \<Rightarrow> TcpRxBuffer \<Rightarrow> bool" where
  "OutOfRange state head tail b =
     (if state \<in> {LISTEN, SYN_SENT, SYN_RCVD} then False
      else if state \<in> {LAST_ACK, CLOSING, CLOSE_WAIT} then rx_nextRxSeq b \<noteq> head
      else SeqNum_less tail (rx_nextRxSeq b) \<or> SeqNum_le (Rx_MaxRxSequence b) head)"

text \<open>
  The window that is advertised and the new value of \<open>m_advWnd\<close>; shifting by the width of the
  number or more is undefined.
\<close>

definition AdvertisedWindowSize ::
    "bool \<Rightarrow> u32 \<Rightarrow> u8 \<Rightarrow> u16 \<Rightarrow> TcpRxBuffer \<Rightarrow> (u16 \<times> u32) option" where
  "AdvertisedWindowSize scale advWnd rcvWindShift maxWinSize b =
     do {
       w \<leftarrow> (if rx_gotFin b then Some advWnd
             else do {
               d \<leftarrow> SeqNum_diff (Rx_MaxRxSequence b) (rx_nextRxSeq b);
               ensure (0 \<le> d);
               Some (word_of_int d)
             });
       ensure (scale \<longrightarrow> rcvWindShift < 32);
       let w' = (if scale then drop_bit (unat rcvWindShift) w else w);
       let w' = (if ucast maxWinSize < w' then ucast maxWinSize else w');
       Some (ucast w', w)
     }"

section \<open>A read keeps the relation\<close>

lemma ends_by_ext: "ends_by hi bs \<Longrightarrow> ends_by hi (ext k bs)"
  by (induction k bs rule: ext.induct) auto

lemma is_next_ext: "is_next S D N \<Longrightarrow> D + k \<le> N \<Longrightarrow> is_next (S - {..< D + k}) (D + k) N"
  by (fastforce simp: is_next_def)

lemma sacks_ok_ext: "sacks_ok S N hi l \<Longrightarrow> D \<le> N \<Longrightarrow> hi \<le> hi' \<Longrightarrow> sacks_ok (S - {..< D}) N hi' l"
  by (fastforce simp: sacks_ok_def)

lemma bytes_ext:
  assumes "blocks d bs" "{d ..< d + k} \<subseteq> covered bs"
  shows "bytes_in bs = bytes_in (ext k bs) + k"
proof -
  have e: "blocks (d + k) (ext k bs)" "covered (ext k bs) = covered bs - {..< d + k}"
    using ext_spec [OF assms] by simp_all
  have "covered bs = covered (ext k bs) \<union> {d ..< d + k}"
    using assms(2) covered_lower [OF assms(1)] e(2) by fastforce
  moreover have "covered (ext k bs) \<inter> {d ..< d + k} = {}" using e(2) by auto
  ultimately have "card (covered bs) = card (covered (ext k bs)) + k" by (simp add: card_Un_disjoint)
  then show ?thesis using bytes_card [OF assms(1)] bytes_card [OF e(1)] by simp
qed

lemma read_rel:
  assumes rel: "rx_rel isn f mx D N bs l b"
  shows "\<exists>k b'. k = min (unat maxSize) (N - D) \<and>
    Rx_Extract maxSize b = Some (if k = 0 then None else Some (map f [D ..< D + k]), b') \<and>
    rx_rel isn f mx (D + k) N (ext k bs) l b'"
proof -
  let ?k = "min (unat maxSize) (N - D)"
  have r: "blocks D bs" "ends_by (D + span) bs" "is_next (covered bs) D N"
    "sacks_ok (covered bs) N (D + span) l" "rx_nextRxSeq b = sq isn N"
    "rx_size b = word_of_nat (bytes_in bs)" "rx_availBytes b = word_of_nat (N - D)"
    "rx_data b = map (enc isn f) bs"
    using rel unfolding rx_rel_def by blast+
  have N: "D \<le> N" "N \<le> D + span" using r(3) next_below [OF r(3,2)] by (simp_all add: is_next_def)
  then have a: "unat (rx_availBytes b) = N - D" unfolding r(7) by (intro unat_small) simp
  have kk: "D + ?k \<le> N" "?k < 2 ^ 31" using N by auto
  have uk: "unat (word_of_nat ?k :: u32) = ?k" using kk(2) by (intro unat_small) simp
  have "unat (min maxSize (rx_availBytes b)) = ?k" using a by (auto simp: min_def word_le_nat_alt)
  then have k: "min maxSize (rx_availBytes b) = word_of_nat ?k" using uk by (simp only: word_unat_eq_iff)
  have c: "{D ..< D + ?k} \<subseteq> covered bs" using r(3) kk(1) by (fastforce simp: is_next_def)
  note e = ext_spec [OF r(1) c] bytes_ext [OF r(1) c]
  show ?thesis
  proof (cases "?k = 0")
    case True
    then have "Rx_Extract maxSize b = Some (None, b)" using k by (simp add: Rx_Extract_def Let_def)
    moreover have "ext 0 bs = bs" by (cases bs) auto
    ultimately show ?thesis using True [symmetric] rel by (intro exI [of _ 0] exI [of _ b]) simp
  next
    case False
    have w: "D + span < D + 2 ^ 31" "D \<le> N" "N \<le> D + span" using N by simp_all
    let ?b = "b\<lparr>rx_data := map (enc isn f) (ext ?k bs), rx_size := rx_size b - word_of_nat ?k,
      rx_availBytes := rx_availBytes b - word_of_nat ?k\<rparr>"
    have "map (enc isn f) bs \<noteq> []" using c False by auto
    moreover have "(word_of_nat ?k :: u32) \<noteq> 0" using uk False by (metis unat_0)
    moreover have "map f [D ..< D + ?k] \<noteq> []" using False by simp
    ultimately have "Rx_Extract maxSize b = Some (Some (map f [D ..< D + ?k]), ?b)"
      unfolding Rx_Extract_def k r(5,8) Let_def
        extract_enc [OF w le_refl r(1,2) c kk(1), of isn f "rx_size b" "rx_availBytes b"]
      by (simp only: ensure_simps if_False Option.bind.simps split_conv simp_thms)
    moreover have "rx_rel isn f mx (D + ?k) N (ext ?k bs) l ?b"
      unfolding rx_rel_def
    proof (intro conjI)
      show "ends_by (D + ?k + span) (ext ?k bs)"
        using ends_by_ext [OF r(2)] by (fastforce simp: ends_by_def)
      show "is_next (covered (ext ?k bs)) (D + ?k) N" using e(1) is_next_ext [OF r(3) kk(1)] by simp
      show "sacks_ok (covered (ext ?k bs)) N (D + ?k + span) l"
        using e(1) sacks_ok_ext [OF r(4) kk(1)] by simp
      show "rx_size ?b = word_of_nat (bytes_in (ext ?k bs))" using e(2) r(6) by simp
      have "(word_of_nat (N - D) :: u32) - word_of_nat ?k = word_of_nat (N - D - ?k)"
        by (simp only: of_nat_diff min.cobounded2)
      then show "rx_availBytes ?b = word_of_nat (N - (D + ?k))" using r(7) by simp
    qed (use rel e(1) in \<open>simp_all add: rx_rel_def\<close>)
    ultimately show ?thesis using False by auto
  qed
qed

section \<open>Runs\<close>

text \<open>A new buffer that expects the byte at position 0 and has room for \<open>mx\<close> bytes.\<close>

definition rx_fresh :: "nat \<Rightarrow> nat \<Rightarrow> TcpRxBuffer" where
  "rx_fresh isn mx =
     Rx_SetMaxBufferSize (word_of_nat mx) (Rx_SetNextRxSequence (sq isn 0) (TcpRxBuffer_make 0))"

lemma fresh_rel: "mx \<le> span \<Longrightarrow> rx_rel isn f mx 0 0 [] [] (rx_fresh isn mx)"
  by (simp add: rx_rel_def rx_fresh_def Rx_SetMaxBufferSize_def Rx_SetNextRxSequence_def
      TcpRxBuffer_make_def is_next_def)

text \<open>
  The buffers reachable when segments of the stream \<open>f\<close> arrive in any order, and the application
  reads in between; the list is what it has read.
\<close>

inductive rx_run :: "nat \<Rightarrow> (nat \<Rightarrow> u8) \<Rightarrow> nat \<Rightarrow> u8 list \<Rightarrow> TcpRxBuffer \<Rightarrow> bool"
  for isn f mx where
  start: "mx \<le> 2 ^ 29 \<Longrightarrow> rx_run isn f mx [] (rx_fresh isn mx)"
| segment: "rx_run isn f mx out b \<Longrightarrow> seg_in (length out) q m \<Longrightarrow>
    Rx_Add (sq isn q) (map f [q ..< q + m]) b = Some (ok, b') \<Longrightarrow> rx_run isn f mx out b'"
| read_some: "rx_run isn f mx out b \<Longrightarrow> Rx_Extract n b = Some (Some ys, b') \<Longrightarrow> rx_run isn f mx (out @ ys) b'"
| read_none: "rx_run isn f mx out b \<Longrightarrow> Rx_Extract n b = Some (None, b') \<Longrightarrow> rx_run isn f mx out b'"

lemma run_rel:
  "rx_run isn f mx out b \<Longrightarrow>
    out = map f [0 ..< length out] \<and> (\<exists>N bs l. rx_rel isn f mx (length out) N bs l b)"
proof (induction rule: rx_run.induct)
  case start
  then show ?case using fresh_rel [of mx isn f] by auto
next
  case (segment out b q m ok b')
  then obtain N bs l where "rx_rel isn f mx (length out) N bs l b" by blast
  from add_rel [OF this segment.hyps(2)] segment.hyps(3) segment.IH show ?case by auto
next
  case (read_some out b n ys b')
  then obtain N bs l where "rx_rel isn f mx (length out) N bs l b" by blast
  from read_rel [OF this, of n] read_some.hyps(2) obtain k where
    k: "ys = map f [length out ..< length out + k]" "rx_rel isn f mx (length out + k) N (ext k bs) l b'"
    by (auto split: if_splits)
  have "[0 ..< length out + k] = [0 ..< length out] @ [length out ..< length out + k]"
    by (rule upt_add_eq_append) simp
  with k read_some.IH show ?case by (metis length_map length_upt add_diff_cancel_left' length_append map_append)
next
  case (read_none out b n b')
  then obtain N bs l where "rx_rel isn f mx (length out) N bs l b" by blast
  from read_rel [OF this, of n] read_none.hyps(2) have "rx_rel isn f mx (length out) N (ext 0 bs) l b'"
    by (auto split: if_splits)
  with read_none.IH show ?case by blast
qed

text \<open>The positions stored in the buffer, as a set of stream positions.\<close>

definition rx_holds :: "nat \<Rightarrow> (nat \<Rightarrow> u8) \<Rightarrow> nat set \<Rightarrow> TcpRxBuffer \<Rightarrow> bool" where
  "rx_holds isn f S b \<longleftrightarrow>
     (\<exists>bs. rx_data b = map (\<lambda>(p, e). (sq isn p, map f [p ..< e])) bs \<and>
        sorted (map fst bs) \<and> S = (\<Union>(p, e) \<in> set bs. {p ..< e}) \<and> unat (rx_size b) = card S)"

lemma enc_lambda: "enc isn f = (\<lambda>(p, e). (sq isn p, map f [p ..< e]))"
  by (auto simp: enc_def)

lemma covered_Union: "covered bs = (\<Union>(p, e) \<in> set bs. {p ..< e})"
  by (induction bs rule: covered.induct) auto

lemma blocks_sorted: "blocks lo bs \<Longrightarrow> sorted (map fst bs)"
proof (induction lo bs rule: blocks.induct)
  case (2 lo p e bs)
  then show ?case using blocks_lower [of e bs] by fastforce
qed simp

lemma rel_small: "rx_rel isn f mx D N bs l b \<Longrightarrow> card (covered bs) \<le> span \<and> D \<le> N \<and> N \<le> D + span"
proof -
  assume r: "rx_rel isn f mx D N bs l b"
  then have c: "blocks D bs" "ends_by (D + span) bs" "is_next (covered bs) D N" by (simp_all add: rx_rel_def)
  then have "covered bs \<subseteq> {D ..< D + span}" using covered_lower covered_below by fastforce
  then have "card (covered bs) \<le> card {D ..< D + span}" by (intro card_mono) simp_all
  with c next_below [OF c(3,2)] show ?thesis by (simp add: is_next_def)
qed

lemma rel_holds:
  assumes r: "rx_rel isn f mx D N bs l b"
  shows "rx_holds isn f (covered bs) b"
proof -
  have c: "blocks D bs" "rx_size b = word_of_nat (bytes_in bs)" "rx_data b = map (enc isn f) bs"
    using r by (simp_all add: rx_rel_def)
  have "card (covered bs) < 2 ^ 32" using rel_small [OF r] by simp
  then have "unat (rx_size b) = card (covered bs)" unfolding c(2) bytes_card [OF c(1)] by (rule unat_small)
  with c blocks_sorted [OF c(1)] show ?thesis unfolding rx_holds_def enc_lambda covered_Union by blast
qed

lemma rel_avail: "rx_rel isn f mx D N bs l b \<Longrightarrow> unat (Rx_Available b) = N - D"
proof -
  assume r: "rx_rel isn f mx D N bs l b"
  then have "N - D < 2 ^ 32" using rel_small [OF r] by auto
  then show ?thesis using r unat_small by (simp only: Rx_Available_def rx_rel_def)
qed

section \<open>Properties\<close>

lemma covered_empty: "blocks lo bs \<Longrightarrow> covered bs = {} \<longleftrightarrow> bs = []"
  by (cases "(lo, bs)" rule: blocks.cases) auto

lemma covered_Min: "blocks lo bs \<Longrightarrow> bs \<noteq> [] \<Longrightarrow> Min (covered bs) = fst (hd bs)"
proof (cases "(lo, bs)" rule: blocks.cases)
  case (2 l p e bs')
  assume "blocks lo bs"
  with 2 have "\<forall>x \<in> covered bs. p \<le> x" "p \<in> covered bs" using covered_lower [of e bs'] by fastforce+
  then show ?thesis using 2 by (intro Min_eqI) auto
qed simp

lemma accept_set:
  assumes "blocks D bs"
  shows "accept mx N bs q m =
    covered bs \<union> {x \<in> {q ..< q + m}. N \<le> x \<and> (covered bs \<noteq> {} \<longrightarrow> x < Min (covered bs) + mx)}"
  using covered_empty [OF assms] covered_Min [OF assms] by (auto simp: accept_def)

text \<open>Property C25: whatever has arrived and been read before, \<open>Add\<close> of a segment stores exactly its
  bytes from the next expected one up to the window, which is counted from the first byte
  stored; no stored byte is lost or changed, the occupancy counts the bytes, and the result says
  whether any byte was new.\<close>

theorem rx_add_refines:
  assumes "rx_run isn f mx out b" and "seg_in (length out) q m"
  shows "\<exists>S S' ok b'. rx_holds isn f S b \<and> Rx_Add (sq isn q) (map f [q ..< q + m]) b = Some (ok, b') \<and>
    rx_holds isn f S' b' \<and>
    S' = S \<union> {x \<in> {q ..< q + m}. length out + unat (Rx_Available b) \<le> x \<and> (S \<noteq> {} \<longrightarrow> x < Min S + mx)} \<and>
    (ok \<longleftrightarrow> S' \<noteq> S)"
proof -
  obtain N bs l where r: "rx_rel isn f mx (length out) N bs l b" using run_rel [OF assms(1)] by blast
  have N: "N = length out + unat (Rx_Available b)" using rel_avail [OF r] rel_small [OF r] by simp
  have b: "blocks (length out) bs" using r by (simp add: rx_rel_def)
  from add_rel [OF r assms(2)] obtain ok b' N' bs' l' where
    a: "Rx_Add (sq isn q) (map f [q ..< q + m]) b = Some (ok, b')" "rx_rel isn f mx (length out) N' bs' l' b'"
    "covered bs' = accept mx N bs q m" "ok \<longleftrightarrow> covered bs' \<noteq> covered bs" by blast
  show ?thesis
    using a(1,4) rel_holds [OF r] rel_holds [OF a(2)] a(3) [unfolded accept_set [OF b] N] by blast
qed

text \<open>Property C9: in whatever order segments arrive, overlap and repeat, and whenever the
  application reads, it has read a prefix of the stream; no later segment or read fails, and a
  read returns the next bytes of the stream, as many as are available.\<close>

theorem rx_run_stream:
  assumes "rx_run isn f mx out b"
  shows "out = map f [0 ..< length out] \<and>
    (\<forall>q m. seg_in (length out) q m \<longrightarrow> Rx_Add (sq isn q) (map f [q ..< q + m]) b \<noteq> None) \<and>
    (\<forall>n. \<exists>b'. Rx_Extract n b = Some (if n = 0 \<or> Rx_Available b = 0 then None
       else Some (map f [length out ..< length out + min (unat n) (unat (Rx_Available b))]), b'))"
proof -
  obtain N bs l where r: "rx_rel isn f mx (length out) N bs l b" using run_rel [OF assms] by blast
  have "Rx_Add (sq isn q) (map f [q ..< q + m]) b \<noteq> None" if "seg_in (length out) q m" for q m
    using add_rel [OF r that] by fastforce
  moreover have "\<exists>b'. Rx_Extract n b = Some (if n = 0 \<or> Rx_Available b = 0 then None
       else Some (map f [length out ..< length out + min (unat n) (unat (Rx_Available b))]), b')" for n
  proof -
    have "min (unat n) (N - length out) = 0 \<longleftrightarrow> n = 0 \<or> Rx_Available b = 0"
      using rel_avail [OF r] by (auto simp: min_def unat_eq_0 simp flip: unat_eq_0)
    with read_rel [OF r, of n] rel_avail [OF r] show ?thesis by auto
  qed
  ultimately show ?thesis using run_rel [OF assms] by blast
qed

text \<open>What is acknowledged has arrived. The next expected sequence number is that of the
  first missing byte, the bytes available are those before it, and every block of the list of
  selective acknowledgements (at most four) holds bytes that are stored, beyond that first
  missing one.\<close>

theorem rx_run_acks:
  assumes "rx_run isn f mx out b"
  shows "\<exists>S N. rx_holds isn f S b \<and> {length out ..< N} \<subseteq> S \<and> N \<notin> S \<and> (\<forall>x \<in> S. length out \<le> x) \<and>
    rx_nextRxSeq b = sq isn N \<and> unat (Rx_Available b) = N - length out \<and> length (rx_sackList b) \<le> 4 \<and>
    (\<forall>(h, t) \<in> set (rx_sackList b). \<exists>p e. h = sq isn p \<and> t = sq isn e \<and> N < p \<and> p < e \<and> {p ..< e} \<subseteq> S)"
proof -
  obtain N bs l where r: "rx_rel isn f mx (length out) N bs l b" using run_rel [OF assms] by blast
  then have c: "is_next (covered bs) (length out) N" "blocks (length out) bs" "rx_nextRxSeq b = sq isn N"
    "length l \<le> 4" "sacks_ok (covered bs) N (length out + span) l" "rx_sackList b = map (encs isn) l"
    by (simp_all add: rx_rel_def)
  have "\<exists>p e. h = sq isn p \<and> t = sq isn e \<and> N < p \<and> p < e \<and> {p ..< e} \<subseteq> covered bs"
    if "(h, t) \<in> set (rx_sackList b)" for h t
  proof -
    from that obtain p e where "(p, e) \<in> set l" "h = sq isn p" "t = sq isn e"
      unfolding c(6) by (auto simp: encs_def)
    with c(5) show ?thesis by (intro exI [of _ p] exI [of _ e]) (auto simp: sacks_ok_def)
  qed
  then have "\<forall>(h, t) \<in> set (rx_sackList b). \<exists>p e. h = sq isn p \<and> t = sq isn e \<and> N < p \<and> p < e \<and>
    {p ..< e} \<subseteq> covered bs" by blast
  moreover have "\<forall>x \<in> covered bs. length out \<le> x" using covered_lower [OF c(2)] by blast
  moreover have "length (rx_sackList b) \<le> 4" using c(4,6) by simp
  ultimately show ?thesis
    using rel_holds [OF r] rel_avail [OF r] c(1,3)
    by (intro exI [of _ "covered bs"] exI [of _ N] conjI) (simp_all add: is_next_def)
qed

text \<open>A list of segments handed to the buffer.\<close>

fun rx_feed :: "nat \<Rightarrow> (nat \<Rightarrow> u8) \<Rightarrow> (nat \<times> nat) list \<Rightarrow> TcpRxBuffer \<Rightarrow> TcpRxBuffer option" where
  "rx_feed isn f [] b = Some b"
| "rx_feed isn f ((q, m) # segs) b =
     do { (ok, b) \<leftarrow> Rx_Add (sq isn q) (map f [q ..< q + m]) b; rx_feed isn f segs b }"

lemma feed_rel:
  "rx_rel isn f mx 0 N bs l b \<Longrightarrow> \<forall>(q, m) \<in> set segs. q + m \<le> mx \<Longrightarrow>
    \<exists>b' N' bs' l'. rx_feed isn f segs b = Some b' \<and> rx_rel isn f mx 0 N' bs' l' b' \<and>
      covered bs' = covered bs \<union> (\<Union>(q, m) \<in> set segs. {q ..< q + m})"
proof (induction segs arbitrary: N bs l b)
  case (Cons i segs)
  obtain q m where i: "i = (q, m)" by (cases i)
  have m: "q + m \<le> mx" using Cons.prems(2) i by simp
  have r: "mx \<le> span" "is_next (covered bs) 0 N" using Cons.prems(1) by (simp_all add: rx_rel_def)
  then have "seg_in 0 q m" using m by (simp add: seg_in_def)
  from add_rel [OF Cons.prems(1) this] obtain ok b1 N1 bs1 l1 where
    a: "Rx_Add (sq isn q) (map f [q ..< q + m]) b = Some (ok, b1)" "rx_rel isn f mx 0 N1 bs1 l1 b1"
    "covered bs1 = accept mx N bs q m" by blast
  have "x \<in> covered bs1 \<longleftrightarrow> x \<in> covered bs \<union> {q ..< q + m}" for x
    unfolding a(3) accept_def using m r(2) by (cases "x < N") (auto simp: is_next_def)
  then have "covered bs1 = covered bs \<union> {q ..< q + m}" by blast
  moreover from Cons.IH [OF a(2)] Cons.prems(2) obtain b' N' bs' l' where
    "rx_feed isn f segs b1 = Some b'" "rx_rel isn f mx 0 N' bs' l' b'"
    "covered bs' = covered bs1 \<union> (\<Union>(q, m) \<in> set segs. {q ..< q + m})" by auto
  ultimately show ?case using a(1) i by (intro exI [of _ b'] exI [of _ N'] exI [of _ bs'] exI [of _ l']) auto
qed auto

text \<open>Property C26: when the segments that arrive, in any order, overlapping or repeated, hold the first
  \<open>n\<close> bytes of the stream and fit the window, a read then returns these bytes (and what follows them
  without a gap), wherever the sequence numbers wrap around.\<close>

theorem rx_delivers:
  assumes "mx \<le> 2 ^ 29" and "\<forall>(q, m) \<in> set segs. q + m \<le> mx" and "0 < n"
    and "{0 ..< n} \<subseteq> (\<Union>(q, m) \<in> set segs. {q ..< q + m})"
  shows "\<exists>b k b'. rx_feed isn f segs (rx_fresh isn mx) = Some b \<and>
    Rx_Extract (- 1) b = Some (Some (map f [0 ..< n + k]), b')"
proof -
  from feed_rel [OF fresh_rel [OF assms(1)] assms(2), of isn f] obtain b N bs l where
    b: "rx_feed isn f segs (rx_fresh isn mx) = Some b" "rx_rel isn f mx 0 N bs l b"
    "covered bs = (\<Union>(q, m) \<in> set segs. {q ..< q + m})" by auto
  then have nx: "is_next (covered bs) 0 N" by (simp add: rx_rel_def)
  have "n \<le> N"
  proof (rule ccontr)
    assume "\<not> n \<le> N"
    then have "N \<in> {0 ..< n}" by simp
    then have "N \<in> covered bs" using assms(4) unfolding b(3) by blast
    with nx show False by (simp add: is_next_def)
  qed
  moreover have "min (unat (- 1 :: u32)) (N - 0) = N" using rel_small [OF b(2)] by (simp add: unsigned_minus_1_eq_mask mask_eq_exp_minus_1 min_def)
  ultimately have "\<exists>b'. Rx_Extract (- 1) b = Some (Some (map f [0 ..< N]), b')"
    using read_rel [OF b(2), of "- 1"] assms(3) by auto
  then show ?thesis using b(1) \<open>n \<le> N\<close> by (metis le_add_diff_inverse)
qed

section \<open>Where the window is not kept\<close>

text \<open>Property C33: the receive window is enforced only while bytes are stored. An empty buffer takes a
  segment that is larger than its maximum size as a whole, although the socket does not find it out
  of range, and the window to advertise afterwards is a failed assertion.\<close>

theorem window_not_kept_when_empty:
  assumes "0 < mx" and "mx < m" and "m \<le> 2 ^ 29"
  shows "\<not> OutOfRange ESTABLISHED (sq isn 0) (sq isn m) (rx_fresh isn mx) \<and>
    (\<exists>b. Rx_Add (sq isn 0) (map f [0 ..< m]) (rx_fresh isn mx) = Some (True, b) \<and>
      unat (Rx_Size b) = m \<and> unat (rx_maxBuffer b) = mx \<and>
      AdvertisedWindowSize scale advWnd shift maxWin b = None)"
proof -
  note fresh = rx_fresh_def Rx_SetMaxBufferSize_def Rx_SetNextRxSequence_def TcpRxBuffer_make_def
  note less = sq_less_window [of "2 ^ 29" 0]
  have mx: "mx \<le> span" "seg_in 0 0 m" using assms by (simp_all add: seg_in_def)
  have "Rx_MaxRxSequence (rx_fresh isn mx) = sq isn mx"
    using sq_add [of isn 0 mx] by (simp add: fresh Rx_MaxRxSequence_def)
  then have out: "\<not> OutOfRange ESTABLISHED (sq isn 0) (sq isn m) (rx_fresh isn mx)"
    using less(1) [of m 0 isn] less(3) [of mx 0 isn] assms by (simp add: OutOfRange_def fresh)
  from add_rel [OF fresh_rel [OF mx(1)] mx(2), of isn f] obtain ok b N bs l where
    a: "Rx_Add (sq isn 0) (map f [0 ..< m]) (rx_fresh isn mx) = Some (ok, b)" "rx_rel isn f mx 0 N bs l b"
    "covered bs = accept mx 0 [] 0 m" "ok \<longleftrightarrow> covered bs \<noteq> {}" by auto
  have S: "covered bs = {0 ..< m}" using a(3) by (auto simp: accept_def)
  have r: "blocks 0 bs" "is_next {0 ..< m} 0 N" "rx_data b = map (enc isn f) bs" "rx_nextRxSeq b = sq isn N"
    "rx_maxBuffer b = word_of_nat mx" "\<not> rx_gotFin b" "rx_size b = word_of_nat (bytes_in bs)"
    using a(2) S by (simp_all add: rx_rel_def)
  have N: "N = m"
    by (rule is_next_unique [OF r(2)]) (simp add: is_next_def)
  have ne: "bs \<noteq> []" using S assms by auto
  then have hd: "fst (hd (rx_data b)) = sq isn 0"
    using covered_Min [OF r(1)] S r(3) assms Min_eqI [of "{0 ..< m}" 0]
    by (cases bs) (simp_all add: enc_def)
  have max: "Rx_MaxRxSequence b = sq isn mx"
    using ne r hd N assms less(2) [of m 0 isn] sq_add [of isn 0 mx] by (simp add: Rx_MaxRxSequence_def)
  have "SeqNum_diff (sq isn mx) (sq isn m) = Some (- int (m - mx))"
    using assms by (intro sq_seqdiff_neg) simp_all
  then have adv: "AdvertisedWindowSize scale advWnd shift maxWin b = None"
    using r(4,6) N max assms by (simp add: AdvertisedWindowSize_def)
  have "unat (Rx_Size b) = m"
    using bytes_card [OF r(1)] r(7) S assms unat_small [of m] by (simp add: Rx_Size_def)
  moreover have "unat (rx_maxBuffer b) = mx" unfolding r(5) using mx(1) by (intro unat_small) simp
  moreover have ok using a(4) S assms by auto
  ultimately show ?thesis using out a(1) adv by (intro conjI exI [of _ b]) simp_all
qed

text \<open>The blocks of the list of selective acknowledgements can overlap. A segment that
  arrives around one that is stored replaces it, and its block is listed beside the old one.\<close>

theorem sack_blocks_overlap:
  "map_option (\<lambda>b. (rx_sackList b, map fst (rx_data b)))
      (rx_feed 0 (\<lambda>_. 0) [(10, 10), (5, 25)] (rx_fresh 0 100)) =
    Some ([(5, 30), (10, 20)], [5])"
  by code_simp

section \<open>Witnesses\<close>

lemma feed_run:
  "rx_run isn f mx out b \<Longrightarrow> rx_feed isn f segs b = Some b' \<Longrightarrow> \<forall>(q, m) \<in> set segs. seg_in (length out) q m \<Longrightarrow>
    rx_run isn f mx out b'"
proof (induction segs arbitrary: b)
  case (Cons i segs)
  obtain q m where i: "i = (q, m)" by (cases i)
  with Cons.prems(2) obtain ok b1 where
    b1: "Rx_Add (sq isn q) (map f [q ..< q + m]) b = Some (ok, b1)" "rx_feed isn f segs b1 = Some b'"
    by (auto simp: bind_eq_Some_conv)
  have "rx_run isn f mx out b1" using rx_run.segment [OF Cons.prems(1) _ b1(1)] Cons.prems(3) i by simp
  with Cons.IH b1(2) Cons.prems(3) show ?case by simp
qed simp

text \<open>A buffer with a gap: the bytes 0, 1 and 3, 4.\<close>

definition rx_demo :: TcpRxBuffer where
  "rx_demo = the (rx_feed 7 word_of_nat [(3, 2), (0, 2)] (rx_fresh 7 100))"

lemma rx_demo_run: "rx_run 7 word_of_nat 100 [] rx_demo"
proof -
  have "rx_feed 7 word_of_nat [(3, 2), (0, 2)] (rx_fresh 7 100) \<noteq> None"
    by code_simp
  then have "rx_feed 7 word_of_nat [(3, 2), (0, 2)] (rx_fresh 7 100) = Some rx_demo"
    by (auto simp: rx_demo_def)
  from feed_run [OF rx_run.start this] show ?thesis by (simp add: seg_in_def)
qed

lemma rx_demo_available: "unat (Rx_Available rx_demo) = 2" "Rx_Available rx_demo \<noteq> 0"
  by code_simp+

theorem rx_add_refines_witness:
  "\<exists>S S' ok b'. rx_holds 7 word_of_nat S rx_demo \<and>
    Rx_Add (sq 7 1) (map word_of_nat [1 ..< 1 + 3]) rx_demo = Some (ok, b') \<and>
    rx_holds 7 word_of_nat S' b' \<and> S \<subseteq> S' \<and> ok = (S' \<noteq> S)"
  using rx_add_refines [OF rx_demo_run, of 1 3] by (fastforce simp: seg_in_def)

theorem rx_run_stream_witness:
  "\<exists>b'. Rx_Extract 9 rx_demo = Some (Some (map word_of_nat [0 ..< 2]), b')"
proof -
  have "\<exists>b'. Rx_Extract 9 rx_demo = Some (if 9 = (0 :: u32) \<or> Rx_Available rx_demo = 0 then None
       else Some (map word_of_nat [length ([] :: u8 list) ..< length ([] :: u8 list) + min (unat (9 :: u32)) (unat (Rx_Available rx_demo))]), b')"
    using rx_run_stream [OF rx_demo_run] by blast
  moreover have "unat (9 :: u32) = 9" by code_simp
  ultimately show ?thesis using rx_demo_available by (simp add: upt_rec)
qed

theorem rx_run_acks_witness:
  "\<exists>S N. rx_holds 7 word_of_nat S rx_demo \<and> rx_nextRxSeq rx_demo = sq 7 N \<and>
    N - 0 = 2 \<and> N \<notin> S"
  using rx_run_acks [OF rx_demo_run] rx_demo_available by auto

theorem rx_delivers_witness:
  "\<exists>b k b'. rx_feed 5 word_of_nat [(3, 4), (0, 2), (1, 3), (3, 4)] (rx_fresh 5 100) = Some b \<and>
    Rx_Extract (- 1) b = Some (Some (map word_of_nat [0 ..< 7 + k]), b')"
  by (rule rx_delivers) auto

theorem window_not_kept_when_empty_witness:
  "\<exists>b. Rx_Add (sq 0 0) (map word_of_nat [0 ..< 3]) (rx_fresh 0 2) = Some (True, b) \<and>
    AdvertisedWindowSize True 0 2 65535 b = None"
  using window_not_kept_when_empty [of 2 3 0 word_of_nat True 0 2 65535] by auto

end
