(* ===== verification/Ipv4_Static_Routing.thy ===== *)
theory Ipv4_Static_Routing
  imports Net_Base
begin

text \<open>
  Static routing of the IPv4 stack (src/internet/model/ipv4-static-routing.cc) with its entries
  (ipv4-routing-table-entry.cc) and the masks of ipv4-address.cc. The table is the list of the
  routes and their metrics in the order they were added. The interfaces of the node belong to
  \<^verbatim>\<open>Ipv4L3Protocol\<close>, so every operation that looks at them takes them as the argument \<open>v\<close>.
  \<open>None\<close> is a failed assertion, an abort or a null dereference.
\<close>

section \<open>Masks\<close>

definition Ipv4Mask_GetZero :: u32 where
  "Ipv4Mask_GetZero = 0"

definition Ipv4Address_GetZero :: ip where
  "Ipv4Address_GetZero = 0"

definition Ipv4Mask_IsMatch :: "u32 \<Rightarrow> ip \<Rightarrow> ip \<Rightarrow> bool" where
  "Ipv4Mask_IsMatch m a b \<longleftrightarrow> a AND m = b AND m"

text \<open>The loop of \<open>GetPrefixLength\<close>; a mask of 32 bits is empty after 32 shifts.\<close>

fun prefix_loop :: "nat \<Rightarrow> u32 \<Rightarrow> u16 \<Rightarrow> u16" where
  "prefix_loop 0 m tmp = tmp"
| "prefix_loop (Suc n) m tmp = (if m = 0 then tmp else prefix_loop n (push_bit 1 m) (tmp + 1))"

definition Ipv4Mask_GetPrefixLength :: "u32 \<Rightarrow> u16" where
  "Ipv4Mask_GetPrefixLength m = prefix_loop 32 m 0"

section \<open>Routes\<close>

record Ipv4RoutingTableEntry =
  re_dest :: ip
  re_mask :: u32
  re_gateway :: ip
  re_interface :: u32

definition CreateNetworkRouteTo :: "ip \<Rightarrow> u32 \<Rightarrow> ip \<Rightarrow> u32 \<Rightarrow> Ipv4RoutingTableEntry" where
  "CreateNetworkRouteTo network networkMask nextHop interface =
     \<lparr>re_dest = network, re_mask = networkMask, re_gateway = nextHop, re_interface = interface\<rparr>"

definition CreateNetworkRouteTo_direct :: "ip \<Rightarrow> u32 \<Rightarrow> u32 \<Rightarrow> Ipv4RoutingTableEntry" where
  "CreateNetworkRouteTo_direct network networkMask interface =
     \<lparr>re_dest = network, re_mask = networkMask, re_gateway = Ipv4Address_GetZero, re_interface = interface\<rparr>"

definition Re_IsHost :: "Ipv4RoutingTableEntry \<Rightarrow> bool" where
  "Re_IsHost r \<longleftrightarrow> re_mask r = Ipv4Mask_GetOnes"

definition Re_IsNetwork :: "Ipv4RoutingTableEntry \<Rightarrow> bool" where
  "Re_IsNetwork r \<longleftrightarrow> \<not> Re_IsHost r"

record Ipv4MulticastRoutingTableEntry =
  me_origin :: ip
  me_group :: ip
  me_inputInterface :: u32
  me_outputInterfaces :: "u32 list"

record Ipv4MulticastRoute =
  mr_group :: ip
  mr_origin :: ip
  mr_parent :: u32
  mr_ttls :: "(u32 \<times> u32) list"

definition MulticastRoute_MAX_TTL :: u32 where
  "MulticastRoute_MAX_TTL = 255"

definition MulticastRoute_SetOutputTtl :: "u32 \<Rightarrow> u32 \<Rightarrow> Ipv4MulticastRoute \<Rightarrow> Ipv4MulticastRoute" where
  "MulticastRoute_SetOutputTtl oif ttl r =
     (if ttl \<ge> MulticastRoute_MAX_TTL then r\<lparr>mr_ttls := map_erase oif (mr_ttls r)\<rparr>
      else r\<lparr>mr_ttls := map_put oif ttl (mr_ttls r)\<rparr>)"

record Ipv4StaticRouting =
  sr_networkRoutes :: "(Ipv4RoutingTableEntry \<times> u32) list"
  sr_multicastRoutes :: "Ipv4MulticastRoutingTableEntry list"
  sr_bound :: bool

definition StaticRouting_make :: Ipv4StaticRouting where
  "StaticRouting_make = \<lparr>sr_networkRoutes = [], sr_multicastRoutes = [], sr_bound = False\<rparr>"

section \<open>Adding and removing routes\<close>

definition Static_LookupRoute :: "Ipv4RoutingTableEntry \<Rightarrow> u32 \<Rightarrow> Ipv4StaticRouting \<Rightarrow> bool" where
  "Static_LookupRoute route metric s \<longleftrightarrow>
     list_ex (\<lambda>(r, m). re_dest r = re_dest route \<and> re_mask r = re_mask route \<and>
       re_gateway r = re_gateway route \<and> re_interface r = re_interface route \<and> m = metric)
     (sr_networkRoutes s)"

definition Static_add :: "Ipv4RoutingTableEntry \<Rightarrow> u32 \<Rightarrow> Ipv4StaticRouting \<Rightarrow> Ipv4StaticRouting" where
  "Static_add route metric s =
     (if \<not> Static_LookupRoute route metric s
      then s\<lparr>sr_networkRoutes := sr_networkRoutes s @ [(route, metric)]\<rparr> else s)"

definition Static_AddNetworkRouteTo ::
    "ip \<Rightarrow> u32 \<Rightarrow> ip \<Rightarrow> u32 \<Rightarrow> u32 \<Rightarrow> Ipv4StaticRouting \<Rightarrow> Ipv4StaticRouting" where
  "Static_AddNetworkRouteTo network networkMask nextHop interface metric =
     Static_add (CreateNetworkRouteTo network networkMask nextHop interface) metric"

definition Static_AddNetworkRouteTo_direct ::
    "ip \<Rightarrow> u32 \<Rightarrow> u32 \<Rightarrow> u32 \<Rightarrow> Ipv4StaticRouting \<Rightarrow> Ipv4StaticRouting" where
  "Static_AddNetworkRouteTo_direct network networkMask interface metric =
     Static_add (CreateNetworkRouteTo_direct network networkMask interface) metric"

definition Static_AddHostRouteTo :: "ip \<Rightarrow> ip \<Rightarrow> u32 \<Rightarrow> u32 \<Rightarrow> Ipv4StaticRouting \<Rightarrow> Ipv4StaticRouting" where
  "Static_AddHostRouteTo dest nextHop interface metric =
     Static_AddNetworkRouteTo dest Ipv4Mask_GetOnes nextHop interface metric"

definition Static_AddHostRouteTo_direct :: "ip \<Rightarrow> u32 \<Rightarrow> u32 \<Rightarrow> Ipv4StaticRouting \<Rightarrow> Ipv4StaticRouting" where
  "Static_AddHostRouteTo_direct dest interface metric =
     Static_AddNetworkRouteTo_direct dest Ipv4Mask_GetOnes interface metric"

definition Static_SetDefaultRoute :: "ip \<Rightarrow> u32 \<Rightarrow> u32 \<Rightarrow> Ipv4StaticRouting \<Rightarrow> Ipv4StaticRouting" where
  "Static_SetDefaultRoute nextHop interface metric =
     Static_AddNetworkRouteTo 0 Ipv4Mask_GetZero nextHop interface metric"

definition Static_SetDefaultMulticastRoute :: "u32 \<Rightarrow> Ipv4StaticRouting \<Rightarrow> Ipv4StaticRouting" where
  "Static_SetDefaultMulticastRoute outputInterface s =
     s\<lparr>sr_networkRoutes := sr_networkRoutes s @
         [(CreateNetworkRouteTo_direct 0xe0000000 0xf0000000 outputInterface, 0)]\<rparr>"

definition Static_AddMulticastRoute ::
    "ip \<Rightarrow> ip \<Rightarrow> u32 \<Rightarrow> u32 list \<Rightarrow> Ipv4StaticRouting \<Rightarrow> Ipv4StaticRouting" where
  "Static_AddMulticastRoute origin grp inputInterface outputInterfaces s =
     s\<lparr>sr_multicastRoutes := sr_multicastRoutes s @
         [\<lparr>me_origin = origin, me_group = grp, me_inputInterface = inputInterface,
           me_outputInterfaces = outputInterfaces\<rparr>]\<rparr>"

fun remove_first :: "('a \<Rightarrow> bool) \<Rightarrow> 'a list \<Rightarrow> bool \<times> 'a list" where
  "remove_first P [] = (False, [])"
| "remove_first P (x # xs) = (if P x then (True, xs) else let (b, ys) = remove_first P xs in (b, x # ys))"

definition Static_RemoveMulticastRoute ::
    "ip \<Rightarrow> ip \<Rightarrow> u32 \<Rightarrow> Ipv4StaticRouting \<Rightarrow> bool \<times> Ipv4StaticRouting" where
  "Static_RemoveMulticastRoute origin grp inputInterface s =
     (let (b, l) = remove_first (\<lambda>r. origin = me_origin r \<and> grp = me_group r \<and>
            inputInterface = me_inputInterface r) (sr_multicastRoutes s)
      in (b, s\<lparr>sr_multicastRoutes := l\<rparr>))"

text \<open>Removal by index: the unicast table asserts that the index exists, the multicast one does not.\<close>

definition Static_RemoveMulticastRoute_index :: "u32 \<Rightarrow> Ipv4StaticRouting \<Rightarrow> Ipv4StaticRouting" where
  "Static_RemoveMulticastRoute_index index s =
     s\<lparr>sr_multicastRoutes := take (unat index) (sr_multicastRoutes s) @ drop (Suc (unat index)) (sr_multicastRoutes s)\<rparr>"

definition Static_RemoveRoute :: "u32 \<Rightarrow> Ipv4StaticRouting \<Rightarrow> Ipv4StaticRouting option" where
  "Static_RemoveRoute index s =
     do {
       ensure (unat index < length (sr_networkRoutes s));
       Some (s\<lparr>sr_networkRoutes := take (unat index) (sr_networkRoutes s) @ drop (Suc (unat index)) (sr_networkRoutes s)\<rparr>)
     }"

definition Static_GetRoute :: "u32 \<Rightarrow> Ipv4StaticRouting \<Rightarrow> Ipv4RoutingTableEntry option" where
  "Static_GetRoute index s =
     do {
       ensure (unat index < length (sr_networkRoutes s));
       Some (fst (sr_networkRoutes s ! unat index))
     }"

definition Static_GetMetric :: "u32 \<Rightarrow> Ipv4StaticRouting \<Rightarrow> u32 option" where
  "Static_GetMetric index s =
     do {
       ensure (unat index < length (sr_networkRoutes s));
       Some (snd (sr_networkRoutes s ! unat index))
     }"

text \<open>The loop of \<open>GetDefaultRoute\<close>, and its result, an uninitialised entry when there is none.\<close>

fun default_loop ::
    "(Ipv4RoutingTableEntry \<times> u32) list \<Rightarrow> u32 \<Rightarrow> Ipv4RoutingTableEntry option \<Rightarrow> Ipv4RoutingTableEntry option" where
  "default_loop [] shortest_metric result = result"
| "default_loop ((j, metric) # l) shortest_metric result =
     (if Ipv4Mask_GetPrefixLength (re_mask j) \<noteq> 0 then default_loop l shortest_metric result
      else if metric > shortest_metric then default_loop l shortest_metric result
      else default_loop l metric (Some j))"

definition Static_GetDefaultRoute :: "Ipv4StaticRouting \<Rightarrow> Ipv4RoutingTableEntry option" where
  "Static_GetDefaultRoute s = default_loop (sr_networkRoutes s) 0xffffffff None"

section \<open>Lookup\<close>

text \<open>\<open>Ipv4L3Protocol::SourceAddressSelection\<close>.\<close>

definition SourceAddressSelection :: "Ipv4 \<Rightarrow> u32 \<Rightarrow> ip \<Rightarrow> ip option" where
  "SourceAddressSelection v interfaceIdx dest =
     do {
       f \<leftarrow> Ipv4_GetInterface v (uint interfaceIdx);
       candidate \<leftarrow> Ipv4_GetAddress v (uint interfaceIdx) 0;
       if length (if_addrs f) = 1 then Some (ia_local candidate)
       else Some (case find (\<lambda>test. Ipv4Address_CombineMask (ia_local test) (ia_mask test) =
                      Ipv4Address_CombineMask dest (ia_mask test) \<and> \<not> ia_secondary test) (if_addrs f) of
                    Some test \<Rightarrow> ia_local test
                  | None \<Rightarrow> ia_local candidate)
     }"

text \<open>What \<open>m_ipv4\<close> points to, the interfaces \<open>v\<close> or nothing.\<close>

definition Static_ipv4 :: "Ipv4 \<Rightarrow> Ipv4StaticRouting \<Rightarrow> Ipv4 option" where
  "Static_ipv4 v s = (if sr_bound s then Some v else None)"

text \<open>The route made of a table entry, and whether the entry leaves over another device than \<open>oif\<close>.\<close>

definition Static_route :: "Ipv4 option \<Rightarrow> Ipv4RoutingTableEntry \<Rightarrow> Ipv4Route option" where
  "Static_route m_ipv4 j =
     do {
       v \<leftarrow> m_ipv4;
       src \<leftarrow> SourceAddressSelection v (re_interface j) (re_dest j);
       d \<leftarrow> Ipv4_GetNetDevice v (uint (re_interface j));
       Some \<lparr>rt_dest = re_dest j, rt_source = src, rt_gateway = re_gateway j, rt_dev = Some d\<rparr>
     }"

definition Static_other_device :: "Ipv4 option \<Rightarrow> dev option \<Rightarrow> Ipv4RoutingTableEntry \<Rightarrow> bool option" where
  "Static_other_device m_ipv4 oif j =
     (case oif of
        None \<Rightarrow> Some False
      | Some d \<Rightarrow> do { v \<leftarrow> m_ipv4; d' \<leftarrow> Ipv4_GetNetDevice v (uint (re_interface j)); Some (d \<noteq> d') })"

text \<open>The loop of \<open>LookupStatic\<close> over the table.\<close>

fun static_loop ::
    "Ipv4 option \<Rightarrow> ip \<Rightarrow> dev option \<Rightarrow> (Ipv4RoutingTableEntry \<times> u32) list \<Rightarrow> u16 \<Rightarrow> u32 \<Rightarrow>
      Ipv4Route option \<Rightarrow> Ipv4Route option option" where
  "static_loop m_ipv4 dest oif [] longest_mask shortest_metric rtentry = Some rtentry"
| "static_loop m_ipv4 dest oif ((j, metric) # l) longest_mask shortest_metric rtentry =
     (let masklen = Ipv4Mask_GetPrefixLength (re_mask j) in
      if \<not> Ipv4Mask_IsMatch (re_mask j) dest (re_dest j)
      then static_loop m_ipv4 dest oif l longest_mask shortest_metric rtentry
      else do {
        other \<leftarrow> Static_other_device m_ipv4 oif j;
        if other then static_loop m_ipv4 dest oif l longest_mask shortest_metric rtentry
        else if masklen < longest_mask
        then static_loop m_ipv4 dest oif l longest_mask shortest_metric rtentry
        else let shortest_metric = (if masklen > longest_mask then 0xffffffff else shortest_metric) in
          if metric > shortest_metric
          then static_loop m_ipv4 dest oif l masklen shortest_metric rtentry
          else do {
            r \<leftarrow> Static_route m_ipv4 j;
            if masklen = 32 then Some (Some r)
            else static_loop m_ipv4 dest oif l masklen metric (Some r)
          }
      })"

definition Static_LookupStatic ::
    "Ipv4 \<Rightarrow> ip \<Rightarrow> dev option \<Rightarrow> Ipv4StaticRouting \<Rightarrow> Ipv4Route option option" where
  "Static_LookupStatic v dest oif s =
     (if Ipv4Address_IsLocalMulticast dest then do {
        d \<leftarrow> oif;
        v \<leftarrow> Static_ipv4 v s;
        ia \<leftarrow> Ipv4_GetAddress v (Ipv4_GetInterfaceForDevice v (Some d)) 0;
        Some (Some \<lparr>rt_dest = dest, rt_source = ia_local ia, rt_gateway = Ipv4Address_GetZero,
                    rt_dev = Some d\<rparr>)
      }
      else static_loop (Static_ipv4 v s) dest oif (sr_networkRoutes s) 0 0xffffffff None)"

text \<open>The lookup of a multicast route; interface 0 is never an output.\<close>

definition Ipv4_IF_ANY :: u32 where
  "Ipv4_IF_ANY = 0xffffffff"

definition Static_multicast_route :: "Ipv4MulticastRoutingTableEntry \<Rightarrow> Ipv4MulticastRoute" where
  "Static_multicast_route r =
     fold (\<lambda>i m. if i \<noteq> 0 then MulticastRoute_SetOutputTtl i (MulticastRoute_MAX_TTL - 1) m else m)
       (me_outputInterfaces r)
       \<lparr>mr_group = me_group r, mr_origin = me_origin r, mr_parent = me_inputInterface r, mr_ttls = []\<rparr>"

definition Static_LookupStatic_multicast ::
    "ip \<Rightarrow> ip \<Rightarrow> u32 \<Rightarrow> Ipv4StaticRouting \<Rightarrow> Ipv4MulticastRoute option" where
  "Static_LookupStatic_multicast origin grp interface s =
     map_option Static_multicast_route
       (find (\<lambda>r. grp = me_group r \<and> (interface = Ipv4_IF_ANY \<or> interface = me_inputInterface r))
         (sr_multicastRoutes s))"

section \<open>Routing packets\<close>

datatype route_errno = NOTERROR | NOROUTETOHOST

definition Static_RouteOutput ::
    "Ipv4 \<Rightarrow> Ipv4Header \<Rightarrow> dev option \<Rightarrow> Ipv4StaticRouting \<Rightarrow> (Ipv4Route option \<times> route_errno) option" where
  "Static_RouteOutput v header oif s =
     do {
       rtentry \<leftarrow> Static_LookupStatic v (ih_dst header) oif s;
       Some (rtentry, if rtentry \<noteq> None then NOTERROR else NOROUTETOHOST)
     }"

text \<open>The callbacks a packet can be handed to.\<close>

datatype 'p route_event =
  UnicastForwarded Ipv4Route 'p
| MulticastForwarded Ipv4MulticastRoute 'p
| LocallyDelivered 'p u32
| ErrorReported 'p

text \<open>
  \<open>RouteInput\<close>: the flag returned and the callbacks called; \<open>lcb\<close> says whether the callback for
  local delivery is set, \<open>weakEs\<close> is the attribute of \<^verbatim>\<open>Ipv4L3Protocol\<close>.
\<close>

definition Static_RouteInput ::
    "Ipv4 \<Rightarrow> bool \<Rightarrow> 'p \<Rightarrow> Ipv4Header \<Rightarrow> dev \<Rightarrow> bool \<Rightarrow> Ipv4StaticRouting \<Rightarrow>
      (bool \<times> 'p route_event list) option" where
  "Static_RouteInput v weakEs p header idev lcb s =
     do {
       v \<leftarrow> Static_ipv4 v s;
       let iif = Ipv4_GetInterfaceForDevice v (Some idev);
       ensure (iif \<ge> 0);
       if Ipv4Address_IsMulticast (ih_dst header) then
         Some (case Static_LookupStatic_multicast (ih_src header) (ih_dst header) (word_of_int iif) s of
                 Some r \<Rightarrow> (True, [MulticastForwarded r p])
               | None \<Rightarrow> (False, []))
       else do {
         here \<leftarrow> Ipv4_IsDestinationAddress v weakEs (ih_dst header) iif;
         if here then Some (if lcb then (True, [LocallyDelivered p (word_of_int iif)]) else (False, []))
         else do {
           forwarding \<leftarrow> Ipv4_IsForwarding v iif;
           if \<not> forwarding then Some (True, [ErrorReported p])
           else do {
             rtentry \<leftarrow> Static_LookupStatic v (ih_dst header) None s;
             Some (case rtentry of Some r \<Rightarrow> (True, [UnicastForwarded r p]) | None \<Rightarrow> (False, []))
           }
         }
       }
     }"

section \<open>Changes of the interfaces\<close>

text \<open>One round of the loop of \<open>NotifyInterfaceUp\<close>.\<close>

definition Static_up_address :: "u32 \<Rightarrow> Ipv4InterfaceAddress \<Rightarrow> Ipv4StaticRouting \<Rightarrow> Ipv4StaticRouting" where
  "Static_up_address i ia s =
     (if ia_local ia \<noteq> Ipv4Address_default \<and> ia_mask ia \<noteq> 0x66666666 \<and> ia_mask ia \<noteq> Ipv4Mask_GetOnes
      then Static_AddNetworkRouteTo_direct (Ipv4Address_CombineMask (ia_local ia) (ia_mask ia)) (ia_mask ia) i 0 s
      else s)"

definition Static_NotifyInterfaceUp :: "Ipv4 \<Rightarrow> u32 \<Rightarrow> Ipv4StaticRouting \<Rightarrow> Ipv4StaticRouting option" where
  "Static_NotifyInterfaceUp v i s =
     do {
       v \<leftarrow> Static_ipv4 v s;
       f \<leftarrow> Ipv4_GetInterface v (uint i);
       Some (fold (Static_up_address i) (if_addrs f) s)
     }"

definition Static_NotifyInterfaceDown :: "u32 \<Rightarrow> Ipv4StaticRouting \<Rightarrow> Ipv4StaticRouting" where
  "Static_NotifyInterfaceDown i s =
     s\<lparr>sr_networkRoutes := filter (\<lambda>(r, m). re_interface r \<noteq> i) (sr_networkRoutes s)\<rparr>"

definition Static_NotifyAddAddress ::
    "Ipv4 \<Rightarrow> u32 \<Rightarrow> Ipv4InterfaceAddress \<Rightarrow> Ipv4StaticRouting \<Rightarrow> Ipv4StaticRouting option" where
  "Static_NotifyAddAddress v interface address s =
     do {
       v \<leftarrow> Static_ipv4 v s;
       f \<leftarrow> Ipv4_GetInterface v (uint interface);
       Some (if \<not> if_up f then s
             else if ia_local address \<noteq> Ipv4Address_default \<and> ia_mask address \<noteq> 0x66666666
             then Static_AddNetworkRouteTo_direct (Ipv4Address_CombineMask (ia_local address) (ia_mask address))
                    (ia_mask address) interface 0 s
             else s)
     }"

definition Static_NotifyRemoveAddress ::
    "Ipv4 \<Rightarrow> u32 \<Rightarrow> Ipv4InterfaceAddress \<Rightarrow> Ipv4StaticRouting \<Rightarrow> Ipv4StaticRouting option" where
  "Static_NotifyRemoveAddress v interface address s =
     do {
       v \<leftarrow> Static_ipv4 v s;
       f \<leftarrow> Ipv4_GetInterface v (uint interface);
       Some (if \<not> if_up f then s
             else s\<lparr>sr_networkRoutes := filter (\<lambda>(r, m). \<not> (re_interface r = interface \<and> Re_IsNetwork r \<and>
                      re_dest r = Ipv4Address_CombineMask (ia_local address) (ia_mask address) \<and>
                      re_mask r = ia_mask address)) (sr_networkRoutes s)\<rparr>)
     }"

definition Static_notify :: "Ipv4 \<Rightarrow> u32 \<Rightarrow> Ipv4StaticRouting \<Rightarrow> Ipv4StaticRouting option" where
  "Static_notify v i s =
     do {
       f \<leftarrow> Ipv4_GetInterface v (uint i);
       if if_up f then Static_NotifyInterfaceUp v i s else Some (Static_NotifyInterfaceDown i s)
     }"

definition Static_SetIpv4 :: "Ipv4 \<Rightarrow> Ipv4StaticRouting \<Rightarrow> Ipv4StaticRouting option" where
  "Static_SetIpv4 v s =
     do {
       ensure (\<not> sr_bound s);
       fold_opt (Static_notify v) (map word_of_nat [0 ..< length v]) (s\<lparr>sr_bound := True\<rparr>)
     }"

definition Static_DoDispose :: "Ipv4StaticRouting \<Rightarrow> Ipv4StaticRouting" where
  "Static_DoDispose s = s\<lparr>sr_networkRoutes := [], sr_multicastRoutes := [], sr_bound := False\<rparr>"

end
