(* ===== verification/Ipv4_Static_Properties.thy ===== *)
theory Ipv4_Static_Properties
  imports Ipv4_Static_Routing
begin

text \<open>
  What the static routing table guarantees: which of the matching routes a lookup takes, and how
  the table follows the addresses of the interfaces.
\<close>

section \<open>Masks\<close>

lemma prefix_loop_le: "unat tmp + n < 2 ^ 16 \<Longrightarrow> unat (prefix_loop n m tmp) \<le> unat tmp + n"
proof (induction n arbitrary: m tmp)
  case (Suc n)
  have "unat (tmp + 1) = unat tmp + 1" using Suc.prems by (simp add: unat_word_ariths)
  with Suc.IH [of "tmp + 1" "push_bit 1 m"] Suc.prems show ?case by simp
qed simp

lemma prefix_le: "Ipv4Mask_GetPrefixLength m \<le> 32"
  using prefix_loop_le [of 0 32 m] by (simp add: Ipv4Mask_GetPrefixLength_def word_le_nat_alt)

text \<open>The network masks have the prefix length they should, and match by their prefix.\<close>

definition network_mask :: "nat \<Rightarrow> u32" where
  "network_mask n = push_bit (32 - n) (mask n)"

lemma prefix_of_mask: "n \<le> 32 \<Longrightarrow> Ipv4Mask_GetPrefixLength (network_mask n) = word_of_nat n"
proof -
  have "list_all (\<lambda>n. Ipv4Mask_GetPrefixLength (network_mask n) = word_of_nat n) [0 ..< 33]"
    by code_simp
  then show "n \<le> 32 \<Longrightarrow> ?thesis" by (auto simp: list_all_iff)
qed

lemma match_prefix:
  assumes "n \<le> 32"
  shows "Ipv4Mask_IsMatch (network_mask n) a b \<longleftrightarrow> drop_bit (32 - n) a = drop_bit (32 - n) b"
proof
  assume m: "Ipv4Mask_IsMatch (network_mask n) a b"
  show "drop_bit (32 - n) a = drop_bit (32 - n) b"
  proof (rule bit_word_eqI)
    fix i
    assume "i < LENGTH(32)"
    have "bit (a AND network_mask n) (32 - n + i) = bit (b AND network_mask n) (32 - n + i)"
      using m by (simp add: Ipv4Mask_IsMatch_def)
    then show "bit (drop_bit (32 - n) a) i = bit (drop_bit (32 - n) b) i"
      using assms bit_imp_le_length [of a "32 - n + i"] bit_imp_le_length [of b "32 - n + i"]
      by (auto simp: network_mask_def bit_simps)
  qed
next
  assume d: "drop_bit (32 - n) a = drop_bit (32 - n) b"
  show "Ipv4Mask_IsMatch (network_mask n) a b"
    unfolding Ipv4Mask_IsMatch_def
  proof (rule bit_word_eqI)
    fix i
    assume "i < LENGTH(32)"
    show "bit (a AND network_mask n) i = bit (b AND network_mask n) i"
    proof (cases "32 - n \<le> i")
      case True
      have "bit (drop_bit (32 - n) a) (i - (32 - n)) = bit (drop_bit (32 - n) b) (i - (32 - n))"
        by (simp only: d)
      with True show ?thesis by (simp add: bit_simps)
    qed (simp add: network_mask_def bit_simps)
  qed
qed

section \<open>The route a lookup takes\<close>

text \<open>A route that matches and leaves over the wanted device.\<close>

definition candidate :: "Ipv4 \<Rightarrow> ip \<Rightarrow> dev option \<Rightarrow> Ipv4RoutingTableEntry \<Rightarrow> bool" where
  "candidate v dest oif j \<longleftrightarrow> Ipv4Mask_IsMatch (re_mask j) dest (re_dest j) \<and>
     (oif = None \<or> Ipv4_GetNetDevice v (uint (re_interface j)) = oif)"

abbreviation (input) plen :: "Ipv4RoutingTableEntry \<times> u32 \<Rightarrow> u16" where
  "plen x \<equiv> Ipv4Mask_GetPrefixLength (re_mask (fst x))"

text \<open>
  The best route: no candidate has a longer prefix; among those with the same prefix it has the
  least metric and was added last, except that the first host route is best whatever its metric.
\<close>

definition best_at :: "Ipv4 \<Rightarrow> ip \<Rightarrow> dev option \<Rightarrow> (Ipv4RoutingTableEntry \<times> u32) list \<Rightarrow> nat \<Rightarrow> bool" where
  "best_at v dest oif l i \<longleftrightarrow> i < length l \<and> candidate v dest oif (fst (l ! i)) \<and>
     (\<forall>k < length l. candidate v dest oif (fst (l ! k)) \<longrightarrow>
        plen (l ! k) < plen (l ! i) \<or>
        plen (l ! k) = plen (l ! i) \<and>
          (if plen (l ! i) = 32 then i \<le> k
           else snd (l ! i) < snd (l ! k) \<or> snd (l ! i) = snd (l ! k) \<and> k \<le> i))"

text \<open>Every route leaves through an interface that exists and has an address.\<close>

definition routes_usable :: "Ipv4 \<Rightarrow> (Ipv4RoutingTableEntry \<times> u32) list \<Rightarrow> bool" where
  "routes_usable v l \<longleftrightarrow> (\<forall>(j, m) \<in> set l. \<exists>f. Ipv4_GetInterface v (uint (re_interface j)) = Some f \<and> if_addrs f \<noteq> [])"

lemma usable_Cons: "routes_usable v ((j, m) # l) \<longleftrightarrow>
    (\<exists>f. Ipv4_GetInterface v (uint (re_interface j)) = Some f \<and> if_addrs f \<noteq> []) \<and> routes_usable v l"
  by (auto simp: routes_usable_def)

lemma usable_route:
  assumes "Ipv4_GetInterface v (uint (re_interface j)) = Some f" "if_addrs f \<noteq> []"
  shows "\<exists>r. Static_route (Some v) j = Some r"
    and "Static_other_device (Some v) oif j =
      Some (\<not> (oif = None \<or> Ipv4_GetNetDevice v (uint (re_interface j)) = oif))"
  using assms
  by (auto simp: Static_route_def SourceAddressSelection_def Static_other_device_def Ipv4_GetAddress_def
      Ipv4_GetNetDevice_def split: option.splits)

text \<open>What the loop knows of the routes it has seen.\<close>

definition seen_best ::
    "Ipv4 \<Rightarrow> ip \<Rightarrow> dev option \<Rightarrow> (Ipv4RoutingTableEntry \<times> u32) list \<Rightarrow> u16 \<Rightarrow> u32 \<Rightarrow> Ipv4Route option \<Rightarrow> bool" where
  "seen_best v dest oif pre lm sm rt \<longleftrightarrow>
     (case rt of
        None \<Rightarrow> lm = 0 \<and> sm = 0xffffffff \<and> (\<forall>x \<in> set pre. \<not> candidate v dest oif (fst x))
      | Some r \<Rightarrow> \<exists>i. best_at v dest oif pre i \<and> plen (pre ! i) = lm \<and> lm < 32 \<and> snd (pre ! i) = sm \<and>
          Static_route (Some v) (fst (pre ! i)) = Some r)"

lemma best_at_snoc_skip:
  assumes "best_at v dest oif pre i"
    and "\<not> candidate v dest oif (fst x) \<or> plen x < plen (pre ! i) \<or>
      plen x = plen (pre ! i) \<and> plen (pre ! i) < 32 \<and> snd (pre ! i) < snd x"
  shows "best_at v dest oif (pre @ [x]) i"
  unfolding best_at_def
proof (intro conjI allI impI)
  have i: "i < length pre" using assms(1) by (simp add: best_at_def)
  then show "i < length (pre @ [x])" by simp
  show "candidate v dest oif (fst ((pre @ [x]) ! i))" using assms(1) i by (simp add: best_at_def nth_append)
  fix k
  assume k: "k < length (pre @ [x])" "candidate v dest oif (fst ((pre @ [x]) ! k))"
  show "plen ((pre @ [x]) ! k) < plen ((pre @ [x]) ! i) \<or> plen ((pre @ [x]) ! k) = plen ((pre @ [x]) ! i) \<and>
      (if plen ((pre @ [x]) ! i) = 32 then i \<le> k
       else snd ((pre @ [x]) ! i) < snd ((pre @ [x]) ! k) \<or> snd ((pre @ [x]) ! i) = snd ((pre @ [x]) ! k) \<and> k \<le> i)"
  proof (cases "k < length pre")
    case True
    then have "candidate v dest oif (fst (pre ! k))" using k(2) by (simp add: nth_append)
    with True assms(1) show ?thesis unfolding best_at_def by (simp only: nth_append i if_True simp_thms)
  next
    case False
    then have "k = length pre" using k by simp
    then show ?thesis using assms(2) i k by (auto simp: nth_append)
  qed
qed

lemma best_at_last:
  assumes "candidate v dest oif (fst x)"
    and "\<And>k. k < length pre \<Longrightarrow> candidate v dest oif (fst (pre ! k)) \<Longrightarrow>
      plen (pre ! k) < plen x \<or> plen (pre ! k) = plen x \<and> plen x < 32 \<and> snd x \<le> snd (pre ! k)"
  shows "best_at v dest oif (pre @ [x]) (length pre)"
  unfolding best_at_def
proof (intro conjI allI impI)
  fix k
  assume k: "k < length (pre @ [x])" "candidate v dest oif (fst ((pre @ [x]) ! k))"
  then consider "k = length pre" | "k < length pre" "candidate v dest oif (fst (pre ! k))"
    by (auto simp: nth_append split: if_splits)
  then show "plen ((pre @ [x]) ! k) < plen ((pre @ [x]) ! length pre) \<or>
      plen ((pre @ [x]) ! k) = plen ((pre @ [x]) ! length pre) \<and>
      (if plen ((pre @ [x]) ! length pre) = 32 then length pre \<le> k
       else snd ((pre @ [x]) ! length pre) < snd ((pre @ [x]) ! k) \<or>
         snd ((pre @ [x]) ! length pre) = snd ((pre @ [x]) ! k) \<and> k \<le> length pre)"
  proof cases
    case 2
    then show ?thesis using assms(2) [OF 2] by (auto simp: nth_append)
  qed simp
qed (use assms(1) in simp_all)

lemma u32_max: "\<not> 0xffffffff < (w :: u32)"
proof -
  have e: "(0xffffffff :: u32) = - 1" by simp
  show ?thesis unfolding e not_less by (rule word_order.extremum)
qed

lemma seen_skip:
  assumes s: "seen_best v dest oif pre lm sm rt"
    and x: "\<not> candidate v dest oif (fst x) \<or> plen x < lm \<or> plen x = lm \<and> sm < snd x"
  shows "seen_best v dest oif (pre @ [x]) lm sm rt"
proof (cases rt)
  case None
  then have n: "lm = 0" "sm = 0xffffffff" "\<forall>y \<in> set pre. \<not> candidate v dest oif (fst y)"
    using s by (simp_all add: seen_best_def)
  have "\<not> plen x < lm" unfolding n(1) by simp
  moreover have "\<not> sm < snd x" unfolding n(2) by (rule u32_max)
  ultimately have "\<not> candidate v dest oif (fst x)" using x by blast
  with n None show ?thesis by (auto simp: seen_best_def)
next
  case (Some r)
  then obtain i where i: "best_at v dest oif pre i" "plen (pre ! i) = lm" "lm < 32" "snd (pre ! i) = sm"
    "Static_route (Some v) (fst (pre ! i)) = Some r" using s by (auto simp: seen_best_def)
  have b: "best_at v dest oif (pre @ [x]) i" by (rule best_at_snoc_skip [OF i(1)]) (use x i in auto)
  have "(pre @ [x]) ! i = pre ! i" using i(1) by (simp add: best_at_def nth_append)
  with b i(2-5) Some show ?thesis unfolding seen_best_def by auto
qed

lemma seen_take:
  assumes s: "seen_best v dest oif pre lm sm rt" and c: "candidate v dest oif (fst x)"
    and x: "\<not> plen x < lm" "\<not> (plen x = lm \<and> sm < snd x)"
  shows "best_at v dest oif (pre @ [x]) (length pre)"
proof (rule best_at_last [OF c])
  fix k
  assume k: "k < length pre" "candidate v dest oif (fst (pre ! k))"
  then obtain i r where i: "best_at v dest oif pre i" "plen (pre ! i) = lm" "lm < 32" "snd (pre ! i) = sm"
    using s nth_mem [OF k(1)] by (auto simp: seen_best_def split: option.splits)
  from i(1) k have "plen (pre ! k) < plen (pre ! i) \<or> plen (pre ! k) = plen (pre ! i) \<and>
      (if plen (pre ! i) = 32 then i \<le> k
       else snd (pre ! i) < snd (pre ! k) \<or> snd (pre ! i) = snd (pre ! k) \<and> k \<le> i)"
    unfolding best_at_def by blast
  then have "plen (pre ! k) < lm \<or> plen (pre ! k) = lm \<and> sm \<le> snd (pre ! k)"
    unfolding i(2,4) using i(3) by (auto simp: less_imp_le split: if_splits)
  note below = this
  have le: "lm \<le> plen x" using x(1) by (simp only: not_less)
  show "plen (pre ! k) < plen x \<or> plen (pre ! k) = plen x \<and> plen x < 32 \<and> snd x \<le> snd (pre ! k)"
  proof (cases "plen x = lm")
    case True
    then have "snd x \<le> sm" using x(2) by (simp only: not_less simp_thms)
    with below True i(3) show ?thesis by (auto intro: order.trans)
  next
    case False
    with le have "lm < plen x" by (simp only: order.strict_iff_order simp_thms)
    with below show ?thesis by (auto intro: order.strict_trans)
  qed
qed

text \<open>The route found is made of the best one; none is found only when no route matches.\<close>

definition best_route ::
    "Ipv4 \<Rightarrow> ip \<Rightarrow> dev option \<Rightarrow> (Ipv4RoutingTableEntry \<times> u32) list \<Rightarrow> Ipv4Route option \<Rightarrow> bool" where
  "best_route v dest oif l res \<longleftrightarrow>
     (case res of
        None \<Rightarrow> \<forall>x \<in> set l. \<not> candidate v dest oif (fst x)
      | Some r \<Rightarrow> \<exists>i. best_at v dest oif l i \<and> Static_route (Some v) (fst (l ! i)) = Some r)"

lemma static_loop_best:
  "routes_usable v l \<Longrightarrow> seen_best v dest oif pre lm sm rt \<Longrightarrow>
    \<exists>res. static_loop (Some v) dest oif l lm sm rt = Some res \<and> best_route v dest oif (pre @ l) res"
proof (induction l arbitrary: pre lm sm rt)
  case Nil
  then show ?case by (auto simp: seen_best_def best_route_def split: option.splits)
next
  case (Cons x l)
  obtain j metric where x: "x = (j, metric)" by (cases x)
  have u: "routes_usable v l" and g: "\<exists>f. Ipv4_GetInterface v (uint (re_interface j)) = Some f \<and> if_addrs f \<noteq> []"
    using Cons.prems(1) x by (simp_all add: usable_Cons)
  then obtain r where r: "Static_route (Some v) j = Some r" using usable_route(1) by blast
  have o: "Static_other_device (Some v) oif j =
      Some (\<not> (oif = None \<or> Ipv4_GetNetDevice v (uint (re_interface j)) = oif))"
    using g usable_route(2) by blast
  note IH = Cons.IH [OF u, of "pre @ [x]", unfolded append_assoc append_Cons append_Nil]
  let ?len = "Ipv4Mask_GetPrefixLength (re_mask j)"
  have len: "?len \<le> 32" by (rule prefix_le)
  show ?case
  proof (cases "candidate v dest oif j")
    case False
    have "seen_best v dest oif (pre @ [x]) lm sm rt"
      by (rule seen_skip [OF Cons.prems(2)]) (use False x in simp)
    moreover have "static_loop (Some v) dest oif (x # l) lm sm rt = static_loop (Some v) dest oif l lm sm rt"
      using False o x by (auto simp: candidate_def Let_def)
    ultimately show ?thesis using IH by simp
  next
    case True
    have step: "static_loop (Some v) dest oif (x # l) lm sm rt =
      (if ?len < lm \<or> ?len = lm \<and> sm < metric then static_loop (Some v) dest oif l lm sm rt
       else if ?len = 32 then Some (Some r) else static_loop (Some v) dest oif l ?len metric (Some r))"
    proof -
      have m: "Ipv4Mask_IsMatch (re_mask j) dest (re_dest j)" "Static_other_device (Some v) oif j = Some False"
        using True o by (auto simp: candidate_def)
      show ?thesis
        by (cases ?len lm rule: linorder_cases) (simp_all add: x m r Let_def u32_max)
    qed
    show ?thesis
    proof (cases "?len < lm \<or> ?len = lm \<and> sm < metric")
      case skip: True
      have "seen_best v dest oif (pre @ [x]) lm sm rt"
        by (rule seen_skip [OF Cons.prems(2)]) (use skip x in auto)
      with IH skip step show ?thesis by simp
    next
      case False
      have b: "best_at v dest oif (pre @ [x]) (length pre)"
        by (rule seen_take [OF Cons.prems(2)]) (use True False x in auto)
      show ?thesis
      proof (cases "?len = 32")
        case host: True
        have "best_at v dest oif (pre @ x # l) (length pre)"
          unfolding best_at_def
        proof (intro conjI allI impI)
          fix k
          assume k: "k < length (pre @ x # l)" "candidate v dest oif (fst ((pre @ x # l) ! k))"
          show "plen ((pre @ x # l) ! k) < plen ((pre @ x # l) ! length pre) \<or>
            plen ((pre @ x # l) ! k) = plen ((pre @ x # l) ! length pre) \<and>
            (if plen ((pre @ x # l) ! length pre) = 32 then length pre \<le> k
             else snd ((pre @ x # l) ! length pre) < snd ((pre @ x # l) ! k) \<or>
               snd ((pre @ x # l) ! length pre) = snd ((pre @ x # l) ! k) \<and> k \<le> length pre)"
          proof (cases "k < length pre")
            case True
            then show ?thesis using b k(2) host x by (auto simp: best_at_def nth_append dest!: spec [of _ k])
          next
            case False
            have "plen ((pre @ x # l) ! k) \<le> 32" by (rule prefix_le)
            with False host x show ?thesis by (auto simp: order.order_iff_strict)
          qed
        qed (use True x in simp_all)
        moreover have "static_loop (Some v) dest oif (x # l) lm sm rt = Some (Some r)"
          unfolding step if_not_P [OF False] if_P [OF host] ..
        ultimately show ?thesis using r x
          by (intro exI [of _ "Some r"]) (auto simp: best_route_def intro!: exI [of _ "length pre"])
      next
        case net: False
        then have "?len < 32" using len by simp
        then have "seen_best v dest oif (pre @ [x]) ?len metric (Some r)"
          using b r x by (auto simp: seen_best_def intro!: exI [of _ "length pre"])
        from IH [OF this] show ?thesis unfolding step if_not_P [OF False] if_not_P [OF net] .
      qed
    qed
  qed
qed

text \<open>Property C21: a lookup in the static table takes, of all routes that match the destination and
  leave over the wanted device, one with the longest prefix and, of these, the one with the least
  metric that was added last; the first host route is taken whatever its metric. It fails to
  find a route only when none matches, and never aborts when the routes use existing
  interfaces with an address.\<close>

theorem static_lookup_best:
  assumes "routes_usable v (sr_networkRoutes s)" and "sr_bound s" and "\<not> Ipv4Address_IsLocalMulticast dest"
  shows "\<exists>res. Static_LookupStatic v dest oif s = Some res \<and> best_route v dest oif (sr_networkRoutes s) res"
proof -
  have "seen_best v dest oif [] 0 0xffffffff None" by (simp add: seen_best_def)
  from static_loop_best [OF assms(1) this] show ?thesis
    using assms(2,3) by (simp add: Static_LookupStatic_def Static_ipv4_def)
qed

text \<open>The metric of a host route is ignored. Of two routes to one host the one added first
  is always taken, although the other one, over a different next hop, has a lower metric and the
  metric is documented to decide between routes to the same destination.\<close>

theorem host_route_metric_ignored:
  assumes "routes_usable v [(CreateNetworkRouteTo dest Ipv4Mask_GetOnes gw i, m), (CreateNetworkRouteTo dest Ipv4Mask_GetOnes gw' i', m')]"
    and "gw \<noteq> gw'" and "m' < m" and "\<not> Ipv4Address_IsLocalMulticast dest"
  shows "\<exists>r. Static_LookupStatic v dest None
      (Static_AddHostRouteTo dest gw' i' m' (Static_AddHostRouteTo dest gw i m (StaticRouting_make\<lparr>sr_bound := True\<rparr>))) =
      Some (Some r) \<and> rt_gateway r = gw"
proof -
  let ?l = "[(CreateNetworkRouteTo dest Ipv4Mask_GetOnes gw i, m), (CreateNetworkRouteTo dest Ipv4Mask_GetOnes gw' i', m')]"
  let ?s = "Static_AddHostRouteTo dest gw' i' m' (Static_AddHostRouteTo dest gw i m (StaticRouting_make\<lparr>sr_bound := True\<rparr>))"
  have s: "sr_networkRoutes ?s = ?l" "sr_bound ?s"
    using assms(2)
    by (auto simp: Static_AddHostRouteTo_def Static_AddNetworkRouteTo_def Static_add_def Static_LookupRoute_def
        CreateNetworkRouteTo_def StaticRouting_make_def)
  have c: "candidate v dest None (CreateNetworkRouteTo dest Ipv4Mask_GetOnes gw i)"
    "Ipv4Mask_GetPrefixLength Ipv4Mask_GetOnes = 32" for gw i
    by (simp add: candidate_def CreateNetworkRouteTo_def Ipv4Mask_IsMatch_def) code_simp
  have best0: "k = 0" if b: "best_at v dest None ?l k" for k
  proof (rule ccontr)
    assume "k \<noteq> 0"
    moreover have "k < 2" using b by (simp add: best_at_def)
    ultimately have k: "k = 1" by simp
    from b [unfolded best_at_def] have "plen (?l ! 0) < plen (?l ! k) \<or> k \<le> 0"
      using c by (auto simp: k CreateNetworkRouteTo_def dest!: spec [of _ 0])
    with c(2) show False by (simp add: k CreateNetworkRouteTo_def)
  qed
  have "\<exists>res. Static_LookupStatic v dest None ?s = Some res \<and> best_route v dest None ?l res"
  proof -
    have "seen_best v dest None [] 0 0xffffffff None" by (simp add: seen_best_def)
    from static_loop_best [OF assms(1) this] show ?thesis
      using assms(4) s by (simp add: Static_LookupStatic_def Static_ipv4_def)
  qed
  then obtain res where r: "Static_LookupStatic v dest None ?s = Some res" "best_route v dest None ?l res" by blast
  have "candidate v dest None (fst (hd ?l))" using c(1) by simp
  then obtain x where x: "res = Some x" using r(2) by (cases res) (auto simp: best_route_def)
  with r(2) obtain k where "best_at v dest None ?l k" "Static_route (Some v) (fst (?l ! k)) = Some x"
    by (auto simp: best_route_def)
  with best0 have "Static_route (Some v) (fst (?l ! 0)) = Some x" by blast
  with x have "res = Some x" "rt_gateway x = gw"
    by (auto simp: Static_route_def CreateNetworkRouteTo_def elim!: bind_Some_elim)
  with r(1) show ?thesis by blast
qed

section \<open>Addresses that come and go\<close>

text \<open>The network of an address through an interface is in the table.\<close>

definition has_network :: "u32 \<Rightarrow> Ipv4InterfaceAddress \<Rightarrow> Ipv4StaticRouting \<Rightarrow> bool" where
  "has_network i a s \<longleftrightarrow> (\<exists>(r, m) \<in> set (sr_networkRoutes s). re_interface r = i \<and> re_mask r = ia_mask a \<and>
     re_dest r = Ipv4Address_CombineMask (ia_local a) (ia_mask a))"

text \<open>Removing an address undoes what adding it did to the table, with one exception: the
  route added for an address with the mask 255.255.255.255 is never removed again.\<close>

theorem removed_address_route:
  assumes "sr_bound s" and "Ipv4_GetInterface v (uint i) = Some f" and "if_up f"
    and "ia_local a \<noteq> Ipv4Address_default" and "ia_mask a \<noteq> 0x66666666" and "\<not> has_network i a s"
  shows "\<exists>s1. Static_NotifyAddAddress v i a s = Some s1 \<and> has_network i a s1 \<and>
    Static_NotifyRemoveAddress v i a s1 = Some (if ia_mask a = Ipv4Mask_GetOnes then s1 else s)"
proof -
  let ?r = "CreateNetworkRouteTo_direct (Ipv4Address_CombineMask (ia_local a) (ia_mask a)) (ia_mask a) i"
  let ?s = "s\<lparr>sr_networkRoutes := sr_networkRoutes s @ [(?r, 0)]\<rparr>"
  have "\<not> Static_LookupRoute ?r 0 s"
    using assms(6) by (fastforce simp: Static_LookupRoute_def has_network_def list_ex_iff CreateNetworkRouteTo_direct_def)
  then have add: "Static_NotifyAddAddress v i a s = Some ?s"
    using assms by (simp add: Static_NotifyAddAddress_def Static_ipv4_def Static_AddNetworkRouteTo_direct_def Static_add_def)
  have has: "has_network i a ?s" by (auto simp: has_network_def CreateNetworkRouteTo_direct_def)
  have keep: "filter (\<lambda>(r, m). \<not> (re_interface r = i \<and> Re_IsNetwork r \<and>
      re_dest r = Ipv4Address_CombineMask (ia_local a) (ia_mask a) \<and> re_mask r = ia_mask a)) (sr_networkRoutes s) =
      sr_networkRoutes s"
    using assms(6) by (intro filter_True) (auto simp: has_network_def)
  show ?thesis
  proof (cases "ia_mask a = Ipv4Mask_GetOnes")
    case True
    have "filter (\<lambda>(r, m). \<not> (re_interface r = i \<and> Re_IsNetwork r \<and>
        re_dest r = Ipv4Address_CombineMask (ia_local a) (ia_mask a) \<and> re_mask r = ia_mask a)) (sr_networkRoutes ?s) =
        sr_networkRoutes ?s"
      using True by (intro filter_True) (auto simp: Re_IsNetwork_def Re_IsHost_def)
    then have "Static_NotifyRemoveAddress v i a ?s = Some ?s"
      using assms(1-3) by (simp add: Static_NotifyRemoveAddress_def Static_ipv4_def del: filter_append)
    with add has True show ?thesis by auto
  next
    case False
    have "\<not> (\<lambda>(r, m). \<not> (re_interface r = i \<and> Re_IsNetwork r \<and>
        re_dest r = Ipv4Address_CombineMask (ia_local a) (ia_mask a) \<and> re_mask r = ia_mask a)) (?r, 0 :: u32)"
      using False by (simp add: Re_IsNetwork_def Re_IsHost_def CreateNetworkRouteTo_direct_def)
    then have "Static_NotifyRemoveAddress v i a ?s = Some s"
      using assms(1-3) keep by (simp add: Static_NotifyRemoveAddress_def Static_ipv4_def)
    with add has False show ?thesis by auto
  qed
qed

section \<open>Witnesses\<close>

text \<open>A node with the loopback, 10.0.0.1/24 on device 1 and 10.1.0.1/16 on device 2.\<close>

definition router0 :: Ipv4 where
  "router0 =
     [\<lparr>if_dev = 0, if_addrs = [Ipv4InterfaceAddress_make 0x7f000001 0xff000000], if_up = True,
       if_forwarding = True, if_arp = None\<rparr>,
      \<lparr>if_dev = 1, if_addrs = [Ipv4InterfaceAddress_make 0x0a000001 0xffffff00], if_up = True,
       if_forwarding = True, if_arp = None\<rparr>,
      \<lparr>if_dev = 2, if_addrs = [Ipv4InterfaceAddress_make 0x0a010001 0xffff0000], if_up = True,
       if_forwarding = True, if_arp = None\<rparr>]"

definition table0 :: Ipv4StaticRouting where
  "table0 = Static_AddNetworkRouteTo 0x0a010000 0xffff0000 0x0a010002 2 5
     (Static_SetDefaultRoute 0x0a000002 1 0 (the (Static_SetIpv4 router0 StaticRouting_make)))"

lemma table0_facts: "sr_bound table0" "routes_usable router0 (sr_networkRoutes table0)"
proof -
  have l: "sr_networkRoutes table0 =
    [(CreateNetworkRouteTo 0x7f000000 0xff000000 0 0, 0), (CreateNetworkRouteTo 0x0a000000 0xffffff00 0 1, 0),
     (CreateNetworkRouteTo 0x0a010000 0xffff0000 0 2, 0), (CreateNetworkRouteTo 0 0 0x0a000002 1, 0),
     (CreateNetworkRouteTo 0x0a010000 0xffff0000 0x0a010002 2, 5)]" by code_simp
  show "routes_usable router0 (sr_networkRoutes table0)"
    by (simp add: l routes_usable_def CreateNetworkRouteTo_def Ipv4_GetInterface_def router0_def)
  show "sr_bound table0" by code_simp
qed

theorem static_lookup_best_witness:
  "\<exists>res. Static_LookupStatic router0 0x0a010009 None table0 = Some res \<and>
     best_route router0 0x0a010009 None (sr_networkRoutes table0) res"
  by (rule static_lookup_best [OF table0_facts(2,1)]) code_simp

theorem host_route_metric_ignored_witness:
  "\<exists>r. Static_LookupStatic router0 9 None (Static_AddHostRouteTo 9 0x0a010002 2 1
      (Static_AddHostRouteTo 9 0x0a000002 1 7 (StaticRouting_make\<lparr>sr_bound := True\<rparr>))) = Some (Some r) \<and>
     rt_gateway r = 0x0a000002"
  by (rule host_route_metric_ignored)
    (simp_all add: routes_usable_def CreateNetworkRouteTo_def Ipv4_GetInterface_def router0_def
      Ipv4Address_IsLocalMulticast_def)

theorem removed_address_route_witness:
  "\<exists>s1. Static_NotifyAddAddress router0 1 (Ipv4InterfaceAddress_make 9 0xffffffff) table0 = Some s1 \<and>
     has_network 1 (Ipv4InterfaceAddress_make 9 0xffffffff) s1 \<and>
     Static_NotifyRemoveAddress router0 1 (Ipv4InterfaceAddress_make 9 0xffffffff) s1 = Some s1"
proof -
  let ?a = "Ipv4InterfaceAddress_make 9 0xffffffff"
  have i: "Ipv4_GetInterface router0 (uint (1 :: u32)) = Some (router0 ! 1)" "if_up (router0 ! 1)"
    by (simp_all add: Ipv4_GetInterface_def router0_def)
  have a: "ia_local ?a \<noteq> Ipv4Address_default" "ia_mask ?a \<noteq> 0x66666666" "ia_mask ?a = Ipv4Mask_GetOnes"
    by (simp_all add: Ipv4InterfaceAddress_make_def Ipv4Address_default_def Ipv4Mask_GetOnes_def)
  have n: "\<not> has_network 1 ?a table0" by code_simp
  from removed_address_route [OF table0_facts(1) i a(1,2) n] a(3) show ?thesis by simp
qed

end
