(* ===== verification/Ipv4_List_Routing.thy ===== *)
theory Ipv4_List_Routing
  imports Ipv4_Static_Properties
begin

text \<open>
  \<open>Ipv4ListRouting\<close> (src/internet/model/ipv4-list-routing.cc): the routing protocols of a node by
  priority. A protocol is known by its virtual functions only, here a record of functions on the
  state \<open>'w\<close> of all protocols; \<open>Ipv4StaticRouting\<close> is one of them.
\<close>

datatype route_notification =
  NotifyUp u32
| NotifyDown u32
| NotifyAdded u32 Ipv4InterfaceAddress
| NotifyRemoved u32 Ipv4InterfaceAddress
| NotifyIpv4

record ('p, 'w) routing_protocol =
  rp_output :: "Ipv4Header \<Rightarrow> dev option \<Rightarrow> 'w \<Rightarrow> (Ipv4Route option \<times> 'w) option"
  rp_input :: "'p \<Rightarrow> Ipv4Header \<Rightarrow> dev \<Rightarrow> bool \<Rightarrow> 'w \<Rightarrow> (bool \<times> 'p route_event list \<times> 'w) option"
  rp_notify :: "route_notification \<Rightarrow> 'w \<Rightarrow> 'w option"

record ('p, 'w) Ipv4ListRouting =
  lr_protocols :: "(int \<times> ('p, 'w) routing_protocol) list"
  lr_bound :: bool

definition ListRouting_make :: "('p, 'w) Ipv4ListRouting" where
  "ListRouting_make = \<lparr>lr_protocols = [], lr_bound = False\<rparr>"

text \<open>
  \<^verbatim>\<open>std::list::sort\<close> with \<open>Compare\<close> is stable and puts the greater priority first.
\<close>

definition List_Compare :: "int \<times> 'r \<Rightarrow> int \<times> 'r \<Rightarrow> bool" where
  "List_Compare a b \<longleftrightarrow> fst a > fst b"

definition List_AddRoutingProtocol ::
    "('p, 'w) routing_protocol \<Rightarrow> int \<Rightarrow> ('p, 'w) Ipv4ListRouting \<times> 'w \<Rightarrow>
      (('p, 'w) Ipv4ListRouting \<times> 'w) option" where
  "List_AddRoutingProtocol r priority =
     (\<lambda>(l, w).
        let l = l\<lparr>lr_protocols := sort_key (\<lambda>x. - fst x) (lr_protocols l @ [(priority, r)])\<rparr> in
        if lr_bound l then map_option (\<lambda>w. (l, w)) (rp_notify r NotifyIpv4 w) else Some (l, w))"

fun output_loop ::
    "Ipv4Header \<Rightarrow> dev option \<Rightarrow> (int \<times> ('p, 'w) routing_protocol) list \<Rightarrow> 'w \<Rightarrow>
      (Ipv4Route option \<times> route_errno \<times> 'w) option" where
  "output_loop header oif [] w = Some (None, NOROUTETOHOST, w)"
| "output_loop header oif (x # xs) w =
     do {
       (route, w) \<leftarrow> rp_output (snd x) header oif w;
       case route of
         Some r \<Rightarrow> Some (Some r, NOTERROR, w)
       | None \<Rightarrow> output_loop header oif xs w
     }"

definition List_RouteOutput ::
    "('p, 'w) Ipv4ListRouting \<Rightarrow> Ipv4Header \<Rightarrow> dev option \<Rightarrow> 'w \<Rightarrow>
      (Ipv4Route option \<times> route_errno \<times> 'w) option" where
  "List_RouteOutput l header oif w = output_loop header oif (lr_protocols l) w"

fun input_loop ::
    "'p \<Rightarrow> Ipv4Header \<Rightarrow> dev \<Rightarrow> bool \<Rightarrow> bool \<Rightarrow> (int \<times> ('p, 'w) routing_protocol) list \<Rightarrow> 'w \<Rightarrow>
      (bool \<times> 'p route_event list \<times> 'w) option" where
  "input_loop p header idev lcb retVal [] w = Some (retVal, [], w)"
| "input_loop p header idev lcb retVal (x # xs) w =
     do {
       (b, ev, w) \<leftarrow> rp_input (snd x) p header idev lcb w;
       if b then Some (True, ev, w)
       else do {
         (b', ev', w) \<leftarrow> input_loop p header idev lcb retVal xs w;
         Some (b', ev @ ev', w)
       }
     }"

text \<open>\<open>RouteInput\<close> with the callback for local delivery set, as the IP layer calls it.\<close>

definition List_RouteInput ::
    "('p, 'w) Ipv4ListRouting \<Rightarrow> Ipv4 \<Rightarrow> bool \<Rightarrow> 'p \<Rightarrow> Ipv4Header \<Rightarrow> dev \<Rightarrow> 'w \<Rightarrow>
      (bool \<times> 'p route_event list \<times> 'w) option" where
  "List_RouteInput l v weakEs p header idev w =
     do {
       ensure (lr_bound l);
       let iif = Ipv4_GetInterfaceForDevice v (Some idev);
       ensure (iif \<ge> 0);
       here \<leftarrow> Ipv4_IsDestinationAddress v weakEs (ih_dst header) iif;
       let local = (if here then [LocallyDelivered p (word_of_int iif)] else []);
       if here \<and> \<not> Ipv4Address_IsMulticast (ih_dst header) then Some (True, local, w)
       else do {
         forwarding \<leftarrow> Ipv4_IsForwarding v iif;
         if \<not> forwarding then Some (True, local @ [ErrorReported p], w)
         else do {
           (b, ev, w) \<leftarrow> input_loop p header idev (\<not> here) here (lr_protocols l) w;
           Some (b, local @ ev, w)
         }
       }
     }"

definition List_notify ::
    "('p, 'w) Ipv4ListRouting \<Rightarrow> route_notification \<Rightarrow> 'w \<Rightarrow> 'w option" where
  "List_notify l n w = fold_opt (\<lambda>x. rp_notify (snd x) n) (lr_protocols l) w"

definition List_NotifyInterfaceUp where "List_NotifyInterfaceUp l i = List_notify l (NotifyUp i)"
definition List_NotifyInterfaceDown where "List_NotifyInterfaceDown l i = List_notify l (NotifyDown i)"
definition List_NotifyAddAddress where "List_NotifyAddAddress l i a = List_notify l (NotifyAdded i a)"
definition List_NotifyRemoveAddress where "List_NotifyRemoveAddress l i a = List_notify l (NotifyRemoved i a)"

definition List_SetIpv4 ::
    "('p, 'w) Ipv4ListRouting \<times> 'w \<Rightarrow> (('p, 'w) Ipv4ListRouting \<times> 'w) option" where
  "List_SetIpv4 = (\<lambda>(l, w). do {
     ensure (\<not> lr_bound l);
     w \<leftarrow> List_notify l NotifyIpv4 w;
     Some (l\<lparr>lr_bound := True\<rparr>, w)
   })"

definition List_DoDispose :: "('p, 'w) Ipv4ListRouting \<Rightarrow> ('p, 'w) Ipv4ListRouting" where
  "List_DoDispose l = l\<lparr>lr_protocols := [], lr_bound := False\<rparr>"

definition List_GetRoutingProtocol ::
    "u32 \<Rightarrow> ('p, 'w) Ipv4ListRouting \<Rightarrow> (int \<times> ('p, 'w) routing_protocol) option" where
  "List_GetRoutingProtocol index l =
     (if unat index < length (lr_protocols l) then Some (lr_protocols l ! unat index) else None)"

section \<open>Static routing as one of the protocols\<close>

definition static_protocol ::
    "Ipv4 \<Rightarrow> bool \<Rightarrow> ('w \<Rightarrow> Ipv4StaticRouting) \<Rightarrow> (Ipv4StaticRouting \<Rightarrow> 'w \<Rightarrow> 'w) \<Rightarrow> ('p, 'w) routing_protocol" where
  "static_protocol v weakEs get put =
     \<lparr>rp_output = (\<lambda>h oif w. map_option (\<lambda>(r, e). (r, w)) (Static_RouteOutput v h oif (get w))),
      rp_input = (\<lambda>p h idev lcb w. map_option (\<lambda>(b, ev). (b, ev, w)) (Static_RouteInput v weakEs p h idev lcb (get w))),
      rp_notify = (\<lambda>n w. map_option (\<lambda>s. put s w)
        (case n of
           NotifyUp i \<Rightarrow> Static_NotifyInterfaceUp v i (get w)
         | NotifyDown i \<Rightarrow> Some (Static_NotifyInterfaceDown i (get w))
         | NotifyAdded i a \<Rightarrow> Static_NotifyAddAddress v i a (get w)
         | NotifyRemoved i a \<Rightarrow> Static_NotifyRemoveAddress v i a (get w)
         | NotifyIpv4 \<Rightarrow> Static_SetIpv4 v (get w)))\<rparr>"

section \<open>The order of the protocols\<close>

text \<open>The list is in order of priority whatever is added.\<close>

lemma add_sorted:
  assumes "List_AddRoutingProtocol r priority (l, w) = Some (l', w')"
  shows "sorted_wrt (\<lambda>a b. \<not> List_Compare b a) (lr_protocols l')"
proof -
  have "lr_protocols l' = sort_key (\<lambda>x. - fst x) (lr_protocols l @ [(priority, r)])"
    using assms by (auto simp: List_AddRoutingProtocol_def Let_def split: if_splits)
  moreover have "sorted (map (\<lambda>x. - fst x) (sort_key (\<lambda>x. - fst x) (lr_protocols l @ [(priority, r)])))"
    by (rule sorted_sort_key)
  ultimately show ?thesis by (simp add: sorted_map List_Compare_def not_less)
qed

lemma output_first:
  "output_loop h oif xs w = Some (Some r, e, w') \<Longrightarrow>
    \<exists>pre x post w1. xs = pre @ x # post \<and> output_loop h oif pre w = Some (None, NOROUTETOHOST, w1) \<and>
      rp_output (snd x) h oif w1 = Some (Some r, w') \<and> e = NOTERROR"
proof (induction xs arbitrary: w)
  case (Cons x xs)
  then obtain route w1 where o: "rp_output (snd x) h oif w = Some (route, w1)"
    by (auto elim!: bind_Some_elim)
  show ?case
  proof (cases route)
    case None
    with Cons.prems o have "output_loop h oif xs w1 = Some (Some r, e, w')" by simp
    from Cons.IH [OF this] obtain pre y post w2 where
      "xs = pre @ y # post" "output_loop h oif pre w1 = Some (None, NOROUTETOHOST, w2)"
      "rp_output (snd y) h oif w2 = Some (Some r, w')" "e = NOTERROR" by blast
    with None o show ?thesis
      by (intro exI [of _ "x # pre"] exI [of _ y] exI [of _ post] exI [of _ w2]) simp
  next
    case (Some r1)
    with Cons.prems o show ?thesis
      by (intro exI [of _ "[]"] exI [of _ x] exI [of _ xs] exI [of _ w]) simp
  qed
qed simp

section \<open>Local delivery\<close>

definition delivered :: "'p route_event list \<Rightarrow> nat" where
  "delivered ev = length (filter (\<lambda>e. case e of LocallyDelivered p i \<Rightarrow> True | _ \<Rightarrow> False) ev)"

lemma delivered_simps [simp]:
  "delivered [] = 0"
  "delivered (LocallyDelivered p i # ev) = Suc (delivered ev)"
  "delivered (UnicastForwarded r p # ev) = delivered ev"
  "delivered (MulticastForwarded m p # ev) = delivered ev"
  "delivered (ErrorReported p # ev) = delivered ev"
  "delivered (ev @ ev') = delivered ev + delivered ev'"
  by (simp_all add: delivered_def)

text \<open>
  What \<open>RouteInput\<close> of a protocol promises: without the callback it does not deliver locally, with it
  at most once, and a packet it delivered is handled.
\<close>

locale input_protocol =
  fixes input :: "'p \<Rightarrow> Ipv4Header \<Rightarrow> dev \<Rightarrow> bool \<Rightarrow> 'w \<Rightarrow> (bool \<times> 'p route_event list \<times> 'w) option"
  assumes null_callback: "input p h d False w = Some (b, ev, w') \<Longrightarrow> delivered ev = 0"
    and at_most_once: "input p h d lcb w = Some (b, ev, w') \<Longrightarrow> delivered ev \<le> 1"
    and handled: "input p h d lcb w = Some (b, ev, w') \<Longrightarrow> delivered ev \<noteq> 0 \<Longrightarrow> b"

lemma static_input_protocol:
  "input_protocol (rp_input (static_protocol v weakEs get put))"
proof -
  have *: "delivered ev \<le> (if lcb then 1 else 0) \<and> (delivered ev \<noteq> 0 \<longrightarrow> b)"
    if "rp_input (static_protocol v weakEs get put) p h d lcb w = Some (b, ev, w')" for p h d lcb w b ev w'
  proof -
    from that have "Static_RouteInput v weakEs p h d lcb (get w) = Some (b, ev)"
      by (auto simp: static_protocol_def)
    then show ?thesis
      by (auto simp: Static_RouteInput_def Let_def elim!: bind_Some_elim split: if_splits option.splits)
  qed
  show ?thesis by unfold_locales (auto dest!: * split: if_splits)
qed

interpretation static: input_protocol "rp_input (static_protocol v weakEs get put)" for v weakEs get put
  by (rule static_input_protocol)

lemma input_loop_delivered:
  "\<forall>x \<in> set xs. input_protocol (rp_input (snd x)) \<Longrightarrow> input_loop p h d lcb r xs w = Some (b, ev, w') \<Longrightarrow>
    delivered ev \<le> (if lcb then 1 else 0)"
proof (induction xs arbitrary: w b ev)
  case (Cons x xs)
  from Cons.prems(1) have x: "input_protocol (rp_input (snd x))" by simp
  from Cons.prems(2) obtain b1 ev1 w1 where
    head: "rp_input (snd x) p h d lcb w = Some (b1, ev1, w1)" by (auto elim!: bind_Some_elim)
  have ev1: "delivered ev1 \<le> (if lcb then 1 else 0)"
    using head input_protocol.null_callback [OF x] input_protocol.at_most_once [OF x] by (cases lcb) auto
  show ?case
  proof (cases b1)
    case True
    with head Cons.prems(2) ev1 show ?thesis by simp
  next
    case False
    then have "delivered ev1 = 0" using input_protocol.handled [OF x head] by blast
    moreover from False head Cons.prems(2) obtain ev2 where
      "input_loop p h d lcb r xs w1 = Some (b, ev2, w')" "ev = ev1 @ ev2"
      by (auto elim!: bind_Some_elim)
    ultimately show ?thesis using Cons.IH [of w1 b ev2] Cons.prems(1) by simp
  qed
qed simp

lemma input_loop_handled:
  "input_loop p h d lcb True xs w = Some (b, ev, w') \<Longrightarrow> b"
  by (induction xs arbitrary: w b ev) (auto elim!: bind_Some_elim split: if_splits)

text \<open>Property C22: the list hands a packet to the upper layers at most once, whatever its protocols are
  as long as each keeps the contract of \<open>RouteInput\<close>, and exactly once, reported as handled, when
  the destination is one of the node: a multicast packet that is delivered here and then offered
  to the protocols is not delivered again.\<close>

theorem list_delivers_once:
  assumes "\<forall>x \<in> set (lr_protocols l). input_protocol (rp_input (snd x))"
    and "List_RouteInput l v weakEs p h d w = Some (b, ev, w')"
  shows "delivered ev \<le> 1 \<and>
    (Ipv4_IsDestinationAddress v weakEs (ih_dst h) (Ipv4_GetInterfaceForDevice v (Some d)) = Some True \<longrightarrow>
      delivered ev = 1 \<and> b)"
proof -
  let ?iif = "Ipv4_GetInterfaceForDevice v (Some d)"
  from assms(2) obtain here where here: "Ipv4_IsDestinationAddress v weakEs (ih_dst h) ?iif = Some here"
    by (auto simp: List_RouteInput_def Let_def elim!: bind_Some_elim)
  let ?local = "if here then [LocallyDelivered p (word_of_int ?iif)] else []"
  have "delivered ev \<le> 1 \<and> (here \<longrightarrow> delivered ev = 1 \<and> b)"
  proof (cases "here \<and> \<not> Ipv4Address_IsMulticast (ih_dst h) \<or> Ipv4_IsForwarding v ?iif = Some False")
    case True
    with assms(2) here show ?thesis
      by (auto simp: List_RouteInput_def Let_def elim!: bind_Some_elim split: if_splits)
  next
    case False
    with assms(2) here obtain ev2 where
      loop: "input_loop p h d (\<not> here) here (lr_protocols l) w = Some (b, ev2, w')" and
      ev: "ev = ?local @ ev2"
      by (auto simp: List_RouteInput_def Let_def elim!: bind_Some_elim split: if_splits)
    have "delivered ev2 \<le> (if \<not> here then 1 else 0)" by (rule input_loop_delivered [OF assms(1) loop])
    moreover have "here \<Longrightarrow> b" using loop input_loop_handled by auto
    ultimately show ?thesis using ev by auto
  qed
  with here show ?thesis by auto
qed

text \<open>\<open>RouteOutput\<close> answers with the first protocol that has a route: the protocols
  of greater priority, and those of the same priority that were added before, found none, and the
  error code of a success is cleared whatever they left in it.\<close>

theorem list_output_by_priority:
  assumes "List_AddRoutingProtocol r0 priority (l0, w0) = Some (l, w1)"
    and "List_RouteOutput l h oif w = Some (Some r, e, w')"
  shows "\<exists>pre x post w2. lr_protocols l = pre @ x # post \<and>
    output_loop h oif pre w = Some (None, NOROUTETOHOST, w2) \<and>
    rp_output (snd x) h oif w2 = Some (Some r, w') \<and> e = NOTERROR \<and>
    (\<forall>y \<in> set post. fst y \<le> fst x) \<and> (\<forall>y \<in> set pre. fst x \<le> fst y)"
proof -
  from output_first [OF assms(2) [unfolded List_RouteOutput_def]] obtain pre x post w2 where
    *: "lr_protocols l = pre @ x # post" "output_loop h oif pre w = Some (None, NOROUTETOHOST, w2)"
    "rp_output (snd x) h oif w2 = Some (Some r, w')" "e = NOTERROR" by blast
  moreover have "(\<forall>y \<in> set post. fst y \<le> fst x) \<and> (\<forall>y \<in> set pre. fst x \<le> fst y)"
    using add_sorted [OF assms(1)] *(1) by (simp add: sorted_wrt_append List_Compare_def not_less)
  ultimately show ?thesis by blast
qed

section \<open>Witnesses\<close>

text \<open>Two protocols: the empty static routing, of priority 0, and the table of the node, of priority -10.\<close>

type_synonym static_pair = "Ipv4StaticRouting \<times> Ipv4StaticRouting"

definition first_table :: "(unit, static_pair) routing_protocol" where
  "first_table = static_protocol router0 False fst (\<lambda>s (a, b). (s, b))"

definition second_table :: "(unit, static_pair) routing_protocol" where
  "second_table = static_protocol router0 False snd (\<lambda>s (a, b). (a, s))"

definition router_list_unbound :: "(unit, static_pair) Ipv4ListRouting" where
  "router_list_unbound = \<lparr>lr_protocols = [(0, first_table), (-10, second_table)], lr_bound = False\<rparr>"

definition router_list :: "(unit, static_pair) Ipv4ListRouting" where
  "router_list = router_list_unbound\<lparr>lr_bound := True\<rparr>"

definition tables0 :: static_pair where
  "tables0 = (StaticRouting_make\<lparr>sr_bound := True\<rparr>, table0)"

definition header_to :: "u32 \<Rightarrow> Ipv4Header" where
  "header_to dst = Ipv4Header_default\<lparr>ih_dst := dst\<rparr>"

theorem list_delivers_once_witness:
  "\<exists>ev. List_RouteInput router_list router0 False () (header_to 0x0a000001) 1 tables0 = Some (True, ev, tables0) \<and>
    delivered ev \<le> 1 \<and> delivered ev = 1"
proof -
  have contract: "\<forall>x \<in> set (lr_protocols router_list). input_protocol (rp_input (snd x))"
    by (simp add: router_list_def router_list_unbound_def first_table_def second_table_def static.input_protocol_axioms)
  have run: "List_RouteInput router_list router0 False () (header_to 0x0a000001) 1 tables0 =
      Some (True, [LocallyDelivered () 1], tables0)"
    by code_simp
  have "Ipv4_IsDestinationAddress router0 False (ih_dst (header_to 0x0a000001)) (Ipv4_GetInterfaceForDevice router0 (Some 1)) = Some True"
    by code_simp
  with list_delivers_once [OF contract run] have "delivered [LocallyDelivered () 1] \<le> 1 \<and> delivered [LocallyDelivered () 1] = 1"
    by blast
  with run show ?thesis by blast
qed

lemma second_protocol_has_route:
  "\<exists>r. List_RouteOutput router_list_unbound (header_to 0x0a010009) None tables0 = Some (Some r, NOTERROR, tables0)"
proof -
  have "List_RouteOutput router_list_unbound (header_to 0x0a010009) None tables0 =
    Some (Some (the (fst (the (Static_RouteOutput router0 (header_to 0x0a010009) None table0)))), NOTERROR, tables0)"
    by code_simp
  then show ?thesis by blast
qed

theorem list_output_by_priority_witness:
  "\<exists>r pre x post w2. lr_protocols router_list_unbound = pre @ x # post \<and>
    output_loop (header_to 0x0a010009) None pre tables0 = Some (None, NOROUTETOHOST, w2) \<and>
    rp_output (snd x) (header_to 0x0a010009) None w2 = Some (Some r, tables0) \<and> NOTERROR = NOTERROR \<and>
    (\<forall>y \<in> set post. fst y \<le> fst x) \<and> (\<forall>y \<in> set pre. fst x \<le> fst y)"
proof -
  obtain r where r: "List_RouteOutput router_list_unbound (header_to 0x0a010009) None tables0 =
      Some (Some r, NOTERROR, tables0)"
    using second_protocol_has_route by blast
  have "List_AddRoutingProtocol first_table 0 (ListRouting_make\<lparr>lr_protocols := [(-10, second_table)]\<rparr>, tables0) =
      Some (router_list_unbound, tables0)"
    by (simp add: List_AddRoutingProtocol_def ListRouting_make_def router_list_unbound_def)
  from list_output_by_priority [OF this r] show ?thesis by (intro exI [of _ r])
qed

end
