(* ===== verification/Ipv4_Fragments.thy ===== *)
theory Ipv4_Fragments
  imports Ipv4_Header
begin

text \<open>
  Fragmentation and reassembly of \<open>Ipv4L3Protocol\<close> (src/internet/model/ipv4-l3-protocol.cc): cutting a
  packet for a smaller MTU, collecting fragments per key with their time-outs, and putting the
  packet together. A packet is the list of its bytes.
\<close>

section \<open>Cutting\<close>

text \<open>
  \<^verbatim>\<open>Packet::CreateFragment\<close> with its 32-bit arguments: the buffer drops \<open>start\<close> bytes at the front
  and, counted on the whole size, what is beyond the fragment at the end (at most all).
\<close>

definition CreateFragment :: "u32 \<Rightarrow> u32 \<Rightarrow> u8 list \<Rightarrow> u8 list option" where
  "CreateFragment start len p =
     (let sz = word_of_nat (length p) :: u32;
          q = drop (unat start) p
      in do {
        ensure (sz \<ge> start + len);
        Some (take (length q - unat (sz - (start + len))) q)
      })"

definition fragment_size :: "u32 \<Rightarrow> ipv4_header \<Rightarrow> u32" where
  "fragment_size outIfaceMtu h = (outIfaceMtu - ucast (ih_headerSize h)) AND NOT 7"

text \<open>The header of one fragment of \<open>cur\<close> bytes at \<open>offset\<close>.\<close>

definition fragment_header :: "bool \<Rightarrow> bool \<Rightarrow> u16 \<Rightarrow> u32 \<Rightarrow> ipv4_header \<Rightarrow> ipv4_header option" where
  "fragment_header checksumEnabled moreFragment offset cur h =
     do {
       let h1 = (if moreFragment then Ih_SetMoreFragments h
                 else if \<not> Ih_IsLastFragment h then Ih_SetMoreFragments h else Ih_SetLastFragment h);
       h2 \<leftarrow> Ih_SetFragmentOffset (offset + ih_fragmentOffset h) h1;
       let h3 = h2\<lparr>ih_payloadSize := ucast cur\<rparr>;
       Some (if checksumEnabled then Ih_EnableChecksum h3 else h3)
     }"

text \<open>The loop; a fragment size of zero never ends it.\<close>

partial_function (option) fragment_loop ::
    "bool \<Rightarrow> u8 list \<Rightarrow> ipv4_header \<Rightarrow> u32 \<Rightarrow> u16 \<Rightarrow> (u8 list \<times> ipv4_header) list option" where
  "fragment_loop checksumEnabled p h fragmentSize offset =
     (let sz = word_of_nat (length p) :: u32;
          moreFragment = sz > ucast offset + fragmentSize;
          cur = (if moreFragment then fragmentSize else sz - ucast offset)
      in do {
        fragment \<leftarrow> CreateFragment (ucast offset) cur p;
        fragmentHeader \<leftarrow> fragment_header checksumEnabled moreFragment offset cur h;
        if moreFragment then do {
          listFragments \<leftarrow> fragment_loop checksumEnabled p h fragmentSize (offset + ucast cur);
          Some ((fragment, fragmentHeader) # listFragments)
        }
        else Some [(fragment, fragmentHeader)]
      })"

declare fragment_loop.simps [code]

definition DoFragmentation ::
    "bool \<Rightarrow> u8 list \<Rightarrow> ipv4_header \<Rightarrow> u32 \<Rightarrow> (u8 list \<times> ipv4_header) list option" where
  "DoFragmentation checksumEnabled packet h outIfaceMtu =
     do {
       ensure (ih_headerSize h = 20);
       fragment_loop checksumEnabled packet h (fragment_size outIfaceMtu h) 0
     }"

section \<open>Collecting\<close>

record Fragments =
  fr_fragments :: "(u8 list \<times> u16) list"
  fr_moreFragment :: bool
  fr_timeoutIter :: nat

definition Fragments_make :: Fragments where
  "Fragments_make = \<lparr>fr_fragments = [], fr_moreFragment = False, fr_timeoutIter = 0\<rparr>"

definition AddFragment :: "u8 list \<Rightarrow> u16 \<Rightarrow> bool \<Rightarrow> Fragments \<Rightarrow> Fragments" where
  "AddFragment fragment fragmentOffset moreFragment f =
     (let pre = takeWhile (\<lambda>x. \<not> snd x > fragmentOffset) (fr_fragments f);
          post = dropWhile (\<lambda>x. \<not> snd x > fragmentOffset) (fr_fragments f)
      in f\<lparr>fr_moreFragment := (if post = [] then moreFragment else fr_moreFragment f),
           fr_fragments := pre @ (fragment, fragmentOffset) # post\<rparr>)"

fun entire_loop :: "u16 \<Rightarrow> (u8 list \<times> u16) list \<Rightarrow> bool" where
  "entire_loop lastEndOffset [] = True"
| "entire_loop lastEndOffset ((p, q) # l) =
     (if lastEndOffset < q then False
      else let fragmentEnd = word_of_nat (length p) + q in entire_loop (max lastEndOffset fragmentEnd) l)"

definition IsEntire :: "Fragments \<Rightarrow> bool" where
  "IsEntire f = (if \<not> fr_moreFragment f \<and> fr_fragments f \<noteq> [] then entire_loop 0 (fr_fragments f) else False)"

fun packet_loop :: "u8 list \<Rightarrow> u16 \<Rightarrow> (u8 list \<times> u16) list \<Rightarrow> u8 list option" where
  "packet_loop p lastEndOffset [] = Some p"
| "packet_loop p lastEndOffset ((f, q) # l) =
     do {
       p \<leftarrow> (if lastEndOffset > q then
               let newStart = ucast (lastEndOffset - q) :: u32 in
               if word_of_nat (length f) > newStart then do {
                 tempFragment \<leftarrow> CreateFragment newStart (word_of_nat (length f) - newStart) f;
                 Some (p @ tempFragment)
               } else Some p
             else Some (p @ f));
       packet_loop p (word_of_nat (length p)) l
     }"

definition GetPacket :: "Fragments \<Rightarrow> u8 list option" where
  "GetPacket f =
     (case fr_fragments f of
        [] \<Rightarrow> None
      | (p, q) # l \<Rightarrow> packet_loop p (word_of_nat (length p)) l)"

fun partial_loop :: "u8 list \<Rightarrow> u16 \<Rightarrow> (u8 list \<times> u16) list \<Rightarrow> u8 list option" where
  "partial_loop p lastEndOffset [] = Some p"
| "partial_loop p lastEndOffset ((f, q) # l) =
     do {
       p \<leftarrow> (if lastEndOffset > q then
               let newStart = ucast (lastEndOffset - q) :: u32;
                   newSize = word_of_nat (length f) - newStart
               in do {
                 tempFragment \<leftarrow> CreateFragment newStart newSize f;
                 Some (p @ tempFragment)
               }
             else if lastEndOffset = q then Some (p @ f) else Some p);
       partial_loop p (word_of_nat (length p)) l
     }"

definition GetPartialPacket :: "Fragments \<Rightarrow> u8 list option" where
  "GetPartialPacket f =
     (case fr_fragments f of
        [] \<Rightarrow> None
      | (p, q) # l \<Rightarrow> if q > 0 then Some [] else partial_loop [] 0 (fr_fragments f))"

section \<open>The fragments of a node and their time-outs\<close>

text \<open>
  \<^verbatim>\<open>FragmentKey_t\<close>, and an element of \<open>m_timeoutEventList\<close>; an iterator into this list is the number
  of the element. \<open>fs_pending\<close> holds the times at which a call of \<open>HandleTimeout\<close> is scheduled.
\<close>

type_synonym fragment_key = "u64 \<times> u32"

record timeout_entry =
  te_iter :: nat
  te_time :: time
  te_key :: fragment_key
  te_header :: ipv4_header
  te_iif :: u32

record fragment_state =
  fs_fragments :: "fragment_key \<rightharpoonup> Fragments"
  fs_timeoutEventList :: "timeout_entry list"
  fs_nextIter :: nat
  fs_pending :: "time list"
  fs_expiration :: time

definition Fragment_make :: "time \<Rightarrow> fragment_state" where
  "Fragment_make expiration =
     \<lparr>fs_fragments = Map.empty, fs_timeoutEventList = [], fs_nextIter = 0, fs_pending = [],
      fs_expiration = expiration\<rparr>"

definition SetTimeout ::
    "time \<Rightarrow> fragment_key \<Rightarrow> ipv4_header \<Rightarrow> u32 \<Rightarrow> fragment_state \<Rightarrow> nat \<times> fragment_state" where
  "SetTimeout now key h iif s =
     (let s = (if fs_timeoutEventList s = []
               then s\<lparr>fs_pending := fs_pending s @ [now + fs_expiration s]\<rparr> else s);
          iter = fs_nextIter s;
          e = \<lparr>te_iter = iter, te_time = now + fs_expiration s, te_key = key, te_header = h, te_iif = iif\<rparr>
      in (iter, s\<lparr>fs_timeoutEventList := fs_timeoutEventList s @ [e], fs_nextIter := Suc iter\<rparr>))"

definition fragment_key_of :: "ipv4_header \<Rightarrow> fragment_key" where
  "fragment_key_of h =
     (push_bit 32 (ucast (ih_src h)) OR ucast (ih_dst h),
      push_bit 16 (ucast (ih_identification h)) OR ucast (ih_protocol h))"

text \<open>\<open>ProcessFragment\<close>: the complete packet, if the fragment completes it. Erasing a stale iterator is undefined.\<close>

definition ProcessFragment ::
    "time \<Rightarrow> u8 list \<Rightarrow> ipv4_header \<Rightarrow> u32 \<Rightarrow> fragment_state \<Rightarrow> (u8 list option \<times> fragment_state) option" where
  "ProcessFragment now packet h iif s =
     (let key = fragment_key_of h;
          (fragments, s) =
            (case fs_fragments s key of
               None \<Rightarrow> let (iter, s) = SetTimeout now key h iif s in (Fragments_make\<lparr>fr_timeoutIter := iter\<rparr>, s)
             | Some fragments \<Rightarrow> (fragments, s));
          fragments = AddFragment packet (ih_fragmentOffset h) (\<not> Ih_IsLastFragment h) fragments;
          s = s\<lparr>fs_fragments := (fs_fragments s)(key \<mapsto> fragments)\<rparr>
      in if IsEntire fragments then do {
           packet \<leftarrow> GetPacket fragments;
           ensure (fr_timeoutIter fragments \<in> te_iter ` set (fs_timeoutEventList s));
           Some (Some packet,
             s\<lparr>fs_timeoutEventList := filter (\<lambda>e. te_iter e \<noteq> fr_timeoutIter fragments) (fs_timeoutEventList s),
               fs_fragments := (fs_fragments s)(key := None)\<rparr>)
         }
         else Some (None, s))"

datatype timeout_effect =
  TimeExceeded ipv4_header "u8 list"
| FragmentTimeout ipv4_header "u8 list" u32

text \<open>\<open>hasIcmp\<close> says whether the node has an ICMP protocol; without one the call is on a null pointer.\<close>

definition HandleFragmentsTimeout ::
    "bool \<Rightarrow> fragment_key \<Rightarrow> ipv4_header \<Rightarrow> u32 \<Rightarrow> fragment_state \<Rightarrow> (timeout_effect list \<times> fragment_state) option" where
  "HandleFragmentsTimeout hasIcmp key h iif s =
     do {
       fragments \<leftarrow> fs_fragments s key;
       packet \<leftarrow> GetPartialPacket fragments;
       let big = (word_of_nat (length packet) :: u32) > 8;
       ensure (big \<longrightarrow> hasIcmp);
       Some ((if big then [TimeExceeded h packet] else []) @ [FragmentTimeout h packet iif],
         s\<lparr>fs_fragments := (fs_fragments s)(key := None)\<rparr>)
     }"

fun timeout_loop ::
    "bool \<Rightarrow> time \<Rightarrow> timeout_entry list \<Rightarrow> fragment_state \<Rightarrow> (timeout_effect list \<times> fragment_state) option" where
  "timeout_loop hasIcmp now [] s = Some ([], s\<lparr>fs_timeoutEventList := []\<rparr>)"
| "timeout_loop hasIcmp now (e # l) s =
     (if te_time e = now then do {
        (fx, s) \<leftarrow> HandleFragmentsTimeout hasIcmp (te_key e) (te_header e) (te_iif e) s;
        (fx', s) \<leftarrow> timeout_loop hasIcmp now l s;
        Some (fx @ fx', s)
      }
      else Some ([], s\<lparr>fs_timeoutEventList := e # l\<rparr>))"

text \<open>\<open>HandleTimeout\<close>, run by the simulator at one of the pending times.\<close>

definition HandleTimeout ::
    "bool \<Rightarrow> time \<Rightarrow> fragment_state \<Rightarrow> (timeout_effect list \<times> fragment_state) option" where
  "HandleTimeout hasIcmp now s =
     do {
       (fx, s) \<leftarrow> timeout_loop hasIcmp now (fs_timeoutEventList s) s;
       case fs_timeoutEventList s of
         [] \<Rightarrow> Some (fx, s)
       | e # l \<Rightarrow> let difference = te_time e - now
                  in Some (fx, s\<lparr>fs_pending := fs_pending s @ [now + difference]\<rparr>)
     }"

end
