(* ===== verification/Ipv4_Reassembly.thy ===== *)
theory Ipv4_Reassembly
  imports Ipv4_Fragments
begin

text \<open>
  Cutting a packet yields tiles of it, cutting a tile again yields tiles, and collecting tiles in any
  order, also repeatedly, gives the packet back when the last of them arrives and not before.
\<close>

section \<open>Machine arithmetic of fragments\<close>

lemma and7_iff: "w AND 7 = 0 \<longleftrightarrow> 8 dvd unat w" for w :: u16
proof -
  have "(7 :: u16) = mask 3" by (simp add: mask_eq_exp_minus_1)
  then have "w AND 7 = take_bit 3 w" by (simp add: take_bit_eq_mask)
  also have "\<dots> = w mod 8" by (simp add: take_bit_eq_mod)
  finally have "w AND 7 = w mod 8" .
  moreover have "unat (w mod 8) = unat w mod 8" by (simp add: unat_mod)
  ultimately show ?thesis by (metis dvd_eq_mod_eq_0 unat_0 unat_eq_zero)
qed

lemma unat_len32: "n < 65536 \<Longrightarrow> unat (word_of_nat n :: u32) = n"
  by (simp add: unsigned_of_nat take_bit_nat_eq_self)

lemma unat_len16: "n < 65536 \<Longrightarrow> unat (word_of_nat n :: u16) = n"
  by (simp add: unsigned_of_nat take_bit_nat_eq_self)

lemma unat_u16: "unat (w :: u16) < 65536"
  using unsigned_less [of w, where ?'a = nat] by simp

lemma unat_ucast16 [simp]: "unat (ucast (w :: u16) :: u32) = unat w"
proof -
  have "unat w < 2 ^ 32" by (rule less_trans [OF unat_u16]) simp
  then show ?thesis by (simp add: unsigned_ucast_eq take_bit_nat_eq_self)
qed

lemma unat_add32: "unat a + unat b < 2 ^ 32 \<Longrightarrow> unat (a + b :: u32) = unat a + unat b"
  by (simp add: unat_word_ariths)

lemma unat_add16: "unat a + unat b < 65536 \<Longrightarrow> unat (a + b :: u16) = unat a + unat b"
  by (simp add: unat_word_ariths)

lemma CreateFragment_valid:
  assumes "unat s + unat l \<le> length p" and "length p < 65536"
  shows "CreateFragment s l p = Some (take (unat l) (drop (unat s) p))"
proof -
  have sl: "unat (s + l) = unat s + unat l" using assms by (intro unat_add32) simp
  have sz: "unat (word_of_nat (length p) :: u32) = length p" by (rule unat_len32 [OF assms(2)])
  have le: "s + l \<le> word_of_nat (length p)" unfolding word_le_nat_alt sl sz by (rule assms(1))
  then have "unat (word_of_nat (length p) - (s + l)) = length p - (unat s + unat l)"
    using sl sz by (simp add: unat_sub)
  with le assms(1) show ?thesis by (simp add: CreateFragment_def Let_def)
qed

section \<open>Tiles\<close>

text \<open>A fragment as its bytes, its offset and whether more fragments follow.\<close>

type_synonym tile = "u8 list \<times> nat \<times> bool"

definition tile_of :: "u8 list \<times> ipv4_header \<Rightarrow> tile" where
  "tile_of x = (fst x, unat (ih_fragmentOffset (snd x)), \<not> Ih_IsLastFragment (snd x))"

text \<open>Tiles of the bytes \<open>data\<close> at offset \<open>q\<close> of a datagram that goes on afterwards when \<open>m\<close>.\<close>

fun tiles :: "nat \<Rightarrow> bool \<Rightarrow> u8 list \<Rightarrow> tile list \<Rightarrow> bool" where
  "tiles q m data [] \<longleftrightarrow> False"
| "tiles q m data ((f, r, b) # ts) \<longleftrightarrow> r = q \<and> f \<noteq> [] \<and>
     (if ts = [] then f = data \<and> b = m
      else b \<and> f = take (length f) data \<and> tiles (q + length f) m (drop (length f) data) ts)"

lemma tiles_bytes: "tiles q m data ts \<Longrightarrow> concat (map fst ts) = data \<and> data \<noteq> []"
proof (induction ts arbitrary: q data)
  case (Cons t ts)
  obtain f r b where t: "t = (f, r, b)" by (cases t)
  show ?case
  proof (cases "ts = []")
    case False
    with Cons t have "concat (map fst ts) = drop (length f) data" and f: "f = take (length f) data" "f \<noteq> []"
      by auto
    then have "concat (map fst (t # ts)) = take (length f) data @ drop (length f) data" using t by simp
    then have "concat (map fst (t # ts)) = data" by (simp only: append_take_drop_id)
    with f show ?thesis by auto
  qed (use Cons.prems t in auto)
qed simp

text \<open>Cutting one tile again, on a later hop, yields tiles.\<close>

lemma tiles_append:
  "tiles q True a ts \<Longrightarrow> us \<noteq> [] \<Longrightarrow> tiles (q + length a) m b us \<Longrightarrow> tiles q m (a @ b) (ts @ us)"
proof (induction ts arbitrary: q a)
  case (Cons t ts)
  obtain f r x where t: "t = (f, r, x)" by (cases t)
  show ?case
  proof (cases "ts = []")
    case True
    with Cons.prems t show ?thesis by auto
  next
    case False
    with Cons.prems t have p: "r = q" "f \<noteq> []" "x" "f = take (length f) a" "tiles (q + length f) True (drop (length f) a) ts"
      by simp_all
    have len: "length f \<le> length a" using p(4) by (metis length_take min.cobounded1 min_def nat_le_linear take_all)
    have "tiles (q + length f + length (drop (length f) a)) m b us" using Cons.prems(3) len by simp
    from Cons.IH [OF p(5) Cons.prems(2) this] show ?thesis using p t False len by simp
  qed
qed simp

lemma tiles_refine:
  "tiles q m data (xs @ (f, r, b) # ys) \<Longrightarrow> tiles r b f gs \<Longrightarrow> tiles q m data (xs @ gs @ ys)"
proof (induction xs arbitrary: q data)
  case Nil
  show ?case
  proof (cases "ys = []")
    case False
    with Nil.prems have p: "r = q" "b" "f = take (length f) data" "tiles (q + length f) m (drop (length f) data) ys" by simp_all
    with Nil.prems(2) have "tiles q True f gs" by simp
    from tiles_append [OF this False p(4)] have "tiles q m (f @ drop (length f) data) (gs @ ys)" .
    moreover have "f @ drop (length f) data = data" using p(3) by (metis append_take_drop_id)
    ultimately show ?thesis by simp
  qed (use Nil.prems in auto)
next
  case (Cons x xs)
  obtain g s c where x: "x = (g, s, c)" by (cases x)
  have "gs \<noteq> []" using Cons.prems(2) by auto
  with Cons x show ?case by auto
qed

section \<open>Cutting yields tiles\<close>

definition same_packet :: "ipv4_header \<Rightarrow> ipv4_header \<Rightarrow> bool" where
  "same_packet h h' \<longleftrightarrow> ih_src h' = ih_src h \<and> ih_dst h' = ih_dst h \<and> ih_ttl h' = ih_ttl h \<and>
     ih_protocol h' = ih_protocol h \<and> ih_identification h' = ih_identification h \<and> ih_tos h' = ih_tos h \<and>
     ih_flags h' AND DONT_FRAGMENT = ih_flags h AND DONT_FRAGMENT \<and> ih_headerSize h' = ih_headerSize h"

lemma fragment_header_valid:
  assumes "8 dvd unat offset" and "8 dvd unat (ih_fragmentOffset h)"
    and "unat offset + unat (ih_fragmentOffset h) < 65536"
  shows "\<exists>h'. fragment_header ck moreFragment offset cur h = Some h' \<and> same_packet h h' \<and>
    unat (ih_fragmentOffset h') = unat (ih_fragmentOffset h) + unat offset \<and>
    (\<not> Ih_IsLastFragment h' \<longleftrightarrow> moreFragment \<or> \<not> Ih_IsLastFragment h) \<and> ih_payloadSize h' = ucast cur"
proof -
  let ?h1 = "if moreFragment then Ih_SetMoreFragments h
    else if \<not> Ih_IsLastFragment h then Ih_SetMoreFragments h else Ih_SetLastFragment h"
  have off: "unat (offset + ih_fragmentOffset h) = unat (ih_fragmentOffset h) + unat offset"
    using assms(3) by (simp add: unat_add16)
  then have "(offset + ih_fragmentOffset h) AND 7 = 0" using assms(1,2) by (simp add: and7_iff)
  moreover have flags: "(f OR MORE_FRAGMENTS) AND MORE_FRAGMENTS \<noteq> 0" "(f AND NOT MORE_FRAGMENTS) AND MORE_FRAGMENTS = 0"
    "(f OR MORE_FRAGMENTS) AND DONT_FRAGMENT = f AND DONT_FRAGMENT"
    "(f AND NOT MORE_FRAGMENTS) AND DONT_FRAGMENT = f AND DONT_FRAGMENT" for f
  proof -
    have m: "MORE_FRAGMENTS = push_bit 1 1" "DONT_FRAGMENT = push_bit 0 1"
      by (simp_all add: MORE_FRAGMENTS_def DONT_FRAGMENT_def)
    show "(f OR MORE_FRAGMENTS) AND MORE_FRAGMENTS \<noteq> 0"
      by (simp only: m and_push_bit_1) (simp add: bit_simps)
    show "(f AND NOT MORE_FRAGMENTS) AND MORE_FRAGMENTS = 0" by (simp add: and.assoc)
    show "(f OR MORE_FRAGMENTS) AND DONT_FRAGMENT = f AND DONT_FRAGMENT"
      "(f AND NOT MORE_FRAGMENTS) AND DONT_FRAGMENT = f AND DONT_FRAGMENT"
      by (rule bit_word_eqI; auto simp: m bit_simps)+
  qed
  ultimately show ?thesis
    using off
    by (auto simp: fragment_header_def Ih_SetFragmentOffset_def same_packet_def Ih_SetMoreFragments_def
        Ih_SetLastFragment_def Ih_IsLastFragment_def Ih_EnableChecksum_def Let_def)
qed

lemma fragment_loop_tiles:
  assumes "length p < 65536 - unat (ih_fragmentOffset h)" and "8 dvd unat (ih_fragmentOffset h)"
    and "0 < unat fs" and "8 dvd unat fs" and "unat fs < 65536"
    and "8 dvd unat q" and "unat q < length p"
  shows "\<exists>frs. fragment_loop ck p h fs q = Some frs \<and>
    tiles (unat (ih_fragmentOffset h) + unat q) (\<not> Ih_IsLastFragment h) (drop (unat q) p) (map tile_of frs) \<and>
    (\<forall>x \<in> set frs. length (fst x) \<le> unat fs \<and> same_packet h (snd x) \<and> 8 dvd unat (ih_fragmentOffset (snd x)) \<and>
      ih_payloadSize (snd x) = word_of_nat (length (fst x)))"
  using assms(6,7)
proof (induction "length p - unat q" arbitrary: q rule: less_induct)
  case less
  let ?sz = "word_of_nat (length p) :: u32"
  have len: "length p < 65536" using assms(1) by linarith
  have sz: "unat ?sz = length p" by (rule unat_len32 [OF len])
  have sum0: "unat (ucast q + fs) = unat q + unat fs"
  proof -
    have "unat (ucast q :: u32) + unat fs < 2 ^ 32" using assms(5) unat_u16 [of q] by simp
    then show ?thesis by (simp add: unat_add32)
  qed
  have moreF: "?sz > ucast q + fs \<longleftrightarrow> unat q + unat fs < length p"
    by (simp only: word_less_nat_alt sum0 sz)
  have hdr: "\<exists>h'. fragment_header ck m q cur h = Some h' \<and> same_packet h h' \<and>
    unat (ih_fragmentOffset h') = unat (ih_fragmentOffset h) + unat q \<and>
    (\<not> Ih_IsLastFragment h' \<longleftrightarrow> m \<or> \<not> Ih_IsLastFragment h) \<and> ih_payloadSize h' = ucast cur" for m cur
    using assms(1,2) less.prems by (intro fragment_header_valid) simp_all
  show ?case
  proof (cases "unat q + unat fs < length p")
    case True
    let ?q = "q + ucast fs"
    have fs16: "unat (ucast fs :: u16) = unat fs"
      using assms(5) by (simp add: unsigned_ucast_eq take_bit_nat_eq_self)
    have q: "unat ?q = unat q + unat fs" using True len fs16 by (subst unat_add16) simp_all
    then have "8 dvd unat ?q" "unat ?q < length p" "length p - unat ?q < length p - unat q"
      using less.prems assms(3,4) True by auto
    from less.hyps [OF this(3,1,2)] obtain frs where
      frs: "fragment_loop ck p h fs ?q = Some frs"
        "tiles (unat (ih_fragmentOffset h) + unat ?q) (\<not> Ih_IsLastFragment h) (drop (unat ?q) p) (map tile_of frs)"
        "\<forall>x \<in> set frs. length (fst x) \<le> unat fs \<and> same_packet h (snd x) \<and> 8 dvd unat (ih_fragmentOffset (snd x)) \<and>
          ih_payloadSize (snd x) = word_of_nat (length (fst x))"
      by blast
    let ?f = "take (unat fs) (drop (unat q) p)"
    have cf: "CreateFragment (ucast q) fs p = Some ?f"
      using True len by (subst CreateFragment_valid) simp_all
    have lf: "length ?f = unat fs" using True by simp
    obtain h' where h': "fragment_header ck True q fs h = Some h'" "same_packet h h'"
      "unat (ih_fragmentOffset h') = unat (ih_fragmentOffset h) + unat q" "\<not> Ih_IsLastFragment h'"
      "ih_payloadSize h' = ucast fs" using hdr [of True fs] by blast
    have loop: "fragment_loop ck p h fs q = Some ((?f, h') # frs)"
      using True moreF cf h'(1) frs(1) by (simp add: fragment_loop.simps [of ck p h fs q] Let_def)
    have "frs \<noteq> []" using frs(2) by auto
    then have "tiles (unat (ih_fragmentOffset h) + unat q) (\<not> Ih_IsLastFragment h) (drop (unat q) p) (map tile_of ((?f, h') # frs))"
      using frs(2) h'(3,4) lf assms(3) q less.prems(2) by (simp add: tile_of_def ac_simps)
    moreover have "ucast fs = (word_of_nat (unat fs) :: u16)" by (simp add: word_unat_eq_iff fs16)
    ultimately show ?thesis using loop frs(3) h'(2,3,5) lf assms(2) less.prems(1) by (intro exI [of _ "(?f, h') # frs"]) simp
  next
    case False
    let ?f = "drop (unat q) p"
    have cur: "unat (?sz - ucast q) = length p - unat q"
      using less.prems(2) sz by (simp add: unat_sub word_le_nat_alt)
    have cf: "CreateFragment (ucast q) (?sz - ucast q) p = Some ?f"
      using less.prems(2) len cur by (subst CreateFragment_valid) simp_all
    obtain h' where h': "fragment_header ck False q (?sz - ucast q) h = Some h'" "same_packet h h'"
      "unat (ih_fragmentOffset h') = unat (ih_fragmentOffset h) + unat q"
      "\<not> Ih_IsLastFragment h' \<longleftrightarrow> \<not> Ih_IsLastFragment h" "ih_payloadSize h' = ucast (?sz - ucast q)"
      using hdr [of False "?sz - ucast q"] by blast
    have loop: "fragment_loop ck p h fs q = Some [(?f, h')]"
      using False moreF cf h'(1) by (simp add: fragment_loop.simps [of ck p h fs q] Let_def)
    have "unat (ucast (?sz - ucast q) :: u16) = length p - unat q"
      using cur len by (simp add: unsigned_ucast_eq take_bit_nat_eq_self)
    moreover have "unat (word_of_nat (length p - unat q) :: u16) = length p - unat q"
      using len by (intro unat_len16) simp
    ultimately have "(ucast (?sz - ucast q) :: u16) = word_of_nat (length ?f)"
      by (simp only: word_unat_eq_iff length_drop)
    with loop h' less.prems False assms(2) show ?thesis by (simp add: tile_of_def)
  qed
qed

section \<open>Cutting and not returning\<close>

lemma fragment_size_unat:
  assumes "ih_headerSize h = 20" and "20 \<le> unat mtu"
  shows "unat (fragment_size mtu h) = (unat mtu - 20) div 8 * 8"
proof -
  have seven: "(7 :: u32) = mask 3" by (simp add: mask_eq_exp_minus_1)
  have w: "w AND NOT 7 = push_bit 3 (drop_bit 3 w)" for w :: u32
    unfolding seven by (rule bit_word_eqI) (auto simp: bit_simps)
  have m: "unat (mtu - 20) = unat mtu - 20" using assms(2) by (simp add: unat_sub word_le_nat_alt)
  have d: "unat (drop_bit 3 (mtu - 20)) = (unat mtu - 20) div 8" by (simp add: drop_bit_eq_div unat_div m)
  have "unat (drop_bit 3 (mtu - 20)) * 8 < 2 ^ 32"
    unfolding d using unsigned_less [of mtu, where ?'a = nat] by (simp add: le_less_trans)
  then have "unat (push_bit 3 (drop_bit 3 (mtu - 20))) = unat (drop_bit 3 (mtu - 20)) * 8"
    by (simp add: push_bit_eq_mult unat_word_ariths)
  moreover have "(ucast (ih_headerSize h) :: u32) = 20" using assms(1) by simp
  ultimately show ?thesis using d by (simp only: fragment_size_def w)
qed

text \<open>Below an MTU of 28 the fragment size is zero and the loop repeats the same fragment for ever.\<close>

lemma fragment_size_zero:
  assumes "ih_headerSize h = 20" and "20 \<le> unat mtu" and "unat mtu < 28"
  shows "fragment_size mtu h = 0"
proof -
  have "unat (fragment_size mtu h) = 0" using fragment_size_unat [OF assms(1,2)] assms(3) by simp
  then show ?thesis by (simp only: unat_eq_zero)
qed

lemma fragment_loop_diverges:
  assumes "length p < 65536" and "unat q < length p"
  shows "fragment_loop ck p h 0 q = None"
proof (rule ccontr)
  assume "fragment_loop ck p h 0 q \<noteq> None"
  then obtain frs where "fragment_loop ck p h 0 q = Some frs" by blast
  moreover have "length p < 65536 \<longrightarrow> unat q < length p \<longrightarrow> fs = 0 \<longrightarrow> False"
    if "fragment_loop ck p h fs q = Some frs" for fs
    using that
  proof (rule fragment_loop.raw_induct [rotated, where P = "\<lambda>ck p h fs q frs. length p < 65536 \<longrightarrow> unat q < length p \<longrightarrow> fs = 0 \<longrightarrow> False"])
    fix loop ck' h' p' fs' q' frs'
    assume IH: "\<And>ck p h fs q frs. loop ck p h fs q = Some frs \<Longrightarrow>
        length (p :: u8 list) < 65536 \<longrightarrow> unat q < length p \<longrightarrow> fs = 0 \<longrightarrow> False"
      and body: "(let sz = word_of_nat (length p'); moreFragment = ucast q' + fs' < sz; cur = if moreFragment then fs' else sz - ucast q'
        in do {
          fragment \<leftarrow> CreateFragment (ucast q') cur p';
          fragmentHeader \<leftarrow> fragment_header ck' moreFragment q' cur h';
          if moreFragment then do {
            listFragments \<leftarrow> loop ck' p' h' fs' (q' + ucast cur);
            Some ((fragment, fragmentHeader) # listFragments)
          }
          else Some [(fragment, fragmentHeader)]
        }) = Some frs'"
    show "length p' < 65536 \<longrightarrow> unat q' < length p' \<longrightarrow> fs' = 0 \<longrightarrow> False"
    proof (intro impI)
      assume p: "length p' < 65536" "unat q' < length p'" "fs' = 0"
      have "ucast q' < (word_of_nat (length p') :: u32)"
        using p by (simp add: word_less_nat_alt unat_len32)
      with body p(3) obtain frs1 where "loop ck' p' h' fs' q' = Some frs1"
        by (auto simp: Let_def elim!: bind_Some_elim)
      from IH [OF this] p show False by simp
    qed
  qed
  ultimately show False using assms by blast
qed

end
