(* ===== verification/Ipv4_Collect.thy ===== *)
theory Ipv4_Collect
  imports Ipv4_Reassembly
begin

text \<open>
  Collecting tiles (\<open>Ipv4_Reassembly\<close>) with \<open>AddFragment\<close>, \<open>IsEntire\<close> and \<open>GetPacket\<close>: what the list of
  stored fragments says about the tiles received, and that it is entire exactly when they cover the packet.
\<close>

definition stored :: "tile \<Rightarrow> u8 list \<times> u16" where
  "stored t = (fst t, word_of_nat (fst (snd t)))"

lemma stored_tile_of: "stored (tile_of x) = (fst x, ih_fragmentOffset (snd x))"
  by (simp add: stored_def tile_of_def)

lemma tiles_bounds:
  "tiles q m data ts \<Longrightarrow> (f, r, b) \<in> set ts \<Longrightarrow> q \<le> r \<and> r + length f \<le> q + length data \<and> f \<noteq> []"
proof (induction ts arbitrary: q data)
  case (Cons t ts)
  obtain g s c where t: "t = (g, s, c)" by (cases t)
  show ?case
  proof (cases "ts = []")
    case False
    with Cons.prems(1) t have p: "s = q" "g \<noteq> []" "g = take (length g) data" "tiles (q + length g) m (drop (length g) data) ts"
      by simp_all
    have len: "length g \<le> length data" using p(3) by (metis length_take min.cobounded1 min_def nat_le_linear take_all)
    show ?thesis
    proof (cases "(f, r, b) = t")
      case True
      with t p(1,2) len show ?thesis by simp
    next
      case False
      with Cons.prems(2) have "(f, r, b) \<in> set ts" by auto
      from Cons.IH [OF p(4) this] len show ?thesis by auto
    qed
  qed (use Cons.prems t in auto)
qed simp

text \<open>The first tile and the others; what is stored of them is told apart by the offset.\<close>

lemma tiles_first:
  assumes "tiles q m data (t # ts)"
  shows "\<exists>f b. t = (f, q, b) \<and> f \<noteq> [] \<and> length f \<le> length data \<and> f = take (length f) data \<and>
    (ts \<noteq> [] \<longrightarrow> b \<and> tiles (q + length f) m (drop (length f) data) ts) \<and> (ts = [] \<longrightarrow> f = data \<and> b = m)"
proof -
  obtain f r b where t: "t = (f, r, b)" by (cases t)
  with assms have f: "r = q" "f \<noteq> []" "f = take (length f) data" by (auto split: if_splits)
  have "length f \<le> length data" using f(3) by (metis length_take min.cobounded1 min_def nat_le_linear take_all)
  with assms t f show ?thesis by (auto split: if_splits)
qed

lemma stored_later:
  assumes "tiles q m data ts" and "q + length data < 65536" and "x \<in> stored ` set ts"
  shows "q \<le> unat (snd x)"
proof -
  from assms(3) obtain f r b where x: "(f, r, b) \<in> set ts" "x = (f, word_of_nat r)"
    by (auto simp: stored_def)
  from tiles_bounds [OF assms(1) x(1)] assms(2) x(2) show ?thesis by (simp add: unat_len16)
qed

lemma stored_first_notin:
  assumes "tiles q m data (t # ts)" and "q + length data < 65536"
  shows "stored t \<notin> stored ` set ts"
proof
  assume a: "stored t \<in> stored ` set ts"
  obtain f b where t: "t = (f, q, b)" "f \<noteq> []" "length f \<le> length data"
      "ts \<noteq> [] \<longrightarrow> b \<and> tiles (q + length f) m (drop (length f) data) ts"
    using tiles_first [OF assms(1)] by blast
  from a have "ts \<noteq> []" by auto
  with t(4) have "tiles (q + length f) m (drop (length f) data) ts" by simp
  from stored_later [OF this _ a] assms(2) t(1-3) show False by (simp add: stored_def unat_len16)
qed

lemma stored_inj:
  "tiles q m data ts \<Longrightarrow> q + length data < 65536 \<Longrightarrow> inj_on stored (set ts) \<and> distinct ts"
proof (induction ts arbitrary: q data)
  case (Cons t ts)
  obtain f b where t: "t = (f, q, b)" "f \<noteq> []" "length f \<le> length data"
      "ts \<noteq> [] \<longrightarrow> b \<and> tiles (q + length f) m (drop (length f) data) ts"
    using tiles_first [OF Cons.prems(1)] by blast
  have "inj_on stored (set ts) \<and> distinct ts"
    using Cons.IH [of "q + length f" "drop (length f) data"] t Cons.prems(2) by (cases "ts = []") auto
  moreover have "t \<notin> set ts" using stored_first_notin [OF Cons.prems] by auto
  ultimately show ?case using stored_first_notin [OF Cons.prems] by (auto simp: inj_on_insert)
qed simp

text \<open>A sorted list of stored tiles starts with the copies of the first tile.\<close>

lemma split_first:
  assumes "tiles q m data (t # ts)" and "q + length data < 65536"
  shows "sorted (map snd l) \<Longrightarrow> set l \<subseteq> stored ` set (t # ts) \<Longrightarrow>
    \<exists>n l2. l = replicate n (stored t) @ l2 \<and> set l2 \<subseteq> stored ` set ts \<and> sorted (map snd l2)"
proof (induction l)
  case Nil
  show ?case by (intro exI [of _ 0] exI [of _ "[]"]) simp
next
  case (Cons x l)
  then obtain n l2 where IH: "l = replicate n (stored t) @ l2" "set l2 \<subseteq> stored ` set ts" "sorted (map snd l2)"
    by auto
  show ?case
  proof (cases "x = stored t")
    case True
    with IH show ?thesis by (intro exI [of _ "Suc n"] exI [of _ l2]) simp
  next
    case False
    with Cons.prems(2) have x: "x \<in> stored ` set ts" by auto
    obtain f b where t: "t = (f, q, b)" "f \<noteq> []" "length f \<le> length data"
        "ts \<noteq> [] \<longrightarrow> b \<and> tiles (q + length f) m (drop (length f) data) ts"
    using tiles_first [OF assms(1)] by blast
    from x have "ts \<noteq> []" by auto
    with t(4) have later: "tiles (q + length f) m (drop (length f) data) ts" by simp
    have "q + length f \<le> unat (snd x)" using stored_later [OF later _ x] assms(2) t(3) by simp
    moreover have "0 < length f" using t(2) by simp
    ultimately have "q < unat (snd x)" by linarith
    then have "stored t \<notin> set l"
      using Cons.prems(1) t(1) assms(2) by (auto simp: stored_def word_le_nat_alt unat_len16)
    with Cons.prems(2) x have "set (x # l) \<subseteq> stored ` set ts" by auto
    with Cons.prems(1) show ?thesis by (intro exI [of _ 0] exI [of _ "x # l"]) simp
  qed
qed

section \<open>When the fragments are entire\<close>

lemma entire_loop_copies:
  "w \<le> e \<Longrightarrow> entire_loop e (replicate n (f, w) @ l) =
     entire_loop (if n = 0 then e else max e (word_of_nat (length f) + w)) l"
proof (induction n arbitrary: e)
  case (Suc n)
  let ?e = "max e (word_of_nat (length f) + w)"
  have "w \<le> ?e" using Suc.prems by (simp add: le_max_iff_disj)
  from Suc.IH [OF this] Suc.prems show ?case by (simp add: not_less [symmetric])
qed simp

lemma entire_prefix:
  "tiles q m data ts \<Longrightarrow> q + length data < 65536 \<Longrightarrow> sorted (map snd l) \<Longrightarrow> set l \<subseteq> stored ` set ts \<Longrightarrow> unat e = q \<Longrightarrow>
    entire_loop e l \<longleftrightarrow> (\<exists>k. set l = stored ` set (take k ts))"
proof (induction ts arbitrary: q data l e)
  case (Cons t ts)
  obtain f b where t: "t = (f, q, b)" "f \<noteq> []" "length f \<le> length data"
      "ts \<noteq> [] \<longrightarrow> b \<and> tiles (q + length f) m (drop (length f) data) ts"
    using tiles_first [OF Cons.prems(1)] by blast
  obtain n l2 where l: "l = replicate n (stored t) @ l2" and l2: "set l2 \<subseteq> stored ` set ts" "sorted (map snd l2)"
    using split_first [OF Cons.prems(1-4)] by blast
  have tn: "stored t \<notin> stored ` set ts" by (rule stored_first_notin [OF Cons.prems(1,2)])
  have q16: "unat (word_of_nat q :: u16) = q" using Cons.prems(2) by (intro unat_len16) simp
  have st: "stored t = (f, word_of_nat q)" by (simp add: t(1) stored_def)
  have e: "word_of_nat q \<le> e" by (simp only: word_le_nat_alt q16 Cons.prems(5))
  have next_tiles: "tiles (q + length f) m (drop (length f) data) ts" "q + length f + length (drop (length f) data) < 65536"
    if "ts \<noteq> []" using t that Cons.prems(2) by simp_all
  show ?case
  proof (cases "n = 0")
    case True
    show ?thesis
    proof (cases "l2 = []")
      case True
      with \<open>n = 0\<close> l have "l = []" by simp
      then show ?thesis by (auto intro: exI [of _ 0])
    next
      case False
      then obtain x l3 where x: "l2 = x # l3" by (cases l2) auto
      with l2(1) have ts: "ts \<noteq> []" "x \<in> stored ` set ts" by auto
      from stored_later [OF next_tiles [OF ts(1)] ts(2)] t(2) have "unat e < unat (snd x)"
        using Cons.prems(5) by (cases f) auto
      then have "\<not> entire_loop e l"
        using x l \<open>n = 0\<close> by (cases x) (simp add: word_less_nat_alt)
      moreover have "set l \<noteq> stored ` set (take k (t # ts))" for k
        using x l \<open>n = 0\<close> l2(1) tn by (cases k) auto
      ultimately show ?thesis by blast
    qed
  next
    case False
    let ?e = "max e (word_of_nat (length f) + word_of_nat q)"
    have lf: "unat (word_of_nat (length f) :: u16) = length f" using t(3) Cons.prems(2) by (intro unat_len16) simp
    have "unat (word_of_nat (length f) + word_of_nat q :: u16) = length f + q"
      using t(3) Cons.prems(2) lf q16 by (subst unat_add16) simp_all
    then have e': "unat ?e = q + length f" using Cons.prems(5) by (simp add: max_def word_le_nat_alt)
    have loop: "entire_loop e l = entire_loop ?e l2"
      using entire_loop_copies [OF e, of n f l2] False l st by simp
    have set_l: "set l = insert (stored t) (set l2)" using False l by auto
    have "entire_loop ?e l2 \<longleftrightarrow> (\<exists>k. set l2 = stored ` set (take k ts))"
    proof (cases "ts = []")
      case True
      with l2(1) show ?thesis by simp
    next
      case False
      show ?thesis by (rule Cons.IH [OF next_tiles [OF False] l2(2,1) e'])
    qed
    moreover have "(\<exists>k. set l2 = stored ` set (take k ts)) \<longleftrightarrow> (\<exists>k. set l = stored ` set (take k (t # ts)))"
    proof
      assume "\<exists>k. set l2 = stored ` set (take k ts)"
      then obtain k where "set l2 = stored ` set (take k ts)" by blast
      with set_l show "\<exists>k. set l = stored ` set (take k (t # ts))" by (intro exI [of _ "Suc k"]) simp
    next
      assume "\<exists>k. set l = stored ` set (take k (t # ts))"
      then obtain k where k: "set l = stored ` set (take k (t # ts))" by blast
      with set_l obtain j where j: "k = Suc j" by (cases k) auto
      have "stored t \<notin> set l2" "stored t \<notin> stored ` set (take j ts)"
        using tn l2(1) by (auto dest: in_set_takeD)
      moreover have "insert (stored t) (set l2) = insert (stored t) (stored ` set (take j ts))"
        using k j set_l by simp
      ultimately have "set l2 = stored ` set (take j ts)" by (metis insert_ident)
      then show "\<exists>k. set l2 = stored ` set (take k ts)" by blast
    qed
    ultimately show ?thesis using loop by blast
  qed
qed simp

section \<open>Putting the packet together\<close>

lemma packet_loop_copies:
  assumes "length f < 65536" and "unat w + length f < 65536" and "f \<noteq> []" and "length p = unat w + length f"
  shows "packet_loop p (word_of_nat (length p)) (replicate n (f, w) @ l) = packet_loop p (word_of_nat (length p)) l"
proof (induction n)
  case (Suc n)
  let ?e = "word_of_nat (length p) :: u16"
  have e: "unat ?e = unat w + length f" using assms(2,4) by (simp only: unat_len16)
  have less: "w < ?e" using e assms(3) by (simp add: word_less_nat_alt)
  have "unat (?e - w) = length f" using e less by (simp add: unat_sub word_less_nat_alt word_le_nat_alt)
  then have "unat (ucast (?e - w) :: u32) = length f" by simp
  then have "\<not> word_of_nat (length f) > (ucast (?e - w) :: u32)"
    using assms(1) by (simp add: word_less_nat_alt unat_len32)
  with less Suc.IH show ?case by (simp add: Let_def)
qed simp

lemma packet_all:
  "tiles q m data ts \<Longrightarrow> q + length data < 65536 \<Longrightarrow> sorted (map snd l) \<Longrightarrow> set l = stored ` set ts \<Longrightarrow> length p = q \<Longrightarrow>
    packet_loop p (word_of_nat q) l = Some (p @ data)"
proof (induction ts arbitrary: q data l p)
  case (Cons t ts)
  obtain f b where t: "t = (f, q, b)" "f \<noteq> []" "length f \<le> length data" "f = take (length f) data"
      "ts \<noteq> [] \<longrightarrow> b \<and> tiles (q + length f) m (drop (length f) data) ts" "ts = [] \<longrightarrow> f = data \<and> b = m"
    using tiles_first [OF Cons.prems(1)] by blast
  obtain n l2 where l: "l = replicate n (stored t) @ l2" and l2: "set l2 \<subseteq> stored ` set ts" "sorted (map snd l2)"
    using split_first [OF Cons.prems(1-3)] Cons.prems(4) by blast
  have tn: "stored t \<notin> stored ` set ts" by (rule stored_first_notin [OF Cons.prems(1,2)])
  have "stored t \<in> set l" using Cons.prems(4) by simp
  with l l2(1) tn obtain j where n: "n = Suc j" by (cases n) auto
  have q16: "unat (word_of_nat q :: u16) = q" using Cons.prems(2) by (intro unat_len16) simp
  have st: "stored t = (f, word_of_nat q)" by (simp add: t(1) stored_def)
  have "packet_loop p (word_of_nat q) l =
      packet_loop (p @ f) (word_of_nat (length (p @ f))) (replicate j (f, word_of_nat q) @ l2)"
    by (simp add: l n st)
  also have "\<dots> = packet_loop (p @ f) (word_of_nat (length (p @ f))) l2"
    using t(2,3) Cons.prems(2,5) q16 by (intro packet_loop_copies) auto
  finally have loop: "packet_loop p (word_of_nat q) l = packet_loop (p @ f) (word_of_nat (q + length f)) l2"
    using Cons.prems(5) by simp
  show ?case
  proof (cases "ts = []")
    case True
    with l2(1) t(6) loop show ?thesis by simp
  next
    case False
    have "set l2 = stored ` set ts"
    proof -
      have "insert (stored t) (set l2) = insert (stored t) (stored ` set ts)" using Cons.prems(4) l n by auto
      then show ?thesis using insert_ident [of "stored t" "set l2" "stored ` set ts"] tn l2(1) by blast
    qed
    from Cons.IH [OF _ _ l2(2) this, of "q + length f" "drop (length f) data" "p @ f"] t(3,5) False Cons.prems(2,5)
    have "packet_loop (p @ f) (word_of_nat (q + length f)) l2 = Some ((p @ f) @ drop (length f) data)" by simp
    moreover have "f @ drop (length f) data = data" using t(4) by (metis append_take_drop_id)
    ultimately show ?thesis using loop by simp
  qed
qed simp

section \<open>What a time-out reports\<close>

lemma partial_skip:
  "\<forall>x \<in> set l. length p < unat (snd x) \<Longrightarrow> length p < 65536 \<Longrightarrow> partial_loop p (word_of_nat (length p)) l = Some p"
proof (induction l)
  case (Cons x l)
  obtain f w where x: "x = (f, w)" by (cases x)
  have e: "unat (word_of_nat (length p) :: u16) = length p" using Cons.prems(2) by (rule unat_len16)
  have "\<not> word_of_nat (length p) > w" "word_of_nat (length p) \<noteq> w"
    using Cons.prems(1) x e by (auto simp: word_less_nat_alt)
  with Cons x show ?case by simp
qed simp

lemma partial_loop_copies:
  assumes "unat w + length f < 65536" and "f \<noteq> []" and "length p = unat w + length f"
  shows "partial_loop p (word_of_nat (length p)) (replicate n (f, w) @ l) = partial_loop p (word_of_nat (length p)) l"
proof (induction n)
  case (Suc n)
  let ?e = "word_of_nat (length p) :: u16"
  have e: "unat ?e = unat w + length f" using assms(1,3) by (simp only: unat_len16)
  have less: "w < ?e" using e assms(2) by (simp add: word_less_nat_alt)
  have "unat (?e - w) = length f" using e less by (simp add: unat_sub word_less_nat_alt word_le_nat_alt)
  then have start: "unat (ucast (?e - w) :: u32) = length f" by simp
  have lf: "unat (word_of_nat (length f) :: u32) = length f" using assms(1) by (simp only: unat_len32)
  have zero: "word_of_nat (length f) - ucast (?e - w) = (0 :: u32)"
  proof -
    have "word_of_nat (length f) = (ucast (?e - w) :: u32)" by (simp only: word_unat_eq_iff lf start)
    then show ?thesis by simp
  qed
  have "CreateFragment (ucast (?e - w)) 0 f = Some []"
    using assms(1) start by (subst CreateFragment_valid) simp_all
  with less zero Suc.IH show ?case by (simp add: Let_def)
qed simp

lemma partial_prefix:
  "tiles q m data ts \<Longrightarrow> q + length data < 65536 \<Longrightarrow> sorted (map snd l) \<Longrightarrow> set l \<subseteq> stored ` set ts \<Longrightarrow> length p = q \<Longrightarrow>
    partial_loop p (word_of_nat q) l = Some (p @ concat (map fst (takeWhile (\<lambda>t. stored t \<in> set l) ts)))"
proof (induction ts arbitrary: q data l p)
  case (Cons t ts)
  obtain f b where t: "t = (f, q, b)" "f \<noteq> []" "length f \<le> length data" "f = take (length f) data"
      "ts \<noteq> [] \<longrightarrow> b \<and> tiles (q + length f) m (drop (length f) data) ts" "ts = [] \<longrightarrow> f = data \<and> b = m"
    using tiles_first [OF Cons.prems(1)] by blast
  obtain n l2 where l: "l = replicate n (stored t) @ l2" and l2: "set l2 \<subseteq> stored ` set ts" "sorted (map snd l2)"
    using split_first [OF Cons.prems(1-4)] by blast
  have tn: "stored t \<notin> stored ` set ts" by (rule stored_first_notin [OF Cons.prems(1,2)])
  have q16: "unat (word_of_nat q :: u16) = q" using Cons.prems(2) by (intro unat_len16) simp
  have st: "stored t = (f, word_of_nat q)" by (simp add: t(1) stored_def)
  have f0: "0 < length f" using t(2) by simp
  show ?case
  proof (cases n)
    case 0
    then have ll: "l = l2" by (simp add: l)
    have "\<forall>x \<in> set l. length p < unat (snd x)"
    proof
      fix x assume "x \<in> set l"
      with ll l2(1) have x: "x \<in> stored ` set ts" by auto
      then have later: "tiles (q + length f) m (drop (length f) data) ts" using t(5) by auto
      have "q + length f \<le> unat (snd x)" using stored_later [OF later _ x] Cons.prems(2) t(3) by simp
      with f0 Cons.prems(5) show "length p < unat (snd x)" by linarith
    qed
    then have "partial_loop p (word_of_nat q) l = Some p"
      using partial_skip [of l p] Cons.prems(2,5) by simp
    moreover have "stored t \<notin> set l" using ll l2(1) tn by auto
    ultimately show ?thesis by simp
  next
    case (Suc j)
    have "partial_loop p (word_of_nat q) l =
        partial_loop (p @ f) (word_of_nat (length (p @ f))) (replicate j (f, word_of_nat q) @ l2)"
      by (simp add: l Suc st)
    also have "\<dots> = partial_loop (p @ f) (word_of_nat (length (p @ f))) l2"
      using t(2,3) Cons.prems(2,5) q16 by (intro partial_loop_copies) auto
    finally have loop: "partial_loop p (word_of_nat q) l = partial_loop (p @ f) (word_of_nat (q + length f)) l2"
      using Cons.prems(5) by simp
    have mem: "stored t \<in> set l" "\<And>u. u \<in> set ts \<Longrightarrow> stored u \<in> set l \<longleftrightarrow> stored u \<in> set l2"
    proof -
      show "stored t \<in> set l" using l Suc by simp
      fix u assume "u \<in> set ts"
      with tn have "stored u \<noteq> stored t" by (metis imageI)
      with l show "stored u \<in> set l \<longleftrightarrow> stored u \<in> set l2" by auto
    qed
    have "takeWhile (\<lambda>t. stored t \<in> set l) (t # ts) = t # takeWhile (\<lambda>t. stored t \<in> set l2) ts"
      using mem by (auto intro: takeWhile_cong)
    moreover have "partial_loop (p @ f) (word_of_nat (q + length f)) l2 =
        Some ((p @ f) @ concat (map fst (takeWhile (\<lambda>t. stored t \<in> set l2) ts)))"
    proof (cases "ts = []")
      case True
      with l2(1) show ?thesis by simp
    next
      case False
      with Cons.IH [of "q + length f" "drop (length f) data" l2 "p @ f"] t(3,5) l2 Cons.prems(2,5)
      show ?thesis by simp
    qed
    ultimately show ?thesis using loop t(1) by simp
  qed
qed simp

section \<open>Adding fragments\<close>

lemma sorted_insert_at:
  "sorted (map snd l) \<Longrightarrow>
    sorted (map snd (takeWhile (\<lambda>x. \<not> snd x > w) l @ (f, w) # dropWhile (\<lambda>x. \<not> snd x > w) l))"
  for w :: u16
proof (induction l)
  case (Cons x l)
  then show ?case by (auto dest!: set_takeWhileD set_dropWhileD)
qed simp

lemma set_insert_at:
  "set (takeWhile P l @ x # dropWhile P l) = insert x (set l)"
  by (metis Un_insert_right list.simps(15) set_append takeWhile_dropWhile_id)

text \<open>
  The fragments received are tiles \<open>xs\<close> of a whole datagram: the list holds them in the order of
  their offsets, and the flag says that the last one is missing.
\<close>

definition collects :: "tile list \<Rightarrow> tile list \<Rightarrow> Fragments \<Rightarrow> bool" where
  "collects ts xs f \<longleftrightarrow> sorted (map snd (fr_fragments f)) \<and> set (fr_fragments f) = stored ` set xs \<and>
     set xs \<subseteq> set ts \<and> (fr_moreFragment f \<longleftrightarrow> xs \<noteq> [] \<and> last ts \<notin> set xs)"

lemma collects_make: "collects ts [] (Fragments_make\<lparr>fr_timeoutIter := i\<rparr>)"
  by (simp add: collects_def Fragments_make_def)

text \<open>The last tile has the greatest offset, and no other is marked as the last.\<close>

lemma tiles_last:
  "tiles q m data ts \<Longrightarrow> q + length data < 65536 \<Longrightarrow> t \<in> set ts \<Longrightarrow>
    fst (snd t) \<le> fst (snd (last ts)) \<and> (t \<noteq> last ts \<longrightarrow> fst (snd t) < fst (snd (last ts)) \<and> snd (snd t)) \<and>
    snd (snd (last ts)) = m"
proof (induction ts arbitrary: q data t)
  case (Cons u ts)
  obtain f b where u: "u = (f, q, b)" "f \<noteq> []" "length f \<le> length data"
      "ts \<noteq> [] \<longrightarrow> b \<and> tiles (q + length f) m (drop (length f) data) ts" "ts = [] \<longrightarrow> f = data \<and> b = m"
    using tiles_first [OF Cons.prems(1)] by blast
  show ?case
  proof (cases "ts = []")
    case False
    with u have later: "tiles (q + length f) m (drop (length f) data) ts" "b"
      "q + length f + length (drop (length f) data) < 65536" using Cons.prems(2) by simp_all
    obtain g r c where l: "last ts = (g, r, c)" by (cases "last ts")
    with False have "(g, r, c) \<in> set ts" by (metis last_in_set)
    from tiles_bounds [OF later(1) this] have r: "q + length f \<le> r" by simp
    have "0 < length f" using u(2) by simp
    with r have "q < r" by linarith
    show ?thesis
    proof (cases "t = u")
      case True
      with \<open>q < r\<close> u(1) l False later(2) Cons.IH [OF later(1,3) last_in_set [OF False]] show ?thesis by simp
    next
      case neq: False
      with Cons.prems(3) have "t \<in> set ts" by simp
      from Cons.IH [OF later(1,3) this] False show ?thesis by simp
    qed
  qed (use Cons.prems(3) u in simp)
qed simp

lemma collects_add:
  assumes "tiles 0 False data ts" and "length data < 65536" and "collects ts xs f" and "tile_of (p, h) \<in> set ts"
  shows "collects ts (xs @ [tile_of (p, h)]) (AddFragment p (ih_fragmentOffset h) (\<not> Ih_IsLastFragment h) f)"
proof -
  let ?t = "tile_of (p, h)" and ?w = "ih_fragmentOffset h"
  let ?post = "dropWhile (\<lambda>x. \<not> snd x > ?w) (fr_fragments f)"
  have st: "stored ?t = (p, ?w)" by (simp add: stored_tile_of)
  have c: "sorted (map snd (fr_fragments f))" "set (fr_fragments f) = stored ` set xs" "set xs \<subseteq> set ts"
    "fr_moreFragment f \<longleftrightarrow> xs \<noteq> [] \<and> last ts \<notin> set xs" using assms(3) by (simp_all add: collects_def)
  have last_t: "t \<noteq> last ts \<Longrightarrow> fst (snd t) < fst (snd (last ts))" "t \<noteq> last ts \<Longrightarrow> snd (snd t)"
    "fst (snd t) \<le> fst (snd (last ts))" "\<not> snd (snd (last ts))" if "t \<in> set ts" for t
    using tiles_last [OF assms(1) _ that] assms(2) by auto
  have off: "unat (snd (stored t)) = fst (snd t)" if "t \<in> set ts" for t
    using tiles_bounds [OF assms(1), of "fst t" "fst (snd t)" "snd (snd t)"] that assms(2)
    by (simp add: stored_def unat_len16)
  have post: "?post = [] \<longleftrightarrow> (\<forall>x \<in> set xs. fst (snd x) \<le> fst (snd ?t))"
  proof -
    have "?post = [] \<longleftrightarrow> (\<forall>y \<in> set (fr_fragments f). \<not> snd y > ?w)" by (simp add: dropWhile_eq_Nil_conv)
    also have "\<dots> \<longleftrightarrow> (\<forall>x \<in> set xs. unat (snd (stored x)) \<le> unat ?w)"
      unfolding c(2) by (simp add: word_less_nat_alt not_less)
    also have "\<dots> \<longleftrightarrow> (\<forall>x \<in> set xs. fst (snd x) \<le> fst (snd ?t))"
    proof (rule ball_cong [OF refl])
      fix x assume "x \<in> set xs"
      with c(3) have "unat (snd (stored x)) = fst (snd x)" by (intro off) blast
      then show "unat (snd (stored x)) \<le> unat ?w \<longleftrightarrow> fst (snd x) \<le> fst (snd ?t)" by (simp add: tile_of_def)
    qed
    finally show ?thesis .
  qed
  have flag: "(if ?post = [] then \<not> Ih_IsLastFragment h else fr_moreFragment f) \<longleftrightarrow> last ts \<notin> set (xs @ [?t])"
  proof (cases "?t = last ts")
    case True
    then have "?post = []" unfolding post using last_t(3) c(3) by auto
    moreover have "\<not> \<not> Ih_IsLastFragment h" using last_t(4) [OF assms(4)] True by (metis tile_of_def snd_conv)
    ultimately show ?thesis using True by simp
  next
    case False
    have "\<not> Ih_IsLastFragment h" using last_t(2) [OF assms(4) False] by (simp add: tile_of_def)
    moreover have "?post \<noteq> []" if "last ts \<in> set xs"
      using last_t(1) [OF assms(4) False] that unfolding post by (auto simp: not_le)
    moreover have "?post \<noteq> [] \<Longrightarrow> xs \<noteq> []" unfolding post by auto
    ultimately show ?thesis using False c(4) by auto
  qed
  let ?l = "takeWhile (\<lambda>x. \<not> snd x > ?w) (fr_fragments f) @ (p, ?w) # ?post"
  let ?f = "AddFragment p ?w (\<not> Ih_IsLastFragment h) f"
  have new: "fr_fragments ?f = ?l" "fr_moreFragment ?f = (if ?post = [] then \<not> Ih_IsLastFragment h else fr_moreFragment f)"
    by (simp_all add: AddFragment_def Let_def)
  have "set ?l = insert (stored ?t) (stored ` set xs)" unfolding st set_insert_at c(2) ..
  then show ?thesis
    unfolding collects_def new flag using c(3) assms(4) sorted_insert_at [OF c(1), of ?w p] by simp
qed

lemma collects_loop:
  assumes "tiles 0 False data ts" and "length data < 65536" and "collects ts xs f"
  shows "entire_loop 0 (fr_fragments f) \<longleftrightarrow> (\<exists>k. set xs = set (take k ts))"
proof -
  have c: "sorted (map snd (fr_fragments f))" "set (fr_fragments f) = stored ` set xs" "set xs \<subseteq> set ts"
    using assms(3) by (simp_all add: collects_def)
  have inj: "inj_on stored (set ts)" using stored_inj [OF assms(1)] assms(2) by simp
  have "entire_loop 0 (fr_fragments f) \<longleftrightarrow> (\<exists>k. stored ` set xs = stored ` set (take k ts))"
    using entire_prefix [OF assms(1) _ c(1), of 0] image_mono [OF c(3), of stored] assms(2) by (simp add: c(2))
  also have "\<dots> \<longleftrightarrow> (\<exists>k. set xs = set (take k ts))"
    using inj_on_image_eq_iff [OF inj c(3)] by (simp add: set_take_subset)
  finally show ?thesis .
qed

lemma collects_entire:
  assumes "tiles 0 False data ts" and "length data < 65536" and "collects ts xs f"
  shows "IsEntire f \<longleftrightarrow> set xs = set ts"
proof -
  have c: "set (fr_fragments f) = stored ` set xs" "set xs \<subseteq> set ts" "fr_moreFragment f \<longleftrightarrow> xs \<noteq> [] \<and> last ts \<notin> set xs"
    using assms(3) by (simp_all add: collects_def)
  have ts: "ts \<noteq> []" "distinct ts" using assms(1) stored_inj [OF assms(1)] assms(2) by auto
  have "xs \<noteq> [] \<and> last ts \<in> set xs \<and> (\<exists>k. set xs = set (take k ts)) \<longleftrightarrow> set xs = set ts"
  proof
    assume a: "xs \<noteq> [] \<and> last ts \<in> set xs \<and> (\<exists>k. set xs = set (take k ts))"
    then obtain k where k: "last ts \<in> set (take k ts)" "set xs = set (take k ts)" by auto
    have "length ts \<le> k"
    proof (rule ccontr)
      assume "\<not> length ts \<le> k"
      then have "drop k ts \<noteq> []" by simp
      then have "last ts \<in> set (drop k ts)" by (metis last_drop last_in_set drop_eq_Nil not_le)
      moreover have "set (take k ts) \<inter> set (drop k ts) = {}" using ts(2) by (rule set_take_disj_set_drop_if_distinct) simp
      ultimately show False using k(1) by blast
    qed
    with k(2) show "set xs = set ts" by simp
  next
    assume eq: "set xs = set ts"
    then have "xs \<noteq> []" using ts(1) by (cases xs) simp_all
    moreover have "last ts \<in> set xs" unfolding eq using ts(1) by simp
    moreover have "set xs = set (take (length ts) ts)" using eq by simp
    ultimately show "xs \<noteq> [] \<and> last ts \<in> set xs \<and> (\<exists>k. set xs = set (take k ts))" by blast
  qed
  note whole = this
  have "fr_fragments f = [] \<longleftrightarrow> xs = []"
  proof -
    have "set (fr_fragments f) = {} \<longleftrightarrow> set xs = {}" by (simp only: c(1) image_is_empty)
    then show ?thesis by simp
  qed
  moreover have "IsEntire f \<longleftrightarrow> \<not> fr_moreFragment f \<and> fr_fragments f \<noteq> [] \<and> entire_loop 0 (fr_fragments f)"
    by (simp add: IsEntire_def)
  ultimately have "IsEntire f \<longleftrightarrow> xs \<noteq> [] \<and> last ts \<in> set xs \<and> (\<exists>k. set xs = set (take k ts))"
    unfolding c(3) collects_loop [OF assms] by blast
  then show ?thesis unfolding whole .
qed

lemma collects_packet:
  assumes "tiles 0 False data ts" and "length data < 65536" and "collects ts xs f" and "set xs = set ts"
  shows "GetPacket f = Some data"
proof -
  have c: "sorted (map snd (fr_fragments f))" "set (fr_fragments f) = stored ` set ts"
    using assms(3,4) by (simp_all add: collects_def)
  have "ts \<noteq> []" using assms(1) by auto
  with c(2) obtain p w l where l: "fr_fragments f = (p, w) # l" by (cases "fr_fragments f") auto
  have "packet_loop [] (word_of_nat 0) (fr_fragments f) = Some ([] @ data)"
    using assms(1,2) c by (intro packet_all [where ts = ts]) simp_all
  with l show ?thesis by (simp add: GetPacket_def)
qed

lemma collects_partial:
  assumes "tiles 0 False data ts" and "length data < 65536" and "collects ts xs f" and "xs \<noteq> []"
  shows "GetPartialPacket f = Some (concat (map fst (takeWhile (\<lambda>t. t \<in> set xs) ts)))"
proof -
  have c: "sorted (map snd (fr_fragments f))" "set (fr_fragments f) = stored ` set xs" "set xs \<subseteq> set ts"
    using assms(3) by (simp_all add: collects_def)
  have inj: "inj_on stored (set ts)" using stored_inj [OF assms(1)] assms(2) by simp
  have mem: "stored t \<in> set (fr_fragments f) \<longleftrightarrow> t \<in> set xs" if "t \<in> set ts" for t
    unfolding c(2) by (rule inj_on_image_mem_iff [OF inj that c(3)])
  have prefix: "takeWhile (\<lambda>t. stored t \<in> set (fr_fragments f)) ts = takeWhile (\<lambda>t. t \<in> set xs) ts"
    using mem by (auto intro: takeWhile_cong)
  have loop: "partial_loop [] (word_of_nat 0) (fr_fragments f) = Some ([] @ concat (map fst (takeWhile (\<lambda>t. t \<in> set xs) ts)))"
    unfolding prefix [symmetric] using assms(1,2) c by (intro partial_prefix) auto
  from assms(4) c(2) obtain p w l where l: "fr_fragments f = (p, w) # l" by (cases "fr_fragments f") auto
  show ?thesis
  proof (cases "w > 0")
    case True
    obtain t ts' where ts: "ts = t # ts'" using assms(1) by (cases ts) auto
    have "snd (stored t) = 0" using tiles_first [OF assms(1) [unfolded ts]] by (auto simp: stored_def)
    moreover have "\<forall>x \<in> set (fr_fragments f). snd x \<ge> w" using c(1) l by auto
    ultimately have "stored t \<notin> set (fr_fragments f)" using True by (metis leD)
    then have "t \<notin> set xs" using mem [of t] ts by simp
    with True l ts show ?thesis by (simp add: GetPartialPacket_def)
  next
    case False
    with l loop show ?thesis by (simp add: GetPartialPacket_def)
  qed
qed

end
