(* ===== verification/Ipv4_Fragment_Run.thy ===== *)
theory Ipv4_Fragment_Run
  imports Ipv4_Collect
begin

text \<open>
  The reassembly buffers of a node over time: what is received and when time-outs fire, the state
  invariant, and what comes out of a packet that was cut any number of times on its way.
\<close>

section \<open>The invariant of the buffers\<close>

definition buffers_ok :: "fragment_state \<Rightarrow> bool" where
  "buffers_ok s \<longleftrightarrow>
     distinct (map te_key (fs_timeoutEventList s)) \<and> distinct (map te_iter (fs_timeoutEventList s)) \<and>
     dom (fs_fragments s) = te_key ` set (fs_timeoutEventList s) \<and>
     (\<forall>e \<in> set (fs_timeoutEventList s). te_iter e < fs_nextIter s \<and>
        (\<forall>f. fs_fragments s (te_key e) = Some f \<longrightarrow> fr_timeoutIter f = te_iter e \<and> fr_fragments f \<noteq> []))"

lemma buffers_ok_make: "buffers_ok (Fragment_make expiration)"
  by (simp add: buffers_ok_def Fragment_make_def)

lemma AddFragment_nonempty [simp]: "fr_fragments (AddFragment p w b f) \<noteq> []"
  by (simp add: AddFragment_def Let_def)

lemma AddFragment_iter [simp]: "fr_timeoutIter (AddFragment p w b f) = fr_timeoutIter f"
  by (simp add: AddFragment_def Let_def)

lemma packet_loop_total: "packet_loop p e l \<noteq> None"
  by (induction p e l rule: packet_loop.induct) (auto simp: CreateFragment_def Let_def split: if_splits)

lemma partial_loop_total: "partial_loop p e l \<noteq> None"
  by (induction p e l rule: partial_loop.induct) (auto simp: CreateFragment_def Let_def split: if_splits)

lemma GetPacket_total: "fr_fragments f \<noteq> [] \<Longrightarrow> \<exists>p. GetPacket f = Some p"
  using packet_loop_total by (cases "fr_fragments f") (auto simp: GetPacket_def)

lemma GetPartialPacket_total: "fr_fragments f \<noteq> [] \<Longrightarrow> \<exists>p. GetPartialPacket f = Some p"
  using partial_loop_total by (cases "fr_fragments f") (auto simp: GetPartialPacket_def)

text \<open>The buffer of the key after the fragment is stored, and the state that holds it.\<close>

definition buffer_after :: "u8 list \<Rightarrow> ipv4_header \<Rightarrow> fragment_state \<Rightarrow> Fragments" where
  "buffer_after p h s = AddFragment p (ih_fragmentOffset h) (\<not> Ih_IsLastFragment h)
     (case fs_fragments s (fragment_key_of h) of None \<Rightarrow> Fragments_make\<lparr>fr_timeoutIter := fs_nextIter s\<rparr> | Some f \<Rightarrow> f)"

definition state_after :: "time \<Rightarrow> u8 list \<Rightarrow> ipv4_header \<Rightarrow> u32 \<Rightarrow> fragment_state \<Rightarrow> fragment_state" where
  "state_after now p h iif s =
     (let s' = (if fs_fragments s (fragment_key_of h) = None then snd (SetTimeout now (fragment_key_of h) h iif s) else s)
      in s'\<lparr>fs_fragments := (fs_fragments s)(fragment_key_of h \<mapsto> buffer_after p h s)\<rparr>)"

lemma ProcessFragment_eq:
  "ProcessFragment now p h iif s =
     (let f = buffer_after p h s; s' = state_after now p h iif s in
      if IsEntire f then do {
        packet \<leftarrow> GetPacket f;
        ensure (fr_timeoutIter f \<in> te_iter ` set (fs_timeoutEventList s'));
        Some (Some packet,
          s'\<lparr>fs_timeoutEventList := filter (\<lambda>e. te_iter e \<noteq> fr_timeoutIter f) (fs_timeoutEventList s'),
            fs_fragments := (fs_fragments s)(fragment_key_of h := None)\<rparr>)
      }
      else Some (None, s'))"
  by (simp add: ProcessFragment_def buffer_after_def state_after_def SetTimeout_def Let_def split: option.splits)

lemma buffers_entry:
  assumes "buffers_ok s" and "fs_fragments s k = Some f"
  obtains e where "e \<in> set (fs_timeoutEventList s)" and "te_key e = k" and "te_iter e = fr_timeoutIter f"
proof -
  have "k \<in> te_key ` set (fs_timeoutEventList s)" using assms unfolding buffers_ok_def by blast
  then obtain e where e: "e \<in> set (fs_timeoutEventList s)" "te_key e = k" by auto
  with assms have "te_iter e = fr_timeoutIter f" by (simp add: buffers_ok_def)
  with e that show thesis by blast
qed

lemma state_after_ok:
  assumes "buffers_ok s"
  shows "buffers_ok (state_after now p h iif s)"
proof (cases "fs_fragments s (fragment_key_of h)")
  case None
  have "\<forall>e \<in> set (fs_timeoutEventList s). te_key e \<noteq> fragment_key_of h"
  proof (intro ballI notI)
    fix e assume "e \<in> set (fs_timeoutEventList s)" "te_key e = fragment_key_of h"
    then have "fragment_key_of h \<in> dom (fs_fragments s)"
      using assms unfolding buffers_ok_def by (metis imageI)
    with None show False by (simp add: dom_def)
  qed
  moreover have "fs_nextIter s \<notin> te_iter ` set (fs_timeoutEventList s)"
    using assms by (auto simp: buffers_ok_def)
  ultimately show ?thesis
    using assms None
    by (auto simp: buffers_ok_def state_after_def SetTimeout_def Let_def buffer_after_def Fragments_make_def less_Suc_eq)
next
  case (Some f)
  from buffers_entry [OF assms Some] obtain e where
    e: "e \<in> set (fs_timeoutEventList s)" "te_key e = fragment_key_of h" "te_iter e = fr_timeoutIter f" .
  have "insert (fragment_key_of h) (te_key ` set (fs_timeoutEventList s)) = te_key ` set (fs_timeoutEventList s)"
    using e(1,2) by (metis imageI insert_absorb)
  moreover have "te_iter e' = fr_timeoutIter f" if "e' \<in> set (fs_timeoutEventList s)" "te_key e' = fragment_key_of h" for e'
    using assms Some that by (simp add: buffers_ok_def)
  ultimately show ?thesis
    using assms Some by (simp add: buffers_ok_def state_after_def buffer_after_def)
qed

lemma image_except: "f ` {x \<in> A. f x \<noteq> k} = f ` A - {k}"
  by auto

lemma buffers_remove:
  assumes "buffers_ok s" and "e \<in> set (fs_timeoutEventList s)"
  shows "buffers_ok (s\<lparr>fs_timeoutEventList := filter (\<lambda>e'. te_iter e' \<noteq> te_iter e) (fs_timeoutEventList s),
    fs_fragments := (fs_fragments s)(te_key e := None)\<rparr>)"
proof -
  let ?l = "fs_timeoutEventList s"
  have d: "distinct (map te_key ?l)" "distinct (map te_iter ?l)"
    using assms(1) by (simp_all add: buffers_ok_def)
  have other: "te_key e' = te_key e \<longleftrightarrow> te_iter e' = te_iter e" if "e' \<in> set ?l" for e'
    using d that assms(2) by (metis distinct_map inj_onD)
  have "te_key ` set (filter (\<lambda>e'. te_iter e' \<noteq> te_iter e) ?l) = te_key ` set ?l - {te_key e}"
  proof -
    have "te_key ` set (filter (\<lambda>e'. te_iter e' \<noteq> te_iter e) ?l) = te_key ` {e' \<in> set ?l. te_key e' \<noteq> te_key e}"
      using other by (simp cong: conj_cong)
    also have "\<dots> = te_key ` set ?l - {te_key e}" by (rule image_except)
    finally show ?thesis .
  qed
  then show ?thesis
    using assms(1) unfolding buffers_ok_def by (auto simp: distinct_map_filter)
qed

lemma ProcessFragment_ok:
  assumes "buffers_ok s"
  shows "\<exists>r s'. ProcessFragment now p h iif s = Some (r, s') \<and> buffers_ok s'"
proof -
  let ?f = "buffer_after p h s" and ?s = "state_after now p h iif s"
  have s: "buffers_ok ?s" by (rule state_after_ok [OF assms])
  have f: "fs_fragments ?s = (fs_fragments s)(fragment_key_of h \<mapsto> ?f)" by (simp add: state_after_def Let_def)
  show ?thesis
  proof (cases "IsEntire ?f")
    case True
    obtain q where q: "GetPacket ?f = Some q" using GetPacket_total [of ?f] by (auto simp: buffer_after_def)
    from buffers_entry [OF s, of "fragment_key_of h" ?f] f obtain e where
      e: "e \<in> set (fs_timeoutEventList ?s)" "te_key e = fragment_key_of h" "te_iter e = fr_timeoutIter ?f" by auto
    then have "fr_timeoutIter ?f \<in> te_iter ` set (fs_timeoutEventList ?s)" by (metis imageI)
    with buffers_remove [OF s e(1)] True q e(2,3) f show ?thesis by (simp add: ProcessFragment_eq Let_def)
  next
    case False
    with s show ?thesis by (simp add: ProcessFragment_eq Let_def)
  qed
qed

section \<open>Time-outs\<close>

text \<open>The buffers at a time: none is overdue, and a time-out is pending in time for the first of them.\<close>

definition buffers_at :: "time \<Rightarrow> fragment_state \<Rightarrow> bool" where
  "buffers_at now s \<longleftrightarrow> buffers_ok s \<and> 0 \<le> fs_expiration s \<and>
     sorted (map te_time (fs_timeoutEventList s)) \<and>
     (\<forall>e \<in> set (fs_timeoutEventList s). now \<le> te_time e \<and> te_time e \<le> now + fs_expiration s) \<and>
     (fs_timeoutEventList s \<noteq> [] \<longrightarrow> (\<exists>t \<in> set (fs_pending s). t \<le> te_time (hd (fs_timeoutEventList s))))"

lemma buffers_at_arrive:
  assumes "buffers_at now s" and "now \<le> t" and "\<forall>u \<in> set (fs_pending s). t \<le> u"
    and "ProcessFragment t p h iif s = Some (r, s')"
  shows "buffers_at t s' \<and> fs_expiration s' = fs_expiration s"
proof -
  let ?s = "state_after t p h iif s" and ?l = "fs_timeoutEventList s"
  have ok: "buffers_ok s" "buffers_ok s'"
    using assms(1,4) ProcessFragment_ok [of s t p h iif] by (auto simp: buffers_at_def)
  have hd_le: "\<forall>e \<in> set ?l. te_time (hd ?l) \<le> te_time e" if "?l \<noteq> []"
    using assms(1) that by (cases ?l) (auto simp: buffers_at_def)
  have later: "\<forall>e \<in> set ?l. t \<le> te_time e"
    using assms(1,3) hd_le by (force simp: buffers_at_def)
  have exp: "0 \<le> fs_expiration s" and bound: "\<forall>e \<in> set ?l. te_time e \<le> t + fs_expiration s"
    and srt: "sorted (map te_time ?l)"
    using assms(1,2) by (auto simp: buffers_at_def)
  have after: "sorted (map te_time (fs_timeoutEventList ?s)) \<and> fs_expiration ?s = fs_expiration s \<and>
    (\<forall>e \<in> set (fs_timeoutEventList ?s). t \<le> te_time e \<and> te_time e \<le> t + fs_expiration s) \<and>
    (fs_timeoutEventList ?s \<noteq> [] \<longrightarrow> (\<exists>u \<in> set (fs_pending ?s). \<forall>e \<in> set (fs_timeoutEventList ?s). u \<le> te_time e))"
  proof (cases "?l = []")
    case True
    with exp show ?thesis by (simp add: state_after_def SetTimeout_def Let_def)
  next
    case False
    then obtain u where u: "u \<in> set (fs_pending s)" "u \<le> te_time (hd ?l)"
      using assms(1) by (auto simp: buffers_at_def)
    have "\<forall>e \<in> set ?l. u \<le> te_time e" using u(2) hd_le [OF False] by (meson order_trans)
    moreover have "u \<le> t + fs_expiration s"
      using u(2) bound False by (cases ?l) auto
    ultimately show ?thesis
      using False u(1) srt bound later exp by (auto simp: state_after_def SetTimeout_def Let_def sorted_append)
  qed
  have sub: "fs_expiration s' = fs_expiration ?s" "fs_pending s' = fs_pending ?s"
    "\<exists>P. fs_timeoutEventList s' = filter P (fs_timeoutEventList ?s)"
    using assms(4)
    by (auto simp: ProcessFragment_eq Let_def elim!: bind_Some_elim split: if_splits intro: exI [of _ "\<lambda>_. True"])
  then obtain P where P: "fs_timeoutEventList s' = filter P (fs_timeoutEventList ?s)" by blast
  have "sorted (map te_time (fs_timeoutEventList s'))"
    unfolding P by (rule sorted_filter) (use after in simp)
  moreover have "\<exists>u \<in> set (fs_pending s'). u \<le> te_time (hd (fs_timeoutEventList s'))" if "fs_timeoutEventList s' \<noteq> []"
  proof -
    have "hd (fs_timeoutEventList s') \<in> set (fs_timeoutEventList ?s)" using hd_in_set [OF that] P by auto
    with after that P show ?thesis unfolding sub(2) by (metis empty_iff list.set(1))
  qed
  ultimately show ?thesis using ok(2) after exp sub(1) P by (auto simp: buffers_at_def)
qed

lemma timeout_loop_ok:
  "buffers_ok (s\<lparr>fs_timeoutEventList := l\<rparr>) \<Longrightarrow>
    \<exists>fx s'. timeout_loop True t l s = Some (fx, s') \<and> buffers_ok s' \<and>
      fs_timeoutEventList s' = dropWhile (\<lambda>e. te_time e = t) l \<and>
      fs_pending s' = fs_pending s \<and> fs_expiration s' = fs_expiration s"
proof (induction l arbitrary: s)
  case (Cons e l)
  show ?case
  proof (cases "te_time e = t")
    case True
    let ?k = "te_key e" and ?s1 = "s\<lparr>fs_timeoutEventList := e # l\<rparr>"
    have "?k \<in> dom (fs_fragments s)" using Cons.prems by (auto simp: buffers_ok_def)
    then obtain f where f: "fs_fragments s ?k = Some f" by blast
    with Cons.prems have "fr_fragments f \<noteq> []" by (auto simp: buffers_ok_def)
    then obtain p where p: "GetPartialPacket f = Some p" using GetPartialPacket_total by blast
    let ?s2 = "s\<lparr>fs_fragments := (fs_fragments s)(?k := None)\<rparr>"
    obtain fx where h: "HandleFragmentsTimeout True ?k (te_header e) (te_iif e) s = Some (fx, ?s2)"
      using f p by (simp add: HandleFragmentsTimeout_def Let_def)
    have "te_iter e \<notin> te_iter ` set l" using Cons.prems by (auto simp: buffers_ok_def)
    then have "\<forall>e' \<in> set l. te_iter e' \<noteq> te_iter e" by (metis imageI)
    then have "filter (\<lambda>e'. te_iter e' \<noteq> te_iter e) (e # l) = l" by simp
    with buffers_remove [OF Cons.prems, of e]
    have "buffers_ok (?s1\<lparr>fs_timeoutEventList := l, fs_fragments := (fs_fragments s)(?k := None)\<rparr>)" by simp
    moreover have "?s1\<lparr>fs_timeoutEventList := l, fs_fragments := (fs_fragments s)(?k := None)\<rparr> = ?s2\<lparr>fs_timeoutEventList := l\<rparr>"
      by simp
    ultimately have "buffers_ok (?s2\<lparr>fs_timeoutEventList := l\<rparr>)" by (simp only:)
    from Cons.IH [OF this] h True show ?thesis by auto
  next
    case False
    with Cons.prems show ?thesis by simp
  qed
qed simp

lemma HandleTimeout_ok:
  assumes "buffers_at now s" and "t \<in> set (fs_pending s)" and "\<forall>u \<in> set (fs_pending s). t \<le> u" and "now \<le> t"
  shows "\<exists>fx s'. HandleTimeout True t (s\<lparr>fs_pending := remove1 t (fs_pending s)\<rparr>) = Some (fx, s') \<and> buffers_at t s' \<and>
    fs_expiration s' = fs_expiration s"
proof -
  let ?l = "fs_timeoutEventList s" and ?s = "s\<lparr>fs_pending := remove1 t (fs_pending s)\<rparr>"
  let ?rest = "dropWhile (\<lambda>e. te_time e = t) ?l"
  have inv: "buffers_ok s" "0 \<le> fs_expiration s" "sorted (map te_time ?l)"
    "\<forall>e \<in> set ?l. te_time e \<le> now + fs_expiration s"
    "?l \<noteq> [] \<Longrightarrow> \<exists>u \<in> set (fs_pending s). u \<le> te_time (hd ?l)"
    using assms(1) by (auto simp: buffers_at_def)
  have "buffers_ok (?s\<lparr>fs_timeoutEventList := ?l\<rparr>)" using inv(1) by (simp add: buffers_ok_def)
  from timeout_loop_ok [OF this, of t] obtain fx s1 where
    s1: "timeout_loop True t ?l ?s = Some (fx, s1)" "buffers_ok s1" "fs_timeoutEventList s1 = ?rest"
      "fs_expiration s1 = fs_expiration s" by auto
  have later: "\<forall>e \<in> set ?l. t \<le> te_time e"
  proof (cases "?l = []")
    case False
    with inv(5) assms(3) have "t \<le> te_time (hd ?l)" by force
    with inv(3) show ?thesis by (cases ?l) (auto intro: order_trans)
  qed simp
  have rest: "set ?rest \<subseteq> set ?l" by (auto dest: set_dropWhileD)
  have "map te_time ?rest = dropWhile (\<lambda>x. x = t) (map te_time ?l)" by (simp add: dropWhile_map o_def)
  then have srt: "sorted (map te_time ?rest)" using sorted_dropWhile [OF inv(3)] by simp
  have ok: "sorted (map te_time ?rest) \<and> (\<forall>e \<in> set ?rest. t \<le> te_time e \<and> te_time e \<le> t + fs_expiration s)"
    using rest srt later inv(4) assms(4) by force
  show ?thesis
  proof (cases ?rest)
    case Nil
    with s1 inv(2) show ?thesis by (simp add: HandleTimeout_def buffers_at_def)
  next
    case (Cons e l)
    with s1 inv(2) ok show ?thesis by (simp add: HandleTimeout_def buffers_at_def buffers_ok_def Let_def)
  qed
qed

section \<open>Runs\<close>

text \<open>
  The states a node reaches: fragments arrive, and the simulator calls \<open>HandleTimeout\<close> at the pending
  times; neither happens after a pending time has passed.
\<close>

inductive fragment_reach :: "time \<Rightarrow> time \<Rightarrow> fragment_state \<Rightarrow> bool" for expiration where
  start: "fragment_reach expiration 0 (Fragment_make expiration)"
| arrive: "fragment_reach expiration now s \<Longrightarrow> now \<le> t \<Longrightarrow> \<forall>u \<in> set (fs_pending s). t \<le> u \<Longrightarrow>
    ProcessFragment t p h iif s = Some (r, s') \<Longrightarrow> fragment_reach expiration t s'"
| fire: "fragment_reach expiration now s \<Longrightarrow> now \<le> t \<Longrightarrow> t \<in> set (fs_pending s) \<Longrightarrow> \<forall>u \<in> set (fs_pending s). t \<le> u \<Longrightarrow>
    HandleTimeout True t (s\<lparr>fs_pending := remove1 t (fs_pending s)\<rparr>) = Some (fx, s') \<Longrightarrow> fragment_reach expiration t s'"

lemma fragment_reach_buffers:
  "fragment_reach expiration now s \<Longrightarrow> 0 \<le> expiration \<Longrightarrow> buffers_at now s \<and> fs_expiration s = expiration"
proof (induction rule: fragment_reach.induct)
  case start
  then show ?case by (simp add: buffers_at_def buffers_ok_make) (simp add: Fragment_make_def)
next
  case (arrive now s t p h iif r s')
  then show ?case using buffers_at_arrive [of now s t p h iif r s'] by simp
next
  case (fire now s t fx s')
  then show ?case using HandleTimeout_ok [of now s t] by auto
qed

section \<open>A packet cut on its way\<close>

text \<open>
  The fragments of the packet \<open>data\<close> with the header \<open>h\<close>: the packet is cut, and any fragment may be
  cut again for a smaller MTU.
\<close>

inductive carried :: "u8 list \<Rightarrow> ipv4_header \<Rightarrow> (u8 list \<times> ipv4_header) list \<Rightarrow> bool" for data h where
  whole: "carried data h [(data, h)]"
| cut: "carried data h (xs @ (p, h') # ys) \<Longrightarrow> 28 \<le> unat mtu \<Longrightarrow> unat mtu < 65536 \<Longrightarrow>
    DoFragmentation ck p h' mtu = Some gs \<Longrightarrow> carried data h (xs @ gs @ ys)"

text \<open>Cutting for an MTU of at least 28 returns, and what it returns.\<close>

lemma DoFragmentation_tiles:
  assumes "ih_headerSize h = 20" and "8 dvd unat (ih_fragmentOffset h)" and "p \<noteq> []"
    and "length p < 65536 - unat (ih_fragmentOffset h)" and "28 \<le> unat mtu" and "unat mtu < 65536"
  shows "\<exists>frs. DoFragmentation ck p h mtu = Some frs \<and>
    tiles (unat (ih_fragmentOffset h)) (\<not> Ih_IsLastFragment h) p (map tile_of frs) \<and>
    (\<forall>x \<in> set frs. length (fst x) + 20 \<le> unat mtu \<and> same_packet h (snd x) \<and> 8 dvd unat (ih_fragmentOffset (snd x)) \<and>
      ih_payloadSize (snd x) = word_of_nat (length (fst x)))"
proof -
  let ?fs = "fragment_size mtu h"
  have fs: "unat ?fs = (unat mtu - 20) div 8 * 8" using assms(1,5) by (intro fragment_size_unat) simp_all
  have "8 dvd unat ?fs" unfolding fs by simp
  moreover have "0 < unat ?fs" unfolding fs using assms(5) by (simp add: div_greater_zero_iff)
  moreover have le: "unat ?fs \<le> unat mtu - 20" unfolding fs by simp
  moreover have "unat ?fs < 65536" using le assms(6) by linarith
  ultimately obtain frs where frs: "fragment_loop ck p h ?fs 0 = Some frs"
    "tiles (unat (ih_fragmentOffset h)) (\<not> Ih_IsLastFragment h) p (map tile_of frs)"
    "\<forall>x \<in> set frs. length (fst x) \<le> unat ?fs \<and> same_packet h (snd x) \<and> 8 dvd unat (ih_fragmentOffset (snd x)) \<and>
      ih_payloadSize (snd x) = word_of_nat (length (fst x))"
    using fragment_loop_tiles [of p h ?fs 0 ck] assms(2-4) by auto
  moreover have "length (fst x) + 20 \<le> unat mtu" if "x \<in> set frs" for x
  proof -
    have "length (fst x) \<le> unat ?fs" using frs(3) that by blast
    with le assms(5) show ?thesis by linarith
  qed
  ultimately show ?thesis using assms(1) by (simp add: DoFragmentation_def)
qed

lemma same_packet_key: "same_packet h h' \<Longrightarrow> fragment_key_of h' = fragment_key_of h"
  by (simp add: same_packet_def fragment_key_of_def)

lemma same_packet_trans: "same_packet a b \<Longrightarrow> same_packet b c \<Longrightarrow> same_packet a c"
  by (simp add: same_packet_def)

lemma carried_tiles:
  assumes "carried data h frs" and "data \<noteq> []" and "length data < 65536"
    and "ih_fragmentOffset h = 0" and "Ih_IsLastFragment h" and "ih_headerSize h = 20"
  shows "tiles 0 False data (map tile_of frs) \<and>
    (\<forall>x \<in> set frs. same_packet h (snd x) \<and> 8 dvd unat (ih_fragmentOffset (snd x)))"
  using assms(1)
proof (induction rule: carried.induct)
  case whole
  then show ?case using assms by (simp add: tile_of_def same_packet_def)
next
  case (cut xs p h' ys mtu ck gs)
  let ?q = "unat (ih_fragmentOffset h')"
  from cut.IH have t: "tiles 0 False data (map tile_of xs @ (p, ?q, \<not> Ih_IsLastFragment h') # map tile_of ys)"
    and h': "same_packet h h'" "8 dvd ?q"
    using tile_of_def [of "(p, h')"] by simp_all
  have b: "?q + length p \<le> length data" "p \<noteq> []" using tiles_bounds [OF t, of p ?q "\<not> Ih_IsLastFragment h'"] by auto
  have "ih_headerSize h' = 20" using h'(1) assms(6) by (simp add: same_packet_def)
  from DoFragmentation_tiles [OF this h'(2) b(2) _ cut.hyps(2,3), of ck] b(1) assms(3) cut.hyps(4)
  have gs: "tiles ?q (\<not> Ih_IsLastFragment h') p (map tile_of gs)"
    "\<forall>x \<in> set gs. same_packet h' (snd x) \<and> 8 dvd unat (ih_fragmentOffset (snd x))" by auto
  from tiles_refine [OF t gs(1)] gs(2) cut.IH same_packet_trans [OF h'(1)] show ?case by auto
qed

section \<open>Fragments as they arrive\<close>

text \<open>What a node does with the fragments it receives: the packets completed, with their keys.\<close>

fun receive_all ::
    "(time \<times> u8 list \<times> ipv4_header \<times> u32) list \<Rightarrow> fragment_state \<Rightarrow> ((fragment_key \<times> u8 list) list \<times> fragment_state) option" where
  "receive_all [] s = Some ([], s)"
| "receive_all ((now, p, h, iif) # es) s =
     do {
       (r, s) \<leftarrow> ProcessFragment now p h iif s;
       (c, s) \<leftarrow> receive_all es s;
       Some (case r of None \<Rightarrow> c | Some q \<Rightarrow> (fragment_key_of h, q) # c, s)
     }"

text \<open>The buffer of a key holds the fragments received so far.\<close>

definition holds :: "tile list \<Rightarrow> tile list \<Rightarrow> fragment_key \<Rightarrow> fragment_state \<Rightarrow> bool" where
  "holds ts xs k s \<longleftrightarrow>
     (case fs_fragments s k of None \<Rightarrow> xs = [] | Some f \<Rightarrow> xs \<noteq> [] \<and> collects ts xs f)"

lemma holds_other:
  assumes "ProcessFragment now p h iif s = Some (r, s')" and "fragment_key_of h \<noteq> k"
  shows "holds ts xs k s' \<longleftrightarrow> holds ts xs k s"
proof -
  have "fs_fragments s' k = fs_fragments s k"
    using assms
    by (auto simp: ProcessFragment_eq state_after_def Let_def elim!: bind_Some_elim split: if_splits)
  then show ?thesis by (simp add: holds_def)
qed

lemma process_tile:
  assumes "buffers_ok s" and "tiles 0 False data ts" and "length data < 65536"
    and "holds ts xs (fragment_key_of h) s" and "tile_of (p, h) \<in> set ts"
  shows "\<exists>s'. buffers_ok s' \<and>
    (if set (xs @ [tile_of (p, h)]) = set ts
     then ProcessFragment now p h iif s = Some (Some data, s') \<and> fs_fragments s' (fragment_key_of h) = None
     else ProcessFragment now p h iif s = Some (None, s') \<and> holds ts (xs @ [tile_of (p, h)]) (fragment_key_of h) s')"
proof -
  let ?k = "fragment_key_of h" and ?f = "buffer_after p h s" and ?xs = "xs @ [tile_of (p, h)]"
  have c: "collects ts ?xs ?f"
    using assms(4) collects_add [OF assms(2,3) collects_make assms(5), of "fs_nextIter s"]
    by (auto simp: holds_def buffer_after_def intro: collects_add [OF assms(2,3) _ assms(5)] split: option.splits)
  obtain r s' where r: "ProcessFragment now p h iif s = Some (r, s')" "buffers_ok s'"
    using ProcessFragment_ok [OF assms(1)] by blast
  show ?thesis
  proof (cases "set ?xs = set ts")
    case True
    have "IsEntire ?f" using collects_entire [OF assms(2,3) c] True by simp
    moreover have "GetPacket ?f = Some data" by (rule collects_packet [OF assms(2,3) c True])
    ultimately have "r = Some data \<and> fs_fragments s' ?k = None"
      using r(1) by (auto simp: ProcessFragment_eq Let_def elim!: bind_Some_elim)
    with r True show ?thesis by auto
  next
    case False
    have "\<not> IsEntire ?f" using collects_entire [OF assms(2,3) c] False by simp
    then have "r = None \<and> fs_fragments s' ?k = Some ?f"
      using r(1) by (auto simp: ProcessFragment_eq Let_def state_after_def)
    with r False c show ?thesis by (auto simp: holds_def)
  qed
qed

lemma receive_all_ok:
  "buffers_ok s \<Longrightarrow> \<exists>c s'. receive_all es s = Some (c, s') \<and> buffers_ok s'"
proof (induction es arbitrary: s)
  case (Cons e es)
  obtain now p h iif where e: "e = (now, p, h, iif)" by (cases e)
  obtain r s1 where s1: "ProcessFragment now p h iif s = Some (r, s1)" "buffers_ok s1"
    using ProcessFragment_ok [OF Cons.prems] by blast
  from Cons.IH [OF s1(2)] obtain c s' where "receive_all es s1 = Some (c, s')" "buffers_ok s'" by blast
  with s1 e show ?case by simp
qed simp

text \<open>The fragments of one key among those received.\<close>

definition pieces :: "fragment_key \<Rightarrow> (time \<times> u8 list \<times> ipv4_header \<times> u32) list \<Rightarrow> (u8 list \<times> ipv4_header) list" where
  "pieces k es = map (\<lambda>(now, p, h, iif). (p, h)) (filter (\<lambda>(now, p, h, iif). fragment_key_of h = k) es)"

lemma pieces_Cons:
  "pieces k ((now, p, h, iif) # es) = (if fragment_key_of h = k then (p, h) # pieces k es else pieces k es)"
  by (simp add: pieces_def)

lemma receive_incomplete:
  "buffers_ok s \<Longrightarrow> tiles 0 False data ts \<Longrightarrow> length data < 65536 \<Longrightarrow> holds ts xs k s \<Longrightarrow>
    tile_of ` set (pieces k es) \<subseteq> set ts \<Longrightarrow> set xs \<union> tile_of ` set (pieces k es) \<noteq> set ts \<Longrightarrow>
    \<exists>c s'. receive_all es s = Some (c, s') \<and> buffers_ok s' \<and> (\<forall>x \<in> set c. fst x \<noteq> k) \<and>
      holds ts (xs @ map tile_of (pieces k es)) k s'"
proof (induction es arbitrary: s xs)
  case Nil
  then show ?case by (simp add: pieces_def)
next
  case (Cons e es)
  obtain now p h iif where e: "e = (now, p, h, iif)" by (cases e)
  show ?case
  proof (cases "fragment_key_of h = k")
    case True
    let ?t = "tile_of (p, h)"
    have t: "?t \<in> set ts" using Cons.prems(5) True by (simp add: e pieces_Cons)
    have "set (xs @ [?t]) \<noteq> set ts"
    proof
      assume eq: "set (xs @ [?t]) = set ts"
      have "tile_of ` set (pieces k es) \<subseteq> set ts" using Cons.prems(5) True by (simp add: e pieces_Cons)
      with eq Cons.prems(6) True show False by (auto simp: e pieces_Cons)
    qed
    with process_tile [OF Cons.prems(1-3), of xs h p now iif] Cons.prems(4) t True obtain s1 where
      s1: "buffers_ok s1" "ProcessFragment now p h iif s = Some (None, s1)" "holds ts (xs @ [?t]) k s1" by auto
    have "tile_of ` set (pieces k es) \<subseteq> set ts" "set (xs @ [?t]) \<union> tile_of ` set (pieces k es) \<noteq> set ts"
      using Cons.prems(5,6) True by (simp_all add: e pieces_Cons)
    from Cons.IH [OF s1(1) Cons.prems(2,3) s1(3) this] s1(2) True show ?thesis
      by (auto simp: e pieces_Cons)
  next
    case False
    obtain r s1 where s1: "ProcessFragment now p h iif s = Some (r, s1)" "buffers_ok s1"
      using ProcessFragment_ok [OF Cons.prems(1)] by blast
    have "holds ts xs k s1" using holds_other [OF s1(1) False] Cons.prems(4) by simp
    from Cons.IH [OF s1(2) Cons.prems(2,3) this] Cons.prems(5,6) False s1(1) show ?thesis
      by (auto simp: e pieces_Cons split: option.splits)
  qed
qed

section \<open>Properties\<close>

text \<open>Property C10: a packet comes out of its fragments. However often it was cut on its way (for MTUs
  of at least 28), in whatever order its fragments arrive, also repeatedly and between fragments
  of other packets, nothing is handed up until all were received; the fragment that completes
  them gives exactly the packet sent, and its buffer is gone.\<close>

theorem fragments_reassembled:
  assumes "carried data h frs" and "data \<noteq> []" and "length data < 65536"
    and "ih_fragmentOffset h = 0" and "Ih_IsLastFragment h" and "ih_headerSize h = 20"
    and "fragment_reach expiration now s" and "0 \<le> expiration" and "fs_fragments s (fragment_key_of h) = None"
    and "set (pieces (fragment_key_of h) es) \<subset> set frs"
    and "insert (p, h') (set (pieces (fragment_key_of h) es)) = set frs"
  shows "\<exists>c s1 s2. receive_all es s = Some (c, s1) \<and> (\<forall>x \<in> set c. fst x \<noteq> fragment_key_of h) \<and>
    ProcessFragment t p h' iif s1 = Some (Some data, s2) \<and> fs_fragments s2 (fragment_key_of h) = None"
proof -
  let ?k = "fragment_key_of h" and ?ts = "map tile_of frs"
  have ts: "tiles 0 False data ?ts" and frs: "\<forall>x \<in> set frs. same_packet h (snd x)"
    using carried_tiles [OF assms(1-6)] by auto
  have dist: "inj_on tile_of (set frs)"
    using stored_inj [OF ts] assms(3) by (simp add: distinct_map)
  have ok: "buffers_ok s" using fragment_reach_buffers [OF assms(7,8)] by (simp add: buffers_at_def)
  have h0: "holds ?ts [] ?k s" using assms(9) by (simp add: holds_def)
  have sub: "tile_of ` set (pieces ?k es) \<subseteq> set ?ts" using assms(10) by auto
  have "tile_of ` set (pieces ?k es) \<noteq> tile_of ` set frs"
    using assms(10) dist by (metis inj_on_image_eq_iff order_refl psubset_imp_subset psubsetE)
  then have "set [] \<union> tile_of ` set (pieces ?k es) \<noteq> set ?ts" by simp
  from receive_incomplete [OF ok ts assms(3) h0 sub this] obtain c s1 where
    c: "receive_all es s = Some (c, s1)" "buffers_ok s1" "\<forall>x \<in> set c. fst x \<noteq> ?k"
      "holds ?ts (map tile_of (pieces ?k es)) ?k s1" by auto
  have mem: "(p, h') \<in> set frs" using assms(11) by blast
  then have k: "fragment_key_of h' = ?k" using frs same_packet_key by fastforce
  have "set (map tile_of (pieces ?k es) @ [tile_of (p, h')]) = set ?ts"
    using assms(11) by (metis image_insert list.set_map set_append list.set(1,2) Un_insert_right Un_empty_right)
  with process_tile [OF c(2) ts assms(3), of "map tile_of (pieces ?k es)" h' p t iif] c(4) k mem
  obtain s2 where "ProcessFragment t p h' iif s1 = Some (Some data, s2)" "fs_fragments s2 ?k = None" by auto
  with c(1,3) show ?thesis by blast
qed

text \<open>Property C31: in every state a node reaches, whatever fragments it received, the next fragment and the
  next time-out are processed without a failed access, every incomplete packet has its entry in
  the list of time-outs, is younger than the time-out, and a call of \<open>HandleTimeout\<close> is pending
  before its time is over.\<close>

theorem fragment_buffers_live:
  assumes "fragment_reach expiration now s" and "0 \<le> expiration"
  shows "(\<forall>t p h iif. ProcessFragment t p h iif s \<noteq> None) \<and>
    (\<forall>t \<in> set (fs_pending s). now \<le> t \<and> (\<forall>u \<in> set (fs_pending s). t \<le> u) \<longrightarrow>
       HandleTimeout True t (s\<lparr>fs_pending := remove1 t (fs_pending s)\<rparr>) \<noteq> None) \<and>
    (\<forall>k f. fs_fragments s k = Some f \<longrightarrow>
       (\<exists>e \<in> set (fs_timeoutEventList s). te_key e = k \<and> now \<le> te_time e \<and> te_time e \<le> now + expiration \<and>
          (\<exists>t \<in> set (fs_pending s). t \<le> te_time e)))"
proof -
  have at: "buffers_at now s" "fs_expiration s = expiration" using fragment_reach_buffers [OF assms] by simp_all
  then have ok: "buffers_ok s" by (simp add: buffers_at_def)
  have "\<exists>e \<in> set (fs_timeoutEventList s). te_key e = k \<and> now \<le> te_time e \<and> te_time e \<le> now + expiration \<and>
      (\<exists>t \<in> set (fs_pending s). t \<le> te_time e)" if "fs_fragments s k = Some f" for k f
  proof -
    from buffers_entry [OF ok that] obtain e where e: "e \<in> set (fs_timeoutEventList s)" "te_key e = k" .
    then have ne: "fs_timeoutEventList s \<noteq> []" by auto
    then obtain t where t: "t \<in> set (fs_pending s)" "t \<le> te_time (hd (fs_timeoutEventList s))"
      using at(1) by (auto simp: buffers_at_def)
    have "te_time (hd (fs_timeoutEventList s)) \<le> te_time e"
      using at(1) e(1) ne by (cases "fs_timeoutEventList s") (auto simp: buffers_at_def)
    with t e at show ?thesis by (auto simp: buffers_at_def intro: order_trans)
  qed
  then show ?thesis using ProcessFragment_ok [OF ok] HandleTimeout_ok [OF at(1)] by (metis option.distinct(1))
qed

text \<open>Property C30: cutting for an MTU of at least 28 returns; the fragments are consecutive pieces of the packet,
  none exceeds the MTU with its header, their offsets are multiples of 8, all but the last are marked, and
  they keep the other fields. For a smaller MTU that holds a header the fragment size is 0, and the loop,
  which keeps cutting empty fragments, does not return.\<close>

theorem fragmentation_returns:
  assumes "ih_headerSize h = 20" and "8 dvd unat (ih_fragmentOffset h)" and "p \<noteq> []"
    and "length p < 65536 - unat (ih_fragmentOffset h)" and "20 \<le> unat mtu" and "unat mtu < 65536"
  shows "if 28 \<le> unat mtu
    then \<exists>frs. DoFragmentation ck p h mtu = Some frs \<and> concat (map fst frs) = p \<and>
      tiles (unat (ih_fragmentOffset h)) (\<not> Ih_IsLastFragment h) p (map tile_of frs) \<and>
      (\<forall>x \<in> set frs. length (fst x) + 20 \<le> unat mtu \<and> same_packet h (snd x) \<and> 8 dvd unat (ih_fragmentOffset (snd x)) \<and>
        ih_payloadSize (snd x) = word_of_nat (length (fst x)))
    else DoFragmentation ck p h mtu = None"
proof (cases "28 \<le> unat mtu")
  case True
  from DoFragmentation_tiles [OF assms(1-4) this assms(6), of ck] obtain frs where
    frs: "DoFragmentation ck p h mtu = Some frs"
      "tiles (unat (ih_fragmentOffset h)) (\<not> Ih_IsLastFragment h) p (map tile_of frs)"
      "\<forall>x \<in> set frs. length (fst x) + 20 \<le> unat mtu \<and> same_packet h (snd x) \<and> 8 dvd unat (ih_fragmentOffset (snd x)) \<and>
        ih_payloadSize (snd x) = word_of_nat (length (fst x))" by blast
  have "fst \<circ> tile_of = fst" by (simp add: fun_eq_iff tile_of_def)
  with tiles_bytes [OF frs(2)] have "concat (map fst frs) = p" by simp
  with True frs show ?thesis by auto
next
  case False
  with assms(5) have "fragment_size mtu h = 0" by (intro fragment_size_zero [OF assms(1)]) simp_all
  moreover have "length p < 65536" "unat (0 :: u16) < length p" using assms(3,4) by simp_all
  ultimately show ?thesis
    using False assms(1) fragment_loop_diverges [of p 0 ck h] by (simp add: DoFragmentation_def)
qed

text \<open>The packet a time-out reports is the longest run of bytes from the start of the packet that was
  received; more than 8 of them are also sent back in an ICMP message, and the buffer is cleared.\<close>

theorem timeout_reports_prefix:
  assumes "tiles 0 False data (map tile_of frs)" and "length data < 65536"
    and "holds (map tile_of frs) xs k s" and "xs \<noteq> []"
  shows "\<exists>s'. let got = concat (map fst (takeWhile (\<lambda>t. t \<in> set xs) (map tile_of frs))) in
    HandleFragmentsTimeout True k h iif s =
      Some ((if length got > 8 then [TimeExceeded h got] else []) @ [FragmentTimeout h got iif], s') \<and>
    take (length got) data = got \<and> fs_fragments s' k = None"
proof -
  let ?got = "concat (map fst (takeWhile (\<lambda>t. t \<in> set xs) (map tile_of frs)))"
  obtain f where f: "fs_fragments s k = Some f" "collects (map tile_of frs) xs f"
    using assms(3,4) by (auto simp: holds_def split: option.splits)
  have p: "GetPartialPacket f = Some ?got" by (rule collects_partial [OF assms(1,2) f(2) assms(4)])
  have "concat (map fst (map tile_of frs)) = data" using tiles_bytes [OF assms(1)] by blast
  then have data: "data = ?got @ concat (map fst (dropWhile (\<lambda>t. t \<in> set xs) (map tile_of frs)))"
    by (metis concat_append map_append takeWhile_dropWhile_id)
  then have "length ?got \<le> length data" by (metis length_append le_add1)
  then have "unat (word_of_nat (length ?got) :: u32) = length ?got" using assms(2) by (intro unat_len32) simp
  then have "(word_of_nat (length ?got) :: u32) > 8 \<longleftrightarrow> length ?got > 8" by (simp add: word_less_nat_alt)
  moreover have "take (length ?got) data = ?got" using data by (metis append_eq_conv_conj)
  ultimately show ?thesis using f(1) p by (auto simp: HandleFragmentsTimeout_def Let_def)
qed

section \<open>Witnesses\<close>

text \<open>Sixteen bytes cut for an MTU of 28.\<close>

definition data0 :: "u8 list" where
  "data0 = [1, 2, 3, 4, 5, 6, 7, 8, 9, 10, 11, 12, 13, 14, 15, 16]"

definition frag1 :: ipv4_header where
  "frag1 = Ih_make\<lparr>ih_flags := 2, ih_payloadSize := 8\<rparr>"

definition frag2 :: ipv4_header where
  "frag2 = Ih_make\<lparr>ih_fragmentOffset := 8, ih_payloadSize := 8\<rparr>"

definition frags0 :: "(u8 list \<times> ipv4_header) list" where
  "frags0 = [(take 8 data0, frag1), (drop 8 data0, frag2)]"

lemma cut0: "DoFragmentation False data0 Ih_make 28 = Some frags0"
  by code_simp

lemma carried0: "carried data0 Ih_make frags0"
  using carried.cut [of data0 Ih_make "[]" data0 Ih_make "[]" 28 False frags0] carried.whole [of data0 Ih_make] cut0
  by simp

lemma header0_whole:
  "ih_fragmentOffset Ih_make = 0" "Ih_IsLastFragment Ih_make" "ih_headerSize Ih_make = 20" "length data0 < 65536" "data0 \<noteq> []"
  by (simp_all add: Ih_make_def Ih_IsLastFragment_def data0_def)

lemma keys0: "fragment_key_of frag1 = fragment_key_of Ih_make" "fragment_key_of frag2 = fragment_key_of Ih_make"
  by (simp_all add: frag1_def frag2_def fragment_key_of_def)

theorem fragmentation_returns_witness:
  "DoFragmentation False data0 Ih_make 27 = None \<and> (\<exists>frs. DoFragmentation False data0 Ih_make 28 = Some frs \<and> concat (map fst frs) = data0)"
  using fragmentation_returns [of Ih_make data0 27 False] fragmentation_returns [of Ih_make data0 28 False] header0_whole
  by auto

theorem fragments_reassembled_witness:
  "\<exists>c s1 s2. receive_all [(5, drop 8 data0, frag2, 1)] (Fragment_make 30) = Some (c, s1) \<and>
    (\<forall>x \<in> set c. fst x \<noteq> fragment_key_of Ih_make) \<and>
    ProcessFragment 6 (take 8 data0) frag1 1 s1 = Some (Some data0, s2) \<and> fs_fragments s2 (fragment_key_of Ih_make) = None"
proof -
  have pieces: "pieces (fragment_key_of Ih_make) [(5, drop 8 data0, frag2, 1)] = [(drop 8 data0, frag2)]"
    by (simp add: pieces_def keys0)
  have "frag1 \<noteq> frag2" by (simp add: frag1_def frag2_def Ih_make_def)
  then show ?thesis
    by (intro fragments_reassembled [OF carried0 header0_whole(5,4,1-3) fragment_reach.start [of 30]])
      (auto simp: pieces frags0_def Fragment_make_def)
qed

theorem fragment_buffers_live_witness:
  "\<exists>r s e t. ProcessFragment 5 (drop 8 data0) frag2 1 (Fragment_make 30) = Some (r, s) \<and>
    fs_fragments s (fragment_key_of frag2) \<noteq> None \<and> e \<in> set (fs_timeoutEventList s) \<and>
    te_key e = fragment_key_of frag2 \<and> te_time e \<le> 5 + 30 \<and> t \<in> set (fs_pending s) \<and> t \<le> te_time e"
proof -
  have p: "ProcessFragment 5 (drop 8 data0) frag2 1 (Fragment_make 30) =
      Some (None, state_after 5 (drop 8 data0) frag2 1 (Fragment_make 30))" (is "_ = Some (None, ?s)")
  proof -
    have "\<not> IsEntire (buffer_after (drop 8 data0) frag2 (Fragment_make 30))"
      by (simp add: IsEntire_def buffer_after_def Fragment_make_def AddFragment_def Fragments_make_def frag2_def word_less_nat_alt)
    then show ?thesis by (simp add: ProcessFragment_eq Let_def)
  qed
  have "\<forall>u \<in> set (fs_pending (Fragment_make 30)). 5 \<le> u" by (simp add: Fragment_make_def)
  from fragment_reach.arrive [OF fragment_reach.start _ this p] have reach: "fragment_reach 30 5 ?s" by simp
  have f: "fs_fragments ?s (fragment_key_of frag2) = Some (buffer_after (drop 8 data0) frag2 (Fragment_make 30))"
    by (simp add: state_after_def Let_def)
  have "0 \<le> (30 :: time)" by simp
  from fragment_buffers_live [OF reach this, THEN conjunct2, THEN conjunct2, rule_format, OF f] obtain e t where
    "e \<in> set (fs_timeoutEventList ?s)" "te_key e = fragment_key_of frag2" "te_time e \<le> 5 + 30"
    "t \<in> set (fs_pending ?s)" "t \<le> te_time e" by blast
  with p f show ?thesis by blast
qed

theorem timeout_reports_prefix_witness:
  "\<exists>s'. HandleFragmentsTimeout True (fragment_key_of Ih_make) frag1 1
      ((Fragment_make 30)\<lparr>fs_fragments := [fragment_key_of Ih_make \<mapsto>
         AddFragment (take 8 data0) 0 True (Fragments_make\<lparr>fr_timeoutIter := 0\<rparr>)]\<rparr>) =
    Some ([FragmentTimeout frag1 (take 8 data0) 1], s')"
proof -
  let ?ts = "map tile_of frags0" and ?f = "AddFragment (take 8 data0) 0 True (Fragments_make\<lparr>fr_timeoutIter := 0\<rparr>)"
  let ?s = "(Fragment_make 30)\<lparr>fs_fragments := [fragment_key_of Ih_make \<mapsto> ?f]\<rparr>"
  have ts: "tiles 0 False data0 ?ts" using carried_tiles [OF carried0 header0_whole(5,4,1-3)] by blast
  have h1: "ih_fragmentOffset frag1 = 0" "\<not> Ih_IsLastFragment frag1" "ih_fragmentOffset frag2 = 8"
    by (simp_all add: frag1_def frag2_def Ih_make_def Ih_IsLastFragment_def MORE_FRAGMENTS_def)
  have "tile_of (take 8 data0, frag1) \<in> set ?ts" by (simp add: frags0_def)
  from collects_add [OF ts header0_whole(4) collects_make this] h1
  have "holds ?ts [tile_of (take 8 data0, frag1)] (fragment_key_of Ih_make) ?s" by (simp add: holds_def)
  moreover have "takeWhile (\<lambda>t. t \<in> set [tile_of (take 8 data0, frag1)]) ?ts = [tile_of (take 8 data0, frag1)]"
    using h1 by (simp add: frags0_def tile_of_def)
  moreover have "length (take 8 data0) = 8" by (simp add: data0_def)
  ultimately show ?thesis
    using timeout_reports_prefix [OF ts header0_whole(4), of "[tile_of (take 8 data0, frag1)]" "fragment_key_of Ih_make" ?s frag1 1]
    by (auto simp: tile_of_def Let_def)
qed

end
