(* ===== verification/Ipv4_Layer.thy ===== *)
theory Ipv4_Layer
  imports Ipv4_List_Routing Ipv4_Fragment_Run Arp_Cache
begin

text \<open>
  The protocol object \<open>Ipv4L3Protocol\<close> (src/internet/model/ipv4-l3-protocol.cc): its interfaces and
  upper protocols, the identification of packets, sending, forwarding, the detection of
  duplicates, local delivery and the reception of frames. Fragments are in the theories before.
  A frame handed to \<open>Ipv4Interface::Send\<close>, a packet handed to an upper protocol and the drop trace
  are entries of the log \<open>l3_out\<close>; the other trace sources are left out. A routing protocol is
  the record of its virtual functions, over the interfaces of the node.
\<close>

section \<open>State\<close>

datatype drop_reason =
  DROP_TTL_EXPIRED | DROP_NO_ROUTE | DROP_BAD_CHECKSUM | DROP_INTERFACE_DOWN | DROP_ROUTE_ERROR
| DROP_FRAGMENT_TIMEOUT | DROP_DUPLICATE

datatype RxStatus = RX_OK | RX_CSUM_FAILED | RX_ENDPOINT_CLOSED | RX_ENDPOINT_UNREACH

datatype l3_effect =
  IfSend int packet ipv4_header ip
| L4Receive nat packet ipv4_header u32
| RawForwardUp nat packet ipv4_header int
| Dropped drop_reason ipv4_header packet u32
| IcmpTimeExceeded ipv4_header packet bool
| IcmpDestUnreachPort ipv4_header packet

text \<open>
  What the object asks of others: the time, \<open>Node::ChecksumEnabled\<close>, the MTU of a device,
  \<open>Hash32\<close>, whether the gateway of a route was set (an address of the model does not hold its
  \<^verbatim>\<open>m_initialized\<close>), and the status an upper protocol returns.
\<close>

record l3_env =
  le_now :: time
  le_checksum :: bool
  le_mtu :: "dev \<Rightarrow> u16"
  le_hash32 :: "u8 list \<Rightarrow> u32"
  le_initialized :: "Ipv4Route \<Rightarrow> bool"
  le_rxStatus :: "nat \<Rightarrow> packet \<Rightarrow> ipv4_header \<Rightarrow> u32 \<Rightarrow> RxStatus"

type_synonym dup_tuple = "u64 \<times> u8 \<times> ip \<times> ip"
type_synonym 'w routing = "Ipv4 \<Rightarrow> bool \<Rightarrow> (packet \<times> ipv4_header, 'w) routing_protocol"

text \<open>
  \<^verbatim>\<open>m_identification\<close> is a map read with \<^verbatim>\<open>operator[]\<close>: a missing key is 0. The
  order of \<^verbatim>\<open>m_dups\<close> does not matter. \<open>l3_world\<close> is the state of
  the routing protocols; \<open>l3_caches\<close> are the ARP caches the interfaces point to.
\<close>

record 'w l3 =
  l3_interfaces :: Ipv4
  l3_caches :: "nat \<rightharpoonup> ArpCache"
  l3_ipForward :: bool
  l3_weakEsModel :: bool
  l3_defaultTtl :: u8
  l3_identification :: "u64 \<times> u8 \<Rightarrow> u16"
  l3_protocols :: "int \<times> int \<rightharpoonup> nat"
  l3_sockets :: "nat list"
  l3_fragments :: fragment_state
  l3_enableDpd :: bool
  l3_dups :: "(dup_tuple \<times> time) list"
  l3_expire :: time
  l3_purge :: time
  l3_cleanDpd :: timer
  l3_routing :: "'w routing option"
  l3_world :: 'w
  l3_out :: "l3_effect list"

definition L3_make :: "'w \<Rightarrow> 'w l3" where
  "L3_make w =
     \<lparr>l3_interfaces = [], l3_caches = Map.empty, l3_ipForward = True, l3_weakEsModel = True,
      l3_defaultTtl = 64, l3_identification = (\<lambda>_. 0), l3_protocols = Map.empty, l3_sockets = [],
      l3_fragments = Fragment_make (Seconds_int 30), l3_enableDpd = False, l3_dups = [],
      l3_expire = MilliSeconds 1, l3_purge = Seconds_int 1, l3_cleanDpd = None,
      l3_routing = None, l3_world = w, l3_out = []\<rparr>"

definition l3_log :: "l3_effect list \<Rightarrow> 'w l3 \<Rightarrow> 'w l3" where
  "l3_log es s = s\<lparr>l3_out := l3_out s @ es\<rparr>"

definition L3_protocol :: "'w l3 \<Rightarrow> (packet \<times> ipv4_header, 'w) routing_protocol option" where
  "L3_protocol s = map_option (\<lambda>r. r (l3_interfaces s) (l3_weakEsModel s)) (l3_routing s)"

section \<open>Upper protocols and raw sockets\<close>

text \<open>A protocol is its identity and its number; the key of the map has -1 for all interfaces.\<close>

definition L3_Insert :: "nat \<Rightarrow> int \<Rightarrow> 'w l3 \<Rightarrow> 'w l3" where
  "L3_Insert protocol number s = s\<lparr>l3_protocols := (l3_protocols s)((number, -1) \<mapsto> protocol)\<rparr>"

definition L3_Insert_interface :: "nat \<Rightarrow> int \<Rightarrow> u32 \<Rightarrow> 'w l3 \<Rightarrow> 'w l3" where
  "L3_Insert_interface protocol number i s =
     s\<lparr>l3_protocols := (l3_protocols s)((number, sint i) \<mapsto> protocol)\<rparr>"

definition L3_Remove :: "int \<Rightarrow> 'w l3 \<Rightarrow> 'w l3" where
  "L3_Remove number s = s\<lparr>l3_protocols := (l3_protocols s)((number, -1) := None)\<rparr>"

definition L3_Remove_interface :: "int \<Rightarrow> u32 \<Rightarrow> 'w l3 \<Rightarrow> 'w l3" where
  "L3_Remove_interface number i s =
     s\<lparr>l3_protocols := (l3_protocols s)((number, sint i) := None)\<rparr>"

definition L3_GetProtocol :: "int \<Rightarrow> int \<Rightarrow> 'w l3 \<Rightarrow> nat option" where
  "L3_GetProtocol number i s =
     (case if i \<ge> 0 then l3_protocols s (number, i) else None of
        Some p \<Rightarrow> Some p
      | None \<Rightarrow> l3_protocols s (number, -1))"

definition L3_GetIcmp :: "'w l3 \<Rightarrow> nat option" where
  "L3_GetIcmp s = L3_GetProtocol 1 (-1) s"

definition L3_CreateRawSocket :: "nat \<Rightarrow> 'w l3 \<Rightarrow> 'w l3" where
  "L3_CreateRawSocket sock s = s\<lparr>l3_sockets := l3_sockets s @ [sock]\<rparr>"

definition L3_DeleteRawSocket :: "nat \<Rightarrow> 'w l3 \<Rightarrow> 'w l3" where
  "L3_DeleteRawSocket sock s = s\<lparr>l3_sockets := remove1 sock (l3_sockets s)\<rparr>"

section \<open>Interfaces and addresses\<close>

definition L3_notify :: "route_notification \<Rightarrow> 'w l3 \<Rightarrow> 'w l3 option" where
  "L3_notify n s =
     (case L3_protocol s of
        None \<Rightarrow> Some s
      | Some r \<Rightarrow> map_option (\<lambda>w. s\<lparr>l3_world := w\<rparr>) (rp_notify r n (l3_world s)))"

definition L3_SetRoutingProtocol :: "'w routing \<Rightarrow> 'w l3 \<Rightarrow> 'w l3 option" where
  "L3_SetRoutingProtocol r s = L3_notify NotifyIpv4 (s\<lparr>l3_routing := Some r\<rparr>)"

definition L3_AddIpv4Interface :: "Ipv4Interface \<Rightarrow> 'w l3 \<Rightarrow> u32 \<times> 'w l3" where
  "L3_AddIpv4Interface f s =
     (word_of_nat (length (l3_interfaces s)), s\<lparr>l3_interfaces := l3_interfaces s @ [f]\<rparr>)"

definition L3_AddInterface :: "dev \<Rightarrow> nat option \<Rightarrow> 'w l3 \<Rightarrow> u32 \<times> 'w l3" where
  "L3_AddInterface d arp s =
     L3_AddIpv4Interface \<lparr>if_dev = d, if_addrs = [], if_up = False, if_forwarding = l3_ipForward s, if_arp = arp\<rparr> s"

definition L3_SetupLoopback :: "dev \<Rightarrow> 'w l3 \<Rightarrow> 'w l3 option" where
  "L3_SetupLoopback d s =
     (let ifaceAddr = Ipv4InterfaceAddress_make Ipv4Address_GetLoopback 0xff000000;
          (i, s) = L3_AddIpv4Interface
            \<lparr>if_dev = d, if_addrs = [ifaceAddr], if_up = True, if_forwarding = True, if_arp = None\<rparr> s
      in L3_notify (NotifyUp i) s)"

text \<open>An operation on the interface of an index that does not exist is a call on a null pointer.\<close>

definition L3_on_interface :: "u32 \<Rightarrow> (Ipv4Interface \<Rightarrow> Ipv4Interface) \<Rightarrow> 'w l3 \<Rightarrow> 'w l3 option" where
  "L3_on_interface i f s =
     do {
       iface \<leftarrow> Ipv4_GetInterface (l3_interfaces s) (uint i);
       Some (s\<lparr>l3_interfaces := (l3_interfaces s)[unat i := f iface]\<rparr>)
     }"

definition L3_AddAddress :: "u32 \<Rightarrow> Ipv4InterfaceAddress \<Rightarrow> 'w l3 \<Rightarrow> (bool \<times> 'w l3) option" where
  "L3_AddAddress i address s =
     do {
       s \<leftarrow> L3_on_interface i (\<lambda>f. f\<lparr>if_addrs := if_addrs f @ [address]\<rparr>) s;
       s \<leftarrow> L3_notify (NotifyAdded i address) s;
       Some (True, s)
     }"

definition Interface_RemoveAddress_index ::
    "nat \<Rightarrow> Ipv4Interface \<Rightarrow> (Ipv4InterfaceAddress \<times> Ipv4Interface) option" where
  "Interface_RemoveAddress_index k f =
     do {
       ensure (k < length (if_addrs f));
       Some (if_addrs f ! k, f\<lparr>if_addrs := take k (if_addrs f) @ drop (Suc k) (if_addrs f)\<rparr>)
     }"

definition Interface_RemoveAddress :: "ip \<Rightarrow> Ipv4Interface \<Rightarrow> Ipv4InterfaceAddress \<times> Ipv4Interface" where
  "Interface_RemoveAddress address f =
     (if address = Ipv4Address_GetLoopback then (Ipv4InterfaceAddress_default, f)
      else case find (\<lambda>a. ia_local a = address) (if_addrs f) of
             None \<Rightarrow> (Ipv4InterfaceAddress_default, f)
           | Some a \<Rightarrow> (a, f\<lparr>if_addrs := snd (remove_first (\<lambda>a. ia_local a = address) (if_addrs f))\<rparr>))"

definition L3_removed :: "u32 \<Rightarrow> Ipv4InterfaceAddress \<Rightarrow> 'w l3 \<Rightarrow> (bool \<times> 'w l3) option" where
  "L3_removed i address s =
     (if address \<noteq> Ipv4InterfaceAddress_default
      then do { s \<leftarrow> L3_notify (NotifyRemoved i address) s; Some (True, s) }
      else Some (False, s))"

definition L3_RemoveAddress_index :: "u32 \<Rightarrow> nat \<Rightarrow> 'w l3 \<Rightarrow> (bool \<times> 'w l3) option" where
  "L3_RemoveAddress_index i k s =
     do {
       iface \<leftarrow> Ipv4_GetInterface (l3_interfaces s) (uint i);
       (address, iface) \<leftarrow> Interface_RemoveAddress_index k iface;
       s \<leftarrow> L3_on_interface i (\<lambda>_. iface) s;
       L3_removed i address s
     }"

definition L3_RemoveAddress :: "u32 \<Rightarrow> ip \<Rightarrow> 'w l3 \<Rightarrow> (bool \<times> 'w l3) option" where
  "L3_RemoveAddress i address s =
     (if address = Ipv4Address_GetLoopback then Some (False, s)
      else do {
        iface \<leftarrow> Ipv4_GetInterface (l3_interfaces s) (uint i);
        let (ifAddr, iface) = Interface_RemoveAddress address iface;
        s \<leftarrow> L3_on_interface i (\<lambda>_. iface) s;
        L3_removed i ifAddr s
      })"

definition L3_SetUp :: "l3_env \<Rightarrow> u32 \<Rightarrow> 'w l3 \<Rightarrow> 'w l3 option" where
  "L3_SetUp env i s =
     do {
       iface \<leftarrow> Ipv4_GetInterface (l3_interfaces s) (uint i);
       if le_mtu env (if_dev iface) \<ge> 68 then do {
         s \<leftarrow> L3_on_interface i (\<lambda>f. f\<lparr>if_up := True\<rparr>) s;
         L3_notify (NotifyUp i) s
       } else Some s
     }"

definition L3_SetDown :: "u32 \<Rightarrow> 'w l3 \<Rightarrow> 'w l3 option" where
  "L3_SetDown i s =
     do {
       s \<leftarrow> L3_on_interface i (\<lambda>f. f\<lparr>if_up := False\<rparr>) s;
       L3_notify (NotifyDown i) s
     }"

definition L3_SetForwarding :: "u32 \<Rightarrow> bool \<Rightarrow> 'w l3 \<Rightarrow> 'w l3 option" where
  "L3_SetForwarding i val s = L3_on_interface i (\<lambda>f. f\<lparr>if_forwarding := val\<rparr>) s"

definition L3_SetIpForward :: "bool \<Rightarrow> 'w l3 \<Rightarrow> 'w l3" where
  "L3_SetIpForward forward s =
     s\<lparr>l3_ipForward := forward, l3_interfaces := map (\<lambda>f. f\<lparr>if_forwarding := forward\<rparr>) (l3_interfaces s)\<rparr>"

definition L3_GetInterfaceForPrefix :: "'w l3 \<Rightarrow> ip \<Rightarrow> u32 \<Rightarrow> int" where
  "L3_GetInterfaceForPrefix s address msk =
     Ipv4_find_interface (list_ex (\<lambda>a. Ipv4Address_CombineMask (ia_local a) msk = Ipv4Address_CombineMask address msk) \<circ> if_addrs)
       (l3_interfaces s) 0"

definition L3_IsUnicast :: "ip \<Rightarrow> 'w l3 \<Rightarrow> bool" where
  "L3_IsUnicast ad s \<longleftrightarrow>
     \<not> (Ipv4Address_IsBroadcast ad \<or> Ipv4Address_IsMulticast ad) \<and>
     \<not> list_ex (\<lambda>f. list_ex (\<lambda>a. ad = ia_broadcast a) (if_addrs f)) (l3_interfaces s)"

definition L3_IsUnicast_mask :: "ip \<Rightarrow> u32 \<Rightarrow> bool" where
  "L3_IsUnicast_mask ad interfaceMask \<longleftrightarrow>
     \<not> Ipv4Address_IsMulticast ad \<and> \<not> Ipv4Address_IsSubnetDirectedBroadcast ad interfaceMask"

text \<open>Scopes are compared by their place in the enumeration.\<close>

fun scope_rank :: "InterfaceAddressScope \<Rightarrow> nat" where
  "scope_rank HOST = 0" | "scope_rank LINK = 1" | "scope_rank GLOBAL = 2"

fun select_on_device ::
    "ip \<Rightarrow> InterfaceAddressScope \<Rightarrow> Ipv4InterfaceAddress list \<Rightarrow> ip option \<Rightarrow> ip option" where
  "select_on_device dst scope [] found = found"
| "select_on_device dst scope (a # as) found =
     (if ia_secondary a then select_on_device dst scope as found
      else if scope_rank (ia_scope a) > scope_rank scope then select_on_device dst scope as found
      else if Ipv4Address_CombineMask dst (ia_mask a) = Ipv4Address_CombineMask (ia_local a) (ia_mask a)
      then Some (ia_local a)
      else select_on_device dst scope as (if found = None then Some (ia_local a) else found))"

definition L3_SelectSourceAddress ::
    "dev option \<Rightarrow> ip \<Rightarrow> InterfaceAddressScope \<Rightarrow> Ipv4 \<Rightarrow> ip option" where
  "L3_SelectSourceAddress device dst scope v =
     do {
       found \<leftarrow> (case device of
           None \<Rightarrow> Some None
         | Some d \<Rightarrow> do {
             let i = Ipv4_GetInterfaceForDevice v (Some d);
             ensure (i \<ge> 0);
             f \<leftarrow> Ipv4_GetInterface v i;
             Some (select_on_device dst scope (if_addrs f) None)
           });
       Some (case found of
           Some a \<Rightarrow> a
         | None \<Rightarrow>
             (case find (\<lambda>a. \<not> ia_secondary a \<and> ia_scope a \<noteq> LINK \<and> scope_rank (ia_scope a) \<le> scope_rank scope)
                     (concat (map if_addrs v)) of
                Some a \<Rightarrow> ia_local a
              | None \<Rightarrow> 0))
     }"

section \<open>Duplicates\<close>

text \<open>
  \<open>UpdateDuplicate\<close>, which registers the packet and says whether it was seen. Headers have no options:
  \<open>AddHeader\<close> with a header size other than the 20 bytes written is outside the model.
\<close>

definition dup_hash :: "l3_env \<Rightarrow> packet \<Rightarrow> ipv4_header \<Rightarrow> u64 option" where
  "dup_hash env p h =
     (let hash = push_bit 32 (ucast (ih_identification h)) in
      if ih_fragmentOffset h \<noteq> 0 \<or> \<not> Ih_IsLastFragment h then Some (hash OR ucast (ih_fragmentOffset h))
      else do {
        bs \<leftarrow> Ih_Serialize h;
        pkt \<leftarrow> Packet_AddHeader (unat (ih_headerSize h)) bs p;
        let bytes = (p_bytes pkt)[1 := 0, 6 := 0, 7 := 0, 8 := 0, 10 := 0, 11 := 0];
        Some (hash OR ucast (le_hash32 env bytes))
      })"

definition L3_UpdateDuplicate :: "l3_env \<Rightarrow> packet \<Rightarrow> ipv4_header \<Rightarrow> 'w l3 \<Rightarrow> (bool \<times> 'w l3) option" where
  "L3_UpdateDuplicate env p h s =
     do {
       hash \<leftarrow> dup_hash env p h;
       let s = (if l3_cleanDpd s = None \<and> l3_purge s > 0
                then s\<lparr>l3_cleanDpd := Some (le_now env + l3_expire s)\<rparr> else s);
       let key = (hash, ih_protocol h, ih_src h, ih_dst h);
       let isDup = (case map_of (l3_dups s) key of None \<Rightarrow> False | Some t \<Rightarrow> t > le_now env);
       Some (isDup, s\<lparr>l3_dups := (key, le_now env + l3_expire s) # map_erase key (l3_dups s)\<rparr>)
     }"

text \<open>The event of \<open>m_cleanDpd\<close>, which no longer runs when it is called.\<close>

definition L3_RemoveDuplicates :: "time \<Rightarrow> 'w l3 \<Rightarrow> 'w l3" where
  "L3_RemoveDuplicates now s =
     (let dups = filter (\<lambda>x. \<not> snd x < now) (l3_dups s)
      in s\<lparr>l3_dups := dups,
           l3_cleanDpd := (if dups \<noteq> [] \<and> l3_purge s > 0 then Some (now + l3_purge s) else None)\<rparr>)"

section \<open>Sending\<close>

definition identification_key :: "ip \<Rightarrow> ip \<Rightarrow> u8 \<Rightarrow> u64 \<times> u8" where
  "identification_key src dst protocol = (ucast dst OR push_bit 32 (ucast src), protocol)"

definition L3_DecreaseIdentification :: "ip \<Rightarrow> ip \<Rightarrow> u8 \<Rightarrow> 'w l3 \<Rightarrow> 'w l3" where
  "L3_DecreaseIdentification src dst protocol s =
     (let key = identification_key src dst protocol
      in s\<lparr>l3_identification := (l3_identification s)(key := l3_identification s key - 1)\<rparr>)"

definition L3_BuildHeader ::
    "l3_env \<Rightarrow> ip \<Rightarrow> ip \<Rightarrow> u8 \<Rightarrow> u16 \<Rightarrow> u8 \<Rightarrow> u8 \<Rightarrow> bool \<Rightarrow> 'w l3 \<Rightarrow> ipv4_header \<times> 'w l3" where
  "L3_BuildHeader env src dst protocol payloadSize ttl tos mayFragment s =
     (let h = Ih_make\<lparr>ih_src := src, ih_dst := dst, ih_protocol := protocol, ih_payloadSize := payloadSize,
                       ih_ttl := ttl, ih_tos := tos\<rparr>;
          key = identification_key src dst protocol;
          h = (if mayFragment then Ih_SetMayFragment h else Ih_SetDontFragment h);
          h = h\<lparr>ih_identification := l3_identification s key\<rparr>;
          s = s\<lparr>l3_identification := (l3_identification s)(key := l3_identification s key + 1)\<rparr>
      in (if le_checksum env then Ih_EnableChecksum h else h, s))"

definition L3_SendRealOut ::
    "l3_env \<Rightarrow> Ipv4Route option \<Rightarrow> packet \<Rightarrow> ipv4_header \<Rightarrow> 'w l3 \<Rightarrow> 'w l3 option" where
  "L3_SendRealOut env route packet h s =
     (case route of
        None \<Rightarrow> Some (l3_log [Dropped DROP_NO_ROUTE h packet 0] s)
      | Some route \<Rightarrow> do {
          let interface = Ipv4_GetInterfaceForDevice (l3_interfaces s) (rt_dev route);
          ensure (interface \<ge> 0);
          outInterface \<leftarrow> Ipv4_GetInterface (l3_interfaces s) interface;
          let target = (if rt_gateway route = 0 then ih_dst h else rt_gateway route);
          let mtu = le_mtu env (if_dev outInterface);
          if \<not> if_up outInterface then Some s
          else if word_of_nat (length (p_bytes packet)) + ucast (ih_headerSize h) > (ucast mtu :: u32) then do {
            listFragments \<leftarrow> DoFragmentation (le_checksum env) (p_bytes packet) h (ucast mtu);
            Some (l3_log (map (\<lambda>(f, fh). IfSend interface (packet\<lparr>p_bytes := f\<rparr>) fh target) listFragments) s)
          }
          else Some (l3_log [IfSend interface packet h target] s)
        })"

definition L3_SendWithHeader ::
    "l3_env \<Rightarrow> packet \<Rightarrow> ipv4_header \<Rightarrow> Ipv4Route option \<Rightarrow> 'w l3 \<Rightarrow> 'w l3 option" where
  "L3_SendWithHeader env packet h route s =
     L3_SendRealOut env route packet (if le_checksum env then Ih_EnableChecksum h else h) s"

text \<open>The beginning of \<open>Send\<close>: the tags are taken off the packet and the header is built.\<close>

definition L3_send_start ::
    "l3_env \<Rightarrow> packet \<Rightarrow> ip \<Rightarrow> ip \<Rightarrow> u8 \<Rightarrow> 'w l3 \<Rightarrow> packet \<times> ipv4_header \<times> 'w l3" where
  "L3_send_start env packet src dst protocol s =
     (let ttl = (case p_ttl packet of Some t \<Rightarrow> t | None \<Rightarrow> l3_defaultTtl s);
          tos = (case p_tos packet of Some t \<Rightarrow> t | None \<Rightarrow> 0);
          packet = packet\<lparr>p_ttl := None, p_tos := None\<rparr>;
          (h, s) = L3_BuildHeader env src dst protocol (word_of_nat (length (p_bytes packet))) ttl tos True s
      in (packet, h, s))"

text \<open>Case 1: \<open>Send\<close> with a route.\<close>

definition L3_send_route ::
    "l3_env \<Rightarrow> packet \<Rightarrow> ip \<Rightarrow> ip \<Rightarrow> u8 \<Rightarrow> Ipv4Route \<Rightarrow> 'w l3 \<Rightarrow> 'w l3 option" where
  "L3_send_route env packet src dst protocol route s =
     (let (packet, h, s) = L3_send_start env packet src dst protocol s in
      do {
        ensure (le_initialized env route);
        s \<leftarrow> (if l3_enableDpd s \<and> Ipv4Address_IsMulticast (ih_dst h)
              then map_option snd (L3_UpdateDuplicate env packet h s) else Some s);
        L3_SendRealOut env (Some route) packet h s
      })"

text \<open>The recursive calls: the identification is taken back and the packet with its tags sent along a route.\<close>

definition L3_resend ::
    "l3_env \<Rightarrow> packet \<Rightarrow> ip \<Rightarrow> ip \<Rightarrow> u8 \<Rightarrow> Ipv4Route \<Rightarrow> 'w l3 \<Rightarrow> 'w l3 option" where
  "L3_resend env packet src dst protocol route s =
     L3_send_route env packet src dst protocol route (L3_DecreaseIdentification src dst protocol s)"

definition proxy_route :: "ip \<Rightarrow> ip \<Rightarrow> dev \<Rightarrow> Ipv4Route" where
  "proxy_route src dst d = \<lparr>rt_dest = dst, rt_source = src, rt_gateway = 0, rt_dev = Some d\<rparr>"

text \<open>
  One interface of the loop for limited broadcast and link-local multicast. The loop hands the same
  \<^verbatim>\<open>Ptr<Packet>\<close> to every recursive \<open>Send\<close>, which takes the tags off it: the packet is part of the
  state of the loop, and after the first interface it has none.
\<close>

definition L3_broadcast_on ::
    "l3_env \<Rightarrow> ip \<Rightarrow> ip \<Rightarrow> u8 \<Rightarrow> Ipv4Interface \<Rightarrow> packet \<times> 'w l3 \<Rightarrow> (packet \<times> 'w l3) option" where
  "L3_broadcast_on env src dst protocol f = (\<lambda>(packet, s).
     if src = 0 \<or> list_ex (\<lambda>a. ia_local a = src) (if_addrs f)
     then do {
       s \<leftarrow> L3_resend env packet src dst protocol (proxy_route src dst (if_dev f)) s;
       Some (packet\<lparr>p_ttl := None, p_tos := None\<rparr>, s)
     }
     else Some (packet, s))"

text \<open>The first interface with an address whose subnet the destination is the broadcast address of.\<close>

definition directed_to :: "ip \<Rightarrow> Ipv4InterfaceAddress \<Rightarrow> bool" where
  "directed_to dst a \<longleftrightarrow>
     Ipv4Address_IsSubnetDirectedBroadcast dst (ia_mask a) \<and>
     Ipv4Address_CombineMask dst (ia_mask a) = Ipv4Address_CombineMask (ia_local a) (ia_mask a)"

fun directed_loop :: "Ipv4 \<Rightarrow> ip \<Rightarrow> Ipv4Interface list \<Rightarrow> dev option option" where
  "directed_loop v dst [] = Some None"
| "directed_loop v dst (f # fs) =
     do {
       g \<leftarrow> Ipv4_GetInterface v (Ipv4_GetInterfaceForDevice v (Some (if_dev f)));
       if list_ex (directed_to dst) (if_addrs g) then Some (Some (if_dev f)) else directed_loop v dst fs
     }"

definition L3_Send ::
    "l3_env \<Rightarrow> packet \<Rightarrow> ip \<Rightarrow> ip \<Rightarrow> u8 \<Rightarrow> Ipv4Route option \<Rightarrow> 'w l3 \<Rightarrow> 'w l3 option" where
  "L3_Send env packet src dst protocol route s =
     (case route of
        Some route \<Rightarrow> L3_send_route env packet src dst protocol route s
      | None \<Rightarrow>
          let (stripped, h, s) = L3_send_start env packet src dst protocol s in
          if Ipv4Address_IsBroadcast dst \<or> Ipv4Address_IsLocalMulticast dst
          then map_option snd (fold_opt (L3_broadcast_on env src dst protocol) (l3_interfaces s) (packet, s))
          else do {
            directed \<leftarrow> directed_loop (l3_interfaces s) dst (l3_interfaces s);
            case directed of
              Some d \<Rightarrow> L3_resend env packet src dst protocol (proxy_route src dst d) s
            | None \<Rightarrow> do {
                (newRoute, s) \<leftarrow> (case L3_protocol s of
                    None \<Rightarrow> Some (None, s)
                  | Some r \<Rightarrow> map_option (\<lambda>(rt, w). (rt, s\<lparr>l3_world := w\<rparr>))
                      (rp_output r (Ipv4Header.truncate h) None (l3_world s)));
                case newRoute of
                  Some route \<Rightarrow> L3_resend env packet src dst protocol route s
                | None \<Rightarrow> Some (L3_DecreaseIdentification src dst protocol
                            (l3_log [Dropped DROP_NO_ROUTE h stripped 0] s))
              }
          })"

section \<open>Forwarding\<close>

definition Socket_IpTos2Priority :: "u8 \<Rightarrow> u8" where
  "Socket_IpTos2Priority ipTos =
     (let t = drop_bit 1 (ipTos AND 0x1e) in
      if t \<le> 3 then 0 else if t \<le> 7 then 2 else if t \<le> 11 then 6 else 4)"

definition L3_IpForward :: "l3_env \<Rightarrow> Ipv4Route \<Rightarrow> packet \<Rightarrow> ipv4_header \<Rightarrow> 'w l3 \<Rightarrow> 'w l3 option" where
  "L3_IpForward env rtentry p header s =
     (let h = header\<lparr>ih_ttl := ih_ttl header - 1\<rparr>;
          interface = Ipv4_GetInterfaceForDevice (l3_interfaces s) (rt_dev rtentry) in
      if ih_ttl h = 0 then do {
        let reply = (\<not> Ipv4Address_IsBroadcast (ih_dst h) \<and> \<not> Ipv4Address_IsMulticast (ih_dst h));
        ensure (reply \<longrightarrow> L3_GetIcmp s \<noteq> None);
        Some (l3_log ((if reply then [IcmpTimeExceeded h p False] else []) @
                      [Dropped DROP_TTL_EXPIRED header p (word_of_int interface)]) s)
      }
      else let priority = Socket_IpTos2Priority (ih_tos h);
               packet = p\<lparr>p_priority := (if priority \<noteq> 0 then Some priority else None)\<rparr>
           in L3_SendRealOut env (Some rtentry) packet h s)"

text \<open>One interface of the loop of \<open>IpMulticastForward\<close>; the flag says that the loop was left.\<close>

fun L3_multicast_loop ::
    "l3_env \<Rightarrow> packet \<Rightarrow> ipv4_header \<Rightarrow> (u32 \<times> u32) list \<Rightarrow> 'w l3 \<Rightarrow> 'w l3 option" where
  "L3_multicast_loop env p header [] s = Some s"
| "L3_multicast_loop env p header ((interface, outputTtl) # m) s =
     (let h = header\<lparr>ih_ttl := ih_ttl header - 1\<rparr> in
      if ih_ttl h = 0 then Some (l3_log [Dropped DROP_TTL_EXPIRED header p interface] s)
      else do {
        d \<leftarrow> Ipv4_GetNetDevice (l3_interfaces s) (uint interface);
        s \<leftarrow> L3_SendRealOut env (Some (proxy_route (ih_src h) (ih_dst h) d)) p h s;
        L3_multicast_loop env p header m s
      })"

definition L3_IpMulticastForward ::
    "l3_env \<Rightarrow> Ipv4MulticastRoute \<Rightarrow> packet \<Rightarrow> ipv4_header \<Rightarrow> 'w l3 \<Rightarrow> 'w l3 option" where
  "L3_IpMulticastForward env mrtentry p header s = L3_multicast_loop env p header (mr_ttls mrtentry) s"

section \<open>Local delivery and reception\<close>

text \<open>The answer to the status of the upper protocol.\<close>

definition L3_unreachable ::
    "packet \<Rightarrow> ipv4_header \<Rightarrow> u32 \<Rightarrow> 'w l3 \<Rightarrow> 'w l3 option" where
  "L3_unreachable copy h iif s =
     (if Ipv4Address_IsBroadcast (ih_dst h) \<or> Ipv4Address_IsMulticast (ih_dst h) then Some s
      else do {
        f \<leftarrow> Ipv4_GetInterface (l3_interfaces s) (uint iif);
        if list_ex (directed_to (ih_dst h)) (if_addrs f) then Some s
        else do {
          ensure (L3_GetIcmp s \<noteq> None);
          Some (l3_log [IcmpDestUnreachPort h copy] s)
        }
      })"

definition L3_deliver :: "l3_env \<Rightarrow> packet \<Rightarrow> ipv4_header \<Rightarrow> u32 \<Rightarrow> 'w l3 \<Rightarrow> 'w l3 option" where
  "L3_deliver env p h iif s =
     (case L3_GetProtocol (uint (ih_protocol h)) (sint iif) s of
        None \<Rightarrow> Some s
      | Some protocol \<Rightarrow>
          let s = l3_log [L4Receive protocol p h iif] s in
          (case le_rxStatus env protocol p h iif of
             RX_ENDPOINT_UNREACH \<Rightarrow> L3_unreachable p h iif s
           | _ \<Rightarrow> Some s))"

text \<open>A reassembled packet keeps no tags in the model.\<close>

definition L3_LocalDeliver ::
    "l3_env \<Rightarrow> packet \<Rightarrow> ipv4_header \<Rightarrow> u32 \<Rightarrow> 'w l3 \<Rightarrow> 'w l3 option" where
  "L3_LocalDeliver env packet h iif s =
     (if \<not> Ih_IsLastFragment h \<or> ih_fragmentOffset h \<noteq> 0 then do {
        (complete, fs) \<leftarrow> ProcessFragment (le_now env) (p_bytes packet) h iif (l3_fragments s);
        let s = s\<lparr>l3_fragments := fs\<rparr>;
        case complete of
          None \<Rightarrow> Some s
        | Some bs \<Rightarrow> do {
            h \<leftarrow> Ih_SetFragmentOffset 0 h;
            L3_deliver env (Packet_Create\<lparr>p_bytes := bs\<rparr>) (h\<lparr>ih_payloadSize := word_of_nat (length bs)\<rparr>) iif s
          }
      }
      else L3_deliver env packet h iif s)"

definition L3_RouteInputError :: "packet \<Rightarrow> ipv4_header \<Rightarrow> 'w l3 \<Rightarrow> 'w l3" where
  "L3_RouteInputError p h s = l3_log [Dropped DROP_ROUTE_ERROR h p 0] s"

text \<open>The callbacks the routing protocol called, in their order.\<close>

fun L3_callback :: "l3_env \<Rightarrow> (packet \<times> ipv4_header) route_event \<Rightarrow> 'w l3 \<Rightarrow> 'w l3 option" where
  "L3_callback env (UnicastForwarded r (p, h)) s = L3_IpForward env r p h s"
| "L3_callback env (MulticastForwarded m (p, h)) s = L3_IpMulticastForward env m p h s"
| "L3_callback env (LocallyDelivered (p, h) iif) s = L3_LocalDeliver env p h iif s"
| "L3_callback env (ErrorReported (p, h)) s = Some (L3_RouteInputError p h s)"

text \<open>\<open>Receive\<close> tells the ARP cache of the interface that the sender, or the router it came through, lives.\<close>

definition arp_seen :: "time \<Rightarrow> ArpEntry \<Rightarrow> ArpEntry" where
  "arp_seen now e = (if ae_state e = ALIVE then Arp_UpdateSeen now e else e)"

definition L3_update_arp :: "time \<Rightarrow> ip \<Rightarrow> mac \<Rightarrow> ArpCache \<Rightarrow> ArpCache" where
  "L3_update_arp now src from c =
     (case ArpCache_Lookup src c of
        Some e \<Rightarrow> ArpCache_put src (arp_seen now e) c
      | None \<Rightarrow> c\<lparr>ac_entries := map_vals (\<lambda>a e. if ae_mac e = Some from then arp_seen now e else e) (ac_entries c)\<rparr>)"

definition L3_arp :: "time \<Rightarrow> ip \<Rightarrow> mac \<Rightarrow> Ipv4Interface \<Rightarrow> 'w l3 \<Rightarrow> 'w l3 option" where
  "L3_arp now src from f s =
     (case if_arp f of
        None \<Rightarrow> Some s
      | Some k \<Rightarrow> do {
          c \<leftarrow> l3_caches s k;
          Some (s\<lparr>l3_caches := (l3_caches s)(k \<mapsto> L3_update_arp now src from c)\<rparr>)
        })"

text \<open>\<open>Receive\<close> up to the check of the header: the packet without header and padding.\<close>

definition L3_remove_header :: "bool \<Rightarrow> packet \<Rightarrow> (packet \<times> ipv4_header) option" where
  "L3_remove_header checksum p =
     do {
       (n, h) \<leftarrow> Ih_Deserialize (if checksum then Ih_EnableChecksum Ih_make else Ih_make) (p_bytes p);
       Some (p\<lparr>p_bytes := drop (unat n) (p_bytes p)\<rparr>, h)
     }"

definition L3_trim :: "packet \<Rightarrow> ipv4_header \<Rightarrow> packet" where
  "L3_trim packet h =
     (if ucast (ih_payloadSize h) < (word_of_nat (length (p_bytes packet)) :: u32)
      then packet\<lparr>p_bytes := take (unat (ih_payloadSize h)) (p_bytes packet)\<rparr> else packet)"

definition L3_input :: "l3_env \<Rightarrow> dev \<Rightarrow> packet \<Rightarrow> ipv4_header \<Rightarrow> int \<Rightarrow> 'w l3 \<Rightarrow> 'w l3 option" where
  "L3_input env d packet h interface s =
     do {
       r \<leftarrow> L3_protocol s;
       (handled, events, w) \<leftarrow> rp_input r (packet, h) (Ipv4Header.truncate h) d True (l3_world s);
       s \<leftarrow> fold_opt (L3_callback env) events (s\<lparr>l3_world := w\<rparr>);
       Some (if handled then s
             else l3_log [Dropped DROP_NO_ROUTE h packet (word_of_int interface)] s)
     }"

definition L3_Receive :: "l3_env \<Rightarrow> dev \<Rightarrow> packet \<Rightarrow> mac \<Rightarrow> 'w l3 \<Rightarrow> 'w l3 option" where
  "L3_Receive env d p from s =
     do {
       let interface = Ipv4_GetInterfaceForDevice (l3_interfaces s) (Some d);
       ensure (interface \<noteq> -1);
       f \<leftarrow> Ipv4_GetInterface (l3_interfaces s) interface;
       if \<not> if_up f then do {
         (packet, h) \<leftarrow> L3_remove_header False p;
         Some (l3_log [Dropped DROP_INTERFACE_DOWN h packet (word_of_int interface)] s)
       }
       else do {
         (packet, h) \<leftarrow> L3_remove_header (le_checksum env) p;
         let packet = L3_trim packet h;
         if \<not> ih_goodChecksum h
         then Some (l3_log [Dropped DROP_BAD_CHECKSUM h packet (word_of_int interface)] s)
         else do {
           s \<leftarrow> L3_arp (le_now env) (ih_src h) from f s;
           let s = l3_log (map (\<lambda>sock. RawForwardUp sock packet h interface) (l3_sockets s)) s;
           (dup, s) \<leftarrow> (if l3_enableDpd s \<and> Ipv4Address_IsMulticast (ih_dst h)
                        then L3_UpdateDuplicate env packet h s else Some (False, s));
           if dup then Some (l3_log [Dropped DROP_DUPLICATE h packet (word_of_int interface)] s)
           else L3_input env d packet h interface s
         }
       }
     }"

section \<open>Time-outs of fragments and disposal\<close>

definition L3_timeout_effect :: "timeout_effect \<Rightarrow> l3_effect" where
  "L3_timeout_effect e =
     (case e of
        TimeExceeded h p \<Rightarrow> IcmpTimeExceeded h (Packet_Create\<lparr>p_bytes := p\<rparr>) True
      | FragmentTimeout h p iif \<Rightarrow> Dropped DROP_FRAGMENT_TIMEOUT h (Packet_Create\<lparr>p_bytes := p\<rparr>) iif)"

definition L3_HandleTimeout :: "time \<Rightarrow> 'w l3 \<Rightarrow> 'w l3 option" where
  "L3_HandleTimeout now s =
     do {
       (fx, fs) \<leftarrow> HandleTimeout (L3_GetIcmp s \<noteq> None) now (l3_fragments s);
       Some (l3_log (map L3_timeout_effect fx) (s\<lparr>l3_fragments := fs\<rparr>))
     }"

text \<open>\<open>DoDispose\<close> cancels the call of \<open>HandleTimeout\<close> scheduled last, if it is pending.\<close>

definition L3_DoDispose :: "'w l3 \<Rightarrow> 'w l3" where
  "L3_DoDispose s =
     s\<lparr>l3_protocols := Map.empty, l3_interfaces := [], l3_sockets := [], l3_routing := None,
       l3_fragments := (l3_fragments s)\<lparr>fs_fragments := Map.empty, fs_timeoutEventList := [],
         fs_pending := butlast (fs_pending (l3_fragments s))\<rparr>,
       l3_cleanDpd := None, l3_dups := []\<rparr>"

end
