(* ===== verification/Ipv4_Layer_Properties.thy ===== *)
theory Ipv4_Layer_Properties
  imports Ipv4_Layer
begin

text \<open>
  What the protocol object of IPv4 guarantees: the identifications of the packets it sends, the TTL
  of those it forwards, the duplicates it recognises, and that a packet sent on one node arrives
  complete and once on another, however its fragments travel.
\<close>

section \<open>Fragments keep the fields of the header\<close>

lemma fragment_header_keeps:
  assumes "fragment_header ck mf q cur h = Some h'"
  shows "same_packet h h' \<and> ih_flags h' AND 4 = ih_flags h AND 4 \<and> ih_fragmentOffset h' AND 7 = 0 \<and>
    (ih_calcChecksum h \<longrightarrow> ih_calcChecksum h')"
proof -
  have d: "(f OR 2) AND 1 = f AND 1" "(f AND NOT 2) AND 1 = f AND 1" "(f OR 2) AND 4 = f AND 4" "(f AND NOT 2) AND 4 = f AND 4"
    for f :: "3 word"
    by (simp_all add: bit.conj_disj_distrib2 and.assoc)
  then show ?thesis using assms
    by (auto simp: fragment_header_def same_packet_def Let_def Ih_SetFragmentOffset_def Ih_SetMoreFragments_def
        Ih_SetLastFragment_def Ih_EnableChecksum_def MORE_FRAGMENTS_def DONT_FRAGMENT_def elim!: bind_Some_elim)
qed

definition kept :: "ipv4_header \<Rightarrow> u8 list \<times> ipv4_header \<Rightarrow> bool" where
  "kept h x \<longleftrightarrow> same_packet h (snd x) \<and> ih_flags (snd x) AND 4 = ih_flags h AND 4 \<and>
     ih_fragmentOffset (snd x) AND 7 = 0 \<and> (ih_calcChecksum h \<longrightarrow> ih_calcChecksum (snd x))"

lemma fragment_header_kept: "fragment_header ck mf q cur h = Some h' \<Longrightarrow> kept h (f, h')"
  using fragment_header_keeps by (simp add: kept_def)

lemma fragment_loop_keeps:
  "fragment_loop ck p h fs q = Some frs \<Longrightarrow> \<forall>x \<in> set frs. kept h x"
proof (rule fragment_loop.raw_induct [rotated, where P = "\<lambda>ck p h fs q frs. \<forall>x \<in> set frs. kept h x"])
  fix loop ck' h' p' fs' q' frs'
  assume IH: "\<And>ck p h fs q frs. loop ck p h fs q = Some frs \<Longrightarrow> \<forall>x \<in> set frs. kept h x"
    and body: "(let sz = word_of_nat (length p'); moreFragment = ucast q' + fs' < sz; cur = if moreFragment then fs' else sz - ucast q'
      in do {
        fragment \<leftarrow> CreateFragment (ucast q') cur p';
        fragmentHeader \<leftarrow> fragment_header ck' moreFragment q' cur h';
        if moreFragment then do {
          listFragments \<leftarrow> loop ck' p' h' fs' (q' + ucast cur);
          Some ((fragment, fragmentHeader) # listFragments)
        }
        else Some [(fragment, fragmentHeader)]
      }) = Some frs'"
  then show "\<forall>x \<in> set frs'. kept h' x"
    by (auto simp: Let_def elim!: bind_Some_elim dest!: IH dest: fragment_header_kept split: if_splits)
qed

lemma DoFragmentation_keeps:
  "DoFragmentation ck p h mtu = Some frs \<Longrightarrow> \<forall>x \<in> set frs. kept h x"
  by (auto simp: DoFragmentation_def elim!: bind_Some_elim dest!: fragment_loop_keeps)

section \<open>The log and the frames of a packet\<close>

lemma l3_log_simps [simp]:
  "l3_out (l3_log es s) = l3_out s @ es" "l3_interfaces (l3_log es s) = l3_interfaces s"
  "l3_identification (l3_log es s) = l3_identification s" "l3_routing (l3_log es s) = l3_routing s"
  "l3_world (l3_log es s) = l3_world s" "l3_weakEsModel (l3_log es s) = l3_weakEsModel s"
  "l3_protocols (l3_log es s) = l3_protocols s" "l3_fragments (l3_log es s) = l3_fragments s"
  "l3_sockets (l3_log es s) = l3_sockets s" "l3_caches (l3_log es s) = l3_caches s"
  "l3_enableDpd (l3_log es s) = l3_enableDpd s" "l3_defaultTtl (l3_log es s) = l3_defaultTtl s" "l3_log [] s = s"
  "l3_log fs (l3_log es s) = l3_log (es @ fs) s"
  by (simp_all add: l3_log_def)

text \<open>A frame of the packet with the header \<open>h\<close>, and one with given source, destination, protocol and identification.\<close>

fun frame_of :: "ipv4_header \<Rightarrow> l3_effect \<Rightarrow> bool" where
  "frame_of h (IfSend i q h' t) \<longleftrightarrow> same_packet h h'"
| "frame_of h _ \<longleftrightarrow> False"

fun frame_id :: "ip \<Rightarrow> ip \<Rightarrow> u8 \<Rightarrow> u16 \<Rightarrow> l3_effect \<Rightarrow> bool" where
  "frame_id src dst protocol n (IfSend i q h t) \<longleftrightarrow>
     ih_src h = src \<and> ih_dst h = dst \<and> ih_protocol h = protocol \<and> ih_identification h = n"
| "frame_id src dst protocol n _ \<longleftrightarrow> False"

lemma frame_of_id:
  "frame_of h e \<Longrightarrow> frame_id (ih_src h) (ih_dst h) (ih_protocol h) (ih_identification h) e"
  by (cases e) (auto simp: same_packet_def)

lemma SendRealOut_frames:
  assumes "L3_SendRealOut env (Some r) p h s = Some s'"
  shows "\<exists>es. s' = l3_log es s \<and> (\<forall>e \<in> set es. frame_of h e)"
proof -
  have refl: "same_packet h h" by (simp add: same_packet_def)
  have logs: "\<exists>es. t = l3_log es s \<and> (\<forall>e \<in> set es. frame_of h e)"
    if "t = s \<or> (\<exists>es. t = l3_log es s \<and> (\<forall>e \<in> set es. frame_of h e))" for t
    using that by (auto intro: exI [of _ "[]"])
  show ?thesis
    using assms refl
    by (intro logs) (force simp: L3_SendRealOut_def Let_def kept_def elim!: bind_Some_elim
        dest!: DoFragmentation_keeps split: if_splits)
qed

lemma send_start_id:
  assumes "L3_send_start env p src dst protocol s = (q, h, s')"
  shows "frame_id src dst protocol (l3_identification s (identification_key src dst protocol)) (IfSend i q h t) \<and>
    s' = s\<lparr>l3_identification := (l3_identification s)(identification_key src dst protocol :=
      l3_identification s (identification_key src dst protocol) + 1)\<rparr>"
  using assms
  by (auto simp: L3_send_start_def L3_BuildHeader_def Let_def Ih_SetMayFragment_def Ih_EnableChecksum_def)

lemma UpdateDuplicate_state:
  "L3_UpdateDuplicate env p h s = Some (b, s') \<Longrightarrow> \<exists>d t. s' = s\<lparr>l3_dups := d, l3_cleanDpd := t\<rparr>"
  by (intro exI [of _ "l3_dups s'"] exI [of _ "l3_cleanDpd s'"])
    (auto simp: L3_UpdateDuplicate_def Let_def elim!: bind_Some_elim split: if_splits)

lemma send_route_id:
  assumes "L3_send_route env p src dst protocol r s = Some s'"
  shows "\<exists>es. l3_out s' = l3_out s @ es \<and>
    (\<forall>e \<in> set es. frame_id src dst protocol (l3_identification s (identification_key src dst protocol)) e) \<and>
    l3_identification s' = (l3_identification s)(identification_key src dst protocol :=
      l3_identification s (identification_key src dst protocol) + 1)"
proof -
  obtain q h s1 where start: "L3_send_start env p src dst protocol s = (q, h, s1)" by (cases "L3_send_start env p src dst protocol s")
  note id = send_start_id [OF start, simplified]
  from assms start obtain s2 where
    s2: "(if l3_enableDpd s1 \<and> Ipv4Address_IsMulticast (ih_dst h)
          then map_option snd (L3_UpdateDuplicate env q h s1) else Some s1) = Some s2"
    and out: "L3_SendRealOut env (Some r) q h s2 = Some s'"
    by (auto simp: L3_send_route_def elim!: bind_Some_elim)
  have "\<exists>d t. s2 = s1\<lparr>l3_dups := d, l3_cleanDpd := t\<rparr>"
  proof (cases "l3_enableDpd s1 \<and> Ipv4Address_IsMulticast (ih_dst h)")
    case True
    with s2 show ?thesis using UpdateDuplicate_state by fastforce
  next
    case False
    with s2 have "s2 = s1\<lparr>l3_dups := l3_dups s1, l3_cleanDpd := l3_cleanDpd s1\<rparr>" by simp
    then show ?thesis by blast
  qed
  then have s2': "l3_out s2 = l3_out s1" "l3_identification s2 = l3_identification s1" by auto
  from SendRealOut_frames [OF out] obtain es where
    es: "s' = l3_log es s2" "\<forall>e \<in> set es. frame_of h e" by blast
  have "\<forall>e \<in> set es. frame_id src dst protocol (l3_identification s (identification_key src dst protocol)) e"
    using es(2) frame_of_id [of h] id by auto
  with es(1) s2' id show ?thesis by auto
qed

lemma resend_id:
  assumes "L3_resend env p src dst protocol r s = Some s'"
  shows "\<exists>es. l3_out s' = l3_out s @ es \<and>
    (\<forall>e \<in> set es. frame_id src dst protocol (l3_identification s (identification_key src dst protocol) - 1) e) \<and>
    l3_identification s' = l3_identification s"
  using send_route_id [OF assms [unfolded L3_resend_def]]
  by (simp add: L3_DecreaseIdentification_def Let_def fun_upd_idem)

text \<open>What \<open>Send\<close> does: either every frame has the next identification, or the packet is dropped.\<close>

definition sent :: "ip \<Rightarrow> ip \<Rightarrow> u8 \<Rightarrow> 'w l3 \<Rightarrow> 'w l3 \<Rightarrow> bool" where
  "sent src dst protocol s s' \<longleftrightarrow>
     (let key = identification_key src dst protocol; n = l3_identification s key in
      \<exists>es. l3_out s' = l3_out s @ es \<and>
        ((\<forall>e \<in> set es. frame_id src dst protocol n e) \<and> l3_identification s' = (l3_identification s)(key := n + 1) \<or>
         (\<exists>h q. es = [Dropped DROP_NO_ROUTE h q 0]) \<and> l3_identification s' = l3_identification s))"

lemma broadcast_on_id:
  assumes "L3_broadcast_on env src dst protocol f (p, s) = Some (p', s')"
  shows "\<exists>es. l3_out s' = l3_out s @ es \<and>
    (\<forall>e \<in> set es. frame_id src dst protocol (l3_identification s (identification_key src dst protocol) - 1) e) \<and>
    l3_identification s' = l3_identification s"
  using assms resend_id by (auto simp: L3_broadcast_on_def elim!: bind_Some_elim split: if_splits)

lemma broadcast_all_id:
  "fold_opt (L3_broadcast_on env src dst protocol) fs (p, s) = Some (p', s') \<Longrightarrow>
    \<exists>es. l3_out s' = l3_out s @ es \<and>
      (\<forall>e \<in> set es. frame_id src dst protocol (l3_identification s (identification_key src dst protocol) - 1) e) \<and>
      l3_identification s' = l3_identification s"
proof (induction fs arbitrary: p s)
  case (Cons f fs)
  from Cons.prems obtain p1 s1 where s1: "L3_broadcast_on env src dst protocol f (p, s) = Some (p1, s1)"
      "fold_opt (L3_broadcast_on env src dst protocol) fs (p1, s1) = Some (p', s')"
    by (auto elim!: bind_Some_elim)
  from broadcast_on_id [OF s1(1)] obtain es1 where
    es1: "l3_out s1 = l3_out s @ es1" "l3_identification s1 = l3_identification s"
      "\<forall>e \<in> set es1. frame_id src dst protocol (l3_identification s (identification_key src dst protocol) - 1) e" by blast
  from Cons.IH [OF s1(2)] obtain es2 where
    es2: "l3_out s' = l3_out s1 @ es2" "l3_identification s' = l3_identification s1"
      "\<forall>e \<in> set es2. frame_id src dst protocol (l3_identification s1 (identification_key src dst protocol) - 1) e" by blast
  from es1 es2 show ?case by (intro exI [of _ "es1 @ es2"]) auto
qed simp

lemma Send_sent:
  assumes "L3_Send env p src dst protocol route s = Some s'"
  shows "sent src dst protocol s s'"
proof (cases route)
  case (Some r)
  with assms send_route_id show ?thesis by (fastforce simp: L3_Send_def sent_def Let_def)
next
  case None
  let ?key = "identification_key src dst protocol"
  obtain q h s1 where start: "L3_send_start env p src dst protocol s = (q, h, s1)" by (cases "L3_send_start env p src dst protocol s")
  note id = send_start_id [OF start, simplified]
  have again: "sent src dst protocol s s'" if "L3_resend env p src dst protocol r (s1\<lparr>l3_world := w\<rparr>) = Some s'" for r w
    using resend_id [OF that] id by (auto simp: sent_def Let_def)
  have again1: "sent src dst protocol s s'" if "L3_resend env p src dst protocol r s1 = Some s'" for r
    using again [of r "l3_world s1"] that by simp
  show ?thesis
  proof (cases "Ipv4Address_IsBroadcast dst \<or> Ipv4Address_IsLocalMulticast dst")
    case True
    with assms None start obtain p' where
      "fold_opt (L3_broadcast_on env src dst protocol) (l3_interfaces s1) (p, s1) = Some (p', s')"
      by (auto simp: L3_Send_def Let_def)
    from broadcast_all_id [OF this] id show ?thesis by (auto simp: sent_def Let_def)
  next
    case False
    have dropped: "sent src dst protocol s (L3_DecreaseIdentification src dst protocol
        (l3_log [Dropped DROP_NO_ROUTE h q 0] (s1\<lparr>l3_world := w\<rparr>)))" for w
      using id by (simp add: sent_def L3_DecreaseIdentification_def Let_def fun_upd_idem)
    have dropped1: "sent src dst protocol s (L3_DecreaseIdentification src dst protocol
        (l3_log [Dropped DROP_NO_ROUTE h q 0] s1))"
      using dropped [of "l3_world s1"] by simp
    from assms None start False show ?thesis
      by (auto simp: L3_Send_def Let_def elim!: bind_Some_elim split: option.splits)
        (assumption | rule dropped dropped1 | erule again again1)+
  qed
qed

lemma sent_frame:
  assumes "sent src dst protocol s s'" and "IfSend i q h t \<in> set (drop (length (l3_out s)) (l3_out s'))"
  shows "frame_id src dst protocol (l3_identification s (identification_key src dst protocol)) (IfSend i q h t) \<and>
    l3_identification s' (identification_key src dst protocol) =
      l3_identification s (identification_key src dst protocol) + 1"
proof -
  let ?key = "identification_key src dst protocol"
  from assms(1) obtain es where es: "l3_out s' = l3_out s @ es"
    "(\<forall>e \<in> set es. frame_id src dst protocol (l3_identification s ?key) e) \<and>
        l3_identification s' = (l3_identification s)(?key := l3_identification s ?key + 1) \<or>
      (\<exists>h q. es = [Dropped DROP_NO_ROUTE h q 0]) \<and> l3_identification s' = l3_identification s"
    unfolding sent_def Let_def by blast
  have "IfSend i q h t \<in> set es" using assms(2) es(1) by simp
  with es(2) show ?thesis by auto
qed

text \<open>A sequence of sends: packet, source, destination, protocol and route, with what the environment says then.\<close>

type_synonym send_request = "l3_env \<times> packet \<times> ip \<times> ip \<times> u8 \<times> Ipv4Route option"

fun send_all :: "send_request list \<Rightarrow> 'w l3 \<Rightarrow> 'w l3 option" where
  "send_all [] s = Some s"
| "send_all ((env, p, src, dst, protocol, route) # rs) s =
     do { s \<leftarrow> L3_Send env p src dst protocol route s; send_all rs s }"

definition same_flow :: "ip \<Rightarrow> ip \<Rightarrow> u8 \<Rightarrow> send_request \<Rightarrow> bool" where
  "same_flow src dst protocol = (\<lambda>(env, p, src', dst', protocol', route). src' = src \<and> dst' = dst \<and> protocol' = protocol)"

lemma identification_key_eq:
  "identification_key src dst protocol = identification_key src' dst' protocol' \<longleftrightarrow>
    src = src' \<and> dst = dst' \<and> protocol = protocol'"
proof -
  have part: "src = src' \<and> dst = dst'"
    if "(ucast dst OR push_bit 32 (ucast src) :: u64) = ucast dst' OR push_bit 32 (ucast src')"
  proof
    have b: "bit (ucast dst OR push_bit 32 (ucast src) :: u64) n = bit (ucast dst' OR push_bit 32 (ucast src') :: u64) n" for n
      using that by simp
    show "src = src'"
    proof (rule bit_word_eqI)
      fix n assume "n < LENGTH(32)"
      with b [of "n + 32"] show "bit src n = bit src' n"
        by (auto simp: bit_simps dest: bit_imp_le_length)
    qed
    show "dst = dst'"
    proof (rule bit_word_eqI)
      fix n assume "n < LENGTH(32)"
      with b [of n] show "bit dst n = bit dst' n" by (auto simp: bit_simps)
    qed
  qed
  then show ?thesis by (auto simp: identification_key_def)
qed

lemma send_all_identification:
  "send_all rs s = Some s' \<Longrightarrow> \<exists>k \<le> length (filter (same_flow src dst protocol) rs).
    l3_identification s' (identification_key src dst protocol) =
      l3_identification s (identification_key src dst protocol) + word_of_nat k"
proof (induction rs arbitrary: s)
  case (Cons r rs)
  obtain env p src1 dst1 protocol1 route where r: "r = (env, p, src1, dst1, protocol1, route)" by (cases r)
  let ?key = "identification_key src dst protocol"
  from Cons.prems r obtain s1 where s1: "L3_Send env p src1 dst1 protocol1 route s = Some s1" "send_all rs s1 = Some s'"
    by (auto elim!: bind_Some_elim)
  from Cons.IH [OF s1(2)] obtain k where k: "k \<le> length (filter (same_flow src dst protocol) rs)"
    "l3_identification s' ?key = l3_identification s1 ?key + word_of_nat k" by blast
  have step: "l3_identification s1 ?key = l3_identification s ?key \<or>
      same_flow src dst protocol r \<and> l3_identification s1 ?key = l3_identification s ?key + 1"
  proof (cases "identification_key src1 dst1 protocol1 = ?key")
    case True
    with Send_sent [OF s1(1)] r show ?thesis
      by (auto simp: sent_def Let_def same_flow_def identification_key_eq)
  next
    case False
    with Send_sent [OF s1(1)] show ?thesis by (auto simp: sent_def Let_def)
  qed
  then show ?case
  proof
    assume "l3_identification s1 ?key = l3_identification s ?key"
    with k show ?thesis by (intro exI [of _ k]) auto
  next
    assume "same_flow src dst protocol r \<and> l3_identification s1 ?key = l3_identification s ?key + 1"
    with k show ?thesis by (intro exI [of _ "Suc k"]) (auto simp: algebra_simps)
  qed
qed simp

lemma fragment_key_id:
  assumes "fragment_key_of h = fragment_key_of h'"
  shows "ih_identification h = ih_identification h'"
proof (rule bit_word_eqI)
  fix n assume "n < LENGTH(16)"
  moreover have "bit (push_bit 16 (ucast (ih_identification h)) OR ucast (ih_protocol h) :: u32) (n + 16) =
      bit (push_bit 16 (ucast (ih_identification h')) OR ucast (ih_protocol h') :: u32) (n + 16)"
    using assms by (simp add: fragment_key_of_def)
  ultimately show "bit (ih_identification h) n = bit (ih_identification h') n"
    by (auto simp: bit_simps dest: bit_imp_le_length)
qed

text \<open>Property C15: packets of a flow are told apart by their identification: all frames of a packet carry the
  same one, and no frame of any of the next 65535 packets between the same addresses for the
  same protocol carries it, whatever is sent in between; sends that find no route use none up.\<close>

theorem identification_unique:
  assumes "L3_Send env p src dst protocol route s = Some s1"
    and "send_all rs s1 = Some s2"
    and "L3_Send env' p' src dst protocol route' s2 = Some s3"
    and "length (filter (same_flow src dst protocol) rs) < 65535"
    and "IfSend i q h t \<in> set (drop (length (l3_out s)) (l3_out s1))"
    and "IfSend i' q' h' t' \<in> set (drop (length (l3_out s2)) (l3_out s3))"
  shows "ih_identification h = l3_identification s (identification_key src dst protocol) \<and>
    ih_identification h' \<noteq> ih_identification h \<and> fragment_key_of h' \<noteq> fragment_key_of h"
proof -
  let ?key = "identification_key src dst protocol"
  let ?n = "l3_identification s ?key" and ?m = "l3_identification s2 ?key"
  have first: "frame_id src dst protocol ?n (IfSend i q h t) \<and> l3_identification s1 ?key = ?n + 1"
    by (rule sent_frame [OF Send_sent [OF assms(1)] assms(5)])
  have last: "frame_id src dst protocol ?m (IfSend i' q' h' t') \<and> l3_identification s3 ?key = ?m + 1"
    by (rule sent_frame [OF Send_sent [OF assms(3)] assms(6)])
  obtain k where "k \<le> length (filter (same_flow src dst protocol) rs)" and m: "?m = ?n + 1 + word_of_nat k"
    using send_all_identification [OF assms(2), of src dst protocol] first by auto
  with assms(4) have k: "k < 65535" "?m = ?n + 1 + word_of_nat k" by linarith+
  have "(1 + word_of_nat k :: u16) \<noteq> 0"
  proof
    assume "(1 + word_of_nat k :: u16) = 0"
    then have "unat (word_of_nat (Suc k) :: u16) = 0" by simp
    moreover have "unat (word_of_nat (Suc k) :: u16) = Suc k"
      using k(1) by (simp only: unsigned_of_nat of_nat_id) (rule take_bit_nat_eq_self, simp)
    ultimately show False by simp
  qed
  then have "?m \<noteq> ?n" using k(2) by (simp add: add.assoc)
  moreover have "ih_identification h = ?n" "ih_identification h' = ?m" using first last by simp_all
  ultimately show ?thesis using fragment_key_id by metis
qed

section \<open>Forwarding\<close>

lemma IpForward_frames:
  assumes "L3_IpForward env r p h s = Some s'" and "ih_ttl h \<noteq> 1"
  shows "\<exists>es. l3_out s' = l3_out s @ es \<and> (\<forall>e \<in> set es. frame_of (h\<lparr>ih_ttl := ih_ttl h - 1\<rparr>) e)"
proof -
  have "ih_ttl h - 1 \<noteq> 0" using assms(2) by simp
  with assms(1) obtain p' where "L3_SendRealOut env (Some r) p' (h\<lparr>ih_ttl := ih_ttl h - 1\<rparr>) s = Some s'"
    by (auto simp: L3_IpForward_def Let_def)
  from SendRealOut_frames [OF this] show ?thesis by auto
qed

text \<open>
  What leaves a node for a packet with the header \<open>h\<close>: the packet itself where it fits the MTU,
  consecutive pieces of it that fit otherwise.
\<close>

definition pieces_for :: "u16 \<Rightarrow> packet \<Rightarrow> ipv4_header \<Rightarrow> (u8 list \<times> ipv4_header) list \<Rightarrow> bool" where
  "pieces_for mtu p h frs \<longleftrightarrow>
     (if length (p_bytes p) + 20 \<le> unat mtu then frs = [(p_bytes p, h)]
      else tiles (unat (ih_fragmentOffset h)) (\<not> Ih_IsLastFragment h) (p_bytes p) (map tile_of frs) \<and>
        list_all (\<lambda>(b, h'). length b + 20 \<le> unat mtu \<and> same_packet h h' \<and>
          ih_payloadSize h' = word_of_nat (length b)) frs)"

lemma pieces_for_priority: "pieces_for mtu (p\<lparr>p_priority := x\<rparr>) h frs = pieces_for mtu p h frs"
  by (simp add: pieces_for_def)

lemma SendRealOut_pieces:
  assumes "Ipv4_GetInterfaceForDevice (l3_interfaces s) (rt_dev r) = i" and "0 \<le> i"
    and "Ipv4_GetInterface (l3_interfaces s) i = Some f" and "if_up f"
    and "ih_headerSize h = 20" and "8 dvd unat (ih_fragmentOffset h)"
    and "length (p_bytes p) < 65536 - unat (ih_fragmentOffset h)" and "28 \<le> unat (le_mtu env (if_dev f))"
  shows "\<exists>frs. pieces_for (le_mtu env (if_dev f)) p h frs \<and> L3_SendRealOut env (Some r) p h s = Some (l3_log
    (map (\<lambda>(b, h'). IfSend i (p\<lparr>p_bytes := b\<rparr>) h' (if rt_gateway r = 0 then ih_dst h else rt_gateway r)) frs) s)"
proof -
  let ?m = "le_mtu env (if_dev f)"
  have len: "length (p_bytes p) < 65536" using assms(7) by linarith
  have "unat (word_of_nat (length (p_bytes p)) + 20 :: u32) = length (p_bytes p) + 20"
    using len unat_len32 [OF len] by (subst unat_add32) simp_all
  then have big: "word_of_nat (length (p_bytes p)) + ucast (ih_headerSize h) > (ucast ?m :: u32) \<longleftrightarrow>
      \<not> length (p_bytes p) + 20 \<le> unat ?m"
    using assms(5) by (simp add: word_less_nat_alt not_le)
  show ?thesis
  proof (cases "length (p_bytes p) + 20 \<le> unat ?m")
    case True
    with assms big show ?thesis
      by (intro exI [of _ "[(p_bytes p, h)]"]) (simp add: pieces_for_def L3_SendRealOut_def Let_def)
  next
    case False
    then have "p_bytes p \<noteq> []" using assms(8) by auto
    moreover have "unat ?m < 65536" by (rule unat_u16)
    ultimately obtain frs where frs: "DoFragmentation (le_checksum env) (p_bytes p) h (ucast ?m) = Some frs"
      "tiles (unat (ih_fragmentOffset h)) (\<not> Ih_IsLastFragment h) (p_bytes p) (map tile_of frs)"
      "\<forall>x \<in> set frs. length (fst x) + 20 \<le> unat ?m \<and> same_packet h (snd x) \<and> ih_payloadSize (snd x) = word_of_nat (length (fst x))"
      using DoFragmentation_tiles [of h "p_bytes p" "ucast ?m" "le_checksum env"] assms(5-8) by auto
    then have "pieces_for ?m p h frs" using False by (auto simp: pieces_for_def list_all_iff)
    with assms(1-4) big False frs(1) show ?thesis by (auto simp: L3_SendRealOut_def Let_def)
  qed
qed

text \<open>Property C16: \<open>IpForward\<close> returns. A packet whose TTL is 1 is dropped and reported to its sender, unless
  its destination is a multicast or broadcast address. Any other packet goes out on the interface
  of the route, if that is up, to the gateway of the route or else to its destination, with the
  priority of its TOS: whole where it fits the MTU, and otherwise in consecutive pieces that together
  are its data. Of the header only the TTL changes, which is one less, and in pieces the fields of
  fragments. For the TTL 0, which should not go on either, one less is 255.\<close>

theorem forwarding_ttl:
  assumes "Ipv4_GetInterfaceForDevice (l3_interfaces s) (rt_dev r) = i" and "0 \<le> i"
    and "Ipv4_GetInterface (l3_interfaces s) i = Some f" and "L3_GetIcmp s \<noteq> None"
    and "ih_headerSize h = 20" and "8 dvd unat (ih_fragmentOffset h)"
    and "length (p_bytes p) < 65536 - unat (ih_fragmentOffset h)" and "28 \<le> unat (le_mtu env (if_dev f))"
  shows "\<exists>es. L3_IpForward env r p h s = Some (l3_log es s) \<and>
    (if ih_ttl h = 1
     then es = (if Ipv4Address_IsBroadcast (ih_dst h) \<or> Ipv4Address_IsMulticast (ih_dst h) then []
         else [IcmpTimeExceeded (h\<lparr>ih_ttl := 0\<rparr>) p False]) @ [Dropped DROP_TTL_EXPIRED h p (word_of_int i)]
     else if \<not> if_up f then es = []
     else \<exists>frs. pieces_for (le_mtu env (if_dev f)) p (h\<lparr>ih_ttl := if ih_ttl h = 0 then 255 else ih_ttl h - 1\<rparr>) frs \<and>
       es = map (\<lambda>(b, h'). IfSend i
           (p\<lparr>p_bytes := b, p_priority := (if Socket_IpTos2Priority (ih_tos h) = 0 then None
                                          else Some (Socket_IpTos2Priority (ih_tos h)))\<rparr>)
           h' (if rt_gateway r = 0 then ih_dst h else rt_gateway r)) frs)"
proof (cases "ih_ttl h = 1")
  case True
  with assms(1,4) show ?thesis by (auto simp: L3_IpForward_def Let_def)
next
  case False
  then have ttl: "ih_ttl h - 1 \<noteq> 0" by simp
  have le: "(if ih_ttl h = 0 then 255 else ih_ttl h - 1) = ih_ttl h - 1" by auto
  let ?h = "h\<lparr>ih_ttl := ih_ttl h - 1\<rparr>"
  let ?prio = "if Socket_IpTos2Priority (ih_tos h) = 0 then None else Some (Socket_IpTos2Priority (ih_tos h))"
  have fwd: "L3_IpForward env r p h s = L3_SendRealOut env (Some r) (p\<lparr>p_priority := ?prio\<rparr>) ?h s"
    using ttl by (simp add: L3_IpForward_def Let_def)
  show ?thesis
  proof (cases "if_up f")
    case True
    have last: "Ih_IsLastFragment ?h = Ih_IsLastFragment h" by (simp add: Ih_IsLastFragment_def)
    from SendRealOut_pieces [OF assms(1-3) True, of ?h "p\<lparr>p_priority := ?prio\<rparr>" env] assms(5-8)
    obtain frs where frs: "pieces_for (le_mtu env (if_dev f)) (p\<lparr>p_priority := ?prio\<rparr>) ?h frs"
      "L3_SendRealOut env (Some r) (p\<lparr>p_priority := ?prio\<rparr>) ?h s = Some (l3_log
        (map (\<lambda>(b, h'). IfSend i (p\<lparr>p_priority := ?prio, p_bytes := b\<rparr>) h'
          (if rt_gateway r = 0 then ih_dst ?h else rt_gateway r)) frs) s)" by auto
    have pieces: "pieces_for (le_mtu env (if_dev f)) p ?h frs" using frs(1) by (simp only: pieces_for_priority)
    let ?q = "\<lambda>b. p\<lparr>p_bytes := b, p_priority := ?prio\<rparr>"
    let ?es = "map (\<lambda>(b, h'). IfSend i (?q b) h' (if rt_gateway r = 0 then ih_dst h else rt_gateway r)) frs"
    have "p\<lparr>p_priority := ?prio, p_bytes := b\<rparr> = ?q b" "ih_dst ?h = ih_dst h" for b by simp_all
    with frs(2) have "L3_IpForward env r p h s = Some (l3_log ?es s)" unfolding fwd by (simp only:)
    moreover have "\<exists>frs'. pieces_for (le_mtu env (if_dev f)) p ?h frs' \<and>
        ?es = map (\<lambda>(b, h'). IfSend i (?q b) h' (if rt_gateway r = 0 then ih_dst h else rt_gateway r)) frs'"
      by (intro exI [of _ frs] conjI refl) (rule pieces)
    ultimately show ?thesis unfolding le using False True by (intro exI [of _ ?es]) (simp only: simp_thms if_False)
  next
    case up: False
    with assms(1-3) have "L3_SendRealOut env (Some r) (p\<lparr>p_priority := ?prio\<rparr>) ?h s = Some (l3_log [] s)"
      by (simp add: L3_SendRealOut_def Let_def)
    with fwd False up show ?thesis by (intro exI [of _ "[]"]) simp
  qed
qed

text \<open>The headers of a packet on its way through the nodes \<open>ns\<close>, each with its state when it forwards the packet.\<close>

fun way :: "(l3_env \<times> Ipv4Route \<times> packet \<times> 'w l3) list \<Rightarrow> ipv4_header list \<Rightarrow> bool" where
  "way [] [h] \<longleftrightarrow> True"
| "way ((env, r, p, s) # ns) (h # h' # hs) \<longleftrightarrow>
     (\<exists>s' i q t. L3_IpForward env r p h s = Some s' \<and>
        IfSend i q h' t \<in> set (drop (length (l3_out s)) (l3_out s'))) \<and> way ns (h' # hs)"
| "way _ _ \<longleftrightarrow> False"

lemma way_step:
  assumes "L3_IpForward env r p h s = Some s'" and "IfSend i q h' t \<in> set (drop (length (l3_out s)) (l3_out s'))"
  shows "ih_ttl h \<noteq> 1 \<and> same_packet (h\<lparr>ih_ttl := ih_ttl h - 1\<rparr>) h'"
proof (cases "ih_ttl h = 1")
  case True
  with assms show ?thesis by (auto simp: L3_IpForward_def Let_def elim!: bind_Some_elim split: if_splits)
next
  case False
  from IpForward_frames [OF assms(1) this] obtain es where
    es: "l3_out s' = l3_out s @ es" "\<forall>e \<in> set es. frame_of (h\<lparr>ih_ttl := ih_ttl h - 1\<rparr>) e" by blast
  then have "IfSend i q h' t \<in> set es" using assms(2) by simp
  with es(2) False show ?thesis by fastforce
qed

text \<open>The TTL bounds the way of a packet: one that starts with the TTL \<open>n > 0\<close> is forwarded by fewer
  than \<open>n\<close> nodes, whatever their routes are, and each hop takes one from the TTL and leaves its addresses
  and its identification.\<close>

theorem ttl_bounds_hops:
  assumes "way ns (h # hs)" and "ih_ttl h \<noteq> 0"
  shows "length ns < unat (ih_ttl h) \<and> unat (ih_ttl (last (h # hs))) + length ns = unat (ih_ttl h) \<and>
    fragment_key_of (last (h # hs)) = fragment_key_of h"
  using assms
proof (induction ns "h # hs" arbitrary: h hs rule: way.induct)
  case (1 h)
  then show ?case by (simp add: unat_gt_0)
next
  case (2 env r p s ns h h' hs)
  then obtain s' i q t where
    "L3_IpForward env r p h s = Some s'" "IfSend i q h' t \<in> set (drop (length (l3_out s)) (l3_out s'))"
    "way ns (h' # hs)" by auto
  note step = way_step [OF this(1,2)]
  then have ttl: "ih_ttl h' = ih_ttl h - 1" and key: "fragment_key_of h' = fragment_key_of h"
    by (auto simp: same_packet_def fragment_key_of_def)
  have "1 \<le> unat (ih_ttl h)" using 2 by (metis One_nat_def Suc_leI neq0_conv unat_eq_zero)
  then have u: "unat (ih_ttl h') = unat (ih_ttl h) - 1" unfolding ttl
    by (subst unat_sub) (simp_all add: word_le_nat_alt)
  have "ih_ttl h' \<noteq> 0" using step ttl by simp
  with 2(1) [OF \<open>way ns (h' # hs)\<close>] u key \<open>1 \<le> unat (ih_ttl h)\<close>
  show ?case by (auto simp: less_diff_conv)
qed simp_all

section \<open>Duplicates\<close>

text \<open>What else touches the table of duplicates between two receptions of a packet.\<close>

datatype dpd_op = Seen l3_env packet ipv4_header | Purge time

fun dpd_time :: "dpd_op \<Rightarrow> time" where
  "dpd_time (Seen env p h) = le_now env"
| "dpd_time (Purge t) = t"

fun dpd_step :: "dpd_op \<Rightarrow> 'w l3 \<Rightarrow> 'w l3 option" where
  "dpd_step (Seen env p h) s = map_option snd (L3_UpdateDuplicate env p h s)"
| "dpd_step (Purge t) s = Some (L3_RemoveDuplicates t s)"

lemma map_of_purged: "map_of m k = Some t \<Longrightarrow> \<not> t < now \<Longrightarrow> map_of (filter (\<lambda>x. \<not> snd x < now) m) k = Some t"
  for now t :: time
  by (induction m) (auto split: if_splits)

definition dup_known :: "dup_tuple \<Rightarrow> time \<Rightarrow> 'w l3 \<Rightarrow> bool" where
  "dup_known key t s \<longleftrightarrow> (\<exists>u \<ge> t. map_of (l3_dups s) key = Some u)"

lemma UpdateDuplicate_eq:
  "L3_UpdateDuplicate env p h s = Some (b, s') \<Longrightarrow> \<exists>hash. dup_hash env p h = Some hash \<and>
    l3_dups s' = ((hash, ih_protocol h, ih_src h, ih_dst h), le_now env + l3_expire s) #
      map_erase (hash, ih_protocol h, ih_src h, ih_dst h) (l3_dups s) \<and> l3_expire s' = l3_expire s \<and>
    b = (case map_of (l3_dups s) (hash, ih_protocol h, ih_src h, ih_dst h) of None \<Rightarrow> False | Some t \<Rightarrow> t > le_now env)"
  by (auto simp: L3_UpdateDuplicate_def Let_def elim!: bind_Some_elim split: if_splits)

lemma dpd_step_known:
  assumes "dpd_step op s = Some s'" and "dup_known key (t0 + l3_expire s) s" and "t0 \<le> dpd_time op"
    and "dpd_time op < t0 + l3_expire s"
  shows "dup_known key (t0 + l3_expire s') s' \<and> l3_expire s' = l3_expire s"
proof (cases op)
  case (Seen env p h)
  with assms(1) obtain b where "L3_UpdateDuplicate env p h s = Some (b, s')" by auto
  from UpdateDuplicate_eq [OF this] assms Seen show ?thesis by (auto simp: dup_known_def)
next
  case (Purge t)
  from assms(2) obtain u where u: "u \<ge> t0 + l3_expire s" "map_of (l3_dups s) key = Some u" by (auto simp: dup_known_def)
  then have "\<not> u < t" using assms(4) Purge by simp
  from map_of_purged [OF u(2) this] Purge assms(1) u(1) show ?thesis
    by (auto simp: dup_known_def L3_RemoveDuplicates_def Let_def)
qed

text \<open>The hash leaves out what routers change: TTL and TOS, and the checksum, which is computed anew.\<close>

definition mutable_changed :: "ipv4_header \<Rightarrow> u8 \<Rightarrow> u8 \<Rightarrow> u16 \<Rightarrow> ipv4_header" where
  "mutable_changed h ttl tos cs = h\<lparr>ih_ttl := ttl, ih_tos := tos, ih_checksum := cs\<rparr>"

definition zeroed :: "u8 list \<Rightarrow> u8 list" where
  "zeroed bs = bs[1 := 0, 6 := 0, 7 := 0, 8 := 0, 10 := 0, 11 := 0]"

lemma dup_hash_wire:
  assumes "Ih_Serialize h = Some (wire_bytes h c)"
  shows "dup_hash env p h =
    (if ih_fragmentOffset h \<noteq> 0 \<or> \<not> Ih_IsLastFragment h
     then Some (push_bit 32 (ucast (ih_identification h)) OR ucast (ih_fragmentOffset h))
     else if unat (ih_headerSize h) = 20
     then Some (push_bit 32 (ucast (ih_identification h)) OR ucast (le_hash32 env (zeroed (wire_bytes h c @ p_bytes p))))
     else None)"
proof -
  have "length (wire_bytes h c) = 20" by (simp add: wire_bytes_def)
  with assms show ?thesis by (simp add: dup_hash_def Let_def Packet_AddHeader_def zeroed_def)
qed

lemma dup_hash_mutable: "dup_hash env p (mutable_changed h ttl tos cs) = dup_hash env p h"
proof -
  let ?h = "mutable_changed h ttl tos cs"
  obtain c where c: "Ih_Serialize h = Some (wire_bytes h c)" using Serialize_wire [of h] by blast
  obtain c' where c': "Ih_Serialize ?h = Some (wire_bytes ?h c')" using Serialize_wire [of ?h] by blast
  have "(wire_bytes ?h c' @ bs)[1 := 0, 6 := 0, 7 := 0, 8 := 0, 10 := 0, 11 := 0] =
      (wire_bytes h c @ bs)[1 := 0, 6 := 0, 7 := 0, 8 := 0, 10 := 0, 11 := 0]" for bs
    by (simp add: wire_bytes_unfold mutable_changed_def WriteHtonU16_def WriteHtonU32_def WriteU16_def)
  then have z: "zeroed (wire_bytes ?h c' @ bs) = zeroed (wire_bytes h c @ bs)" for bs
    by (simp add: zeroed_def)
  have "ih_identification ?h = ih_identification h" "ih_fragmentOffset ?h = ih_fragmentOffset h"
      "Ih_IsLastFragment ?h = Ih_IsLastFragment h" "ih_headerSize ?h = ih_headerSize h"
    by (simp_all add: mutable_changed_def Ih_IsLastFragment_def)
  then show ?thesis by (simp add: dup_hash_wire [OF c] dup_hash_wire [OF c'] z)
qed

text \<open>Property C28: a multicast packet that comes again before its entry expires, over another path with another TTL
  and TOS, is recognised whatever was received and purged in between; when nothing refreshed the
  entry, it counts as new again once the time is over.\<close>

theorem duplicate_recognised:
  assumes "L3_UpdateDuplicate env p h s = Some (b, s1)"
    and "fold_opt dpd_step ops s1 = Some s2"
    and "\<forall>op \<in> set ops. le_now env \<le> dpd_time op \<and> dpd_time op \<le> le_now env'"
    and "le_hash32 env' = le_hash32 env"
  shows "if le_now env' < le_now env + l3_expire s
    then \<exists>s3. L3_UpdateDuplicate env' p (mutable_changed h ttl tos cs) s2 = Some (True, s3)
    else ops = [] \<longrightarrow> (\<exists>s3. L3_UpdateDuplicate env' p (mutable_changed h ttl tos cs) s2 = Some (False, s3))"
proof -
  let ?h = "mutable_changed h ttl tos cs"
  from UpdateDuplicate_eq [OF assms(1)] obtain hash where
    hash: "dup_hash env p h = Some hash" and exp: "l3_expire s1 = l3_expire s" and
    dups: "map_of (l3_dups s1) (hash, ih_protocol h, ih_src h, ih_dst h) = Some (le_now env + l3_expire s)" by auto
  let ?key = "(hash, ih_protocol h, ih_src h, ih_dst h)"
  have "dup_hash env' p ?h = dup_hash env' p h" by (rule dup_hash_mutable)
  also have "\<dots> = dup_hash env p h" using assms(4) by (simp add: dup_hash_def Let_def)
  finally have hash': "dup_hash env' p ?h = Some hash" using hash by simp
  have fields: "ih_protocol ?h = ih_protocol h" "ih_src ?h = ih_src h" "ih_dst ?h = ih_dst h"
    by (simp_all add: mutable_changed_def)
  have answer: "\<exists>s3. L3_UpdateDuplicate env' p ?h s' = Some
      (case map_of (l3_dups s') ?key of None \<Rightarrow> False | Some t \<Rightarrow> t > le_now env', s3)" for s'
    using hash' fields by (simp add: L3_UpdateDuplicate_def Let_def)
  show ?thesis
  proof (cases "le_now env' < le_now env + l3_expire s")
    case True
    have "dup_known ?key (le_now env + l3_expire s2) s2 \<and> l3_expire s2 = l3_expire s1"
      using assms(2)
    proof (rule fold_opt_inv)
      show "dup_known ?key (le_now env + l3_expire s1) s1 \<and> l3_expire s1 = l3_expire s1"
        using dups exp by (simp add: dup_known_def)
    next
      fix op s s'
      assume "op \<in> set ops" "dup_known ?key (le_now env + l3_expire s) s \<and> l3_expire s = l3_expire s1"
        "dpd_step op s = Some s'"
      with dpd_step_known [of op s s' ?key "le_now env"] assms(3) True exp
      show "dup_known ?key (le_now env + l3_expire s') s' \<and> l3_expire s' = l3_expire s1" by fastforce
    qed
    then obtain u where "u \<ge> le_now env + l3_expire s" "map_of (l3_dups s2) ?key = Some u"
      using exp by (auto simp: dup_known_def)
    with answer [of s2] True show ?thesis by simp
  next
    case False
    with answer [of s1] dups assms(2) show ?thesis by auto
  qed
qed

section \<open>Witnesses\<close>

text \<open>A node with one interface, and a packet of three bytes along a route over it.\<close>

definition if0 :: Ipv4Interface where
  "if0 = \<lparr>if_dev = 1, if_addrs = [Ipv4InterfaceAddress_make 0x0a000001 0xff000000], if_up = True,
     if_forwarding = True, if_arp = None\<rparr>"

definition node0 :: "Ipv4StaticRouting l3" where
  "node0 = (L3_make (StaticRouting_make\<lparr>sr_bound := True\<rparr>))\<lparr>l3_interfaces := [if0],
     l3_routing := Some (\<lambda>v weakEs. static_protocol v weakEs (\<lambda>w. w) (\<lambda>s w. s)),
     l3_protocols := [(1, -1) \<mapsto> 0, (17, -1) \<mapsto> 7]\<rparr>"

definition env0 :: l3_env where
  "env0 = \<lparr>le_now = 10, le_checksum = False, le_mtu = (\<lambda>_. 1500), le_hash32 = (\<lambda>bs. word_of_nat (length bs)),
     le_initialized = (\<lambda>_. True), le_rxStatus = (\<lambda>_ _ _ _. RX_OK)\<rparr>"

definition route0 :: Ipv4Route where
  "route0 = proxy_route 0x0a000001 0x0a000002 1"

definition packet0 :: packet where
  "packet0 = Packet_Create\<lparr>p_bytes := [1, 2, 3]\<rparr>"

definition header0_of :: "u16 \<Rightarrow> ipv4_header" where
  "header0_of n = Ih_make\<lparr>ih_src := 0x0a000001, ih_dst := 0x0a000002, ih_ttl := 64, ih_protocol := 17,
     ih_payloadSize := 3, ih_identification := n\<rparr>"

lemma node_send:
  assumes "l3_interfaces s = [if0]" and "\<not> l3_enableDpd s" and "l3_defaultTtl s = 64"
  shows "\<exists>s'. L3_Send env0 packet0 0x0a000001 0x0a000002 17 (Some route0) s = Some s' \<and>
    l3_out s' = l3_out s @ [IfSend 0 packet0
      (header0_of (l3_identification s (identification_key 0x0a000001 0x0a000002 17))) 0x0a000002] \<and>
    l3_interfaces s' = [if0] \<and> \<not> l3_enableDpd s' \<and> l3_defaultTtl s' = 64"
proof -
  have "(0 :: 3 word) AND NOT 1 = 0" by simp
  with assms show ?thesis
    by (simp add: L3_Send_def L3_send_route_def L3_send_start_def L3_BuildHeader_def Let_def env0_def packet0_def
        Packet_Create_def route0_def proxy_route_def L3_SendRealOut_def Ipv4_GetInterfaceForDevice_def
        Ipv4_GetInterface_def if0_def header0_of_def Ih_make_def Ih_SetMayFragment_def DONT_FRAGMENT_def)
qed

theorem identification_unique_witness:
  "\<exists>s1 s2 s3 h h' q q' t t'. L3_Send env0 packet0 0x0a000001 0x0a000002 17 (Some route0) node0 = Some s1 \<and>
    send_all [] s1 = Some s2 \<and> L3_Send env0 packet0 0x0a000001 0x0a000002 17 (Some route0) s2 = Some s3 \<and>
    IfSend 0 q h t \<in> set (drop (length (l3_out node0)) (l3_out s1)) \<and>
    IfSend 0 q' h' t' \<in> set (drop (length (l3_out s2)) (l3_out s3)) \<and>
    ih_identification h' \<noteq> ih_identification h"
proof -
  let ?key = "identification_key 0x0a000001 0x0a000002 17"
  have n: "l3_interfaces node0 = [if0]" "\<not> l3_enableDpd node0" "l3_defaultTtl node0 = 64"
    by (simp_all add: node0_def L3_make_def)
  obtain s1 where s1: "L3_Send env0 packet0 0x0a000001 0x0a000002 17 (Some route0) node0 = Some s1"
    "l3_out s1 = l3_out node0 @ [IfSend 0 packet0 (header0_of (l3_identification node0 ?key)) 0x0a000002]"
    "l3_interfaces s1 = [if0]" "\<not> l3_enableDpd s1" "l3_defaultTtl s1 = 64"
    using node_send [OF n] by blast
  obtain s3 where s3: "L3_Send env0 packet0 0x0a000001 0x0a000002 17 (Some route0) s1 = Some s3"
    "l3_out s3 = l3_out s1 @ [IfSend 0 packet0 (header0_of (l3_identification s1 ?key)) 0x0a000002]"
    using node_send [OF s1(3-5)] by blast
  have sent: "IfSend 0 packet0 (header0_of (l3_identification node0 ?key)) 0x0a000002 \<in> set (drop (length (l3_out node0)) (l3_out s1))"
    "IfSend 0 packet0 (header0_of (l3_identification s1 ?key)) 0x0a000002 \<in> set (drop (length (l3_out s1)) (l3_out s3))"
    using s1(2) s3(2) by simp_all
  have all: "send_all [] s1 = Some s1" by simp
  from identification_unique [OF s1(1) all s3(1) _ sent] s1(1) s3(1) sent all show ?thesis
    by (metis list.size(3) filter.simps(1) zero_less_numeral)
qed

lemma node_forward:
  assumes "ih_ttl h \<noteq> 1" and "ih_headerSize h = 20"
  shows "\<exists>q s'. L3_IpForward env0 route0 packet0 h node0 = Some s' \<and> q = packet0\<lparr>p_priority := p_priority q\<rparr> \<and>
    l3_out s' = [IfSend 0 q (h\<lparr>ih_ttl := ih_ttl h - 1\<rparr>) (ih_dst h)]"
proof -
  have "ih_ttl h - 1 \<noteq> 0" using assms(1) by simp
  then show ?thesis
    using assms(2)
    by (simp add: L3_IpForward_def Let_def L3_SendRealOut_def node0_def L3_make_def Ipv4_GetInterfaceForDevice_def
        Ipv4_GetInterface_def if0_def route0_def proxy_route_def env0_def packet0_def Packet_Create_def)
qed

theorem forwarding_ttl_witness:
  "\<exists>es. L3_IpForward env0 route0 packet0 ((header0_of 5)\<lparr>ih_ttl := 0\<rparr>) node0 = Some (l3_log es node0) \<and>
    es = [IfSend 0 packet0 ((header0_of 5)\<lparr>ih_ttl := 255\<rparr>) 0x0a000002]"
proof -
  let ?h = "(header0_of 5)\<lparr>ih_ttl := 0\<rparr>"
  have "Ipv4_GetInterfaceForDevice (l3_interfaces node0) (rt_dev route0) = 0"
    "Ipv4_GetInterface (l3_interfaces node0) 0 = Some if0" "L3_GetIcmp node0 \<noteq> None"
    "ih_headerSize ?h = 20" "8 dvd unat (ih_fragmentOffset ?h)"
    "length (p_bytes packet0) < 65536 - unat (ih_fragmentOffset ?h)" "28 \<le> unat (le_mtu env0 (if_dev if0))"
    by (simp_all add: node0_def L3_make_def Ipv4_GetInterfaceForDevice_def Ipv4_GetInterface_def if0_def route0_def
        proxy_route_def L3_GetIcmp_def L3_GetProtocol_def header0_of_def Ih_make_def packet0_def Packet_Create_def env0_def)
  note h = this
  have "(0 :: int) \<le> 0" "if_up if0" "ih_ttl ?h = 0" "rt_gateway route0 = 0" "Socket_IpTos2Priority (ih_tos ?h) = 0"
    "length (p_bytes packet0) + 20 \<le> unat (le_mtu env0 (if_dev if0))" "packet0\<lparr>p_bytes := p_bytes packet0, p_priority := None\<rparr> = packet0"
    "ih_dst ?h = 0x0a000002"
    by (simp_all add: if0_def route0_def proxy_route_def header0_of_def Ih_make_def Socket_IpTos2Priority_def packet0_def
        Packet_Create_def env0_def)
  note d = this
  from forwarding_ttl [OF h(1) d(1) h(2-7)] d show ?thesis by (auto simp: pieces_for_def)
qed

theorem ttl_bounds_hops_witness:
  "\<exists>h. way [(env0, route0, packet0, node0)] [(header0_of 5)\<lparr>ih_ttl := 2\<rparr>, h] \<and>
    length [(env0, route0, packet0, node0)] < unat (2 :: u8) \<and> unat (ih_ttl h) + 1 = 2"
proof -
  let ?h = "(header0_of 5)\<lparr>ih_ttl := 2\<rparr>"
  have "ih_ttl ?h \<noteq> 1" "ih_headerSize ?h = 20" by (simp_all add: header0_of_def Ih_make_def)
  from node_forward [OF this] obtain q s' where s': "L3_IpForward env0 route0 packet0 ?h node0 = Some s'"
    "l3_out s' = [IfSend 0 q (?h\<lparr>ih_ttl := ih_ttl ?h - 1\<rparr>) (ih_dst ?h)]" by blast
  let ?h' = "?h\<lparr>ih_ttl := ih_ttl ?h - 1\<rparr>"
  have "IfSend 0 q ?h' (ih_dst ?h) \<in> set (drop (length (l3_out node0)) (l3_out s'))"
    using s'(2) by (simp add: node0_def L3_make_def)
  with s'(1) have w: "way [(env0, route0, packet0, node0)] [?h, ?h']" by auto
  from ttl_bounds_hops [OF w] w show ?thesis by (intro exI [of _ ?h']) simp
qed

theorem duplicate_recognised_witness:
  "\<exists>s1 s3. L3_UpdateDuplicate env0 packet0 (header0_of 5) node0 = Some (False, s1) \<and>
    L3_UpdateDuplicate (env0\<lparr>le_now := 11\<rparr>) packet0 (mutable_changed (header0_of 5) 3 0 0) (L3_RemoveDuplicates 11 s1) =
      Some (True, s3)"
proof -
  obtain c where c: "Ih_Serialize (header0_of 5) = Some (wire_bytes (header0_of 5) c)"
    using Serialize_wire [of "header0_of 5"] by blast
  have "dup_hash env0 packet0 (header0_of 5) \<noteq> None"
    by (simp add: dup_hash_wire [OF c]) (simp add: header0_of_def Ih_make_def)
  then obtain s1 where s1: "L3_UpdateDuplicate env0 packet0 (header0_of 5) node0 = Some (False, s1)"
    by (auto simp: L3_UpdateDuplicate_def Let_def node0_def L3_make_def)
  have run: "fold_opt dpd_step [Purge 11] s1 = Some (L3_RemoveDuplicates 11 s1)" by simp
  have "\<forall>op \<in> set [Purge 11]. le_now env0 \<le> dpd_time op \<and> dpd_time op \<le> le_now (env0\<lparr>le_now := 11\<rparr>)"
    "le_hash32 (env0\<lparr>le_now := 11\<rparr>) = le_hash32 env0"
    by (simp_all add: env0_def)
  moreover have "le_now (env0\<lparr>le_now := 11\<rparr>) < le_now env0 + l3_expire node0"
    by (simp add: env0_def node0_def L3_make_def MilliSeconds_def)
  ultimately show ?thesis using duplicate_recognised [OF s1 run, of "env0\<lparr>le_now := 11\<rparr>" 3 0 0] s1 by simp
qed

end
