(* ===== verification/Ipv4_Broadcast.thy ===== *)
theory Ipv4_Broadcast
  imports Ipv4_Layer_Properties
begin

text \<open>
  What \<open>Send\<close> puts on the links for a limited broadcast or link-local multicast: on which
  interfaces, with which header, in which pieces.
\<close>

section \<open>One interface\<close>

text \<open>The header \<open>BuildHeader\<close> makes for a packet of the node itself.\<close>

definition own_header :: "l3_env \<Rightarrow> ip \<Rightarrow> ip \<Rightarrow> u8 \<Rightarrow> nat \<Rightarrow> u8 \<Rightarrow> u8 \<Rightarrow> u16 \<Rightarrow> ipv4_header" where
  "own_header env src dst protocol size' ttl tos ident =
     Ih_make\<lparr>ih_src := src, ih_dst := dst, ih_protocol := protocol, ih_payloadSize := word_of_nat size',
       ih_ttl := ttl, ih_tos := tos, ih_identification := ident, ih_calcChecksum := le_checksum env\<rparr>"

text \<open>The frames \<open>es\<close> a packet with the header \<open>h\<close> becomes on the interface of the device \<open>d\<close>.\<close>

definition link_frames :: "l3_env \<Rightarrow> Ipv4 \<Rightarrow> packet \<Rightarrow> ipv4_header \<Rightarrow> dev \<Rightarrow> l3_effect list \<Rightarrow> bool" where
  "link_frames env v p h d es \<longleftrightarrow>
     (\<exists>f :: Ipv4Interface. Ipv4_GetInterface v (Ipv4_GetInterfaceForDevice v (Some d)) = Some f \<and>
       (if if_up f
        then \<exists>frs. pieces_for (le_mtu env (if_dev f)) p h frs \<and>
          es = map (\<lambda>(b, h'). IfSend (Ipv4_GetInterfaceForDevice v (Some d)) (p\<lparr>p_bytes := b\<rparr>) h' (ih_dst h)) frs
        else es = []))"

lemma own_header_start:
  assumes "L3_send_start env p src dst protocol s = (q, h, s')"
  shows "q = p\<lparr>p_ttl := None, p_tos := None\<rparr> \<and>
    h = own_header env src dst protocol (length (p_bytes p)) (case p_ttl p of Some t \<Rightarrow> t | None \<Rightarrow> l3_defaultTtl s)
      (case p_tos p of Some t \<Rightarrow> t | None \<Rightarrow> 0) (l3_identification s (identification_key src dst protocol))"
proof -
  have "(0 :: 3 word) AND NOT 1 = 0" by simp
  with assms show ?thesis
    by (auto simp: L3_send_start_def L3_BuildHeader_def Let_def Ih_SetMayFragment_def Ih_EnableChecksum_def
        own_header_def Ih_make_def)
qed

lemma own_header_simps [simp]:
  "ih_headerSize (own_header env src dst protocol n ttl tos i) = 20"
  "ih_fragmentOffset (own_header env src dst protocol n ttl tos i) = 0"
  "ih_dst (own_header env src dst protocol n ttl tos i) = dst"
  by (simp_all add: own_header_def Ih_make_def)

lemma SendRealOut_link:
  assumes "L3_SendRealOut env (Some (proxy_route src dst d)) p h s = Some s'" and "ih_dst h = dst"
    and "ih_headerSize h = 20" and "ih_fragmentOffset h = 0" and "length (p_bytes p) < 65536"
    and "\<forall>d. 28 \<le> unat (le_mtu env d)"
  shows "\<exists>es. link_frames env (l3_interfaces s) p h d es \<and> s' = l3_log es s"
proof -
  let ?i = "Ipv4_GetInterfaceForDevice (l3_interfaces s) (rt_dev (proxy_route src dst d))"
  have i: "?i = Ipv4_GetInterfaceForDevice (l3_interfaces s) (Some d)" by (simp add: proxy_route_def)
  from assms(1) obtain f where f: "0 \<le> ?i" "Ipv4_GetInterface (l3_interfaces s) ?i = Some f"
    by (auto simp: L3_SendRealOut_def Let_def elim!: bind_Some_elim)
  show ?thesis
  proof (cases "if_up f")
    case True
    from SendRealOut_pieces [OF refl f True assms(3), of p env] assms(4-6) obtain frs where
      frs: "pieces_for (le_mtu env (if_dev f)) p h frs" "L3_SendRealOut env (Some (proxy_route src dst d)) p h s =
        Some (l3_log (map (\<lambda>(b, h'). IfSend ?i (p\<lparr>p_bytes := b\<rparr>) h' (if rt_gateway (proxy_route src dst d) = 0
          then ih_dst h else rt_gateway (proxy_route src dst d))) frs) s)" by auto
    moreover have "rt_gateway (proxy_route src dst d) = 0" by (simp add: proxy_route_def)
    ultimately have "s' = l3_log (map (\<lambda>(b, h'). IfSend ?i (p\<lparr>p_bytes := b\<rparr>) h' (ih_dst h)) frs) s"
      using assms(1) by simp
    with frs(1) f True show ?thesis unfolding link_frames_def i
      by (intro exI, intro conjI) (rule exI [of _ f], auto)
  next
    case False
    with assms(1) f have "s' = l3_log [] s" by (simp add: L3_SendRealOut_def Let_def)
    with f False show ?thesis unfolding link_frames_def i by (intro exI [of _ "[]"]) auto
  qed
qed

text \<open>What the loop leaves as it is.\<close>

definition loop_same :: "'w l3 \<Rightarrow> 'w l3 \<Rightarrow> bool" where
  "loop_same s s' \<longleftrightarrow> l3_interfaces s' = l3_interfaces s \<and> l3_defaultTtl s' = l3_defaultTtl s \<and>
     l3_identification s' = l3_identification s"

lemma resend_link:
  assumes "L3_resend env p src dst protocol (proxy_route src dst d) s = Some s'"
    and "length (p_bytes p) < 65536" and "\<forall>d. 28 \<le> unat (le_mtu env d)"
  shows "\<exists>es. link_frames env (l3_interfaces s) (p\<lparr>p_ttl := None, p_tos := None\<rparr>)
      (own_header env src dst protocol (length (p_bytes p)) (case p_ttl p of Some t \<Rightarrow> t | None \<Rightarrow> l3_defaultTtl s)
        (case p_tos p of Some t \<Rightarrow> t | None \<Rightarrow> 0) (l3_identification s (identification_key src dst protocol) - 1)) d es \<and>
    l3_out s' = l3_out s @ es \<and> loop_same s s'"
proof -
  let ?s0 = "L3_DecreaseIdentification src dst protocol s"
  have s0: "l3_interfaces ?s0 = l3_interfaces s" "l3_defaultTtl ?s0 = l3_defaultTtl s" "l3_out ?s0 = l3_out s"
    "l3_identification ?s0 (identification_key src dst protocol) = l3_identification s (identification_key src dst protocol) - 1"
    by (simp_all add: L3_DecreaseIdentification_def Let_def)
  obtain q h s1 where start: "L3_send_start env p src dst protocol ?s0 = (q, h, s1)"
    by (cases "L3_send_start env p src dst protocol ?s0")
  note own = own_header_start [OF start, unfolded s0]
  have s1: "l3_interfaces s1 = l3_interfaces s" "l3_defaultTtl s1 = l3_defaultTtl s" "l3_out s1 = l3_out s"
    using send_start_id [OF start, simplified] s0 by auto
  from assms(1) start obtain s2 where
    s2: "(if l3_enableDpd s1 \<and> Ipv4Address_IsMulticast (ih_dst h)
          then map_option snd (L3_UpdateDuplicate env q h s1) else Some s1) = Some s2"
    and out: "L3_SendRealOut env (Some (proxy_route src dst d)) q h s2 = Some s'"
    by (auto simp: L3_resend_def L3_send_route_def elim!: bind_Some_elim)
  have "\<exists>ds t. s2 = s1\<lparr>l3_dups := ds, l3_cleanDpd := t\<rparr>"
  proof (cases "l3_enableDpd s1 \<and> Ipv4Address_IsMulticast (ih_dst h)")
    case True
    with s2 show ?thesis using UpdateDuplicate_state by fastforce
  next
    case False
    with s2 have "s2 = s1\<lparr>l3_dups := l3_dups s1, l3_cleanDpd := l3_cleanDpd s1\<rparr>" by simp
    then show ?thesis by blast
  qed
  then have s2': "l3_interfaces s2 = l3_interfaces s" "l3_defaultTtl s2 = l3_defaultTtl s" "l3_out s2 = l3_out s"
    using s1 by auto
  have hd: "ih_dst h = dst" "ih_headerSize h = 20" "ih_fragmentOffset h = 0" "p_bytes q = p_bytes p" using own by auto
  from SendRealOut_link [OF out hd(1-3)] hd(4) assms(2,3) obtain es where
    es: "link_frames env (l3_interfaces s2) q h d es" "s' = l3_log es s2" by auto
  have "l3_defaultTtl s' = l3_defaultTtl s" using es(2) s2'(2) by (simp add: l3_log_def)
  moreover have "l3_identification s' = l3_identification s" using resend_id [OF assms(1)] by blast
  ultimately have "loop_same s s'" using es(2) s2'(1) by (simp add: loop_same_def)
  moreover have "l3_out s' = l3_out s @ es" using es(2) s2'(3) by simp
  moreover have "link_frames env (l3_interfaces s) q h d es" using es(1) s2'(1) by simp
  ultimately show ?thesis using own by auto
qed

section \<open>The loop\<close>

definition goes_out :: "ip \<Rightarrow> Ipv4Interface \<Rightarrow> bool" where
  "goes_out src f \<longleftrightarrow> src = 0 \<or> list_ex (\<lambda>a. ia_local a = src) (if_addrs f)"

text \<open>The TTL and TOS on the \<open>k\<close>th interface the packet goes to.\<close>

definition bcast_header :: "l3_env \<Rightarrow> packet \<Rightarrow> ip \<Rightarrow> ip \<Rightarrow> u8 \<Rightarrow> u8 \<Rightarrow> u16 \<Rightarrow> nat \<Rightarrow> ipv4_header" where
  "bcast_header env p src dst protocol defaultTtl ident k =
     own_header env src dst protocol (length (p_bytes p))
       (case p_ttl p of Some t \<Rightarrow> if k = 0 then t else defaultTtl | None \<Rightarrow> defaultTtl)
       (case p_tos p of Some t \<Rightarrow> if k = 0 then t else 0 | None \<Rightarrow> 0) ident"

lemma bcast_header_untagged:
  "bcast_header env (p\<lparr>p_ttl := None, p_tos := None\<rparr>) src dst protocol dt i k = bcast_header env p src dst protocol dt i (Suc k)"
  by (simp add: bcast_header_def split: option.splits)

definition bcast_frames :: "l3_env \<Rightarrow> Ipv4 \<Rightarrow> packet \<Rightarrow> (nat \<Rightarrow> ipv4_header) \<Rightarrow> Ipv4Interface list \<Rightarrow> l3_effect list list \<Rightarrow> bool" where
  "bcast_frames env v p h fs ess \<longleftrightarrow> length ess = length fs \<and>
     (\<forall>k < length fs. link_frames env v (p\<lparr>p_ttl := None, p_tos := None\<rparr>) (h k) (if_dev (fs ! k)) (ess ! k))"

lemma bcast_frames_Cons:
  "bcast_frames env v p h (f # fs) (es # ess) \<longleftrightarrow>
    link_frames env v (p\<lparr>p_ttl := None, p_tos := None\<rparr>) (h 0) (if_dev f) es \<and>
    bcast_frames env v p (\<lambda>k. h (Suc k)) fs ess"
  by (auto simp: bcast_frames_def All_less_Suc2 less_Suc_eq_0_disj)

lemma broadcast_loop:
  assumes "\<forall>d. 28 \<le> unat (le_mtu env d)"
  shows "fold_opt (L3_broadcast_on env src dst protocol) fs (p, s) = Some (p', s') \<Longrightarrow> length (p_bytes p) < 65536 \<Longrightarrow>
    \<exists>ess. l3_out s' = l3_out s @ concat ess \<and> bcast_frames env (l3_interfaces s) p
      (bcast_header env p src dst protocol (l3_defaultTtl s) (l3_identification s (identification_key src dst protocol) - 1))
      (filter (goes_out src) fs) ess"
proof (induction fs arbitrary: p s)
  case Nil
  then show ?case by (intro exI [of _ "[]"]) (simp add: bcast_frames_def)
next
  case (Cons f fs)
  let ?key = "identification_key src dst protocol"
  show ?case
  proof (cases "goes_out src f")
    case False
    then have "L3_broadcast_on env src dst protocol f (p, s) = Some (p, s)" by (auto simp: L3_broadcast_on_def goes_out_def)
    with Cons False show ?thesis by simp
  next
    case True
    let ?p = "p\<lparr>p_ttl := None, p_tos := None\<rparr>"
    have "L3_broadcast_on env src dst protocol f (p, s) =
        Option.bind (L3_resend env p src dst protocol (proxy_route src dst (if_dev f)) s) (\<lambda>s. Some (?p, s))"
      using True by (simp add: L3_broadcast_on_def goes_out_def)
    with Cons.prems(1) obtain s1 where s1: "L3_resend env p src dst protocol (proxy_route src dst (if_dev f)) s = Some s1"
        "fold_opt (L3_broadcast_on env src dst protocol) fs (?p, s1) = Some (p', s')"
      by (auto elim!: bind_Some_elim)
    from resend_link [OF s1(1) Cons.prems(2) assms] obtain es where
      es: "link_frames env (l3_interfaces s) ?p (bcast_header env p src dst protocol (l3_defaultTtl s) (l3_identification s ?key - 1) 0)
          (if_dev f) es" "l3_out s1 = l3_out s @ es" "loop_same s s1"
      by (auto simp: bcast_header_def cong: option.case_cong)
    have "length (p_bytes ?p) < 65536" using Cons.prems(2) by simp
    from Cons.IH [OF s1(2) this] es(3) obtain ess where ess: "l3_out s' = l3_out s1 @ concat ess"
      "bcast_frames env (l3_interfaces s) ?p
        (bcast_header env ?p src dst protocol (l3_defaultTtl s) (l3_identification s ?key - 1)) (filter (goes_out src) fs) ess"
      by (auto simp: loop_same_def)
    have "bcast_frames env (l3_interfaces s) p
        (\<lambda>k. bcast_header env p src dst protocol (l3_defaultTtl s) (l3_identification s ?key - 1) (Suc k)) (filter (goes_out src) fs) ess"
      using ess(2) by (simp add: bcast_frames_def bcast_header_untagged)
    with es(1,2) ess(1) True show ?thesis
      by (intro exI [of _ "es # ess"]) (simp add: bcast_frames_Cons)
  qed
qed

text \<open>Property C17: a packet for the limited broadcast address or a link-local multicast group is put on every
  interface that has the source address, or on all when the source is not given, and on each of
  them complete and with the same identification. Only the first of them gets the TTL and TOS the
  sender asked for with tags: on every other the packet has the default TTL and the TOS 0, since the
  calls share the packet and the first takes the tags off.\<close>

theorem broadcast_on_interfaces:
  assumes "L3_Send env p src dst protocol None s = Some s'"
    and "Ipv4Address_IsBroadcast dst \<or> Ipv4Address_IsLocalMulticast dst"
    and "length (p_bytes p) < 65536" and "\<forall>d. 28 \<le> unat (le_mtu env d)"
  shows "\<exists>ess. l3_out s' = l3_out s @ concat ess \<and>
    bcast_frames env (l3_interfaces s) p
      (bcast_header env p src dst protocol (l3_defaultTtl s) (l3_identification s (identification_key src dst protocol)))
      (filter (goes_out src) (l3_interfaces s)) ess"
proof -
  let ?key = "identification_key src dst protocol"
  obtain q h s1 where start: "L3_send_start env p src dst protocol s = (q, h, s1)" by (cases "L3_send_start env p src dst protocol s")
  note id = send_start_id [OF start, simplified]
  from assms(1,2) start obtain p' where
    "fold_opt (L3_broadcast_on env src dst protocol) (l3_interfaces s1) (p, s1) = Some (p', s')"
    by (auto simp: L3_Send_def Let_def)
  from broadcast_loop [OF assms(4) this assms(3)] id show ?thesis by auto
qed

section \<open>Witness\<close>

text \<open>A node with two interfaces broadcasts a packet whose tag asks for the TTL 1.\<close>

definition node2 :: "Ipv4StaticRouting l3" where
  "node2 = node0\<lparr>l3_interfaces := [if0, if0\<lparr>if_dev := 2\<rparr>]\<rparr>"

definition tagged2 :: packet where
  "tagged2 = packet0\<lparr>p_ttl := Some 1\<rparr>"

lemma send2: "\<exists>s'. L3_Send env0 tagged2 0 0xffffffff 17 None node2 = Some s' \<and>
    map (\<lambda>e. case e of IfSend i q h t \<Rightarrow> (i, ih_ttl h)) (l3_out s') = [(0, 1), (1, 64)]"
proof -
  have "(0 :: 3 word) AND NOT 1 = 0" by simp
  then show ?thesis
    by (simp add: L3_Send_def L3_broadcast_on_def L3_resend_def L3_send_route_def L3_send_start_def L3_BuildHeader_def Let_def
        L3_DecreaseIdentification_def env0_def packet0_def tagged2_def node2_def node0_def L3_make_def
        Packet_Create_def proxy_route_def L3_SendRealOut_def Ipv4_GetInterfaceForDevice_def
        Ipv4_GetInterface_def if0_def Ih_make_def Ih_SetMayFragment_def DONT_FRAGMENT_def Ipv4Address_IsBroadcast_def)
qed

theorem broadcast_on_interfaces_witness:
  "\<exists>s' ess. L3_Send env0 tagged2 0 0xffffffff 17 None node2 = Some s' \<and> concat ess = l3_out s' \<and> length ess = 2 \<and>
    map (\<lambda>e. case e of IfSend i q h t \<Rightarrow> (i, ih_ttl h)) (concat ess) = [(0, 1), (1, 64)]"
proof -
  obtain s' where s': "L3_Send env0 tagged2 0 0xffffffff 17 None node2 = Some s'"
    "map (\<lambda>e. case e of IfSend i q h t \<Rightarrow> (i, ih_ttl h)) (l3_out s') = [(0, 1), (1, 64)]"
    using send2 by (elim exE conjE)
  have b: "Ipv4Address_IsBroadcast 0xffffffff \<or> Ipv4Address_IsLocalMulticast 0xffffffff"
    by (simp add: Ipv4Address_IsBroadcast_def)
  have p: "length (p_bytes tagged2) < 65536" "\<forall>d. 28 \<le> unat (le_mtu env0 d)"
    by (simp_all add: tagged2_def packet0_def env0_def)
  from broadcast_on_interfaces [OF s'(1) b p] obtain ess where ess: "l3_out s' = l3_out node2 @ concat ess"
    "length ess = length (filter (goes_out 0) (l3_interfaces node2))" unfolding bcast_frames_def by blast
  have n: "l3_out node2 = []" "length (filter (goes_out 0) (l3_interfaces node2)) = 2"
    by (simp_all add: node2_def node0_def L3_make_def goes_out_def)
  have "concat ess = l3_out s'" "length ess = 2" using ess n by simp_all
  with s' show ?thesis by (intro exI [of _ s'] exI [of _ ess] conjI) simp_all
qed

end
