(* ===== verification/Ipv4_Delivery.thy ===== *)
theory Ipv4_Delivery
  imports Ipv4_Layer_Properties
begin

text \<open>
  From one node to another: what \<open>Send\<close> hands to an interface, put on the wire and received in any
  order by \<open>Receive\<close> of another node, gives the upper protocol there the packet sent.
\<close>

section \<open>The sender\<close>

fun frame_part :: "l3_effect \<Rightarrow> (packet \<times> ipv4_header) list" where
  "frame_part (IfSend i q h t) = [(q, h)]"
| "frame_part _ = []"

definition frames_sent :: "'w l3 \<Rightarrow> 'w l3 \<Rightarrow> (packet \<times> ipv4_header) list" where
  "frames_sent s s' = concat (map frame_part (drop (length (l3_out s)) (l3_out s')))"

text \<open>The header of a packet that leaves, and frames that together hold the data under it.\<close>

definition fresh_header :: "bool \<Rightarrow> ipv4_header \<Rightarrow> bool" where
  "fresh_header ck h \<longleftrightarrow> header_ok h \<and> ih_fragmentOffset h = 0 \<and> Ih_IsLastFragment h \<and> (ck \<longrightarrow> ih_calcChecksum h)"

definition datagram :: "ipv4_header \<Rightarrow> u8 list \<Rightarrow> (u8 list \<times> ipv4_header) list \<Rightarrow> bool" where
  "datagram h data frs \<longleftrightarrow> tiles 0 False data (map tile_of frs) \<and>
     (\<forall>x \<in> set frs. kept h x \<and> ih_payloadSize (snd x) = word_of_nat (length (fst x)))"

lemma datagram_whole:
  assumes "fresh_header ck h" and "ih_payloadSize h = word_of_nat (length data)" and "data \<noteq> []"
  shows "datagram h data [(data, h)]"
  using assms by (simp add: datagram_def fresh_header_def header_ok_def tile_of_def kept_def same_packet_def)

lemma datagram_cut:
  assumes "fresh_header ck h" and "data \<noteq> []" and "length data < 65536" and "28 \<le> unat mtu"
    and "DoFragmentation cke data h (ucast (mtu :: u16)) = Some frs"
  shows "datagram h data frs"
proof -
  have u: "unat (ucast mtu :: u32) = unat mtu" by (simp add: unsigned_ucast_eq take_bit_nat_eq_self unsigned_less [THEN less_trans])
  have m: "unat mtu < 65536" using unsigned_less [of mtu, where ?'a = nat] by simp
  have h: "ih_headerSize h = 20" "ih_fragmentOffset h = 0" "Ih_IsLastFragment h"
    using assms(1) by (simp_all add: fresh_header_def header_ok_def)
  from DoFragmentation_tiles [of h data "ucast mtu" cke] h assms(2-5) u m obtain frs' where
    "DoFragmentation cke data h (ucast mtu) = Some frs'" "tiles 0 False data (map tile_of frs')"
    "\<forall>x \<in> set frs'. ih_payloadSize (snd x) = word_of_nat (length (fst x))" by auto
  with assms(5) DoFragmentation_keeps [OF assms(5)] show ?thesis by (simp add: datagram_def)
qed

lemma send_start_fresh:
  assumes "L3_send_start env p src dst protocol s = (q, h, s')"
  shows "fresh_header (le_checksum env) h \<and> p_bytes q = p_bytes p \<and>
    ih_payloadSize h = word_of_nat (length (p_bytes p)) \<and> ih_src h = src \<and> ih_dst h = dst \<and>
    ih_protocol h = protocol \<and> l3_out s' = l3_out s \<and> l3_enableDpd s' = l3_enableDpd s"
proof -
  have "(0 :: 3 word) AND NOT 1 = 0" by simp
  with assms show ?thesis
    by (auto simp: L3_send_start_def L3_BuildHeader_def Let_def Ih_SetMayFragment_def Ih_EnableChecksum_def
        fresh_header_def header_ok_def Ih_make_def Ih_IsLastFragment_def)
qed

lemma drop_logged: "drop (length xs) (xs @ ys) = ys"
  by simp

lemma SendRealOut_datagram:
  assumes "L3_SendRealOut env (Some r) q h s = Some s'" and "fresh_header ck h"
    and "ih_payloadSize h = word_of_nat (length (p_bytes q))" and "p_bytes q \<noteq> []" and "length (p_bytes q) < 65536"
    and "\<forall>d. 28 \<le> unat (le_mtu env d)"
  shows "frames_sent s s' = [] \<or>
    (\<exists>frs. frames_sent s s' = map (\<lambda>(f, fh). (q\<lparr>p_bytes := f\<rparr>, fh)) frs \<and> datagram h (p_bytes q) frs)"
proof -
  have map_frames: "concat (map frame_part (map (\<lambda>(f, fh). IfSend i (q\<lparr>p_bytes := f\<rparr>) fh t) frs)) =
      map (\<lambda>(f, fh). (q\<lparr>p_bytes := f\<rparr>, fh)) frs" for i t frs
    by (induction frs) auto
  let ?i = "Ipv4_GetInterfaceForDevice (l3_interfaces s) (rt_dev r)"
  let ?t = "if rt_gateway r = 0 then ih_dst h else rt_gateway r"
  from assms(1) obtain f where f: "Ipv4_GetInterface (l3_interfaces s) ?i = Some f"
    by (auto simp: L3_SendRealOut_def Let_def elim!: bind_Some_elim)
  let ?m = "le_mtu env (if_dev f)"
  have i: "?i \<ge> 0" using assms(1) by (auto simp: L3_SendRealOut_def Let_def elim!: bind_Some_elim)
  show ?thesis
  proof (cases "if_up f")
    case False
    with assms(1) f i show ?thesis by (simp add: L3_SendRealOut_def Let_def frames_sent_def)
  next
    case up: True
    show ?thesis
    proof (cases "word_of_nat (length (p_bytes q)) + ucast (ih_headerSize h) > (ucast ?m :: u32)")
      case True
      with assms(1) f i up obtain frs where frs: "DoFragmentation (le_checksum env) (p_bytes q) h (ucast ?m) = Some frs"
        "s' = l3_log (map (\<lambda>(f, fh). IfSend ?i (q\<lparr>p_bytes := f\<rparr>) fh ?t) frs) s"
        by (auto simp: L3_SendRealOut_def Let_def elim!: bind_Some_elim)
      have "28 \<le> unat ?m" using assms(6) by blast
      from datagram_cut [OF assms(2,4,5) this frs(1)] have "datagram h (p_bytes q) frs" .
      moreover have "frames_sent s s' = map (\<lambda>(f, fh). (q\<lparr>p_bytes := f\<rparr>, fh)) frs"
        unfolding frames_sent_def frs(2) l3_log_simps drop_logged
        by (rule map_frames)
      ultimately show ?thesis by blast
    next
      case False
      with assms(1) f i up have "s' = l3_log [IfSend ?i q h ?t] s" by (simp add: L3_SendRealOut_def Let_def)
      with datagram_whole [OF assms(2,3,4)]
      show ?thesis by (intro disjI2 exI [of _ "[(p_bytes q, h)]"]) (simp add: frames_sent_def)
    qed
  qed
qed

lemma Send_datagram:
  assumes "L3_Send env p src dst protocol (Some route) s = Some s'" and "frames_sent s s' \<noteq> []"
    and "p_bytes p \<noteq> []" and "length (p_bytes p) < 65536" and "\<forall>d. 28 \<le> unat (le_mtu env d)"
    and "\<not> Ipv4Address_IsMulticast dst"
  obtains q h frs where "frames_sent s s' = map (\<lambda>(f, fh). (q\<lparr>p_bytes := f\<rparr>, fh)) frs"
    and "datagram h (p_bytes p) frs" and "fresh_header (le_checksum env) h"
    and "ih_src h = src" and "ih_dst h = dst" and "ih_protocol h = protocol"
proof -
  obtain q h s1 where start: "L3_send_start env p src dst protocol s = (q, h, s1)" by (cases "L3_send_start env p src dst protocol s")
  note fresh = send_start_fresh [OF start]
  from assms(1) start fresh assms(6) have out: "L3_SendRealOut env (Some route) q h s1 = Some s'"
    by (auto simp: L3_Send_def L3_send_route_def elim!: bind_Some_elim)
  have "frames_sent s1 s' = frames_sent s s'" using fresh by (simp add: frames_sent_def)
  with SendRealOut_datagram [OF out] fresh assms(2-5) obtain frs where
    "frames_sent s s' = map (\<lambda>(f, fh). (q\<lparr>p_bytes := f\<rparr>, fh)) frs" "datagram h (p_bytes p) frs" by metis
  with fresh that show ?thesis by blast
qed

section \<open>The receiver\<close>

text \<open>
  A node that takes packets for \<open>dst\<close> on the device \<open>d\<close>: the interface is up, its routing protocol
  answers with the callback for local delivery at interface \<open>iif\<close>, and the upper protocol \<open>k\<close> is there.
\<close>

definition takes_packets :: "'w l3 \<Rightarrow> dev \<Rightarrow> ip \<Rightarrow> u32 \<Rightarrow> bool" where
  "takes_packets s d dst iif \<longleftrightarrow>
     (\<exists>r. L3_protocol s = Some r \<and>
       (\<forall>x h. ih_dst h = dst \<longrightarrow> rp_input r x h d True (l3_world s) = Some (True, [LocallyDelivered x iif], l3_world s)))"

definition receiver_ready :: "'w l3 \<Rightarrow> dev \<Rightarrow> ip \<Rightarrow> u8 \<Rightarrow> nat \<Rightarrow> u32 \<Rightarrow> bool" where
  "receiver_ready s d dst protocol k iif \<longleftrightarrow>
     (\<exists>f. Ipv4_GetInterfaceForDevice (l3_interfaces s) (Some d) \<noteq> -1 \<and>
       Ipv4_GetInterface (l3_interfaces s) (Ipv4_GetInterfaceForDevice (l3_interfaces s) (Some d)) = Some f \<and>
       if_up f \<and> (\<forall>n. if_arp f = Some n \<longrightarrow> l3_caches s n \<noteq> None)) \<and>
     takes_packets s d dst iif \<and> L3_GetProtocol (uint protocol) (sint iif) s = Some k"

text \<open>Static routing takes unicast packets for an address of the interface.\<close>

lemma static_takes_packets:
  assumes "l3_routing s = Some (\<lambda>v weakEs. static_protocol v weakEs get put)" and "sr_bound (get (l3_world s))"
    and "put (get (l3_world s)) (l3_world s) = l3_world s" and "\<not> Ipv4Address_IsMulticast dst"
    and "Ipv4_GetInterfaceForDevice (l3_interfaces s) (Some d) = i" and "i \<ge> 0"
    and "Ipv4_IsDestinationAddress (l3_interfaces s) (l3_weakEsModel s) dst i = Some True"
  shows "takes_packets s d dst (word_of_int i)"
  using assms
  by (simp add: takes_packets_def L3_protocol_def static_protocol_def Static_RouteInput_def Static_ipv4_def Let_def)

fun raw_copy :: "l3_effect \<Rightarrow> bool" where
  "raw_copy (RawForwardUp sock q h i) \<longleftrightarrow> True"
| "raw_copy _ \<longleftrightarrow> False"

lemma trim_padding:
  assumes "unat (ih_payloadSize h) = length (p_bytes q)" and "length (p_bytes q) < 65536" and "length pad < 65536"
  shows "L3_trim (q\<lparr>p_bytes := p_bytes q @ pad\<rparr>) h = q"
proof -
  have "unat (ucast (ih_payloadSize h) :: u32) = length (p_bytes q)"
    using assms(1,2) by (simp add: unsigned_ucast_eq take_bit_nat_eq_self)
  moreover have "unat (word_of_nat (length (p_bytes q @ pad)) :: u32) = length (p_bytes q @ pad)"
    using assms(2,3) by (simp only: unsigned_of_nat of_nat_id) (rule take_bit_nat_eq_self, simp)
  ultimately have "ucast (ih_payloadSize h) < (word_of_nat (length (p_bytes q @ pad)) :: u32) \<longleftrightarrow> pad \<noteq> []"
    by (simp add: word_less_nat_alt del: of_nat_add length_append) simp
  with assms(1) show ?thesis by (cases "pad = []") (simp_all add: L3_trim_def)
qed

lemma fold_opt_one: "fold_opt f [x] s = f x s"
  by (cases "f x s") simp_all

lemma input_taken:
  assumes "takes_packets s d dst iif" and "ih_dst h = dst"
  shows "L3_input env d q h i s = L3_LocalDeliver env q h iif s"
proof -
  from assms(1) obtain r where "L3_protocol s = Some r" and
    "\<forall>x h. ih_dst h = dst \<longrightarrow> rp_input r x h d True (l3_world s) = Some (True, [LocallyDelivered x iif], l3_world s)"
    unfolding takes_packets_def by blast
  moreover have "ih_dst (Ipv4Header.truncate h) = dst" using assms(2) by (simp add: Ipv4Header.truncate_def)
  ultimately have "L3_input env d q h i s =
      Option.bind (fold_opt (L3_callback env) [LocallyDelivered (q, h) iif] s) (\<lambda>s. Some s)"
    by (simp add: L3_input_def del: fold_opt.simps)
  then show ?thesis by (simp only: fold_opt_one L3_callback.simps bind_runit)
qed

text \<open>A frame that arrives is handed to \<open>LocalDeliver\<close> with the header and the bytes it was sent with.\<close>

lemma Receive_frame:
  assumes "receiver_ready s d dst protocol k iif" and "header_ok fh" and "le_checksum env \<longrightarrow> ih_calcChecksum fh"
    and "ih_payloadSize fh = word_of_nat (length (p_bytes q))" and "length (p_bytes q) < 65536" and "length pad < 65536"
    and "ih_dst fh = dst" and "\<not> Ipv4Address_IsMulticast dst"
  obtains bs cs es h' where "Ih_Serialize fh = Some bs"
    and "L3_Receive env d (q\<lparr>p_bytes := bs @ p_bytes q @ pad\<rparr>) hw s =
      L3_LocalDeliver env q h' iif (l3_log es (s\<lparr>l3_caches := cs\<rparr>))"
    and "\<forall>e \<in> set es. raw_copy e" and "\<forall>n. l3_caches s n \<noteq> None \<longrightarrow> cs n \<noteq> None"
    and "same_packet fh h'" and "tile_of (f, h') = tile_of (f, fh)" and "ih_payloadSize h' = ih_payloadSize fh"
proof -
  let ?i = "Ipv4_GetInterfaceForDevice (l3_interfaces s) (Some d)"
  from assms(1) obtain f where f: "?i \<noteq> -1" "Ipv4_GetInterface (l3_interfaces s) ?i = Some f" "if_up f"
      "\<forall>n. if_arp f = Some n \<longrightarrow> l3_caches s n \<noteq> None" and t: "takes_packets s d dst iif"
    by (auto simp: receiver_ready_def)
  let ?h0 = "if le_checksum env then Ih_EnableChecksum Ih_make else Ih_make"
  have "ih_calcChecksum ?h0 \<longrightarrow> ih_calcChecksum fh" using assms(3) by (auto simp: Ih_make_def)
  from header_read_back [OF assms(2) this] obtain bs c where bs: "Ih_Serialize fh = Some bs" "length bs = 20"
    and des: "\<forall>rest. Ih_Deserialize ?h0 (bs @ rest) =
       Some (20, fh\<lparr>ih_calcChecksum := ih_calcChecksum ?h0, ih_checksum := c,
         ih_goodChecksum := ih_calcChecksum ?h0 \<or> ih_goodChecksum ?h0\<rparr>)" by blast
  let ?h = "fh\<lparr>ih_calcChecksum := ih_calcChecksum ?h0, ih_checksum := c,
         ih_goodChecksum := ih_calcChecksum ?h0 \<or> ih_goodChecksum ?h0\<rparr>"
  have good: "ih_goodChecksum ?h" by (simp add: Ih_make_def Ih_EnableChecksum_def)
  have rm: "L3_remove_header (le_checksum env) (q\<lparr>p_bytes := bs @ p_bytes q @ pad\<rparr>) = Some (q\<lparr>p_bytes := p_bytes q @ pad\<rparr>, ?h)"
    using des bs(2) by (simp add: L3_remove_header_def)
  have "unat (ih_payloadSize fh) = length (p_bytes q)"
    unfolding assms(4) using assms(5) by (simp only: unsigned_of_nat of_nat_id) (rule take_bit_nat_eq_self, simp)
  then have tr: "L3_trim (q\<lparr>p_bytes := p_bytes q @ pad\<rparr>) ?h = q"
    using assms(5,6) by (intro trim_padding) simp_all
  obtain cs where cs: "\<And>es. L3_arp (le_now env) (ih_src ?h) hw f s = Some (s\<lparr>l3_caches := cs\<rparr>)"
    and dom: "\<forall>n. l3_caches s n \<noteq> None \<longrightarrow> cs n \<noteq> None"
  proof (cases "if_arp f")
    case None
    then show ?thesis using that [of "l3_caches s"] by (simp add: L3_arp_def)
  next
    case (Some n)
    with f(4) obtain c where "l3_caches s n = Some c" by blast
    with Some show ?thesis
      by (intro that [of "(l3_caches s)(n \<mapsto> L3_update_arp (le_now env) (ih_src ?h) hw c)"]) (simp_all add: L3_arp_def)
  qed
  let ?es = "map (\<lambda>sock. RawForwardUp sock q ?h ?i) (l3_sockets s)"
  let ?s = "l3_log ?es (s\<lparr>l3_caches := cs\<rparr>)"
  have tp: "takes_packets ?s d dst iif" using t by (simp add: takes_packets_def L3_protocol_def)
  have "L3_input env d q ?h ?i ?s = L3_LocalDeliver env q ?h iif ?s"
    by (rule input_taken [OF tp]) (simp add: assms(7))
  moreover have "L3_Receive env d (q\<lparr>p_bytes := bs @ p_bytes q @ pad\<rparr>) hw s = L3_input env d q ?h ?i ?s"
    using f(1,2,3) rm tr good cs assms(7,8) by (simp add: L3_Receive_def Let_def)
  ultimately have "L3_Receive env d (q\<lparr>p_bytes := bs @ p_bytes q @ pad\<rparr>) hw s = L3_LocalDeliver env q ?h iif ?s" by simp
  with bs(1) show thesis
    by (rule that) (use dom in \<open>auto simp: same_packet_def tile_of_def Ih_IsLastFragment_def\<close>)
qed

section \<open>Receiving the frames of one packet\<close>

text \<open>A frame: when it arrives, what was sent, the padding of the link, and the hardware address it came from.\<close>

type_synonym arrival = "time \<times> (packet \<times> ipv4_header) \<times> u8 list \<times> mac"

fun receive_frames :: "l3_env \<Rightarrow> dev \<Rightarrow> arrival list \<Rightarrow> 'w l3 \<Rightarrow> 'w l3 option" where
  "receive_frames env d [] s = Some s"
| "receive_frames env d ((now, (q, h), pad, hw) # rs) s =
     do {
       bs \<leftarrow> Ih_Serialize h;
       s \<leftarrow> L3_Receive (env\<lparr>le_now := now\<rparr>) d (q\<lparr>p_bytes := bs @ p_bytes q @ pad\<rparr>) hw s;
       receive_frames env d rs s
     }"

definition arrived :: "arrival \<Rightarrow> packet \<times> ipv4_header" where
  "arrived a = fst (snd a)"

definition tile_of_frame :: "packet \<times> ipv4_header \<Rightarrow> tile" where
  "tile_of_frame x = tile_of (p_bytes (fst x), snd x)"

text \<open>The frames of the packet with header \<open>h\<close> and data \<open>data\<close>, which is cut into the tiles \<open>ts\<close>.\<close>

definition frame_ok :: "bool \<Rightarrow> ipv4_header \<Rightarrow> tile list \<Rightarrow> packet \<times> ipv4_header \<Rightarrow> bool" where
  "frame_ok ck h ts x \<longleftrightarrow> header_ok (snd x) \<and> (ck \<longrightarrow> ih_calcChecksum (snd x)) \<and> same_packet h (snd x) \<and>
     ih_payloadSize (snd x) = word_of_nat (length (p_bytes (fst x))) \<and> length (p_bytes (fst x)) < 65536 \<and>
     tile_of_frame x \<in> set ts"

fun is_fragment :: "tile \<Rightarrow> bool" where
  "is_fragment (f, q, m) \<longleftrightarrow> m \<or> q \<noteq> 0"

definition delivered_as :: "ipv4_header \<Rightarrow> u8 list \<Rightarrow> packet \<Rightarrow> ipv4_header \<Rightarrow> bool" where
  "delivered_as h data q h' \<longleftrightarrow> p_bytes q = data \<and> ih_src h' = ih_src h \<and> ih_dst h' = ih_dst h \<and>
     ih_protocol h' = ih_protocol h \<and> ih_ttl h' = ih_ttl h \<and> ih_tos h' = ih_tos h \<and>
     ih_identification h' = ih_identification h \<and> ih_fragmentOffset h' = 0 \<and>
     unat (ih_payloadSize h') = length data"

definition awaits :: "dev \<Rightarrow> ipv4_header \<Rightarrow> nat \<Rightarrow> u32 \<Rightarrow> tile list \<Rightarrow> tile list \<Rightarrow> 'w l3 \<Rightarrow> bool" where
  "awaits d h k iif ts xs s \<longleftrightarrow> receiver_ready s d (ih_dst h) (ih_protocol h) k iif \<and>
     buffers_ok (l3_fragments s) \<and> holds ts xs (fragment_key_of h) (l3_fragments s)"

lemma ready_kept:
  assumes "receiver_ready s d dst protocol k iif" and "\<forall>n. l3_caches s n \<noteq> None \<longrightarrow> cs n \<noteq> None"
  shows "receiver_ready (l3_log es (s\<lparr>l3_caches := cs, l3_fragments := fs\<rparr>)) d dst protocol k iif"
proof -
  have "takes_packets (l3_log es (s\<lparr>l3_caches := cs, l3_fragments := fs\<rparr>)) d dst iif"
    using assms(1) by (simp add: receiver_ready_def takes_packets_def L3_protocol_def)
  then show ?thesis using assms by (auto simp: receiver_ready_def L3_GetProtocol_def split: option.splits if_splits)
qed

lemma deliver_known:
  assumes "L3_GetProtocol (uint (ih_protocol h)) (sint iif) s = Some k" and "le_rxStatus env k p h iif \<noteq> RX_ENDPOINT_UNREACH"
  shows "L3_deliver env p h iif s = Some (l3_log [L4Receive k p h iif] s)"
  using assms by (cases "le_rxStatus env k p h iif") (simp_all add: L3_deliver_def)

lemma word_len16: "n < 65536 \<Longrightarrow> unat (word_of_nat n :: u16) = n"
  by (simp only: unsigned_of_nat of_nat_id) (rule take_bit_nat_eq_self, simp)

lemma receive_frame_ok:
  assumes "receiver_ready s d (ih_dst h) (ih_protocol h) k iif" and "frame_ok (le_checksum env) h ts (q, fh)"
    and "length pad < 65536" and "\<not> Ipv4Address_IsMulticast (ih_dst h)"
  obtains bs cs es h' where "Ih_Serialize fh = Some bs"
    and "L3_Receive env d (q\<lparr>p_bytes := bs @ p_bytes q @ pad\<rparr>) hw s =
      L3_LocalDeliver env q h' iif (l3_log es (s\<lparr>l3_caches := cs\<rparr>))"
    and "\<forall>e \<in> set es. raw_copy e" and "\<forall>n. l3_caches s n \<noteq> None \<longrightarrow> cs n \<noteq> None"
    and "same_packet h h'" and "tile_of (p_bytes q, h') = tile_of_frame (q, fh)" and "ih_payloadSize h' = ih_payloadSize fh"
proof -
  have fo: "header_ok fh" "le_checksum env \<longrightarrow> ih_calcChecksum fh" "ih_payloadSize fh = word_of_nat (length (p_bytes q))"
    "length (p_bytes q) < 65536" "same_packet h fh"
    using assms(2) by (simp_all add: frame_ok_def)
  then have "ih_dst fh = ih_dst h" by (simp add: same_packet_def)
  then obtain bs cs es h' where
    r: "Ih_Serialize fh = Some bs"
    "L3_Receive env d (q\<lparr>p_bytes := bs @ p_bytes q @ pad\<rparr>) hw s =
      L3_LocalDeliver env q h' iif (l3_log es (s\<lparr>l3_caches := cs\<rparr>))"
    "\<forall>e \<in> set es. raw_copy e" "\<forall>n. l3_caches s n \<noteq> None \<longrightarrow> cs n \<noteq> None"
    "same_packet fh h'" "tile_of (p_bytes q, h') = tile_of (p_bytes q, fh)" "ih_payloadSize h' = ih_payloadSize fh"
    by (rule Receive_frame [OF assms(1) fo(1-4) assms(3) _ assms(4)])
  from same_packet_trans [OF fo(5) r(5)] r that show thesis by (simp add: tile_of_frame_def)
qed

lemma receive_fragment:
  assumes "awaits d h k iif ts xs s" and "frame_ok (le_checksum env) h ts (q, fh)" and "is_fragment (tile_of_frame (q, fh))"
    and "tiles 0 False data ts" and "length data < 65536" and "length pad < 65536"
    and "\<not> Ipv4Address_IsMulticast (ih_dst h)" and "\<forall>q h. le_rxStatus env k q h iif \<noteq> RX_ENDPOINT_UNREACH"
  shows "\<exists>bs s' es. Ih_Serialize fh = Some bs \<and>
    L3_Receive env d (q\<lparr>p_bytes := bs @ p_bytes q @ pad\<rparr>) hw s = Some s' \<and> (\<forall>e \<in> set es. raw_copy e) \<and>
    (if set (xs @ [tile_of_frame (q, fh)]) = set ts
     then \<exists>q' h'. l3_out s' = l3_out s @ es @ [L4Receive k q' h' iif] \<and> delivered_as h data q' h' \<and>
       awaits d h k iif ts [] s'
     else l3_out s' = l3_out s @ es \<and> awaits d h k iif ts (xs @ [tile_of_frame (q, fh)]) s')"
proof -
  have ready: "receiver_ready s d (ih_dst h) (ih_protocol h) k iif" and buf: "buffers_ok (l3_fragments s)"
    and holds: "holds ts xs (fragment_key_of h) (l3_fragments s)" using assms(1) by (simp_all add: awaits_def)
  obtain bs cs es h' where r: "Ih_Serialize fh = Some bs"
    "L3_Receive env d (q\<lparr>p_bytes := bs @ p_bytes q @ pad\<rparr>) hw s =
      L3_LocalDeliver env q h' iif (l3_log es (s\<lparr>l3_caches := cs\<rparr>))"
    "\<forall>e \<in> set es. raw_copy e" "\<forall>n. l3_caches s n \<noteq> None \<longrightarrow> cs n \<noteq> None"
    "same_packet h h'" "tile_of (p_bytes q, h') = tile_of_frame (q, fh)" "ih_payloadSize h' = ih_payloadSize fh"
    by (rule receive_frame_ok [OF ready assms(2,6,7)])
  have key: "fragment_key_of h' = fragment_key_of h" by (rule same_packet_key [OF r(5)])
  have mem: "tile_of (p_bytes q, h') \<in> set ts" using assms(2) r(6) by (simp add: frame_ok_def)
  have frag: "\<not> Ih_IsLastFragment h' \<or> ih_fragmentOffset h' \<noteq> 0"
    using assms(3) unfolding r(6) [symmetric] by (auto simp: tile_of_def)
  from process_tile [OF buf assms(4,5) holds [folded key] mem, of "le_now env" iif] obtain fs where
    fs: "buffers_ok fs" "if set (xs @ [tile_of_frame (q, fh)]) = set ts
     then ProcessFragment (le_now env) (p_bytes q) h' iif (l3_fragments s) = Some (Some data, fs) \<and>
       fs_fragments fs (fragment_key_of h) = None
     else ProcessFragment (le_now env) (p_bytes q) h' iif (l3_fragments s) = Some (None, fs) \<and>
       holds ts (xs @ [tile_of_frame (q, fh)]) (fragment_key_of h) fs"
    unfolding r(6) key by auto
  let ?s = "l3_log es (s\<lparr>l3_caches := cs, l3_fragments := fs\<rparr>)"
  have s: "(l3_log es (s\<lparr>l3_caches := cs\<rparr>))\<lparr>l3_fragments := fs\<rparr> = ?s" by (simp add: l3_log_def)
  note ready' = ready_kept [OF ready r(4), of es fs]
  show ?thesis
  proof (cases "set (xs @ [tile_of_frame (q, fh)]) = set ts")
    case True
    let ?p = "Packet_Create\<lparr>p_bytes := data\<rparr>"
    let ?h = "h'\<lparr>ih_fragmentOffset := 0, ih_payloadSize := word_of_nat (length data)\<rparr>"
    have proto: "ih_protocol ?h = ih_protocol h" using r(5) by (simp add: same_packet_def)
    have "L3_deliver env ?p ?h iif ?s = Some (l3_log [L4Receive k ?p ?h iif] ?s)"
      using ready' assms(8) by (intro deliver_known) (simp_all add: receiver_ready_def proto del: l3_log_simps)
    then have "L3_LocalDeliver env q h' iif (l3_log es (s\<lparr>l3_caches := cs\<rparr>)) = Some (l3_log [L4Receive k ?p ?h iif] ?s)"
      using frag fs(2) True s by (simp add: L3_LocalDeliver_def Ih_SetFragmentOffset_def)
    moreover have "delivered_as h data ?p ?h"
      using r(5) assms(5) by (simp add: delivered_as_def same_packet_def word_len16)
    moreover have "awaits d h k iif ts [] (l3_log [L4Receive k ?p ?h iif] ?s)"
      using ready_kept [OF ready r(4), of "es @ [L4Receive k ?p ?h iif]" fs] fs True by (simp add: awaits_def holds_def)
    ultimately show ?thesis using r(1-3) True by force
  next
    case False
    then have "L3_LocalDeliver env q h' iif (l3_log es (s\<lparr>l3_caches := cs\<rparr>)) = Some ?s"
      using frag fs(2) s by (simp add: L3_LocalDeliver_def)
    moreover have "awaits d h k iif ts (xs @ [tile_of_frame (q, fh)]) ?s"
      using ready' fs False by (simp add: awaits_def)
    ultimately show ?thesis using r(1-3) False by force
  qed
qed

lemma receive_whole:
  assumes "awaits d h k iif ts [] s" and "frame_ok (le_checksum env) h ts (q, fh)"
    and "tile_of_frame (q, fh) = (data, 0, False)"
    and "length pad < 65536" and "\<not> Ipv4Address_IsMulticast (ih_dst h)"
    and "\<forall>q h. le_rxStatus env k q h iif \<noteq> RX_ENDPOINT_UNREACH"
  shows "\<exists>bs s' es q' h'. Ih_Serialize fh = Some bs \<and>
    L3_Receive env d (q\<lparr>p_bytes := bs @ p_bytes q @ pad\<rparr>) hw s = Some s' \<and> (\<forall>e \<in> set es. raw_copy e) \<and>
    l3_out s' = l3_out s @ es @ [L4Receive k q' h' iif] \<and> delivered_as h data q' h' \<and> awaits d h k iif ts [] s'"
proof -
  have ready0: "receiver_ready s d (ih_dst h) (ih_protocol h) k iif" and buf: "buffers_ok (l3_fragments s)"
    and holds: "holds ts [] (fragment_key_of h) (l3_fragments s)" using assms(1) by (simp_all add: awaits_def)
  obtain bs cs es h' where r: "Ih_Serialize fh = Some bs"
    "L3_Receive env d (q\<lparr>p_bytes := bs @ p_bytes q @ pad\<rparr>) hw s =
      L3_LocalDeliver env q h' iif (l3_log es (s\<lparr>l3_caches := cs\<rparr>))"
    "\<forall>e \<in> set es. raw_copy e" "\<forall>n. l3_caches s n \<noteq> None \<longrightarrow> cs n \<noteq> None"
    "same_packet h h'" "tile_of (p_bytes q, h') = tile_of_frame (q, fh)" "ih_payloadSize h' = ih_payloadSize fh"
    by (rule receive_frame_ok [OF ready0 assms(2,4,5)])
  let ?s = "l3_log es (s\<lparr>l3_caches := cs\<rparr>)"
  have same: "s\<lparr>l3_caches := cs, l3_fragments := l3_fragments s\<rparr> = s\<lparr>l3_caches := cs\<rparr>" by simp
  note kept = ready_kept [OF ready0 r(4), of _ "l3_fragments s", unfolded same]
  have t: "p_bytes q = data" "Ih_IsLastFragment h'" "unat (ih_fragmentOffset h') = 0"
    using r(6) assms(3) by (simp_all add: tile_of_def)
  have proto: "ih_protocol h' = ih_protocol h" using r(5) by (simp add: same_packet_def)
  have "L3_deliver env q h' iif ?s = Some (l3_log [L4Receive k q h' iif] ?s)"
    using kept [of es] assms(6) by (intro deliver_known) (simp_all add: receiver_ready_def proto del: l3_log_simps)
  moreover have "ih_fragmentOffset h' = 0" using t(3) by (simp add: unat_eq_zero)
  ultimately have out: "L3_LocalDeliver env q h' iif ?s = Some (l3_log [L4Receive k q h' iif] ?s)"
    using t by (simp add: L3_LocalDeliver_def)
  have "delivered_as h data q h'"
    using r(5,7) t \<open>ih_fragmentOffset h' = 0\<close> assms(2)
    by (auto simp: delivered_as_def same_packet_def frame_ok_def word_len16)
  moreover have "awaits d h k iif ts [] (l3_log [L4Receive k q h' iif] ?s)"
    using kept [of "es @ [L4Receive k q h' iif]"] buf holds by (simp add: awaits_def)
  ultimately show ?thesis using out r(1-3) by force
qed

section \<open>From sender to receiver\<close>

lemma tiles_offset: "tiles q m data ts \<Longrightarrow> t \<in> set ts \<Longrightarrow> q \<le> fst (snd t)"
proof (induction ts arbitrary: q data)
  case (Cons u ts)
  obtain f r b where u: "u = (f, r, b)" by (cases u)
  show ?case
  proof (cases "t = u")
    case True
    with Cons.prems u show ?thesis by simp
  next
    case False
    with Cons.prems u have "tiles (q + length f) m (drop (length f) data) ts" "t \<in> set ts" by (auto split: if_splits)
    with Cons.IH show ?thesis by fastforce
  qed
qed simp

lemma tiles_whole:
  assumes "tiles 0 False data ts" and "t \<in> set ts" and "\<not> is_fragment t"
  shows "ts = [t] \<and> t = (data, 0, False)"
proof -
  obtain f r b us where ts: "ts = (f, r, b) # us" using assms(2) by (cases ts) auto
  obtain g q m where t: "t = (g, q, m)" by (cases t)
  have us: "us = []"
  proof (rule ccontr)
    assume "us \<noteq> []"
    with assms(1) ts have b: "b" "f \<noteq> []" "tiles (length f) False (drop (length f) data) us" by auto
    have "t \<noteq> (f, r, b)" using b(1) assms(3) by auto
    then have "t \<in> set us" using assms(2) ts by simp
    from tiles_offset [OF b(3) this] b(2) assms(3) t show False by auto
  qed
  with assms(1,2) ts show ?thesis by auto
qed

lemma length_in_concat: "x \<in> set xs \<Longrightarrow> length x \<le> length (concat xs)"
  by (induction xs) auto

lemma datagram_frames:
  assumes "datagram h data fr" and "fresh_header ck h" and "length data < 65536"
    and "frs = map (\<lambda>(f, fh). (q0\<lparr>p_bytes := f\<rparr>, fh)) fr"
  shows "tiles 0 False data (map tile_of fr) \<and> (\<forall>x \<in> set frs. frame_ok ck h (map tile_of fr) x) \<and>
    inj_on tile_of_frame (set frs) \<and> tile_of_frame ` set frs = set (map tile_of fr)"
proof -
  have t: "tiles 0 False data (map tile_of fr)" using assms(1) by (simp add: datagram_def)
  have "distinct (map tile_of fr)" using stored_inj [OF t] assms(3) by simp
  then have inj: "inj_on tile_of (set fr)" by (simp add: distinct_map)
  have tf: "tile_of_frame (q0\<lparr>p_bytes := f\<rparr>, fh) = tile_of (f, fh)" for f fh by (simp add: tile_of_frame_def)
  have img: "tile_of_frame ` set frs = set (map tile_of fr)"
    unfolding assms(4) set_map image_image by (rule image_cong) (auto simp: tf)
  have "frame_ok ck h (map tile_of fr) x" if x: "x \<in> set frs" for x
  proof -
    obtain f fh where f: "(f, fh) \<in> set fr" "x = (q0\<lparr>p_bytes := f\<rparr>, fh)" using x assms(4) by auto
    have kept: "kept h (f, fh)" and payload: "ih_payloadSize fh = word_of_nat (length f)"
      using assms(1) f(1) by (auto simp: datagram_def)
    have "fst (tile_of (f, fh)) \<in> set (map fst (map tile_of fr))" using f(1) by (metis image_eqI set_map)
    then have "f \<in> set (map fst (map tile_of fr))" by (simp add: tile_of_def)
    moreover have "concat (map fst (map tile_of fr)) = data" using tiles_bytes [OF t] by blast
    ultimately have "length f \<le> length data" using length_in_concat by metis
    then have len: "length f < 65536" using assms(3) by simp
    have "header_ok fh" using kept assms(2) by (simp add: kept_def fresh_header_def header_ok_def same_packet_def)
    with kept payload len assms(2) f show ?thesis
      by (auto simp: frame_ok_def kept_def fresh_header_def tf)
  qed
  moreover have "inj_on tile_of_frame (set frs)"
  proof (rule inj_onI)
    fix x y assume "x \<in> set frs" "y \<in> set frs" "tile_of_frame x = tile_of_frame y"
    then obtain a b where ab: "a \<in> set fr" "b \<in> set fr" "x = (q0\<lparr>p_bytes := fst a\<rparr>, snd a)" "y = (q0\<lparr>p_bytes := fst b\<rparr>, snd b)"
      "tile_of a = tile_of b" using assms(4) by (auto simp: tf)
    then have "a = b" using inj by (simp add: inj_on_def)
    with ab show "x = y" by simp
  qed
  ultimately show ?thesis using t img by blast
qed

text \<open>One reception, whether the packet was cut or not.\<close>

lemma receive_one:
  assumes "awaits d h k iif ts xs s" and "frame_ok (le_checksum env) h ts (q, fh)" and "set xs \<subset> set ts"
    and "tiles 0 False data ts" and "length data < 65536" and "length pad < 65536"
    and "\<not> Ipv4Address_IsMulticast (ih_dst h)" and "\<forall>q h. le_rxStatus env k q h iif \<noteq> RX_ENDPOINT_UNREACH"
  shows "\<exists>bs s' es. Ih_Serialize fh = Some bs \<and>
    L3_Receive env d (q\<lparr>p_bytes := bs @ p_bytes q @ pad\<rparr>) hw s = Some s' \<and> (\<forall>e \<in> set es. raw_copy e) \<and>
    (if insert (tile_of_frame (q, fh)) (set xs) = set ts
     then \<exists>q' h'. l3_out s' = l3_out s @ es @ [L4Receive k q' h' iif] \<and> delivered_as h data q' h' \<and>
       awaits d h k iif ts [] s'
     else l3_out s' = l3_out s @ es \<and> awaits d h k iif ts (xs @ [tile_of_frame (q, fh)]) s')"
proof (cases "is_fragment (tile_of_frame (q, fh))")
  case True
  from receive_fragment [OF assms(1,2) True assms(4-8), of hw] show ?thesis by simp
next
  case False
  have "tile_of_frame (q, fh) \<in> set ts" using assms(2) by (simp add: frame_ok_def)
  from tiles_whole [OF assms(4) this False] have one: "ts = [tile_of_frame (q, fh)]"
    "tile_of_frame (q, fh) = (data, 0, False)" by blast+
  then have "set xs \<subset> {tile_of_frame (q, fh)}" using assms(3) by (metis list.simps(15) list.set(1))
  then have "set xs = {}" by (auto simp: psubset_eq subset_singleton_iff)
  then have "xs = []" by simp
  then have "awaits d h k iif ts [] s" using assms(1) by simp
  from receive_whole [OF this assms(2) one(2) assms(6,7,8), of hw]
  obtain bs s' es q' h' where w: "Ih_Serialize fh = Some bs"
    "L3_Receive env d (q\<lparr>p_bytes := bs @ p_bytes q @ pad\<rparr>) hw s = Some s'" "\<forall>e \<in> set es. raw_copy e"
    "l3_out s' = l3_out s @ es @ [L4Receive k q' h' iif]" "delivered_as h data q' h'" "awaits d h k iif ts [] s'" by blast
  have "insert (tile_of_frame (q, fh)) (set xs) = set ts"
    unfolding \<open>xs = []\<close> by (subst one(1)) simp
  with w show ?thesis by auto
qed

text \<open>
  How often the elements of \<open>F\<close> become complete in a sequence of receptions, when \<open>S\<close> are there already:
  every time the last one missing comes the collection starts again.
\<close>

fun completions :: "'a set \<Rightarrow> 'a set \<Rightarrow> 'a list \<Rightarrow> nat" where
  "completions F S [] = 0"
| "completions F S (x # xs) =
     (if insert x S = F then Suc (completions F {} xs) else completions F (insert x S) xs)"

lemma completions_image:
  "inj_on f F \<Longrightarrow> S \<subseteq> F \<Longrightarrow> set xs \<subseteq> F \<Longrightarrow> completions (f ` F) (f ` S) (map f xs) = completions F S xs"
proof (induction xs arbitrary: S)
  case (Cons x xs)
  have sub: "insert x S \<subseteq> F" using Cons.prems by simp
  then have "insert (f x) (f ` S) = f ` F \<longleftrightarrow> insert x S = F"
    using inj_on_image_eq_iff [OF Cons.prems(1) sub order_refl] by simp
  with Cons.IH [of "{}"] Cons.IH [OF _ sub] Cons.prems show ?case by simp
qed simp

text \<open>An entry of the log that hands the data to the upper protocol.\<close>

fun hands_over :: "nat \<Rightarrow> u32 \<Rightarrow> ipv4_header \<Rightarrow> u8 list \<Rightarrow> l3_effect \<Rightarrow> bool" where
  "hands_over k iif h data (L4Receive k' q h' i) \<longleftrightarrow> k' = k \<and> i = iif \<and> delivered_as h data q h'"
| "hands_over k iif h data _ \<longleftrightarrow> False"

definition handed_over :: "nat \<Rightarrow> u32 \<Rightarrow> ipv4_header \<Rightarrow> u8 list \<Rightarrow> nat \<Rightarrow> l3_effect list \<Rightarrow> bool" where
  "handed_over k iif h data n es \<longleftrightarrow> (\<forall>e \<in> set es. raw_copy e \<or> hands_over k iif h data e) \<and>
     length (filter (\<lambda>e. \<not> raw_copy e) es) = n"

lemma handed_over_none: "\<forall>e \<in> set es. raw_copy e \<Longrightarrow> handed_over k iif h data 0 es"
  by (simp add: handed_over_def filter_False)

lemma handed_over_one: "delivered_as h data q h' \<Longrightarrow> handed_over k iif h data 1 [L4Receive k q h' iif]"
  by (simp add: handed_over_def)

lemma handed_over_append:
  "handed_over k iif h data n es \<Longrightarrow> handed_over k iif h data m fs \<Longrightarrow> handed_over k iif h data (n + m) (es @ fs)"
  by (auto simp: handed_over_def)

lemma receive_run:
  assumes "tiles 0 False data ts" and "length data < 65536" and "\<not> Ipv4Address_IsMulticast (ih_dst h)"
    and "\<forall>q h. le_rxStatus env k q h iif \<noteq> RX_ENDPOINT_UNREACH"
  shows "awaits d h k iif ts xs s \<Longrightarrow> set xs \<subset> set ts \<Longrightarrow>
    \<forall>a \<in> set rs. frame_ok (le_checksum env) h ts (arrived a) \<and> length (fst (snd (snd a))) < 65536 \<Longrightarrow>
    \<exists>s' es. receive_frames env d rs s = Some s' \<and> l3_out s' = l3_out s @ es \<and>
      handed_over k iif h data (completions (set ts) (set xs) (map (tile_of_frame \<circ> arrived) rs)) es"
proof (induction rs arbitrary: xs s)
  case Nil
  then show ?case by (simp add: handed_over_none)
next
  case (Cons a rs)
  obtain now q fh pad m where a: "a = (now, (q, fh), pad, m)" by (cases a) auto
  then have ar: "arrived a = (q, fh)" by (simp add: arrived_def)
  let ?env = "env\<lparr>le_now := now\<rparr>" and ?t = "tile_of_frame (q, fh)"
  have fo: "frame_ok (le_checksum ?env) h ts (q, fh)" "length pad < 65536"
    using Cons.prems(3) a ar by auto
  have rx: "\<forall>q h. le_rxStatus ?env k q h iif \<noteq> RX_ENDPOINT_UNREACH" using assms(4) by simp
  have rest: "\<forall>a \<in> set rs. frame_ok (le_checksum env) h ts (arrived a) \<and> length (fst (snd (snd a))) < 65536"
    using Cons.prems(3) by simp
  note step = receive_one [OF Cons.prems(1) fo(1) Cons.prems(2) assms(1,2) fo(2) assms(3) rx, of m]
  show ?case
  proof (cases "insert ?t (set xs) = set ts")
    case True
    then obtain bs s1 es1 q' h' where s1: "Ih_Serialize fh = Some bs"
      "L3_Receive ?env d (q\<lparr>p_bytes := bs @ p_bytes q @ pad\<rparr>) m s = Some s1" "\<forall>e \<in> set es1. raw_copy e"
      "l3_out s1 = l3_out s @ es1 @ [L4Receive k q' h' iif]" "delivered_as h data q' h'" "awaits d h k iif ts [] s1"
      using step by auto
    have "set [] \<subset> set ts" using True by auto
    from Cons.IH [OF s1(6) this rest] obtain s2 es2 where s2: "receive_frames env d rs s1 = Some s2"
      "l3_out s2 = l3_out s1 @ es2"
      "handed_over k iif h data (completions (set ts) {} (map (tile_of_frame \<circ> arrived) rs)) es2"
      by (auto simp: comp_def)
    have "handed_over k iif h data (0 + 1 + completions (set ts) {} (map (tile_of_frame \<circ> arrived) rs))
        ((es1 @ [L4Receive k q' h' iif]) @ es2)"
      by (intro handed_over_append handed_over_none handed_over_one s1(3,5) s2(3))
    with a ar True s1(1,2,4) s2(1,2) show ?thesis by (simp add: comp_def)
  next
    case False
    then obtain bs s1 es1 where s1: "Ih_Serialize fh = Some bs"
      "L3_Receive ?env d (q\<lparr>p_bytes := bs @ p_bytes q @ pad\<rparr>) m s = Some s1" "\<forall>e \<in> set es1. raw_copy e"
      "l3_out s1 = l3_out s @ es1" "awaits d h k iif ts (xs @ [?t]) s1"
      using step by auto
    have "set (xs @ [?t]) \<subset> set ts" using False Cons.prems(2) fo(1) by (auto simp: frame_ok_def)
    from Cons.IH [OF s1(5) this rest] obtain s2 es2 where s2: "receive_frames env d rs s1 = Some s2"
      "l3_out s2 = l3_out s1 @ es2"
      "handed_over k iif h data (completions (set ts) (insert ?t (set xs)) (map (tile_of_frame \<circ> arrived) rs)) es2"
      by (auto simp: comp_def)
    have "handed_over k iif h data (0 + completions (set ts) (insert ?t (set xs)) (map (tile_of_frame \<circ> arrived) rs))
        (es1 @ es2)"
      by (intro handed_over_append handed_over_none s1(3) s2(3))
    with a ar False s1(1,2,4) s2(1,2) show ?thesis by (simp add: comp_def)
  qed
qed

text \<open>The frames of a packet that was sent, in any sequence of receptions.\<close>

lemma datagram_handed_over:
  assumes "L3_Send envA p src dst protocol (Some route) sA = Some sA'" and "frames_sent sA sA' \<noteq> []"
    and "p_bytes p \<noteq> []" and "length (p_bytes p) < 65536" and "\<forall>d. 28 \<le> unat (le_mtu envA d)"
    and "\<not> Ipv4Address_IsMulticast dst"
    and "le_checksum envB = le_checksum envA" and "\<forall>q h. le_rxStatus envB k q h iif \<noteq> RX_ENDPOINT_UNREACH"
    and "receiver_ready sB d dst protocol k iif"
    and "fragment_reach expiration t0 (l3_fragments sB)" and "0 \<le> expiration"
    and "fs_fragments (l3_fragments sB) (fragment_key_of (snd (hd (frames_sent sA sA')))) = None"
    and "\<forall>a \<in> set rs. arrived a \<in> set (frames_sent sA sA') \<and> length (fst (snd (snd a))) < 65536"
  shows "\<exists>h sB' es. ih_src h = src \<and> ih_dst h = dst \<and> ih_protocol h = protocol \<and>
    receive_frames envB d rs sB = Some sB' \<and> l3_out sB' = l3_out sB @ es \<and>
    handed_over k iif h (p_bytes p) (completions (set (frames_sent sA sA')) {} (map arrived rs)) es"
proof -
  let ?frs = "frames_sent sA sA'"
  obtain q0 h fr where fr: "?frs = map (\<lambda>(f, fh). (q0\<lparr>p_bytes := f\<rparr>, fh)) fr" "datagram h (p_bytes p) fr"
    "fresh_header (le_checksum envA) h" "ih_src h = src" "ih_dst h = dst" "ih_protocol h = protocol"
    by (rule Send_datagram [OF assms(1-6)])
  let ?ts = "map tile_of fr"
  note fs = datagram_frames [OF fr(2) fr(3) [folded assms(7)] assms(4) fr(1)]
  have t: "tiles 0 False (p_bytes p) ?ts" "inj_on tile_of_frame (set ?frs)" "tile_of_frame ` set ?frs = set ?ts"
    using fs by blast+
  have ok: "\<forall>a \<in> set rs. frame_ok (le_checksum envB) h ?ts (arrived a) \<and> length (fst (snd (snd a))) < 65536"
    using fs assms(13) by blast
  have mc: "\<not> Ipv4Address_IsMulticast (ih_dst h)" using assms(6) fr(5) by simp
  have "snd (hd ?frs) = snd (hd fr)" "hd fr \<in> set fr" using fr(1) assms(2) by (cases fr; auto)+
  then have "same_packet h (snd (hd ?frs))" using fr(2) by (auto simp: datagram_def kept_def)
  then have "fs_fragments (l3_fragments sB) (fragment_key_of h) = None"
    using assms(12) same_packet_key by metis
  then have aw: "awaits d h k iif ?ts [] sB"
    using assms(9) fr(5,6) fragment_reach_buffers [OF assms(10,11)] by (simp add: awaits_def holds_def buffers_at_def)
  have "set [] \<subset> set ?ts" using t(1) by (cases fr) auto
  from receive_run [OF t(1) assms(4) mc assms(8) aw this ok] obtain sB' es where
    run: "receive_frames envB d rs sB = Some sB'" "l3_out sB' = l3_out sB @ es"
    "handed_over k iif h (p_bytes p) (completions (set ?ts) {} (map (tile_of_frame \<circ> arrived) rs)) es" by (auto simp: comp_def)
  have "set (map arrived rs) \<subseteq> set ?frs" using assms(13) by auto
  from completions_image [OF t(2) empty_subsetI this] t(3)
  have "completions (set ?ts) {} (map (tile_of_frame \<circ> arrived) rs) = completions (set ?frs) {} (map arrived rs)"
    by simp
  with run fr(4-6) show ?thesis by auto
qed

text \<open>Property C11: a packet arrives. The frames \<open>Send\<close> makes of a unicast packet, cut for the MTU where it is too
  large, may reach the receiver in any sequence, repeated and padded by the link: the receiver
  processes every one of them, and the upper protocol is handed the packet, with the bytes, the
  addresses and the identification it was sent with, as often as the frames become complete, and
  nothing else. So nothing goes up before all frames are there, and the packet goes up again when all
  of them come a second time. Since this holds for every sequence, it holds after each reception.\<close>

theorem datagram_delivered:
  assumes "L3_Send envA p src dst protocol (Some route) sA = Some sA'" and "frames_sent sA sA' \<noteq> []"
    and "p_bytes p \<noteq> []" and "length (p_bytes p) < 65536" and "\<forall>d. 28 \<le> unat (le_mtu envA d)"
    and "\<not> Ipv4Address_IsMulticast dst"
    and "le_checksum envB = le_checksum envA" and "\<forall>q h. le_rxStatus envB k q h iif \<noteq> RX_ENDPOINT_UNREACH"
    and "receiver_ready sB d dst protocol k iif"
    and "fragment_reach expiration t0 (l3_fragments sB)" and "0 \<le> expiration"
    and "fs_fragments (l3_fragments sB) (fragment_key_of (snd (hd (frames_sent sA sA')))) = None"
    and "\<forall>a \<in> set rs. arrived a \<in> set (frames_sent sA sA') \<and> length (fst (snd (snd a))) < 65536"
  shows "\<exists>h sB' es. ih_src h = src \<and> ih_dst h = dst \<and> ih_protocol h = protocol \<and>
    receive_frames envB d rs sB = Some sB' \<and> l3_out sB' = l3_out sB @ es \<and>
    (\<forall>e \<in> set es. raw_copy e \<or> hands_over k iif h (p_bytes p) e) \<and>
    length (filter (\<lambda>e. \<not> raw_copy e) es) = completions (set (frames_sent sA sA')) {} (map arrived rs)"
  using datagram_handed_over [OF assms] unfolding handed_over_def by blast

section \<open>Witness\<close>

text \<open>Sixteen bytes over a link with an MTU of 28; the second fragment arrives first, with a byte of padding.\<close>

definition env1 :: l3_env where
  "env1 = env0\<lparr>le_mtu := (\<lambda>_. 28)\<rparr>"

definition packet1 :: packet where
  "packet1 = Packet_Create\<lparr>p_bytes := data0\<rparr>"

definition header1 :: ipv4_header where
  "header1 = (header0_of 0)\<lparr>ih_payloadSize := 16\<rparr>"

definition first1 :: "packet \<times> ipv4_header" where
  "first1 = (packet1\<lparr>p_bytes := take 8 data0\<rparr>, header1\<lparr>ih_flags := 2, ih_payloadSize := 8\<rparr>)"

definition second1 :: "packet \<times> ipv4_header" where
  "second1 = (packet1\<lparr>p_bytes := drop 8 data0\<rparr>, header1\<lparr>ih_fragmentOffset := 8, ih_payloadSize := 8\<rparr>)"

definition node1 :: "Ipv4StaticRouting l3" where
  "node1 = node0\<lparr>l3_interfaces := [if0\<lparr>if_addrs := [Ipv4InterfaceAddress_make 0x0a000002 0xff000000]\<rparr>]\<rparr>"

lemma cut1: "DoFragmentation False data0 header1 28 =
    Some [(take 8 data0, header1\<lparr>ih_flags := 2, ih_payloadSize := 8\<rparr>), (drop 8 data0, header1\<lparr>ih_fragmentOffset := 8, ih_payloadSize := 8\<rparr>)]"
  by code_simp

lemma send1: "\<exists>s'. L3_Send env1 packet1 0x0a000001 0x0a000002 17 (Some route0) node0 = Some s' \<and>
    frames_sent node0 s' = [first1, second1]"
proof -
  have start: "\<exists>s1. L3_send_start env1 packet1 0x0a000001 0x0a000002 17 node0 = (packet1, header1, s1) \<and>
      l3_interfaces s1 = [if0] \<and> \<not> l3_enableDpd s1 \<and> l3_out s1 = []"
    by (simp add: L3_send_start_def L3_BuildHeader_def Let_def node0_def L3_make_def env1_def env0_def packet1_def
        Packet_Create_def data0_def header1_def header0_of_def Ih_make_def Ih_SetMayFragment_def DONT_FRAGMENT_def)
  then obtain s1 where s1: "L3_send_start env1 packet1 0x0a000001 0x0a000002 17 node0 = (packet1, header1, s1)"
    "l3_interfaces s1 = [if0]" "\<not> l3_enableDpd s1" "l3_out s1 = []" by blast
  have h: "ih_headerSize header1 = 20" "p_bytes packet1 = data0" "length data0 = 16" "if_dev if0 = 1" "if_up if0"
    by (simp_all add: header1_def header0_of_def Ih_make_def packet1_def data0_def if0_def)
  have "L3_SendRealOut env1 (Some route0) packet1 header1 s1 = Some (l3_log
      [IfSend 0 (fst first1) (snd first1) (ih_dst header1), IfSend 0 (fst second1) (snd second1) (ih_dst header1)] s1)"
    using s1(2) h cut1
    by (simp add: L3_SendRealOut_def Let_def Ipv4_GetInterfaceForDevice_def Ipv4_GetInterface_def route0_def
        proxy_route_def env1_def env0_def first1_def second1_def)
  with s1 have "L3_Send env1 packet1 0x0a000001 0x0a000002 17 (Some route0) node0 = Some (l3_log
      [IfSend 0 (fst first1) (snd first1) (ih_dst header1), IfSend 0 (fst second1) (snd second1) (ih_dst header1)] s1)"
    by (simp add: L3_Send_def L3_send_route_def env1_def env0_def)
  then show ?thesis using s1(4) by (simp add: frames_sent_def node0_def L3_make_def)
qed

lemma ready1: "receiver_ready node1 1 0x0a000002 17 7 0"
proof -
  have "takes_packets node1 1 0x0a000002 (word_of_int 0)"
  proof (rule static_takes_packets)
    show "l3_routing node1 = Some (\<lambda>v weakEs. static_protocol v weakEs (\<lambda>w. w) (\<lambda>s w. s))"
      by (simp add: node1_def node0_def)
    show "Ipv4_IsDestinationAddress (l3_interfaces node1) (l3_weakEsModel node1) 0x0a000002 0 = Some True"
      by (simp add: node1_def node0_def L3_make_def Ipv4_IsDestinationAddress_def Ipv4_GetInterface_def if0_def
          Ipv4_addr_match_def Ipv4InterfaceAddress_make_def)
  qed (simp_all add: node1_def node0_def L3_make_def if0_def Ipv4_GetInterfaceForDevice_def Ipv4Address_IsMulticast_def)
  then show ?thesis
    by (simp add: receiver_ready_def node1_def node0_def L3_make_def if0_def Ipv4_GetInterfaceForDevice_def
        Ipv4_GetInterface_def L3_GetProtocol_def)
qed

theorem datagram_delivered_witness:
  "\<exists>sA' sB' es. L3_Send env1 packet1 0x0a000001 0x0a000002 17 (Some route0) node0 = Some sA' \<and>
    frames_sent node0 sA' = [first1, second1] \<and>
    receive_frames env1 1 [(3, second1, [0], 5), (4, first1, [], 5), (5, first1, [], 5), (6, first1, [], 5), (7, second1, [], 5)]
      node1 = Some sB' \<and> l3_out sB' = l3_out node1 @ es \<and> length (filter (\<lambda>e. \<not> raw_copy e) es) = 2"
proof -
  let ?rs = "[(3, second1, [0], 5), (4, first1, [], 5), (5, first1, [], 5), (6, first1, [], 5), (7, second1, [], 5)]"
  obtain sA' where send: "L3_Send env1 packet1 0x0a000001 0x0a000002 17 (Some route0) node0 = Some sA'"
    and frames: "frames_sent node0 sA' = [first1, second1]" using send1 by blast
  have p: "p_bytes packet1 \<noteq> []" "length (p_bytes packet1) < 65536"
    by (simp_all add: packet1_def data0_def)
  have mtu: "\<forall>d. 28 \<le> unat (le_mtu env1 d)" and rx: "\<forall>q h. le_rxStatus env1 7 q h 0 \<noteq> RX_ENDPOINT_UNREACH"
    by (simp_all add: env1_def env0_def)
  have mc: "\<not> Ipv4Address_IsMulticast 0x0a000002" by (simp add: Ipv4Address_IsMulticast_def)
  have fs: "l3_fragments node1 = Fragment_make (Seconds_int 30)" by (simp add: node1_def node0_def L3_make_def)
  then have reach: "fragment_reach (Seconds_int 30) 0 (l3_fragments node1)" by (simp add: fragment_reach.start)
  have key: "fs_fragments (l3_fragments node1) (fragment_key_of (snd (hd (frames_sent node0 sA')))) = None"
    unfolding fs by (simp add: Fragment_make_def)
  have ne: "first1 \<noteq> second1" by (simp add: first1_def second1_def header1_def header0_of_def Ih_make_def)
  have "frames_sent node0 sA' \<noteq> []" "0 \<le> Seconds_int 30" "le_checksum env1 = le_checksum env1"
    "\<forall>a \<in> set ?rs. arrived a \<in> set (frames_sent node0 sA') \<and> length (fst (snd (snd a))) < 65536"
    using frames by (auto simp: Seconds_int_def arrived_def)
  from datagram_delivered [OF send this(1) p mtu mc this(3) rx ready1 reach this(2) key this(4)]
  obtain sB' es where r: "receive_frames env1 1 ?rs node1 = Some sB'" "l3_out sB' = l3_out node1 @ es"
    "length (filter (\<lambda>e. \<not> raw_copy e) es) = completions {first1, second1} {} (map arrived ?rs)"
    using frames by auto
  have "{first1} \<noteq> {first1, second1}" "{second1} \<noteq> {first1, second1}" "{second1, first1} = {first1, second1}"
    using ne by auto
  then have "completions {first1, second1} {} (map arrived ?rs) = 2" using ne by (simp add: arrived_def)
  with r send frames show ?thesis by auto
qed

end
