(* ===== verification/Arp_Protocol.thy ===== *)
theory Arp_Protocol
  imports Ipv4_Layer
begin

text \<open>
  \<open>ArpL3Protocol\<close> (src/internet/model/arp-l3-protocol.cc) with its header (arp-header.cc), and
  \<open>Ipv4Interface::Send\<close> (ipv4-interface.cc), which asks it for hardware addresses: requests, replies and the
  packets that wait for them. The caches are those of \<open>Arp_Cache\<close>.
\<close>

section \<open>The header\<close>

text \<open>A hardware address as it travels is the list of its bytes; those of the caches have 48 bits.\<close>

type_synonym hw_address = "u8 list"

definition mac_bytes :: "mac \<Rightarrow> hw_address" where
  "mac_bytes m = map (\<lambda>k. ucast (drop_bit k m)) [40, 32, 24, 16, 8, 0]"

definition mac_of :: "hw_address \<Rightarrow> mac option" where
  "mac_of bs = (if length bs = 6 then Some (fold (\<lambda>b m. push_bit 8 m OR ucast b) bs 0) else None)"

definition ARP_TYPE_REQUEST :: u16 where "ARP_TYPE_REQUEST = 1"
definition ARP_TYPE_REPLY :: u16 where "ARP_TYPE_REPLY = 2"

record ArpHeader =
  ah_type :: u16
  ah_macSource :: hw_address
  ah_macDest :: hw_address
  ah_ipv4Source :: ip
  ah_ipv4Dest :: ip

definition Arp_SetRequest :: "hw_address \<Rightarrow> ip \<Rightarrow> hw_address \<Rightarrow> ip \<Rightarrow> ArpHeader" where
  "Arp_SetRequest sh sp dh dp =
     \<lparr>ah_type = ARP_TYPE_REQUEST, ah_macSource = sh, ah_macDest = dh, ah_ipv4Source = sp, ah_ipv4Dest = dp\<rparr>"

definition Arp_SetReply :: "hw_address \<Rightarrow> ip \<Rightarrow> hw_address \<Rightarrow> ip \<Rightarrow> ArpHeader" where
  "Arp_SetReply sh sp dh dp =
     \<lparr>ah_type = ARP_TYPE_REPLY, ah_macSource = sh, ah_macDest = dh, ah_ipv4Source = sp, ah_ipv4Dest = dp\<rparr>"

definition Arp_IsRequest :: "ArpHeader \<Rightarrow> bool" where "Arp_IsRequest h \<longleftrightarrow> ah_type h = ARP_TYPE_REQUEST"
definition Arp_IsReply :: "ArpHeader \<Rightarrow> bool" where "Arp_IsReply h \<longleftrightarrow> ah_type h = ARP_TYPE_REPLY"

definition Arp_GetSerializedSize :: "ArpHeader \<Rightarrow> nat option" where
  "Arp_GetSerializedSize h =
     do {
       ensure (length (ah_macSource h) = 6 \<or> length (ah_macSource h) = 8 \<or> length (ah_macSource h) = 1);
       ensure (length (ah_macSource h) = length (ah_macDest h));
       Some (16 + length (ah_macSource h) * 2)
     }"

definition Arp_Serialize :: "ArpHeader \<Rightarrow> u8 list option" where
  "Arp_Serialize h =
     do {
       ensure (length (ah_macSource h) = length (ah_macDest h));
       Some (WriteHtonU16 0x0001 @ WriteHtonU16 0x0800 @ [word_of_nat (length (ah_macSource h)), 4] @
             WriteHtonU16 (ah_type h) @ ah_macSource h @ WriteHtonU32 (ah_ipv4Source h) @
             ah_macDest h @ WriteHtonU32 (ah_ipv4Dest h))
     }"

text \<open>\<open>ReadFrom\<close> reads into a buffer of 20 bytes; a longer address is undefined.\<close>

definition Arp_ReadFrom :: "nat \<Rightarrow> u8 list \<Rightarrow> (hw_address \<times> u8 list) option" where
  "Arp_ReadFrom len bs =
     do { ensure (len \<le> 20); ensure (len \<le> length bs); Some (take len bs, drop len bs) }"

text \<open>The number of bytes consumed and the header; 0 and no header for another protocol.\<close>

definition Arp_Deserialize :: "u8 list \<Rightarrow> (nat \<times> ArpHeader option) option" where
  "Arp_Deserialize start =
     do {
       ensure (2 \<le> length start);
       (protocolType, i) \<leftarrow> ReadNtohU16 (drop 2 start);
       (hardwareAddressLen, i) \<leftarrow> ReadU8 i;
       (protocolAddressLen, i) \<leftarrow> ReadU8 i;
       if protocolType \<noteq> 0x800 \<or> protocolAddressLen \<noteq> 4 then Some (0, None)
       else do {
         (type, i) \<leftarrow> ReadNtohU16 i;
         (sh, i) \<leftarrow> Arp_ReadFrom (unat hardwareAddressLen) i;
         (sp, i) \<leftarrow> ReadNtohU32 i;
         (dh, i) \<leftarrow> Arp_ReadFrom (unat hardwareAddressLen) i;
         (dp, i) \<leftarrow> ReadNtohU32 i;
         let h = \<lparr>ah_type = type, ah_macSource = sh, ah_macDest = dh, ah_ipv4Source = sp, ah_ipv4Dest = dp\<rparr>;
         n \<leftarrow> Arp_GetSerializedSize h;
         Some (n, Some h)
       }
     }"

section \<open>State of a node\<close>

text \<open>
  A device is known by its addresses and its virtual functions, which the environment gives; the jitter of a
  request is a random number, an argument of the operation that draws it.
\<close>

record arp_env =
  ae_now :: time
  ae_address :: "dev \<Rightarrow> mac"
  ae_broadcast :: "dev \<Rightarrow> mac"
  ae_multicast :: "dev \<Rightarrow> ip \<Rightarrow> mac"
  ae_isMulticast :: "dev \<Rightarrow> bool"
  ae_needsArp :: "dev \<Rightarrow> bool"
  ae_isLoopback :: "dev \<Rightarrow> bool"

text \<open>
  What leaves: an ARP packet, an IP packet with its hardware destination, a packet on the loopback device or
  handed back by the traffic control layer, and the packets of the drop traces, with the header added for tracing.
\<close>

datatype arp_effect =
  ArpSent dev ArpHeader hw_address
| FrameSent dev packet ipv4_header mac
| LoopbackSent dev packet
| SelfReceived dev packet
| ArpDropped packet ipv4_header
| ArpReplyDropped ArpHeader

text \<open>
  \<open>m_cacheList\<close> by device, each cache with the index of its interface; the cache of an interface is the one
  of its device. \<open>an_requests\<close> are the scheduled calls of \<open>SendArpRequest\<close>.
\<close>

record arp_node =
  an_interfaces :: Ipv4
  an_caches :: "(dev \<times> int \<times> ArpCache) list"
  an_requests :: "(time \<times> dev \<times> ip) list"
  an_out :: "arp_effect list"

definition arp_log :: "arp_effect list \<Rightarrow> arp_node \<Rightarrow> arp_node" where
  "arp_log es s = s\<lparr>an_out := an_out s @ es\<rparr>"

definition Arp_CreateCache :: "dev \<Rightarrow> int \<Rightarrow> nat \<Rightarrow> arp_node \<Rightarrow> arp_node" where
  "Arp_CreateCache d i n s = s\<lparr>an_caches := an_caches s @ [(d, i, ArpCache_default n)]\<rparr>"

definition Arp_FindCache :: "dev \<Rightarrow> arp_node \<Rightarrow> (int \<times> ArpCache) option" where
  "Arp_FindCache d s = map_of (an_caches s) d"

definition put_cache :: "dev \<Rightarrow> ArpCache \<Rightarrow> arp_node \<Rightarrow> arp_node" where
  "put_cache d c s =
     s\<lparr>an_caches := map (\<lambda>(d', i, c'). (d', i, if d' = d then c else c')) (an_caches s)\<rparr>"

section \<open>Requests and replies\<close>

definition Arp_SendArpRequest :: "arp_env \<Rightarrow> dev \<Rightarrow> ip \<Rightarrow> arp_node \<Rightarrow> arp_node option" where
  "Arp_SendArpRequest env d to s =
     do {
       src \<leftarrow> L3_SelectSourceAddress (Some d) to GLOBAL (an_interfaces s);
       Some (arp_log [ArpSent d (Arp_SetRequest (mac_bytes (ae_address env d)) src (mac_bytes (ae_broadcast env d)) to)
                        (mac_bytes (ae_broadcast env d))] s)
     }"

definition Arp_SendArpReply :: "arp_env \<Rightarrow> dev \<Rightarrow> ip \<Rightarrow> ip \<Rightarrow> hw_address \<Rightarrow> arp_node \<Rightarrow> arp_node" where
  "Arp_SendArpReply env d myIp toIp toMac s =
     arp_log [ArpSent d (Arp_SetReply (mac_bytes (ae_address env d)) myIp toMac toIp) toMac] s"

text \<open>The request scheduled after a jitter when an entry begins to wait.\<close>

definition wait_and_request ::
    "arp_env \<Rightarrow> time \<Rightarrow> dev \<Rightarrow> ip \<Rightarrow> packet \<times> ipv4_header \<Rightarrow> ArpCache \<Rightarrow> arp_node \<Rightarrow> arp_node option" where
  "wait_and_request env jitter d destination waiting c s =
     do {
       c \<leftarrow> Arp_MarkWaitReply (ae_now env) destination waiting c;
       Some ((put_cache d c s)\<lparr>an_requests := an_requests s @ [(ae_now env + jitter, d, destination)]\<rparr>)
     }"

text \<open>\<open>Lookup\<close>: the hardware address, if the packet can be sent now. The fatal error is \<open>None\<close>.\<close>

definition Arp_Lookup ::
    "arp_env \<Rightarrow> time \<Rightarrow> packet \<Rightarrow> ipv4_header \<Rightarrow> ip \<Rightarrow> dev \<Rightarrow> ArpCache \<Rightarrow> arp_node \<Rightarrow>
      (mac option option \<times> arp_node) option" where
  "Arp_Lookup env jitter packet h destination d cache s =
     (case ArpCache_Lookup destination cache of
        Some entry \<Rightarrow>
          if Arp_IsExpired (ae_now env) cache entry then
            (if ae_state entry = DEAD \<or> ae_state entry = ALIVE
             then map_option (Pair None) (wait_and_request env jitter d destination (packet, h) cache s)
             else None)
          else (case ae_state entry of
              DEAD \<Rightarrow> Some (None, arp_log [ArpDropped packet h] s)
            | ALIVE \<Rightarrow> Some (Some (ae_mac entry), s)
            | WAIT_REPLY \<Rightarrow> do {
                (queued, entry) \<leftarrow> Arp_UpdateWaitReply cache (packet, h) entry;
                let s = put_cache d (ArpCache_put destination entry cache) s;
                Some (None, if queued then s else arp_log [ArpDropped packet h] s)
              }
            | PERMANENT \<Rightarrow> Some (Some (ae_mac entry), s)
            | STATIC_AUTOGENERATED \<Rightarrow> Some (Some (ae_mac entry), s))
      | None \<Rightarrow> do {
          cache \<leftarrow> ArpCache_Add destination cache;
          map_option (Pair None) (wait_and_request env jitter d destination (packet, h) cache s)
        })"

section \<open>Sending over an interface\<close>

text \<open>An address in the cache that was never set (an invalid \<open>Address\<close>) has no frame in the model.\<close>

definition Interface_transmit :: "dev \<Rightarrow> packet \<Rightarrow> ipv4_header \<Rightarrow> mac option \<Rightarrow> arp_node \<Rightarrow> arp_node option" where
  "Interface_transmit d p h hardwareDestination s =
     map_option (\<lambda>m. arp_log [FrameSent d p h m] s) hardwareDestination"

definition Interface_with_header :: "packet \<Rightarrow> ipv4_header \<Rightarrow> packet option" where
  "Interface_with_header p h =
     do { bs \<leftarrow> Ih_Serialize h; Packet_AddHeader (unat (ih_headerSize h)) bs p }"

definition Interface_Send ::
    "arp_env \<Rightarrow> time \<Rightarrow> int \<Rightarrow> packet \<Rightarrow> ipv4_header \<Rightarrow> ip \<Rightarrow> arp_node \<Rightarrow> arp_node option" where
  "Interface_Send env jitter i p h dest s =
     do {
       f \<leftarrow> Ipv4_GetInterface (an_interfaces s) i;
       let d = if_dev f;
       if \<not> if_up f then Some s
       else if ae_isLoopback env d
       then do { q \<leftarrow> Interface_with_header p h; Some (arp_log [LoopbackSent d q] s) }
       else if list_ex (\<lambda>a. dest = ia_local a) (if_addrs f)
       then do { q \<leftarrow> Interface_with_header p h; Some (arp_log [SelfReceived d q] s) }
       else if \<not> ae_needsArp env d then Interface_transmit d p h (Some (ae_broadcast env d)) s
       else if Ipv4Address_IsBroadcast dest then Interface_transmit d p h (Some (ae_broadcast env d)) s
       else if Ipv4Address_IsMulticast dest
       then do { ensure (ae_isMulticast env d); Interface_transmit d p h (Some (ae_multicast env d dest)) s }
       else if list_ex (\<lambda>a. Ipv4Address_IsSubnetDirectedBroadcast dest (ia_mask a)) (if_addrs f)
       then Interface_transmit d p h (Some (ae_broadcast env d)) s
       else do {
         (_, cache) \<leftarrow> Arp_FindCache d s;
         (found, s) \<leftarrow> Arp_Lookup env jitter p h dest d cache s;
         case found of None \<Rightarrow> Some s | Some m \<Rightarrow> Interface_transmit d p h m s
       }
     }"

section \<open>Receiving\<close>

text \<open>
  The loop that sends what waited: it takes the first packet from the entry and sends it, until none is left.
  Its rounds are bounded by \<open>n\<close>, the number of packets that wait; \<open>flush_pending_enough\<close> shows that more rounds
  change nothing, since a send does not queue packets behind the entry again.
\<close>

fun flush_pending :: "nat \<Rightarrow> arp_env \<Rightarrow> time \<Rightarrow> dev \<Rightarrow> int \<Rightarrow> ip \<Rightarrow> arp_node \<Rightarrow> arp_node option" where
  "flush_pending n env jitter d i src s =
     do {
       (_, cache) \<leftarrow> Arp_FindCache d s;
       entry \<leftarrow> ArpCache_Lookup src cache;
       case Arp_DequeuePending entry of
         (None, _) \<Rightarrow> Some s
       | (Some (p, h), entry) \<Rightarrow>
           (case n of
              0 \<Rightarrow> None
            | Suc n \<Rightarrow> do {
                s \<leftarrow> Interface_Send env jitter i p h src (put_cache d (ArpCache_put src entry cache) s);
                flush_pending n env jitter d i src s
              })
     }"

text \<open>A reply for one of the addresses of the interface.\<close>

definition Arp_receive_reply :: "arp_env \<Rightarrow> time \<Rightarrow> dev \<Rightarrow> int \<Rightarrow> ArpHeader \<Rightarrow> arp_node \<Rightarrow> arp_node option" where
  "Arp_receive_reply env jitter d i arp s =
     do {
       (_, cache) \<leftarrow> Arp_FindCache d s;
       case ArpCache_Lookup (ah_ipv4Source arp) cache of
         None \<Rightarrow> Some (arp_log [ArpReplyDropped arp] s)
       | Some entry \<Rightarrow>
           if ae_state entry = WAIT_REPLY then do {
             from_mac \<leftarrow> mac_of (ah_macSource arp);
             entry' \<leftarrow> Arp_MarkAlive (ae_now env) from_mac entry;
             flush_pending (length (ae_pending entry)) env jitter d i (ah_ipv4Source arp)
               (put_cache d (ArpCache_put (ah_ipv4Source arp) entry' cache) s)
           }
           else Some (arp_log [ArpReplyDropped arp] s)
     }"

text \<open>The loop over the addresses of the interface, which stops at the first that concerns the packet.\<close>

fun receive_loop :: "arp_env \<Rightarrow> time \<Rightarrow> dev \<Rightarrow> int \<Rightarrow> ArpHeader \<Rightarrow> Ipv4InterfaceAddress list \<Rightarrow> arp_node \<Rightarrow> arp_node option" where
  "receive_loop env jitter d i arp [] s = Some s"
| "receive_loop env jitter d i arp (a # as) s =
     (if Arp_IsRequest arp \<and> ah_ipv4Dest arp = ia_local a
      then Some (Arp_SendArpReply env d (ah_ipv4Dest arp) (ah_ipv4Source arp) (ah_macSource arp) s)
      else if Arp_IsReply arp \<and> ah_ipv4Dest arp = ia_local a \<and> ah_macDest arp = mac_bytes (ae_address env d)
      then Arp_receive_reply env jitter d i arp s
      else receive_loop env jitter d i arp as s)"

definition Arp_Receive :: "arp_env \<Rightarrow> time \<Rightarrow> dev \<Rightarrow> u8 list \<Rightarrow> arp_node \<Rightarrow> arp_node option" where
  "Arp_Receive env jitter d p s =
     do {
       (i, cache) \<leftarrow> Arp_FindCache d s;
       (sz, arp) \<leftarrow> Arp_Deserialize p;
       case arp of
         None \<Rightarrow> Some s
       | Some arp \<Rightarrow> do {
           f \<leftarrow> Ipv4_GetInterface (an_interfaces s) i;
           receive_loop env jitter d i arp (if_addrs f) s
         }
     }"

section \<open>Events of a cache\<close>

text \<open>\<open>HandleWaitReplyTimeout\<close> of the cache of a device, with its requests and the packets it drops.\<close>

definition Arp_wait_effect :: "arp_env \<Rightarrow> dev \<Rightarrow> arp_wait_effect \<Rightarrow> arp_node \<Rightarrow> arp_node option" where
  "Arp_wait_effect env d fx s =
     (case fx of
        RequestAgain a \<Rightarrow> Arp_SendArpRequest env d a s
      | GiveUp (p, h) \<Rightarrow> Some (arp_log [ArpDropped p h] s))"

definition Arp_HandleTimeout :: "arp_env \<Rightarrow> dev \<Rightarrow> arp_node \<Rightarrow> arp_node option" where
  "Arp_HandleTimeout env d s =
     do {
       (_, cache) \<leftarrow> Arp_FindCache d s;
       (fx, cache) \<leftarrow> ArpCache_HandleWaitReplyTimeout (ae_now env) cache;
       fold_opt (Arp_wait_effect env d) fx (put_cache d cache s)
     }"

definition Arp_LinkChanged :: "dev \<Rightarrow> arp_node \<Rightarrow> arp_node option" where
  "Arp_LinkChanged d s = map_option (\<lambda>(_, cache). put_cache d (ArpCache_Flush cache) s) (Arp_FindCache d s)"

text \<open>What \<open>Ipv4L3Protocol::Receive\<close> does to the cache.\<close>

definition Arp_heard :: "arp_env \<Rightarrow> dev \<Rightarrow> ip \<Rightarrow> mac \<Rightarrow> arp_node \<Rightarrow> arp_node option" where
  "Arp_heard env d src hw s =
     map_option (\<lambda>(_, cache). put_cache d (L3_update_arp (ae_now env) src hw cache) s) (Arp_FindCache d s)"

text \<open>An entry set by hand (\<open>AddEntry\<close> of neighbor-cache-helper.cc); an interface without a cache is left alone.\<close>

definition Arp_AddEntry :: "arp_env \<Rightarrow> dev \<Rightarrow> ip \<Rightarrow> mac \<Rightarrow> arp_node \<Rightarrow> arp_node option" where
  "Arp_AddEntry env d a m s =
     (case Arp_FindCache d s of
        None \<Rightarrow> Some s
      | Some (_, cache) \<Rightarrow> do {
          cache \<leftarrow> (if ArpCache_Lookup a cache = None then ArpCache_Add a cache else Some cache);
          entry \<leftarrow> ArpCache_Lookup a cache;
          entry \<leftarrow> Arp_MarkAutoGenerated (ae_now env) (entry\<lparr>ae_mac := Some m\<rparr>);
          Some (put_cache d (ArpCache_put a entry cache) s)
        })"

end
