(* ===== verification/Arp_Properties.thy ===== *)
theory Arp_Properties
  imports Arp_Protocol
begin

text \<open>
  What address resolution guarantees: the round trip of its header, that the fatal error of
  \<open>Lookup\<close> is never met, what a reply does to the packets that wait and that it does nothing to others, and that a
  request answered by another node sends the packet that waited.
\<close>

section \<open>The header\<close>

lemma mac_of_bytes [simp]: "mac_of (mac_bytes m) = Some m"
proof -
  have "fold (\<lambda>b m. push_bit 8 m OR ucast b) (mac_bytes m) 0 = m" (is "?l = m")
  proof (rule bit_word_eqI)
    fix n assume "n < LENGTH(48)"
    then consider "n < 8" | "8 \<le> n" "n < 16" | "16 \<le> n" "n < 24" | "24 \<le> n" "n < 32" | "32 \<le> n" "n < 40" | "40 \<le> n" "n < 48"
      by fastforce
    then show "bit ?l n = bit m n" by cases (auto simp: mac_bytes_def bit_simps)
  qed
  then show ?thesis by (simp add: mac_of_def mac_bytes_def)
qed

lemma length_mac_bytes [simp]: "length (mac_bytes m) = 6"
  by (simp add: mac_bytes_def)

lemma mac_bytes_eq [simp]: "mac_bytes a = mac_bytes b \<longleftrightarrow> a = b"
  by (metis mac_of_bytes option.inject)

lemma Arp_read_back:
  assumes "length (ah_macSource h) \<in> {1, 6, 8}" and "length (ah_macDest h) = length (ah_macSource h)"
  shows "\<exists>bs. Arp_Serialize h = Some bs \<and> Arp_GetSerializedSize h = Some (length bs) \<and>
    (\<forall>rest. Arp_Deserialize (bs @ rest) = Some (length bs, Some h))"
proof -
  let ?bs = "WriteHtonU16 0x0001 @ WriteHtonU16 0x0800 @ [word_of_nat (length (ah_macSource h)), 4] @
    WriteHtonU16 (ah_type h) @ ah_macSource h @ WriteHtonU32 (ah_ipv4Source h) @ ah_macDest h @ WriteHtonU32 (ah_ipv4Dest h)"
  have ser: "Arp_Serialize h = Some ?bs" using assms(2) by (simp add: Arp_Serialize_def)
  have sz: "Arp_GetSerializedSize h = Some (length ?bs)" using assms by (auto simp: Arp_GetSerializedSize_def)
  have len: "unat (word_of_nat (length (ah_macSource h)) :: u8) = length (ah_macSource h)" using assms(1) by auto
  have "Arp_Deserialize (?bs @ rest) = Some (length ?bs, Some h)" for rest
  proof -
    have r: "Arp_ReadFrom (length (ah_macSource h)) (ah_macSource h @ i) = Some (ah_macSource h, i)"
      "Arp_ReadFrom (length (ah_macSource h)) (ah_macDest h @ i) = Some (ah_macDest h, i)" for i
      using assms by (auto simp: Arp_ReadFrom_def)
    have "drop 2 (WriteHtonU16 0x0001 @ bs) = bs" for bs by simp
    then show ?thesis
      using r len sz by (cases h) (simp add: Arp_Deserialize_def Let_def)
  qed
  with ser sz show ?thesis by blast
qed

text \<open>Property C29: an ARP header whose two hardware addresses have the same length, of 1, 6 or 8 bytes, is written
  with the size it announces and read back as itself, whatever follows.\<close>

theorem arp_header_roundtrip:
  assumes "length (ah_macSource h) \<in> {1, 6, 8}" and "length (ah_macDest h) = length (ah_macSource h)"
  shows "\<exists>bs. Arp_Serialize h = Some bs \<and> Arp_GetSerializedSize h = Some (length bs) \<and>
    (\<forall>rest. Arp_Deserialize (bs @ rest) = Some (length bs, Some h))"
  by (rule Arp_read_back [OF assms])

section \<open>The invariant of a cache\<close>

text \<open>
  No packet is left behind an entry that is alive or dead, and for each that waits the timer of the cache runs out
  before the entry would count as expired; an entry that gives an address has one.
\<close>

definition entry_ok :: "time \<Rightarrow> ArpCache \<Rightarrow> ArpEntry \<Rightarrow> bool" where
  "entry_ok now c e \<longleftrightarrow> 0 \<le> ae_lastSeen e \<and> ae_lastSeen e \<le> now \<and>
     (ae_state e = WAIT_REPLY \<longrightarrow>
        (\<exists>u. ac_waitReplyTimer c = Some u \<and> u \<le> ae_lastSeen e + ac_waitReplyTimeout c)) \<and>
     (ae_state e = ALIVE \<or> ae_state e = DEAD \<longrightarrow> ae_pending e = []) \<and>
     (ae_state e \<noteq> WAIT_REPLY \<and> ae_state e \<noteq> DEAD \<longrightarrow> ae_mac e \<noteq> None)"

definition cache_ok :: "time \<Rightarrow> ArpCache \<Rightarrow> bool" where
  "cache_ok now c \<longleftrightarrow> 0 \<le> now \<and> 0 \<le> ac_waitReplyTimeout c \<and> 0 \<le> ac_aliveTimeout c \<and>
     (\<forall>u. ac_waitReplyTimer c = Some u \<longrightarrow> now \<le> u \<and> u \<le> now + ac_waitReplyTimeout c) \<and>
     (\<forall>a e. ArpCache_Lookup a c = Some e \<longrightarrow> entry_ok now c e)"

lemma cache_ok_entry: "cache_ok now c \<Longrightarrow> ArpCache_Lookup a c = Some e \<Longrightarrow> entry_ok now c e"
  by (simp add: cache_ok_def)

lemma put_fields [simp]:
  "ac_waitReplyTimer (ArpCache_put a e c) = ac_waitReplyTimer c"
  "ac_waitReplyTimeout (ArpCache_put a e c) = ac_waitReplyTimeout c"
  "ac_aliveTimeout (ArpCache_put a e c) = ac_aliveTimeout c"
  "ac_deadTimeout (ArpCache_put a e c) = ac_deadTimeout c"
  "ArpCache_Lookup b (ArpCache_put a e c) = (if b = a then Some e else ArpCache_Lookup b c)"
  by (simp_all add: ArpCache_put_def ArpCache_Lookup_def)

lemma entry_ok_cache:
  "ac_waitReplyTimer c' = ac_waitReplyTimer c \<Longrightarrow> ac_waitReplyTimeout c' = ac_waitReplyTimeout c \<Longrightarrow>
    entry_ok now c' e = entry_ok now c e"
  by (simp add: entry_ok_def)

lemma cache_ok_put:
  assumes "cache_ok now c" and "entry_ok now c e"
  shows "cache_ok now (ArpCache_put a e c)"
  using assms by (auto simp: cache_ok_def entry_ok_cache [of "ArpCache_put a e c" c])

lemma cache_ok_later:
  assumes "cache_ok now c" and "now \<le> t" and "\<forall>u. ac_waitReplyTimer c = Some u \<longrightarrow> t \<le> u"
  shows "cache_ok t c"
  using assms by (fastforce simp: cache_ok_def entry_ok_def)

text \<open>An entry that waits is not expired, and an expired one is dead or alive, as long as time is in its range.\<close>

lemma not_expired:
  assumes "cache_ok now c" and "ArpCache_Lookup a c = Some e" and "now \<le> int64_max"
    and "Arp_IsExpired now c e"
  shows "ae_state e = DEAD \<or> ae_state e = ALIVE"
proof -
  have e: "entry_ok now c e" by (rule cache_ok_entry [OF assms(1,2)])
  show ?thesis
  proof (cases "ae_state e")
    case WAIT_REPLY
    with e obtain u where "ac_waitReplyTimer c = Some u" "u \<le> ae_lastSeen e + ac_waitReplyTimeout c"
      by (auto simp: entry_ok_def)
    with assms(1,4) WAIT_REPLY show ?thesis by (auto simp: cache_ok_def Arp_IsExpired_def Arp_GetTimeout_def)
  next
    case PERMANENT
    with assms(3,4) e show ?thesis by (auto simp: entry_ok_def Arp_IsExpired_def Arp_GetTimeout_def)
  next
    case STATIC_AUTOGENERATED
    with assms(3,4) e show ?thesis by (auto simp: entry_ok_def Arp_IsExpired_def Arp_GetTimeout_def)
  qed simp_all
qed

lemma MarkWaitReply_ok:
  assumes "cache_ok now c" and "ArpCache_Lookup a c = Some e" and "ae_state e = DEAD \<or> ae_state e = ALIVE" 
  shows "\<exists>c'. Arp_MarkWaitReply now a w c = Some c' \<and> cache_ok now c' \<and>
    (\<exists>e'. ArpCache_Lookup a c' = Some e' \<and> ae_state e' = WAIT_REPLY \<and> ae_pending e' = [w])"
proof -
  have e: "entry_ok now c e" by (rule cache_ok_entry [OF assms(1,2)])
  let ?e = "Arp_UpdateSeen now (e\<lparr>ae_state := WAIT_REPLY, ae_pending := [w]\<rparr>)"
  let ?c = "ArpCache_StartWaitReplyTimer now (ArpCache_put a ?e c)"
  have "ae_pending e = []" using e assms(3) by (auto simp: entry_ok_def)
  then have m: "Arp_MarkWaitReply now a w c = Some ?c"
    using assms(2,3) by (auto simp: Arp_MarkWaitReply_def Let_def)
  have lookup: "ArpCache_Lookup b ?c = (if b = a then Some ?e else ArpCache_Lookup b c)" for b
    by (simp add: ArpCache_StartWaitReplyTimer_def ArpCache_Lookup_def ArpCache_put_def)
  obtain u where u: "ac_waitReplyTimer ?c = Some u" "now \<le> u" "u \<le> now + ac_waitReplyTimeout c"
      "ac_waitReplyTimer c \<noteq> None \<longrightarrow> ac_waitReplyTimer ?c = ac_waitReplyTimer c"
    using assms(1) by (cases "ac_waitReplyTimer c") (auto simp: cache_ok_def ArpCache_StartWaitReplyTimer_def)
  have t: "ac_waitReplyTimeout ?c = ac_waitReplyTimeout c" "ac_aliveTimeout ?c = ac_aliveTimeout c"
    by (simp_all add: ArpCache_StartWaitReplyTimer_def)
  have "entry_ok now ?c e'" if "ArpCache_Lookup b ?c = Some e'" for b e'
  proof (cases "b = a")
    case True
    with that lookup have "e' = ?e" by simp
    with u t assms(1) show ?thesis by (auto simp: entry_ok_def Arp_UpdateSeen_def cache_ok_def)
  next
    case False
    with that lookup have "ArpCache_Lookup b c = Some e'" by simp
    from cache_ok_entry [OF assms(1) this] u t show ?thesis by (auto simp: entry_ok_def)
  qed
  with u t assms(1) have "cache_ok now ?c" by (simp add: cache_ok_def)
  with m lookup show ?thesis by (auto simp: Arp_UpdateSeen_def)
qed

lemma Add_lookup:
  assumes "ArpCache_Lookup a c = None"
  shows "ArpCache_Add a c = Some (ArpCache_put a (ArpEntry_make\<lparr>ae_ip := a\<rparr>) c)"
  using assms by (simp add: ArpCache_Add_def ArpCache_Lookup_def)

lemma entry_ok_dead:
  assumes "0 \<le> now"
  shows "entry_ok now c (ArpEntry_make\<lparr>ae_ip := a, ae_state := DEAD\<rparr>)"
  using assms unfolding entry_ok_def by (intro conjI) (simp_all add: ArpEntry_make_def)

lemma Add_wait_ok:
  assumes "cache_ok now c" and "ArpCache_Lookup a c = None"
  shows "\<exists>c1 c'. ArpCache_Add a c = Some c1 \<and> Arp_MarkWaitReply now a w c1 = Some c' \<and> cache_ok now c' \<and>
    (\<exists>e'. ArpCache_Lookup a c' = Some e' \<and> ae_state e' = WAIT_REPLY \<and> ae_pending e' = [w])"
proof -
  let ?e = "ArpEntry_make\<lparr>ae_ip := a, ae_state := DEAD\<rparr>"
  let ?fresh = "ArpEntry_make\<lparr>ae_ip := a\<rparr>"
  have "0 \<le> now" using assms(1) by (simp add: cache_ok_def)
  from cache_ok_put [OF assms(1) entry_ok_dead [OF this], of a] have ok: "cache_ok now (ArpCache_put a ?e c)" .
  have put2: "ArpCache_put a x (ArpCache_put a y c) = ArpCache_put a x c" for x y
    by (simp add: ArpCache_put_def map_put_twice)
  have "Arp_MarkWaitReply now a w (ArpCache_put a ?fresh c) = Arp_MarkWaitReply now a w (ArpCache_put a ?e c)"
    by (simp add: Arp_MarkWaitReply_def Let_def put2 ArpEntry_make_def)
  moreover from MarkWaitReply_ok [OF ok, of a ?e w] obtain c' where
    "Arp_MarkWaitReply now a w (ArpCache_put a ?e c) = Some c'" "cache_ok now c'"
    "\<exists>e'. ArpCache_Lookup a c' = Some e' \<and> ae_state e' = WAIT_REPLY \<and> ae_pending e' = [w]" by auto
  ultimately show ?thesis using Add_lookup [OF assms(2)] by simp
qed

lemma timeout_ok:
  assumes "cache_ok now c"
  shows "\<exists>fx c'. ArpCache_HandleWaitReplyTimeout now c = Some (fx, c') \<and> cache_ok now c'"
proof -
  let ?f = "\<lambda>e. snd (snd (the (arp_wait_entry now (ac_maxRetries c) e)))"
  let ?m = "map_vals (\<lambda>a e. ?f e) (ac_entries c)"
  let ?restart = "list_ex (\<lambda>(a, e). ae_state e = WAIT_REPLY \<and> ae_retries e < ac_maxRetries c) (ac_entries c)"
  let ?c = "c\<lparr>ac_entries := ?m, ac_waitReplyTimer := if ?restart then Some (now + ac_waitReplyTimeout c) else None\<rparr>"
  have "entry_ok now ?c e'" if "ArpCache_Lookup a ?c = Some e'" for a e'
  proof -
    from that obtain e where e: "ArpCache_Lookup a c = Some e" "e' = ?f e"
      by (auto simp: ArpCache_Lookup_def)
    have ok: "entry_ok now c e" by (rule cache_ok_entry [OF assms e(1)])
    show ?thesis
    proof (cases "ae_state e = WAIT_REPLY")
      case True
      show ?thesis
      proof (cases "ae_retries e < ac_maxRetries c")
        case r: True
        with True e(1) have ?restart by (force simp: ArpCache_Lookup_def list_ex_iff dest: map_of_SomeD)
        with True r e(2) ok assms show ?thesis
          by (simp add: arp_wait_entry_def entry_ok_def Arp_IncrementRetries_def Arp_UpdateSeen_def cache_ok_def)
      next
        case False
        with True e(2) ok show ?thesis
          by (simp add: arp_wait_entry_def entry_ok_def Arp_MarkDead_def Arp_UpdateSeen_def Arp_ClearRetries_def)
      qed
    next
      case False
      with e(2) ok show ?thesis by (simp add: arp_wait_entry_def entry_ok_def)
    qed
  qed
  with assms have "cache_ok now ?c" by (simp add: cache_ok_def)
  then show ?thesis by (simp add: ArpCache_HandleWaitReplyTimeout_def arp_wait_entries_map)
qed

lemma flush_cache_ok: "cache_ok now c \<Longrightarrow> cache_ok now (ArpCache_Flush c)"
  by (simp add: cache_ok_def ArpCache_Flush_def ArpCache_Lookup_def)

lemma arp_seen_ok: "0 \<le> now \<Longrightarrow> entry_ok now c e \<Longrightarrow> entry_ok now c (arp_seen now e)"
  by (auto simp: arp_seen_def entry_ok_def Arp_UpdateSeen_def)

lemma heard_ok:
  assumes "cache_ok now c"
  shows "cache_ok now (L3_update_arp now src hw c)"
proof (cases "ArpCache_Lookup src c")
  case None
  have "cache_ok now (c\<lparr>ac_entries := map_vals (\<lambda>a e. if ae_mac e = Some hw then arp_seen now e else e) (ac_entries c)\<rparr>)"
      (is "cache_ok now ?c")
  proof -
    have "entry_ok now ?c e'" if "ArpCache_Lookup a ?c = Some e'" for a e'
    proof -
      from that obtain e where e: "ArpCache_Lookup a c = Some e" "e' = (if ae_mac e = Some hw then arp_seen now e else e)"
        by (auto simp: ArpCache_Lookup_def)
      with cache_ok_entry [OF assms e(1)] arp_seen_ok [of now c e] assms have "entry_ok now c e'"
        by (auto simp: cache_ok_def)
      then show ?thesis by (simp add: entry_ok_def)
    qed
    with assms show ?thesis by (simp add: cache_ok_def)
  qed
  with None show ?thesis by (simp add: L3_update_arp_def)
next
  case (Some e)
  with cache_ok_entry [OF assms Some] arp_seen_ok [of now c e] assms show ?thesis
    by (auto simp: L3_update_arp_def intro!: cache_ok_put) (simp add: cache_ok_def)
qed

lemma AddEntry_ok:
  assumes "cache_ok now c" and "ArpCache_Lookup a c = Some e"
  shows "\<exists>e'. Arp_MarkAutoGenerated now (e\<lparr>ae_mac := Some m\<rparr>) = Some e' \<and> entry_ok now c e'"
  using assms cache_ok_entry [OF assms]
  by (simp add: Arp_MarkAutoGenerated_def entry_ok_def Arp_UpdateSeen_def Arp_ClearRetries_def cache_ok_def)

section \<open>The invariant of a node\<close>

definition node_ok :: "time \<Rightarrow> arp_node \<Rightarrow> bool" where
  "node_ok t s \<longleftrightarrow> 0 \<le> t \<and> t \<le> int64_max \<and>
     (\<forall>d i c. Arp_FindCache d s = Some (i, c) \<longrightarrow>
        cache_ok t c \<and> (\<forall>f. Ipv4_GetInterface (an_interfaces s) i = Some f \<longrightarrow> if_dev f = d))"

lemma node_ok_cache: "node_ok t s \<Longrightarrow> Arp_FindCache d s = Some (i, c) \<Longrightarrow> cache_ok t c"
  by (simp add: node_ok_def)

lemma FindCache_fields [simp]:
  "Arp_FindCache d (s\<lparr>an_requests := r\<rparr>) = Arp_FindCache d s"
  "Arp_FindCache d (s\<lparr>an_interfaces := v\<rparr>) = Arp_FindCache d s"
  "Arp_FindCache d (arp_log es s) = Arp_FindCache d s"
  "an_interfaces (arp_log es s) = an_interfaces s"
  "an_interfaces (put_cache d c s) = an_interfaces s"
  "an_requests (put_cache d c s) = an_requests s"
  "an_requests (arp_log es s) = an_requests s"
  "an_out (put_cache d c s) = an_out s"
  "an_out (arp_log es s) = an_out s @ es"
  by (simp_all add: Arp_FindCache_def arp_log_def put_cache_def)

lemma FindCache_put [simp]:
  "Arp_FindCache k (put_cache d c s) =
     (if k = d then map_option (\<lambda>(i, _). (i, c)) (Arp_FindCache d s) else Arp_FindCache k s)"
proof -
  have "map_of (map (\<lambda>(d', i, c'). (d', i, if d' = d then c else c')) l) k =
      (if k = d then map_option (\<lambda>(i, _). (i, c)) (map_of l d) else map_of l k)" for l :: "(dev \<times> int \<times> ArpCache) list"
    by (induction l) auto
  then show ?thesis by (simp add: Arp_FindCache_def put_cache_def)
qed

lemma arp_log_Nil [simp]: "arp_log [] s = s"
  by (simp add: arp_log_def)

lemma node_ok_fields [simp]:
  "node_ok t (s\<lparr>an_requests := r\<rparr>) = node_ok t s"
  "node_ok t (arp_log es s) = node_ok t s"
  by (simp_all add: node_ok_def)

lemma node_ok_put:
  assumes "node_ok t s" and "cache_ok t c"
  shows "node_ok t (put_cache d c s)"
  using assms by (auto simp: node_ok_def)

lemma wait_and_request_ok:
  assumes "node_ok t s" and "Arp_MarkWaitReply (ae_now env) a w c = Some c'" and "cache_ok t c'"
    and "Arp_FindCache d s = Some (i, x)"
  shows "\<exists>s'. wait_and_request env jitter d a w c s = Some s' \<and> node_ok t s' \<and> Arp_FindCache d s' = Some (i, c')"
  using assms by (simp add: wait_and_request_def node_ok_put)

text \<open>
  Where the packet is that \<open>Lookup\<close> was called for, by its result: to be sent now, or behind a waiting entry, or
  traced as dropped.
\<close>

definition packet_kept ::
    "dev \<Rightarrow> int \<Rightarrow> ip \<Rightarrow> packet \<Rightarrow> ipv4_header \<Rightarrow> mac option option \<Rightarrow> arp_node \<Rightarrow> arp_node \<Rightarrow> bool" where
  "packet_kept d i a p h r s s' \<longleftrightarrow>
     (case r of
        Some m \<Rightarrow> m \<noteq> None \<and> s' = s
      | None \<Rightarrow> an_out s' = an_out s @ [ArpDropped p h] \<or>
          (\<exists>c' e. Arp_FindCache d s' = Some (i, c') \<and> ArpCache_Lookup a c' = Some e \<and>
             ae_state e = WAIT_REPLY \<and> (p, h) \<in> set (ae_pending e)))"

text \<open>\<open>Lookup\<close> of a well-formed cache returns, and the packet is kept.\<close>

lemma Lookup_ok:
  assumes "node_ok (ae_now env) s" and "Arp_FindCache d s = Some (i, c)"
  shows "\<exists>r s'. Arp_Lookup env jitter p h a d c s = Some (r, s') \<and> packet_kept d i a p h r s s' \<and> node_ok (ae_now env) s'"
proof -
  have c: "cache_ok (ae_now env) c" and t: "ae_now env \<le> int64_max"
    using assms by (auto simp: node_ok_def)
  have wait: "\<exists>s'. wait_and_request env jitter d a (p, h) c1 s = Some s' \<and> packet_kept d i a p h None s s' \<and> node_ok (ae_now env) s'"
    if "Arp_MarkWaitReply (ae_now env) a (p, h) c1 = Some c'" "cache_ok (ae_now env) c'"
      "\<exists>e'. ArpCache_Lookup a c' = Some e' \<and> ae_state e' = WAIT_REPLY \<and> ae_pending e' = [(p, h)]" for c1 c'
    using wait_and_request_ok [OF assms(1) that(1,2) assms(2), of jitter] that(3)
    by (fastforce simp: packet_kept_def)
  show ?thesis
  proof (cases "ArpCache_Lookup a c")
    case None
    with Add_wait_ok [OF c None, of "(p, h)"] wait show ?thesis by (auto simp: Arp_Lookup_def)
  next
    case (Some e)
    have e: "entry_ok (ae_now env) c e" by (rule cache_ok_entry [OF c Some])
    show ?thesis
    proof (cases "Arp_IsExpired (ae_now env) c e")
      case True
      have st: "ae_state e = DEAD \<or> ae_state e = ALIVE" by (rule not_expired [OF c Some t True])
      with MarkWaitReply_ok [OF c Some st, of "(p, h)"] wait Some True st show ?thesis
        by (auto simp: Arp_Lookup_def)
    next
      case False
      have w: "node_ok (ae_now env) (put_cache d (ArpCache_put a e' c) s)"
        if "Arp_UpdateWaitReply c (p, h) e = Some (q, e')" for q e'
      proof (intro node_ok_put cache_ok_put)
        show "entry_ok (ae_now env) c e'"
          using that e by (auto simp: Arp_UpdateWaitReply_def entry_ok_def bind_eq_Some_conv split: if_splits)
      qed (fact assms(1) c)+
      from False Some e w assms show ?thesis
        by (cases "ae_state e")
          (auto simp: Arp_Lookup_def entry_ok_def Let_def Arp_UpdateWaitReply_def packet_kept_def)
    qed
  qed
qed

lemma Interface_Send_ok:
  assumes "node_ok (ae_now env) s" and "Interface_Send env jitter i p h a s = Some s'"
  shows "node_ok (ae_now env) s'"
proof -
  obtain f where f: "Ipv4_GetInterface (an_interfaces s) i = Some f"
    using assms(2) by (auto simp: Interface_Send_def bind_eq_Some_conv)
  have *: "node_ok (ae_now env) s'" if "Arp_FindCache d s = Some (k, c)"
      "Arp_Lookup env jitter p h a d c s = Some (r, s1)"
      "(case r of None \<Rightarrow> Some s1 | Some m \<Rightarrow> Interface_transmit d p h m s1) = Some s'" for d k c r s1
  proof -
    from Lookup_ok [OF assms(1) that(1), of jitter p h a] that(2) have "node_ok (ae_now env) s1" by auto
    with that(3) show ?thesis by (auto simp: Interface_transmit_def split: option.splits)
  qed
  show ?thesis
    using assms f *
    by (auto simp: Interface_Send_def Let_def Interface_transmit_def bind_eq_Some_conv split: if_splits)
qed

section \<open>What a reply releases\<close>

lemma Interface_Send_alive:
  assumes "Arp_FindCache d s = Some (i, c)" and "ArpCache_Lookup a c = Some e" and "ae_state e = ALIVE"
    and "ae_lastSeen e = ae_now env" and "0 \<le> ac_aliveTimeout c"
    and "\<forall>f. Ipv4_GetInterface (an_interfaces s) i = Some f \<longrightarrow> if_dev f = d"
    and "Interface_Send env jitter i p h a s = Some s'"
  shows "\<exists>es. s' = arp_log es s"
proof -
  have l: "Arp_Lookup env jitter p h a d c s = Some (Some (ae_mac e), s)"
    using assms by (simp add: Arp_Lookup_def Arp_IsExpired_def Arp_GetTimeout_def)
  have n: "\<exists>es. s = arp_log es s" by (rule exI [of _ "[]"]) simp
  show ?thesis
    using assms l n by (auto simp: Interface_Send_def Let_def Interface_transmit_def bind_eq_Some_conv split: if_splits)
qed

lemma put_cache_log [simp]: "put_cache d x (arp_log es s) = arp_log es (put_cache d x s)"
  by (simp add: put_cache_def arp_log_def)

lemma put_cache_twice [simp]: "put_cache d x (put_cache d y s) = put_cache d x s"
proof -
  have "map (\<lambda>(d', i, c'). (d', i, if d' = d then x else c')) (map (\<lambda>(d', i, c'). (d', i, if d' = d then y else c')) l) =
      map (\<lambda>(d', i, c'). (d', i, if d' = d then x else c')) l" for l :: "(dev \<times> int \<times> ArpCache) list"
    by (induction l) auto
  then show ?thesis by (simp add: put_cache_def)
qed

lemma ArpCache_put_twice [simp]: "ArpCache_put a x (ArpCache_put a y c) = ArpCache_put a x c"
  by (simp add: ArpCache_put_def map_put_twice)

text \<open>
  The loop changes the entry alone: it ends with what the entry is without its packets. \<open>e\<close> is the entry
  that \<open>MarkAlive\<close> has just made.
\<close>

definition just_alive :: "arp_env \<Rightarrow> dev \<Rightarrow> int \<Rightarrow> ArpCache \<Rightarrow> ip \<Rightarrow> ArpEntry \<Rightarrow> arp_node \<Rightarrow> bool" where
  "just_alive env d i c a e s \<longleftrightarrow> Arp_FindCache d s = Some (i, c) \<and> ArpCache_Lookup a c = Some e \<and>
     ae_state e = ALIVE \<and> ae_lastSeen e = ae_now env \<and> 0 \<le> ac_aliveTimeout c \<and>
     (\<forall>f. Ipv4_GetInterface (an_interfaces s) i = Some f \<longrightarrow> if_dev f = d)"

definition same_but :: "dev \<Rightarrow> int \<Rightarrow> ArpCache \<Rightarrow> ip \<Rightarrow> ArpEntry \<Rightarrow> arp_node \<Rightarrow> arp_node \<Rightarrow> bool" where
  "same_but d i c a e s s' \<longleftrightarrow> an_interfaces s' = an_interfaces s \<and> an_requests s' = an_requests s \<and>
     (\<forall>k. k \<noteq> d \<longrightarrow> Arp_FindCache k s' = Arp_FindCache k s) \<and>
     (\<exists>c'. Arp_FindCache d s' = Some (i, c') \<and> (\<forall>b. ArpCache_Lookup b c' = (if b = a then Some e else ArpCache_Lookup b c)) \<and>
        ac_waitReplyTimer c' = ac_waitReplyTimer c \<and> ac_waitReplyTimeout c' = ac_waitReplyTimeout c \<and>
        ac_aliveTimeout c' = ac_aliveTimeout c)"

lemma just_alive_step:
  assumes "just_alive env d i c a e s"
  shows "just_alive env d i (ArpCache_put a (e\<lparr>ae_pending := ps\<rparr>) c) a (e\<lparr>ae_pending := ps\<rparr>)
    (arp_log es (put_cache d (ArpCache_put a (e\<lparr>ae_pending := ps\<rparr>) c) s))"
  using assms by (simp add: just_alive_def)

lemma same_but_step:
  assumes "Arp_FindCache d s = Some (i, c)" and "same_but d i (ArpCache_put a x c) a e (arp_log es (put_cache d (ArpCache_put a x c) s)) s'"
  shows "same_but d i c a e s s'"
  using assms by (simp add: same_but_def) (fastforce split: if_splits)

lemma flush_pending_same:
  assumes "just_alive env d i c a e s" and "flush_pending n env jitter d i a s = Some s'"
  shows "same_but d i c a (e\<lparr>ae_pending := []\<rparr>) s s'"
  using assms
proof (induction n arbitrary: c e s)
  case 0
  then show ?case
    by (cases "ae_pending e") (auto simp: just_alive_def same_but_def Arp_DequeuePending_def)
next
  case (Suc n)
  show ?case
  proof (cases "ae_pending e")
    case Nil
    with Suc.prems show ?thesis by (auto simp: just_alive_def same_but_def Arp_DequeuePending_def)
  next
    case (Cons w ps)
    let ?e = "e\<lparr>ae_pending := ps\<rparr>"
    let ?c = "ArpCache_put a ?e c"
    obtain p h where w: "w = (p, h)" by (cases w)
    from Suc.prems Cons w obtain s1 where s1: "Interface_Send env jitter i p h a (put_cache d ?c s) = Some s1"
        "flush_pending n env jitter d i a s1 = Some s'"
      by (auto simp: just_alive_def Arp_DequeuePending_def bind_eq_Some_conv)
    have j: "just_alive env d i ?c a ?e (put_cache d ?c s)"
      using just_alive_step [OF Suc.prems(1), of ps "[]"] by simp
    then obtain es where es: "s1 = arp_log es (put_cache d ?c s)"
      using Interface_Send_alive [OF _ _ _ _ _ _ s1(1)] unfolding just_alive_def by blast
    have "same_but d i ?c a (?e\<lparr>ae_pending := []\<rparr>) s1 s'"
      by (rule Suc.IH [OF _ s1(2)]) (simp only: es just_alive_step [OF Suc.prems(1)])
    with es Suc.prems(1) show ?thesis by (auto simp: just_alive_def intro: same_but_step)
  qed
qed

text \<open>
  The bound on the rounds is never met: with as many rounds as packets wait the loop does what it does
  with any larger number, so a \<open>None\<close> is an abort of a send.
\<close>

lemma flush_pending_enough:
  assumes "just_alive env d i c a e s" and "length (ae_pending e) \<le> n" and "n \<le> m"
  shows "flush_pending m env jitter d i a s = flush_pending n env jitter d i a s"
  using assms
proof (induction m arbitrary: n c e s)
  case (Suc m)
  show ?case
  proof (cases "ae_pending e")
    case Nil
    with Suc.prems show ?thesis by (cases n) (auto simp: just_alive_def Arp_DequeuePending_def)
  next
    case (Cons w ps)
    let ?e = "e\<lparr>ae_pending := ps\<rparr>"
    let ?c = "ArpCache_put a ?e c"
    obtain p h where w: "w = (p, h)" by (cases w)
    obtain n' where n: "n = Suc n'" "length (ae_pending ?e) \<le> n'" "n' \<le> m"
      using Suc.prems(2,3) Cons by (cases n) auto
    let ?next = "Interface_Send env jitter i p h a (put_cache d ?c s)"
    have step: "flush_pending (Suc k) env jitter d i a s = Option.bind ?next (flush_pending k env jitter d i a)" for k
      using Suc.prems(1) Cons w by (simp add: just_alive_def Arp_DequeuePending_def)
    have j: "just_alive env d i ?c a ?e (put_cache d ?c s)"
      using just_alive_step [OF Suc.prems(1), of ps "[]"] by simp
    have "flush_pending m env jitter d i a s1 = flush_pending n' env jitter d i a s1" if r: "?next = Some s1" for s1
    proof -
      obtain es where es: "s1 = arp_log es (put_cache d ?c s)"
        using Interface_Send_alive [OF _ _ _ _ _ _ r] j unfolding just_alive_def by blast
      have "just_alive env d i ?c a ?e s1" unfolding es by (rule just_alive_step [OF Suc.prems(1)])
      from Suc.IH [OF this n(2,3)] show ?thesis .
    qed
    then show ?thesis unfolding n(1) step by (cases ?next) simp_all
  qed
qed simp

lemma same_but_ok:
  assumes "node_ok t s" and "Arp_FindCache d s = Some (i, c)" and "entry_ok t c e" and "same_but d i c a e s s'"
  shows "node_ok t s'"
proof -
  obtain c' where c': "Arp_FindCache d s' = Some (i, c')"
      "\<forall>b. ArpCache_Lookup b c' = (if b = a then Some e else ArpCache_Lookup b c)"
      "ac_waitReplyTimer c' = ac_waitReplyTimer c" "ac_waitReplyTimeout c' = ac_waitReplyTimeout c"
      "ac_aliveTimeout c' = ac_aliveTimeout c"
    using assms(4) by (auto simp: same_but_def)
  have "cache_ok t c" by (rule node_ok_cache [OF assms(1,2)])
  with c' assms(3) have "cache_ok t c'" by (auto simp: cache_ok_def entry_ok_cache [of c' c])
  moreover have "an_interfaces s' = an_interfaces s" "\<forall>k. k \<noteq> d \<longrightarrow> Arp_FindCache k s' = Arp_FindCache k s"
    using assms(4) by (simp_all add: same_but_def)
  ultimately show ?thesis using assms(1,2) c'(1) unfolding node_ok_def by (metis option.inject prod.inject)
qed

definition alive_entry :: "time \<Rightarrow> mac \<Rightarrow> ArpEntry \<Rightarrow> ArpEntry" where
  "alive_entry now m e =
     e\<lparr>ae_state := ALIVE, ae_retries := 0, ae_mac := Some m, ae_lastSeen := now, ae_pending := []\<rparr>"

lemma alive_entry_ok: "0 \<le> now \<Longrightarrow> entry_ok now c (alive_entry now m e)"
  by (simp add: entry_ok_def alive_entry_def)

lemma MarkAlive_wait:
  "ae_state e = WAIT_REPLY \<Longrightarrow> Arp_MarkAlive now m e = Some ((alive_entry now m e)\<lparr>ae_pending := ae_pending e\<rparr>)"
  by (simp add: Arp_MarkAlive_def alive_entry_def Arp_UpdateSeen_def Arp_ClearRetries_def)

lemma reply_just_alive:
  assumes "node_ok (ae_now env) s" and "Arp_FindCache d s = Some (i, c)"
  shows "just_alive env d i (ArpCache_put a ((alive_entry (ae_now env) m e)\<lparr>ae_pending := ps\<rparr>) c) a
    ((alive_entry (ae_now env) m e)\<lparr>ae_pending := ps\<rparr>)
    (put_cache d (ArpCache_put a ((alive_entry (ae_now env) m e)\<lparr>ae_pending := ps\<rparr>) c) s)"
  using assms node_ok_cache [OF assms] by (auto simp: just_alive_def alive_entry_def node_ok_def cache_ok_def)

lemma receive_reply_cases:
  assumes "node_ok (ae_now env) s" and "Arp_FindCache d s = Some (i, c)"
    and "Arp_receive_reply env jitter d i arp s = Some s'"
  shows "(\<exists>es. s' = arp_log es s) \<or> (\<exists>e m. ArpCache_Lookup (ah_ipv4Source arp) c = Some e \<and> ae_state e = WAIT_REPLY \<and>
    mac_of (ah_macSource arp) = Some m \<and> same_but d i c (ah_ipv4Source arp) (alive_entry (ae_now env) m e) s s')"
proof (cases "\<exists>e. ArpCache_Lookup (ah_ipv4Source arp) c = Some e \<and> ae_state e = WAIT_REPLY")
  case False
  with assms show ?thesis by (auto simp: Arp_receive_reply_def split: option.splits if_splits)
next
  case True
  then obtain e where e: "ArpCache_Lookup (ah_ipv4Source arp) c = Some e" "ae_state e = WAIT_REPLY" by auto
  with assms obtain m where m: "mac_of (ah_macSource arp) = Some m"
    by (auto simp: Arp_receive_reply_def bind_eq_Some_conv)
  let ?e = "(alive_entry (ae_now env) m e)\<lparr>ae_pending := ae_pending e\<rparr>"
  let ?c = "ArpCache_put (ah_ipv4Source arp) ?e c"
  have "flush_pending (length (ae_pending e)) env jitter d i (ah_ipv4Source arp) (put_cache d ?c s) = Some s'"
    using assms e m MarkAlive_wait [OF e(2)] by (simp add: Arp_receive_reply_def)
  from flush_pending_same [OF reply_just_alive [OF assms(1,2)] this]
  have "same_but d i ?c (ah_ipv4Source arp) (alive_entry (ae_now env) m e) (arp_log [] (put_cache d ?c s)) s'"
    by (simp add: alive_entry_def)
  with assms(2) have "same_but d i c (ah_ipv4Source arp) (alive_entry (ae_now env) m e) s s'"
    by (rule same_but_step)
  with e m show ?thesis by blast
qed

lemma receive_loop_cases:
  assumes "receive_loop env jitter d i arp as s = Some s'"
  shows "(\<exists>es. s' = arp_log es s) \<or> Arp_receive_reply env jitter d i arp s = Some s'"
proof -
  have "\<exists>es. s = arp_log es s" by (rule exI [of _ "[]"]) simp
  then show ?thesis using assms
    by (induction as) (auto simp: Arp_SendArpReply_def split: if_splits)
qed

lemma Receive_cases:
  assumes "node_ok (ae_now env) s" and "Arp_Receive env jitter d bs s = Some s'"
  shows "\<exists>i c. Arp_FindCache d s = Some (i, c) \<and> ((\<exists>es. s' = arp_log es s) \<or>
    (\<exists>a e m. ArpCache_Lookup a c = Some e \<and> ae_state e = WAIT_REPLY \<and>
       same_but d i c a (alive_entry (ae_now env) m e) s s'))"
proof -
  have n: "\<exists>es. s = arp_log es s" by (rule exI [of _ "[]"]) simp
  obtain i c n arp where c: "Arp_FindCache d s = Some (i, c)" and r: "Arp_Deserialize bs = Some (n, arp)"
    using assms(2) by (auto simp: Arp_Receive_def bind_eq_Some_conv)
  show ?thesis
  proof (cases arp)
    case None
    with assms(2) c r n show ?thesis by (auto simp: Arp_Receive_def)
  next
    case (Some h)
    with assms(2) c r have "\<exists>f :: Ipv4Interface. receive_loop env jitter d i h (if_addrs f) s = Some s'"
      by (auto simp: Arp_Receive_def bind_eq_Some_conv)
    then obtain f :: Ipv4Interface where "receive_loop env jitter d i h (if_addrs f) s = Some s'" ..
    from receive_loop_cases [OF this] receive_reply_cases [OF assms(1) c, of jitter h s'] c
    show ?thesis by blast
  qed
qed

lemma Receive_ok:
  assumes "node_ok (ae_now env) s" and "Arp_Receive env jitter d bs s = Some s'"
  shows "node_ok (ae_now env) s'"
proof -
  have "0 \<le> ae_now env" using assms(1) by (simp add: node_ok_def)
  with Receive_cases [OF assms] assms(1) same_but_ok [OF assms(1) _ alive_entry_ok] show ?thesis
    by (auto; blast)
qed

section \<open>Reachable states\<close>

text \<open>
  A node with empty caches, whose interfaces may change as long as each keeps its device, and the events that touch
  them: packets to send, ARP packets, IP packets heard, entries set by hand, link changes, the requests after their
  jitter, and the timers, which fire at their time at the latest.
\<close>

inductive arp_reach :: "time \<Rightarrow> arp_node \<Rightarrow> bool" where
  start: "\<lbrakk>an_requests s = []; an_out s = [];
      \<forall>(d, i, c) \<in> set (an_caches s). ac_entries c = [] \<and> ac_waitReplyTimer c = None \<and>
        0 \<le> ac_waitReplyTimeout c \<and> 0 \<le> ac_aliveTimeout c \<and>
        (\<forall>f. Ipv4_GetInterface (an_interfaces s) i = Some f \<longrightarrow> if_dev f = d)\<rbrakk> \<Longrightarrow> arp_reach 0 s"
| wait: "\<lbrakk>arp_reach t s; t \<le> t'; t' \<le> int64_max;
      \<forall>d i c u. Arp_FindCache d s = Some (i, c) \<longrightarrow> ac_waitReplyTimer c = Some u \<longrightarrow> t' \<le> u\<rbrakk> \<Longrightarrow> arp_reach t' s"
| interfaces: "\<lbrakk>arp_reach t s;
      \<forall>d i c f. Arp_FindCache d s = Some (i, c) \<longrightarrow> Ipv4_GetInterface v i = Some f \<longrightarrow> if_dev f = d\<rbrakk> \<Longrightarrow>
      arp_reach t (s\<lparr>an_interfaces := v\<rparr>)"
| send: "\<lbrakk>arp_reach (ae_now env) s; Interface_Send env jitter i p h dest s = Some s'\<rbrakk> \<Longrightarrow> arp_reach (ae_now env) s'"
| receive: "\<lbrakk>arp_reach (ae_now env) s; Arp_Receive env jitter d bs s = Some s'\<rbrakk> \<Longrightarrow> arp_reach (ae_now env) s'"
| request: "\<lbrakk>arp_reach (ae_now env) s; (ae_now env, d, a) \<in> set (an_requests s);
      Arp_SendArpRequest env d a (s\<lparr>an_requests := remove1 (ae_now env, d, a) (an_requests s)\<rparr>) = Some s'\<rbrakk> \<Longrightarrow>
      arp_reach (ae_now env) s'"
| timeout: "\<lbrakk>arp_reach (ae_now env) s; Arp_FindCache d s = Some (i, c); ac_waitReplyTimer c = Some (ae_now env);
      Arp_HandleTimeout env d s = Some s'\<rbrakk> \<Longrightarrow> arp_reach (ae_now env) s'"
| link: "\<lbrakk>arp_reach t s; Arp_LinkChanged d s = Some s'\<rbrakk> \<Longrightarrow> arp_reach t s'"
| heard: "\<lbrakk>arp_reach (ae_now env) s; Arp_heard env d src hw s = Some s'\<rbrakk> \<Longrightarrow> arp_reach (ae_now env) s'"
| entry: "\<lbrakk>arp_reach (ae_now env) s; Arp_AddEntry env d a m s = Some s'\<rbrakk> \<Longrightarrow> arp_reach (ae_now env) s'"

lemma SendArpRequest_ok:
  "node_ok t s \<Longrightarrow> Arp_SendArpRequest env d a s = Some s' \<Longrightarrow> node_ok t s'"
  by (auto simp: Arp_SendArpRequest_def bind_eq_Some_conv)

lemma wait_effect_ok:
  "node_ok t s \<Longrightarrow> Arp_wait_effect env d fx s = Some s' \<Longrightarrow> node_ok t s'"
  by (cases fx) (auto simp: Arp_wait_effect_def intro: SendArpRequest_ok)

lemma arp_HandleTimeout_ok:
  assumes "node_ok (ae_now env) s" and "Arp_HandleTimeout env d s = Some s'"
  shows "node_ok (ae_now env) s'"
proof -
  obtain i c fx c' where c: "Arp_FindCache d s = Some (i, c)"
      "ArpCache_HandleWaitReplyTimeout (ae_now env) c = Some (fx, c')"
      "fold_opt (Arp_wait_effect env d) fx (put_cache d c' s) = Some s'"
    using assms(2) by (auto simp: Arp_HandleTimeout_def bind_eq_Some_conv)
  have "node_ok (ae_now env) (put_cache d c' s)"
    using timeout_ok [OF node_ok_cache [OF assms(1) c(1)]] c(2) by (auto intro: node_ok_put assms(1))
  with c(3) show ?thesis by (rule fold_opt_inv) (rule wait_effect_ok)
qed

lemma AddEntry_node_ok:
  assumes "node_ok (ae_now env) s" and "Arp_AddEntry env d a m s = Some s'"
  shows "node_ok (ae_now env) s'"
proof (cases "Arp_FindCache d s")
  case None
  with assms show ?thesis by (simp add: Arp_AddEntry_def)
next
  case (Some x)
  obtain i c where c: "Arp_FindCache d s = Some (i, c)" using Some by (cases x) auto
  have ok: "cache_ok (ae_now env) c" by (rule node_ok_cache [OF assms(1) c])
  show ?thesis
  proof (cases "ArpCache_Lookup a c")
    case None
    have "entry_ok (ae_now env) c (ArpEntry_make
        \<lparr>ae_ip := a, ae_mac := Some m, ae_state := STATIC_AUTOGENERATED, ae_retries := 0, ae_lastSeen := ae_now env\<rparr>)"
      using ok by (simp add: entry_ok_def cache_ok_def)
    from cache_ok_put [OF ok this, of a] assms c None Add_lookup [OF None] show ?thesis
      by (auto simp: Arp_AddEntry_def Arp_MarkAutoGenerated_def Arp_UpdateSeen_def Arp_ClearRetries_def ArpEntry_make_def
        intro!: node_ok_put)
  next
    case e: (Some e)
    from AddEntry_ok [OF ok e, of m] assms c e show ?thesis
      by (auto simp: Arp_AddEntry_def intro!: node_ok_put cache_ok_put ok)
  qed
qed

lemma arp_reach_ok: "arp_reach t s \<Longrightarrow> node_ok t s"
proof (induction rule: arp_reach.induct)
  case (start s)
  have "(d, i, c) \<in> set (an_caches s)" if "Arp_FindCache d s = Some (i, c)" for d i c
    using that by (simp add: Arp_FindCache_def map_of_SomeD)
  with start show ?case by (fastforce simp: node_ok_def cache_ok_def ArpCache_Lookup_def)
next
  case (wait t s t')
  have "cache_ok t' c" if "Arp_FindCache d s = Some (i, c)" for d i c
    using cache_ok_later [OF node_ok_cache [OF wait.IH that] wait.hyps(2)] wait.hyps(4) that by blast
  with wait show ?case by (fastforce simp: node_ok_def)
next
  case (interfaces t s v)
  then show ?case by (auto simp: node_ok_def)
next
  case (link t s d s')
  then show ?case by (auto simp: Arp_LinkChanged_def intro!: node_ok_put flush_cache_ok dest: node_ok_cache)
next
  case (heard env s d src hw s')
  then show ?case by (auto simp: Arp_heard_def intro!: node_ok_put heard_ok dest: node_ok_cache)
next
  case (request env s d a s')
  then show ?case by (intro SendArpRequest_ok [OF _ request.hyps(3)]) simp
qed (auto intro: Interface_Send_ok Receive_ok arp_HandleTimeout_ok AddEntry_node_ok)

section \<open>Properties\<close>

text \<open>Property C13: in a node that was reached by any sequence of packets, replies, link changes, timers and
  entries set by hand, \<open>Lookup\<close> always returns: its fatal error for an expired entry that is neither dead nor alive is
  never met, nor an assertion. Either it gives a hardware address and changes nothing, or the packet waits behind an
  entry that waits for a reply, or it is traced as dropped: none is lost silently.\<close>

theorem arp_lookup_returns:
  assumes "arp_reach (ae_now env) s" and "Arp_FindCache d s = Some (i, c)"
  shows "\<exists>r s'. Arp_Lookup env jitter p h a d c s = Some (r, s') \<and> packet_kept d i a p h r s s'"
  using Lookup_ok [OF arp_reach_ok [OF assms(1)] assms(2)] by blast

text \<open>Property C14: an ARP packet, whatever it holds, changes only an entry that waits for a reply: no address
  that is resolved, dead or unknown in any cache of the node is changed by it.\<close>

theorem arp_not_poisoned:
  assumes "arp_reach (ae_now env) s" and "Arp_Receive env jitter d bs s = Some s'"
    and "Arp_FindCache k s = Some (i, c)"
    and "ArpCache_Lookup a c = None \<or> (\<exists>e. ArpCache_Lookup a c = Some e \<and> ae_state e \<noteq> WAIT_REPLY)"
  shows "\<exists>c'. Arp_FindCache k s' = Some (i, c') \<and> ArpCache_Lookup a c' = ArpCache_Lookup a c"
proof -
  from Receive_cases [OF arp_reach_ok [OF assms(1)] assms(2)] consider (log) es where "s' = arp_log es s"
    | (reply) j x b e m where "Arp_FindCache d s = Some (j, x)" "ArpCache_Lookup b x = Some e" "ae_state e = WAIT_REPLY"
        "same_but d j x b (alive_entry (ae_now env) m e) s s'"
    by blast
  then show ?thesis
  proof cases
    case log
    with assms(3) show ?thesis by simp
  next
    case reply
    then show ?thesis
    proof (cases "k = d")
      case True
      with reply assms(3,4) have "a \<noteq> b" "x = c" "j = i" by auto
      with reply(4) True show ?thesis by (auto simp: same_but_def)
    next
      case False
      with reply(4) assms(3) show ?thesis by (simp add: same_but_def)
    qed
  qed
qed

text \<open>An address on the link of an interface that can send.\<close>

definition on_link :: "arp_env \<Rightarrow> Ipv4Interface \<Rightarrow> ip \<Rightarrow> bool" where
  "on_link env f a \<longleftrightarrow> if_up f \<and> \<not> ae_isLoopback env (if_dev f) \<and> ae_needsArp env (if_dev f) \<and>
     \<not> Ipv4Address_IsBroadcast a \<and> \<not> Ipv4Address_IsMulticast a \<and>
     list_all (\<lambda>x. a \<noteq> ia_local x \<and> \<not> Ipv4Address_IsSubnetDirectedBroadcast a (ia_mask x)) (if_addrs f)"

lemma Interface_Send_found:
  assumes "just_alive env d i c a e s" and "ae_mac e = Some m"
    and "Ipv4_GetInterface (an_interfaces s) i = Some f" and "on_link env f a"
  shows "Interface_Send env jitter i p h a s = Some (arp_log [FrameSent d p h m] s)"
proof -
  have l: "Arp_Lookup env jitter p h a d c s = Some (Some (ae_mac e), s)"
    using assms(1) by (simp add: just_alive_def Arp_Lookup_def Arp_IsExpired_def Arp_GetTimeout_def)
  have n: "\<not> list_ex (\<lambda>x. a = ia_local x) (if_addrs f)"
      "\<not> list_ex (\<lambda>x. Ipv4Address_IsSubnetDirectedBroadcast a (ia_mask x)) (if_addrs f)"
    using assms(4) by (auto simp: on_link_def list_ex_iff list_all_iff)
  have d: "if_dev f = d" "Arp_FindCache d s = Some (i, c)" using assms(1,3) by (simp_all add: just_alive_def)
  from assms(2,3,4) l n d show ?thesis
    by (simp add: Interface_Send_def Let_def on_link_def Interface_transmit_def)
qed

lemma flush_pending_sends:
  assumes "just_alive env d i c a e s" and "ae_mac e = Some m"
    and "Ipv4_GetInterface (an_interfaces s) i = Some f" and "on_link env f a" and "n = length (ae_pending e)"
  shows "\<exists>s'. flush_pending n env jitter d i a s = Some s' \<and>
    an_out s' = an_out s @ map (\<lambda>(p, h). FrameSent d p h m) (ae_pending e)"
  using assms
proof (induction n arbitrary: c e s)
  case 0
  then show ?case by (simp add: just_alive_def Arp_DequeuePending_def)
next
  case (Suc n)
  then obtain p h ps where ps: "ae_pending e = (p, h) # ps" by (cases "ae_pending e") auto
  let ?e = "e\<lparr>ae_pending := ps\<rparr>"
  let ?c = "ArpCache_put a ?e c"
  have j: "just_alive env d i ?c a ?e (put_cache d ?c s)"
    using just_alive_step [OF Suc.prems(1), of ps "[]"] by simp
  have "Interface_Send env jitter i p h a (put_cache d ?c s) = Some (arp_log [FrameSent d p h m] (put_cache d ?c s))"
    by (rule Interface_Send_found [OF j]) (use Suc.prems in simp_all)
  moreover have "\<exists>s'. flush_pending n env jitter d i a (arp_log [FrameSent d p h m] (put_cache d ?c s)) = Some s' \<and>
      an_out s' = an_out (arp_log [FrameSent d p h m] (put_cache d ?c s)) @ map (\<lambda>(p, h). FrameSent d p h m) (ae_pending ?e)"
    by (rule Suc.IH [OF just_alive_step [OF Suc.prems(1)]]) (use Suc.prems ps in simp_all)
  ultimately show ?case using Suc.prems(1) ps by (auto simp: just_alive_def Arp_DequeuePending_def)
qed

text \<open>Property C12: a reply that an entry waits for, sent to an address and the device of the interface,
  makes the entry alive with the sender's hardware address, and sends all the packets that waited behind it, in
  their order, to that address; nothing else of the node changes.\<close>

theorem arp_reply_releases:
  assumes "arp_reach (ae_now env) s" and "Arp_FindCache d s = Some (i, c)"
    and "ArpCache_Lookup (ah_ipv4Source arp) c = Some e" and "ae_state e = WAIT_REPLY"
    and "Arp_Deserialize bs = Some (n, Some arp)" and "Arp_IsReply arp"
    and "mac_of (ah_macSource arp) = Some m" and "ah_macDest arp = mac_bytes (ae_address env d)"
    and "Ipv4_GetInterface (an_interfaces s) i = Some f" and "list_ex (\<lambda>x. ah_ipv4Dest arp = ia_local x) (if_addrs f)"
    and "on_link env f (ah_ipv4Source arp)"
  shows "\<exists>s'. Arp_Receive env jitter d bs s = Some s' \<and>
    an_out s' = an_out s @ map (\<lambda>(p, h). FrameSent d p h m) (ae_pending e) \<and>
    same_but d i c (ah_ipv4Source arp) (alive_entry (ae_now env) m e) s s'"
proof -
  let ?a = "ah_ipv4Source arp"
  let ?e = "(alive_entry (ae_now env) m e)\<lparr>ae_pending := ae_pending e\<rparr>"
  let ?s = "put_cache d (ArpCache_put ?a ?e c) s"
  have ok: "node_ok (ae_now env) s" by (rule arp_reach_ok [OF assms(1)])
  have j: "just_alive env d i (ArpCache_put ?a ?e c) ?a ?e ?s" by (rule reply_just_alive [OF ok assms(2)])
  obtain s' where s': "flush_pending (length (ae_pending e)) env jitter d i ?a ?s = Some s'"
      "an_out s' = an_out s @ map (\<lambda>(p, h). FrameSent d p h m) (ae_pending e)"
    using flush_pending_sends [OF j, of m f "length (ae_pending e)" jitter] assms(9,11) by (auto simp: alive_entry_def)
  have r: "Arp_receive_reply env jitter d i arp s = Some s'"
    using s'(1) assms MarkAlive_wait [OF assms(4)] by (simp add: Arp_receive_reply_def)
  have "receive_loop env jitter d i arp as s = Arp_receive_reply env jitter d i arp s"
    if "list_ex (\<lambda>x. ah_ipv4Dest arp = ia_local x) as" for as
    using that assms(6,8)
    by (induction as) (auto simp: Arp_IsReply_def Arp_IsRequest_def ARP_TYPE_REPLY_def ARP_TYPE_REQUEST_def)
  with assms r have receive: "Arp_Receive env jitter d bs s = Some s'" by (simp add: Arp_Receive_def)
  have "same_but d i (ArpCache_put ?a ?e c) ?a (alive_entry (ae_now env) m e) (arp_log [] ?s) s'"
    using flush_pending_same [OF j s'(1)] by (simp add: alive_entry_def)
  with assms(2) have "same_but d i c ?a (alive_entry (ae_now env) m e) s s'" by (rule same_but_step)
  with receive s'(2) show ?thesis by blast
qed

section \<open>Witnesses\<close>

text \<open>A node with one interface, 10.0.0.1/24, that sends a packet to 10.0.0.2 and gets an answer.\<close>

theorem arp_header_roundtrip_witness:
  "\<exists>bs. Arp_Serialize (Arp_SetReply (mac_bytes 2) 0x0a000002 (mac_bytes 1) 0x0a000001) = Some bs \<and>
    (\<forall>rest. Arp_Deserialize (bs @ rest) =
      Some (length bs, Some (Arp_SetReply (mac_bytes 2) 0x0a000002 (mac_bytes 1) 0x0a000001)))"
  using arp_header_roundtrip [of "Arp_SetReply (mac_bytes 2) 0x0a000002 (mac_bytes 1) 0x0a000001"]
  by (auto simp: Arp_SetReply_def)

definition arp_env0 :: arp_env where
  "arp_env0 = \<lparr>ae_now = 0, ae_address = \<lambda>d. 1, ae_broadcast = \<lambda>d. -1, ae_multicast = \<lambda>d a. -1,
     ae_isMulticast = \<lambda>d. True, ae_needsArp = \<lambda>d. True, ae_isLoopback = \<lambda>d. False\<rparr>"

definition arp_if0 :: Ipv4Interface where
  "arp_if0 = \<lparr>if_dev = 1, if_addrs = [Ipv4InterfaceAddress_make 0x0a000001 0xffffff00], if_up = True,
     if_forwarding = True, if_arp = Some 0\<rparr>"

definition arp_node0 :: arp_node where
  "arp_node0 = \<lparr>an_interfaces = [arp_if0], an_caches = [(1, 0, ArpCache_default 0)], an_requests = [], an_out = []\<rparr>"

definition arp_reply0 :: ArpHeader where
  "arp_reply0 = Arp_SetReply (mac_bytes 2) 0x0a000002 (mac_bytes 1) 0x0a000001"

lemma arp_node0_reach: "arp_reach (ae_now arp_env0) arp_node0"
proof -
  have "arp_reach 0 arp_node0"
    by (rule arp_reach.start)
      (simp_all add: arp_node0_def ArpCache_default_def Seconds_int_def arp_if0_def Ipv4_GetInterface_def)
  then show ?thesis by (simp add: arp_env0_def)
qed

lemma arp_on_link0: "on_link arp_env0 arp_if0 0x0a000002"
  by code_simp

lemma arp_reply0_bytes:
  "\<exists>bs n. Arp_Serialize arp_reply0 = Some bs \<and> Arp_Deserialize bs = Some (n, Some arp_reply0)"
proof -
  have "length (ah_macSource arp_reply0) \<in> {1, 6, 8}" "length (ah_macDest arp_reply0) = length (ah_macSource arp_reply0)"
    by (simp_all add: arp_reply0_def Arp_SetReply_def)
  from Arp_read_back [OF this] obtain bs where "Arp_Serialize arp_reply0 = Some bs"
      "\<forall>rest. Arp_Deserialize (bs @ rest) = Some (length bs, Some arp_reply0)" by blast
  moreover from this(2) have "Arp_Deserialize (bs @ []) = Some (length bs, Some arp_reply0)" ..
  ultimately show ?thesis by auto
qed

lemma arp_node0_send:
  "\<exists>s c e. Interface_Send arp_env0 5 0 Packet_Create Ih_make 0x0a000002 arp_node0 = Some s \<and>
     an_interfaces s = [arp_if0] \<and> an_out s = [] \<and> Arp_FindCache 1 s = Some (0, c) \<and>
     ArpCache_Lookup 0x0a000002 c = Some e \<and> ae_state e = WAIT_REPLY \<and> ae_pending e = [(Packet_Create, Ih_make)]"
proof -
  have c: "Arp_FindCache 1 arp_node0 = Some (0, ArpCache_default 0)"
    by (simp add: arp_node0_def Arp_FindCache_def)
  have i: "Ipv4_GetInterface (an_interfaces arp_node0) 0 = Some arp_if0" "an_interfaces arp_node0 = [arp_if0]"
      "an_out arp_node0 = []"
    by (simp_all add: arp_node0_def Ipv4_GetInterface_def)
  have l: "ArpCache_Lookup 0x0a000002 (ArpCache_default 0) = None"
    by (simp add: ArpCache_default_def ArpCache_Lookup_def)
  obtain c1 c' where "ArpCache_Add 0x0a000002 (ArpCache_default 0) = Some c1"
      "Arp_MarkWaitReply 0 0x0a000002 (Packet_Create, Ih_make) c1 = Some c'"
      "\<exists>e'. ArpCache_Lookup 0x0a000002 c' = Some e' \<and> ae_state e' = WAIT_REPLY \<and> ae_pending e' = [(Packet_Create, Ih_make)]"
    using Add_wait_ok [OF _ l, of 0 "(Packet_Create, Ih_make)"] node_ok_cache [OF arp_reach_ok [OF arp_node0_reach] c]
    by (auto simp: arp_env0_def)
  with c i l arp_on_link0 show ?thesis
    by (auto simp: Interface_Send_def Let_def on_link_def list_all_iff list_ex_iff arp_env0_def arp_if0_def
      Arp_Lookup_def wait_and_request_def)
qed

theorem arp_lookup_returns_witness:
  "\<exists>r s'. Arp_Lookup arp_env0 5 Packet_Create Ih_make 0x0a000002 1 (ArpCache_default 0) arp_node0 = Some (r, s') \<and>
    packet_kept 1 0 0x0a000002 Packet_Create Ih_make r arp_node0 s'"
  by (rule arp_lookup_returns [OF arp_node0_reach]) (simp add: arp_node0_def Arp_FindCache_def)

theorem arp_reply_releases_witness:
  "\<exists>s bs s'. Interface_Send arp_env0 5 0 Packet_Create Ih_make 0x0a000002 arp_node0 = Some s \<and>
    Arp_Serialize arp_reply0 = Some bs \<and> Arp_Receive arp_env0 5 1 bs s = Some s' \<and>
    an_out s' = [FrameSent 1 Packet_Create Ih_make 2]"
proof -
  obtain s c e where s: "Interface_Send arp_env0 5 0 Packet_Create Ih_make 0x0a000002 arp_node0 = Some s"
      "an_interfaces s = [arp_if0]" "an_out s = []" "Arp_FindCache 1 s = Some (0, c)"
      "ArpCache_Lookup 0x0a000002 c = Some e" "ae_state e = WAIT_REPLY" "ae_pending e = [(Packet_Create, Ih_make)]"
    using arp_node0_send by blast
  obtain bs n where bs: "Arp_Serialize arp_reply0 = Some bs" "Arp_Deserialize bs = Some (n, Some arp_reply0)"
    using arp_reply0_bytes by blast
  have r: "arp_reach (ae_now arp_env0) s" by (rule arp_reach.send [OF arp_node0_reach s(1)])
  have a: "ah_ipv4Source arp_reply0 = 0x0a000002" "Arp_IsReply arp_reply0" "mac_of (ah_macSource arp_reply0) = Some 2"
      "ah_macDest arp_reply0 = mac_bytes (ae_address arp_env0 1)"
      "list_ex (\<lambda>x. ah_ipv4Dest arp_reply0 = ia_local x) (if_addrs arp_if0)"
    by (simp_all add: arp_reply0_def Arp_SetReply_def Arp_IsReply_def arp_env0_def arp_if0_def Ipv4InterfaceAddress_make_def)
  have "Ipv4_GetInterface (an_interfaces s) 0 = Some arp_if0" using s(2) by (simp add: Ipv4_GetInterface_def)
  from arp_reply_releases [OF r s(4) _ s(6) bs(2) a(2-4) this a(5), of 5] s(3,5,7) a(1) arp_on_link0
  obtain s' where "Arp_Receive arp_env0 5 1 bs s = Some s'" "an_out s' = [FrameSent 1 Packet_Create Ih_make 2]"
    by auto
  with s(1) bs(1) show ?thesis by blast
qed

theorem arp_not_poisoned_witness:
  "\<exists>bs s' c'. Arp_Serialize arp_reply0 = Some bs \<and> Arp_Receive arp_env0 5 1 bs arp_node0 = Some s' \<and>
    Arp_FindCache 1 s' = Some (0, c') \<and> ArpCache_Lookup 0x0a000002 c' = None"
proof -
  obtain bs n where bs: "Arp_Serialize arp_reply0 = Some bs" "Arp_Deserialize bs = Some (n, Some arp_reply0)"
    using arp_reply0_bytes by blast
  have c: "Arp_FindCache 1 arp_node0 = Some (0, ArpCache_default 0)"
    by (simp add: arp_node0_def Arp_FindCache_def)
  have l: "ArpCache_Lookup 0x0a000002 (ArpCache_default 0) = None"
    by (simp add: ArpCache_default_def ArpCache_Lookup_def)
  have i: "Ipv4_GetInterface (an_interfaces arp_node0) 0 = Some arp_if0"
    by (simp add: arp_node0_def Ipv4_GetInterface_def)
  have a: "Arp_IsReply arp_reply0" "\<not> Arp_IsRequest arp_reply0" "ah_ipv4Source arp_reply0 = 0x0a000002"
    by (simp_all add: arp_reply0_def Arp_SetReply_def Arp_IsReply_def Arp_IsRequest_def
      ARP_TYPE_REPLY_def ARP_TYPE_REQUEST_def)
  have "Arp_receive_reply arp_env0 5 1 0 arp_reply0 arp_node0 = Some (arp_log [ArpReplyDropped arp_reply0] arp_node0)"
    using c l a(3) by (simp add: Arp_receive_reply_def)
  then have "\<exists>s'. receive_loop arp_env0 5 1 0 arp_reply0 as arp_node0 = Some s'" for as
    using a(1,2) by (induction as) simp_all
  then obtain s' where s': "Arp_Receive arp_env0 5 1 bs arp_node0 = Some s'"
    using bs(2) c i by (auto simp: Arp_Receive_def)
  from arp_not_poisoned [OF arp_node0_reach s' c, of "0x0a000002"] l bs(1) s' show ?thesis by auto
qed

end
