(* ===== verification/Spec2Isabelle.thy ===== *)
theory Spec2Isabelle
  imports Aodv_Attack Simulator_Properties Tcp_Rx_Properties Ipv4_Broadcast Ipv4_Delivery
    Arp_Properties
begin

text \<open>
  A verification development for this fork of ns-3: its AODV routing protocol, with the
  blackhole and wormhole attackers and the round-trip-time wormhole detector the fork adds; the
  discrete-event engine that runs every simulation, with its event containers; and the IPv4 stack
  the protocol runs on, from address resolution to the receive buffer of TCP.

  The program. A node runs one \<open>RoutingProtocol\<close> (src/aodv/model/aodv-routing-protocol.cc). It
  owns a routing table (aodv-rtable.cc), a queue of data packets that wait for a route
  (aodv-rqueue.cc), two caches of identifiers seen recently (aodv-id-cache.cc, aodv-dpd.cc), a
  table of neighbours (aodv-neighbor.cc, which consults the ARP caches of
  src/internet/model/arp-cache.cc), timers, one unicast and one broadcast socket per interface,
  and the maps of the detector: pending probes, statistics per neighbour, neighbours under
  verification and neighbours suspected. The IP layer calls \<open>RouteOutput\<close> and \<open>RouteInput\<close> for
  data packets and the \<open>Notify\<close> functions when interfaces change; sockets call \<open>RecvAodv\<close> for
  control packets (aodv-packet.cc); the simulator calls the timer functions and the scheduled
  sends.

  The engine. \<open>DefaultSimulatorImpl\<close> (src/core/model/default-simulator-impl.cc) keeps the time, the
  running event, a counter of event ids and a \<open>Scheduler\<close> that holds the pending events;
  \<open>Schedule\<close>, \<open>Cancel\<close>, \<open>Remove\<close> and \<open>IsExpired\<close> work on event ids (event-id.cc), \<open>Run\<close> takes the
  next event from the container until it is empty or \<open>Stop\<close> was called. There are five containers:
  a list, a map, a priority queue, a binary heap and a calendar queue.

  The stack (src/internet/model). \<open>Ipv4L3Protocol\<close> (ipv4-l3-protocol.cc) owns the interfaces and the
  transport protocols of a node, gives packets their header and identification, cuts and collects
  fragments, forwards, recognises duplicates and delivers; it asks a routing protocol, which may be
  \<open>Ipv4ListRouting\<close> over several, \<open>Ipv4StaticRouting\<close> among them. \<open>Ipv4Interface::Send\<close>
  asks \<open>ArpL3Protocol\<close> (arp-l3-protocol.cc) for the hardware address of the next hop. The segments TCP
  receives go into \<open>TcpRxBuffer\<close> (tcp-rx-buffer.cc).

  Theories and sources.
  \<^item> \<open>Prelude\<close>: machine integers, simulated time, \<^verbatim>\<open>std::map\<close> as an association list in key
    order, assertions. \<open>None\<close> as the result of an operation is an abort, a failed assertion or
    undefined behaviour of the code.
  \<^item> \<open>Net_Base\<close>: IPv4 addresses and interfaces, packets, buffers, timers.
  \<^item> \<open>Fixed_Time\<close>: the Q64.64 numbers under \<^verbatim>\<open>ns3::Time\<close> (src/core/model/int64x64-128.cc) and
    the conversions from and to doubles.
  \<^item> \<open>Id_Cache\<close>, \<open>Rtable\<close>, \<open>Rqueue\<close>, \<open>Arp_Cache\<close>, \<open>Neighbor\<close>, \<open>Aodv_Packet\<close>: the components
    of AODV, each with its record, its operations, its invariant and its contract.
  \<^item> \<open>Aodv_State\<close>: the record of a node, its attributes and their defaults, the log of effects
    (packets sent, callbacks called) and the pending simulator events.
  \<^item> \<open>Aodv_Route\<close>, \<open>Aodv_Rerr\<close>, \<open>Wormhole\<close>, \<open>Aodv_Send\<close>, \<open>Aodv_Recv\<close>, \<open>Aodv_Data\<close>,
    \<open>Aodv_Iface\<close>: the functions of aodv-routing-protocol.cc, one definition per function and one
    for each longer branch, under the names of the code.
  \<^item> \<open>Aodv_Node\<close>: the events of a node, one step of it, and its runs and reachable states.
  \<^item> \<open>Rerr_Invariants\<close>, \<open>Aodv_Invariants\<close>: contracts of predicates that survive the elementary
    updates the handlers are made of, and from them every handler, every event and every run.
  \<^item> \<open>Aodv_Attack\<close>: the black hole attack from end to end.

  \<^item> \<open>Event_Scheduler\<close>: event keys, events, their order, the operations of a \<open>Scheduler\<close> as a
    record, and its contract as the locales \<open>event_queue\<close> and \<open>event_store\<close> (with removal).
  \<^item> \<open>List_Scheduler\<close>, \<open>Map_Scheduler\<close>, \<open>Priority_Queue_Scheduler\<close>, \<open>Heap_Scheduler\<close>,
    \<open>Calendar_Scheduler\<close>: the containers, each shown to meet the contract, the heap without
    removal. \<open>Scheduler_Agreement\<close>: they answer alike, and what removal does to the heap.
  \<^item> \<open>Simulator_Impl\<close>: the engine over any container, its steps and its invariant.
    \<open>Simulator_Order\<close>: every step keeps the invariant (locale \<open>engine\<close>). \<open>Simulator_Run\<close>: a run is
    a sequence of steps. \<open>Simulator_Ends\<close>: bounded programs end. \<open>Simulator_Pair\<close>: two containers
    side by side (locale \<open>store_pair\<close>). \<open>Simulator_Properties\<close>: the results on the code's containers.

  \<^item> \<open>Ipv4_Static_Routing\<close>, \<open>Ipv4_Static_Properties\<close> (ipv4-static-routing.cc and its entries) and
    \<open>Ipv4_List_Routing\<close> (ipv4-list-routing.cc): the tables, lookups, and protocols by priority.
  \<^item> \<open>Ipv4_Header\<close>: the header of ipv4-header.cc, its wire format and the Internet checksum.
  \<^item> \<open>Ipv4_Fragments\<close>: cutting packets, the buffers of fragments and their time-outs.
    \<open>Ipv4_Reassembly\<close>, \<open>Ipv4_Collect\<close>, \<open>Ipv4_Fragment_Run\<close>: fragments as tiles of a packet, what the
    buffer knows of them, and runs of receptions and time-outs.
  \<^item> \<open>Ipv4_Layer\<close>: the protocol object of ipv4-l3-protocol.cc. \<open>Ipv4_Layer_Properties\<close>:
    identifications, forwarding and duplicates. \<open>Ipv4_Broadcast\<close>: what limited broadcast and
    link-local multicast put on each interface. \<open>Ipv4_Delivery\<close>: from \<open>Send\<close> of one node to the transport
    protocol of another.
  \<^item> \<open>Arp_Protocol\<close>, \<open>Arp_Properties\<close>: arp-header.cc, arp-l3-protocol.cc and \<open>Ipv4Interface::Send\<close>
    over the caches of \<open>Arp_Cache\<close>, and the reachable states of a node's caches.
  \<^item> \<open>Seq_Number\<close> (src/network/utils/sequence-number.h), \<open>Tcp_Rx_Buffer\<close> (tcp-rx-buffer.cc): the
    receive buffer. \<open>Tcp_Reassembly\<close>, \<open>Tcp_Rx_Positions\<close>: its loops on sequence numbers are those on
    positions of an unbounded stream. \<open>Tcp_Rx_Run\<close>, \<open>Tcp_Rx_Properties\<close>: its contract, runs of
    segments and reads, and the two functions of tcp-socket-base.cc that look at its window.

  What the theorems show. The caches, the table, the queue and the headers meet their abstract
  descriptions: the cache refines a map from pairs to expiry times, lookups of the table are
  sound and its entries live and die as described, the queue conserves packets and is first in
  first out, messages are read back as built. The handlers do what the protocol wants: a request
  is processed once and forwarded once on every interface, floods are bounded by their TTL, a route
  error and, when the lost neighbour has a table entry, a broken link invalidate exactly the routes concerned, waiting packets are released in order or given up, a search
  ends. For the attack and the detector: what a malicious node answers, when a
  sender is rejected and for how long, and that a neighbour that stays silent under
  verification is never detected. For a whole node: its data structures are well-formed in every reachable state of an unchanged
  configuration (\<open>SetMaxQueueLen\<close> at run time is a function but no event), and between two expiries
  of the rate timer it originates no more requests than its limit. For the engine: events run in key order and none is
  lost, an id tells whether its event is pending, a cancelled event never runs, a bounded program
  ends, and the container does not matter, but for the heap, whose removal keeps the order only
  in the cases described. For the stack: the table answers with the route of the
  longest prefix and least metric, a packet is delivered upwards at most once, headers are read back
  and a corrupted byte is noticed, fragments in any order give back the packet sent, identifications
  do not repeat too soon, forwarding sends every piece to the next hop with the TTL one less, a broadcast
  goes out on every interface but with the tags of the sender only on the first, a datagram sent on
  one node reaches the transport protocol of the other as often as its frames arrive complete,
  address resolution never meets its fatal error, sends what waited and cannot be poisoned, and
  the application reads the bytes of the TCP stream in order, each once. Several theorems show behaviour that the comments
  do not announce or that is a defect; they are named so in their text.

  Interfaces. \<open>expiring_store\<close>, \<open>codec\<close> and \<open>fixed_codec\<close>, \<open>route_store\<close> and the like are locales
  interpreted on the code's definitions in the theory that declares these. The contracts of predicates
  (\<open>purge_invariant\<close>, \<open>route_invariant\<close>, \<open>table_invariant\<close>, \<open>node_invariant\<close>) extend one another
  and are interpreted for each invariant. The engine knows its container by \<open>event_store\<close> only,
  and the containers are its interpretations. What the routing list relies on in a protocol is
  \<open>input_protocol\<close>, met by static routing.

  Bounds and fuel. The loop of \<open>SendPacketFromQueue\<close> takes the length of the queue as fuel, and
  it is shown that it never runs out, because each round removes a packet; so does the loop that
  sends the packets behind an ARP entry, whose fuel is the number of these packets (\<open>flush_pending_enough\<close>). The digit loop of
  the division in \<open>Fixed_Time\<close> has 130 rounds of fuel, more than the 128 bits it can shift. The search
  of the calendar has one round per bucket. Event ids have 32 bits: the theorems on the engine hold
  as long as \<open>uids_used\<close> stays below \<open>2 ^ 32\<close>, which \<open>simulation_returns\<close> derives from the calls a
  program makes. \<open>Run\<close>, \<open>Destroy\<close>, \<open>DoDispose\<close>, \<open>SetScheduler\<close> and the loop of \<open>DoFragmentation\<close> may loop
  forever and are partial functions; that they return is a theorem where it is claimed. All other
  loops are structural or have a termination proof. Datagrams have less than 65536 bytes, which their
  16-bit fields can describe, and are cut for MTUs of at least 28 bytes; the stream theorems of TCP hold while the window
  and what lies beyond it stay below \<open>2 ^ 29\<close> bytes, far less than the half range in which
  sequence numbers can be compared.

  Modelling choices. Pointers to sockets and devices are numbers. An operation that sends
  appends to a log (\<open>m_out\<close>, \<open>l3_out\<close>, \<open>an_out\<close>), and a send through \<open>Simulator::Schedule\<close> is an element of
  \<open>m_pending\<close>. An event of the engine is the sequence of calls it makes, a program the function that
  gives these calls from the events run so far. Callbacks into other objects are tokens in the log; what the called object does
  later reaches the node as a further event. Random numbers are drawn from the environment, and the
  32-bit hash of duplicate detection is a parameter.
  Doubles are rationals rounded half to even after each operation, without infinities,
  subnormals and NaN. Integers keep their width, signed subtraction that overflows is decided by
  a parameter of the environment, since the code relies on it; negation of the least 128-bit
  number, undefined in C++, wraps. The loop of the ARP time-out requests and gives up entry by entry,
  and its effects keep that order.

  Not modelled: reference counts and locking in the engine, the real-time and distributed engines,
  the arrangement of the vector under \<^verbatim>\<open>std::priority_queue\<close> (whether it is a heap is), logging, tracing and printing, the attribute system, the packet UIDs of control packets,
  the wire format of packet tags and the tags of reassembled packets, overflow of the 64-bit time, the
  registration of protocol handlers with nodes and the traffic control layer, UDP, ICMP, IPv6, the sending
  side and the state machine of TCP, the Wi-Fi layer that reports transmission errors, the helper
  classes (but one function) and the simulation scripts, and the other modules of ns-3, which this fork carries
  unchanged.
\<close>

end
